(* ===== verification/KPrelude.thy ===== *)
theory KPrelude
  imports Main "HOL-Library.Word" "HOL-Library.Monad_Syntax"
begin

text \<open>
  The types, constants and generic lemmas that the components of the kernel share:
  the integer types of \<^verbatim>\<open>lib/types.h\<close>, the error values and error pointers of
  \<^verbatim>\<open>lib/error.h\<close> and \<^verbatim>\<open>lib/error.c\<close>, the rounding and bit macros of
  \<^verbatim>\<open>lib/common_defs.h\<close> and the constants of \<^verbatim>\<open>kernel/memlayout.h\<close>.

  A C function that may stop the machine returns an \<open>option\<close>: \<open>None\<close> is a kernel
  \<^verbatim>\<open>panic\<close> (a failed \<^verbatim>\<open>ASSERT\<close> included) or an access through a null or
  out-of-range pointer, whose handler \<^verbatim>\<open>exception_handler\<close> never returns either.
  Error codes are ordinary results: an \<^verbatim>\<open>errno_t\<close> is an \<open>int\<close>, \<open>0\<close> for
  \<^verbatim>\<open>EOK\<close> and a negated value of \<^verbatim>\<open>ERR_LIST\<close> for an error.
\<close>

unbundle bit_operations_syntax

named_theorems kdefs \<open>definitions of small accessors that proofs unfold\<close>
named_theorems kword \<open>facts on 64-bit words used by the component proofs\<close>

section \<open>Integer types\<close>

type_synonym u8 = "8 word"
type_synonym u16 = "16 word"
type_synonym u32 = "32 word"
type_synonym u64 = "64 word"
type_synonym usize = "64 word"
type_synonym errno_t = int

text \<open>\<open>SIZE_MAX\<close> of \<^verbatim>\<open>stdint.h\<close>.\<close>

abbreviation SIZE_MAX :: usize where
  "SIZE_MAX \<equiv> - 1"

section \<open>Error values\<close>

definition ERR_LIST :: "(string \<times> int) list" where
  "ERR_LIST =
    [(''EOK'', 0), (''EPERM'', 1), (''ENOENT'', 2), (''ESRCH'', 3), (''EINTR'', 4),
     (''EIO'', 5), (''ENXIO'', 6), (''E2BIG'', 7), (''ENOEXEC'', 8), (''EBADF'', 9),
     (''ECHILD'', 10), (''EAGAIN'', 11), (''ENOMEM'', 12), (''EACCES'', 13), (''EFAULT'', 14),
     (''ENOTBLK'', 15), (''EBUSY'', 16), (''EEXIST'', 17), (''EXDEV'', 18), (''ENODEV'', 19),
     (''ENOTDIR'', 20), (''EISDIR'', 21), (''EINVAL'', 22), (''ENFILE'', 23), (''EMFILE'', 24),
     (''ENOTTY'', 25), (''ETXTBSY'', 26), (''EFBIG'', 27), (''ENOSPC'', 28), (''ESPIPE'', 29),
     (''EROFS'', 30), (''EMLINK'', 31), (''EPIPE'', 32), (''EDOM'', 33), (''ERANGE'', 34),
     (''EDEADLOCK'', 35), (''ENAMETOOLONG'', 36), (''ENOLCK'', 37), (''ENOSYS'', 38),
     (''ENOTEMPTY'', 39), (''ELOOP'', 40), (''ENOMSG'', 42), (''EIDRM'', 43), (''ECHRNG'', 44),
     (''EL2NSYNC'', 45), (''EL3HLT'', 46), (''EL3RST'', 47), (''ELNRNG'', 48), (''EUNATCH'', 49),
     (''ENOCSI'', 50), (''EL2HLT'', 51), (''EBADE'', 52), (''EBADR'', 53), (''EXFULL'', 54),
     (''ENOANO'', 55), (''EBADRQC'', 56), (''EBADSLT'', 57), (''EBFONT'', 59), (''ENOSTR'', 60),
     (''ENODATA'', 61), (''ETIME'', 62), (''ENOSR'', 63), (''ENONET'', 64), (''ENOPKG'', 65),
     (''EREMOTE'', 66), (''ENOLINK'', 67), (''EADV'', 68), (''ESRMNT'', 69), (''ECOMM'', 70),
     (''EPROTO'', 71), (''EMULTIHOP'', 72), (''EDOTDOT'', 73), (''EBADMSG'', 74),
     (''EOVERFLOW'', 75), (''ENOTUNIQ'', 76), (''EBADFD'', 77), (''EREMCHG'', 78),
     (''ELIBACC'', 79), (''ELIBBAD'', 80), (''ELIBSCN'', 81), (''ELIBMAX'', 82),
     (''ELIBEXEC'', 83), (''EILSEQ'', 84), (''ERESTART'', 85), (''ESTRPIPE'', 86),
     (''EUSERS'', 87), (''ENOTSOCK'', 88), (''EDESTADDRREQ'', 89), (''EMSGSIZE'', 90),
     (''EPROTOTYPE'', 91), (''ENOPROTOOPT'', 92), (''EPROTONOSUPPORT'', 93),
     (''ESOCKTNOSUPPORT'', 94), (''EOPNOTSUPP'', 95), (''EPFNOSUPPORT'', 96),
     (''EAFNOSUPPORT'', 97), (''EADDRINUSE'', 98), (''EADDRNOTAVAIL'', 99), (''ENETDOWN'', 100),
     (''ENETUNREACH'', 101), (''ENETRESET'', 102), (''ECONNABORTED'', 103), (''ECONNRESET'', 104),
     (''ENOBUFS'', 105), (''EISCONN'', 106), (''ENOTCONN'', 107), (''ESHUTDOWN'', 108),
     (''ETOOMANYREFS'', 109), (''ETIMEDOUT'', 110), (''ECONNREFUSED'', 111), (''EHOSTDOWN'', 112),
     (''EHOSTUNREACH'', 113), (''EALREADY'', 114), (''EINPROGRESS'', 115), (''ESTALE'', 116),
     (''EUCLEAN'', 117), (''ENOTNAM'', 118), (''ENAVAIL'', 119), (''EISNAM'', 120),
     (''EREMOTEIO'', 121), (''EDQUOT'', 122), (''ENOMEDIUM'', 123), (''EMEDIUMTYPE'', 124),
     (''ECANCELED'', 125), (''ENOKEY'', 126), (''EKEYEXPIRED'', 127), (''EKEYREVOKED'', 128),
     (''EKEYREJECTED'', 129), (''EOWNERDEAD'', 130), (''ENOTRECOVERABLE'', 131),
     (''ERFKILL'', 132), (''EHWPOISON'', 133), (''EMAXERR'', 134)]"

text \<open>The names the modelled code uses, with their values from the list.\<close>

abbreviation EOK :: errno_t where "EOK \<equiv> 0"
abbreviation ENOENT :: errno_t where "ENOENT \<equiv> 2"
abbreviation EBADF :: errno_t where "EBADF \<equiv> 9"
abbreviation ECHILD :: errno_t where "ECHILD \<equiv> 10"
abbreviation ENOMEM :: errno_t where "ENOMEM \<equiv> 12"
abbreviation EFAULT :: errno_t where "EFAULT \<equiv> 14"
abbreviation ENODEV :: errno_t where "ENODEV \<equiv> 19"
abbreviation EINVAL :: errno_t where "EINVAL \<equiv> 22"
abbreviation EMFILE :: errno_t where "EMFILE \<equiv> 24"
abbreviation ESPIPE :: errno_t where "ESPIPE \<equiv> 29"
abbreviation ENAMETOOLONG :: errno_t where "ENAMETOOLONG \<equiv> 36"
abbreviation ENOSYS :: errno_t where "ENOSYS \<equiv> 38"
abbreviation EMAXERR :: errno_t where "EMAXERR \<equiv> 134"

text \<open>
  \<^verbatim>\<open>error_strings\<close> is an array with designated initialisers: an index that the list
  skips (41 and 58) holds a null pointer, which is \<open>None\<close> here.
\<close>

definition str_err_raw :: "errno_t \<Rightarrow> string option" where
  "str_err_raw err = map_of (map prod.swap ERR_LIST) err"

definition str_err :: "int \<Rightarrow> string option" where
  "str_err err =
     (let err = (if err < 0 then - err else err)
      in if EOK \<le> err \<and> err \<le> EMAXERR then str_err_raw err else Some ''nil'')"

definition IS_ERR_VALUE :: "u64 \<Rightarrow> bool" where
  "IS_ERR_VALUE x \<longleftrightarrow> word_of_int (- EMAXERR) \<le> x"

definition IS_ERR :: "u64 \<Rightarrow> bool" where
  "IS_ERR value = IS_ERR_VALUE value"

definition ERR_TO_PTR :: "errno_t \<Rightarrow> u64" where
  "ERR_TO_PTR error = word_of_int error"

definition PTR_TO_ERR :: "u64 \<Rightarrow> errno_t" where
  "PTR_TO_ERR ptr = sint ptr"

definition PTR_ERR_OR_OK :: "u64 \<Rightarrow> errno_t" where
  "PTR_ERR_OR_OK ptr = (if IS_ERR ptr then PTR_TO_ERR ptr else EOK)"

section \<open>Rounding and bit macros\<close>

definition round_mask :: "usize \<Rightarrow> usize" where
  "round_mask y = y - 1"

definition round_up :: "usize \<Rightarrow> usize \<Rightarrow> usize" where
  "round_up x y = ((x - 1) OR round_mask y) + 1"

definition round_down :: "usize \<Rightarrow> usize \<Rightarrow> usize" where
  "round_down x y = x AND NOT (round_mask y)"

definition IS_ALIGNED :: "usize \<Rightarrow> usize \<Rightarrow> bool" where
  "IS_ALIGNED value alignment \<longleftrightarrow> value mod alignment = 0"

definition SET_BIT :: "u8 \<Rightarrow> nat \<Rightarrow> u8" where
  "SET_BIT value bit_idx = value OR push_bit bit_idx 1"

definition CLEAR_BIT :: "u8 \<Rightarrow> nat \<Rightarrow> u8" where
  "CLEAR_BIT value bit_idx = value AND NOT (push_bit bit_idx 1)"

definition GET_BIT :: "u8 \<Rightarrow> nat \<Rightarrow> u8" where
  "GET_BIT value bit_idx = drop_bit bit_idx value AND 1"

definition EXTRACT_BITS :: "u64 \<Rightarrow> nat \<Rightarrow> nat \<Rightarrow> u64" where
  "EXTRACT_BITS value high low =
     drop_bit low value AND (push_bit (high - low + 1) 1 - 1)"

section \<open>Memory layout constants\<close>

definition PAGE_SIZE :: usize where
  "PAGE_SIZE = 4096"

definition IS_PAGE_ALIGNED :: "usize \<Rightarrow> bool" where
  "IS_PAGE_ALIGNED value = IS_ALIGNED value PAGE_SIZE"

definition USER_VM_RANGE_BASE :: usize where
  "USER_VM_RANGE_BASE = 0x10000"

definition USER_VM_RANGE_SIZE :: usize where
  "USER_VM_RANGE_SIZE = 0x40000000"

definition USER_VM_RANGE_END :: usize where
  "USER_VM_RANGE_END = USER_VM_RANGE_BASE + USER_VM_RANGE_SIZE"

section \<open>Byte buffers\<close>

text \<open>
  \<^verbatim>\<open>memcpy\<close> out of and into an array of bytes: the \<open>n\<close> bytes at
  \<open>off\<close>, and the array with \<open>d\<close> written at \<open>off\<close>. An access past the end
  of the array is \<open>None\<close>.
\<close>

definition get_bytes :: "nat \<Rightarrow> nat \<Rightarrow> 'b list \<Rightarrow> 'b list option" where
  "get_bytes off n buf = (if off + n \<le> length buf then Some (take n (drop off buf)) else None)"

definition put_bytes :: "nat \<Rightarrow> 'b list \<Rightarrow> 'b list \<Rightarrow> 'b list option" where
  "put_bytes off d buf =
     (if off + length d \<le> length buf then Some (take off buf @ d @ drop (off + length d) buf)
      else None)"

lemma length_put_bytes: "put_bytes off d buf = Some buf' \<Longrightarrow> length buf' = length buf"
  by (auto simp: put_bytes_def split: if_splits)

lemma put_bytes_same: "put_bytes off d buf = Some buf' \<Longrightarrow> take (length d) (drop off buf') = d"
  by (auto simp: put_bytes_def min_def split: if_splits)

lemma put_bytes_other:
  "put_bytes off d buf = Some buf' \<Longrightarrow> o2 + n \<le> off \<or> off + length d \<le> o2 \<Longrightarrow>
   take n (drop o2 buf') = take n (drop o2 buf)"
  by (auto simp: put_bytes_def min_def drop_append take_append drop_take split: if_splits)

section \<open>Words and natural numbers\<close>

lemma unat_u64_less [simp]: "unat (x :: u64) < 18446744073709551616"
  using unsigned_less [of x] by simp

lemma unat_SIZE_MAX [simp]: "unat SIZE_MAX = 18446744073709551615"
  by (simp add: unsigned_minus_1_eq_mask mask_eq_exp_minus_1)

lemma unat_exp: "k < 64 \<Longrightarrow> unat (2 ^ k :: u64) = 2 ^ k"
  by (subst push_bit_of_1 [symmetric])
    (simp only: unsigned_push_bit_eq unsigned_1, simp add: push_bit_eq_mult take_bit_nat_eq_self)

lemma unat_add_u64 [kword]:
  "unat a + unat b < 2 ^ 64 \<Longrightarrow> unat (a + b :: u64) = unat a + unat b"
  by (simp add: unat_word_ariths)

lemma unat_sub_u64 [kword]: "b \<le> a \<Longrightarrow> unat (a - b :: u64) = unat a - unat b"
  by (simp add: unat_sub)

lemma unat_mult_u64 [kword]:
  "unat a * unat b < 2 ^ 64 \<Longrightarrow> unat (a * b :: u64) = unat a * unat b"
  by (simp add: unat_word_ariths)

lemma unat_Suc_u64 [kword]: "a < b \<Longrightarrow> unat (a + 1 :: u64) = unat a + 1"
proof -
  assume "a < b"
  then have "unat a + 1 < 2 ^ 64"
    using unat_u64_less [of b] by (simp add: word_less_nat_alt del: unat_u64_less)
  then show ?thesis by (simp add: unat_word_ariths)
qed

lemma unat_succ_mod:
  "unat a < unat c \<Longrightarrow> unat ((a + 1) mod c :: u64) = (if unat a + 1 = unat c then 0 else unat a + 1)"
  by (simp add: unat_mod_distrib unat_Suc_u64 [of a c] word_less_nat_alt)

lemma u64_eq_iff_unat: "(a :: u64) = b \<longleftrightarrow> unat a = unat b"
  by (simp add: word_unat_eq_iff)

section \<open>Assertions and counting loops\<close>

text \<open>
  \<^verbatim>\<open>ASSERT(c, ...)\<close> stops the machine when \<open>c\<close> is false. A counting loop
  \<^verbatim>\<open>for (i = a; i < b; i++)\<close> visits \<open>u64_range a b\<close>; a body that may stop the
  machine is folded over it with \<open>foldM\<close>.
\<close>

definition ASSERT :: "bool \<Rightarrow> unit option" where
  "ASSERT c = (if c then Some () else None)"

primrec foldM :: "('x \<Rightarrow> 's \<Rightarrow> 's option) \<Rightarrow> 'x list \<Rightarrow> 's \<Rightarrow> 's option" where
  "foldM f [] s = Some s"
| "foldM f (x # xs) s = Option.bind (f x s) (foldM f xs)"

definition u64_range :: "u64 \<Rightarrow> u64 \<Rightarrow> u64 list" where
  "u64_range a b = map of_nat [unat a..<unat b]"

lemma ASSERT_simps [simp]: "ASSERT True = Some ()" "ASSERT False = None"
  by (simp_all add: ASSERT_def)

lemma ASSERT_bind [simp]: "Option.bind (ASSERT c) f = (if c then f () else None)"
  by simp

lemma foldM_append: "foldM f (xs @ ys) s = Option.bind (foldM f xs s) (foldM f ys)"
  by (induction xs arbitrary: s) (simp_all add: bind_assoc split: Option.bind_split)

text \<open>
  The invariant rule for a loop: \<open>I k s\<close> holds of the state after \<open>k\<close> rounds.
\<close>

lemma foldM_invariant:
  assumes "I 0 s"
    and "\<And>k s. k < length xs \<Longrightarrow> I k s \<Longrightarrow> \<exists>s'. f (xs ! k) s = Some s' \<and> I (Suc k) s'"
  shows "\<exists>s'. foldM f xs s = Some s' \<and> I (length xs) s'"
  using assms
proof (induction xs arbitrary: s I)
  case (Cons x xs)
  obtain s1 where s1: "f x s = Some s1" "I (Suc 0) s1" using Cons.prems(2) [of 0] Cons.prems(1) by auto
  have "\<exists>s'. foldM f xs s1 = Some s' \<and> I (Suc (length xs)) s'"
    by (rule Cons.IH [of "\<lambda>k. I (Suc k)"]) (use s1 Cons.prems(2) [of "Suc _"] in auto)
  then show ?case by (simp add: s1)
qed simp

lemma length_u64_range [simp]: "length (u64_range a b) = unat b - unat a"
  by (simp add: u64_range_def)

lemma u64_range_unat:
  "map unat (u64_range a b) = [unat a..<unat b]"
proof -
  have "map (\<lambda>k. unat (of_nat k :: u64)) [unat a..<unat b] = map id [unat a..<unat b]"
    by (rule map_cong) (use unat_u64_less [of b] in \<open>auto simp: unat_of_nat take_bit_nat_eq_self simp del: unat_u64_less\<close>)
  then show ?thesis by (simp add: u64_range_def comp_def)
qed

lemma unat_u64_range_nth [simp]:
  "k < unat b - unat a \<Longrightarrow> unat (u64_range a b ! k) = unat a + k"
  using arg_cong [OF u64_range_unat [of a b], of "\<lambda>xs. xs ! k"] by simp

lemma set_u64_range: "set (u64_range a b) = {x. a \<le> x \<and> x < b}"
proof -
  have "x \<in> set (u64_range a b) \<longleftrightarrow> unat x \<in> set (map unat (u64_range a b))" for x
    by (metis image_eqI image_iff list.set_map word_unat_eq_iff)
  then show ?thesis unfolding u64_range_unat by (auto simp: word_le_nat_alt word_less_nat_alt)
qed

section \<open>Rounding to a power of two\<close>

lemma unat_round_down:
  assumes "k < 64"
  shows "unat (round_down x (2 ^ k)) = unat x - unat x mod 2 ^ k"
proof -
  have "round_down x (2 ^ k) = push_bit k (drop_bit k x)"
    by (rule bit_eqI)
      (use assms in \<open>auto simp: round_down_def round_mask_def bit_simps simp flip: mask_eq_exp_minus_1\<close>)
  moreover have "unat x div 2 ^ k * 2 ^ k < 2 ^ 64"
    using le_less_trans [OF div_times_less_eq_dividend unsigned_less [of x]] by simp
  then have "unat (push_bit k (drop_bit k x)) = unat x div 2 ^ k * 2 ^ k"
    by (simp only: unsigned_push_bit_eq unsigned_drop_bit_eq)
      (simp add: push_bit_eq_mult drop_bit_eq_div take_bit_nat_eq_self)
  ultimately show ?thesis by (simp only: minus_mod_eq_div_mult)
qed

lemma round_up_round_down: "round_up x (2 ^ k) = round_down (x - 1) (2 ^ k) + 2 ^ k"
proof -
  have "(x - 1) OR mask k = ((x - 1) AND NOT (mask k)) + mask k"
    by (subst disjunctive_add_eq_or) (auto simp: bit_simps bit_eq_iff)
  then show ?thesis
    by (simp add: round_up_def round_down_def round_mask_def mask_eq_exp_minus_1)
qed

lemma unat_round_up:
  assumes "k < 64" "unat x + 2 ^ k \<le> 2 ^ 64" "0 < x"
  shows "unat (round_up x (2 ^ k)) = (unat x + (2 ^ k - 1)) div 2 ^ k * 2 ^ k"
proof -
  let ?n = "unat x - 1"
  have n: "unat (x - 1) = ?n" and x: "1 \<le> unat x" using assms(3)
    by (simp_all add: unat_minus_one word_greater_zero_iff unat_eq_zero Suc_le_eq unat_gt_0)
  have p: "unat (2 ^ k :: u64) = 2 ^ k" using assms(1) by (rule unat_exp)
  have "?n - ?n mod 2 ^ k + 2 ^ k < 2 ^ 64" using assms(2) x by simp
  then have "unat (round_up x (2 ^ k)) = ?n - ?n mod 2 ^ k + 2 ^ k"
    using assms(1) by (simp add: round_up_round_down unat_word_ariths(1) unat_round_down n p)
  also have "\<dots> = (?n div 2 ^ k + 1) * 2 ^ k" by (simp add: minus_mod_eq_div_mult)
  also have "?n div 2 ^ k + 1 = (?n + 2 ^ k) div 2 ^ k" by (simp add: div_add_self2)
  also have "?n + 2 ^ k = unat x + (2 ^ k - 1)" using x by simp
  finally show ?thesis .
qed

lemma PAGE_SIZE_exp: "PAGE_SIZE = 2 ^ 12"
  by (simp add: PAGE_SIZE_def)

lemma unat_PAGE_SIZE [simp]: "unat PAGE_SIZE = 4096"
  by (simp add: PAGE_SIZE_def)

lemma IS_PAGE_ALIGNED_unat: "IS_PAGE_ALIGNED v \<longleftrightarrow> 4096 dvd unat v"
proof -
  have "v mod PAGE_SIZE = 0 \<longleftrightarrow> unat (v mod PAGE_SIZE) = 0" by (simp only: unat_eq_zero)
  then show ?thesis
    by (simp add: IS_PAGE_ALIGNED_def IS_ALIGNED_def unat_mod_distrib dvd_eq_mod_eq_0)
qed

section \<open>Single bits\<close>

lemma EXTRACT_BITS_take_bit:
  "EXTRACT_BITS v high low = take_bit (high - low + 1) (drop_bit low v)"
  by (simp only: EXTRACT_BITS_def take_bit_eq_mask push_bit_of_1 mask_eq_exp_minus_1)

lemma GET_BIT_bit: "GET_BIT v i = of_bool (bit v i)"
  by (simp add: GET_BIT_def and_one_eq bit_iff_odd_drop_bit odd_iff_mod_2_eq_one)

lemma bit_SET_BIT: "i < 8 \<Longrightarrow> bit (SET_BIT v i) j \<longleftrightarrow> bit v j \<or> j = i"
  by (auto simp: SET_BIT_def bit_simps dest: bit_imp_le_length)

lemma bit_CLEAR_BIT: "bit (CLEAR_BIT v i) j \<longleftrightarrow> bit v j \<and> j \<noteq> i"
  by (auto simp: CLEAR_BIT_def bit_simps dest: bit_imp_le_length)

section \<open>Error pointers\<close>

lemma uint_neg_err:
  "1 \<le> e \<Longrightarrow> e \<le> EMAXERR \<Longrightarrow> uint (word_of_int (- e) :: u64) = 2 ^ 64 - e"
  by (simp only: uint_word_of_int) (simp add: zmod_zminus1_eq_if)

lemma IS_ERR_uint: "IS_ERR p \<longleftrightarrow> 2 ^ 64 - EMAXERR \<le> uint p"
  by (simp only: IS_ERR_def IS_ERR_VALUE_def word_le_def uint_neg_err)

lemma IS_ERR_unat: "IS_ERR p \<longleftrightarrow> 2 ^ 64 - 134 \<le> unat p"
proof -
  obtain n where "uint p = int n" "unat p = n" using uint_nat [of p] by metis
  then show ?thesis unfolding IS_ERR_uint by simp
qed

lemma PTR_TO_ERR_ERR_TO_PTR:
  "1 \<le> e \<Longrightarrow> e \<le> EMAXERR \<Longrightarrow> PTR_TO_ERR (ERR_TO_PTR (- e)) = - e"
  unfolding PTR_TO_ERR_def ERR_TO_PTR_def
  by (simp only: sint_sbintrunc') (simp add: signed_take_bit_int_eq_self)

lemma IS_ERR_iff_errno:
  "IS_ERR p \<longleftrightarrow> (\<exists>e. 1 \<le> e \<and> e \<le> EMAXERR \<and> p = ERR_TO_PTR (- e))"
proof
  assume "IS_ERR p"
  then have "2 ^ 64 - EMAXERR \<le> uint p" by (simp only: IS_ERR_uint)
  moreover have "uint p < 2 ^ 64" using uint_bounded [of p] by simp
  moreover have "p = word_of_int (- (2 ^ 64 - uint p))"
    by (simp add: word_of_int_eq_iff)
  ultimately show "\<exists>e. 1 \<le> e \<and> e \<le> EMAXERR \<and> p = ERR_TO_PTR (- e)"
    by (intro exI [of _ "2 ^ 64 - uint p"]) (simp add: ERR_TO_PTR_def)
next
  assume "\<exists>e. 1 \<le> e \<and> e \<le> EMAXERR \<and> p = ERR_TO_PTR (- e)"
  then show "IS_ERR p"
    by (auto simp: IS_ERR_uint ERR_TO_PTR_def uint_neg_err simp del: of_int_minus)
qed

lemma IS_ERR_ENOMEM [simp]: "IS_ERR (ERR_TO_PTR (- ENOMEM))"
  by (simp add: IS_ERR_def IS_ERR_VALUE_def ERR_TO_PTR_def)

lemma IS_ERR_ENOENT [simp]: "IS_ERR (ERR_TO_PTR (- ENOENT))"
  by (simp add: IS_ERR_def IS_ERR_VALUE_def ERR_TO_PTR_def)

lemma IS_ERR_EBADF [simp]: "IS_ERR (ERR_TO_PTR (- EBADF))"
  by (simp add: IS_ERR_def IS_ERR_VALUE_def ERR_TO_PTR_def)

lemma ERR_LIST_sorted: "sorted_wrt (<) (map snd ERR_LIST)"
proof -
  have "successively (<) (map snd ERR_LIST)" by (simp add: ERR_LIST_def)
  then show ?thesis by (simp add: successively_iff_sorted_wrt_strong)
qed

lemma ERR_LIST_bounds: "(nm, e) \<in> set ERR_LIST \<Longrightarrow> 0 \<le> e \<and> e \<le> EMAXERR"
  by (auto simp: ERR_LIST_def)

text \<open>
  Error pointers and error codes correspond: a pointer is an error pointer exactly
  when it was made from a negated code between 1 and \<^verbatim>\<open>EMAXERR\<close>, and the code
  of such a pointer, read back by \<^verbatim>\<open>PTR_TO_ERR\<close> or
  \<^verbatim>\<open>PTR_ERR_OR_OK\<close>, is the code it was made from; every other pointer reads
  as \<^verbatim>\<open>EOK\<close>.
\<close>

theorem err_ptr_roundtrip:
  "(IS_ERR p \<longleftrightarrow> p \<in> (\<lambda>e. ERR_TO_PTR (- e)) ` {1..EMAXERR}) \<and>
   (\<forall>e \<in> {1..EMAXERR}. PTR_TO_ERR (ERR_TO_PTR (- e)) = - e \<and>
      PTR_ERR_OR_OK (ERR_TO_PTR (- e)) = - e) \<and>
   (\<not> IS_ERR p \<longrightarrow> PTR_ERR_OR_OK p = EOK)"
proof (intro conjI ballI impI)
  show "IS_ERR p \<longleftrightarrow> p \<in> (\<lambda>e. ERR_TO_PTR (- e)) ` {1..EMAXERR}"
    by (auto simp: IS_ERR_iff_errno)
next
  fix e :: int assume e: "e \<in> {1..EMAXERR}"
  then show "PTR_TO_ERR (ERR_TO_PTR (- e)) = - e" by (simp add: PTR_TO_ERR_ERR_TO_PTR)
  moreover have "IS_ERR (ERR_TO_PTR (- e))" using e by (auto simp: IS_ERR_iff_errno)
  ultimately show "PTR_ERR_OR_OK (ERR_TO_PTR (- e)) = - e" by (simp add: PTR_ERR_OR_OK_def)
next
  assume "\<not> IS_ERR p"
  then show "PTR_ERR_OR_OK p = EOK" by (simp add: PTR_ERR_OR_OK_def)
qed

theorem err_ptr_roundtrip_witness:
  "IS_ERR (ERR_TO_PTR (- ENOMEM)) \<and> PTR_TO_ERR (ERR_TO_PTR (- ENOMEM)) = - ENOMEM \<and>
   \<not> IS_ERR 0x1000 \<and> PTR_ERR_OR_OK 0x1000 = EOK"
proof -
  have "\<not> IS_ERR 0x1000" by (simp add: IS_ERR_def IS_ERR_VALUE_def)
  moreover have "(12 :: int) \<in> {1..EMAXERR}" by simp
  ultimately show ?thesis
    using err_ptr_roundtrip [of "0x1000"] err_ptr_roundtrip [of "ERR_TO_PTR (- ENOMEM)"] by blast
qed

text \<open>
  \<^verbatim>\<open>str_err\<close> finds the name of every listed error, whether the code is
  given as it is or negated.
\<close>

theorem str_err_names:
  assumes "(nm, e) \<in> set ERR_LIST"
  shows "str_err e = Some nm \<and> str_err (- e) = Some nm"
proof -
  have "distinct (map fst (map prod.swap ERR_LIST))"
    using ERR_LIST_sorted by (simp add: strict_sorted_iff comp_def)
  moreover have "(e, nm) \<in> set (map prod.swap ERR_LIST)" using assms by force
  ultimately have "str_err_raw e = Some nm" by (simp add: str_err_raw_def)
  with ERR_LIST_bounds [OF assms] show ?thesis by (auto simp: str_err_def)
qed

theorem str_err_names_witness:
  "(''EINVAL'', EINVAL) \<in> set ERR_LIST \<and> str_err (- EINVAL) = Some ''EINVAL''"
proof -
  have "(''EINVAL'', EINVAL) \<in> set ERR_LIST" by (simp add: ERR_LIST_def)
  then show ?thesis using str_err_names [of "''EINVAL''" EINVAL] by blast
qed

end
