(* ===== verification/Fifo.thy ===== *)
theory Fifo
  imports KPrelude
begin

text \<open>
  The first-in first-out contract that the kernel's queues promise to their clients. The
  locale \<open>fifo\<close> fixes the two queue operations and the relation \<open>rep q xs\<close>, "the
  state \<open>q\<close> holds exactly the elements \<open>xs\<close>, oldest first"; \<open>ok xs x\<close> says when
  \<open>x\<close> may be added. The intrusive list (run queues, wait queues) and the ring buffer
  (console input) interpret it. The lemmas about whole sequences of operations are proved once,
  here.
\<close>

locale fifo =
  fixes rep :: "'q \<Rightarrow> 'a list \<Rightarrow> bool"
    and ok :: "'a list \<Rightarrow> 'a \<Rightarrow> bool"
    and enq :: "'q \<Rightarrow> 'a \<Rightarrow> 'q"
    and deq :: "'q \<Rightarrow> 'q \<times> 'a option"
  assumes rep_enq: "rep q xs \<Longrightarrow> ok xs x \<Longrightarrow> rep (enq q x) (xs @ [x])"
    and rep_deq: "rep q (x # xs) \<Longrightarrow> \<exists>q'. deq q = (q', Some x) \<and> rep q' xs"
    and rep_deq_empty: "rep q [] \<Longrightarrow> deq q = (q, None)"
begin

text \<open>Adding a list of elements, and taking \<open>n\<close> elements out.\<close>

primrec enq_all :: "'q \<Rightarrow> 'a list \<Rightarrow> 'q" where
  "enq_all q [] = q"
| "enq_all q (x # xs) = enq_all (enq q x) xs"

primrec deq_n :: "nat \<Rightarrow> 'q \<Rightarrow> 'q \<times> 'a option list" where
  "deq_n 0 q = (q, [])"
| "deq_n (Suc n) q =
     (let (q', r) = deq q; (q'', rs) = deq_n n q' in (q'', r # rs))"

primrec ok_all :: "'a list \<Rightarrow> 'a list \<Rightarrow> bool" where
  "ok_all ys [] = True"
| "ok_all ys (x # xs) = (ok ys x \<and> ok_all (ys @ [x]) xs)"

lemma rep_enq_all: "rep q ys \<Longrightarrow> ok_all ys xs \<Longrightarrow> rep (enq_all q xs) (ys @ xs)"
  by (induction xs arbitrary: q ys) (force dest: rep_enq)+

lemma deq_n_prefix:
  "rep q (xs @ ys) \<Longrightarrow> \<exists>q'. deq_n (length xs) q = (q', map Some xs) \<and> rep q' ys"
proof (induction xs arbitrary: q)
  case (Cons x xs)
  then obtain q1 where "deq q = (q1, Some x)" "rep q1 (xs @ ys)"
    using rep_deq [of q x "xs @ ys"] by auto
  with Cons.IH [of q1] show ?case by auto
qed simp

text \<open>What went in comes out, in the same order, whatever was in the queue before.\<close>

lemma fifo_order:
  assumes "rep q ys" "ok_all ys xs"
  shows "\<exists>q'. deq_n (length ys + length xs) (enq_all q xs) = (q', map Some (ys @ xs)) \<and> rep q' []"
  using deq_n_prefix [of "enq_all q xs" "ys @ xs" "[]"] rep_enq_all [OF assms] by simp

text \<open>Adding to a queue does not change what comes out next.\<close>

lemma deq_enq:
  assumes "rep q (y # ys)" "ok (y # ys) x"
  shows "snd (deq (enq q x)) = snd (deq q)"
  using rep_deq [OF assms(1)] rep_deq [of "enq q x" y "ys @ [x]"] rep_enq [OF assms] by auto

end

end
