(* ===== verification/IntrusiveList.thy ===== *)
theory IntrusiveList
  imports Fifo
begin

text \<open>
  The intrusive doubly linked list of \<^verbatim>\<open>lib/ds/intrusivelist.c\<close>. A node is embedded
  in an object and addressed by it: \<open>'a\<close> is the type of object addresses, and a store of
  type \<open>'a inodes\<close> gives for each object the node of one member (the store of the
  \<^verbatim>\<open>runnable_node\<close> of every task, say), so that \<^verbatim>\<open>container_of\<close> is the
  identity on addresses. A null pointer is \<open>None\<close>. Operations take the list header and the
  store and return both updated; an access through a null pointer is \<open>None\<close>.

  \<open>il_rep h il xs\<close> says that header \<open>il\<close> and store \<open>h\<close> represent the list
  \<open>xs\<close> of distinct objects; every operation is shown to act on \<open>xs\<close> like the list
  function it is meant to be, to leave all other nodes alone, and to keep the representation.
\<close>

section \<open>Nodes, headers and operations\<close>

record 'a IntrusiveNode =
  inext :: "'a option"
  iprev :: "'a option"

record 'a IntrusiveList =
  il_head :: "'a option"
  il_tail :: "'a option"
  il_count :: usize

type_synonym 'a inodes = "'a \<Rightarrow> 'a IntrusiveNode"

definition set_next :: "'a \<Rightarrow> 'a option \<Rightarrow> 'a inodes \<Rightarrow> 'a inodes" where
  "set_next p v h = h(p := (h p)\<lparr>inext := v\<rparr>)"

definition set_prev :: "'a \<Rightarrow> 'a option \<Rightarrow> 'a inodes \<Rightarrow> 'a inodes" where
  "set_prev p v h = h(p := (h p)\<lparr>iprev := v\<rparr>)"

definition intrusivelist_node_is_null :: "'a inodes \<Rightarrow> 'a \<Rightarrow> bool" where
  "intrusivelist_node_is_null h p \<longleftrightarrow> inext (h p) = None \<and> iprev (h p) = None"

definition intrusivelist_node_init :: "'a \<Rightarrow> 'a inodes \<Rightarrow> 'a inodes" where
  "intrusivelist_node_init p h = set_prev p None (set_next p None h)"

definition intrusivelist_init :: "'a IntrusiveList" where
  "intrusivelist_init = \<lparr>il_head = None, il_tail = None, il_count = 0\<rparr>"

definition intrusivelist_insert_head ::
  "'a IntrusiveList \<Rightarrow> 'a inodes \<Rightarrow> 'a \<Rightarrow> 'a IntrusiveList \<times> 'a inodes" where
  "intrusivelist_insert_head il h node =
     (let h = set_prev node None (set_next node (il_head il) h);
          (il, h) = (case il_head il of
             Some old \<Rightarrow> (il, set_prev old (Some node) h)
           | None \<Rightarrow> (il\<lparr>il_tail := Some node\<rparr>, h))
      in (il\<lparr>il_count := il_count il + 1, il_head := Some node\<rparr>, h))"

definition intrusivelist_insert_tail ::
  "'a IntrusiveList \<Rightarrow> 'a inodes \<Rightarrow> 'a \<Rightarrow> 'a IntrusiveList \<times> 'a inodes" where
  "intrusivelist_insert_tail il h node =
     (let h = set_prev node (il_tail il) (set_next node None h);
          (il, h) = (case il_tail il of
             Some old \<Rightarrow> (il, set_next old (Some node) h)
           | None \<Rightarrow> (il\<lparr>il_head := Some node\<rparr>, h))
      in (il\<lparr>il_tail := Some node, il_count := il_count il + 1\<rparr>, h))"

text \<open>
  The \<^verbatim>\<open>intrusivelist_foreach\<close> loop of \<^verbatim>\<open>intrusivelist_insert_sorted\<close>:
  the first node from \<open>p\<close> on that satisfies \<open>P\<close>. On a cyclic store the loop does not
  end, which is \<open>None\<close>.
\<close>

partial_function (option) il_find ::
  "'a inodes \<Rightarrow> ('a \<Rightarrow> bool) \<Rightarrow> 'a option \<Rightarrow> 'a option option" where
  "il_find h P p =
     (case p of None \<Rightarrow> Some None
      | Some e \<Rightarrow> if P e then Some (Some e) else il_find h P (inext (h e)))"

definition intrusivelist_insert_sorted ::
  "'a IntrusiveList \<Rightarrow> 'a inodes \<Rightarrow> 'a \<Rightarrow> ('a \<Rightarrow> 'a \<Rightarrow> bool) \<Rightarrow>
   ('a IntrusiveList \<times> 'a inodes \<times> bool) option" where
  "intrusivelist_insert_sorted il h node comparator_fn =
     (if il_count il = 0
      then let (il, h) = intrusivelist_insert_head il h node in Some (il, h, True)
      else do {
        found \<leftarrow> il_find h (\<lambda>existing. comparator_fn existing node) (il_head il);
        case found of
          Some existing \<Rightarrow>
            (let h = set_next node (Some existing) h;
                 was_prev = iprev (h existing);
                 h = set_prev existing (Some node) h;
                 h = set_prev node was_prev h;
                 (il, h) = (case was_prev of
                    Some p \<Rightarrow> (il, set_next p (Some node) h)
                  | None \<Rightarrow> (il\<lparr>il_head := Some node\<rparr>, h))
             in Some (il\<lparr>il_count := il_count il + 1\<rparr>, h, True))
        | None \<Rightarrow>
            (let (il, h) = intrusivelist_insert_tail il h node in Some (il, h, True))
      })"

text \<open>
  The counting loop of \<^verbatim>\<open>intrusivelist_insert_at\<close>: the node it stops at, if any,
  and the value of \<^verbatim>\<open>counting\<close> then.
\<close>

partial_function (option) il_walk ::
  "'a inodes \<Rightarrow> usize \<Rightarrow> usize \<Rightarrow> 'a option \<Rightarrow> ('a option \<times> usize) option" where
  "il_walk h index counting p =
     (case p of None \<Rightarrow> Some (None, counting)
      | Some e \<Rightarrow> if counting = index then Some (Some e, counting)
                 else il_walk h index (counting + 1) (inext (h e)))"

definition intrusivelist_insert_at ::
  "'a IntrusiveList \<Rightarrow> 'a inodes \<Rightarrow> 'a \<Rightarrow> usize \<Rightarrow>
   ('a IntrusiveList \<times> 'a inodes \<times> bool) option" where
  "intrusivelist_insert_at il h node index =
     (if index = 0
      then let (il, h) = intrusivelist_insert_head il h node in Some (il, h, True)
      else if index = il_count il
      then let (il, h) = intrusivelist_insert_tail il h node in Some (il, h, True)
      else if il_count il < index then Some (il, h, False)
      else do {
        (stop, counting) \<leftarrow> il_walk h index 0 (il_head il);
        (il, h) \<leftarrow> (case stop of
            None \<Rightarrow> Some (il, h)
          | Some existing \<Rightarrow>
              (let h = set_next node (Some existing) h;
                   was_prev = iprev (h existing);
                   h = set_prev existing (Some node) h;
                   h = set_prev node was_prev h
               in case was_prev of
                    None \<Rightarrow> None
                  | Some p \<Rightarrow>
                      Some (il\<lparr>il_count := il_count il + 1\<rparr>, set_next p (Some node) h)));
        Some (il, h, counting = index)
      })"

definition intrusivelist_remove ::
  "'a IntrusiveList \<Rightarrow> 'a inodes \<Rightarrow> 'a \<Rightarrow> 'a IntrusiveList \<times> 'a inodes" where
  "intrusivelist_remove il h node =
     (let (il, h) = (case iprev (h node) of
             Some p \<Rightarrow> (il, set_next p (inext (h node)) h)
           | None \<Rightarrow> (il\<lparr>il_head := inext (h node)\<rparr>, h));
          (il, h) = (case inext (h node) of
             Some n \<Rightarrow> (il, set_prev n (iprev (h node)) h)
           | None \<Rightarrow> (il\<lparr>il_tail := iprev (h node)\<rparr>, h))
      in (il\<lparr>il_count := il_count il - 1\<rparr>, set_prev node None (set_next node None h)))"

definition intrusivelist_remove_head ::
  "'a IntrusiveList \<Rightarrow> 'a inodes \<Rightarrow> 'a IntrusiveList \<times> 'a inodes \<times> 'a option" where
  "intrusivelist_remove_head il h =
     (case il_head il of
        None \<Rightarrow> (il, h, None)
      | Some current_head \<Rightarrow>
          (let il = il\<lparr>il_head := inext (h current_head)\<rparr>;
               (il, h) = (case il_head il of
                  Some n \<Rightarrow> (il, set_prev n None h)
                | None \<Rightarrow> (il\<lparr>il_tail := None\<rparr>, h))
           in (il\<lparr>il_count := il_count il - 1\<rparr>,
               set_prev current_head None (set_next current_head None h),
               Some current_head)))"

definition intrusivelist_remove_tail ::
  "'a IntrusiveList \<Rightarrow> 'a inodes \<Rightarrow> ('a IntrusiveList \<times> 'a inodes \<times> 'a) option" where
  "intrusivelist_remove_tail il h =
     (case il_tail il of
        None \<Rightarrow> None
      | Some current_tail \<Rightarrow>
          (let il = il\<lparr>il_tail := iprev (h current_tail)\<rparr>;
               (il, h) = (case il_tail il of
                  Some p \<Rightarrow> (il, set_next p None h)
                | None \<Rightarrow> (il\<lparr>il_head := None\<rparr>, h))
           in Some (il\<lparr>il_count := il_count il - 1\<rparr>,
               set_prev current_tail None (set_next current_tail None h),
               current_tail)))"

definition intrusivelist_peek_head :: "'a IntrusiveList \<Rightarrow> 'a option" where
  "intrusivelist_peek_head il = (if il_head il = None then None else il_head il)"

definition intrusivelist_peek_tail :: "'a IntrusiveList \<Rightarrow> 'a option" where
  "intrusivelist_peek_tail il = (if il_tail il = None then None else il_tail il)"

definition intrusivelist_count :: "'a IntrusiveList \<Rightarrow> usize" where
  "intrusivelist_count il = il_count il"

definition intrusivelist_is_empty :: "'a IntrusiveList \<Rightarrow> bool" where
  "intrusivelist_is_empty il \<longleftrightarrow> il_count il = 0"

section \<open>The list a header and a store represent\<close>

definition hd_ptr :: "'a list \<Rightarrow> 'a option" where
  "hd_ptr xs = (case xs of [] \<Rightarrow> None | x # _ \<Rightarrow> Some x)"
definition last_ptr :: "'a list \<Rightarrow> 'a option" where
  "last_ptr xs = (if xs = [] then None else Some (last xs))"

primrec links :: "'a inodes \<Rightarrow> 'a option \<Rightarrow> 'a list \<Rightarrow> 'a option \<Rightarrow> bool" where
  "links h p [] n = True"
| "links h p (x # xs) n =
     (iprev (h x) = p \<and> inext (h x) = (if xs = [] then n else hd_ptr xs) \<and> links h (Some x) xs n)"

definition il_rep :: "'a inodes \<Rightarrow> 'a IntrusiveList \<Rightarrow> 'a list \<Rightarrow> bool" where
  "il_rep h il xs \<longleftrightarrow>
     distinct xs \<and> length xs < 2 ^ 64 \<and> il_count il = of_nat (length xs) \<and>
     il_head il = hd_ptr xs \<and> il_tail il = last_ptr xs \<and> links h None xs None"


text \<open>The queue the run and wait queues use: add at the tail, take from the head.\<close>

definition il_enq :: "'a IntrusiveList \<times> 'a inodes \<Rightarrow> 'a \<Rightarrow> 'a IntrusiveList \<times> 'a inodes" where
  "il_enq q x = intrusivelist_insert_tail (fst q) (snd q) x"

definition il_deq ::
  "'a IntrusiveList \<times> 'a inodes \<Rightarrow> ('a IntrusiveList \<times> 'a inodes) \<times> 'a option" where
  "il_deq q = (let (il, h, r) = intrusivelist_remove_head (fst q) (snd q) in ((il, h), r))"

definition il_ok :: "'a list \<Rightarrow> 'a \<Rightarrow> bool" where
  "il_ok xs x \<longleftrightarrow> x \<notin> set xs \<and> length xs + 1 < 2 ^ 64"

section \<open>Facts on chains of nodes\<close>

lemma hd_ptr_simps [simp]: "hd_ptr [] = None" "hd_ptr (x # xs) = Some x"
  "hd_ptr (xs @ ys) = (if xs = [] then hd_ptr ys else hd_ptr xs)"
  by (simp_all add: hd_ptr_def split: list.splits)
lemma last_ptr_simps [simp]: "last_ptr [] = None" "last_ptr (x # xs) = (if xs = [] then Some x else last_ptr xs)"
  "last_ptr (xs @ ys) = (if ys = [] then last_ptr xs else last_ptr ys)"
  by (simp_all add: last_ptr_def)
lemma ptr_None [simp]: "hd_ptr xs = None \<longleftrightarrow> xs = []" "last_ptr xs = None \<longleftrightarrow> xs = []"
  by (simp_all add: hd_ptr_def last_ptr_def split: list.splits)

lemma links_append [simp]:
  "links h p (xs @ ys) n \<longleftrightarrow>
     links h p xs (if ys = [] then n else hd_ptr ys) \<and> links h (if xs = [] then p else last_ptr xs) ys n"
  by (induction xs arbitrary: p) auto

lemma links_cong:
  "(\<And>x. x \<in> set xs \<Longrightarrow> h x = h' x) \<Longrightarrow> links h p xs n = links h' p xs n"
  by (induction xs arbitrary: p) auto

lemma links_set_other [simp]:
  "x \<notin> set xs \<Longrightarrow> links (set_next x v h) p xs n = links h p xs n"
  "x \<notin> set xs \<Longrightarrow> links (set_prev x v h) p xs n = links h p xs n"
  by (rule links_cong; auto simp: set_next_def set_prev_def)+

lemma node_set [simp]:
  "inext (set_next x v h y) = (if y = x then v else inext (h y))"
  "iprev (set_next x v h y) = iprev (h y)"
  "iprev (set_prev x v h y) = (if y = x then v else iprev (h y))"
  "inext (set_prev x v h y) = inext (h y)"
  by (simp_all add: set_next_def set_prev_def)

lemma set_other [simp]: "y \<noteq> x \<Longrightarrow> set_next x v h y = h y" "y \<noteq> x \<Longrightarrow> set_prev x v h y = h y"
  by (simp_all add: set_next_def set_prev_def)

lemma il_rep_cong: "(\<And>x. x \<in> set xs \<Longrightarrow> h x = h' x) \<Longrightarrow> il_rep h il xs \<Longrightarrow> il_rep h' il xs"
  using links_cong[of xs h h'] by (auto simp: il_rep_def)

lemma hd_ptr_Some: "hd_ptr xs = Some x \<longleftrightarrow> (\<exists>ys. xs = x # ys)"
  by (cases xs) auto
lemma last_ptr_Some: "last_ptr xs = Some x \<longleftrightarrow> (\<exists>ys. xs = ys @ [x])"
  by (cases xs rule: rev_cases) (auto simp: last_ptr_def)

section \<open>Each operation on the represented list\<close>

lemma insert_head_rep:
  assumes "il_rep h il xs" "x \<notin> set xs" "length xs + 1 < 2 ^ 64"
    and "intrusivelist_insert_head il h x = (il', h')"
  shows "il_rep h' il' (x # xs) \<and> (\<forall>y. y \<notin> insert x (set xs) \<longrightarrow> h' y = h y)"
  using assms
  by (cases xs) (auto simp: il_rep_def intrusivelist_insert_head_def Let_def)

lemma insert_tail_rep:
  assumes "il_rep h il xs" "x \<notin> set xs" "length xs + 1 < 2 ^ 64"
    and "intrusivelist_insert_tail il h x = (il', h')"
  shows "il_rep h' il' (xs @ [x]) \<and> (\<forall>y. y \<notin> insert x (set xs) \<longrightarrow> h' y = h y)"
  using assms
  by (cases xs rule: rev_cases) (auto simp: il_rep_def intrusivelist_insert_tail_def Let_def)

lemma remove_head_rep:
  assumes "il_rep h il (x # xs)" "intrusivelist_remove_head il h = (il', h', r)"
  shows "r = Some x \<and> il_rep h' il' xs \<and> intrusivelist_node_is_null h' x \<and> (\<forall>y. y \<notin> set (x # xs) \<longrightarrow> h' y = h y)"
  using assms
  by (cases xs) (auto simp: il_rep_def intrusivelist_remove_head_def Let_def intrusivelist_node_is_null_def)

lemma remove_tail_rep:
  assumes "il_rep h il (xs @ [x])"
  shows "\<exists>il' h'. intrusivelist_remove_tail il h = Some (il', h', x) \<and> il_rep h' il' xs \<and>
    intrusivelist_node_is_null h' x \<and> (\<forall>y. y \<notin> set (xs @ [x]) \<longrightarrow> h' y = h y)"
  using assms
  by (cases xs rule: rev_cases)
    (auto simp: il_rep_def intrusivelist_remove_tail_def Let_def intrusivelist_node_is_null_def)

lemma remove_rep:
  assumes "il_rep h il (xs @ x # ys)" "intrusivelist_remove il h x = (il', h')"
  shows "il_rep h' il' (xs @ ys) \<and> intrusivelist_node_is_null h' x \<and> (\<forall>y. y \<notin> set (xs @ x # ys) \<longrightarrow> h' y = h y)"
  using assms
  by (cases xs rule: rev_cases; cases ys) (auto simp: il_rep_def intrusivelist_remove_def Let_def intrusivelist_node_is_null_def)

lemma il_find_links:
  "links h p ys None \<Longrightarrow> il_find h P (hd_ptr ys) = Some (hd_ptr (dropWhile (\<lambda>e. \<not> P e) ys))"
proof (induction ys arbitrary: p)
  case Nil
  show ?case by (subst il_find.simps) simp
next
  case (Cons y ys)
  show ?case
  proof (cases "P y")
    case True then show ?thesis by (subst il_find.simps) simp
  next
    case False
    have "inext (h y) = hd_ptr ys" using Cons.prems by auto
    with False Cons show ?thesis by (subst il_find.simps) auto
  qed
qed

lemma il_walk_links:
  "links h p ys None \<Longrightarrow> k < length ys \<Longrightarrow> unat c + length ys < 2 ^ 64 \<Longrightarrow> 
   il_walk h (c + of_nat k) c (hd_ptr ys) = Some (Some (ys ! k), c + of_nat k)"
proof (induction ys arbitrary: p k c)
  case (Cons y ys)
  show ?case
  proof (cases k)
    case 0 then show ?thesis by (subst il_walk.simps) simp
  next
    case (Suc j)
    have "of_nat (Suc j) \<noteq> (0 :: u64)" using Cons.prems Suc by (simp del: of_nat_Suc add: word_of_nat_eq_0_iff nat_dvd_not_less)
    moreover have "unat (c + 1) = unat c + 1" using Cons.prems by (simp add: unat_word_ariths)
    moreover have "inext (h y) = hd_ptr ys" using Cons.prems by auto
    moreover have "c + of_nat (Suc j) = (c + 1) + of_nat j" by simp
    ultimately show ?thesis using Suc Cons.prems Cons.IH [of "Some y" j "c + 1"]
      by (subst il_walk.simps) (auto simp: add.assoc)
  qed
qed simp

lemma insert_sorted_rep:
  assumes rep: "il_rep h il xs" and x: "x \<notin> set xs" and len: "length xs + 1 < 2 ^ 64"
  shows "\<exists>il' h'. intrusivelist_insert_sorted il h x cmp = Some (il', h', True) \<and>
    il_rep h' il' (takeWhile (\<lambda>e. \<not> cmp e x) xs @ x # dropWhile (\<lambda>e. \<not> cmp e x) xs) \<and>
    (\<forall>y. y \<notin> insert x (set xs) \<longrightarrow> h' y = h y)"
proof -
  let ?t = "takeWhile (\<lambda>e. \<not> cmp e x) xs" and ?d = "dropWhile (\<lambda>e. \<not> cmp e x) xs"
  have c: "il_count il = 0 \<longleftrightarrow> xs = []"
    using rep by (auto simp: il_rep_def word_of_nat_eq_0_iff nat_dvd_not_less)
  have f: "il_find h (\<lambda>e. cmp e x) (il_head il) = Some (hd_ptr ?d)"
    using rep il_find_links by (auto simp: il_rep_def)
  have sp: "xs = ?t @ ?d" by simp
  show ?thesis
  proof (cases ?d)
    case Nil
    then have t: "?t = xs" using sp by (metis append_Nil2)
    show ?thesis
    proof (cases "xs = []")
      case True
      with insert_head_rep [OF rep x len] c show ?thesis 
        by (auto simp: intrusivelist_insert_sorted_def split: prod.splits)
    next
      case False
      with insert_tail_rep [OF rep x len] c f Nil show ?thesis unfolding Nil t
        by (auto simp: intrusivelist_insert_sorted_def split: prod.splits)
    qed
  next
    case (Cons y ys)
    define ts where "ts = ?t"
    have xs: "xs = ts @ y # ys" using sp Cons by (simp add: ts_def)
    then have ne: "il_count il \<noteq> 0" using c by simp
    have fy: "il_find h (\<lambda>e. cmp e x) (il_head il) = Some (Some y)" using f Cons by simp
    have "\<exists>il' h'. intrusivelist_insert_sorted il h x cmp = Some (il', h', True) \<and>
      il_rep h' il' (ts @ x # y # ys) \<and> (\<forall>z. z \<notin> insert x (set xs) \<longrightarrow> h' z = h z)"
      using rep x len fy ne unfolding xs
      by (cases ts rule: rev_cases)
        (auto simp: intrusivelist_insert_sorted_def il_rep_def Let_def)
    then show ?thesis by (simp add: Cons ts_def)
  qed
qed

lemma insert_at_rep:
  assumes rep: "il_rep h il xs" and x: "x \<notin> set xs" and len: "length xs + 1 < 2 ^ 64"
    and i: "unat i \<le> length xs"
  shows "\<exists>il' h'. intrusivelist_insert_at il h x i = Some (il', h', True) \<and>
    il_rep h' il' (take (unat i) xs @ x # drop (unat i) xs) \<and>
    (\<forall>y. y \<notin> insert x (set xs) \<longrightarrow> h' y = h y)"
proof -
  have "unat (il_count il) = length xs" using rep by (simp add: il_rep_def unat_of_nat)
  then have ci: "i = il_count il \<longleftrightarrow> unat i = length xs"
    by (simp add: word_unat_eq_iff)
  consider "i = 0" | "i \<noteq> 0" "unat i = length xs" | "i \<noteq> 0" "unat i < length xs" using i by linarith
  then show ?thesis
  proof cases
    case 1
    with insert_head_rep [OF rep x len] show ?thesis
      by (auto simp: intrusivelist_insert_at_def split: prod.splits)
  next
    case 2
    with insert_tail_rep [OF rep x len] ci show ?thesis
      by (auto simp: intrusivelist_insert_at_def split: prod.splits)
  next
    case 3
    define ts y ys where "ts = take (unat i) xs" and "y = xs ! unat i" and "ys = drop (Suc (unat i)) xs"
    have xs: "xs = ts @ y # ys" using 3 by (simp add: ts_def y_def ys_def id_take_nth_drop)
    have tn: "ts \<noteq> []" using 3 by (auto simp: ts_def unat_eq_zero)
    have lt: "length ts = unat i" using 3 by (simp add: ts_def)
    have w: "il_walk h i 0 (il_head il) = Some (Some y, i)"
      using il_walk_links [of h None xs "unat i" 0] rep 3 by (simp add: il_rep_def y_def)
    have nl: "\<not> il_count il < i" using rep 3
      by (simp add: il_rep_def word_less_nat_alt unat_of_nat)
    have "\<exists>il' h'. intrusivelist_insert_at il h x i = Some (il', h', True) \<and>
      il_rep h' il' (ts @ x # y # ys) \<and> (\<forall>z. z \<notin> insert x (set xs) \<longrightarrow> h' z = h z)"
      using rep x len w 3 nl ci tn unfolding xs
      by (cases ts rule: rev_cases) (auto simp: intrusivelist_insert_at_def il_rep_def Let_def)
    moreover have "take (unat i) xs @ x # drop (unat i) xs = ts @ x # y # ys"
      by (simp add: xs lt [symmetric])
    ultimately show ?thesis by simp
  qed
qed

lemma insert_at_out_of_range:
  assumes rep: "il_rep h il xs" and i: "length xs < unat i"
  shows "intrusivelist_insert_at il h x i = Some (il, h, False)"
proof -
  have "i \<noteq> 0" using i by auto
  moreover have "unat (il_count il) = length xs" using rep by (simp add: il_rep_def unat_of_nat)
  ultimately show ?thesis using i by (auto simp: intrusivelist_insert_at_def word_less_nat_alt)
qed

lemma remove_head_empty: "il_rep h il [] \<Longrightarrow> intrusivelist_remove_head il h = (il, h, None)"
  by (simp add: il_rep_def intrusivelist_remove_head_def)

lemma il_rep_accessors:
  assumes "il_rep h il xs"
  shows "intrusivelist_peek_head il = hd_ptr xs" "intrusivelist_peek_tail il = last_ptr xs"
    "unat (intrusivelist_count il) = length xs" "intrusivelist_is_empty il \<longleftrightarrow> xs = []"
  using assms
  by (auto simp: il_rep_def intrusivelist_peek_head_def intrusivelist_peek_tail_def
      intrusivelist_count_def intrusivelist_is_empty_def unat_of_nat word_of_nat_eq_0_iff
      nat_dvd_not_less)

lemma il_rep_init: "il_rep h intrusivelist_init []"
  by (simp add: il_rep_def intrusivelist_init_def)

section \<open>The queue contract\<close>

interpretation ilq: fifo
  "\<lambda>q xs. il_rep (snd q) (fst q) xs" il_ok il_enq il_deq
proof unfold_locales
  fix q :: "'a IntrusiveList \<times> 'a inodes" and xs :: "'a list" and x
  show "il_rep (snd q) (fst q) xs \<Longrightarrow> il_ok xs x \<Longrightarrow>
      il_rep (snd (il_enq q x)) (fst (il_enq q x)) (xs @ [x])"
    using insert_tail_rep [of "snd q" "fst q" xs x] by (auto simp: il_enq_def il_ok_def)
  show "il_rep (snd q) (fst q) (x # xs) \<Longrightarrow>
      \<exists>q'. il_deq q = (q', Some x) \<and> il_rep (snd q') (fst q') xs"
    using remove_head_rep [of "snd q" "fst q" x xs] by (auto simp: il_deq_def split: prod.splits)
  show "il_rep (snd q) (fst q) [] \<Longrightarrow> il_deq q = (q, None)"
    using remove_head_empty [of "snd q" "fst q"] by (simp add: il_deq_def)
qed

section \<open>A two-element list\<close>

text \<open>A concrete list of the objects 1 and 2, for the witnesses below.\<close>

definition il_example :: "nat IntrusiveList" where
  "il_example = \<lparr>il_head = Some 1, il_tail = Some 2, il_count = 2\<rparr>"

definition il_example_nodes :: "nat inodes" where
  "il_example_nodes = (\<lambda>_. \<lparr>inext = None, iprev = None\<rparr>)
     (1 := \<lparr>inext = Some 2, iprev = None\<rparr>, 2 := \<lparr>inext = None, iprev = Some 1\<rparr>)"

lemma il_example_rep: "il_rep il_example_nodes il_example [1, 2]"
  by (simp add: il_rep_def il_example_def il_example_nodes_def)

section \<open>Properties\<close>

text \<open>
  Claim C37. Insertion into an intrusive list is insertion into the list it represents, at the
  head, at the tail and at every index up to the length; the list stays well linked and no node
  outside it and the inserted one is written. An index past the end changes nothing and returns
  false.
\<close>

theorem intrusivelist_insert_refines:
  assumes "il_rep h il xs" "x \<notin> set xs" "length xs + 1 < 2 ^ 64"
  shows "(case intrusivelist_insert_head il h x of (il', h') \<Rightarrow>
            il_rep h' il' (x # xs) \<and> (\<forall>y. y \<notin> insert x (set xs) \<longrightarrow> h' y = h y)) \<and>
         (case intrusivelist_insert_tail il h x of (il', h') \<Rightarrow>
            il_rep h' il' (xs @ [x]) \<and> (\<forall>y. y \<notin> insert x (set xs) \<longrightarrow> h' y = h y)) \<and>
         (if unat i \<le> length xs
          then \<exists>il' h'. intrusivelist_insert_at il h x i = Some (il', h', True) \<and>
                 il_rep h' il' (take (unat i) xs @ x # drop (unat i) xs) \<and>
                 (\<forall>y. y \<notin> insert x (set xs) \<longrightarrow> h' y = h y)
          else intrusivelist_insert_at il h x i = Some (il, h, False))"
proof (intro conjI)
  show "case intrusivelist_insert_head il h x of (il', h') \<Rightarrow>
      il_rep h' il' (x # xs) \<and> (\<forall>y. y \<notin> insert x (set xs) \<longrightarrow> h' y = h y)"
    using insert_head_rep [OF assms] by (auto split: prod.splits)
  show "case intrusivelist_insert_tail il h x of (il', h') \<Rightarrow>
      il_rep h' il' (xs @ [x]) \<and> (\<forall>y. y \<notin> insert x (set xs) \<longrightarrow> h' y = h y)"
    using insert_tail_rep [OF assms] by (auto split: prod.splits)
qed (use insert_at_rep [OF assms] insert_at_out_of_range [OF assms(1)] in auto)

theorem intrusivelist_insert_refines_witness:
  "\<exists>il' h'. intrusivelist_insert_at il_example il_example_nodes 7 1 = Some (il', h', True) \<and>
     il_rep h' il' [1, 7, 2]"
  using intrusivelist_insert_refines [OF il_example_rep, of 7 1] by auto



text \<open>
  Claim C39. \<^verbatim>\<open>intrusivelist_insert_sorted\<close> always returns, and puts the node
  right before the first element that the comparator ranks above it, or at the end.
\<close>

theorem intrusivelist_insert_sorted_refines:
  assumes "il_rep h il xs" "x \<notin> set xs" "length xs + 1 < 2 ^ 64"
  shows "\<exists>il' h'. intrusivelist_insert_sorted il h x cmp = Some (il', h', True) \<and>
    il_rep h' il' (takeWhile (\<lambda>e. \<not> cmp e x) xs @ x # dropWhile (\<lambda>e. \<not> cmp e x) xs) \<and>
    (\<forall>y. y \<notin> insert x (set xs) \<longrightarrow> h' y = h y)"
  by (rule insert_sorted_rep [OF assms])

theorem intrusivelist_insert_sorted_refines_witness:
  "\<exists>il' h'. intrusivelist_insert_sorted il_example il_example_nodes 0 (\<lambda>a b. b < a) =
       Some (il', h', True) \<and> il_rep h' il' [0, 1, 2]"
  using intrusivelist_insert_sorted_refines [OF il_example_rep, of 0 "\<lambda>a b. b < a"] by auto

text \<open>
  An intrusive list used as a queue is first-in first-out: objects added at the tail
  come out of \<^verbatim>\<open>intrusivelist_remove_head\<close> in the order they were added, after
  everything that was in the queue before, and the queue is then empty.
\<close>

theorem intrusivelist_fifo:
  assumes "il_rep (snd q) (fst q) ys" "ilq.ok_all ys xs"
  shows "\<exists>q'. ilq.deq_n (length ys + length xs) (ilq.enq_all q xs) = (q', map Some (ys @ xs)) \<and>
    il_rep (snd q') (fst q') []"
  by (rule ilq.fifo_order [OF assms])

theorem intrusivelist_fifo_witness:
  "ilq.ok_all [1, 2] [5, 4 :: nat] \<and>
   (\<exists>q'. ilq.deq_n (length [1, 2 :: nat] + length [5, 4 :: nat])
      (ilq.enq_all (il_example, il_example_nodes) [5, 4]) =
        (q', map Some ([1, 2] @ [5, 4])) \<and> il_rep (snd q') (fst q') [])"
proof -
  have "il_rep (snd (il_example, il_example_nodes)) (fst (il_example, il_example_nodes)) [1, 2]"
    using il_example_rep by simp
  moreover have "ilq.ok_all [1, 2] [5, 4 :: nat]" by (simp add: il_ok_def)
  ultimately show ?thesis using intrusivelist_fifo by blast
qed

end
