(* ===== verification/RingBuffer.thy ===== *)
theory RingBuffer
  imports Fifo
begin

text \<open>
  The byte ring buffer of \<^verbatim>\<open>lib/ds/ringbuffer.c\<close>: \<^verbatim>\<open>capacity\<close> slots of
  \<^verbatim>\<open>element_size\<close> bytes, of which one stays unused so that \<open>head = tail\<close> means
  empty. \<open>rb_list\<close> reads the elements it holds, oldest first; push and pop are shown to be
  the operations of a bounded queue over that list.
\<close>

record RingBuffer =
  rb_buffer :: "u8 list"
  rb_capacity :: usize
  rb_element_size :: usize
  rb_head :: usize
  rb_tail :: usize

definition ringbuffer_init :: "usize \<Rightarrow> u8 list \<Rightarrow> usize \<Rightarrow> RingBuffer" where
  "ringbuffer_init element_size buffer buffer_size =
     \<lparr>rb_buffer = buffer, rb_capacity = buffer_size, rb_element_size = element_size,
      rb_head = 0, rb_tail = 0\<rparr>"

text \<open>A remainder by a zero capacity is undefined in C and stops the model.\<close>

definition ringbuffer_push :: "RingBuffer \<Rightarrow> u8 list \<Rightarrow> (RingBuffer \<times> errno_t) option" where
  "ringbuffer_push rb data =
     (if rb_capacity rb = 0 then None
      else let nxt = (rb_head rb + 1) mod rb_capacity rb
      in if nxt = rb_tail rb then Some (rb, - ENOMEM)
         else do {
           src \<leftarrow> get_bytes 0 (unat (rb_element_size rb)) data;
           buf \<leftarrow> put_bytes (unat (rb_head rb * rb_element_size rb)) src (rb_buffer rb);
           Some (rb\<lparr>rb_buffer := buf, rb_head := nxt\<rparr>, EOK)
         })"

text \<open>\<open>data\<close> is what the out parameter points to before and after the call.\<close>

definition ringbuffer_pop ::
  "RingBuffer \<Rightarrow> u8 list \<Rightarrow> (RingBuffer \<times> u8 list \<times> errno_t) option" where
  "ringbuffer_pop rb data =
     (if rb_head rb = rb_tail rb then Some (rb, data, - ENOMEM)
      else do {
        src \<leftarrow> get_bytes (unat (rb_tail rb * rb_element_size rb)) (unat (rb_element_size rb))
                (rb_buffer rb);
        data \<leftarrow> put_bytes 0 src data;
        if rb_capacity rb = 0 then None
        else Some (rb\<lparr>rb_tail := (rb_tail rb + 1) mod rb_capacity rb\<rparr>, data, EOK)
      })"

definition ringbuffer_full :: "RingBuffer \<Rightarrow> bool" where
  "ringbuffer_full rb \<longleftrightarrow> (rb_head rb + 1) mod rb_capacity rb = rb_tail rb"

definition ringbuffer_empty :: "RingBuffer \<Rightarrow> bool" where
  "ringbuffer_empty rb \<longleftrightarrow> rb_head rb = rb_tail rb"

section \<open>The elements of a buffer\<close>

definition rb_wf :: "RingBuffer \<Rightarrow> bool" where
  "rb_wf rb \<longleftrightarrow>
     unat (rb_head rb) < unat (rb_capacity rb) \<and> unat (rb_tail rb) < unat (rb_capacity rb) \<and>
     unat (rb_capacity rb) * unat (rb_element_size rb) \<le> length (rb_buffer rb) \<and>
     unat (rb_capacity rb) * unat (rb_element_size rb) < 2 ^ 64"

definition rb_elem :: "RingBuffer \<Rightarrow> nat \<Rightarrow> u8 list" where
  "rb_elem rb i =
     take (unat (rb_element_size rb)) (drop (i * unat (rb_element_size rb)) (rb_buffer rb))"

definition rb_len :: "RingBuffer \<Rightarrow> nat" where
  "rb_len rb =
     (if unat (rb_tail rb) \<le> unat (rb_head rb) then unat (rb_head rb) - unat (rb_tail rb)
      else unat (rb_head rb) + unat (rb_capacity rb) - unat (rb_tail rb))"

definition rb_list :: "RingBuffer \<Rightarrow> u8 list list" where
  "rb_list rb =
     map (\<lambda>i. rb_elem rb ((unat (rb_tail rb) + i) mod unat (rb_capacity rb))) [0..<rb_len rb]"

text \<open>\<open>rb_rep c e rb xs\<close>: \<open>rb\<close> has capacity \<open>c\<close>, element size \<open>e\<close>, and holds \<open>xs\<close>.\<close>

definition rb_rep :: "nat \<Rightarrow> nat \<Rightarrow> RingBuffer \<Rightarrow> u8 list list \<Rightarrow> bool" where
  "rb_rep c e rb xs \<longleftrightarrow>
     rb_wf rb \<and> unat (rb_capacity rb) = c \<and> unat (rb_element_size rb) = e \<and> rb_list rb = xs"

definition rb_ok :: "nat \<Rightarrow> nat \<Rightarrow> u8 list list \<Rightarrow> u8 list \<Rightarrow> bool" where
  "rb_ok c e xs x \<longleftrightarrow> length xs + 1 < c \<and> length x = e"

definition rb_enq :: "RingBuffer \<Rightarrow> u8 list \<Rightarrow> RingBuffer" where
  "rb_enq rb x = (case ringbuffer_push rb x of Some (rb', _) \<Rightarrow> rb' | None \<Rightarrow> rb)"

text \<open>Popping into a fresh object of the element size.\<close>

definition rb_deq :: "RingBuffer \<Rightarrow> RingBuffer \<times> u8 list option" where
  "rb_deq rb =
     (case ringbuffer_pop rb (replicate (unat (rb_element_size rb)) 0) of
        Some (rb', data, err) \<Rightarrow> (rb', if err = EOK then Some data else None)
      | None \<Rightarrow> (rb, None))"

section \<open>Push and pop on the elements\<close>

lemma rb_slot_off: "rb_wf rb \<Longrightarrow> i < rb_capacity rb \<Longrightarrow> unat (i * rb_element_size rb) = unat i * unat (rb_element_size rb)"
  unfolding rb_wf_def
  by (rule unat_mult_u64) (metis word_less_nat_alt le_less_trans less_or_eq_imp_le mult_le_mono1)

lemma rb_slot_bound: "rb_wf rb \<Longrightarrow> i < unat (rb_capacity rb) \<Longrightarrow> i * unat (rb_element_size rb) + unat (rb_element_size rb) \<le> length (rb_buffer rb)"
proof -
  assume a: "rb_wf rb" "i < unat (rb_capacity rb)"
  then have "(i + 1) * unat (rb_element_size rb) \<le> unat (rb_capacity rb) * unat (rb_element_size rb)"
    by (intro mult_le_mono1) simp
  with a show ?thesis by (simp add: rb_wf_def)
qed

lemma length_rb_list [simp]: "length (rb_list rb) = rb_len rb" by (simp add: rb_list_def)

lemma rb_len_bound: "rb_wf rb \<Longrightarrow> rb_len rb < unat (rb_capacity rb)"
  by (auto simp: rb_wf_def rb_len_def)

lemma ringbuffer_full_iff: "rb_wf rb \<Longrightarrow> ringbuffer_full rb \<longleftrightarrow> rb_len rb + 1 = unat (rb_capacity rb)"
  by (auto simp: ringbuffer_full_def u64_eq_iff_unat unat_succ_mod rb_len_def rb_wf_def)

lemma ringbuffer_empty_iff: "rb_wf rb \<Longrightarrow> ringbuffer_empty rb \<longleftrightarrow> rb_list rb = []"
  by (auto simp: ringbuffer_empty_def u64_eq_iff_unat rb_len_def rb_wf_def rb_list_def)

lemma rb_mod_pos: "(t :: nat) < c \<Longrightarrow> i < c \<Longrightarrow> (t + i) mod c = (if t + i < c then t + i else t + i - c)"
  by (simp add: mod_if)

lemma ringbuffer_push_full: "rb_wf rb \<Longrightarrow> ringbuffer_full rb \<Longrightarrow> ringbuffer_push rb d = Some (rb, - ENOMEM)"
  by (auto simp: ringbuffer_push_def ringbuffer_full_def rb_wf_def)

lemma ringbuffer_push_ok:
  assumes wf: "rb_wf rb" and nf: "\<not> ringbuffer_full rb" and d: "length d = unat (rb_element_size rb)"
  shows "\<exists>rb'. ringbuffer_push rb d = Some (rb', EOK) \<and> rb_wf rb' \<and> rb_list rb' = rb_list rb @ [d]
     \<and> rb_capacity rb' = rb_capacity rb \<and> rb_element_size rb' = rb_element_size rb"
proof -
  let ?e = "unat (rb_element_size rb)" and ?c = "unat (rb_capacity rb)" and ?h = "unat (rb_head rb)" and ?t = "unat (rb_tail rb)"
  have hc: "?h < ?c" "?t < ?c" using wf by (auto simp: rb_wf_def)
  have off: "unat (rb_head rb * rb_element_size rb) = ?h * ?e"
    using rb_slot_off [OF wf] hc by (simp add: word_less_nat_alt)
  obtain buf where buf: "put_bytes (?h * ?e) d (rb_buffer rb) = Some buf"
    using rb_slot_bound [OF wf hc(1)] d by (auto simp: put_bytes_def)
  let ?rb = "rb\<lparr>rb_buffer := buf, rb_head := (rb_head rb + 1) mod rb_capacity rb\<rparr>"
  have p: "ringbuffer_push rb d = Some (?rb, EOK)"
    using nf d off buf hc by (auto simp: ringbuffer_push_def ringbuffer_full_def get_bytes_def)
  have h': "unat (rb_head ?rb) = (if ?h + 1 = ?c then 0 else ?h + 1)" using unat_succ_mod hc by simp
  have wf': "rb_wf ?rb" using wf h' hc length_put_bytes [OF buf] by (auto simp: rb_wf_def)
  have ne: "rb_len rb + 1 \<noteq> ?c" using nf ringbuffer_full_iff [OF wf] by simp
  have len: "rb_len ?rb = rb_len rb + 1" using h' hc ne by (auto simp: rb_len_def)
  have last: "(?t + rb_len rb) mod ?c = ?h" using hc by (auto simp: rb_len_def mod_if)
  have pos: "(?t + i) mod ?c \<noteq> ?h" if "i < rb_len rb" for i
    using that hc rb_len_bound [OF wf] by (auto simp: rb_len_def rb_mod_pos split: if_splits)
  have same: "rb_elem ?rb j = rb_elem rb j" if "j \<noteq> ?h" for j
  proof -
    have "j * ?e + ?e \<le> ?h * ?e \<or> ?h * ?e + length d \<le> j * ?e"
    proof (cases "j < ?h")
      case True then have "(j + 1) * ?e \<le> ?h * ?e" by (intro mult_le_mono1) simp
      then show ?thesis by simp
    next
      case False with that have "(?h + 1) * ?e \<le> j * ?e" by (intro mult_le_mono1) simp
      then show ?thesis using d by simp
    qed
    from put_bytes_other [OF buf this] show ?thesis by (simp add: rb_elem_def)
  qed
  have new: "rb_elem ?rb ?h = d" using put_bytes_same [OF buf] d by (simp add: rb_elem_def)
  have "rb_list ?rb = rb_list rb @ [d]"
    using pos same new last by (auto simp: rb_list_def len)
  with p wf' show ?thesis by auto
qed

lemma ringbuffer_pop_empty: "rb_wf rb \<Longrightarrow> rb_list rb = [] \<Longrightarrow> ringbuffer_pop rb d = Some (rb, d, - ENOMEM)"
  using ringbuffer_empty_iff [of rb] by (auto simp: ringbuffer_pop_def ringbuffer_empty_def)

lemma ringbuffer_pop_ok:
  assumes wf: "rb_wf rb" and l: "rb_list rb = x # xs" and d: "length d = unat (rb_element_size rb)"
  shows "\<exists>rb'. ringbuffer_pop rb d = Some (rb', x, EOK) \<and> rb_wf rb' \<and> rb_list rb' = xs
     \<and> rb_capacity rb' = rb_capacity rb \<and> rb_element_size rb' = rb_element_size rb"
proof -
  let ?e = "unat (rb_element_size rb)" and ?c = "unat (rb_capacity rb)" and ?h = "unat (rb_head rb)" and ?t = "unat (rb_tail rb)"
  have hc: "?h < ?c" "?t < ?c" using wf by (auto simp: rb_wf_def)
  have ht: "rb_head rb \<noteq> rb_tail rb" using ringbuffer_empty_iff [OF wf] l by (simp add: ringbuffer_empty_def)
  then have htn: "?h \<noteq> ?t" by (simp add: u64_eq_iff_unat)
  have off: "unat (rb_tail rb * rb_element_size rb) = ?t * ?e"
    using rb_slot_off [OF wf] hc by (simp add: word_less_nat_alt)
  let ?rb = "rb\<lparr>rb_tail := (rb_tail rb + 1) mod rb_capacity rb\<rparr>"
  have t': "unat (rb_tail ?rb) = (if ?t + 1 = ?c then 0 else ?t + 1)" using unat_succ_mod hc by simp
  have len: "rb_len rb = Suc (rb_len ?rb)" using t' hc htn by (auto simp: rb_len_def)
  have upt: "[0..<rb_len rb] = 0 # map Suc [0..<rb_len ?rb]" by (simp add: len upt_conv_Cons map_Suc_upt del: upt_Suc)
  have step: "(unat (rb_tail ?rb) + i) mod ?c = (?t + Suc i) mod ?c" for i
  proof (cases "?t + 1 = ?c")
    case True
    then have "?t + Suc i = i + ?c" by simp
    then have "(?t + Suc i) mod ?c = i mod ?c" by (simp only: mod_add_self2)
    with t' True show ?thesis by simp
  qed (use t' in simp)
  have el: "rb_elem ?rb = rb_elem rb" by (auto simp: rb_elem_def)
  have "rb_list ?rb = map (\<lambda>i. rb_elem rb ((?t + Suc i) mod ?c)) [0..<rb_len ?rb]"
    unfolding rb_list_def el step [symmetric] by simp
  moreover have "rb_list rb = map (\<lambda>i. rb_elem rb ((?t + i) mod ?c)) (0 # map Suc [0..<rb_len ?rb])"
    unfolding rb_list_def upt by simp
  ultimately have "rb_list rb = rb_elem rb ?t # rb_list ?rb"
    using hc by (simp add: comp_def)
  with l have x: "x = rb_elem rb ?t" and xs: "xs = rb_list ?rb" by auto
  have "length x = ?e" using rb_slot_bound [OF wf hc(2)] by (simp add: x rb_elem_def)
  then have "ringbuffer_pop rb d = Some (?rb, x, EOK)"
    using ht hc off d rb_slot_bound [OF wf hc(2)] by (auto simp: ringbuffer_pop_def get_bytes_def put_bytes_def x rb_elem_def)
  moreover have "rb_wf ?rb" using wf t' hc by (auto simp: rb_wf_def)
  ultimately show ?thesis using xs by auto
qed

section \<open>The queue contract\<close>

interpretation rbq: fifo "rb_rep c e" "rb_ok c e" rb_enq rb_deq for c e
proof unfold_locales
  fix q xs x
  assume q: "rb_rep c e q xs" and ok: "rb_ok c e xs x"
  then have "\<not> ringbuffer_full q"
    using ringbuffer_full_iff [of q] by (auto simp: rb_rep_def rb_ok_def)
  with q ok ringbuffer_push_ok [of q x] show "rb_rep c e (rb_enq q x) (xs @ [x])"
    by (auto simp: rb_rep_def rb_ok_def rb_enq_def)
next
  fix q x xs
  assume "rb_rep c e q (x # xs)"
  then show "\<exists>q'. rb_deq q = (q', Some x) \<and> rb_rep c e q' xs"
    using ringbuffer_pop_ok [of q x xs "replicate (unat (rb_element_size q)) 0"]
    by (auto simp: rb_rep_def rb_deq_def)
next
  fix q
  assume "rb_rep c e q []"
  then show "rb_deq q = (q, None)"
    by (simp add: rb_rep_def rb_deq_def ringbuffer_pop_empty)
qed

section \<open>Properties\<close>

text \<open>
  Claim C40. A well-formed ring buffer is a bounded queue of at most \<open>capacity - 1\<close>
  elements: a push onto a full buffer fails with \<^verbatim>\<open>-ENOMEM\<close> and changes
  nothing, any other push appends the element; a pop of an empty buffer fails with
  \<^verbatim>\<open>-ENOMEM\<close> and changes nothing, any other pop returns and removes the oldest
  element. Well-formedness is kept, and no access leaves the storage.
\<close>

theorem ringbuffer_bounded_queue:
  assumes "rb_wf rb" "length d = unat (rb_element_size rb)"
  shows "length (rb_list rb) < unat (rb_capacity rb) \<and>
    (if length (rb_list rb) + 1 = unat (rb_capacity rb)
     then ringbuffer_push rb d = Some (rb, - ENOMEM)
     else \<exists>rb'. ringbuffer_push rb d = Some (rb', EOK) \<and> rb_wf rb' \<and>
            rb_list rb' = rb_list rb @ [d]) \<and>
    (case rb_list rb of
       [] \<Rightarrow> ringbuffer_pop rb d = Some (rb, d, - ENOMEM)
     | x # xs \<Rightarrow> \<exists>rb'. ringbuffer_pop rb d = Some (rb', x, EOK) \<and> rb_wf rb' \<and>
                  rb_list rb' = xs)"
  using assms rb_len_bound [of rb] ringbuffer_full_iff [of rb] ringbuffer_push_full [of rb d]
    ringbuffer_push_ok [of rb d] ringbuffer_pop_empty [of rb d] ringbuffer_pop_ok [of rb _ _ d]
  by (auto split: list.splits)

theorem ringbuffer_bounded_queue_witness:
  "\<exists>rb'. ringbuffer_push (ringbuffer_init 1 [0, 0, 0] 3) [7] = Some (rb', EOK) \<and>
     rb_wf rb' \<and> rb_list rb' = [[7]]"
proof -
  let ?rb = "ringbuffer_init 1 [0, 0, 0] 3"
  have "rb_wf ?rb" "rb_list ?rb = []" "rb_capacity ?rb = 3" "rb_element_size ?rb = 1"
    by (simp_all add: rb_wf_def ringbuffer_init_def rb_list_def rb_len_def)
  with ringbuffer_bounded_queue [of ?rb "[7]"] show ?thesis by simp
qed

text \<open>
  Across any number of pushes and pops the ring buffer keeps the order: elements
  pushed while there is room are popped in the order they were pushed, after those already in
  the buffer, wrap-around of the indices included.
\<close>

theorem ringbuffer_fifo:
  assumes "rb_rep c e q ys" "rbq.ok_all c e ys xs"
  shows "\<exists>q'. rbq.deq_n (length ys + length xs) (rbq.enq_all q xs) = (q', map Some (ys @ xs)) \<and>
    rb_rep c e q' []"
  by (rule rbq.fifo_order [OF assms])

text \<open>The indices of this buffer wrap around: its head is the last slot.\<close>

definition rb_example :: RingBuffer where
  "rb_example = \<lparr>rb_buffer = [0, 0, 9, 0], rb_capacity = 4, rb_element_size = 1,
     rb_head = 3, rb_tail = 2\<rparr>"

theorem ringbuffer_fifo_witness:
  "rb_rep 4 1 rb_example [[9]] \<and> rbq.ok_all 4 1 [[9]] [[5], [6]] \<and>
   (\<exists>q'. rbq.deq_n (length [[9 :: u8]] + length [[5 :: u8], [6]])
      (rbq.enq_all rb_example [[5], [6]]) = (q', map Some ([[9]] @ [[5], [6]])))"
proof -
  have "rb_rep 4 1 rb_example [[9]]"
    by (simp add: rb_rep_def rb_wf_def rb_list_def rb_len_def rb_elem_def rb_example_def)
  moreover have "rbq.ok_all 4 1 [[9]] [[5], [6]]" by (simp add: rb_ok_def)
  ultimately show ?thesis using ringbuffer_fifo by blast
qed

end
