(* ===== verification/Bitmap.thy ===== *)
theory Bitmap
  imports KPrelude
begin

text \<open>
  The page bitmap allocator of \<^verbatim>\<open>lib/allocator/bitmap.c\<close>: one bit per page, set
  while the page is allocated. The structure \<^verbatim>\<open>AllocBitMap\<close> is the record
  \<open>AllocBitMap\<close>; its pointer \<^verbatim>\<open>bitmap\<close> is the pair of the address
  \<open>bm_base\<close> and the bytes \<open>bm_bitmap\<close> found there. An access past those bytes is
  \<open>None\<close>, like a failed \<^verbatim>\<open>ASSERT\<close>.

  The lemmas show that the operations implement a set of allocated pages: the search finds the
  lowest run of free pages, allocation and release change exactly the requested bits, and a
  double release stops the machine.
\<close>

section \<open>State and operations\<close>

record AllocBitMap =
  bm_base :: u64
  bm_bitmap :: "u8 list"
  bm_page_count :: usize
  bm_pool :: u64

definition SIZE_TO_BITMAP_BYTES :: "usize \<Rightarrow> usize" where
  "SIZE_TO_BITMAP_BYTES sz = (sz div PAGE_SIZE + 7) div 8"

definition bm_get_page_allocated :: "AllocBitMap \<Rightarrow> usize \<Rightarrow> bool option" where
  "bm_get_page_allocated alloc page =
     (let byte_offset = unat (page div 8); bit_offset = unat (page mod 8)
      in if byte_offset < length (bm_bitmap alloc)
         then Some (GET_BIT (bm_bitmap alloc ! byte_offset) bit_offset \<noteq> 0) else None)"

definition bm_set_page_allocate :: "AllocBitMap \<Rightarrow> usize \<Rightarrow> AllocBitMap option" where
  "bm_set_page_allocate alloc page =
     (let byte_offset = unat (page div 8); bit_offset = unat (page mod 8)
      in if byte_offset < length (bm_bitmap alloc)
         then Some (alloc\<lparr>bm_bitmap := (bm_bitmap alloc)
                [byte_offset := SET_BIT (bm_bitmap alloc ! byte_offset) bit_offset]\<rparr>)
         else None)"

definition bm_set_page_free :: "AllocBitMap \<Rightarrow> usize \<Rightarrow> AllocBitMap option" where
  "bm_set_page_free alloc page =
     (let byte_offset = unat (page div 8); bit_offset = unat (page mod 8)
      in if byte_offset < length (bm_bitmap alloc)
         then Some (alloc\<lparr>bm_bitmap := (bm_bitmap alloc)
                [byte_offset := CLEAR_BIT (bm_bitmap alloc ! byte_offset) bit_offset]\<rparr>)
         else None)"

definition bm_addr_to_page :: "AllocBitMap \<Rightarrow> u64 \<Rightarrow> usize option" where
  "bm_addr_to_page alloc addr = do {
     ASSERT (bm_pool alloc \<le> addr);
     ASSERT (addr < bm_pool alloc + bm_page_count alloc * PAGE_SIZE);
     Some ((addr - bm_pool alloc) div PAGE_SIZE)
   }"

definition bm_page_to_addr :: "AllocBitMap \<Rightarrow> usize \<Rightarrow> u64" where
  "bm_page_to_addr alloc page = bm_pool alloc + page * PAGE_SIZE"

definition bm_is_page_allocated :: "AllocBitMap \<Rightarrow> usize \<Rightarrow> bool option" where
  "bm_is_page_allocated alloc page = do {
     ASSERT (page < bm_page_count alloc);
     bm_get_page_allocated alloc page
   }"

definition bm_allocate :: "AllocBitMap \<Rightarrow> usize \<Rightarrow> usize \<Rightarrow> (AllocBitMap \<times> u64) option" where
  "bm_allocate alloc page page_count = do {
     ASSERT (page < bm_page_count alloc);
     ASSERT (page + page_count \<le> bm_page_count alloc);
     ASSERT (0 < page_count);
     alloc' \<leftarrow> foldM (\<lambda>pos a. bm_set_page_allocate a pos) (u64_range page (page + page_count)) alloc;
     Some (alloc', bm_page_to_addr alloc' page)
   }"

definition bm_free :: "AllocBitMap \<Rightarrow> u64 \<Rightarrow> usize \<Rightarrow> AllocBitMap option" where
  "bm_free alloc addr page_count = do {
     page \<leftarrow> bm_addr_to_page alloc addr;
     ASSERT (page < bm_page_count alloc);
     ASSERT (page + page_count \<le> bm_page_count alloc);
     ASSERT (0 < page_count);
     foldM (\<lambda>pos _. do { b \<leftarrow> bm_get_page_allocated alloc pos; ASSERT b })
       (u64_range page (page + page_count)) ();
     foldM (\<lambda>pos a. bm_set_page_free a pos) (u64_range page (page + page_count)) alloc
   }"

text \<open>
  The inner loop of the search returns the first \<open>i\<close> whose page is allocated, or
  \<open>page_count\<close>.
\<close>

function bm_scan :: "AllocBitMap \<Rightarrow> usize \<Rightarrow> usize \<Rightarrow> usize \<Rightarrow> usize option" where
  "bm_scan alloc start page_count i =
     (if i < page_count then do {
        b \<leftarrow> bm_is_page_allocated alloc (start + i);
        if b then Some i else bm_scan alloc start page_count (i + 1)
      } else Some i)"
  by pat_completeness auto
termination
  by (relation "measure (\<lambda>(alloc, start, page_count, i). unat page_count - unat i)")
    (auto simp: word_less_nat_alt unat_Suc_u64)

declare bm_scan.simps [simp del]

partial_function (option) bm_find_from :: "AllocBitMap \<Rightarrow> usize \<Rightarrow> usize \<Rightarrow> usize option" where
  "bm_find_from alloc page_count start =
     (if start + page_count \<le> bm_page_count alloc then do {
        i \<leftarrow> bm_scan alloc start page_count 0;
        if i = page_count then Some start else bm_find_from alloc page_count (start + (i + 1))
      } else Some SIZE_MAX)"

definition bm_find_n_free_pages :: "AllocBitMap \<Rightarrow> usize \<Rightarrow> usize option" where
  "bm_find_n_free_pages alloc page_count = bm_find_from alloc page_count 0"

definition bitmap_alloc :: "AllocBitMap \<Rightarrow> usize \<Rightarrow> (AllocBitMap \<times> u64) option" where
  "bitmap_alloc alloc page_count = do {
     free_n_pos \<leftarrow> bm_find_n_free_pages alloc page_count;
     if free_n_pos = SIZE_MAX then Some (alloc, ERR_TO_PTR (- ENOMEM))
     else bm_allocate alloc free_n_pos page_count
   }"

text \<open>The checking loop of \<^verbatim>\<open>bitmap_reserve\<close>: is any page of the range allocated?\<close>

primrec bm_any_allocated :: "AllocBitMap \<Rightarrow> usize list \<Rightarrow> bool option" where
  "bm_any_allocated alloc [] = Some False"
| "bm_any_allocated alloc (pos # ps) = do {
     b \<leftarrow> bm_is_page_allocated alloc pos;
     if b then Some True else bm_any_allocated alloc ps
   }"

definition bitmap_reserve :: "AllocBitMap \<Rightarrow> u64 \<Rightarrow> usize \<Rightarrow> (AllocBitMap \<times> errno_t) option" where
  "bitmap_reserve alloc addr page_count = do {
     page \<leftarrow> bm_addr_to_page alloc addr;
     b \<leftarrow> bm_any_allocated alloc (u64_range page (page + page_count));
     if b then Some (alloc, - ENOMEM)
     else do { (alloc', _) \<leftarrow> bm_allocate alloc page page_count; Some (alloc', EOK) }
   }"

definition bitmap_free :: "AllocBitMap \<Rightarrow> u64 \<Rightarrow> usize \<Rightarrow> AllocBitMap option" where
  "bitmap_free alloc addr page_count = bm_free alloc addr page_count"

text \<open>\<^verbatim>\<open>memset(alloc->bitmap, 0, n)\<close>.\<close>

definition bm_clear :: "AllocBitMap \<Rightarrow> usize \<Rightarrow> AllocBitMap option" where
  "bm_clear alloc n = do {
     bs \<leftarrow> put_bytes 0 (replicate (unat n) 0) (bm_bitmap alloc);
     Some (alloc\<lparr>bm_bitmap := bs\<rparr>)
   }"

definition bitmap_copy :: "AllocBitMap \<Rightarrow> AllocBitMap \<Rightarrow> (AllocBitMap \<times> errno_t) option" where
  "bitmap_copy dst src =
     (if bm_page_count dst < bm_page_count src then Some (dst, - ENOMEM)
      else do {
        dst0 \<leftarrow> bm_clear dst (SIZE_TO_BITMAP_BYTES (bm_page_count dst * PAGE_SIZE));
        dst' \<leftarrow> foldM (\<lambda>page_i d. do {
            b \<leftarrow> bm_is_page_allocated src page_i;
            if b then bm_set_page_allocate d page_i else Some d
          }) (u64_range 0 (bm_page_count src)) dst0;
        Some (dst', EOK)
      })"

text \<open>
  \<^verbatim>\<open>bitmap_init_alloc\<close> puts the bitmap into the last pages of the pool itself; the
  bytes there are the result of the \<^verbatim>\<open>memset\<close>.
\<close>

definition bitmap_init_alloc :: "u64 \<Rightarrow> usize \<Rightarrow> AllocBitMap option" where
  "bitmap_init_alloc pool pool_size = do {
     ASSERT (IS_PAGE_ALIGNED pool_size);
     let bitmap_bytes = SIZE_TO_BITMAP_BYTES pool_size;
     let bitmap = round_down (pool + pool_size - bitmap_bytes) PAGE_SIZE;
     let page_count = (bitmap - pool) div PAGE_SIZE;
     ASSERT (0 < page_count);
     Some \<lparr>bm_base = bitmap, bm_bitmap = replicate (unat bitmap_bytes) 0,
           bm_page_count = page_count, bm_pool = pool\<rparr>
   }"

section \<open>The abstract view: a set of allocated pages\<close>

text \<open>
  \<open>bm_bit a p\<close> is bit \<open>p\<close> of the bitmap; \<open>bm_used a\<close> the set of allocated
  pages. In a well-formed allocator the bitmap has a bit for every page and the pool does not
  wrap around the address space.
\<close>

definition bm_bit :: "AllocBitMap \<Rightarrow> nat \<Rightarrow> bool" where
  "bm_bit a p \<longleftrightarrow> p div 8 < length (bm_bitmap a) \<and> bit (bm_bitmap a ! (p div 8)) (p mod 8)"

definition bm_used :: "AllocBitMap \<Rightarrow> nat set" where
  "bm_used a = {p. p < unat (bm_page_count a) \<and> bm_bit a p}"

definition bm_wf :: "AllocBitMap \<Rightarrow> bool" where
  "bm_wf a \<longleftrightarrow> unat (bm_page_count a) \<le> 8 * length (bm_bitmap a) \<and>
     unat (bm_pool a) + unat (bm_page_count a) * 4096 < 2 ^ 64"

definition bm_run_free :: "AllocBitMap \<Rightarrow> nat \<Rightarrow> nat \<Rightarrow> bool" where
  "bm_run_free a s n \<longleftrightarrow> s + n \<le> unat (bm_page_count a) \<and> {s..<s + n} \<inter> bm_used a = {}"

text \<open>\<open>bm_same a b\<close>: the two states differ in the bits only.\<close>

definition bm_same :: "AllocBitMap \<Rightarrow> AllocBitMap \<Rightarrow> bool" where
  "bm_same a b \<longleftrightarrow> bm_base a = bm_base b \<and> length (bm_bitmap a) = length (bm_bitmap b) \<and>
     bm_page_count a = bm_page_count b \<and> bm_pool a = bm_pool b"

lemma bm_same_refl [simp]: "bm_same a a"
  by (simp add: bm_same_def)

lemma bm_same_wf: "bm_same a b \<Longrightarrow> bm_wf a = bm_wf b"
  by (simp add: bm_same_def bm_wf_def)

lemma bm_wf_count: "bm_wf a \<Longrightarrow> unat (bm_page_count a) \<le> 2 ^ 52"
  by (simp add: bm_wf_def)

lemma bm_wf_index: "bm_wf a \<Longrightarrow> p < unat (bm_page_count a) \<Longrightarrow> p div 8 < length (bm_bitmap a)"
  by (auto simp: bm_wf_def)

lemma unat_div8 [simp]: "unat (p div 8 :: u64) = unat p div 8" "unat (p mod 8 :: u64) = unat p mod 8"
  by (simp_all add: unat_div_distrib unat_mod_distrib)

lemma bm_get_page_allocated_bit:
  "unat page div 8 < length (bm_bitmap a) \<Longrightarrow> bm_get_page_allocated a page = Some (bm_bit a (unat page))"
  by (simp add: bm_get_page_allocated_def Let_def GET_BIT_bit bm_bit_def)

lemma bm_is_page_allocated_used:
  "bm_wf a \<Longrightarrow> page < bm_page_count a \<Longrightarrow> bm_is_page_allocated a page = Some (unat page \<in> bm_used a)"
  by (simp add: bm_is_page_allocated_def bm_used_def bm_get_page_allocated_bit bm_wf_index
      word_less_nat_alt)

lemma bm_is_page_allocated_out: "\<not> page < bm_page_count a \<Longrightarrow> bm_is_page_allocated a page = None"
  by (simp add: bm_is_page_allocated_def)

lemma div_mod_8_inject: "(p :: nat) div 8 = q div 8 \<Longrightarrow> p mod 8 = q mod 8 \<Longrightarrow> p = q"
  using div_mult_mod_eq [of p 8] div_mult_mod_eq [of q 8] by metis

lemma bm_bit_update:
  assumes "n div 8 < length (bm_bitmap a)"
    and "\<And>j. j < 8 \<Longrightarrow> bit w j = (if j = n mod 8 then v else bit (bm_bitmap a ! (n div 8)) j)"
  shows "bm_bit (a\<lparr>bm_bitmap := (bm_bitmap a)[n div 8 := w]\<rparr>) = (bm_bit a)(n := v)"
proof
  fix p
  show "bm_bit (a\<lparr>bm_bitmap := (bm_bitmap a)[n div 8 := w]\<rparr>) p = ((bm_bit a)(n := v)) p"
  proof (cases "p div 8 = n div 8")
    case True
    then have "p mod 8 = n mod 8 \<longleftrightarrow> p = n" using div_mod_8_inject [of p n] by auto
    with assms True show ?thesis by (simp add: bm_bit_def)
  next
    case False
    then have "p \<noteq> n" by auto
    with False show ?thesis by (simp add: bm_bit_def)
  qed
qed

lemma bm_set_page_allocate_ok:
  assumes "unat page div 8 < length (bm_bitmap a)"
  shows "\<exists>a'. bm_set_page_allocate a page = Some a' \<and> bm_same a' a \<and>
    bm_bit a' = (bm_bit a)(unat page := True)"
  using assms by (simp add: bm_set_page_allocate_def Let_def bm_same_def bm_bit_update bit_SET_BIT)

lemma bm_set_page_free_ok:
  assumes "unat page div 8 < length (bm_bitmap a)"
  shows "\<exists>a'. bm_set_page_free a page = Some a' \<and> bm_same a' a \<and>
    bm_bit a' = (bm_bit a)(unat page := False)"
  using assms by (simp add: bm_set_page_free_def Let_def bm_same_def bm_bit_update bit_CLEAR_BIT)

section \<open>Loops over a range of pages\<close>

text \<open>
  Both bit-setting loops are instances of one lemma: a step that sets the bit of its page to
  \<open>v\<close>, folded over a range, sets the bits of the range.
\<close>

lemma bm_fold_range:
  assumes step: "\<And>a page. unat page div 8 < length (bm_bitmap a) \<Longrightarrow>
      \<exists>a'. f page a = Some a' \<and> bm_same a' a \<and> bm_bit a' = (bm_bit a)(unat page := v)"
    and "bm_wf a" "unat e \<le> unat (bm_page_count a)"
  shows "\<exists>a'. foldM f (u64_range s e) a = Some a' \<and> bm_same a' a \<and>
    bm_bit a' = (\<lambda>p. if unat s \<le> p \<and> p < unat e then v else bm_bit a p)"
proof -
  let ?I = "\<lambda>k a'. bm_same a' a \<and>
    bm_bit a' = (\<lambda>p. if unat s \<le> p \<and> p < unat s + k then v else bm_bit a p)"
  have "\<exists>a'. foldM f (u64_range s e) a = Some a' \<and> ?I (length (u64_range s e)) a'"
  proof (rule foldM_invariant)
    fix k b
    assume k: "k < length (u64_range s e)" and I: "?I k b"
    then have "unat (u64_range s e ! k) div 8 < length (bm_bitmap b)"
      using bm_wf_index [OF assms(2), of "unat s + k"] assms(3) by (simp add: bm_same_def)
    from step [OF this] k I show "\<exists>b'. f (u64_range s e ! k) b = Some b' \<and> ?I (Suc k) b'"
      by (auto simp: bm_same_def fun_eq_iff)
  qed auto
  then show ?thesis by (cases "unat s \<le> unat e") (auto simp: fun_eq_iff)
qed

lemma bm_used_cong:
  "bm_same a' a \<Longrightarrow> bm_bit a' = (\<lambda>p. if s \<le> p \<and> p < e then v else bm_bit a p) \<Longrightarrow>
   e \<le> unat (bm_page_count a) \<Longrightarrow> bm_used a' = (if v then bm_used a \<union> {s..<e} else bm_used a - {s..<e})"
  by (auto simp: bm_used_def bm_same_def split: if_splits)

lemma unat_add_le:
  "bm_wf a \<Longrightarrow> unat p + unat n \<le> unat (bm_page_count a) \<Longrightarrow> unat (p + n :: u64) = unat p + unat n"
  by (rule unat_add_u64) (use bm_wf_count [of a] in simp)

lemma bm_allocate_ok:
  assumes "bm_wf a" "unat page + unat n \<le> unat (bm_page_count a)" "0 < n"
  shows "\<exists>a'. bm_allocate a page n = Some (a', bm_page_to_addr a page) \<and> bm_same a' a \<and>
    bm_used a' = bm_used a \<union> {unat page..<unat page + unat n}"
proof -
  have e: "unat (page + n) = unat page + unat n" using unat_add_le assms(1,2) .
  have n: "0 < unat n" using assms(3) by (simp add: unat_gt_0)
  obtain a' where "foldM (\<lambda>pos a. bm_set_page_allocate a pos) (u64_range page (page + n)) a = Some a'"
    "bm_same a' a" "bm_bit a' = (\<lambda>p. if unat page \<le> p \<and> p < unat (page + n) then True else bm_bit a p)"
    using bm_fold_range [of "\<lambda>pos a. bm_set_page_allocate a pos" True a "page + n" page]
      bm_set_page_allocate_ok assms(1,2) e by auto
  then show ?thesis
    using assms n e bm_used_cong [of a' a "unat page" "unat (page + n)" True]
    by (auto simp: bm_allocate_def word_less_nat_alt word_le_nat_alt bm_page_to_addr_def bm_same_def)
qed

lemma bm_addr_to_page_ok:
  assumes "bm_wf a" "p < unat (bm_page_count a)" "unat addr = unat (bm_pool a) + p * 4096"
  shows "bm_addr_to_page a addr = Some (of_nat p)"
proof -
  let ?c = "bm_page_count a"
  have m: "unat (?c * PAGE_SIZE) = unat ?c * 4096" using assms(1)
    by (subst unat_mult_u64) (auto simp: bm_wf_def)
  have e: "unat (bm_pool a + ?c * PAGE_SIZE) = unat (bm_pool a) + unat ?c * 4096"
    using assms(1) by (subst unat_add_u64) (auto simp: bm_wf_def m)
  have le: "bm_pool a \<le> addr" using assms(3) by (simp add: word_le_nat_alt)
  have "unat ((addr - bm_pool a) div PAGE_SIZE) = p"
    using assms(3) le by (simp add: unat_div_distrib unat_sub_u64)
  then have "(addr - bm_pool a) div PAGE_SIZE = of_nat p" by auto
  with le assms(2,3) e show ?thesis by (simp add: bm_addr_to_page_def word_less_nat_alt)
qed

lemma bm_addr_to_page_ok_any:
  assumes "bm_wf a" "bm_pool a \<le> addr" "unat addr < unat (bm_pool a) + unat (bm_page_count a) * 4096"
  shows "bm_addr_to_page a addr = Some ((addr - bm_pool a) div PAGE_SIZE)"
proof -
  let ?c = "bm_page_count a"
  have m: "unat (?c * PAGE_SIZE) = unat ?c * 4096" using assms(1)
    by (subst unat_mult_u64) (auto simp: bm_wf_def)
  have e: "unat (bm_pool a + ?c * PAGE_SIZE) = unat (bm_pool a) + unat ?c * 4096"
    using assms(1) by (subst unat_add_u64) (auto simp: bm_wf_def m)
  show ?thesis using assms(2,3) e by (simp add: bm_addr_to_page_def word_less_nat_alt)
qed

lemma foldM_check:
  "foldM (\<lambda>x _. do { b \<leftarrow> g x; ASSERT b }) xs () = (if \<forall>x \<in> set xs. g x = Some True then Some () else None)"
  by (induction xs) (auto split: Option.bind_splits simp: ASSERT_def)

lemma bm_range_used:
  assumes "bm_wf a" "unat page + unat n \<le> unat (bm_page_count a)"
  shows "(\<forall>x \<in> set (u64_range page (page + n)). bm_get_page_allocated a x = Some True) \<longleftrightarrow>
    {unat page..<unat page + unat n} \<subseteq> bm_used a"
proof -
  have e: "unat (page + n) = unat page + unat n" using unat_add_le assms .
  have "bm_get_page_allocated a x = Some (unat x \<in> bm_used a)"
    if "x \<in> set (u64_range page (page + n))" for x
  proof -
    have "unat x < unat (bm_page_count a)"
      using that assms(2) e by (auto simp: set_u64_range word_less_nat_alt word_le_nat_alt)
    then show ?thesis by (simp add: bm_get_page_allocated_bit bm_wf_index assms(1) bm_used_def)
  qed
  then have "(\<forall>x \<in> set (u64_range page (page + n)). bm_get_page_allocated a x = Some True) \<longleftrightarrow>
      (\<forall>k \<in> set (map unat (u64_range page (page + n))). k \<in> bm_used a)" by auto
  then show ?thesis unfolding u64_range_unat e by auto
qed

text \<open>
  A release takes back exactly the pages of the range; if one of them is not allocated, the
  machine stops.
\<close>

lemma bm_free_ok:
  assumes "bm_wf a" "p + unat n \<le> unat (bm_page_count a)" "0 < n"
    "unat addr = unat (bm_pool a) + p * 4096"
  shows "if {p..<p + unat n} \<subseteq> bm_used a
    then \<exists>a'. bm_free a addr n = Some a' \<and> bm_same a' a \<and> bm_used a' = bm_used a - {p..<p + unat n}
    else bm_free a addr n = None"
proof -
  have n: "0 < unat n" using assms(3) by (simp add: unat_gt_0)
  have up: "unat (of_nat p :: u64) = p" using assms(2) unat_u64_less [of "bm_page_count a"]
    by (simp add: unat_of_nat take_bit_nat_eq_self del: unat_u64_less)
  have up': "unat (of_nat p :: u64) + unat n \<le> unat (bm_page_count a)" using assms(2) up by simp
  have e: "unat (of_nat p + n) = p + unat n" using unat_add_le [OF assms(1) up'] up by simp
  obtain a' where "foldM (\<lambda>pos a. bm_set_page_free a pos) (u64_range (of_nat p) (of_nat p + n)) a = Some a'"
    "bm_same a' a" "bm_bit a' = (\<lambda>q. if p \<le> q \<and> q < p + unat n then False else bm_bit a q)"
    using bm_fold_range [of "\<lambda>pos a. bm_set_page_free a pos" False a "of_nat p + n" "of_nat p"]
      bm_set_page_free_ok assms(1,2) e up by auto
  moreover have "bm_addr_to_page a addr = Some (of_nat p)"
    using bm_addr_to_page_ok [OF assms(1) _ assms(4)] assms(2) n by simp
  ultimately show ?thesis
    using assms n e up bm_range_used [OF assms(1) up'] bm_used_cong [of a' a p "p + unat n" False]
    by (auto simp: bm_free_def word_less_nat_alt word_le_nat_alt foldM_check)
qed

section \<open>The search\<close>

lemma bm_scan_ok:
  assumes "bm_wf a" "unat start + unat n \<le> unat (bm_page_count a)" "unat i \<le> unat n"
  shows "\<exists>r. bm_scan a start n i = Some r \<and> unat i \<le> unat r \<and> unat r \<le> unat n \<and>
    (\<forall>j. unat i \<le> j \<and> j < unat r \<longrightarrow> unat start + j \<notin> bm_used a) \<and>
    (unat r < unat n \<longrightarrow> unat start + unat r \<in> bm_used a)"
  using assms(3)
proof (induction "unat n - unat i" arbitrary: i)
  case 0
  then show ?case by (subst bm_scan.simps) (auto simp: word_less_nat_alt)
next
  case (Suc k)
  then have lt: "i < n" by (simp add: word_less_nat_alt)
  then have ui: "unat (i + 1) = unat i + 1" by (rule unat_Suc_u64)
  have us: "unat (start + i) = unat start + unat i" using assms(1)
    by (rule unat_add_le) (use assms(2) lt in \<open>simp add: word_less_nat_alt\<close>)
  have b: "bm_is_page_allocated a (start + i) = Some (unat start + unat i \<in> bm_used a)"
    using bm_is_page_allocated_used [OF assms(1), of "start + i"] us assms(2) lt
    by (simp add: word_less_nat_alt)
  show ?case
  proof (cases "unat start + unat i \<in> bm_used a")
    case True
    then show ?thesis using lt b by (subst bm_scan.simps) (auto simp: word_less_nat_alt)
  next
    case False
    have "k = unat n - unat (i + 1)" "unat (i + 1) \<le> unat n" using Suc.hyps(2) ui by auto
    from Suc.hyps(1) [OF this] obtain r where r: "bm_scan a start n (i + 1) = Some r"
      "unat i + 1 \<le> unat r" "unat r \<le> unat n"
      "\<forall>j. unat i + 1 \<le> j \<and> j < unat r \<longrightarrow> unat start + j \<notin> bm_used a"
      "unat r < unat n \<longrightarrow> unat start + unat r \<in> bm_used a" using ui by auto
    have "bm_scan a start n i = Some r" using lt b False r(1) by (subst bm_scan.simps) simp
    moreover have "\<forall>j. unat i \<le> j \<and> j < unat r \<longrightarrow> unat start + j \<notin> bm_used a"
      using r(4) False by (metis Suc_eq_plus1 le_eq_less_or_eq Suc_leI)
    ultimately show ?thesis using r by auto
  qed
qed

text \<open>What the search should return: the lowest run of \<open>n\<close> free pages, if there is one.\<close>

definition bm_first_fit :: "AllocBitMap \<Rightarrow> nat \<Rightarrow> nat option" where
  "bm_first_fit a n =
     find (\<lambda>s. \<forall>p \<in> {s..<s + n}. p \<notin> bm_used a) [0..<unat (bm_page_count a) + 1 - n]"

lemma bm_first_fit_Some:
  "bm_first_fit a n = Some s \<longleftrightarrow> bm_run_free a s n \<and> (\<forall>s' < s. \<not> bm_run_free a s' n)"
proof -
  have "bm_first_fit a n = Some s \<longleftrightarrow> s < unat (bm_page_count a) + 1 - n \<and>
      (\<forall>p \<in> {s..<s + n}. p \<notin> bm_used a) \<and> (\<forall>j < s. \<not> (\<forall>p \<in> {j..<j + n}. p \<notin> bm_used a))"
    unfolding bm_first_fit_def find_Some_iff by (auto simp: nth_append)
  then show ?thesis by (auto simp: bm_run_free_def)
qed

lemma bm_first_fit_None: "bm_first_fit a n = None \<longleftrightarrow> (\<forall>s. \<not> bm_run_free a s n)"
proof -
  have "s \<in> set [0..<unat (bm_page_count a) + 1 - n] \<longleftrightarrow> s + n \<le> unat (bm_page_count a)" for s by auto
  moreover have "{s..<s + n} \<inter> bm_used a = {} \<longleftrightarrow> (\<forall>p \<in> {s..<s + n}. p \<notin> bm_used a)" for s by blast
  ultimately show ?thesis unfolding bm_first_fit_def find_None_iff bm_run_free_def by blast
qed

lemma bm_run_free_skip:
  assumes "\<forall>s < st. \<not> bm_run_free a s n" "st + r \<in> bm_used a" "r < n"
  shows "\<forall>s < st + (r + 1). \<not> bm_run_free a s n"
proof (intro allI impI)
  fix s assume s: "s < st + (r + 1)"
  show "\<not> bm_run_free a s n"
  proof (cases "s < st")
    case False
    then have "st + r \<in> {s..<s + n}" using s assms(3) by auto
    then show ?thesis using assms(2) by (auto simp: bm_run_free_def)
  qed (use assms(1) in blast)
qed

lemma bm_find_from_ok:
  assumes "bm_wf a" "unat start \<le> unat (bm_page_count a)" "unat start + unat n < 2 ^ 64"
    "\<forall>s < unat start. \<not> bm_run_free a s (unat n)"
  shows "bm_find_from a n start =
    Some (case bm_first_fit a (unat n) of Some s \<Rightarrow> of_nat s | None \<Rightarrow> SIZE_MAX)"
  using assms(2-)
proof (induction "unat (bm_page_count a) - unat start" arbitrary: start rule: less_induct)
  case less
  let ?c = "unat (bm_page_count a)"
  have us: "unat (start + n) = unat start + unat n" using less.prems(2) by (rule unat_add_u64)
  show ?case
  proof (cases "unat start + unat n \<le> ?c")
    case False
    then have "bm_first_fit a (unat n) = None"
      using less.prems(3) by (auto simp: bm_first_fit_None bm_run_free_def not_le)
        (meson add_le_mono1 leD leI le_less_trans less_le_trans)
    then show ?thesis using False us by (subst bm_find_from.simps) (simp add: word_le_nat_alt)
  next
    case True
    obtain r where r: "bm_scan a start n 0 = Some r" "unat r \<le> unat n"
      "\<forall>j. j < unat r \<longrightarrow> unat start + j \<notin> bm_used a"
      "unat r < unat n \<longrightarrow> unat start + unat r \<in> bm_used a"
      using bm_scan_ok [OF assms(1) True, of 0] by auto
    show ?thesis
    proof (cases "r = n")
      case eq: True
      then have "bm_run_free a (unat start) (unat n)"
        using True r(3) by (auto simp: bm_run_free_def disjoint_iff le_iff_add)
      then have "bm_first_fit a (unat n) = Some (unat start)"
        using less.prems(3) by (simp add: bm_first_fit_Some)
      then show ?thesis using True us r(1) eq by (subst bm_find_from.simps) (simp add: word_le_nat_alt)
    next
      case False
      then have lt: "unat r < unat n" using r(2) by (metis le_neq_implies_less word_unat_eq_iff)
      have ur: "unat (r + 1) = unat r + 1" by (rule unat_Suc_u64 [of r n]) (simp add: word_less_nat_alt lt)
      have us': "unat (start + (r + 1)) = unat start + (unat r + 1)"
        using ur True lt unat_add_le [OF assms(1), of start "r + 1"] by simp
      have "bm_find_from a n (start + (r + 1)) =
          Some (case bm_first_fit a (unat n) of Some s \<Rightarrow> of_nat s | None \<Rightarrow> SIZE_MAX)"
      proof (rule less.hyps)
        show "\<forall>s < unat (start + (r + 1)). \<not> bm_run_free a s (unat n)"
          unfolding us' using bm_run_free_skip less.prems(3) r(4) lt by blast
        show "unat (start + (r + 1)) + unat n < 2 ^ 64"
          using us' True lt bm_wf_count [OF assms(1)] by simp
      qed (use us' True lt in auto)
      then show ?thesis using True us r(1) False by (subst bm_find_from.simps) (simp add: word_le_nat_alt)
    qed
  qed
qed

lemma bm_find_n_free_pages_ok:
  "bm_wf a \<Longrightarrow> bm_find_n_free_pages a n =
    Some (case bm_first_fit a (unat n) of Some s \<Rightarrow> of_nat s | None \<Rightarrow> SIZE_MAX)"
  unfolding bm_find_n_free_pages_def by (rule bm_find_from_ok) simp_all

lemma bm_page_to_addr_unat:
  assumes "bm_wf a" "p \<le> unat (bm_page_count a)"
  shows "unat (bm_page_to_addr a (of_nat p)) = unat (bm_pool a) + p * 4096"
proof -
  have up: "unat (of_nat p :: u64) = p"
    using assms(2) bm_wf_count [OF assms(1)] by (simp add: unat_of_nat take_bit_nat_eq_self)
  have b: "unat (bm_pool a) + p * 4096 < 2 ^ 64"
    using assms by (simp add: bm_wf_def)
  then have "unat (of_nat p * PAGE_SIZE :: u64) = p * 4096"
    using up by (subst unat_mult_u64) auto
  then show ?thesis using b unfolding bm_page_to_addr_def by (subst unat_add_u64) auto
qed

lemma bm_addr_not_err:
  assumes "bm_wf a" "unat addr + 4096 \<le> unat (bm_pool a) + unat (bm_page_count a) * 4096"
  shows "\<not> IS_ERR addr"
proof -
  have "unat addr + 4096 < 2 ^ 64" using assms by (simp add: bm_wf_def)
  then show ?thesis by (simp add: IS_ERR_unat)
qed

section \<open>The exported operations\<close>

lemma bitmap_alloc_ok:
  assumes "bm_wf a" "0 < n"
  shows "case bm_first_fit a (unat n) of
      Some s \<Rightarrow> \<exists>a' addr. bitmap_alloc a n = Some (a', addr) \<and> \<not> IS_ERR addr \<and>
        unat addr = unat (bm_pool a) + s * 4096 \<and> bm_same a' a \<and>
        bm_used a' = bm_used a \<union> {s..<s + unat n}
    | None \<Rightarrow> bitmap_alloc a n = Some (a, ERR_TO_PTR (- ENOMEM))"
proof (cases "bm_first_fit a (unat n)")
  case None
  then show ?thesis using assms(1) by (simp add: bitmap_alloc_def bm_find_n_free_pages_ok)
next
  case (Some s)
  then have s: "s + unat n \<le> unat (bm_page_count a)" "0 < unat n"
    using assms(2) by (auto simp: bm_first_fit_Some bm_run_free_def unat_gt_0)
  then have us: "unat (of_nat s :: u64) = s"
    using bm_wf_count [OF assms(1)] by (simp add: unat_of_nat take_bit_nat_eq_self)
  have "of_nat s \<noteq> SIZE_MAX"
  proof
    assume "of_nat s = SIZE_MAX"
    then have "s = unat SIZE_MAX" using us by simp
    then show False using s(1) bm_wf_count [OF assms(1)] by simp
  qed
  moreover have "\<not> IS_ERR (bm_page_to_addr a (of_nat s))"
    using s by (intro bm_addr_not_err [OF assms(1)]) (simp add: bm_page_to_addr_unat [OF assms(1)])
  ultimately show ?thesis
    using Some s bm_allocate_ok [OF assms(1), of "of_nat s" n] us assms(2)
    by (auto simp: bitmap_alloc_def bm_find_n_free_pages_ok [OF assms(1)] bm_page_to_addr_unat [OF assms(1)])
qed

lemma bm_any_allocated_ok:
  "bm_wf a \<Longrightarrow> \<forall>x \<in> set xs. x < bm_page_count a \<Longrightarrow>
   bm_any_allocated a xs = Some (\<exists>x \<in> set xs. unat x \<in> bm_used a)"
  by (induction xs) (auto simp: bm_is_page_allocated_used)

lemma bitmap_reserve_ok:
  assumes "bm_wf a" "p + unat n \<le> unat (bm_page_count a)" "0 < n"
    "unat addr = unat (bm_pool a) + p * 4096"
  shows "if {p..<p + unat n} \<inter> bm_used a = {}
    then \<exists>a'. bitmap_reserve a addr n = Some (a', EOK) \<and> bm_same a' a \<and>
           bm_used a' = bm_used a \<union> {p..<p + unat n}
    else bitmap_reserve a addr n = Some (a, - ENOMEM)"
proof -
  have n: "0 < unat n" using assms(3) by (simp add: unat_gt_0)
  have up: "unat (of_nat p :: u64) = p"
    using assms(2) bm_wf_count [OF assms(1)] by (simp add: unat_of_nat take_bit_nat_eq_self)
  have up': "unat (of_nat p :: u64) + unat n \<le> unat (bm_page_count a)" using assms(2) up by simp
  let ?r = "u64_range (of_nat p) (of_nat p + n)"
  have "map unat ?r = [p..<p + unat n]"
    using u64_range_unat [of "of_nat p" "of_nat p + n"] unat_add_le [OF assms(1) up'] up by simp
  then have r: "unat ` set ?r = {p..<p + unat n}" by (metis atLeastLessThan_upt list.set_map)
  then have "unat x \<in> {p..<p + unat n}" if "x \<in> set ?r" for x using that by blast
  then have "\<forall>x \<in> set ?r. x < bm_page_count a" using assms(2) by (force simp: word_less_nat_alt)
  then have "bm_any_allocated a ?r = Some (\<exists>x \<in> set ?r. unat x \<in> bm_used a)"
    by (rule bm_any_allocated_ok [OF assms(1)])
  then have "bm_any_allocated a ?r = Some ({p..<p + unat n} \<inter> bm_used a \<noteq> {})"
    unfolding r [symmetric] by auto
  then show ?thesis
    using bm_addr_to_page_ok [OF assms(1) _ assms(4)] assms(2) n bm_allocate_ok [OF assms(1) up' assms(3)] up
    by (auto simp: bitmap_reserve_def)
qed

lemma SIZE_TO_BITMAP_BYTES_unat:
  assumes "unat c < 2 ^ 52"
  shows "unat (SIZE_TO_BITMAP_BYTES (c * PAGE_SIZE)) = (unat c + 7) div 8"
proof -
  have "unat (c * PAGE_SIZE) = unat c * 4096" using assms by (subst unat_mult_u64) auto
  then have d: "unat (c * PAGE_SIZE div PAGE_SIZE) = unat c" by (simp add: unat_div_distrib)
  have "unat (c * PAGE_SIZE div PAGE_SIZE + 7) = unat c + 7"
    using assms by (subst unat_add_u64) (simp_all only: d, simp_all)
  then show ?thesis by (simp only: SIZE_TO_BITMAP_BYTES_def unat_div8)
qed

text \<open>
  After a copy the destination has the allocation state of the source; the pages that only the
  larger destination has are free.
\<close>

lemma bitmap_copy_ok:
  assumes "bm_wf dst" "bm_wf src" "bm_page_count src \<le> bm_page_count dst"
    "(unat (bm_page_count dst) + 7) div 8 = length (bm_bitmap dst)"
    "unat (bm_page_count dst) < 2 ^ 52"
  shows "\<exists>dst'. bitmap_copy dst src = Some (dst', EOK) \<and> bm_same dst' dst \<and>
    bm_used dst' = bm_used src"
proof -
  let ?n = "SIZE_TO_BITMAP_BYTES (bm_page_count dst * PAGE_SIZE)"
  let ?dst0 = "dst\<lparr>bm_bitmap := replicate (length (bm_bitmap dst)) 0\<rparr>"
  let ?f = "\<lambda>page_i d. do { b \<leftarrow> bm_is_page_allocated src page_i;
            if b then bm_set_page_allocate d page_i else Some d }"
  let ?I = "\<lambda>k d. bm_same d dst \<and> bm_bit d = (\<lambda>p. p < k \<and> p \<in> bm_used src)"
  have "unat ?n = length (bm_bitmap dst)"
    using assms(4,5) by (simp add: SIZE_TO_BITMAP_BYTES_unat)
  then have "bm_clear dst ?n = Some ?dst0" by (simp add: bm_clear_def put_bytes_def)
  moreover have "\<exists>d. foldM ?f (u64_range 0 (bm_page_count src)) ?dst0 = Some d \<and>
      ?I (length (u64_range 0 (bm_page_count src))) d"
  proof (rule foldM_invariant)
    fix k d assume k: "k < length (u64_range 0 (bm_page_count src))" and I: "?I k d"
    let ?x = "u64_range 0 (bm_page_count src) ! k"
    have x: "unat ?x = k" "?x < bm_page_count src" using k by (simp_all add: word_less_nat_alt)
    have "k div 8 < length (bm_bitmap d)"
      using bm_wf_index [OF assms(1), of k] assms(3) k I by (simp add: word_le_nat_alt bm_same_def)
    then show "\<exists>d'. ?f ?x d = Some d' \<and> ?I (Suc k) d'"
      using bm_set_page_allocate_ok [of ?x d] x I
      by (auto simp: bm_is_page_allocated_used [OF assms(2)] fun_eq_iff less_Suc_eq bm_same_def)
  qed (auto simp: bm_same_def bm_bit_def)
  then obtain d where "foldM ?f (u64_range 0 (bm_page_count src)) ?dst0 = Some d" and d: "bm_same d dst"
      "bm_bit d = (\<lambda>p. p < unat (bm_page_count src) \<and> p \<in> bm_used src)" by auto
  ultimately have "bitmap_copy dst src = Some (d, EOK)"
    using assms(3) by (simp add: bitmap_copy_def not_less)
  moreover have "bm_used d = bm_used src"
    using assms(3) d by (auto simp: bm_used_def bm_same_def word_le_nat_alt)
  ultimately show ?thesis using d by blast
qed

lemma bitmap_init_alloc_ok:
  assumes "IS_PAGE_ALIGNED pool" "IS_PAGE_ALIGNED pool_size" "8192 \<le> unat pool_size"
    "unat pool + unat pool_size < 2 ^ 64"
  shows "\<exists>a. bitmap_init_alloc pool pool_size = Some a \<and> bm_wf a \<and> bm_used a = {} \<and>
    bm_pool a = pool \<and> unat (bm_base a) = unat pool + unat (bm_page_count a) * 4096 \<and>
    unat (bm_base a) + length (bm_bitmap a) \<le> unat pool + unat pool_size"
proof -
  obtain p k where pk: "unat pool = 4096 * p" "unat pool_size = 4096 * k"
    using assms(1,2) by (auto simp: IS_PAGE_ALIGNED_unat dvd_def)
  have k: "2 \<le> k" "4096 * (p + k) < 2 ^ 64" using assms(3,4) pk by simp_all
  let ?b = "SIZE_TO_BITMAP_BYTES pool_size"
  have "unat (pool_size div PAGE_SIZE + 7) = k + 7"
    using k by (subst unat_add_u64) (auto simp: unat_div_distrib pk)
  then have b: "unat ?b = (k + 7) div 8"
    by (simp add: SIZE_TO_BITMAP_BYTES_def)
  have ps: "unat (pool + pool_size) = 4096 * (p + k)"
    using assms(4) pk by (subst unat_add_u64) auto
  let ?e = "pool + pool_size - ?b"
  have e: "unat ?e = 4096 * (p + k) - (k + 7) div 8"
    using k by (subst unat_sub_u64) (auto simp: word_le_nat_alt ps b)
  let ?bm = "round_down ?e PAGE_SIZE"
  have bm: "unat ?bm = (4096 * (p + k) - (k + 7) div 8) div 4096 * 4096"
    using unat_round_down [of 12 ?e] by (simp add: PAGE_SIZE_exp e minus_mod_eq_div_mult)
  define q where "q = (4096 * (p + k) - (k + 7) div 8) div 4096"
  define m where "m = (k + 7) div 8"
  have m: "1 \<le> m" "m \<le> k" unfolding m_def using k(1) by presburger+
  have "q * 4096 \<le> 4096 * (p + k) - m" "4096 * (p + k) - m < q * 4096 + 4096"
    unfolding q_def m_def [symmetric] using dividend_less_div_times [of 4096] by auto
  moreover have "m \<le> 4096 * (p + k)" using m by simp
  ultimately have q: "p < q" "q < p + k" "4096 * q + (k + 7) div 8 \<le> 4096 * (p + k)"
    unfolding m_def [symmetric] using m k(1) by (simp_all add: algebra_simps)
  have "unat ((?bm - pool) div PAGE_SIZE) = q - p"
    using q bm pk unfolding q_def [symmetric]
    by (simp add: unat_div_distrib unat_sub_u64 word_le_nat_alt flip: diff_mult_distrib)
  moreover have "unat (?bm) = 4096 * q" using bm by (simp add: q_def)
  ultimately show ?thesis
    using q k pk b assms(2)
    by (auto simp: bitmap_init_alloc_def Let_def word_less_nat_alt bm_wf_def bm_used_def bm_bit_def)
qed

section \<open>Properties\<close>

definition bm_example :: AllocBitMap where
  "bm_example = \<lparr>bm_base = 0x20000, bm_bitmap = [0b00001101], bm_page_count = 8, bm_pool = 0x1000\<rparr>"

lemma bm_example_wf: "bm_wf bm_example"
  by (simp add: bm_example_def bm_wf_def)

lemma bm_example_pool: "bm_page_count bm_example = 8" "bm_pool bm_example = 0x1000"
  by (simp_all add: bm_example_def)

lemma bm_example_used: "bm_used bm_example = {0, 2, 3}"
proof -
  have "bm_used bm_example = set (filter (bm_bit bm_example) [0..<8])"
    by (auto simp: bm_used_def bm_example_def)
  also have "\<dots> = {0, 2, 3}"
    by (simp add: upt_rec bm_bit_def bm_example_def bit_numeral_rec)
      (simp add: numeral_2_eq_2 numeral_3_eq_3)
  finally show ?thesis .
qed

text \<open>
  Claim C30. The bitmap allocator's search, which skips past the allocated page that stopped
  it, finds the same run as trying every start in turn: \<^verbatim>\<open>bitmap_alloc\<close> returns
  the lowest address whose \<open>n\<close> pages are all free, marks exactly those pages and leaves
  everything else unchanged, and fails with \<^verbatim>\<open>-ENOMEM\<close> exactly when no such run
  exists. The address is never an error pointer and the search always ends.
\<close>

theorem bitmap_alloc_first_fit:
  assumes "bm_wf a" "0 < n"
  shows "case bm_first_fit a (unat n) of
      Some s \<Rightarrow> \<exists>a' addr. bitmap_alloc a n = Some (a', addr) \<and> \<not> IS_ERR addr \<and>
        unat addr = unat (bm_pool a) + s * 4096 \<and> bm_same a' a \<and>
        bm_used a' = bm_used a \<union> {s..<s + unat n}
    | None \<Rightarrow> bitmap_alloc a n = Some (a, ERR_TO_PTR (- ENOMEM))"
  by (rule bitmap_alloc_ok [OF assms])

theorem bitmap_alloc_first_fit_witness:
  "\<exists>a' addr. bitmap_alloc bm_example 2 = Some (a', addr) \<and> \<not> IS_ERR addr \<and>
     unat addr = 0x5000 \<and> bm_used a' = {0, 2, 3, 4, 5}"
proof -
  have "bm_first_fit bm_example 2 = Some 4"
  proof -
    have "s = 0 \<or> s = 1 \<or> s = 2 \<or> s = 3" if "s < 4" for s :: nat using that by linarith
    then have "\<forall>s < 4. \<not> bm_run_free bm_example s 2"
      by (fastforce simp: bm_run_free_def bm_example_used disjoint_iff)
    then show ?thesis
      by (simp add: bm_first_fit_Some bm_run_free_def bm_example_used) (simp add: bm_example_def)
  qed
  then show ?thesis
    using bitmap_alloc_first_fit [of bm_example 2] bm_example_wf by (auto simp: bm_example_used bm_example_pool)
qed

text \<open>
  Claim C31. \<^verbatim>\<open>bitmap_free\<close> of a run inside the pool clears exactly the bits of
  that run; if any page of it is not allocated (a double release), the machine stops instead.
\<close>

theorem bitmap_free_exact:
  assumes "bm_wf a" "p + unat n \<le> unat (bm_page_count a)" "0 < n"
    "unat addr = unat (bm_pool a) + p * 4096"
  shows "if {p..<p + unat n} \<subseteq> bm_used a
    then \<exists>a'. bitmap_free a addr n = Some a' \<and> bm_same a' a \<and> bm_used a' = bm_used a - {p..<p + unat n}
    else bitmap_free a addr n = None"
  unfolding bitmap_free_def by (rule bm_free_ok [OF assms])

theorem bitmap_free_exact_witness:
  "(\<exists>a'. bitmap_free bm_example 0x3000 2 = Some a' \<and> bm_used a' = {0}) \<and>
   bitmap_free bm_example 0x3000 3 = None"
proof -
  have s: "{2..<4 :: nat} = {2, 3}" "{2..<5 :: nat} = {2, 3, 4}" by auto
  show ?thesis
    using bitmap_free_exact [of bm_example 2 2 "0x3000"] bitmap_free_exact [of bm_example 2 3 "0x3000"]
      bm_example_wf by (auto simp: bm_example_used bm_example_pool s)
qed

text \<open>
  \<^verbatim>\<open>bitmap_init_alloc\<close> splits a pool of at least two pages into
  allocatable pages and, behind them, the bitmap: no page of the resulting allocator overlaps
  its own bitmap, the bitmap ends inside the pool, and every page is free.
\<close>

theorem bitmap_init_alloc_layout:
  assumes "IS_PAGE_ALIGNED pool" "IS_PAGE_ALIGNED pool_size" "8192 \<le> unat pool_size"
    "unat pool + unat pool_size < 2 ^ 64"
  shows "\<exists>a. bitmap_init_alloc pool pool_size = Some a \<and> bm_wf a \<and> bm_used a = {} \<and>
    bm_pool a = pool \<and> unat (bm_base a) = unat pool + unat (bm_page_count a) * 4096 \<and>
    unat (bm_base a) + length (bm_bitmap a) \<le> unat pool + unat pool_size"
  by (rule bitmap_init_alloc_ok [OF assms])

theorem bitmap_init_alloc_layout_witness:
  "\<exists>a. bitmap_init_alloc 0x1000 0x10000 = Some a \<and> bm_wf a \<and> bm_used a = {}"
  using bitmap_init_alloc_layout [of "0x1000" "0x10000"] by (auto simp: IS_PAGE_ALIGNED_unat)

end
