(* ===== verification/Allocator.thy ===== *)
theory Allocator
  imports KPrelude
begin

text \<open>
  The contract between the kernel's allocators and their clients. A state \<open>s\<close> that
  satisfies \<open>inv\<close> has a set \<open>live s\<close> of blocks, each an address with its number of bytes;
  \<open>extent n\<close> is the number of bytes a request \<open>n\<close> is granted and \<open>ok n\<close> says which
  requests may be made. \<open>ready s\<close> says when the allocator may be called at all (the free
  list, for one, refuses every call while it is empty). An allocation either fails with an error pointer and changes no block, or
  adds one block of at least \<open>extent n\<close> bytes that overlaps no live one; releasing a live block removes exactly that block.
  Neither stops the machine. The region allocator and the kernel heap's free list interpret
  the locale.

  The lemmas of the locale are about whole runs of a client.
\<close>

definition block_range :: "nat \<times> nat \<Rightarrow> nat set" where
  "block_range b = {fst b..<fst b + snd b}"

definition blocks_disjoint :: "(nat \<times> nat) set \<Rightarrow> bool" where
  "blocks_disjoint B \<longleftrightarrow>
     (\<forall>b \<in> B. \<forall>c \<in> B. b \<noteq> c \<longrightarrow> block_range b \<inter> block_range c = {})"

lemma blocks_disjoint_insert:
  "blocks_disjoint B \<Longrightarrow> \<forall>b \<in> B. block_range b \<inter> block_range c = {} \<Longrightarrow> blocks_disjoint (insert c B)"
  unfolding blocks_disjoint_def by blast

text \<open>A client of an allocator: requests, and releases of addresses.\<close>

datatype alloc_op = Alloc usize | Free u64

locale allocator =
  fixes inv :: "'s \<Rightarrow> bool"
    and live :: "'s \<Rightarrow> (nat \<times> nat) set"
    and ready :: "'s \<Rightarrow> bool"
    and ok :: "usize \<Rightarrow> bool"
    and extent :: "usize \<Rightarrow> nat"
    and alloc :: "usize \<Rightarrow> 's \<Rightarrow> ('s \<times> u64) option"
    and free :: "u64 \<Rightarrow> 's \<Rightarrow> 's option"
  assumes alloc_ok: "inv s \<Longrightarrow> ready s \<Longrightarrow> ok n \<Longrightarrow>
      \<exists>s' p. alloc n s = Some (s', p) \<and> inv s' \<and>
        (if IS_ERR p then live s' = live s
         else \<exists>k \<ge> extent n. live s' = insert (unat p, k) (live s) \<and>
           (\<forall>b \<in> live s. block_range b \<inter> block_range (unat p, k) = {}))"
    and free_ok: "inv s \<Longrightarrow> ready s \<Longrightarrow> (unat p, k) \<in> live s \<Longrightarrow>
      \<exists>s'. free p s = Some s' \<and> inv s' \<and> live s' = live s - {(unat p, k)}"
begin

text \<open>
  One operation, and a run. A release of an address that is no live block is a client error; the
  run stops there with \<open>None\<close>.
\<close>

definition allowed :: "alloc_op \<Rightarrow> 's \<Rightarrow> bool" where
  "allowed x s \<longleftrightarrow> ready s \<and> (case x of Alloc n \<Rightarrow> ok n | Free p \<Rightarrow> unat p \<in> fst ` live s)"

definition do_op :: "alloc_op \<Rightarrow> 's \<Rightarrow> 's option" where
  "do_op x s = (case x of Alloc n \<Rightarrow> map_option fst (alloc n s) | Free p \<Rightarrow> free p s)"

primrec legal :: "alloc_op list \<Rightarrow> 's \<Rightarrow> bool" where
  "legal [] s = True"
| "legal (x # xs) s =
     (allowed x s \<and> (case do_op x s of Some s' \<Rightarrow> legal xs s' | None \<Rightarrow> True))"

lemma do_op_ok:
  assumes "inv s" "blocks_disjoint (live s)" "allowed x s"
  shows "\<exists>s'. do_op x s = Some s' \<and> inv s' \<and> blocks_disjoint (live s')"
proof (cases x)
  case (Alloc n)
  then obtain s' p where "alloc n s = Some (s', p)" "inv s'" and
    l: "if IS_ERR p then live s' = live s
        else \<exists>k \<ge> extent n. live s' = insert (unat p, k) (live s) \<and>
          (\<forall>b \<in> live s. block_range b \<inter> block_range (unat p, k) = {})"
    using alloc_ok [OF assms(1), of n] assms(3) by (auto simp: allowed_def)
  moreover have "blocks_disjoint (live s')"
    using l assms(2) blocks_disjoint_insert by (metis (no_types))
  ultimately show ?thesis using Alloc by (simp add: do_op_def)
next
  case (Free p)
  then obtain k where "(unat p, k) \<in> live s" "ready s" using assms(3) by (auto simp: allowed_def)
  from free_ok [OF assms(1) this(2,1)] show ?thesis
    using Free assms(2) by (auto simp: do_op_def blocks_disjoint_def)
qed

text \<open>
  No run of a client that releases only what it holds stops the machine, and at its end, hence at
  each point, the live blocks are pairwise disjoint.
\<close>

lemma run_ok:
  assumes "inv s" "blocks_disjoint (live s)" "legal xs s"
  shows "\<exists>s'. foldM do_op xs s = Some s' \<and> inv s' \<and> blocks_disjoint (live s')"
  using assms
proof (induction xs arbitrary: s)
  case (Cons x xs)
  then obtain s1 where "do_op x s = Some s1" "inv s1" "blocks_disjoint (live s1)"
    using do_op_ok [of s x] by auto
  with Cons show ?case by simp
qed simp

text \<open>A block just allocated can be released, which restores the set of blocks.\<close>

lemma alloc_free:
  assumes "inv s" "ready s" "ok n" "alloc n s = Some (s1, p)" "\<not> IS_ERR p" "0 < extent n" "ready s1"
  shows "\<exists>s2. free p s1 = Some s2 \<and> inv s2 \<and> live s2 = live s"
proof -
  obtain k where l: "inv s1" "live s1 = insert (unat p, k) (live s)" "extent n \<le> k"
    "\<forall>b \<in> live s. block_range b \<inter> block_range (unat p, k) = {}"
    using alloc_ok [OF assms(1-3)] assms(4,5) by auto
  have "(unat p, k) \<notin> live s" using l(3,4) assms(6) by (force simp: block_range_def)
  with free_ok [OF l(1) assms(7), of p k] l(2) show ?thesis by auto
qed

end

end
