(* ===== verification/Region.thy ===== *)
theory Region
  imports Bitmap Allocator
begin

text \<open>
  The region allocator of \<^verbatim>\<open>lib/allocator/region.c\<close>: a bitmap allocator with a
  table that remembers the size of every allocation. The kernel's virtual address regions and the
  user address spaces are regions. \<^verbatim>\<open>region_find\<close> returns a pointer into the
  table or an error pointer: here an index \<open>Inr i\<close> or the error code \<open>Inl e\<close>. The
  pointer \<^verbatim>\<open>allocations\<close> is the address \<open>rg_table\<close> with the entries
  \<open>rg_allocations\<close> stored there; \<^verbatim>\<open>name\<close> is only printed and left out.

  The invariant ties the table to the bitmap; the operations keep it and implement the
  \<open>allocator\<close> contract.
\<close>

section \<open>State and operations\<close>

record RegionAllocation =
  ra_va :: u64
  ra_page_count :: usize

record AllocRegion =
  rg_allocator :: AllocBitMap
  rg_table :: u64
  rg_allocations :: "RegionAllocation list"
  rg_max_allocations_count :: usize

definition ra_null :: RegionAllocation where
  "ra_null = \<lparr>ra_va = 0, ra_page_count = 0\<rparr>"

definition STATIC_ALLOC_VM_REGION :: "u64 \<Rightarrow> usize \<Rightarrow> AllocRegion" where
  "STATIC_ALLOC_VM_REGION addr sz =
     \<lparr>rg_allocator = \<lparr>bm_base = 0, bm_bitmap = replicate (unat (SIZE_TO_BITMAP_BYTES sz)) 0,
        bm_page_count = sz div PAGE_SIZE, bm_pool = addr\<rparr>,
      rg_table = 0, rg_allocations = replicate (unat (sz div PAGE_SIZE)) ra_null,
      rg_max_allocations_count = SIZE_TO_BITMAP_BYTES sz\<rparr>"

definition region_init :: "AllocRegion \<Rightarrow> AllocRegion option" where
  "region_init region = do {
     a \<leftarrow> bm_clear (rg_allocator region)
       (SIZE_TO_BITMAP_BYTES (bm_page_count (rg_allocator region) * PAGE_SIZE));
     tab \<leftarrow> put_bytes 0 (replicate (unat (rg_max_allocations_count region)) ra_null)
       (rg_allocations region);
     Some (region\<lparr>rg_allocator := a, rg_allocations := tab\<rparr>)
   }"

function region_find_from :: "AllocRegion \<Rightarrow> u64 \<Rightarrow> usize \<Rightarrow> (errno_t + nat) option" where
  "region_find_from region addr i =
     (if i < rg_max_allocations_count region then
        (if unat i < length (rg_allocations region) then
           (if addr = ra_va (rg_allocations region ! unat i) then Some (Inr (unat i))
            else region_find_from region addr (i + 1))
         else None)
      else Some (Inl (- ENOENT)))"
  by pat_completeness auto
termination
  by (relation "measure (\<lambda>(region, addr, i). unat (rg_max_allocations_count region) - unat i)")
    (auto simp: word_less_nat_alt unat_Suc_u64)

declare region_find_from.simps [simp del]

definition region_find :: "AllocRegion \<Rightarrow> u64 \<Rightarrow> (errno_t + nat) option" where
  "region_find region addr = region_find_from region addr 0"

definition region_alloc :: "AllocRegion \<Rightarrow> usize \<Rightarrow> (AllocRegion \<times> u64) option" where
  "region_alloc region page_count = do {
     ASSERT (0 < page_count);
     vm_allocation \<leftarrow> region_find region 0;
     case vm_allocation of
       Inl _ \<Rightarrow> Some (region, ERR_TO_PTR (- ENOMEM))
     | Inr i \<Rightarrow> do {
         (a, va) \<leftarrow> bitmap_alloc (rg_allocator region) page_count;
         if IS_ERR va then Some (region\<lparr>rg_allocator := a\<rparr>, va)
         else Some (region\<lparr>rg_allocator := a, rg_allocations := (rg_allocations region)
                      [i := \<lparr>ra_va = va, ra_page_count = page_count\<rparr>]\<rparr>, va)
       }
   }"

definition region_reserve :: "AllocRegion \<Rightarrow> u64 \<Rightarrow> usize \<Rightarrow> (AllocRegion \<times> errno_t) option" where
  "region_reserve region va page_count = do {
     ASSERT (0 < page_count);
     allocation \<leftarrow> region_find region 0;
     case allocation of
       Inl _ \<Rightarrow> Some (region, - ENOMEM)
     | Inr i \<Rightarrow> do {
         (a, err) \<leftarrow> bitmap_reserve (rg_allocator region) va page_count;
         if err \<noteq> EOK then Some (region\<lparr>rg_allocator := a\<rparr>, err)
         else Some (region\<lparr>rg_allocator := a, rg_allocations := (rg_allocations region)
                      [i := \<lparr>ra_va = va, ra_page_count = page_count\<rparr>]\<rparr>, EOK)
       }
   }"

definition region_free :: "AllocRegion \<Rightarrow> u64 \<Rightarrow> (AllocRegion \<times> usize) option" where
  "region_free region addr = do {
     vm_allocation \<leftarrow> region_find region addr;
     case vm_allocation of
       Inl _ \<Rightarrow> None
     | Inr i \<Rightarrow> do {
         let page_count = ra_page_count (rg_allocations region ! i);
         a \<leftarrow> bitmap_free (rg_allocator region) addr page_count;
         Some (region\<lparr>rg_allocator := a,
                 rg_allocations := (rg_allocations region)[i := ra_null]\<rparr>, page_count)
       }
   }"

text \<open>The loop that moves the copied addresses from the pool of \<open>src\<close> to that of \<open>dst\<close>.\<close>

definition ra_translate :: "u64 \<Rightarrow> RegionAllocation \<Rightarrow> RegionAllocation" where
  "ra_translate delta ra = (if ra_va ra \<noteq> 0 then ra\<lparr>ra_va := ra_va ra + delta\<rparr> else ra)"

text \<open>\<open>same\<close> is the pointer comparison \<^verbatim>\<open>dst == src\<close>.\<close>

definition region_copy :: "bool \<Rightarrow> AllocRegion \<Rightarrow> AllocRegion \<Rightarrow> (AllocRegion \<times> errno_t) option" where
  "region_copy same dst src =
     (if same then Some (dst, EOK)
      else if rg_max_allocations_count dst < rg_max_allocations_count src then Some (dst, - ENOMEM)
      else if bm_page_count (rg_allocator dst) < bm_page_count (rg_allocator src) then Some (dst, - ENOMEM)
      else do {
        (a, err) \<leftarrow> bitmap_copy (rg_allocator dst) (rg_allocator src);
        if err \<noteq> EOK then Some (dst\<lparr>rg_allocator := a\<rparr>, err)
        else do {
          copied \<leftarrow> get_bytes 0 (unat (rg_max_allocations_count src)) (rg_allocations src);
          tab \<leftarrow> put_bytes 0 copied (rg_allocations dst);
          let delta = bm_pool (rg_allocator dst) - bm_pool (rg_allocator src);
          if delta = 0 then Some (dst\<lparr>rg_allocator := a, rg_allocations := tab\<rparr>, EOK)
          else do {
            tab' \<leftarrow> put_bytes 0 (map (ra_translate delta) copied) tab;
            Some (dst\<lparr>rg_allocator := a, rg_allocations := tab'\<rparr>, EOK)
          }
        }
      })"

text \<open>
  \<^verbatim>\<open>region_create\<close> takes its three blocks from the kernel heap, whose state and
  operations are the arguments \<open>kalloc\<close> and \<open>kfree\<close>; \<open>mem\<close> is what the
  bitmap block holds when \<^verbatim>\<open>kalloc\<close> returns it, which the code does not clear. The
  result is the address of the structure, or an error pointer, with the region stored there.
\<close>

definition region_create ::
  "('h \<Rightarrow> usize \<Rightarrow> ('h \<times> u64) option) \<Rightarrow> ('h \<Rightarrow> u64 \<Rightarrow> 'h option) \<Rightarrow> ('h \<Rightarrow> u64 \<Rightarrow> nat \<Rightarrow> u8 list) \<Rightarrow>
   'h \<Rightarrow> u64 \<Rightarrow> usize \<Rightarrow> usize \<Rightarrow> ('h \<times> u64 \<times> AllocRegion option) option" where
  "region_create kalloc kfree mem h base sz max_allocations = do {
     (h, region) \<leftarrow> kalloc h 48;
     if IS_ERR region then Some (h, ERR_TO_PTR (- ENOMEM), None)
     else do {
       (h, bitmap) \<leftarrow> kalloc h (SIZE_TO_BITMAP_BYTES sz);
       if IS_ERR bitmap then do {
         h \<leftarrow> kfree h region;
         Some (h, ERR_TO_PTR (- ENOMEM), None)
       } else do {
         (h, allocs) \<leftarrow> kalloc h (16 * max_allocations);
         if IS_ERR allocs then do {
           h \<leftarrow> kfree h bitmap;
           h \<leftarrow> kfree h region;
           Some (h, ERR_TO_PTR (- ENOMEM), None)
         } else
           Some (h, region, Some
             \<lparr>rg_allocator = \<lparr>bm_base = bitmap,
                bm_bitmap = mem h bitmap (unat (SIZE_TO_BITMAP_BYTES sz)),
                bm_page_count = sz div PAGE_SIZE, bm_pool = base\<rparr>,
              rg_table = allocs, rg_allocations = replicate (unat max_allocations) ra_null,
              rg_max_allocations_count = max_allocations\<rparr>)
       }
     }
   }"

definition region_destroy ::
  "('h \<Rightarrow> u64 \<Rightarrow> 'h option) \<Rightarrow> 'h \<Rightarrow> u64 \<Rightarrow> AllocRegion \<Rightarrow> 'h option" where
  "region_destroy kfree h region r = do {
     h \<leftarrow> kfree h (bm_base (rg_allocator r));
     h \<leftarrow> kfree h (rg_table r);
     kfree h region
   }"

section \<open>The invariant\<close>

definition rg_used_slots :: "AllocRegion \<Rightarrow> nat set" where
  "rg_used_slots r = {i. i < unat (rg_max_allocations_count r) \<and> ra_va (rg_allocations r ! i) \<noteq> 0}"

definition ra_pages :: "AllocRegion \<Rightarrow> RegionAllocation \<Rightarrow> nat set" where
  "ra_pages r ra = (let p = (unat (ra_va ra) - unat (bm_pool (rg_allocator r))) div 4096
                    in {p..<p + unat (ra_page_count ra)})"

definition ra_ok :: "AllocRegion \<Rightarrow> RegionAllocation \<Rightarrow> bool" where
  "ra_ok r ra \<longleftrightarrow> 0 < ra_page_count ra \<and> bm_pool (rg_allocator r) \<le> ra_va ra \<and>
     4096 dvd unat (ra_va ra) - unat (bm_pool (rg_allocator r)) \<and>
     (unat (ra_va ra) - unat (bm_pool (rg_allocator r))) div 4096 + unat (ra_page_count ra)
       \<le> unat (bm_page_count (rg_allocator r))"

text \<open>
  The used slots of the table describe disjoint runs of pages inside the pool, and together
  exactly the pages that the bitmap marks. The pool must not start at address 0, since a null
  address marks an unused slot.
\<close>

definition rg_inv :: "AllocRegion \<Rightarrow> bool" where
  "rg_inv r \<longleftrightarrow> bm_wf (rg_allocator r) \<and> 0 < bm_pool (rg_allocator r) \<and>
     unat (rg_max_allocations_count r) \<le> length (rg_allocations r) \<and>
     (\<forall>i \<in> rg_used_slots r. ra_ok r (rg_allocations r ! i)) \<and>
     (\<forall>i \<in> rg_used_slots r. \<forall>j \<in> rg_used_slots r. i \<noteq> j \<longrightarrow>
        ra_pages r (rg_allocations r ! i) \<inter> ra_pages r (rg_allocations r ! j) = {}) \<and>
     (\<Union>i \<in> rg_used_slots r. ra_pages r (rg_allocations r ! i)) = bm_used (rg_allocator r)"

definition rg_block :: "RegionAllocation \<Rightarrow> nat \<times> nat" where
  "rg_block ra = (unat (ra_va ra), unat (ra_page_count ra) * 4096)"

definition rg_live :: "AllocRegion \<Rightarrow> (nat \<times> nat) set" where
  "rg_live r = (\<lambda>i. rg_block (rg_allocations r ! i)) ` rg_used_slots r"

lemma region_find_from_ok:
  assumes "unat (rg_max_allocations_count r) \<le> length (rg_allocations r)"
    "unat i \<le> unat (rg_max_allocations_count r)"
  shows "(\<exists>k. region_find_from r addr i = Some (Inr k) \<and> unat i \<le> k \<and>
            k < unat (rg_max_allocations_count r) \<and> ra_va (rg_allocations r ! k) = addr) \<or>
         (region_find_from r addr i = Some (Inl (- ENOENT)) \<and>
            (\<forall>k. unat i \<le> k \<and> k < unat (rg_max_allocations_count r) \<longrightarrow> ra_va (rg_allocations r ! k) \<noteq> addr))"
  using assms(2)
proof (induction "unat (rg_max_allocations_count r) - unat i" arbitrary: i)
  case 0
  then show ?case by (subst (1 2) region_find_from.simps) (auto simp: word_less_nat_alt)
next
  case (Suc n)
  then have lt: "i < rg_max_allocations_count r" by (simp add: word_less_nat_alt)
  then have ui: "unat (i + 1) = unat i + 1" by (rule unat_Suc_u64)
  have len: "unat i < length (rg_allocations r)" using lt assms(1) by (simp add: word_less_nat_alt)
  show ?case
  proof (cases "ra_va (rg_allocations r ! unat i) = addr")
    case True
    then show ?thesis using lt len by (subst region_find_from.simps) (auto simp: word_less_nat_alt)
  next
    case False
    then have "region_find_from r addr i = region_find_from r addr (i + 1)"
      using lt len by (subst region_find_from.simps) auto
    moreover have "(\<exists>k. region_find_from r addr (i + 1) = Some (Inr k) \<and> unat i + 1 \<le> k \<and>
            k < unat (rg_max_allocations_count r) \<and> ra_va (rg_allocations r ! k) = addr) \<or>
         (region_find_from r addr (i + 1) = Some (Inl (- ENOENT)) \<and>
            (\<forall>k. unat i + 1 \<le> k \<and> k < unat (rg_max_allocations_count r) \<longrightarrow> ra_va (rg_allocations r ! k) \<noteq> addr))"
      unfolding ui [symmetric] by (rule Suc.hyps(1)) (use Suc.hyps(2) ui in auto)
    moreover have "unat i \<le> k \<longleftrightarrow> k = unat i \<or> unat i + 1 \<le> k" for k by auto
    ultimately show ?thesis using False by auto
  qed
qed

lemma region_find_ok:
  assumes "rg_inv r"
  shows "(\<exists>k. region_find r addr = Some (Inr k) \<and> k < unat (rg_max_allocations_count r) \<and>
            ra_va (rg_allocations r ! k) = addr) \<or>
         (region_find r addr = Some (Inl (- ENOENT)) \<and>
            (\<forall>k < unat (rg_max_allocations_count r). ra_va (rg_allocations r ! k) \<noteq> addr))"
  using region_find_from_ok [of r 0 addr] assms by (auto simp: region_find_def rg_inv_def)

text \<open>Filling a free slot with a run of free pages keeps the invariant, and adds one block.\<close>

lemma rg_inv_insert:
  fixes r i ra a
  defines "r' \<equiv> r\<lparr>rg_allocator := a, rg_allocations := (rg_allocations r)[i := ra]\<rparr>"
  assumes inv: "rg_inv r" and i: "i < unat (rg_max_allocations_count r)"
    and free: "ra_va (rg_allocations r ! i) = 0" and ra: "ra_ok r ra"
    and a: "bm_same a (rg_allocator r)" "bm_used a = bm_used (rg_allocator r) \<union> ra_pages r ra"
      "ra_pages r ra \<inter> bm_used (rg_allocator r) = {}"
  shows "rg_inv r' \<and> rg_live r' = insert (rg_block ra) (rg_live r)"
proof -
  have pool: "bm_pool a = bm_pool (rg_allocator r)" "bm_page_count a = bm_page_count (rg_allocator r)"
    using a(1) by (auto simp: bm_same_def)
  have p: "ra_pages r' = ra_pages r" "ra_ok r' = ra_ok r"
    by (simp_all add: r'_def ra_pages_def pool ra_ok_def fun_eq_iff)
  have len: "i < length (rg_allocations r)" using inv i by (simp add: rg_inv_def)
  have nz: "ra_va ra \<noteq> 0" using ra inv by (auto simp: ra_ok_def rg_inv_def)
  have slots: "rg_used_slots r' = insert i (rg_used_slots r)" "i \<notin> rg_used_slots r"
    using i free nz len by (auto simp: rg_used_slots_def r'_def nth_list_update)
  have nth: "rg_allocations r' ! i = ra" "j \<noteq> i \<Longrightarrow> rg_allocations r' ! j = rg_allocations r ! j" for j
    using len by (auto simp: r'_def)
  have old: "rg_allocations r' ! j = rg_allocations r ! j" if "j \<in> rg_used_slots r" for j
    using that slots(2) nth by metis
  have disj: "ra_pages r (rg_allocations r ! j) \<inter> ra_pages r ra = {}" if "j \<in> rg_used_slots r" for j
    using that a(3) inv by (auto simp: rg_inv_def)
  have "rg_inv r'"
    unfolding rg_inv_def p slots(1)
  proof (intro conjI)
    show "bm_wf (rg_allocator r')" using inv bm_same_wf [OF a(1)] by (simp add: r'_def rg_inv_def)
    show "(\<Union>i\<in>insert i (rg_used_slots r). ra_pages r (rg_allocations r' ! i)) = bm_used (rg_allocator r')"
      using inv a(2) nth(1) old by (auto simp: r'_def rg_inv_def)
    show "\<forall>ia\<in>insert i (rg_used_slots r). ra_ok r (rg_allocations r' ! ia)"
      using inv ra nth(1) old by (auto simp: rg_inv_def)
    show "\<forall>ia\<in>insert i (rg_used_slots r). \<forall>j\<in>insert i (rg_used_slots r). ia \<noteq> j \<longrightarrow>
        ra_pages r (rg_allocations r' ! ia) \<inter> ra_pages r (rg_allocations r' ! j) = {}"
    proof (intro ballI impI)
      fix k j assume *: "k \<in> insert i (rg_used_slots r)" "j \<in> insert i (rg_used_slots r)" "k \<noteq> j"
      have "ra_pages r (rg_allocations r ! k) \<inter> ra_pages r (rg_allocations r ! j) = {}"
        if "k \<in> rg_used_slots r" "j \<in> rg_used_slots r"
        using inv that *(3) unfolding rg_inv_def by blast
      then show "ra_pages r (rg_allocations r' ! k) \<inter> ra_pages r (rg_allocations r' ! j) = {}"
        using * disj [of k] disj [of j] nth(1) old [of k] old [of j]
        by (elim insertE) (simp_all add: Int_commute)
    qed
  qed (use inv pool in \<open>auto simp: r'_def rg_inv_def\<close>)
  moreover have "rg_live r' = insert (rg_block ra) (rg_live r)"
    using nth(1) old by (auto simp: rg_live_def slots(1))
  ultimately show ?thesis by blast
qed

text \<open>Clearing a used slot and its pages keeps the invariant, and removes one block.\<close>

lemma rg_inv_remove:
  fixes r i a
  defines "r' \<equiv> r\<lparr>rg_allocator := a, rg_allocations := (rg_allocations r)[i := ra_null]\<rparr>"
    and "ra \<equiv> rg_allocations r ! i"
  assumes inv: "rg_inv r" and i: "i \<in> rg_used_slots r"
    and a: "bm_same a (rg_allocator r)" "bm_used a = bm_used (rg_allocator r) - ra_pages r ra"
  shows "rg_inv r' \<and> rg_live r' = rg_live r - {rg_block ra}"
proof -
  have pool: "bm_pool a = bm_pool (rg_allocator r)" "bm_page_count a = bm_page_count (rg_allocator r)"
    using a(1) by (auto simp: bm_same_def)
  have p: "ra_pages r' = ra_pages r" "ra_ok r' = ra_ok r"
    by (simp_all add: r'_def ra_pages_def pool ra_ok_def fun_eq_iff)
  have len: "i < length (rg_allocations r)" using inv i by (auto simp: rg_inv_def rg_used_slots_def)
  have slots: "rg_used_slots r' = rg_used_slots r - {i}"
    using len by (auto simp: rg_used_slots_def r'_def nth_list_update ra_null_def)
  have old: "rg_allocations r' ! j = rg_allocations r ! j" if "j \<noteq> i" for j
    using that by (simp add: r'_def)
  have disj: "ra_pages r (rg_allocations r ! j) \<inter> ra_pages r ra = {}"
    if "j \<in> rg_used_slots r - {i}" for j using that inv i unfolding rg_inv_def ra_def by blast
  have ne: "ra_pages r (rg_allocations r ! j) \<noteq> {}" if "j \<in> rg_used_slots r" for j
    using that inv by (auto simp: rg_inv_def ra_ok_def ra_pages_def Let_def word_less_nat_alt)
  have "rg_inv r'"
    unfolding rg_inv_def p slots
  proof (intro conjI)
    show "bm_wf (rg_allocator r')" using inv bm_same_wf [OF a(1)] by (simp add: r'_def rg_inv_def)
    have "(\<Union>j\<in>rg_used_slots r - {i}. ra_pages r (rg_allocations r' ! j)) =
        (\<Union>j\<in>rg_used_slots r. ra_pages r (rg_allocations r ! j)) - ra_pages r ra"
      using disj i old by (auto simp: ra_def)
    then show "(\<Union>j\<in>rg_used_slots r - {i}. ra_pages r (rg_allocations r' ! j)) = bm_used (rg_allocator r')"
      using inv a(2) by (simp add: r'_def rg_inv_def)
    show "\<forall>j\<in>rg_used_slots r - {i}. ra_ok r (rg_allocations r' ! j)"
      using inv old by (auto simp: rg_inv_def)
    show "\<forall>k\<in>rg_used_slots r - {i}. \<forall>j\<in>rg_used_slots r - {i}. k \<noteq> j \<longrightarrow>
        ra_pages r (rg_allocations r' ! k) \<inter> ra_pages r (rg_allocations r' ! j) = {}"
      using inv old by (auto simp: rg_inv_def)
  qed (use inv pool in \<open>auto simp: r'_def rg_inv_def\<close>)
  moreover have "rg_block ra \<notin> (\<lambda>j. rg_block (rg_allocations r ! j)) ` (rg_used_slots r - {i})"
  proof
    assume "rg_block ra \<in> (\<lambda>j. rg_block (rg_allocations r ! j)) ` (rg_used_slots r - {i})"
    then obtain j where that: "j \<in> rg_used_slots r - {i}" "rg_block (rg_allocations r ! j) = rg_block ra"
      by (metis (no_types, lifting) imageE)
    then have "ra_pages r (rg_allocations r ! j) = ra_pages r ra"
      by (auto simp: rg_block_def ra_pages_def)
    then show False using disj [OF that(1)] ne that(1) by blast
  qed
  moreover have "rg_live r' = (\<lambda>j. rg_block (rg_allocations r ! j)) ` (rg_used_slots r - {i})"
    unfolding rg_live_def slots by (rule image_cong) (auto simp: old)
  moreover have "rg_live r = insert (rg_block ra) ((\<lambda>j. rg_block (rg_allocations r ! j)) ` (rg_used_slots r - {i}))"
    using i unfolding rg_live_def ra_def by blast
  ultimately have "rg_inv r'" "rg_live r' = rg_live r - {rg_block ra}" by auto
  then show ?thesis by blast
qed

section \<open>The operations keep the invariant\<close>

lemma ra_ok_new:
  assumes "rg_inv r" "0 < n" "p + unat n \<le> unat (bm_page_count (rg_allocator r))"
    "unat va = unat (bm_pool (rg_allocator r)) + p * 4096"
  shows "ra_ok r \<lparr>ra_va = va, ra_page_count = n\<rparr>"
    "ra_pages r \<lparr>ra_va = va, ra_page_count = n\<rparr> = {p..<p + unat n}"
  using assms by (simp_all add: ra_ok_def ra_pages_def Let_def word_le_nat_alt)

lemma region_alloc_ok:
  assumes "rg_inv r" "0 < n"
  shows "\<exists>r' va. region_alloc r n = Some (r', va) \<and> rg_inv r' \<and>
    (if IS_ERR va then va = ERR_TO_PTR (- ENOMEM) \<and> r' = r
     else rg_live r' = insert (unat va, unat n * 4096) (rg_live r) \<and>
       (\<exists>p. unat va = unat (bm_pool (rg_allocator r)) + p * 4096 \<and>
          {p..<p + unat n} \<inter> bm_used (rg_allocator r) = {} \<and>
          p + unat n \<le> unat (bm_page_count (rg_allocator r))))"
proof (cases "region_find r 0 = Some (Inl (- ENOENT))")
  case True
  then show ?thesis using assms by (simp add: region_alloc_def)
next
  case False
  then obtain i where i: "region_find r 0 = Some (Inr i)" "i < unat (rg_max_allocations_count r)"
    "ra_va (rg_allocations r ! i) = 0" using region_find_ok [OF assms(1), of 0] by auto
  have wf: "bm_wf (rg_allocator r)" using assms(1) by (simp add: rg_inv_def)
  show ?thesis
  proof (cases "bm_first_fit (rg_allocator r) (unat n)")
    case None
    then have "bitmap_alloc (rg_allocator r) n = Some (rg_allocator r, ERR_TO_PTR (- ENOMEM))"
      using bitmap_alloc_ok [OF wf assms(2)] by simp
    then show ?thesis using i(1) assms by (simp add: region_alloc_def)
  next
    case (Some p)
    then have free: "p + unat n \<le> unat (bm_page_count (rg_allocator r))"
      "{p..<p + unat n} \<inter> bm_used (rg_allocator r) = {}"
      by (auto simp: bm_first_fit_Some bm_run_free_def)
    obtain a va where a: "bitmap_alloc (rg_allocator r) n = Some (a, va)" "\<not> IS_ERR va"
      "unat va = unat (bm_pool (rg_allocator r)) + p * 4096" "bm_same a (rg_allocator r)"
      "bm_used a = bm_used (rg_allocator r) \<union> {p..<p + unat n}"
      using bitmap_alloc_ok [OF wf assms(2)] Some by auto
    note ra = ra_ok_new [OF assms free(1) a(3)]
    show ?thesis
      using rg_inv_insert [OF assms(1) i(2,3) ra(1) a(4)] a i(1) ra(2) free assms(2)
      by (auto simp: region_alloc_def rg_block_def)
  qed
qed

lemma rg_slot_of_va:
  assumes "rg_inv r" "i \<in> rg_used_slots r" "j < unat (rg_max_allocations_count r)"
    "ra_va (rg_allocations r ! j) = ra_va (rg_allocations r ! i)"
  shows "j = i"
proof (rule ccontr)
  assume "j \<noteq> i"
  moreover have j: "j \<in> rg_used_slots r" using assms(2-4) by (simp add: rg_used_slots_def)
  ultimately have "ra_pages r (rg_allocations r ! j) \<inter> ra_pages r (rg_allocations r ! i) = {}"
    using assms(1,2) unfolding rg_inv_def by blast
  moreover have "0 < unat (ra_page_count (rg_allocations r ! k))" if "k \<in> rg_used_slots r" for k
    using that assms(1) by (auto simp: rg_inv_def ra_ok_def word_less_nat_alt)
  ultimately show False using assms(2,4) j by (fastforce simp: ra_pages_def Let_def disjoint_iff)
qed

lemma region_free_ok:
  assumes "rg_inv r" "i \<in> rg_used_slots r"
  shows "\<exists>r'. region_free r (ra_va (rg_allocations r ! i)) = Some (r', ra_page_count (rg_allocations r ! i)) \<and>
    rg_inv r' \<and> rg_live r' = rg_live r - {rg_block (rg_allocations r ! i)}"
proof -
  let ?ra = "rg_allocations r ! i" and ?a = "rg_allocator r"
  have i: "i < unat (rg_max_allocations_count r)" using assms(2) by (simp add: rg_used_slots_def)
  have f: "region_find r (ra_va ?ra) = Some (Inr i)"
    using region_find_ok [OF assms(1), of "ra_va ?ra"] rg_slot_of_va [OF assms] i by auto
  have wf: "bm_wf ?a" using assms(1) by (simp add: rg_inv_def)
  have ok: "ra_ok r ?ra" and used: "ra_pages r ?ra \<subseteq> bm_used ?a"
    using assms unfolding rg_inv_def by auto
  define p where "p = (unat (ra_va ?ra) - unat (bm_pool ?a)) div 4096"
  have "unat (bm_pool ?a) \<le> unat (ra_va ?ra)" using ok by (simp add: ra_ok_def word_le_nat_alt)
  then have va: "unat (ra_va ?ra) = unat (bm_pool ?a) + p * 4096"
    using ok by (simp add: ra_ok_def p_def)
  have pages: "ra_pages r ?ra = {p..<p + unat (ra_page_count ?ra)}"
    by (simp add: ra_pages_def p_def Let_def)
  have "p + unat (ra_page_count ?ra) \<le> unat (bm_page_count ?a)" "0 < ra_page_count ?ra"
    using ok by (simp_all add: ra_ok_def p_def)
  then obtain a where "bm_free ?a (ra_va ?ra) (ra_page_count ?ra) = Some a" "bm_same a ?a"
    "bm_used a = bm_used ?a - ra_pages r ?ra"
    using bm_free_ok [OF wf _ _ va, of "ra_page_count ?ra"] used unfolding pages by auto
  then show ?thesis
    using f rg_inv_remove [OF assms, of a] by (simp add: region_free_def bitmap_free_def)
qed

lemma region_free_live:
  assumes "rg_inv r" "(unat va, k) \<in> rg_live r"
  shows "\<exists>r' c. region_free r va = Some (r', c) \<and> rg_inv r' \<and> unat c * 4096 = k \<and>
    rg_live r' = rg_live r - {(unat va, k)}"
proof -
  obtain i where i: "i \<in> rg_used_slots r" "rg_block (rg_allocations r ! i) = (unat va, k)"
    using assms(2) by (auto simp: rg_live_def)
  then have "va = ra_va (rg_allocations r ! i)" by (simp add: rg_block_def word_unat_eq_iff)
  with region_free_ok [OF assms(1) i(1)] i(2) show ?thesis by (auto simp: rg_block_def)
qed

lemma region_free_unknown:
  assumes "rg_inv r" "\<forall>k < unat (rg_max_allocations_count r). ra_va (rg_allocations r ! k) \<noteq> addr"
  shows "region_free r addr = None"
  using region_find_ok [OF assms(1), of addr] assms(2) by (auto simp: region_free_def)

lemma region_reserve_ok:
  assumes "rg_inv r" "0 < n" "p + unat n \<le> unat (bm_page_count (rg_allocator r))"
    "unat va = unat (bm_pool (rg_allocator r)) + p * 4096"
  shows "\<exists>r' e. region_reserve r va n = Some (r', e) \<and> rg_inv r' \<and>
    (if e = EOK
     then {p..<p + unat n} \<inter> bm_used (rg_allocator r) = {} \<and>
          rg_live r' = insert (unat va, unat n * 4096) (rg_live r)
     else e = - ENOMEM \<and> r' = r)"
proof (cases "region_find r 0 = Some (Inl (- ENOENT))")
  case True
  then show ?thesis using assms by (simp add: region_reserve_def)
next
  case False
  then obtain i where i: "region_find r 0 = Some (Inr i)" "i < unat (rg_max_allocations_count r)"
    "ra_va (rg_allocations r ! i) = 0" using region_find_ok [OF assms(1), of 0] by auto
  have wf: "bm_wf (rg_allocator r)" using assms(1) by (simp add: rg_inv_def)
  note ra = ra_ok_new [OF assms]
  show ?thesis
  proof (cases "{p..<p + unat n} \<inter> bm_used (rg_allocator r) = {}")
    case True
    then obtain a where a: "bitmap_reserve (rg_allocator r) va n = Some (a, EOK)"
      "bm_same a (rg_allocator r)" "bm_used a = bm_used (rg_allocator r) \<union> {p..<p + unat n}"
      using bitmap_reserve_ok [OF wf assms(3,2,4)] by auto
    then show ?thesis
      using rg_inv_insert [OF assms(1) i(2,3) ra(1) a(2)] i(1) ra(2) assms(2) True
      by (auto simp: region_reserve_def rg_block_def)
  next
    case overlap: False
    then have "bitmap_reserve (rg_allocator r) va n = Some (rg_allocator r, - ENOMEM)"
      using bitmap_reserve_ok [OF wf assms(3,2,4)] by (simp split: if_splits)
    then show ?thesis using i(1) assms(1,2) by (simp add: region_reserve_def)
  qed
qed

text \<open>The live blocks of a region are the byte ranges of its allocated pages.\<close>

lemma rg_block_range:
  assumes "rg_inv r" "b \<in> rg_live r" "x \<in> block_range b"
  shows "(x - unat (bm_pool (rg_allocator r))) div 4096 \<in> bm_used (rg_allocator r) \<and>
    unat (bm_pool (rg_allocator r)) \<le> x"
proof -
  let ?P = "unat (bm_pool (rg_allocator r))"
  obtain i where i: "i \<in> rg_used_slots r" "b = rg_block (rg_allocations r ! i)"
    using assms(2) by (auto simp: rg_live_def)
  let ?ra = "rg_allocations r ! i"
  have ok: "ra_ok r ?ra" and used: "ra_pages r ?ra \<subseteq> bm_used (rg_allocator r)"
    using assms(1) i(1) unfolding rg_inv_def by auto
  obtain p where p: "unat (ra_va ?ra) = ?P + p * 4096"
    using ok by (auto simp: ra_ok_def word_le_nat_alt dvd_def) (metis le_add_diff_inverse mult.commute)
  have "?P + p * 4096 \<le> x" "x < ?P + p * 4096 + unat (ra_page_count ?ra) * 4096"
    using assms(3) p by (auto simp: i(2) rg_block_def block_range_def)
  then have "(x - ?P) div 4096 \<in> {p..<p + unat (ra_page_count ?ra)}" "?P \<le> x"
    by (auto simp: less_eq_div_iff_mult_less_eq div_less_iff_less_mult)
  moreover have "ra_pages r ?ra = {p..<p + unat (ra_page_count ?ra)}"
    using p by (simp add: ra_pages_def Let_def)
  ultimately show ?thesis using used by auto
qed

interpretation rga: allocator rg_inv rg_live "\<lambda>_. True" "\<lambda>n. 0 < n" "\<lambda>n. unat n * 4096"
  "\<lambda>n r. region_alloc r n" "\<lambda>p r. map_option fst (region_free r p)"
proof unfold_locales
  fix r and n :: usize
  assume r: "rg_inv r" "0 < n"
  then obtain r' va where a: "region_alloc r n = Some (r', va)" "rg_inv r'"
    "if IS_ERR va then va = ERR_TO_PTR (- ENOMEM) \<and> r' = r
     else rg_live r' = insert (unat va, unat n * 4096) (rg_live r) \<and>
       (\<exists>p. unat va = unat (bm_pool (rg_allocator r)) + p * 4096 \<and>
          {p..<p + unat n} \<inter> bm_used (rg_allocator r) = {} \<and>
          p + unat n \<le> unat (bm_page_count (rg_allocator r)))"
    using region_alloc_ok by blast
  have "block_range b \<inter> block_range (unat va, unat n * 4096) = {}" if b: "b \<in> rg_live r" and e: "\<not> IS_ERR va" for b
  proof (rule ccontr)
    assume "block_range b \<inter> block_range (unat va, unat n * 4096) \<noteq> {}"
    then obtain x where x: "x \<in> block_range b" "x \<in> block_range (unat va, unat n * 4096)" by auto
    obtain p where p: "unat va = unat (bm_pool (rg_allocator r)) + p * 4096"
      "{p..<p + unat n} \<inter> bm_used (rg_allocator r) = {}" using a(3) e by auto
    have "(x - unat (bm_pool (rg_allocator r))) div 4096 \<in> {p..<p + unat n}"
      using x(2) p(1) by (auto simp: block_range_def less_eq_div_iff_mult_less_eq div_less_iff_less_mult)
    with rg_block_range [OF r(1) b x(1)] p(2) show False by auto
  qed
  with a show "\<exists>s' p. region_alloc r n = Some (s', p) \<and> rg_inv s' \<and>
        (if IS_ERR p then rg_live s' = rg_live r
         else \<exists>k \<ge> unat n * 4096. rg_live s' = insert (unat p, k) (rg_live r) \<and>
           (\<forall>b \<in> rg_live r. block_range b \<inter> block_range (unat p, k) = {}))"
    by (auto intro!: exI [of _ "unat n * 4096"])
next
  fix r k and p :: u64
  assume r: "rg_inv r" "(unat p, k) \<in> rg_live r"
  from region_free_live [OF this]
  show "\<exists>s'. map_option fst (region_free r p) = Some s' \<and> rg_inv s' \<and> rg_live s' = rg_live r - {(unat p, k)}"
    by auto
qed

section \<open>Copying a region\<close>

lemma ra_translate_va:
  assumes "rg_inv src" "rg_inv dst" "ra_ok src ra" "ra_va ra \<noteq> 0"
    "unat (bm_page_count (rg_allocator src)) \<le> unat (bm_page_count (rg_allocator dst))"
  defines "d \<equiv> bm_pool (rg_allocator dst) - bm_pool (rg_allocator src)"
  shows "ra_va (ra_translate d ra) \<noteq> 0 \<and> ra_page_count (ra_translate d ra) = ra_page_count ra \<and>
    ra_ok dst (ra_translate d ra) \<and> ra_pages dst (ra_translate d ra) = ra_pages src ra \<and>
    unat (ra_va (ra_translate d ra)) =
      unat (ra_va ra) - unat (bm_pool (rg_allocator src)) + unat (bm_pool (rg_allocator dst))"
proof -
  let ?P = "unat (bm_pool (rg_allocator src))" and ?Q = "unat (bm_pool (rg_allocator dst))"
  have le: "?P \<le> unat (ra_va ra)" using assms(3) by (simp add: ra_ok_def word_le_nat_alt)
  then obtain p where p: "unat (ra_va ra) = ?P + p * 4096"
    using assms(3) by (auto simp: ra_ok_def dvd_def) (metis le_add_diff_inverse mult.commute)
  have n: "0 < ra_page_count ra" "p + unat (ra_page_count ra) \<le> unat (bm_page_count (rg_allocator src))"
    using assms(3) p by (auto simp: ra_ok_def)
  have "ra_va ra + d = bm_pool (rg_allocator dst) + (ra_va ra - bm_pool (rg_allocator src))"
    by (simp add: d_def)
  moreover have "unat (ra_va ra - bm_pool (rg_allocator src)) = p * 4096"
    using le p by (subst unat_sub_u64) (auto simp: word_le_nat_alt)
  moreover have "?Q + p * 4096 < 2 ^ 64" using assms(2,5) n(2) by (simp add: rg_inv_def bm_wf_def)
  ultimately have q: "unat (ra_va ra + d) = ?Q + p * 4096" by (metis unat_add_u64)
  moreover have "0 < ?Q" using assms(2) by (simp add: rg_inv_def word_less_nat_alt)
  ultimately have "ra_va ra + d \<noteq> 0" using unat_0 by (metis add_is_0 less_numeral_extra(3))
  then show ?thesis
    using assms(4,5) n p q by (simp add: ra_translate_def ra_ok_def ra_pages_def Let_def word_le_nat_alt)
qed

lemma ra_translate_0 [simp]: "ra_translate 0 ra = ra"
  by (simp add: ra_translate_def)

lemma map_ra_translate_0 [simp]: "map (ra_translate 0) xs = xs"
  by (simp add: map_idI)

text \<open>
  A destination that is large enough and whose remaining slots are unused becomes a copy of the
  source, shifted to its own pool.
\<close>

lemma region_copy_table:
  assumes "rg_max_allocations_count src \<le> rg_max_allocations_count dst"
    "bm_page_count (rg_allocator src) \<le> bm_page_count (rg_allocator dst)"
    "unat (rg_max_allocations_count src) \<le> length (rg_allocations src)"
    "unat (rg_max_allocations_count dst) \<le> length (rg_allocations dst)"
    "bitmap_copy (rg_allocator dst) (rg_allocator src) = Some (a, EOK)"
  shows "region_copy False dst src = Some (dst\<lparr>rg_allocator := a, rg_allocations :=
      map (ra_translate (bm_pool (rg_allocator dst) - bm_pool (rg_allocator src)))
        (take (unat (rg_max_allocations_count src)) (rg_allocations src)) @
      drop (unat (rg_max_allocations_count src)) (rg_allocations dst)\<rparr>, EOK)"
  using assms
  by (auto simp: region_copy_def get_bytes_def put_bytes_def Let_def word_le_nat_alt word_less_nat_alt
      min_def)

lemma region_copy_ok:
  assumes src: "rg_inv src" and dst: "rg_inv dst"
    and max: "rg_max_allocations_count src \<le> rg_max_allocations_count dst"
    and pages: "bm_page_count (rg_allocator src) \<le> bm_page_count (rg_allocator dst)"
    and bytes: "(unat (bm_page_count (rg_allocator dst)) + 7) div 8 = length (bm_bitmap (rg_allocator dst))"
      "unat (bm_page_count (rg_allocator dst)) < 2 ^ 52"
    and free: "\<forall>i \<in> rg_used_slots dst. i < unat (rg_max_allocations_count src)"
  shows "\<exists>dst'. region_copy False dst src = Some (dst', EOK) \<and> rg_inv dst' \<and>
    bm_used (rg_allocator dst') = bm_used (rg_allocator src) \<and>
    rg_live dst' = (\<lambda>(a, n). (a - unat (bm_pool (rg_allocator src)) + unat (bm_pool (rg_allocator dst)), n)) ` rg_live src"
proof -
  let ?d = "bm_pool (rg_allocator dst) - bm_pool (rg_allocator src)"
  let ?m = "unat (rg_max_allocations_count src)"
  obtain a where a: "bitmap_copy (rg_allocator dst) (rg_allocator src) = Some (a, EOK)"
    "bm_same a (rg_allocator dst)" "bm_used a = bm_used (rg_allocator src)"
    using bitmap_copy_ok [of "rg_allocator dst" "rg_allocator src"] src dst pages bytes
    by (auto simp: rg_inv_def)
  define dst' where "dst' = dst\<lparr>rg_allocator := a, rg_allocations :=
      map (ra_translate ?d) (take ?m (rg_allocations src)) @ drop ?m (rg_allocations dst)\<rparr>"
  have len: "?m \<le> length (rg_allocations src)" "?m \<le> length (rg_allocations dst)"
    "unat (rg_max_allocations_count dst) \<le> length (rg_allocations dst)"
    using src dst max by (auto simp: rg_inv_def word_le_nat_alt)
  have eq: "region_copy False dst src = Some (dst', EOK)"
    unfolding dst'_def by (rule region_copy_table) (use max pages len a in simp_all)
  have nth: "rg_allocations dst' ! i = (if i < ?m then ra_translate ?d (rg_allocations src ! i)
      else rg_allocations dst ! i)" for i using len by (simp add: dst'_def nth_append)
  have tr: "ra_va (ra_translate ?d (rg_allocations src ! i)) \<noteq> 0"
    "ra_ok dst (ra_translate ?d (rg_allocations src ! i))"
    "ra_pages dst (ra_translate ?d (rg_allocations src ! i)) = ra_pages src (rg_allocations src ! i)"
    "ra_page_count (ra_translate ?d (rg_allocations src ! i)) = ra_page_count (rg_allocations src ! i)"
    "unat (ra_va (ra_translate ?d (rg_allocations src ! i))) = unat (ra_va (rg_allocations src ! i)) -
       unat (bm_pool (rg_allocator src)) + unat (bm_pool (rg_allocator dst))"
    if "i \<in> rg_used_slots src" for i
    using ra_translate_va [OF src dst, of "rg_allocations src ! i"] that src pages
    by (auto simp: rg_used_slots_def rg_inv_def word_le_nat_alt)
  have p: "ra_pages dst' = ra_pages dst" "ra_ok dst' = ra_ok dst"
    using a(2) by (simp_all add: dst'_def ra_pages_def ra_ok_def fun_eq_iff bm_same_def)
  have nth': "rg_allocations dst' ! i = ra_translate ?d (rg_allocations src ! i)"
    if "i \<in> rg_used_slots src" for i using that by (simp add: nth rg_used_slots_def)
  have slots: "rg_used_slots dst' = rg_used_slots src"
  proof (rule set_eqI)
    fix i
    have "i \<in> rg_used_slots dst \<longrightarrow> i < ?m" using free by blast
    then show "i \<in> rg_used_slots dst' \<longleftrightarrow> i \<in> rg_used_slots src"
      using max tr(1) [of i] by (auto simp: rg_used_slots_def nth ra_translate_def word_le_nat_alt)
        (auto simp: dst'_def)
  qed
  have "rg_inv dst'"
    unfolding rg_inv_def p slots
    using src dst a bm_same_wf [OF a(2)] len tr nth'
    by (auto simp: rg_inv_def bm_same_def) (auto simp: dst'_def bm_same_def)
  moreover have "rg_live dst' = (\<lambda>(a, n). (a - unat (bm_pool (rg_allocator src)) +
      unat (bm_pool (rg_allocator dst)), n)) ` rg_live src"
    unfolding rg_live_def slots image_image
  proof (rule image_cong [OF refl])
    fix i assume "i \<in> rg_used_slots src"
    then show "rg_block (rg_allocations dst' ! i) = (case rg_block (rg_allocations src ! i) of (a, n) \<Rightarrow>
        (a - unat (bm_pool (rg_allocator src)) + unat (bm_pool (rg_allocator dst)), n))"
      using tr(4,5) nth' by (simp add: rg_block_def)
  qed
  ultimately show ?thesis using eq a(3) by (auto simp: dst'_def)
qed

section \<open>Properties\<close>

definition rg_example :: AllocRegion where
  "rg_example = STATIC_ALLOC_VM_REGION 0x10000 0x8000"

lemma rg_example_inv: "rg_inv rg_example \<and> rg_live rg_example = {}"
proof -
  have "rg_max_allocations_count rg_example = 1" "rg_allocations rg_example = replicate 8 ra_null"
    "rg_allocator rg_example = \<lparr>bm_base = 0, bm_bitmap = [0], bm_page_count = 8, bm_pool = 0x10000\<rparr>"
    by (simp_all add: rg_example_def STATIC_ALLOC_VM_REGION_def SIZE_TO_BITMAP_BYTES_def PAGE_SIZE_def)
  moreover from this have "rg_used_slots rg_example = {}"
    by (auto simp: rg_used_slots_def ra_null_def intro!: gr0I)
  ultimately show ?thesis
    by (simp add: rg_inv_def rg_live_def bm_wf_def bm_used_def bm_bit_def)
qed



text \<open>
  Claim C33. Whatever allocations and releases a client makes of a region, as long as it
  releases only blocks it holds, the machine never stops and the live blocks never overlap.
\<close>

theorem region_runs_disjoint:
  assumes "rg_inv r" "blocks_disjoint (rg_live r)" "rga.legal xs r"
  shows "\<exists>r'. foldM rga.do_op xs r = Some r' \<and> rg_inv r' \<and> blocks_disjoint (rg_live r')"
  by (rule rga.run_ok [OF assms])

theorem region_runs_disjoint_witness:
  "\<exists>r'. foldM rga.do_op [Alloc 1, Alloc 3] rg_example = Some r' \<and> rg_inv r' \<and>
     blocks_disjoint (rg_live r')"
proof (rule region_runs_disjoint)
  show "rga.legal [Alloc 1, Alloc 3] rg_example"
    by (auto simp: rga.allowed_def split: option.splits)
qed (use rg_example_inv in \<open>auto simp: blocks_disjoint_def\<close>)



end
