(* ===== verification/FreeList.thy ===== *)
theory FreeList
  imports Allocator
begin

text \<open>
  The first-fit free list of \<^verbatim>\<open>lib/allocator/freelist.c\<close>, which serves
  \<^verbatim>\<open>kalloc\<close> and \<^verbatim>\<open>kfree\<close>. A free block holds its own list entry
  (size and next pointer, 16 bytes); an allocated block keeps the size in front of its payload.
  The entries live in memory: \<open>fl_mem\<close> maps the address of a block to the entry stored
  there, and a null pointer is address 0.

  The lemmas show that the linked list refines a list of disjoint blocks in address order with no
  two adjacent ones (\<open>fl_insert\<close> is its insertion with coalescing), that no byte is lost or
  handed out twice, and that the operations implement the \<open>allocator\<close> contract.
\<close>

section \<open>State and operations\<close>

record FreeListBlockEntry =
  fe_size :: usize
  fe_next :: u64

type_synonym fl_mem = "u64 \<Rightarrow> FreeListBlockEntry"

record FreeList =
  fl_head :: u64
  fl_capacity :: usize

definition ENTRY_SIZE :: usize where
  "ENTRY_SIZE = 16"

definition set_fe_size :: "u64 \<Rightarrow> usize \<Rightarrow> fl_mem \<Rightarrow> fl_mem" where
  "set_fe_size a n m = m(a := (m a)\<lparr>fe_size := n\<rparr>)"

definition set_fe_next :: "u64 \<Rightarrow> u64 \<Rightarrow> fl_mem \<Rightarrow> fl_mem" where
  "set_fe_next a p m = m(a := (m a)\<lparr>fe_next := p\<rparr>)"

text \<open>\<open>freelist_init\<close> writes the size of the first entry, but not its next pointer.\<close>

definition freelist_init :: "fl_mem \<Rightarrow> u64 \<Rightarrow> usize \<Rightarrow> FreeList \<times> fl_mem" where
  "freelist_init m pool sz = (\<lparr>fl_head = pool, fl_capacity = sz\<rparr>, set_fe_size pool sz m)"

definition coalesce :: "u64 \<Rightarrow> u64 \<Rightarrow> fl_mem \<Rightarrow> fl_mem" where
  "coalesce left right m =
     (if left = 0 \<or> right = 0 then m
      else if left + fe_size (m left) \<noteq> right then m
      else let m = set_fe_size left (fe_size (m left) + fe_size (m right)) m
           in set_fe_next left (fe_next (m right)) m)"

text \<open>The search of \<^verbatim>\<open>freelist_alloc\<close>, which returns \<open>prev\<close> and \<open>cur\<close>.\<close>

partial_function (option) fl_find :: "fl_mem \<Rightarrow> usize \<Rightarrow> u64 \<Rightarrow> u64 \<Rightarrow> (u64 \<times> u64) option" where
  "fl_find m actual_size prev cur =
     (if cur \<noteq> 0 then
        if actual_size \<le> fe_size (m cur) then Some (prev, cur)
        else fl_find m actual_size cur (fe_next (m cur))
      else Some (prev, cur))"

definition freelist_alloc :: "FreeList \<Rightarrow> fl_mem \<Rightarrow> usize \<Rightarrow> (FreeList \<times> fl_mem \<times> u64) option" where
  "freelist_alloc fl m sz = do {
     ASSERT (fl_head fl \<noteq> 0);
     ASSERT (sz \<noteq> 0);
     let actual_size = sz + ENTRY_SIZE;
     (prev, cur) \<leftarrow> fl_find m actual_size 0 (fl_head fl);
     if cur = 0 then Some (fl, m, ERR_TO_PTR (- ENOMEM))
     else do {
       let remain = fe_size (m cur) - actual_size;
       if ENTRY_SIZE \<le> remain then do {
         let new = cur + actual_size;
         let m = set_fe_size new remain m;
         let m = set_fe_next new (fe_next (m cur)) m;
         let (fl, m) = (if prev \<noteq> 0 then (fl, set_fe_next prev new m) else (fl\<lparr>fl_head := new\<rparr>, m));
         let m = set_fe_size cur actual_size m;
         Some (fl, m, cur + ENTRY_SIZE)
       } else do {
         let (fl, m) = (if prev \<noteq> 0 then (fl, set_fe_next prev (fe_next (m cur)) m)
                        else (fl\<lparr>fl_head := fe_next (m cur)\<rparr>, m));
         Some (fl, m, cur + ENTRY_SIZE)
       }
     }
   }"

text \<open>The walk to the last block below \<open>entry\<close>, the same in both insertions.\<close>

partial_function (option) fl_walk :: "fl_mem \<Rightarrow> u64 \<Rightarrow> u64 \<Rightarrow> u64 option" where
  "fl_walk m entry cur =
     (if fe_next (m cur) \<noteq> 0 \<and> fe_next (m cur) < entry then fl_walk m entry (fe_next (m cur))
      else Some cur)"

definition fl_link_after :: "u64 \<Rightarrow> u64 \<Rightarrow> fl_mem \<Rightarrow> fl_mem" where
  "fl_link_after cur entry m =
     (let m = set_fe_next entry (fe_next (m cur)) m;
          m = set_fe_next cur entry m;
          m = coalesce entry (fe_next (m entry)) m
      in coalesce cur entry m)"

definition fl_link_head :: "FreeList \<Rightarrow> u64 \<Rightarrow> fl_mem \<Rightarrow> FreeList \<times> fl_mem" where
  "fl_link_head fl entry m =
     (let m = set_fe_next entry (fl_head fl) m
      in (fl\<lparr>fl_head := entry\<rparr>, coalesce entry (fe_next (m entry)) m))"

definition freelist_free :: "FreeList \<Rightarrow> fl_mem \<Rightarrow> u64 \<Rightarrow> (FreeList \<times> fl_mem) option" where
  "freelist_free fl m ptr = do {
     ASSERT (fl_head fl \<noteq> 0);
     ASSERT (ptr \<noteq> 0);
     let entry = ptr - ENTRY_SIZE;
     if fl_head fl = 0 \<or> entry < fl_head fl then Some (fl_link_head fl entry m)
     else do {
       cur \<leftarrow> fl_walk m entry (fl_head fl);
       Some (fl, fl_link_after cur entry m)
     }
   }"

definition freelist_add_region :: "FreeList \<Rightarrow> fl_mem \<Rightarrow> u64 \<Rightarrow> usize \<Rightarrow> (FreeList \<times> fl_mem) option" where
  "freelist_add_region fl m pool sz = do {
     ASSERT (pool \<noteq> 0);
     ASSERT (sz \<noteq> 0);
     let m = set_fe_size pool sz m;
     let fl = fl\<lparr>fl_capacity := fl_capacity fl + sz\<rparr>;
     if fl_head fl = 0 \<or> pool < fl_head fl then Some (fl_link_head fl pool m)
     else do {
       cur \<leftarrow> fl_walk m pool (fl_head fl);
       Some (fl, fl_link_after cur pool m)
     }
   }"

section \<open>The abstract free list\<close>

text \<open>
  A block is its address and its size. \<open>fl_seg m p bs q\<close>: following the next pointers from
  \<open>p\<close> visits the blocks \<open>bs\<close> and arrives at \<open>q\<close>.
\<close>

type_synonym fblock = "u64 \<times> usize"

primrec fl_seg :: "fl_mem \<Rightarrow> u64 \<Rightarrow> fblock list \<Rightarrow> u64 \<Rightarrow> bool" where
  "fl_seg m p [] q \<longleftrightarrow> p = q"
| "fl_seg m p (b # bs) q \<longleftrightarrow>
     p = fst b \<and> p \<noteq> 0 \<and> fe_size (m p) = snd b \<and> fl_seg m (fe_next (m p)) bs q"

definition fb_range :: "fblock \<Rightarrow> nat set" where
  "fb_range b = {unat (fst b)..<unat (fst b) + unat (snd b)}"

definition fb_ok :: "fblock \<Rightarrow> bool" where
  "fb_ok b \<longleftrightarrow> fst b \<noteq> 0 \<and> 16 \<le> unat (snd b) \<and> unat (fst b) + unat (snd b) < 2 ^ 64 - 4096"

definition fb_before :: "fblock \<Rightarrow> fblock \<Rightarrow> bool" where
  "fb_before b c \<longleftrightarrow> unat (fst b) + unat (snd b) < unat (fst c)"

definition fl_ord :: "fblock list \<Rightarrow> bool" where
  "fl_ord bs \<longleftrightarrow> sorted_wrt fb_before bs \<and> (\<forall>b \<in> set bs. fb_ok b)"

definition fl_cover :: "fblock list \<Rightarrow> nat set" where
  "fl_cover bs = (\<Union>b \<in> set bs. fb_range b)"

fun fl_join :: "fblock list \<Rightarrow> fblock list" where
  "fl_join ((a, n) # (b, k) # bs) = (if a + n = b then (a, n + k) # bs else (a, n) # (b, k) # bs)"
| "fl_join bs = bs"

primrec fl_insert :: "fblock \<Rightarrow> fblock list \<Rightarrow> fblock list" where
  "fl_insert e [] = [e]"
| "fl_insert e (c # bs) =
     (if fst e < fst c then fl_join (e # c # bs) else fl_join (c # fl_insert e bs))"

fun fl_take :: "usize \<Rightarrow> fblock list \<Rightarrow> fblock list" where
  "fl_take act [] = []"
| "fl_take act ((a, n) # bs) =
     (if act \<le> n then (if ENTRY_SIZE \<le> n - act then (a + act, n - act) # bs else bs)
      else (a, n) # fl_take act bs)"

lemma fl_ord_simps [simp]:
  "fl_ord []"
  "fl_ord (b # bs) \<longleftrightarrow> fb_ok b \<and> (\<forall>c \<in> set bs. fb_before b c) \<and> fl_ord bs"
  by (auto simp: fl_ord_def)

lemma fl_cover_simps [simp]:
  "fl_cover [] = {}" "fl_cover (b # bs) = fb_range b \<union> fl_cover bs"
  "fl_cover (xs @ ys) = fl_cover xs \<union> fl_cover ys"
  by (auto simp: fl_cover_def)

lemma fl_ord_append:
  "fl_ord (xs @ ys) \<longleftrightarrow> fl_ord xs \<and> fl_ord ys \<and> (\<forall>x \<in> set xs. \<forall>y \<in> set ys. fb_before x y)"
  by (auto simp: fl_ord_def sorted_wrt_append)

lemma fb_before_disjoint: "fb_before b c \<Longrightarrow> fb_range b \<inter> fb_range c = {}"
  by (auto simp: fb_before_def fb_range_def)

lemma fb_start_in_range: "fb_ok b \<Longrightarrow> unat (fst b) \<in> fb_range b"
  by (auto simp: fb_ok_def fb_range_def)

lemma fl_start_in_cover: "fl_ord bs \<Longrightarrow> b \<in> set bs \<Longrightarrow> unat (fst b) \<in> fl_cover bs"
  unfolding fl_ord_def fl_cover_def by (blast intro: fb_start_in_range)

lemma fb_disjoint_order:
  assumes "fb_ok b" "fb_ok c" "fb_range b \<inter> fb_range c = {}"
  shows "(if fst b < fst c then unat (fst b) + unat (snd b) \<le> unat (fst c)
          else unat (fst c) + unat (snd c) \<le> unat (fst b))"
proof -
  have "unat (fst b) \<notin> fb_range c" "unat (fst c) \<notin> fb_range b"
    using assms fb_start_in_range by blast+
  then show ?thesis by (auto simp: fb_range_def word_less_nat_alt)
qed

lemma fb_end_unat: "fb_ok b \<Longrightarrow> unat (fst b + snd b) = unat (fst b) + unat (snd b)"
  by (rule unat_add_u64) (simp add: fb_ok_def)

text \<open>Putting a block in front of the blocks above it, joined to the first when they touch.\<close>

lemma fl_join_ok:
  assumes "fb_ok b" "fl_ord bs" "\<forall>c \<in> set bs. unat (fst b) + unat (snd b) \<le> unat (fst c)"
  shows "fl_ord (fl_join (b # bs)) \<and> fl_cover (fl_join (b # bs)) = fb_range b \<union> fl_cover bs \<and>
    fst ` set (fl_join (b # bs)) \<subseteq> insert (fst b) (fst ` set bs)"
proof (cases bs)
  case Nil
  then show ?thesis using assms(1) by (cases b) (simp add: fl_cover_def)
next
  case (Cons c cs)
  obtain a n where b: "b = (a, n)" by (cases b)
  obtain x k where c: "c = (x, k)" by (cases c)
  have ok: "fb_ok (a, n)" "fb_ok (x, k)" "fl_ord cs" "\<forall>d \<in> set cs. fb_before (x, k) d"
    and le: "unat a + unat n \<le> unat x" using assms Cons b c by auto
  have an: "unat (a + n) = unat a + unat n" using fb_end_unat [OF ok(1)] by simp
  show ?thesis
  proof (cases "a + n = x")
    case True
    then have x: "unat x = unat a + unat n" using an by simp
    have nk: "unat (n + k) = unat n + unat k"
      by (rule unat_add_u64) (use ok(2) x in \<open>simp add: fb_ok_def\<close>)
    have "fb_ok (a, n + k)" using ok(1,2) x nk by (simp add: fb_ok_def)
    moreover have "\<forall>d \<in> set cs. fb_before (a, n + k) d" using ok(4) x nk by (simp add: fb_before_def add.assoc)
    moreover have "fb_range (a, n + k) = fb_range (a, n) \<union> fb_range (x, k)"
      using x nk by (auto simp: fb_range_def)
    ultimately show ?thesis using True ok(3) Cons b c by auto
  next
    case False
    then have lt: "unat a + unat n < unat x" using le an by (simp add: word_unat_eq_iff)
    then have "fb_before (a, n) (x, k)" by (simp add: fb_before_def)
    moreover have "\<forall>d \<in> set cs. fb_before (a, n) d"
      using lt ok(4) by (force simp: fb_before_def)
    ultimately show ?thesis using False ok Cons b c by auto
  qed
qed

lemma fl_insert_ok:
  assumes "fl_ord bs" "fb_ok e" "fb_range e \<inter> fl_cover bs = {}"
  shows "fl_ord (fl_insert e bs) \<and> fl_cover (fl_insert e bs) = fb_range e \<union> fl_cover bs \<and>
    fst ` set (fl_insert e bs) \<subseteq> insert (fst e) (fst ` set bs)"
  using assms
proof (induction bs)
  case Nil
  then show ?case by simp
next
  case (Cons c bs)
  have ok: "fb_ok c" "fl_ord bs" "\<forall>d \<in> set bs. fb_before c d" using Cons.prems(1) by auto
  note ord = fb_disjoint_order [OF Cons.prems(2) ok(1)]
  have d: "fb_range e \<inter> fb_range c = {}" "fb_range e \<inter> fl_cover bs = {}" using Cons.prems(3) by auto
  show ?case
  proof (cases "fst e < fst c")
    case True
    then have "\<forall>d \<in> set (c # bs). unat (fst e) + unat (snd e) \<le> unat (fst d)"
      using ord d(1) ok(3) by (auto simp: fb_before_def)
    then show ?thesis using fl_join_ok [OF Cons.prems(2,1)] True by auto
  next
    case False
    have IH: "fl_ord (fl_insert e bs)" "fl_cover (fl_insert e bs) = fb_range e \<union> fl_cover bs"
      "fst ` set (fl_insert e bs) \<subseteq> insert (fst e) (fst ` set bs)"
      using Cons.IH ok(2) Cons.prems(2) d(2) by auto
    have "\<forall>d \<in> set (fl_insert e bs). unat (fst c) + unat (snd c) \<le> unat (fst d)"
    proof
      fix x assume "x \<in> set (fl_insert e bs)"
      then have "fst x = fst e \<or> fst x \<in> fst ` set bs" using IH(3) by auto
      then show "unat (fst c) + unat (snd c) \<le> unat (fst x)"
        using ord d(1) ok(3) False by (auto simp: fb_before_def)
    qed
    note j = fl_join_ok [OF ok(1) IH(1) this]
    then have "fst ` set (fl_join (c # fl_insert e bs)) \<subseteq> insert (fst e) (fst ` set (c # bs))"
      using IH(3) unfolding list.set image_insert by blast
    with j IH(2) False show ?thesis by (simp add: Un_left_commute)
  qed
qed

text \<open>The block that a request takes: the first that is large enough, split if another entry fits.\<close>

definition fl_fit :: "usize \<Rightarrow> fblock list \<Rightarrow> fblock option" where
  "fl_fit act bs = map_option (\<lambda>(a, n). (a, if ENTRY_SIZE \<le> n - act then act else n))
     (find (\<lambda>b. act \<le> snd b) bs)"

lemma ENTRY_SIZE_unat [simp]: "unat ENTRY_SIZE = 16"
  by (simp add: ENTRY_SIZE_def)

lemma fl_take_split:
  "\<forall>x \<in> set xs. snd x < act \<Longrightarrow> act \<le> n \<Longrightarrow>
   fl_take act (xs @ (a, n) # ys) =
     xs @ (if ENTRY_SIZE \<le> n - act then (a + act, n - act) # ys else ys)"
  by (induction xs) (auto simp: not_le)

lemma find_split:
  "find P xs = Some x \<Longrightarrow> \<exists>us vs. xs = us @ x # vs \<and> P x \<and> (\<forall>u \<in> set us. \<not> P u)"
proof (induction xs)
  case (Cons y ys)
  show ?case
  proof (cases "P y")
    case True
    then show ?thesis using Cons.prems by (metis append_Nil find.simps(2) list.set(1) empty_iff option.inject)
  next
    case False
    then obtain us vs where "ys = us @ x # vs" "P x" "\<forall>u \<in> set us. \<not> P u"
      using Cons by auto
    then show ?thesis using False by (metis append_Cons set_ConsD)
  qed
qed simp

lemma fl_carve:
  assumes ok: "fb_ok (a, n)" and act: "act \<le> n" "16 \<le> unat act"
  defines "k \<equiv> if ENTRY_SIZE \<le> n - act then act else n"
    and "rest \<equiv> if ENTRY_SIZE \<le> n - act then [(a + act, n - act)] else []"
  shows "fl_ord rest" "fb_ok (a, k)" "fb_range (a, n) = fb_range (a, k) \<union> fl_cover rest"
    "fb_range (a, k) \<inter> fl_cover rest = {}" "act \<le> k"
    "\<forall>r \<in> set rest. unat a + unat k = unat (fst r) \<and> unat (fst r) + unat (snd r) = unat a + unat n"
proof -
  have n: "unat (n - act) = unat n - unat act" using act(1) by (rule unat_sub_u64)
  have le: "unat act \<le> unat n" using act(1) by (simp add: word_le_nat_alt)
  have a: "unat (a + act) = unat a + unat act"
    by (rule unat_add_u64) (use ok le in \<open>simp add: fb_ok_def\<close>)
  have nz: "a + act \<noteq> 0" using a act(2) by (metis add_is_0 not_numeral_le_zero unsigned_0)
  note defs = k_def rest_def fb_ok_def fb_range_def word_le_nat_alt n a nz
  show "fl_ord rest" using ok le by (simp add: defs)
  show "fb_ok (a, k)" using ok act(2) le by (auto simp: defs)
  show "fb_range (a, n) = fb_range (a, k) \<union> fl_cover rest" using le by (auto simp: defs)
  show "fb_range (a, k) \<inter> fl_cover rest = {}" by (auto simp: defs)
  show "act \<le> k" using act(1) by (simp add: k_def)
  show "\<forall>r \<in> set rest. unat a + unat k = unat (fst r) \<and> unat (fst r) + unat (snd r) = unat a + unat n"
    using le by (auto simp: defs)
qed

lemma fl_take_ok:
  assumes "fl_ord bs" "fl_fit act bs = Some (a, k)" "16 \<le> unat act"
  shows "fl_ord (fl_take act bs) \<and> fb_ok (a, k) \<and> act \<le> k \<and>
    fl_cover bs = fl_cover (fl_take act bs) \<union> fb_range (a, k) \<and>
    fl_cover (fl_take act bs) \<inter> fb_range (a, k) = {}"
proof -
  obtain n xs ys where bs: "bs = xs @ (a, n) # ys" "act \<le> n" "\<forall>x \<in> set xs. \<not> act \<le> snd x"
    and k: "k = (if ENTRY_SIZE \<le> n - act then act else n)"
    using assms(2) by (auto simp: fl_fit_def dest!: find_split)
  let ?r = "if ENTRY_SIZE \<le> n - act then [(a + act, n - act)] else []"
  have ord: "fl_ord xs" "fb_ok (a, n)" "fl_ord ys" "\<forall>x \<in> set xs. fb_before x (a, n)"
    "\<forall>y \<in> set ys. fb_before (a, n) y" "\<forall>x \<in> set xs. \<forall>y \<in> set ys. fb_before x y"
    using assms(1) bs(1) by (auto simp: fl_ord_append)
  have t: "fl_take act bs = xs @ ?r @ ys"
    using bs fl_take_split [of xs act n a ys] by (auto simp: not_le)
  note c = fl_carve [OF ord(2) bs(2) assms(3), folded k]
  have 1: "\<forall>x \<in> set xs. \<forall>r \<in> set ?r. fb_before x r"
    using ord(4) c(6) by (fastforce simp: fb_before_def)
  have 2: "\<forall>r \<in> set ?r. \<forall>y \<in> set ys. fb_before r y"
    using ord(5) c(6) by (fastforce simp: fb_before_def)
  have "fl_ord (fl_take act bs)"
    unfolding t fl_ord_append using ord(1,3,6) 1 2 c(1) by auto
  moreover have "fb_range (a, n) \<inter> fl_cover (xs @ ys) = {}"
    using ord(4,5) fb_before_disjoint by (fastforce simp: fl_cover_def)
  moreover have "fl_cover bs = fl_cover (xs @ ys) \<union> fb_range (a, n)"
    "fl_cover (fl_take act bs) = fl_cover (xs @ ys) \<union> fl_cover ?r"
    unfolding t unfolding bs(1) fl_cover_simps by blast+
  ultimately show ?thesis using c(2-5) by blast
qed

section \<open>The linked list refines the abstract one\<close>

lemmas set_fe_defs = set_fe_size_def set_fe_next_def

lemma fl_seg_append: "fl_seg m p (xs @ ys) q \<longleftrightarrow> (\<exists>r. fl_seg m p xs r \<and> fl_seg m r ys q)"
  by (induction xs arbitrary: p) auto

lemma fl_seg_cong:
  "\<forall>b \<in> set bs. m' (fst b) = m (fst b) \<Longrightarrow> fl_seg m' p bs q = fl_seg m p bs q"
  by (induction bs arbitrary: p) auto

lemma fl_seg_frame:
  "fl_seg m p bs q \<Longrightarrow> \<forall>x. x \<notin> A \<longrightarrow> m' x = m x \<Longrightarrow> fst ` set bs \<inter> A = {} \<Longrightarrow> fl_seg m' p bs q"
  using fl_seg_cong [of bs m' m p q] by blast

text \<open>Redirecting the last block of a segment.\<close>

lemma fl_seg_relink:
  assumes "fl_seg m p (xs @ [c]) q" "\<forall>x. x \<notin> A \<longrightarrow> m' x = m x" "fst ` set xs \<inter> A = {}"
    "fe_size (m' (fst c)) = snd c" "fe_next (m' (fst c)) = r"
  shows "fl_seg m' p (xs @ [c]) r"
proof -
  have "fl_seg m p xs (fst c)" "fst c \<noteq> 0" using assms(1) by (auto simp: fl_seg_append)
  then show ?thesis using fl_seg_frame [OF _ assms(2,3)] assms(4,5) by (auto simp: fl_seg_append)
qed

lemma fl_ord_distinct: "fl_ord bs \<Longrightarrow> distinct (map fst bs)"
proof (induction bs)
  case (Cons b bs)
  then have "unat (fst b) < unat (fst c)" if "c \<in> set bs" for c
    using that by (fastforce simp: fb_before_def)
  then have "fst b \<notin> fst ` set bs" by (force simp: image_iff)
  then show ?case using Cons by simp
qed simp

lemma fl_find_hit:
  "fl_seg m p (xs @ (a, n) # ys) q \<Longrightarrow> \<forall>x \<in> set xs. \<not> act \<le> snd x \<Longrightarrow> act \<le> n \<Longrightarrow>
   fl_find m act prev p = Some (last (prev # map fst xs), a)"
proof (induction xs arbitrary: p prev)
  case Nil
  then show ?case by (subst fl_find.simps) auto
next
  case (Cons x xs)
  then show ?case by (subst fl_find.simps) auto
qed

lemma fl_find_miss:
  "fl_seg m p bs 0 \<Longrightarrow> \<forall>x \<in> set bs. \<not> act \<le> snd x \<Longrightarrow> \<exists>prev'. fl_find m act prev p = Some (prev', 0)"
proof (induction bs arbitrary: p prev)
  case Nil
  then show ?case by (subst fl_find.simps) auto
next
  case (Cons x xs)
  then show ?case by (subst fl_find.simps) auto
qed

lemma fl_walk_ok:
  "fl_seg m p (b # bs) 0 \<Longrightarrow> \<exists>xs c ys. b # bs = xs @ c # ys \<and> fl_walk m e p = Some (fst c) \<and>
     (\<forall>x \<in> set (tl (xs @ [c])). fst x < e) \<and> (ys \<noteq> [] \<longrightarrow> \<not> fst (hd ys) < e)"
proof (induction bs arbitrary: p b)
  case Nil
  then show ?case
    by (intro exI [of _ "[]"] exI [of _ b]) (subst fl_walk.simps, auto)
next
  case (Cons d bs)
  have p: "p = fst b" "fe_next (m p) = fst d" "fst d \<noteq> 0" "fl_seg m (fst d) (d # bs) 0"
    using Cons.prems by auto
  show ?case
  proof (cases "fst d < e")
    case True
    obtain xs c ys where *: "d # bs = xs @ c # ys" "fl_walk m e (fst d) = Some (fst c)"
      "\<forall>x \<in> set (tl (xs @ [c])). fst x < e" "ys \<noteq> [] \<longrightarrow> \<not> fst (hd ys) < e"
      using Cons.IH [OF p(4)] by blast
    have "\<forall>x \<in> set (xs @ [c]). fst x < e" using *(1,3) True by (cases xs) auto
    moreover have "fl_walk m e p = Some (fst c)" using p True *(2) by (subst fl_walk.simps) simp
    ultimately show ?thesis using * by (intro exI [of _ "b # xs"] exI [of _ c] exI [of _ ys]) simp
  next
    case False
    then have "fl_walk m e p = Some (fst b)" using p by (subst fl_walk.simps) simp
    then show ?thesis using False by (intro exI [of _ "[]"] exI [of _ b] exI [of _ "d # bs"]) simp
  qed
qed

text \<open>\<open>coalesce\<close> of the first two blocks of a segment is \<open>fl_join\<close>.\<close>

lemma coalesce_join:
  assumes "fl_seg m (fst b) (b # bs) 0" "fst b \<notin> fst ` set bs"
  shows "fl_seg (coalesce (fst b) (fe_next (m (fst b))) m) (fst b) (fl_join (b # bs)) 0"
proof (cases bs)
  case Nil
  then show ?thesis using assms by (cases b) (simp add: coalesce_def)
next
  case (Cons c cs)
  obtain a n x k where bc: "b = (a, n)" "c = (x, k)" by (cases b, cases c)
  have s: "a \<noteq> 0" "fe_size (m a) = n" "fe_next (m a) = x" "x \<noteq> 0" "fe_size (m x) = k"
    "fl_seg m (fe_next (m x)) cs 0" and d: "a \<noteq> x" "a \<notin> fst ` set cs"
    using assms Cons bc by auto
  have "fl_seg (m(a := e)) (fe_next (m x)) cs 0" for e
    using s(6) d(2) fl_seg_cong [of cs "m(a := e)" m] by (metis fun_upd_other image_eqI)
  then show ?thesis using s d Cons bc by (auto simp: coalesce_def Let_def set_fe_defs)
qed

lemma coalesce_frame: "x \<noteq> l \<Longrightarrow> coalesce l r m x = m x"
  by (simp add: coalesce_def Let_def set_fe_defs)

lemma fl_join_eq_Nil [simp]: "fl_join bs = [] \<longleftrightarrow> bs = []"
  by (cases bs rule: fl_join.cases) auto

lemma fl_insert_neq_Nil [simp]: "fl_insert e bs \<noteq> []"
  by (cases bs) simp_all

lemma fl_join_addrs: "fst ` set (fl_join (b # bs)) \<subseteq> insert (fst b) (fst ` set bs)"
proof (cases bs)
  case (Cons c cs)
  then show ?thesis by (cases b; cases c) auto
qed (cases b, simp)

lemma fl_join_skip:
  "fl_ord (x # c # cs) \<Longrightarrow> fst ` set zs \<subseteq> insert e (fst ` set (c # cs)) \<Longrightarrow> zs \<noteq> [] \<Longrightarrow>
   unat (fst x) + unat (snd x) < unat e \<Longrightarrow> fl_join (x # zs) = x # zs"
proof -
  assume o: "fl_ord (x # c # cs)" and z: "fst ` set zs \<subseteq> insert e (fst ` set (c # cs))" "zs \<noteq> []"
    and e: "unat (fst x) + unat (snd x) < unat e"
  obtain y k zs' where zs: "zs = (y, k) # zs'" using z(2) by (cases zs) auto
  obtain a n where x: "x = (a, n)" by (cases x)
  have "y = e \<or> y \<in> fst ` set (c # cs)" using z(1) zs by auto
  then have "unat a + unat n < unat y" using o e x by (fastforce simp: fb_before_def)
  moreover have "unat (a + n) = unat a + unat n" using o x fb_end_unat [of x] by simp
  ultimately have "a + n \<noteq> y" by auto
  then show ?thesis by (simp add: zs x)
qed

text \<open>Linking the entry in behind the block where the walk stops is the abstract insertion.\<close>

lemma fl_insert_at:
  assumes "fl_ord (xs @ c # ys)" "fb_ok e" "fb_range e \<inter> fl_cover (xs @ c # ys) = {}"
    "\<forall>x \<in> set (xs @ [c]). \<not> fst e < fst x" "ys \<noteq> [] \<longrightarrow> fst e < fst (hd ys)"
  shows "fl_insert e (xs @ c # ys) = xs @ fl_join (c # fl_join (e # ys))"
  using assms
proof (induction xs)
  case Nil
  have "fl_insert e ys = fl_join (e # ys)" using Nil(5) by (cases ys) auto
  then show ?case using Nil(4) by simp
next
  case (Cons x xs)
  have o: "fl_ord (xs @ c # ys)" "fb_range e \<inter> fl_cover (xs @ c # ys) = {}"
    "fb_range e \<inter> fb_range x = {}" "fb_ok x" using Cons.prems(1,3) by auto
  have IH: "fl_insert e (xs @ c # ys) = xs @ fl_join (c # fl_join (e # ys))"
    using Cons o by simp
  obtain y zs where yz: "xs @ c # ys = y # zs" by (cases xs) auto
  have "unat (fst x) + unat (snd x) < unat (fst y)" using Cons.prems(1) yz by (simp add: fb_before_def)
  moreover have "y \<in> set (xs @ [c])" using yz by (cases xs) auto
  then have "\<not> fst e < fst y" using Cons.prems(4) by auto
  ultimately have lt: "unat (fst x) + unat (snd x) < unat (fst e)" by (auto simp: word_less_nat_alt)
  have sub: "fst ` set (fl_insert e (y # zs)) \<subseteq> insert (fst e) (fst ` set (y # zs))"
    using fl_insert_ok [OF o(1) Cons.prems(2) o(2)] yz by (auto simp del: fl_insert.simps)
  have "fl_join (x # fl_insert e (y # zs)) = x # fl_insert e (y # zs)"
    by (rule fl_join_skip [of x y zs _ "fst e"]) (use Cons.prems(1) yz sub lt in \<open>auto simp del: fl_insert.simps\<close>)
  then show ?case using Cons.prems(4) IH yz by simp
qed

lemma fl_link_head_ok:
  assumes "fl_seg m (fl_head fl) bs 0" "fl_ord bs" "fe_size (m e) = n" "fb_ok (e, n)"
    "fb_range (e, n) \<inter> fl_cover bs = {}" "fl_head fl = 0 \<or> e < fl_head fl"
  shows "\<exists>m'. fl_link_head fl e m = (fl\<lparr>fl_head := e\<rparr>, m') \<and> fl_seg m' e (fl_insert (e, n) bs) 0 \<and>
    (\<forall>x. x \<noteq> e \<longrightarrow> m' x = m x)"
proof -
  let ?m = "set_fe_next e (fl_head fl) m"
  have e: "e \<notin> fst ` set bs" "e \<noteq> 0"
    using assms(5) fb_start_in_range [OF assms(4)] fl_start_in_cover [OF assms(2)] assms(4)
    by (auto simp: disjoint_iff fb_ok_def)
  have "fl_seg ?m (fl_head fl) bs 0"
    using assms(1) by (rule fl_seg_frame [where A = "{e}"]) (use e(1) in \<open>auto simp: set_fe_next_def\<close>)
  then have "fl_seg ?m e ((e, n) # bs) 0" using assms(3) e(2) by (simp add: set_fe_next_def)
  from coalesce_join [of ?m "(e, n)" bs] this e(1)
  have "fl_seg (coalesce e (fe_next (?m e)) ?m) e (fl_join ((e, n) # bs)) 0" by simp
  moreover have "fl_insert (e, n) bs = fl_join ((e, n) # bs)"
    using assms(1,6) by (cases bs) auto
  ultimately show ?thesis
    by (auto simp: fl_link_head_def Let_def coalesce_frame) (simp add: set_fe_next_def)
qed

lemma fl_link_after_ok:
  assumes "fl_seg m p (xs @ c # ys) 0" "fl_ord (xs @ c # ys)" "fe_size (m e) = n" "fb_ok (e, n)"
    "fb_range (e, n) \<inter> fl_cover (xs @ c # ys) = {}"
    "\<forall>x \<in> set (xs @ [c]). \<not> e < fst x" "ys \<noteq> [] \<longrightarrow> e < fst (hd ys)"
  shows "fl_seg (fl_link_after (fst c) e m) p (fl_insert (e, n) (xs @ c # ys)) 0 \<and>
    (\<forall>x. x \<noteq> e \<and> x \<noteq> fst c \<longrightarrow> fl_link_after (fst c) e m x = m x)"
proof -
  have e: "e \<notin> fst ` set (xs @ c # ys)" "e \<noteq> 0"
    using assms(5) fb_start_in_range [OF assms(4)] fl_start_in_cover [OF assms(2)] assms(4)
    by (fastforce simp: disjoint_iff fb_ok_def)+
  have dis: "fst c \<notin> fst ` set ys" "fst c \<notin> fst ` set xs"
    using fl_ord_distinct [OF assms(2)] by auto
  have s: "fl_seg m p (xs @ [c]) (fe_next (m (fst c)))" "fl_seg m (fe_next (m (fst c))) ys 0"
    "fst c \<noteq> 0" "fe_size (m (fst c)) = snd c"
    using assms(1) by (auto simp: fl_seg_append)
  let ?m2 = "set_fe_next (fst c) e (set_fe_next e (fe_next (m (fst c))) m)"
  let ?m3 = "coalesce e (fe_next (?m2 e)) ?m2"
  have ce: "fst c \<noteq> e" using e(1) by auto
  have "fl_seg ?m2 (fe_next (m (fst c))) ys 0"
    using s(2) by (rule fl_seg_frame [where A = "{e, fst c}"])
      (use e(1) dis(1) in \<open>auto simp: set_fe_next_def\<close>)
  then have "fl_seg ?m2 e ((e, n) # ys) 0" using assms(3) e(2) ce by (simp add: set_fe_next_def)
  then have 3: "fl_seg ?m3 e (fl_join ((e, n) # ys)) 0"
    using coalesce_join [of ?m2 "(e, n)" ys] e(1) by auto
  have m3: "?m3 (fst c) = (m (fst c))\<lparr>fe_next := e\<rparr>" "x \<noteq> e \<Longrightarrow> x \<noteq> fst c \<Longrightarrow> ?m3 x = m x" for x
    using ce by (auto simp: coalesce_frame) (simp_all add: set_fe_next_def)
  have nc: "fst c \<notin> fst ` set (fl_join ((e, n) # ys))"
    using fl_join_addrs [of "(e, n)" ys] ce dis(1) by auto
  have "fl_seg ?m3 (fst c) (c # fl_join ((e, n) # ys)) 0" using 3 m3(1) s(3,4) by simp
  from coalesce_join [OF this nc]
  have 4: "fl_seg (coalesce (fst c) e ?m3) (fst c) (fl_join (c # fl_join ((e, n) # ys))) 0"
    using m3(1) by simp
  have f: "\<forall>x. x \<noteq> e \<and> x \<noteq> fst c \<longrightarrow> coalesce (fst c) e ?m3 x = m x"
    using m3(2) by (simp add: coalesce_frame)
  have "fl_seg m p xs (fst c)" using s(1) by (auto simp: fl_seg_append)
  then have "fl_seg (coalesce (fst c) e ?m3) p xs (fst c)"
    by (rule fl_seg_frame [where A = "{e, fst c}"]) (use f e(1) dis(2) in auto)
  with 4 have "fl_seg (coalesce (fst c) e ?m3) p (xs @ fl_join (c # fl_join ((e, n) # ys))) 0"
    by (auto simp: fl_seg_append)
  moreover have "fl_insert (e, n) (xs @ c # ys) = xs @ fl_join (c # fl_join ((e, n) # ys))"
    by (rule fl_insert_at) (use assms in auto)
  moreover have "fl_link_after (fst c) e m = coalesce (fst c) e ?m3"
    by (simp add: fl_link_after_def Let_def)
  ultimately show ?thesis using f by simp
qed

text \<open>
  \<open>fl_free_rep fl m bs\<close>: the free list in memory is the abstract list \<open>bs\<close>.
\<close>

definition fl_free_rep :: "FreeList \<Rightarrow> fl_mem \<Rightarrow> fblock list \<Rightarrow> bool" where
  "fl_free_rep fl m bs \<longleftrightarrow> fl_seg m (fl_head fl) bs 0 \<and> fl_ord bs"

lemma fl_free_rep_head: "fl_free_rep fl m bs \<Longrightarrow> fl_head fl = 0 \<longleftrightarrow> bs = []"
  by (cases bs) (auto simp: fl_free_rep_def)

lemma fl_insertion_ok:
  assumes "fl_free_rep fl m bs" "fe_size (m e) = n" "fb_ok (e, n)" "fb_range (e, n) \<inter> fl_cover bs = {}"
  shows "\<exists>fl' m'. (if fl_head fl = 0 \<or> e < fl_head fl then Some (fl_link_head fl e m)
      else do { cur \<leftarrow> fl_walk m e (fl_head fl); Some (fl, fl_link_after cur e m) }) = Some (fl', m') \<and>
    fl_free_rep fl' m' (fl_insert (e, n) bs) \<and> fl_capacity fl' = fl_capacity fl \<and>
    (\<forall>x. unat x \<notin> fl_cover bs \<and> x \<noteq> e \<longrightarrow> m' x = m x)"
proof -
  have rep: "fl_seg m (fl_head fl) bs 0" "fl_ord bs" using assms(1) by (auto simp: fl_free_rep_def)
  have ord: "fl_ord (fl_insert (e, n) bs)" using fl_insert_ok [OF rep(2) assms(3,4)] by simp
  show ?thesis
  proof (cases "fl_head fl = 0 \<or> e < fl_head fl")
    case True
    then show ?thesis
      using fl_link_head_ok [OF rep assms(2-4) True] ord by (auto simp: fl_free_rep_def)
  next
    case False
    then obtain b bs' where b: "bs = b # bs'" "fst b = fl_head fl" using rep(1) by (cases bs) auto
    obtain xs c ys where w: "bs = xs @ c # ys" "fl_walk m e (fl_head fl) = Some (fst c)"
      "\<forall>x \<in> set (tl (xs @ [c])). fst x < e" "ys \<noteq> [] \<longrightarrow> \<not> fst (hd ys) < e"
      using fl_walk_ok [OF rep(1) [unfolded b(1)], of e] unfolding b(1) by blast
    have hd: "hd (xs @ [c]) = b" using w(1) b(1) by (cases xs) auto
    have "\<not> e < fst x" if "x \<in> set (xs @ [c])" for x
      using that w(3) hd False b(2) by (cases "xs @ [c]") auto
    moreover have "e < fst (hd ys)" if "ys \<noteq> []"
    proof -
      have "hd ys \<in> set bs" using that w(1) by simp
      then have "unat (fst (hd ys)) \<in> fl_cover bs" using fl_start_in_cover rep(2) by blast
      then have "e \<noteq> fst (hd ys)" using fb_start_in_range [OF assms(3)] assms(4) by auto
      then show ?thesis using w(4) that by simp
    qed
    ultimately have l: "fl_seg (fl_link_after (fst c) e m) (fl_head fl) (fl_insert (e, n) bs) 0"
      "\<forall>x. x \<noteq> e \<and> x \<noteq> fst c \<longrightarrow> fl_link_after (fst c) e m x = m x"
      using fl_link_after_ok [of m "fl_head fl" xs c ys e n] rep assms(2-4) w(1) by auto
    have "unat (fst c) \<in> fl_cover bs" using fl_start_in_cover [OF rep(2)] w(1) by simp
    then have "x \<noteq> fst c" if "unat x \<notin> fl_cover bs" for x using that by auto
    then show ?thesis using False l ord w(2) by (auto simp: fl_free_rep_def)
  qed
qed

lemma freelist_alloc_hit:
  assumes "fl_free_rep fl m bs" "fl_fit (sz + ENTRY_SIZE) bs = Some (a, k)" "sz \<noteq> 0"
    "unat sz + 16 < 2 ^ 64"
  shows "\<exists>fl' m'. freelist_alloc fl m sz = Some (fl', m', a + ENTRY_SIZE) \<and>
    fl_free_rep fl' m' (fl_take (sz + ENTRY_SIZE) bs) \<and> fe_size (m' a) = k \<and>
    fl_capacity fl' = fl_capacity fl \<and> (\<forall>x. unat x \<notin> fl_cover bs \<longrightarrow> m' x = m x)"
proof -
  let ?act = "sz + ENTRY_SIZE"
  have act: "16 \<le> unat ?act" using assms(4) by (subst unat_add_u64) auto
  have rep: "fl_seg m (fl_head fl) bs 0" "fl_ord bs" using assms(1) by (auto simp: fl_free_rep_def)
  obtain n xs ys where bs: "bs = xs @ (a, n) # ys" "?act \<le> n" "\<forall>x \<in> set xs. \<not> ?act \<le> snd x"
    and k: "k = (if ENTRY_SIZE \<le> n - ?act then ?act else n)"
    using assms(2) by (auto simp: fl_fit_def dest!: find_split)
  have t: "fl_take ?act bs = xs @ (if ENTRY_SIZE \<le> n - ?act then (a + ?act, n - ?act) # ys else ys)"
    using bs fl_take_split [of xs ?act n a ys] by (auto simp: not_le)
  have ord: "fl_ord (fl_take ?act bs)" using fl_take_ok [OF rep(2) assms(2) act] by simp
  have head: "fl_head fl \<noteq> 0" using fl_free_rep_head [OF assms(1)] bs(1) by simp
  have find: "fl_find m ?act 0 (fl_head fl) = Some (last (0 # map fst xs), a)"
    by (rule fl_find_hit) (use rep(1) bs in auto)
  have dis: "distinct (map fst bs)" using rep(2) by (rule fl_ord_distinct)
  have an: "fl_seg m (fl_head fl) xs a" "a \<noteq> 0" "fe_size (m a) = n" "fl_seg m (fe_next (m a)) ys 0"
    using rep(1) bs(1) by (auto simp: fl_seg_append)
  have ok: "fb_ok (a, n)" using rep(2) bs(1) by (simp add: fl_ord_append)
  have out: "x \<noteq> fst b" if "unat x \<notin> fl_cover bs" "b \<in> set bs" for x b
    using fl_start_in_cover [OF rep(2) that(2)] that(1) by auto
  have outa: "x \<noteq> a" if "unat x \<notin> fl_cover bs" for x using out [OF that, of "(a, n)"] bs(1) by simp
  show ?thesis
  proof (cases "ENTRY_SIZE \<le> n - ?act")
    case True
    let ?new = "a + ?act"
    have nu: "unat ?new = unat a + unat ?act" "unat ?act \<le> unat n"
      using ok bs(2) by (auto simp: fb_ok_def word_le_nat_alt intro!: unat_add_u64)
    have "unat (n - ?act) = unat n - unat ?act" using bs(2) by (rule unat_sub_u64)
    then have lt: "unat ?act < unat n" using True by (simp add: word_le_nat_alt)
    then have newcov: "unat ?new \<in> fb_range (a, n)" using nu by (simp add: fb_range_def)
    have newdis: "?new \<noteq> fst b" if b: "b \<in> set xs \<or> b \<in> set ys" for b
    proof -
      have "fb_before b (a, n) \<or> fb_before (a, n) b" using rep(2) bs(1) b by (auto simp: fl_ord_append)
      moreover have "fb_ok b" using rep(2) bs(1) b by (auto simp: fl_ord_def)
      ultimately have "unat ?new \<notin> fb_range b" "unat (fst b) \<in> fb_range b"
        using newcov fb_before_disjoint fb_start_in_range by blast+
      then show ?thesis by auto
    qed
    have na: "?new \<noteq> a" "?new \<noteq> 0" using nu act by auto
    have outn: "x \<noteq> ?new" if "unat x \<notin> fl_cover bs" for x using newcov that bs(1) by auto
    show ?thesis
    proof (cases xs rule: rev_cases)
      case Nil
      let ?m = "set_fe_size a ?act (set_fe_next ?new (fe_next (m a)) (set_fe_size ?new (n - ?act) m))"
      have "fl_seg ?m (fe_next (m a)) ys 0" using an(4)
        by (rule fl_seg_frame [where A = "{a, ?new}"])
          (use dis bs(1) newdis in \<open>auto simp: set_fe_defs\<close>)
      then show ?thesis
        using find head assms(3) True an t ord na k Nil outa outn
        by (auto simp: freelist_alloc_def Let_def fl_free_rep_def set_fe_defs)
    next
      case (snoc us u)
      let ?m = "set_fe_size a ?act (set_fe_next (fst u) ?new
        (set_fe_next ?new (fe_next (m a)) (set_fe_size ?new (n - ?act) m)))"
      have outu: "x \<noteq> fst u" if "unat x \<notin> fl_cover bs" for x using out [OF that, of u] bs(1) snoc by simp
      have u: "fst u \<noteq> 0" "fst u \<noteq> a" "fst u \<noteq> ?new"
        using an(1) snoc dis bs(1) newdis [of u] by (auto simp: fl_seg_append)
      have "fl_seg ?m (fe_next (m a)) ys 0" using an(4)
        by (rule fl_seg_frame [where A = "{a, ?new, fst u}"])
          (use dis bs(1) newdis snoc in \<open>auto simp: set_fe_defs\<close>)
      moreover have "fl_seg ?m (fl_head fl) (us @ [u]) ?new"
        by (rule fl_seg_relink [where m = m and q = a and A = "{a, ?new, fst u}"])
          (use an(1) snoc u dis bs(1) newdis in \<open>auto simp: set_fe_defs fl_seg_append\<close>)
      ultimately show ?thesis
        using find head assms(3) True an t ord na k snoc outa outn outu u
        by (auto simp: freelist_alloc_def Let_def fl_free_rep_def set_fe_defs fl_seg_append)
    qed
  next
    case False
    show ?thesis
    proof (cases xs rule: rev_cases)
      case Nil
      then show ?thesis
        using find head assms(3) False an t ord k outa
        by (auto simp: freelist_alloc_def Let_def fl_free_rep_def set_fe_defs)
    next
      case (snoc us u)
      let ?m = "set_fe_next (fst u) (fe_next (m a)) m"
      have outu: "x \<noteq> fst u" if "unat x \<notin> fl_cover bs" for x using out [OF that, of u] bs(1) snoc by simp
      have u: "fst u \<noteq> 0" "fst u \<noteq> a"
        using an(1) snoc dis bs(1) by (auto simp: fl_seg_append)
      have "fl_seg ?m (fe_next (m a)) ys 0" using an(4)
        by (rule fl_seg_frame [where A = "{fst u}"])
          (use dis bs(1) snoc in \<open>auto simp: set_fe_defs\<close>)
      moreover have "fl_seg ?m (fl_head fl) (us @ [u]) (fe_next (m a))"
        by (rule fl_seg_relink [where m = m and q = a and A = "{fst u}"])
          (use an(1) snoc u dis bs(1) in \<open>auto simp: set_fe_defs fl_seg_append\<close>)
      ultimately show ?thesis
        using find head assms(3) False an t ord k snoc outa outu u
        by (auto simp: freelist_alloc_def Let_def fl_free_rep_def set_fe_defs fl_seg_append)
    qed
  qed
qed

lemma freelist_alloc_miss:
  assumes "fl_free_rep fl m bs" "fl_fit (sz + ENTRY_SIZE) bs = None" "sz \<noteq> 0" "bs \<noteq> []"
  shows "freelist_alloc fl m sz = Some (fl, m, ERR_TO_PTR (- ENOMEM))"
proof -
  have "fl_head fl \<noteq> 0" using fl_free_rep_head [OF assms(1)] assms(4) by simp
  moreover have "\<forall>b \<in> set bs. \<not> sz + ENTRY_SIZE \<le> snd b"
    using assms(2) by (auto simp: fl_fit_def find_None_iff)
  then obtain prev where "fl_find m (sz + ENTRY_SIZE) 0 (fl_head fl) = Some (prev, 0)"
    using fl_find_miss assms(1) unfolding fl_free_rep_def by blast
  ultimately show ?thesis using assms(3) by (simp add: freelist_alloc_def Let_def)
qed

section \<open>Allocated blocks\<close>

text \<open>
  The code keeps no list of allocated blocks: a block is allocated from the moment
  \<^verbatim>\<open>freelist_alloc\<close> returns it until it is passed to
  \<^verbatim>\<open>freelist_free\<close>. The state of a heap is the free list with its memory and, for
  the statements only, the set of allocated blocks. The invariant: the size of every allocated
  block is stored in front of its payload, and no block, free or allocated, overlaps another.
\<close>

record heap =
  hp_list :: FreeList
  hp_mem :: fl_mem
  hp_alloc :: "fblock set"

definition hp_rep :: "heap \<Rightarrow> fblock list \<Rightarrow> bool" where
  "hp_rep h bs \<longleftrightarrow> fl_free_rep (hp_list h) (hp_mem h) bs \<and>
     (\<forall>b \<in> hp_alloc h. fb_ok b \<and> fe_size (hp_mem h (fst b)) = snd b \<and> fb_range b \<inter> fl_cover bs = {}) \<and>
     (\<forall>b \<in> hp_alloc h. \<forall>c \<in> hp_alloc h. b \<noteq> c \<longrightarrow> fb_range b \<inter> fb_range c = {})"

definition hp_inv :: "heap \<Rightarrow> bool" where
  "hp_inv h \<longleftrightarrow> (\<exists>bs. hp_rep h bs)"

definition hp_ready :: "heap \<Rightarrow> bool" where
  "hp_ready h \<longleftrightarrow> fl_head (hp_list h) \<noteq> 0"

definition hp_request_ok :: "usize \<Rightarrow> bool" where
  "hp_request_ok sz \<longleftrightarrow> sz \<noteq> 0 \<and> unat sz + 16 < 2 ^ 64"

definition hp_block :: "fblock \<Rightarrow> nat \<times> nat" where
  "hp_block b = (unat (fst b) + 16, unat (snd b) - 16)"

definition hp_live :: "heap \<Rightarrow> (nat \<times> nat) set" where
  "hp_live h = hp_block ` hp_alloc h"

text \<open>The two operations on this state.\<close>

definition hp_alloc_op :: "usize \<Rightarrow> heap \<Rightarrow> (heap \<times> u64) option" where
  "hp_alloc_op sz h = do {
     (fl, m, p) \<leftarrow> freelist_alloc (hp_list h) (hp_mem h) sz;
     let b = (p - ENTRY_SIZE, fe_size (m (p - ENTRY_SIZE)));
     Some (\<lparr>hp_list = fl, hp_mem = m,
            hp_alloc = (if IS_ERR p then hp_alloc h else insert b (hp_alloc h))\<rparr>, p)
   }"

definition hp_free_op :: "u64 \<Rightarrow> heap \<Rightarrow> heap option" where
  "hp_free_op p h = do {
     (fl, m) \<leftarrow> freelist_free (hp_list h) (hp_mem h) p;
     Some \<lparr>hp_list = fl, hp_mem = m,
           hp_alloc = hp_alloc h - {(p - ENTRY_SIZE, fe_size (hp_mem h (p - ENTRY_SIZE)))}\<rparr>
   }"

lemma fb_payload:
  assumes "fb_ok (a, k)"
  shows "unat (a + ENTRY_SIZE) = unat a + 16" "\<not> IS_ERR (a + ENTRY_SIZE)" "a + ENTRY_SIZE \<noteq> 0"
proof -
  show u: "unat (a + ENTRY_SIZE) = unat a + 16"
    using unat_add_u64 [of a ENTRY_SIZE] assms by (simp add: fb_ok_def)
  show "\<not> IS_ERR (a + ENTRY_SIZE)" using u assms by (simp add: IS_ERR_unat fb_ok_def)
  show "a + ENTRY_SIZE \<noteq> 0" using u by (metis add_is_0 unsigned_0 zero_neq_numeral)
qed

lemma hp_block_range: "fb_ok b \<Longrightarrow> block_range (hp_block b) \<subseteq> fb_range b"
  by (auto simp: block_range_def hp_block_def fb_range_def fb_ok_def)

lemma hp_rep_alloc:
  assumes rep: "hp_rep h bs" and sz: "sz \<noteq> 0" "unat sz + 16 < 2 ^ 64"
    and fit: "fl_fit (sz + ENTRY_SIZE) bs = Some (a, k)"
  shows "\<exists>h'. hp_alloc_op sz h = Some (h', a + ENTRY_SIZE) \<and> hp_rep h' (fl_take (sz + ENTRY_SIZE) bs) \<and>
    hp_alloc h' = insert (a, k) (hp_alloc h) \<and> fb_ok (a, k) \<and> unat sz + 16 \<le> unat k \<and>
    (\<forall>b \<in> hp_alloc h. fb_range b \<inter> fb_range (a, k) = {})"
proof -
  have r: "fl_free_rep (hp_list h) (hp_mem h) bs" "fl_ord bs"
    using rep by (auto simp: hp_rep_def fl_free_rep_def)
  have us: "unat (sz + ENTRY_SIZE) = unat sz + 16" using unat_add_u64 [of sz ENTRY_SIZE] sz(2) by simp
  obtain fl' m' where f: "freelist_alloc (hp_list h) (hp_mem h) sz = Some (fl', m', a + ENTRY_SIZE)"
    "fl_free_rep fl' m' (fl_take (sz + ENTRY_SIZE) bs)" "fe_size (m' a) = k"
    "\<forall>x. unat x \<notin> fl_cover bs \<longrightarrow> m' x = hp_mem h x"
    using freelist_alloc_hit [OF r(1) fit sz] by blast
  have t: "fb_ok (a, k)" "sz + ENTRY_SIZE \<le> k" "fl_cover bs = fl_cover (fl_take (sz + ENTRY_SIZE) bs) \<union> fb_range (a, k)"
    "fl_cover (fl_take (sz + ENTRY_SIZE) bs) \<inter> fb_range (a, k) = {}"
    using fl_take_ok [OF r(2) fit] us by auto
  note p = fb_payload [OF t(1)]
  have old: "fb_ok b" "fe_size (m' (fst b)) = snd b" "fb_range b \<inter> fl_cover bs = {}" if "b \<in> hp_alloc h" for b
  proof -
    show ok: "fb_ok b" "fb_range b \<inter> fl_cover bs = {}" using rep that by (auto simp: hp_rep_def)
    then have "unat (fst b) \<notin> fl_cover bs" using fb_start_in_range by blast
    then show "fe_size (m' (fst b)) = snd b" using f(4) rep that by (simp add: hp_rep_def)
  qed
  let ?h = "\<lparr>hp_list = fl', hp_mem = m', hp_alloc = insert (a, k) (hp_alloc h)\<rparr>"
  have "hp_alloc_op sz h = Some (?h, a + ENTRY_SIZE)"
    using f(1,3) p(2) by (simp add: hp_alloc_op_def Let_def)
  moreover have disj: "\<forall>b \<in> hp_alloc h. fb_range b \<inter> fb_range (a, k) = {}"
    using old(3) t(3) by blast
  moreover have "hp_rep ?h (fl_take (sz + ENTRY_SIZE) bs)"
    unfolding hp_rep_def
  proof (intro conjI ballI impI)
    fix b c assume bc: "b \<in> hp_alloc ?h" "c \<in> hp_alloc ?h" "b \<noteq> c"
    have "fb_range b \<inter> fb_range c = {}" if "b \<in> hp_alloc h" "c \<in> hp_alloc h"
      using rep that bc(3) unfolding hp_rep_def by blast
    then show "fb_range b \<inter> fb_range c = {}" using bc disj by auto
  next
    fix b assume "b \<in> hp_alloc ?h"
    then consider "b = (a, k)" | "b \<in> hp_alloc h" by auto
    then show "fb_ok b" "fe_size (hp_mem ?h (fst b)) = snd b"
      "fb_range b \<inter> fl_cover (fl_take (sz + ENTRY_SIZE) bs) = {}"
      using t f(3) old [of b] by (cases; auto)+
  qed (use f(2) in simp)
  ultimately show ?thesis using t(1,2) us by (auto simp: word_le_nat_alt)
qed

lemma hp_rep_free:
  assumes rep: "hp_rep h bs" and b: "(a, k) \<in> hp_alloc h" and "hp_ready h"
  shows "\<exists>h'. hp_free_op (a + ENTRY_SIZE) h = Some h' \<and> hp_rep h' (fl_insert (a, k) bs) \<and>
    hp_alloc h' = hp_alloc h - {(a, k)}"
proof -
  have r: "fl_free_rep (hp_list h) (hp_mem h) bs" "fl_ord bs"
    using rep by (auto simp: hp_rep_def fl_free_rep_def)
  have ok: "fb_ok (a, k)" "fe_size (hp_mem h a) = k" "fb_range (a, k) \<inter> fl_cover bs = {}"
    using rep b by (auto simp: hp_rep_def)
  have e: "a + ENTRY_SIZE - ENTRY_SIZE = a" by simp
  obtain fl' m' where f: "freelist_free (hp_list h) (hp_mem h) (a + ENTRY_SIZE) = Some (fl', m')"
    "fl_free_rep fl' m' (fl_insert (a, k) bs)"
    "\<forall>x. unat x \<notin> fl_cover bs \<and> x \<noteq> a \<longrightarrow> m' x = hp_mem h x"
    using fl_insertion_ok [OF r(1) ok(2,1,3)] assms(3) fb_payload(3) [OF ok(1)]
    by (auto simp: freelist_free_def Let_def hp_ready_def e split: if_splits)
  have cov: "fl_cover (fl_insert (a, k) bs) = fb_range (a, k) \<union> fl_cover bs"
    using fl_insert_ok [OF r(2) ok(1,3)] by simp
  let ?h = "\<lparr>hp_list = fl', hp_mem = m', hp_alloc = hp_alloc h - {(a, k)}\<rparr>"
  have "hp_free_op (a + ENTRY_SIZE) h = Some ?h" using f(1) ok(2) by (simp add: hp_free_op_def e)
  moreover have "hp_rep ?h (fl_insert (a, k) bs)"
    unfolding hp_rep_def cov
  proof (intro conjI ballI impI)
    fix x c assume "x \<in> hp_alloc ?h" "c \<in> hp_alloc ?h" "x \<noteq> c"
    then show "fb_range x \<inter> fb_range c = {}" using rep by (simp add: hp_rep_def)
  next
    fix x assume x: "x \<in> hp_alloc ?h"
    then have x': "fb_ok x" "fe_size (hp_mem h (fst x)) = snd x" "fb_range x \<inter> fl_cover bs = {}"
      "fb_range x \<inter> fb_range (a, k) = {}" using rep b by (auto simp: hp_rep_def)
    then show "fb_ok x" "fb_range x \<inter> (fb_range (a, k) \<union> fl_cover bs) = {}" by auto
    have "unat (fst x) \<notin> fl_cover bs" "fst x \<noteq> a"
      using x' fb_start_in_range [OF x'(1)] fb_start_in_range [OF ok(1)] by auto
    then show "fe_size (hp_mem ?h (fst x)) = snd x" using f(3) x'(2) by simp
  qed (use f(2) in simp)
  ultimately show ?thesis by auto
qed

interpretation hpa: allocator hp_inv hp_live hp_ready hp_request_ok unat
  hp_alloc_op hp_free_op
proof unfold_locales
  fix h and n :: usize
  assume h: "hp_inv h" "hp_ready h" and "hp_request_ok n"
  then have n: "n \<noteq> 0 \<and> unat n + 16 < 2 ^ 64" by (simp add: hp_request_ok_def)
  obtain bs where rep: "hp_rep h bs" using h(1) by (auto simp: hp_inv_def)
  then have r: "fl_free_rep (hp_list h) (hp_mem h) bs" by (simp add: hp_rep_def)
  show "\<exists>s' p. hp_alloc_op n h = Some (s', p) \<and> hp_inv s' \<and>
        (if IS_ERR p then hp_live s' = hp_live h
         else \<exists>k \<ge> unat n. hp_live s' = insert (unat p, k) (hp_live h) \<and>
           (\<forall>b \<in> hp_live h. block_range b \<inter> block_range (unat p, k) = {}))"
  proof (cases "fl_fit (n + ENTRY_SIZE) bs")
    case None
    moreover have "bs \<noteq> []" using h(2) fl_free_rep_head [OF r] by (simp add: hp_ready_def)
    ultimately have "freelist_alloc (hp_list h) (hp_mem h) n = Some (hp_list h, hp_mem h, ERR_TO_PTR (- ENOMEM))"
      using freelist_alloc_miss [OF r] n by blast
    then show ?thesis using h(1) by (cases h) (simp add: hp_alloc_op_def)
  next
    case (Some b)
    then obtain a k where ak: "fl_fit (n + ENTRY_SIZE) bs = Some (a, k)" by (cases b) auto
    from hp_rep_alloc [OF rep _ _ this] n obtain h' where h':
      "hp_alloc_op n h = Some (h', a + ENTRY_SIZE)" "hp_rep h' (fl_take (n + ENTRY_SIZE) bs)"
      "hp_alloc h' = insert (a, k) (hp_alloc h)" "fb_ok (a, k)" "unat n + 16 \<le> unat k"
      "\<forall>b \<in> hp_alloc h. fb_range b \<inter> fb_range (a, k) = {}" by blast
    note p = fb_payload [OF h'(4)]
    have "block_range b \<inter> block_range (hp_block (a, k)) = {}" if "b \<in> hp_live h" for b
      using that h'(6) hp_block_range [OF h'(4)] hp_block_range rep
      unfolding hp_live_def hp_rep_def by blast
    then show ?thesis
      using h'(1-3,5) p by (auto simp: hp_inv_def hp_live_def hp_block_def intro!: exI [of _ "unat k - 16"])
  qed
next
  fix h k and p :: u64
  assume h: "hp_inv h" "hp_ready h" and l: "(unat p, k) \<in> hp_live h"
  obtain bs where rep: "hp_rep h bs" using h(1) by (auto simp: hp_inv_def)
  obtain a n where a: "(a, n) \<in> hp_alloc h" "hp_block (a, n) = (unat p, k)"
    using l by (auto simp: hp_live_def)
  have ok: "fb_ok b" if "b \<in> hp_alloc h" for b using rep that by (simp add: hp_rep_def)
  have "p = a + ENTRY_SIZE"
    using a fb_payload(1) [OF ok [OF a(1)]] by (simp add: hp_block_def word_unat_eq_iff)
  moreover have "inj_on hp_block (hp_alloc h)"
  proof (rule inj_onI)
    fix b c assume "b \<in> hp_alloc h" "c \<in> hp_alloc h" "hp_block b = hp_block c"
    then show "b = c"
      using ok [of b] ok [of c] by (simp add: hp_block_def fb_ok_def prod_eq_iff word_unat_eq_iff) linarith
  qed
  then have "hp_live h - {hp_block (a, n)} = hp_block ` (hp_alloc h - {(a, n)})"
    unfolding hp_live_def using a(1) by (simp add: inj_on_image_set_diff)
  ultimately show "\<exists>s'. hp_free_op p h = Some s' \<and> hp_inv s' \<and> hp_live s' = hp_live h - {(unat p, k)}"
    using hp_rep_free [OF rep a(1) h(2)] a(2) by (auto simp: hp_inv_def hp_live_def)
qed

lemma hp_rep_add_region:
  assumes rep: "hp_rep h bs" and e: "fb_ok (pool, sz)" "fb_range (pool, sz) \<inter> fl_cover bs = {}"
    "\<forall>b \<in> hp_alloc h. fb_range (pool, sz) \<inter> fb_range b = {}"
  shows "\<exists>fl m. freelist_add_region (hp_list h) (hp_mem h) pool sz = Some (fl, m) \<and>
    fl_capacity fl = fl_capacity (hp_list h) + sz \<and>
    hp_rep (h\<lparr>hp_list := fl, hp_mem := m\<rparr>) (fl_insert (pool, sz) bs)"
proof -
  let ?fl = "(hp_list h)\<lparr>fl_capacity := fl_capacity (hp_list h) + sz\<rparr>"
  let ?m = "set_fe_size pool sz (hp_mem h)"
  have r: "fl_free_rep (hp_list h) (hp_mem h) bs" "fl_ord bs"
    using rep by (auto simp: hp_rep_def fl_free_rep_def)
  have pool: "unat pool \<in> fb_range (pool, sz)" using fb_start_in_range [OF e(1)] by simp
  then have "pool \<notin> fst ` set bs" using e(2) fl_start_in_cover [OF r(2)] by fastforce
  then have "fl_free_rep ?fl ?m bs"
    using r fl_seg_frame [of "hp_mem h" "fl_head (hp_list h)" bs 0 "{pool}" ?m]
    by (auto simp: fl_free_rep_def set_fe_defs)
  moreover have "fe_size (?m pool) = sz" by (simp add: set_fe_defs)
  moreover have "pool \<noteq> 0" "sz \<noteq> 0" using e(1) by (auto simp: fb_ok_def)
  ultimately obtain fl m where f: "freelist_add_region (hp_list h) (hp_mem h) pool sz = Some (fl, m)"
    "fl_free_rep fl m (fl_insert (pool, sz) bs)" "fl_capacity fl = fl_capacity (hp_list h) + sz"
    "\<forall>x. unat x \<notin> fl_cover bs \<and> x \<noteq> pool \<longrightarrow> m x = ?m x"
    using fl_insertion_ok [of ?fl ?m bs pool sz] e(1,2)
    by (auto simp: freelist_add_region_def Let_def split: if_splits)
  have cov: "fl_cover (fl_insert (pool, sz) bs) = fb_range (pool, sz) \<union> fl_cover bs"
    using fl_insert_ok [OF r(2) e(1,2)] by simp
  have "hp_rep (h\<lparr>hp_list := fl, hp_mem := m\<rparr>) (fl_insert (pool, sz) bs)"
    unfolding hp_rep_def cov
  proof (intro conjI ballI impI)
    fix x assume "x \<in> hp_alloc (h\<lparr>hp_list := fl, hp_mem := m\<rparr>)"
    then have x: "fb_ok x" "fe_size (hp_mem h (fst x)) = snd x" "fb_range x \<inter> fl_cover bs = {}"
      "fb_range (pool, sz) \<inter> fb_range x = {}" using rep e(3) by (auto simp: hp_rep_def)
    then show "fb_ok x" "fb_range x \<inter> (fb_range (pool, sz) \<union> fl_cover bs) = {}" by auto
    have "unat (fst x) \<notin> fl_cover bs" "fst x \<noteq> pool"
      using x fb_start_in_range [OF x(1)] pool by auto
    then show "fe_size (hp_mem (h\<lparr>hp_list := fl, hp_mem := m\<rparr>) (fst x)) = snd x"
      using f(4) x(2) by (simp add: set_fe_defs)
  qed (use f(2) rep in \<open>auto simp: hp_rep_def\<close>)
  with f show ?thesis by blast
qed

section \<open>Properties\<close>

definition hp_example :: heap where
  "hp_example = \<lparr>hp_list = \<lparr>fl_head = 0x1000, fl_capacity = 0x100\<rparr>,
     hp_mem = (\<lambda>_. \<lparr>fe_size = 0x100, fe_next = 0\<rparr>), hp_alloc = {}\<rparr>"

lemma hp_example_rep: "hp_rep hp_example [(0x1000, 0x100)]"
  by (simp add: hp_rep_def hp_example_def fl_free_rep_def fb_ok_def)

text \<open>
  Claim C35. The linked list in memory refines an address-ordered list of disjoint free blocks
  of which no two touch. An allocation takes the first block that holds the request with its
  16-byte header, keeping the rest when another header fits (\<open>fl_take\<close>); a release inserts the
  block at its place and joins it with both neighbours (\<open>fl_insert\<close>). Every byte of the heap
  stays either free or in exactly one allocated block: the bytes covered by both together never
  change.
\<close>

theorem freelist_refines_blocks:
  assumes "hp_rep h bs" "hp_ready h" "sz \<noteq> 0" "unat sz + 16 < 2 ^ 64"
  shows "(case fl_fit (sz + ENTRY_SIZE) bs of
      None \<Rightarrow> hp_alloc_op sz h = Some (h, ERR_TO_PTR (- ENOMEM))
    | Some b \<Rightarrow> \<exists>h'. hp_alloc_op sz h = Some (h', fst b + ENTRY_SIZE) \<and>
        hp_rep h' (fl_take (sz + ENTRY_SIZE) bs) \<and> hp_alloc h' = insert b (hp_alloc h) \<and>
        unat sz + 16 \<le> unat (snd b) \<and>
        fl_cover bs = fl_cover (fl_take (sz + ENTRY_SIZE) bs) \<union> fb_range b \<and>
        fl_cover (fl_take (sz + ENTRY_SIZE) bs) \<inter> fb_range b = {}) \<and>
    (\<forall>b \<in> hp_alloc h. \<exists>h'. hp_free_op (fst b + ENTRY_SIZE) h = Some h' \<and>
        hp_rep h' (fl_insert b bs) \<and> hp_alloc h' = hp_alloc h - {b} \<and>
        fl_cover (fl_insert b bs) = fb_range b \<union> fl_cover bs)"
proof (intro conjI ballI)
  have r: "fl_free_rep (hp_list h) (hp_mem h) bs" "fl_ord bs"
    using assms(1) by (auto simp: hp_rep_def fl_free_rep_def)
  have us: "unat (sz + ENTRY_SIZE) = unat sz + 16" using unat_add_u64 [of sz ENTRY_SIZE] assms(4) by simp
  show "case fl_fit (sz + ENTRY_SIZE) bs of
      None \<Rightarrow> hp_alloc_op sz h = Some (h, ERR_TO_PTR (- ENOMEM))
    | Some b \<Rightarrow> \<exists>h'. hp_alloc_op sz h = Some (h', fst b + ENTRY_SIZE) \<and>
        hp_rep h' (fl_take (sz + ENTRY_SIZE) bs) \<and> hp_alloc h' = insert b (hp_alloc h) \<and>
        unat sz + 16 \<le> unat (snd b) \<and>
        fl_cover bs = fl_cover (fl_take (sz + ENTRY_SIZE) bs) \<union> fb_range b \<and>
        fl_cover (fl_take (sz + ENTRY_SIZE) bs) \<inter> fb_range b = {}"
  proof (cases "fl_fit (sz + ENTRY_SIZE) bs")
    case None
    have "bs \<noteq> []" using assms(2) fl_free_rep_head [OF r(1)] by (simp add: hp_ready_def)
    with None show ?thesis
      using freelist_alloc_miss [OF r(1) None assms(3)] by (cases h) (simp add: hp_alloc_op_def)
  next
    case (Some b)
    obtain a k where b: "b = (a, k)" by (cases b)
    then show ?thesis
      using Some hp_rep_alloc [OF assms(1,3,4), of a k] fl_take_ok [OF r(2), of "sz + ENTRY_SIZE" a k] us
      by (auto simp: Un_commute)
  qed
  fix b assume b: "b \<in> hp_alloc h"
  then have "fb_ok b" "fb_range b \<inter> fl_cover bs = {}" using assms(1) by (auto simp: hp_rep_def)
  then show "\<exists>h'. hp_free_op (fst b + ENTRY_SIZE) h = Some h' \<and>
        hp_rep h' (fl_insert b bs) \<and> hp_alloc h' = hp_alloc h - {b} \<and>
        fl_cover (fl_insert b bs) = fb_range b \<union> fl_cover bs"
    using hp_rep_free [OF assms(1) _ assms(2), of "fst b" "snd b"] b fl_insert_ok [OF r(2), of b] by auto
qed

theorem freelist_refines_blocks_witness:
  "\<exists>h'. hp_alloc_op 0x20 hp_example = Some (h', 0x1010) \<and>
     hp_rep h' [(0x1030, 0xD0)] \<and> hp_alloc h' = {(0x1000, 0x30)}"
proof -
  have "hp_ready hp_example" "hp_alloc hp_example = {}" by (simp_all add: hp_ready_def hp_example_def)
  then show ?thesis
    using freelist_refines_blocks [OF hp_example_rep, of "0x20"]
    by (auto simp: fl_fit_def ENTRY_SIZE_def)
qed

text \<open>
  Claim C36. Whatever sequence of requests and releases the kernel makes of the heap, as long
  as it releases only payload addresses it holds and the free list is not empty when it is called,
  no call stops the machine and no two allocated payloads overlap.
\<close>

theorem freelist_runs_disjoint:
  assumes "hp_inv h" "blocks_disjoint (hp_live h)" "hpa.legal xs h"
  shows "\<exists>h'. foldM hpa.do_op xs h = Some h' \<and> hp_inv h' \<and> blocks_disjoint (hp_live h')"
  by (rule hpa.run_ok [OF assms])

theorem freelist_runs_disjoint_witness:
  "\<exists>h'. foldM hpa.do_op [Alloc 8] hp_example = Some h' \<and> hp_inv h' \<and> blocks_disjoint (hp_live h')"
proof (rule freelist_runs_disjoint)
  show "hp_inv hp_example" using hp_example_rep by (auto simp: hp_inv_def)
  show "blocks_disjoint (hp_live hp_example)"
    by (simp add: hp_example_def hp_live_def blocks_disjoint_def)
  show "hpa.legal [Alloc 8] hp_example"
    by (simp add: hpa.allowed_def hp_ready_def hp_request_ok_def hp_example_def split: option.splits)
qed

text \<open>
  The guard on an empty list is needed: an allocation may take the last free block whole, and
  then \<^verbatim>\<open>freelist_free\<close> of that very allocation fails its assertion.
\<close>

theorem freelist_free_after_exhaustion:
  "\<exists>fl m. freelist_alloc \<lparr>fl_head = 0x1000, fl_capacity = 0x20\<rparr>
       (\<lambda>_. \<lparr>fe_size = 0x20, fe_next = 0\<rparr>) 0x10 = Some (fl, m, 0x1010) \<and>
     freelist_free fl m 0x1010 = None"
proof -
  let ?m = "\<lambda>_. \<lparr>fe_size = 0x20, fe_next = 0\<rparr>"
  have "fl_find ?m 0x20 0 0x1000 = Some (0, 0x1000)" by (subst fl_find.simps) simp
  then show ?thesis by (simp add: freelist_alloc_def freelist_free_def ENTRY_SIZE_def)
qed

end
