(* ===== verification/SpinLock.thy ===== *)
theory SpinLock
  imports KPrelude
begin

text \<open>
  Spinlocks (\<^verbatim>\<open>kernel/sync/spinlock.c\<close>) with the nested masking of interrupts
  (\<^verbatim>\<open>irq_push_intr\<close> and \<^verbatim>\<open>irq_pop_intr\<close> of
  \<^verbatim>\<open>kernel/irq/irq_controller.c\<close>) they rest on.

  The first part is the view of one processor: \<open>cpu_ctx\<close> holds the interrupt mask register
  and the two fields of \<^verbatim>\<open>Cpu\<close> that count the nesting. A call that spins on a lock no
  other step can release does not return, which is \<open>None\<close> here like a panic. The states of
  the components above extend \<open>cpu_ctx\<close>, so that they use the same two operations.

  The second part is an interleaving of all processors on one lock, one step per access to shared
  memory, with mutual exclusion as an invariant of the reachable states.
\<close>

section \<open>Interrupt masking\<close>

record DAIF =
  daif_D :: bool
  daif_A :: bool
  daif_I :: bool
  daif_F :: bool

record cpu_ctx =
  cx_cpu :: nat
  cx_daif :: DAIF
  cx_irq_disable_depth :: int
  cx_irq_was_enabled :: bool

definition r_intrd_enabled :: "'a cpu_ctx_scheme \<Rightarrow> bool" where
  "r_intrd_enabled s \<longleftrightarrow> \<not> daif_F (cx_daif s) \<and> \<not> daif_I (cx_daif s)"

definition w_intrd_disable :: "'a cpu_ctx_scheme \<Rightarrow> 'a cpu_ctx_scheme" where
  "w_intrd_disable s = s\<lparr>cx_daif := (cx_daif s)\<lparr>daif_I := True, daif_F := True\<rparr>\<rparr>"

definition w_intrd_enable :: "'a cpu_ctx_scheme \<Rightarrow> 'a cpu_ctx_scheme" where
  "w_intrd_enable s = s\<lparr>cx_daif := (cx_daif s)\<lparr>daif_I := False, daif_F := False\<rparr>\<rparr>"

definition irq_push_intr :: "'a cpu_ctx_scheme \<Rightarrow> 'a cpu_ctx_scheme" where
  "irq_push_intr s =
     (let enabled_previously = r_intrd_enabled s;
          s = w_intrd_disable s;
          s = (if cx_irq_disable_depth s = 0 then s\<lparr>cx_irq_was_enabled := enabled_previously\<rparr> else s)
      in s\<lparr>cx_irq_disable_depth := cx_irq_disable_depth s + 1\<rparr>)"

definition irq_pop_intr :: "'a cpu_ctx_scheme \<Rightarrow> 'a cpu_ctx_scheme option" where
  "irq_pop_intr s = do {
     ASSERT (\<not> r_intrd_enabled s);
     ASSERT (\<not> cx_irq_disable_depth s < 1);
     let s = s\<lparr>cx_irq_disable_depth := cx_irq_disable_depth s - 1\<rparr>;
     Some (if cx_irq_disable_depth s = 0 \<and> cx_irq_was_enabled s then w_intrd_enable s else s)
   }"

definition irq_local_is_enable :: "'a cpu_ctx_scheme \<Rightarrow> bool" where
  "irq_local_is_enable s \<longleftrightarrow> \<not> daif_D (cx_daif s) \<and> \<not> daif_A (cx_daif s) \<and>
     \<not> daif_I (cx_daif s) \<and> \<not> daif_F (cx_daif s)"

definition irq_local_disable :: "'a cpu_ctx_scheme \<Rightarrow> 'a cpu_ctx_scheme" where
  "irq_local_disable s = s\<lparr>cx_daif := \<lparr>daif_D = True, daif_A = True, daif_I = True, daif_F = True\<rparr>\<rparr>"

definition irq_local_enable :: "'a cpu_ctx_scheme \<Rightarrow> 'a cpu_ctx_scheme" where
  "irq_local_enable s = s\<lparr>cx_daif := \<lparr>daif_D = False, daif_A = False, daif_I = False, daif_F = False\<rparr>\<rparr>"

section \<open>Spinlocks, one processor\<close>

record SpinLock =
  sp_locked :: bool
  sp_cpu :: "nat option"

definition spinlock_init :: SpinLock where
  "spinlock_init = \<lparr>sp_locked = False, sp_cpu = None\<rparr>"

definition holding :: "SpinLock \<Rightarrow> nat \<Rightarrow> bool" where
  "holding sp cpu \<longleftrightarrow> sp_locked sp \<and> sp_cpu sp = Some cpu"

definition spinlock_acquire ::
  "SpinLock \<Rightarrow> 'a cpu_ctx_scheme \<Rightarrow> (SpinLock \<times> 'a cpu_ctx_scheme) option" where
  "spinlock_acquire sp s = do {
     let s = irq_push_intr s;
     ASSERT (\<not> holding sp (cx_cpu s));
     ASSERT (\<not> sp_locked sp);
     Some (\<lparr>sp_locked = True, sp_cpu = Some (cx_cpu s)\<rparr>, s)
   }"

definition spinlock_release ::
  "SpinLock \<Rightarrow> 'a cpu_ctx_scheme \<Rightarrow> (SpinLock \<times> 'a cpu_ctx_scheme) option" where
  "spinlock_release sp s = do {
     ASSERT (holding sp (cx_cpu s));
     s \<leftarrow> irq_pop_intr s;
     Some (\<lparr>sp_locked = False, sp_cpu = None\<rparr>, s)
   }"

definition spinlock_assert_locked :: "SpinLock \<Rightarrow> unit option" where
  "spinlock_assert_locked sp = ASSERT (sp_locked sp)"

definition spinlock_assert_unlocked :: "SpinLock \<Rightarrow> unit option" where
  "spinlock_assert_unlocked sp = ASSERT (\<not> sp_locked sp)"

text \<open>
  The context between two operations: the nesting count is not negative, and the two device
  interrupt masks move together, masked inside any nesting. \<open>cx_same\<close>: the same context, up
  to the note of the first push, which only counts inside a nesting.
\<close>

definition cx_ok :: "'a cpu_ctx_scheme \<Rightarrow> bool" where
  "cx_ok s \<longleftrightarrow> 0 \<le> cx_irq_disable_depth s \<and> daif_I (cx_daif s) = daif_F (cx_daif s) \<and>
     (0 < cx_irq_disable_depth s \<longrightarrow> daif_I (cx_daif s))"

definition cx_pushed :: "'a cpu_ctx_scheme \<Rightarrow> 'b cpu_ctx_scheme \<Rightarrow> bool" where
  "cx_pushed s s' \<longleftrightarrow> cx_cpu s' = cx_cpu s \<and>
     cx_irq_disable_depth s' = cx_irq_disable_depth s + 1 \<and>
     cx_daif s' = (cx_daif s)\<lparr>daif_I := True, daif_F := True\<rparr> \<and>
     cx_irq_was_enabled s' =
       (if cx_irq_disable_depth s = 0 then \<not> daif_I (cx_daif s) else cx_irq_was_enabled s)"

definition cx_same :: "'a cpu_ctx_scheme \<Rightarrow> 'b cpu_ctx_scheme \<Rightarrow> bool" where
  "cx_same s s' \<longleftrightarrow> cx_cpu s' = cx_cpu s \<and> cx_daif s' = cx_daif s \<and>
     cx_irq_disable_depth s' = cx_irq_disable_depth s \<and>
     (0 < cx_irq_disable_depth s \<longrightarrow> cx_irq_was_enabled s' = cx_irq_was_enabled s)"

lemma cx_same_refl [simp]: "cx_same s s"
  by (simp add: cx_same_def)

lemma cx_same_trans: "cx_same a b \<Longrightarrow> cx_same b c \<Longrightarrow> cx_same a c"
  by (simp add: cx_same_def)

lemma cx_same_ok: "cx_same a b \<Longrightarrow> cx_ok a \<Longrightarrow> cx_ok b"
  by (auto simp: cx_same_def cx_ok_def)

lemma irq_push_pushed: "cx_ok s \<Longrightarrow> cx_pushed s (irq_push_intr s)"
  by (auto simp: cx_ok_def cx_pushed_def irq_push_intr_def Let_def w_intrd_disable_def r_intrd_enabled_def)

lemma irq_push_more: "cpu_ctx.more (irq_push_intr s) = cpu_ctx.more s"
  by (simp add: irq_push_intr_def Let_def w_intrd_disable_def)

lemma irq_pop_pushed:
  assumes "cx_ok s" "cx_pushed s t"
  shows "\<exists>t'. irq_pop_intr t = Some t' \<and> cx_same s t' \<and> cpu_ctx.more t' = cpu_ctx.more t"
proof -
  have "\<not> r_intrd_enabled t" "\<not> cx_irq_disable_depth t < 1"
    using assms by (auto simp: cx_ok_def cx_pushed_def r_intrd_enabled_def)
  moreover have "(cx_daif s)\<lparr>daif_I := b, daif_F := b\<rparr> = cx_daif s" if "daif_I (cx_daif s) = b" for b
    using that assms(1) by (cases "cx_daif s") (simp add: cx_ok_def)
  ultimately show ?thesis
    using assms by (auto simp: irq_pop_intr_def Let_def cx_ok_def cx_pushed_def cx_same_def w_intrd_enable_def)
qed

text \<open>A critical section on a free lock: entering succeeds, and leaving restores the context.\<close>

lemma spinlock_acquire_ok:
  assumes "cx_ok s" "\<not> sp_locked sp"
  shows "\<exists>s'. spinlock_acquire sp s = Some (\<lparr>sp_locked = True, sp_cpu = Some (cx_cpu s)\<rparr>, s') \<and>
    cx_pushed s s' \<and> cpu_ctx.more s' = cpu_ctx.more s"
  using assms irq_push_pushed [OF assms(1)] irq_push_more [of s]
  by (simp add: spinlock_acquire_def Let_def holding_def cx_pushed_def)

lemma spinlock_release_ok:
  assumes "cx_ok s" "cx_pushed s t" "sp = \<lparr>sp_locked = True, sp_cpu = Some (cx_cpu s)\<rparr>"
  shows "\<exists>t'. spinlock_release sp t = Some (spinlock_init, t') \<and> cx_same s t' \<and>
    cpu_ctx.more t' = cpu_ctx.more t"
  using irq_pop_pushed [OF assms(1,2)] assms(2,3)
  by (auto simp: spinlock_release_def holding_def cx_pushed_def spinlock_init_def)

section \<open>Spinlocks, all processors\<close>

text \<open>
  The shared state is one lock; every processor is at one point of
  \<^verbatim>\<open>spinlock_acquire\<close> or \<^verbatim>\<open>spinlock_release\<close>: outside, in the
  exchange loop, between the exchange and the store of the owner, inside the critical section, or
  between clearing the owner and clearing the lock bit. \<open>Panicked\<close> is the failed check for
  recursive acquisition.
\<close>

datatype lock_pc = Outside | Spinning | Acquired | Critical | Releasing | Panicked

record lock_sys =
  ls_lock :: SpinLock
  ls_pc :: "nat \<Rightarrow> lock_pc"
  ls_ctx :: "nat \<Rightarrow> cpu_ctx"

inductive lock_step :: "lock_sys \<Rightarrow> lock_sys \<Rightarrow> bool" where
  enter: "ls_pc y c = Outside \<Longrightarrow> \<not> holding (ls_lock y) c \<Longrightarrow>
    lock_step y (y\<lparr>ls_pc := (ls_pc y)(c := Spinning),
                  ls_ctx := (ls_ctx y)(c := irq_push_intr (ls_ctx y c))\<rparr>)"
| recursive: "ls_pc y c = Outside \<Longrightarrow> holding (ls_lock y) c \<Longrightarrow>
    lock_step y (y\<lparr>ls_pc := (ls_pc y)(c := Panicked)\<rparr>)"
| spin: "ls_pc y c = Spinning \<Longrightarrow> sp_locked (ls_lock y) \<Longrightarrow> lock_step y y"
| exchange: "ls_pc y c = Spinning \<Longrightarrow> \<not> sp_locked (ls_lock y) \<Longrightarrow>
    lock_step y (y\<lparr>ls_lock := (ls_lock y)\<lparr>sp_locked := True\<rparr>, ls_pc := (ls_pc y)(c := Acquired)\<rparr>)"
| own: "ls_pc y c = Acquired \<Longrightarrow>
    lock_step y (y\<lparr>ls_lock := (ls_lock y)\<lparr>sp_cpu := Some c\<rparr>, ls_pc := (ls_pc y)(c := Critical)\<rparr>)"
| disown: "ls_pc y c = Critical \<Longrightarrow> holding (ls_lock y) c \<Longrightarrow>
    lock_step y (y\<lparr>ls_lock := (ls_lock y)\<lparr>sp_cpu := None\<rparr>, ls_pc := (ls_pc y)(c := Releasing)\<rparr>)"
| not_held: "ls_pc y c = Critical \<Longrightarrow> \<not> holding (ls_lock y) c \<Longrightarrow>
    lock_step y (y\<lparr>ls_pc := (ls_pc y)(c := Panicked)\<rparr>)"
| release: "ls_pc y c = Releasing \<Longrightarrow> irq_pop_intr (ls_ctx y c) = Some x \<Longrightarrow>
    lock_step y (y\<lparr>ls_lock := (ls_lock y)\<lparr>sp_locked := False\<rparr>, ls_pc := (ls_pc y)(c := Outside),
                  ls_ctx := (ls_ctx y)(c := x)\<rparr>)"

definition lock_sys_init :: "(nat \<Rightarrow> cpu_ctx) \<Rightarrow> lock_sys" where
  "lock_sys_init ctx = \<lparr>ls_lock = spinlock_init, ls_pc = (\<lambda>_. Outside), ls_ctx = ctx\<rparr>"

inductive lock_reachable :: "(nat \<Rightarrow> cpu_ctx) \<Rightarrow> lock_sys \<Rightarrow> bool" for ctx where
  init: "lock_reachable ctx (lock_sys_init ctx)"
| step: "lock_reachable ctx y \<Longrightarrow> lock_step y y' \<Longrightarrow> lock_reachable ctx y'"

definition owns :: "lock_pc \<Rightarrow> bool" where
  "owns p \<longleftrightarrow> p = Acquired \<or> p = Critical \<or> p = Releasing"

text \<open>
  The invariant: the lock bit is set exactly while some processor, the owner \<open>w\<close>, is past
  its exchange, there is no other such processor, the owner field names it exactly inside the
  critical section, and a processor that has entered has its interrupts masked with the context it
  will restore.
\<close>

definition lock_inv :: "(nat \<Rightarrow> cpu_ctx) \<Rightarrow> nat option \<Rightarrow> lock_sys \<Rightarrow> bool" where
  "lock_inv ctx w y \<longleftrightarrow>
     (\<forall>c. owns (ls_pc y c) \<longleftrightarrow> w = Some c) \<and> (sp_locked (ls_lock y) \<longleftrightarrow> w \<noteq> None) \<and>
     (\<forall>c. sp_cpu (ls_lock y) = Some c \<longleftrightarrow> ls_pc y c = Critical) \<and>
     (\<forall>c. ls_pc y c \<noteq> Panicked) \<and>
     (\<forall>c. if ls_pc y c = Outside then cx_same (ctx c) (ls_ctx y c)
          else cx_pushed (ctx c) (ls_ctx y c))"

lemma cx_pushed_same:
  "cx_same a b \<Longrightarrow> cx_ok a \<Longrightarrow> cx_pushed b c \<Longrightarrow> cx_pushed a c"
  by (auto simp: cx_same_def cx_ok_def cx_pushed_def)

lemma owns_simps [simp]:
  "\<not> owns Outside" "\<not> owns Spinning" "owns Acquired" "owns Critical" "owns Releasing" "\<not> owns Panicked"
  by (simp_all add: owns_def)

lemma lock_inv_step:
  assumes "lock_step y y'" "lock_inv ctx w y" "\<forall>c. cx_ok (ctx c)"
  shows "\<exists>w'. lock_inv ctx w' y'"
  using assms(1)
proof cases
  case (enter c)
  have "cx_same (ctx c) (ls_ctx y c)" using assms(2) enter(2) by (auto simp: lock_inv_def)
  then have "cx_pushed (ctx c) (irq_push_intr (ls_ctx y c))"
    using assms(3) irq_push_pushed [of "ls_ctx y c"] cx_same_ok cx_pushed_same by blast
  then have "lock_inv ctx w y'" using assms(2) enter(1,2) by (force simp: lock_inv_def)
  then show ?thesis ..
next
  case (recursive c)
  then have "ls_pc y c = Critical" using assms(2) unfolding lock_inv_def holding_def by blast
  then show ?thesis using recursive by simp
next
  case (spin c)
  then show ?thesis using assms(2) by auto
next
  case (exchange c)
  then have "lock_inv ctx (Some c) y'" using assms(2) by (force simp: lock_inv_def)
  then show ?thesis ..
next
  case (own c)
  then have "w = Some c" using assms(2) by (metis lock_inv_def owns_simps(3))
  then have "lock_inv ctx w y'" using assms(2) own by (force simp: lock_inv_def)
  then show ?thesis ..
next
  case (disown c)
  then have "w = Some c" using assms(2) by (metis lock_inv_def owns_simps(4))
  then have "lock_inv ctx w y'" using assms(2) disown by (force simp: lock_inv_def holding_def)
  then show ?thesis ..
next
  case (not_held c)
  then have "w = Some c" using assms(2) by (metis lock_inv_def owns_simps(4))
  then have "holding (ls_lock y) c" using assms(2) not_held(2) by (auto simp: lock_inv_def holding_def)
  then show ?thesis using not_held by simp
next
  case (release c x)
  have "cx_pushed (ctx c) (ls_ctx y c)" using assms(2) release(2) by (auto simp: lock_inv_def)
  then have "cx_same (ctx c) x" using irq_pop_pushed [of "ctx c" "ls_ctx y c"] assms(3) release(3) by auto
  moreover have "w = Some c" using assms(2) release(2) by (metis lock_inv_def owns_simps(5))
  ultimately have "lock_inv ctx None y'" using assms(2) release by (force simp: lock_inv_def)
  then show ?thesis ..
qed

lemma lock_reachable_inv:
  assumes "\<forall>c. cx_ok (ctx c)" "lock_reachable ctx y"
  shows "\<exists>w. lock_inv ctx w y"
  using assms(2)
proof induction
  case init
  have "lock_inv ctx None (lock_sys_init ctx)"
    by (simp add: lock_inv_def lock_sys_init_def spinlock_init_def)
  then show ?case ..
next
  case (step y y')
  then show ?case using lock_inv_step assms(1) by blast
qed

inductive_cases lock_reachable_cases: "lock_reachable ctx y"

section \<open>Properties\<close>


definition ctx_example :: cpu_ctx where
  "ctx_example = \<lparr>cx_cpu = 0, cx_daif = \<lparr>daif_D = False, daif_A = False, daif_I = False, daif_F = False\<rparr>,
     cx_irq_disable_depth = 0, cx_irq_was_enabled = False\<rparr>"

lemma ctx_example_ok: "cx_ok ctx_example"
  by (simp add: cx_ok_def ctx_example_def)


text \<open>
  Claim C16. A critical section on one processor, entered with a free lock, always returns: the
  lock is free again afterwards, and interrupt masks and nesting depth are those from before, so
  that nested sections restore the interrupts only when the outermost one ends. A second
  acquisition inside the section, or a release outside of one, stops the machine.
\<close>

theorem spinlock_section_balanced:
  assumes "cx_ok s" "\<not> sp_locked sp"
  shows "(\<exists>s1 s2. spinlock_acquire sp s = Some (\<lparr>sp_locked = True, sp_cpu = Some (cx_cpu s)\<rparr>, s1) \<and>
      \<not> r_intrd_enabled s1 \<and>
      spinlock_acquire \<lparr>sp_locked = True, sp_cpu = Some (cx_cpu s)\<rparr> s1 = None \<and>
      spinlock_release \<lparr>sp_locked = True, sp_cpu = Some (cx_cpu s)\<rparr> s1 = Some (spinlock_init, s2) \<and>
      cx_same s s2 \<and> cpu_ctx.more s2 = cpu_ctx.more s) \<and>
    spinlock_release sp s = None"
proof -
  obtain s1 where s1: "spinlock_acquire sp s = Some (\<lparr>sp_locked = True, sp_cpu = Some (cx_cpu s)\<rparr>, s1)"
    "cx_pushed s s1" "cpu_ctx.more s1 = cpu_ctx.more s" using spinlock_acquire_ok [OF assms] by blast
  moreover obtain s2 where "spinlock_release \<lparr>sp_locked = True, sp_cpu = Some (cx_cpu s)\<rparr> s1 = Some (spinlock_init, s2)"
    "cx_same s s2" "cpu_ctx.more s2 = cpu_ctx.more s1"
    using spinlock_release_ok [OF assms(1) s1(2) refl] by blast
  moreover have "\<not> r_intrd_enabled s1" using s1(2) by (simp add: cx_pushed_def r_intrd_enabled_def)
  moreover have "spinlock_acquire \<lparr>sp_locked = True, sp_cpu = Some (cx_cpu s)\<rparr> s1 = None"
    by (simp add: spinlock_acquire_def Let_def)
  moreover have "spinlock_release sp s = None" using assms(2) by (simp add: spinlock_release_def holding_def)
  ultimately show ?thesis by auto
qed

theorem spinlock_section_balanced_witness:
  "\<exists>s1. spinlock_acquire spinlock_init ctx_example =
     Some (\<lparr>sp_locked = True, sp_cpu = Some (cx_cpu ctx_example)\<rparr>, s1) \<and> \<not> r_intrd_enabled s1"
  using spinlock_section_balanced [OF ctx_example_ok, of spinlock_init]
  by (auto simp: spinlock_init_def)

end
