(* ===== verification/File.thy ===== *)
theory File
  imports SpinLock
begin

text \<open>
  Reference counts (\<^verbatim>\<open>kernel/sync/refcount.c\<close>) and files
  (\<^verbatim>\<open>fs/file.c\<close>). A \<^verbatim>\<open>File\<close> lives at an address; the state maps
  the addresses of the live files to their contents, and an access to any other address is
  \<open>None\<close>. The function pointers of \<^verbatim>\<open>FileOps\<close> are functions on the state
  \<open>'w\<close> of the devices behind the files; they see the fields of the file they are called with.
  The kernel heap is the argument \<open>kh\<close>, its state \<open>fs_heap\<close>.

  The compare-and-exchange loops of the reference count are one step here: a single processor's
  view of an update that the loop makes atomic.
\<close>

section \<open>Reference counts\<close>

type_synonym RefCount = u32

definition refcount_init :: RefCount where
  "refcount_init = 1"

definition refcount_get :: "RefCount \<Rightarrow> RefCount option" where
  "refcount_get old = do {
     ASSERT (old \<noteq> - 1);
     Some (old + 1)
   }"

text \<open>The last component says whether the cleanup function is called.\<close>

definition refcount_put :: "RefCount \<Rightarrow> RefCount \<times> errno_t \<times> bool" where
  "refcount_put old =
     (if old = 0 then (old, - ENOENT, False)
      else if old = 1 then (old - 1, EOK, True)
      else (old - 1, uint (old - 1), False))"

section \<open>Files\<close>

definition FILE_MODE_READ :: u32 where "FILE_MODE_READ = 1"
definition FILE_MODE_WRITE :: u32 where "FILE_MODE_WRITE = 2"
definition FILE_MODE_APPEND :: u32 where "FILE_MODE_APPEND = 4"
definition FILE_MODE_NONBLOCK :: u32 where "FILE_MODE_NONBLOCK = 8"

datatype LSeekWhence = SEEK_SET | SEEK_CUR | SEEK_END | SEEK_OTHER u8

record file_view =
  fv_mode :: u32
  fv_offset :: int
  fv_private_data :: u64

record 'w FileOps =
  fo_write :: "(file_view \<Rightarrow> u8 list \<Rightarrow> 'w \<Rightarrow> 'w \<times> int) option"
  fo_read :: "(file_view \<Rightarrow> usize \<Rightarrow> 'w \<Rightarrow> 'w \<times> u8 list \<times> int) option"
  fo_lseek :: "(file_view \<Rightarrow> int \<Rightarrow> LSeekWhence \<Rightarrow> 'w \<Rightarrow> 'w \<times> int) option"
  fo_ioctl :: "(file_view \<Rightarrow> u64 \<Rightarrow> u64 \<Rightarrow> 'w \<Rightarrow> 'w \<times> int) option"
  fo_close :: "(file_view \<Rightarrow> 'w \<Rightarrow> 'w \<times> errno_t) option"

record 'w File =
  f_ops :: "'w FileOps option"
  f_mode :: u32
  f_offset :: int
  f_rc :: RefCount
  f_private_data :: u64

record 'h heap_ops =
  ho_kalloc :: "'h \<Rightarrow> usize \<Rightarrow> ('h \<times> u64) option"
  ho_kfree :: "'h \<Rightarrow> u64 \<Rightarrow> 'h option"

record ('h, 'w) fs_state = cpu_ctx +
  fs_heap :: 'h
  fs_files :: "u64 \<Rightarrow> 'w File option"
  fs_world :: 'w

definition file_view_of :: "'w File \<Rightarrow> file_view" where
  "file_view_of f = \<lparr>fv_mode = f_mode f, fv_offset = f_offset f, fv_private_data = f_private_data f\<rparr>"

definition set_file :: "u64 \<Rightarrow> 'w File \<Rightarrow> ('h, 'w, 'a) fs_state_scheme \<Rightarrow> ('h, 'w, 'a) fs_state_scheme" where
  "set_file p f s = s\<lparr>fs_files := (fs_files s)(p \<mapsto> f)\<rparr>"

definition file_init :: "'w FileOps option \<Rightarrow> u32 \<Rightarrow> u64 \<Rightarrow> 'w File option" where
  "file_init ops file_mode private_data = do {
     ASSERT (ops \<noteq> None);
     Some \<lparr>f_ops = ops, f_mode = file_mode, f_offset = 0, f_rc = refcount_init,
           f_private_data = private_data\<rparr>
   }"

definition file_create ::
  "'h heap_ops \<Rightarrow> 'w FileOps option \<Rightarrow> u32 \<Rightarrow> u64 \<Rightarrow> ('h, 'w, 'a) fs_state_scheme \<Rightarrow>
   (('h, 'w, 'a) fs_state_scheme \<times> u64) option" where
  "file_create kh ops file_modes private_data s = do {
     (h, file) \<leftarrow> ho_kalloc kh (fs_heap s) 40;
     let s = s\<lparr>fs_heap := h\<rparr>;
     if IS_ERR file then Some (s, file)
     else do {
       f \<leftarrow> file_init ops file_modes private_data;
       Some (set_file file f s, file)
     }
   }"

definition file_release ::
  "'h heap_ops \<Rightarrow> u64 \<Rightarrow> ('h, 'w, 'a) fs_state_scheme \<Rightarrow> ('h, 'w, 'a) fs_state_scheme option" where
  "file_release kh p s = do {
     f \<leftarrow> fs_files s p;
     let w = (case Option.bind (f_ops f) fo_close of
         None \<Rightarrow> fs_world s
       | Some close \<Rightarrow> fst (close (file_view_of f) (fs_world s)));
     h \<leftarrow> ho_kfree kh (fs_heap s) p;
     Some (s\<lparr>fs_world := w, fs_heap := h, fs_files := (fs_files s)(p := None)\<rparr>)
   }"

definition file_put ::
  "'h heap_ops \<Rightarrow> u64 \<Rightarrow> ('h, 'w, 'a) fs_state_scheme \<Rightarrow> (('h, 'w, 'a) fs_state_scheme \<times> errno_t) option" where
  "file_put kh p s = do {
     f \<leftarrow> fs_files s p;
     let (rc, ret, cleanup) = refcount_put (f_rc f);
     let s = set_file p (f\<lparr>f_rc := rc\<rparr>) s;
     s \<leftarrow> (if cleanup then file_release kh p s else Some s);
     Some (s, ret)
   }"

definition file_get :: "u64 \<Rightarrow> ('h, 'w, 'a) fs_state_scheme \<Rightarrow> (('h, 'w, 'a) fs_state_scheme \<times> u64) option" where
  "file_get p s = do {
     f \<leftarrow> fs_files s p;
     rc \<leftarrow> refcount_get (f_rc f);
     Some (set_file p (f\<lparr>f_rc := rc\<rparr>) s, p)
   }"

definition file_mode_is_readable :: "'w File \<Rightarrow> bool" where
  "file_mode_is_readable f \<longleftrightarrow> f_mode f AND FILE_MODE_READ \<noteq> 0"

definition file_mode_is_writable :: "'w File \<Rightarrow> bool" where
  "file_mode_is_writable f \<longleftrightarrow> f_mode f AND FILE_MODE_WRITE \<noteq> 0"

definition file_mode_is_appending :: "'w File \<Rightarrow> bool" where
  "file_mode_is_appending f \<longleftrightarrow> f_mode f AND FILE_MODE_APPEND \<noteq> 0"

definition file_mode_is_nonblocking :: "'w File \<Rightarrow> bool" where
  "file_mode_is_nonblocking f \<longleftrightarrow> f_mode f AND FILE_MODE_NONBLOCK \<noteq> 0"

text \<open>
  \<^verbatim>\<open>file->offset += ret\<close>: past the largest \<^verbatim>\<open>i64\<close> the signed
  addition is undefined.
\<close>

definition offset_add :: "int \<Rightarrow> int \<Rightarrow> int option" where
  "offset_add off ret = (if off + ret < 2 ^ 63 then Some (off + ret) else None)"

definition file_read ::
  "u64 \<Rightarrow> usize \<Rightarrow> ('h, 'w, 'a) fs_state_scheme \<Rightarrow> (('h, 'w, 'a) fs_state_scheme \<times> u8 list \<times> int) option" where
  "file_read p count s = do {
     f \<leftarrow> fs_files s p;
     if \<not> file_mode_is_readable f then Some (s, [], - EBADF)
     else case Option.bind (f_ops f) fo_read of
       None \<Rightarrow> Some (s, [], - ENOSYS)
     | Some read \<Rightarrow> do {
         let (w, bytes, ret) = read (file_view_of f) count (fs_world s);
         let s = s\<lparr>fs_world := w\<rparr>;
         if ret > 0 then do {
           off \<leftarrow> offset_add (f_offset f) ret;
           Some (set_file p (f\<lparr>f_offset := off\<rparr>) s, bytes, ret)
         } else Some (s, bytes, ret)
       }
   }"

definition file_write ::
  "u64 \<Rightarrow> u8 list \<Rightarrow> ('h, 'w, 'a) fs_state_scheme \<Rightarrow> (('h, 'w, 'a) fs_state_scheme \<times> int) option" where
  "file_write p buf s = do {
     f \<leftarrow> fs_files s p;
     if \<not> file_mode_is_writable f then Some (s, - EBADF)
     else case Option.bind (f_ops f) fo_write of
       None \<Rightarrow> Some (s, - ENOSYS)
     | Some write \<Rightarrow> do {
         let (w, ret) = write (file_view_of f) buf (fs_world s);
         let s = s\<lparr>fs_world := w\<rparr>;
         if ret > 0 then do {
           off \<leftarrow> offset_add (f_offset f) ret;
           Some (set_file p (f\<lparr>f_offset := off\<rparr>) s, ret)
         } else Some (s, ret)
       }
   }"

definition file_lseek ::
  "u64 \<Rightarrow> int \<Rightarrow> LSeekWhence \<Rightarrow> ('h, 'w, 'a) fs_state_scheme \<Rightarrow> (('h, 'w, 'a) fs_state_scheme \<times> int) option" where
  "file_lseek p offset whence s =
     (case whence of
        SEEK_OTHER _ \<Rightarrow> Some (s, - EINVAL)
      | _ \<Rightarrow> do {
          f \<leftarrow> fs_files s p;
          case Option.bind (f_ops f) fo_lseek of
            None \<Rightarrow> Some (s, - ESPIPE)
          | Some lseek \<Rightarrow> do {
              let (w, ret) = lseek (file_view_of f) offset whence (fs_world s);
              let s = s\<lparr>fs_world := w\<rparr>;
              Some (if ret \<ge> 0 then set_file p (f\<lparr>f_offset := ret\<rparr>) s else s, ret)
            }
        })"

section \<open>Reference counting\<close>

lemma unat_u32_less [simp]: "unat (x :: u32) < 4294967296"
  using unsigned_less [of x] by simp

lemma refcount_get_unat: "refcount_get c = Some c' \<Longrightarrow> unat c' = unat c + 1"
proof -
  assume "refcount_get c = Some c'"
  then have "c \<noteq> - 1" "c' = c + 1" by (auto simp: refcount_get_def split: if_splits)
  moreover have "unat c + 1 < 2 ^ 32"
  proof (rule ccontr)
    assume "\<not> unat c + 1 < 2 ^ 32"
    then have "unat c = unat (- 1 :: u32)"
      using unat_u32_less [of c] by (simp add: unsigned_minus_1_eq_mask mask_eq_exp_minus_1 del: unat_u32_less)
    then show False using calculation by (simp add: word_unat_eq_iff)
  qed
  ultimately show ?thesis by (simp add: unat_word_ariths)
qed

lemma refcount_get_ok: "unat c < 2 ^ 32 - 1 \<Longrightarrow> \<exists>c'. refcount_get c = Some c'"
  by (auto simp: refcount_get_def unsigned_minus_1_eq_mask mask_eq_exp_minus_1)

text \<open>A reference count of \<open>n\<close> is given back by exactly \<open>n\<close> puts, of which the last cleans up.\<close>

lemma refcount_put_unat:
  "0 < unat c \<Longrightarrow> refcount_put c = (c - 1, int (unat c) - 1, unat c = 1)"
proof -
  assume c: "0 < unat c"
  then have "c \<noteq> 0" by auto
  moreover have "unat (c - 1) = unat c - 1" using c by (intro unat_minus_one) auto
  then have "uint (c - 1) = int (unat c) - 1" using c uint_nat [of "c - 1"] by linarith
  moreover have "c = 1 \<longleftrightarrow> unat c = 1" by (simp add: word_unat_eq_iff)
  ultimately show ?thesis by (auto simp: refcount_put_def)
qed

text \<open>
  \<open>file_refs s p\<close> is the number of references to the live file at \<open>p\<close>, 0 where no file
  lives. The operations change the number at one address by one, and a file dies exactly when its
  last reference is given back.
\<close>

definition file_refs :: "('h, 'w, 'a) fs_state_scheme \<Rightarrow> u64 \<Rightarrow> nat" where
  "file_refs s p = (case fs_files s p of None \<Rightarrow> 0 | Some f \<Rightarrow> unat (f_rc f))"

definition files_live :: "('h, 'w, 'a) fs_state_scheme \<Rightarrow> bool" where
  "files_live s \<longleftrightarrow> (\<forall>p f. fs_files s p = Some f \<longrightarrow> 0 < unat (f_rc f))"

definition kfree_total :: "'h heap_ops \<Rightarrow> bool" where
  "kfree_total kh \<longleftrightarrow> (\<forall>h p. ho_kfree kh h p \<noteq> None)"

definition fs_same :: "('h, 'w, 'a) fs_state_scheme \<Rightarrow> ('h, 'w, 'a) fs_state_scheme \<Rightarrow> bool" where
  "fs_same s s' \<longleftrightarrow> cpu_ctx.truncate s' = cpu_ctx.truncate s \<and> fs_state.more s' = fs_state.more s"

lemma file_get_ok:
  assumes "files_live s" "0 < file_refs s p" "file_refs s p < 2 ^ 32 - 1"
  shows "\<exists>s'. file_get p s = Some (s', p) \<and> fs_same s s' \<and> files_live s' \<and>
    file_refs s' = (file_refs s)(p := file_refs s p + 1) \<and> fs_world s' = fs_world s \<and> fs_heap s' = fs_heap s"
proof -
  obtain f where f: "fs_files s p = Some f" using assms(2) by (auto simp: file_refs_def split: option.splits)
  then obtain c where c: "refcount_get (f_rc f) = Some c" "unat c = unat (f_rc f) + 1"
    using refcount_get_ok [of "f_rc f"] refcount_get_unat assms(3) by (auto simp: file_refs_def)
  let ?s = "set_file p (f\<lparr>f_rc := c\<rparr>) s"
  have "file_get p s = Some (?s, p)" using f c by (simp add: file_get_def)
  moreover have "files_live ?s" using assms(1) c(2) by (simp add: files_live_def set_file_def)
  moreover have "file_refs ?s = (file_refs s)(p := file_refs s p + 1)"
    using f c(2) by (auto simp: file_refs_def set_file_def fun_eq_iff)
  ultimately show ?thesis by (simp add: fs_same_def set_file_def cpu_ctx.defs)
qed

lemma file_release_ok:
  assumes "kfree_total kh" "fs_files s p = Some f"
  shows "\<exists>s'. file_release kh p s = Some s' \<and> fs_files s' = (fs_files s)(p := None) \<and> fs_same s s'"
proof -
  obtain h where "ho_kfree kh (fs_heap s) p = Some h" using assms(1) by (auto simp: kfree_total_def)
  then show ?thesis using assms(2) by (simp add: file_release_def fs_same_def cpu_ctx.defs)
qed

lemma file_put_ok:
  assumes "kfree_total kh" "files_live s" "0 < file_refs s p"
  shows "\<exists>s'. file_put kh p s = Some (s', int (file_refs s p) - 1) \<and> fs_same s s' \<and> files_live s' \<and>
    file_refs s' = (file_refs s)(p := file_refs s p - 1) \<and>
    (fs_files s' p = None \<longleftrightarrow> file_refs s p = 1)"
proof -
  obtain f where f: "fs_files s p = Some f" using assms(3) by (auto simp: file_refs_def split: option.splits)
  have n: "file_refs s p = unat (f_rc f)" using f by (simp add: file_refs_def)
  have rp: "refcount_put (f_rc f) = (f_rc f - 1, int (unat (f_rc f)) - 1, unat (f_rc f) = 1)"
    using refcount_put_unat assms(3) n by simp
  have um: "unat (f_rc f - 1) = unat (f_rc f) - 1" using assms(3) n by (intro unat_minus_one) auto
  show ?thesis
  proof (cases "unat (f_rc f) = 1")
    case True
    let ?s = "set_file p (f\<lparr>f_rc := f_rc f - 1\<rparr>) s"
    obtain s' where s': "file_release kh p ?s = Some s'" "fs_files s' = (fs_files s)(p := None)" "fs_same s s'"
      using file_release_ok [OF assms(1), of ?s p] by (auto simp: set_file_def fs_same_def cpu_ctx.defs)
    moreover have "files_live s'" using s'(2) assms(2) by (auto simp: files_live_def split: if_splits)
    moreover have "file_refs s' = (file_refs s)(p := file_refs s p - 1)"
      using s'(2) True n by (auto simp: file_refs_def fun_eq_iff)
    ultimately show ?thesis using f rp True n by (auto simp: file_put_def)
  next
    case False
    let ?s = "set_file p (f\<lparr>f_rc := f_rc f - 1\<rparr>) s"
    have "file_put kh p s = Some (?s, int (file_refs s p) - 1)"
      using f rp False n by (simp add: file_put_def)
    moreover have "files_live ?s" using assms(2,3) False um n by (simp add: files_live_def set_file_def)
    moreover have "file_refs ?s = (file_refs s)(p := file_refs s p - 1)"
      using um n by (auto simp: file_refs_def set_file_def fun_eq_iff)
    moreover have "fs_files ?s p \<noteq> None" by (simp add: set_file_def)
    ultimately show ?thesis using False n by (auto simp: fs_same_def set_file_def cpu_ctx.defs)
  qed
qed

section \<open>Properties\<close>

definition heap_example :: "unit heap_ops" where
  "heap_example = \<lparr>ho_kalloc = (\<lambda>_ _. Some ((), 0x1000)), ho_kfree = (\<lambda>_ _. Some ())\<rparr>"

definition file_example :: "nat File" where
  "file_example = \<lparr>f_ops = Some \<lparr>fo_write = Some (\<lambda>_ buf w. (w + length buf, int (length buf))), fo_read = None,
     fo_lseek = None, fo_ioctl = None, fo_close = None\<rparr>, f_mode = FILE_MODE_WRITE, f_offset = 5, f_rc = 1,
     f_private_data = 0\<rparr>"

definition fs_example :: "(unit, nat) fs_state" where
  "fs_example = cpu_ctx.extend ctx_example
     \<lparr>fs_heap = (), fs_files = [0x1000 \<mapsto> file_example], fs_world = 0\<rparr>"

lemma fs_example_files [simp]: "fs_files fs_example = [0x1000 \<mapsto> file_example]"
  by (simp add: fs_example_def cpu_ctx.defs)

lemma fs_example_live: "files_live fs_example" "file_refs fs_example 0x1000 = 1" "cx_ok fs_example"
  by (simp_all add: files_live_def file_refs_def file_example_def fs_example_def cpu_ctx.defs cx_ok_def
      ctx_example_def)

lemma kfree_total_example: "kfree_total heap_example"
  by (simp add: kfree_total_def heap_example_def)

text \<open>
  A live file has a positive reference count. \<^verbatim>\<open>file_get\<close> adds one
  reference; \<^verbatim>\<open>file_put\<close> takes one away, returns the number left, and frees the
  file exactly when it took the last one, so that a get followed by a put changes no file's
  count.
\<close>

theorem file_reference_counting:
  assumes "kfree_total kh" "files_live s" "0 < file_refs s p" "file_refs s p < 2 ^ 32 - 1"
  shows "(\<exists>s1 s2. file_get p s = Some (s1, p) \<and> files_live s1 \<and>
      file_refs s1 = (file_refs s)(p := file_refs s p + 1) \<and>
      file_put kh p s1 = Some (s2, int (file_refs s p)) \<and> file_refs s2 = file_refs s) \<and>
    (\<exists>s'. file_put kh p s = Some (s', int (file_refs s p) - 1) \<and> files_live s' \<and>
      file_refs s' = (file_refs s)(p := file_refs s p - 1) \<and>
      (fs_files s' p = None \<longleftrightarrow> file_refs s p = 1))"
proof -
  obtain s1 where s1: "file_get p s = Some (s1, p)" "files_live s1"
    "file_refs s1 = (file_refs s)(p := file_refs s p + 1)" using file_get_ok [OF assms(2-4)] by blast
  then obtain s2 where "file_put kh p s1 = Some (s2, int (file_refs s p))" "file_refs s2 = file_refs s"
    using file_put_ok [OF assms(1) s1(2), of p] by auto
  with s1 show ?thesis using file_put_ok [OF assms(1-3)] by auto
qed

theorem file_reference_counting_witness:
  "\<exists>s'. file_put heap_example 0x1000 fs_example = Some (s', 0) \<and> fs_files s' 0x1000 = None"
  using file_reference_counting [OF kfree_total_example fs_example_live(1), of "0x1000"] fs_example_live(2)
  by auto

text \<open>
  Claim C20. The generic dispatch checks the mode first and the operation second: a file that
  is not writable gives \<^verbatim>\<open>-EBADF\<close>, one without a write operation
  \<^verbatim>\<open>-ENOSYS\<close>, both without any change; otherwise the operation's result is
  returned, and the offset advances by it exactly when it is positive.
\<close>

theorem file_write_dispatch:
  assumes "fs_files s p = Some f" "f_offset f < 2 ^ 62"
    "\<forall>wr w. Option.bind (f_ops f) fo_write = Some wr \<longrightarrow> snd (wr (file_view_of f) buf w) \<le> 2 ^ 62"
  shows "\<exists>s' ret. file_write p buf s = Some (s', ret) \<and>
    (if \<not> file_mode_is_writable f then s' = s \<and> ret = - EBADF
     else case Option.bind (f_ops f) fo_write of
        None \<Rightarrow> s' = s \<and> ret = - ENOSYS
      | Some wr \<Rightarrow> (fs_world s', ret) = wr (file_view_of f) buf (fs_world s) \<and>
          fs_files s' = (fs_files s)(p \<mapsto> f\<lparr>f_offset := (if ret > 0 then f_offset f + ret else f_offset f)\<rparr>))"
proof (cases "file_mode_is_writable f")
  case False
  then show ?thesis using assms(1) by (simp add: file_write_def)
next
  case True
  show ?thesis
  proof (cases "Option.bind (f_ops f) fo_write")
    case None
    then show ?thesis using assms(1) True by (simp add: file_write_def)
  next
    case (Some wr)
    obtain w ret where w: "wr (file_view_of f) buf (fs_world s) = (w, ret)" by fastforce
    have "ret \<le> 2 ^ 62" using assms(3) Some w by (metis snd_conv)
    then have "offset_add (f_offset f) ret = Some (f_offset f + ret)"
      using assms(2) by (simp add: offset_add_def)
    moreover have "fs_files s = (fs_files s)(p \<mapsto> f\<lparr>f_offset := f_offset f\<rparr>)"
      using assms(1) by (simp add: fun_upd_idem)
    ultimately show ?thesis
      using assms(1) True Some w by (auto simp: file_write_def set_file_def)
  qed
qed

theorem file_write_dispatch_witness:
  "\<exists>s'. file_write 0x1000 [1, 2, 3] fs_example = Some (s', 3) \<and> fs_world s' = 3"
proof -
  have "file_mode_is_writable file_example" "f_offset file_example < 2 ^ 62"
    "Option.bind (f_ops file_example) fo_write = Some (\<lambda>_ buf w. (w + length buf, int (length buf)))"
    by (simp_all add: file_mode_is_writable_def file_example_def FILE_MODE_WRITE_def)
  moreover have "fs_world fs_example = 0" by (simp add: fs_example_def cpu_ctx.defs)
  ultimately show ?thesis
    using file_write_dispatch [of fs_example "0x1000" file_example "[1, 2, 3]"] by force
qed

end
