(* ===== verification/FDTable.thy ===== *)
theory FDTable
  imports File
begin

text \<open>
  The table of open files of a process (\<^verbatim>\<open>kernel/core/fd_table.c\<close>). The three
  arrays are lists of length 64; every operation takes the table's lock, and the file operations
  that may call into a driver run outside of it, as in the code. An operation maps the table
  \<open>t\<close> and the file layer's state \<open>s\<close> to their new values and its results.

  The invariant relates reference counts to the tables: the count of a file is the number of slots
  that hold it plus the references held elsewhere.
\<close>

section \<open>State\<close>

type_synonym ('h, 'w, 'a) fss = "('h, 'w, 'a) fs_state_scheme"

abbreviation MAX_FILES_PER_FD :: nat where "MAX_FILES_PER_FD \<equiv> 64"

datatype FileDescriptorState =
  FILE_DESCRIPTOR_FREE | FILE_DESCRIPTOR_RESERVED | FILE_DESCRIPTOR_INSTALLED

record FDTable =
  fdt_lock :: SpinLock
  fdt_files :: "u64 list"
  fdt_state :: "FileDescriptorState list"
  fdt_close_on_exec :: "bool list"

definition is_fd_state_equal :: "FDTable \<Rightarrow> usize \<Rightarrow> FileDescriptorState \<Rightarrow> bool" where
  "is_fd_state_equal t fd st \<longleftrightarrow> fdt_state t ! unat fd = st"

definition is_fd_free :: "FDTable \<Rightarrow> usize \<Rightarrow> bool" where
  "is_fd_free t fd = is_fd_state_equal t fd FILE_DESCRIPTOR_FREE"

definition is_fd_reserved :: "FDTable \<Rightarrow> usize \<Rightarrow> bool" where
  "is_fd_reserved t fd = is_fd_state_equal t fd FILE_DESCRIPTOR_RESERVED"

definition is_fd_installed :: "FDTable \<Rightarrow> usize \<Rightarrow> bool" where
  "is_fd_installed t fd = is_fd_state_equal t fd FILE_DESCRIPTOR_INSTALLED"

definition fd_in_range :: "usize \<Rightarrow> bool" where
  "fd_in_range fd \<longleftrightarrow> unat fd < MAX_FILES_PER_FD"

definition set_slot :: "usize \<Rightarrow> u64 \<Rightarrow> FileDescriptorState \<Rightarrow> FDTable \<Rightarrow> FDTable" where
  "set_slot fd p st t = t\<lparr>fdt_files := (fdt_files t)[unat fd := p],
     fdt_state := (fdt_state t)[unat fd := st]\<rparr>"

definition set_cloexec :: "usize \<Rightarrow> bool \<Rightarrow> FDTable \<Rightarrow> FDTable" where
  "set_cloexec fd b t = t\<lparr>fdt_close_on_exec := (fdt_close_on_exec t)[unat fd := b]\<rparr>"

text \<open>The table's lock, and \<^verbatim>\<open>spinlock_acquire_scoped\<close> around a body.\<close>

definition fdt_acquire :: "FDTable \<Rightarrow> ('h, 'w, 'a) fss \<Rightarrow> (FDTable \<times> ('h, 'w, 'a) fss) option" where
  "fdt_acquire t s = do { (l, s) \<leftarrow> spinlock_acquire (fdt_lock t) s; Some (t\<lparr>fdt_lock := l\<rparr>, s) }"

definition fdt_release :: "FDTable \<Rightarrow> ('h, 'w, 'a) fss \<Rightarrow> (FDTable \<times> ('h, 'w, 'a) fss) option" where
  "fdt_release t s = do { (l, s) \<leftarrow> spinlock_release (fdt_lock t) s; Some (t\<lparr>fdt_lock := l\<rparr>, s) }"

definition fdt_scoped ::
  "(FDTable \<Rightarrow> ('h, 'w, 'a) fss \<Rightarrow> (FDTable \<times> ('h, 'w, 'a) fss \<times> 'r) option) \<Rightarrow> FDTable \<Rightarrow>
   ('h, 'w, 'a) fss \<Rightarrow> (FDTable \<times> ('h, 'w, 'a) fss \<times> 'r) option" where
  "fdt_scoped body t s = do {
     (t, s) \<leftarrow> fdt_acquire t s;
     (t, s, r) \<leftarrow> body t s;
     (t, s) \<leftarrow> fdt_release t s;
     Some (t, s, r)
   }"

section \<open>Operations\<close>

definition fdtable_init :: FDTable where
  "fdtable_init = \<lparr>fdt_lock = spinlock_init, fdt_files = replicate MAX_FILES_PER_FD 0,
     fdt_state = replicate MAX_FILES_PER_FD FILE_DESCRIPTOR_FREE,
     fdt_close_on_exec = replicate MAX_FILES_PER_FD False\<rparr>"

definition fdtable_create :: "'h heap_ops \<Rightarrow> ('h, 'w, 'a) fss \<Rightarrow> (('h, 'w, 'a) fss \<times> u64 \<times> FDTable option) option" where
  "fdtable_create kh s = do {
     (h, table) \<leftarrow> ho_kalloc kh (fs_heap s) 664;
     let s = s\<lparr>fs_heap := h\<rparr>;
     if IS_ERR table then Some (s, ERR_TO_PTR (- ENOMEM), None)
     else Some (s, table, Some fdtable_init)
   }"

definition fdtable_destroy ::
  "'h heap_ops \<Rightarrow> u64 \<Rightarrow> FDTable \<Rightarrow> ('h, 'w, 'a) fss \<Rightarrow> (('h, 'w, 'a) fss \<times> errno_t) option" where
  "fdtable_destroy kh table t s = do {
     (t, s) \<leftarrow> fdt_acquire t s;
     ASSERT (\<forall>c < MAX_FILES_PER_FD. fdt_state t ! c = FILE_DESCRIPTOR_FREE);
     (t, s) \<leftarrow> fdt_release t s;
     h \<leftarrow> ho_kfree kh (fs_heap s) table;
     Some (s\<lparr>fs_heap := h\<rparr>, EOK)
   }"

text \<open>
  The loop under the lock collects the installed files in \<open>to_put\<close> and empties every slot.
\<close>

definition fdt_installed_files :: "FDTable \<Rightarrow> u64 list" where
  "fdt_installed_files t = map (\<lambda>fd. fdt_files t ! fd)
     (filter (\<lambda>fd. fdt_state t ! fd = FILE_DESCRIPTOR_INSTALLED) [0..<MAX_FILES_PER_FD])"

definition fdt_emptied :: "FDTable \<Rightarrow> FDTable" where
  "fdt_emptied t = t\<lparr>fdt_files := replicate MAX_FILES_PER_FD 0,
     fdt_state := replicate MAX_FILES_PER_FD FILE_DESCRIPTOR_FREE,
     fdt_close_on_exec := replicate MAX_FILES_PER_FD False\<rparr>"

definition put_all :: "'h heap_ops \<Rightarrow> u64 list \<Rightarrow> ('h, 'w, 'a) fss \<Rightarrow> ('h, 'w, 'a) fss option" where
  "put_all kh ps s = foldM (\<lambda>p s. map_option fst (file_put kh p s)) ps s"

definition fdtable_close_all ::
  "'h heap_ops \<Rightarrow> FDTable \<Rightarrow> ('h, 'w, 'a) fss \<Rightarrow> (FDTable \<times> ('h, 'w, 'a) fss \<times> errno_t) option" where
  "fdtable_close_all kh t s = do {
     (t, s) \<leftarrow> fdt_acquire t s;
     let to_put = fdt_installed_files t;
     let t = fdt_emptied t;
     (t, s) \<leftarrow> fdt_release t s;
     s \<leftarrow> put_all kh to_put s;
     Some (t, s, EOK)
   }"

text \<open>
  \<^verbatim>\<open>fdtable_create_from\<close>: the copying loop visits the slots in order and takes a
  reference for each installed file.
\<close>

definition get_all :: "u64 list \<Rightarrow> ('h, 'w, 'a) fss \<Rightarrow> ('h, 'w, 'a) fss option" where
  "get_all ps s = foldM (\<lambda>p s. map_option fst (file_get p s)) ps s"

definition fdtable_create_from ::
  "'h heap_ops \<Rightarrow> FDTable \<Rightarrow> ('h, 'w, 'a) fss \<Rightarrow>
   (FDTable \<times> ('h, 'w, 'a) fss \<times> u64 \<times> FDTable option) option" where
  "fdtable_create_from kh src s = do {
     (s, dst, t) \<leftarrow> fdtable_create kh s;
     case t of
       None \<Rightarrow> Some (src, s, dst, None)
     | Some t \<Rightarrow> do {
         (src, s) \<leftarrow> fdt_acquire src s;
         s \<leftarrow> get_all (fdt_installed_files src) s;
         let t = t\<lparr>fdt_files := fdt_files src, fdt_state := fdt_state src,
                   fdt_close_on_exec := fdt_close_on_exec src\<rparr>;
         (src, s) \<leftarrow> fdt_release src s;
         Some (src, s, dst, Some t)
       }
   }"

definition fdt_find_free :: "FDTable \<Rightarrow> usize \<Rightarrow> usize option" where
  "fdt_find_free t min_fd = find (is_fd_free t) (u64_range min_fd (of_nat MAX_FILES_PER_FD))"

definition fdtable_reserve ::
  "FDTable \<Rightarrow> usize \<Rightarrow> usize \<Rightarrow> ('h, 'w, 'a) fss \<Rightarrow> (FDTable \<times> ('h, 'w, 'a) fss \<times> errno_t \<times> usize) option" where
  "fdtable_reserve t min_fd out_fd s = fdt_scoped (\<lambda>t s.
     if \<not> fd_in_range min_fd then Some (t, s, - EINVAL, out_fd)
     else case fdt_find_free t min_fd of
       Some fd \<Rightarrow> Some (set_slot fd 0 FILE_DESCRIPTOR_RESERVED t, s, EOK, fd)
     | None \<Rightarrow> Some (t, s, - EMFILE, out_fd)) t s"

definition fdtable_install_at ::
  "FDTable \<Rightarrow> u64 \<Rightarrow> usize \<Rightarrow> ('h, 'w, 'a) fss \<Rightarrow> (FDTable \<times> ('h, 'w, 'a) fss \<times> errno_t) option" where
  "fdtable_install_at t file fd s = fdt_scoped (\<lambda>t s.
     if \<not> fd_in_range fd then Some (t, s, - EINVAL)
     else if \<not> is_fd_reserved t fd then Some (t, s, - EBADF)
     else Some (set_slot fd file FILE_DESCRIPTOR_INSTALLED t, s, EOK)) t s"

definition fdtable_add ::
  "FDTable \<Rightarrow> u64 \<Rightarrow> usize \<Rightarrow> ('h, 'w, 'a) fss \<Rightarrow> (FDTable \<times> ('h, 'w, 'a) fss \<times> errno_t \<times> usize) option" where
  "fdtable_add t file out_fd s = do {
     (t, s, err, out_fd) \<leftarrow> fdtable_reserve t 0 out_fd s;
     if err \<noteq> EOK then Some (t, s, err, out_fd)
     else do {
       (t, s, err) \<leftarrow> fdtable_install_at t file out_fd s;
       Some (t, s, err, out_fd)
     }
   }"

definition fdtable_get_file ::
  "FDTable \<Rightarrow> usize \<Rightarrow> ('h, 'w, 'a) fss \<Rightarrow> (FDTable \<times> ('h, 'w, 'a) fss \<times> u64) option" where
  "fdtable_get_file t fd s = fdt_scoped (\<lambda>t s.
     if \<not> fd_in_range fd \<or> \<not> is_fd_installed t fd then Some (t, s, ERR_TO_PTR (- EBADF))
     else do { (s, p) \<leftarrow> file_get (fdt_files t ! unat fd) s; Some (t, s, p) }) t s"

definition fdtable_close_file ::
  "'h heap_ops \<Rightarrow> FDTable \<Rightarrow> usize \<Rightarrow> ('h, 'w, 'a) fss \<Rightarrow> (FDTable \<times> ('h, 'w, 'a) fss \<times> errno_t) option" where
  "fdtable_close_file kh t fd s = do {
     (t, s) \<leftarrow> fdt_acquire t s;
     if \<not> fd_in_range fd \<or> \<not> is_fd_installed t fd then do {
       (t, s) \<leftarrow> fdt_release t s;
       Some (t, s, - EBADF)
     } else do {
       let file = fdt_files t ! unat fd;
       let t = set_cloexec fd False (set_slot fd 0 FILE_DESCRIPTOR_FREE t);
       (t, s) \<leftarrow> fdt_release t s;
       (s, _) \<leftarrow> file_put kh file s;
       Some (t, s, EOK)
     }
   }"

definition fdtable_set_close_on_exec_impl :: "FDTable \<Rightarrow> usize \<Rightarrow> bool \<Rightarrow> FDTable \<times> errno_t" where
  "fdtable_set_close_on_exec_impl t fd b =
     (if \<not> fd_in_range fd \<or> \<not> is_fd_installed t fd then (t, - EBADF) else (set_cloexec fd b t, EOK))"

definition fdtable_set_close_on_exec ::
  "FDTable \<Rightarrow> usize \<Rightarrow> bool \<Rightarrow> ('h, 'w, 'a) fss \<Rightarrow> (FDTable \<times> ('h, 'w, 'a) fss \<times> errno_t) option" where
  "fdtable_set_close_on_exec t fd b s = fdt_scoped (\<lambda>t s.
     let (t, err) = fdtable_set_close_on_exec_impl t fd b in Some (t, s, err)) t s"

definition fdtable_dup ::
  "FDTable \<Rightarrow> usize \<Rightarrow> usize \<Rightarrow> ('h, 'w, 'a) fss \<Rightarrow> (FDTable \<times> ('h, 'w, 'a) fss \<times> errno_t \<times> usize) option" where
  "fdtable_dup t src_fd out_fd s = fdt_scoped (\<lambda>t s.
     if \<not> fd_in_range src_fd \<or> \<not> is_fd_installed t src_fd then Some (t, s, - EBADF, out_fd)
     else case fdt_find_free t 0 of
       None \<Rightarrow> Some (t, s, - EMFILE, out_fd)
     | Some dst_fd \<Rightarrow> do {
         (s, p) \<leftarrow> file_get (fdt_files t ! unat src_fd) s;
         Some (set_cloexec dst_fd False (set_slot dst_fd p FILE_DESCRIPTOR_INSTALLED t), s, EOK, dst_fd)
       }) t s"

definition fdtable_dup_at ::
  "'h heap_ops \<Rightarrow> FDTable \<Rightarrow> usize \<Rightarrow> usize \<Rightarrow> bool \<Rightarrow> ('h, 'w, 'a) fss \<Rightarrow>
   (FDTable \<times> ('h, 'w, 'a) fss \<times> errno_t) option" where
  "fdtable_dup_at kh t src_fd dst_fd close_on_exec s = do {
     (t, s) \<leftarrow> fdt_acquire t s;
     if \<not> fd_in_range src_fd \<or> \<not> is_fd_installed t src_fd then do {
       (t, s) \<leftarrow> fdt_release t s;
       Some (t, s, - EBADF)
     } else if src_fd = dst_fd then do {
       let (t, err) = fdtable_set_close_on_exec_impl t src_fd close_on_exec;
       (t, s) \<leftarrow> fdt_release t s;
       Some (t, s, err)
     } else if \<not> fd_in_range dst_fd then do {
       (t, s) \<leftarrow> fdt_release t s;
       Some (t, s, - EBADF)
     } else do {
       let src = fdt_files t ! unat src_fd;
       let (t, old) = (if is_fd_installed t dst_fd
         then (set_cloexec dst_fd False (set_slot dst_fd 0 FILE_DESCRIPTOR_FREE t), fdt_files t ! unat dst_fd)
         else (t, 0));
       (s, p) \<leftarrow> file_get src s;
       let t = set_cloexec dst_fd close_on_exec (set_slot dst_fd p FILE_DESCRIPTOR_INSTALLED t);
       (t, s) \<leftarrow> fdt_release t s;
       s \<leftarrow> (if old \<noteq> 0 then map_option fst (file_put kh old s) else Some s);
       Some (t, s, EOK)
     }
   }"

text \<open>
  The operations of the standard files, on the console: \<open>con_write\<close> writes bytes,
  \<open>con_read\<close> takes one byte if there is one.
\<close>

primrec std_read_loop :: "('w \<Rightarrow> 'w \<times> u8 option) \<Rightarrow> nat \<Rightarrow> 'w \<Rightarrow> 'w \<times> u8 list" where
  "std_read_loop con_read 0 w = (w, [])"
| "std_read_loop con_read (Suc n) w =
     (case con_read w of
        (w, None) \<Rightarrow> (w, [])
      | (w, Some out) \<Rightarrow> (let (w, bs) = std_read_loop con_read n w in (w, out # bs)))"

definition std_read_op :: "('w \<Rightarrow> 'w \<times> u8 option) \<Rightarrow> file_view \<Rightarrow> usize \<Rightarrow> 'w \<Rightarrow> 'w \<times> u8 list \<times> int" where
  "std_read_op con_read file buf_count w =
     (let (w, bs) = std_read_loop con_read (unat buf_count) w in (w, bs, int (length bs)))"

definition std_write_op :: "(u8 list \<Rightarrow> 'w \<Rightarrow> 'w) \<Rightarrow> file_view \<Rightarrow> u8 list \<Rightarrow> 'w \<Rightarrow> 'w \<times> int" where
  "std_write_op con_write file buf w = (con_write buf w, int (length buf))"

definition stdwrite_ops :: "(u8 list \<Rightarrow> 'w \<Rightarrow> 'w) \<Rightarrow> 'w FileOps" where
  "stdwrite_ops con_write = \<lparr>fo_write = Some (std_write_op con_write), fo_read = None, fo_lseek = None,
     fo_ioctl = None, fo_close = None\<rparr>"

definition stdread_ops :: "('w \<Rightarrow> 'w \<times> u8 option) \<Rightarrow> 'w FileOps" where
  "stdread_ops con_read = \<lparr>fo_write = None, fo_read = Some (std_read_op con_read), fo_lseek = None,
     fo_ioctl = None, fo_close = None\<rparr>"

text \<open>One standard file: reserve the slot, create the file, install it.\<close>

definition attach_std ::
  "'h heap_ops \<Rightarrow> 'w FileOps \<Rightarrow> u32 \<Rightarrow> usize \<Rightarrow> FDTable \<Rightarrow> ('h, 'w, 'a) fss \<Rightarrow>
   (FDTable \<times> ('h, 'w, 'a) fss \<times> errno_t \<times> bool) option" where
  "attach_std kh ops mode std_fd t s = do {
     (t, s, ret, fd) \<leftarrow> fdtable_reserve t std_fd std_fd s;
     if ret \<noteq> EOK \<or> fd \<noteq> std_fd then Some (t, s, ret, True)
     else do {
       (s, file) \<leftarrow> file_create kh (Some ops) mode 0 s;
       (t, s, ret) \<leftarrow> fdtable_install_at t file fd s;
       Some (t, s, ret, ret \<noteq> EOK)
     }
   }"

definition fdtable_attach_std_files ::
  "'h heap_ops \<Rightarrow> ('w \<Rightarrow> 'w \<times> u8 option) \<Rightarrow> (u8 list \<Rightarrow> 'w \<Rightarrow> 'w) \<Rightarrow> FDTable \<Rightarrow> ('h, 'w, 'a) fss \<Rightarrow>
   (FDTable \<times> ('h, 'w, 'a) fss \<times> errno_t) option" where
  "fdtable_attach_std_files kh con_read con_write t s = do {
     (t, s, ret, stop) \<leftarrow> attach_std kh (stdread_ops con_read) FILE_MODE_READ 0 t s;
     if stop then Some (t, s, ret)
     else do {
       (t, s, ret, stop) \<leftarrow> attach_std kh (stdwrite_ops con_write) FILE_MODE_WRITE 1 t s;
       if stop then Some (t, s, ret)
       else do {
         (t, s, ret, stop) \<leftarrow> attach_std kh (stdwrite_ops con_write) FILE_MODE_WRITE 2 t s;
         if stop then Some (t, s, ret) else Some (t, s, EOK)
       }
     }
   }"

section \<open>The invariant\<close>

definition fd_arrays :: "FDTable \<Rightarrow> bool" where
  "fd_arrays t \<longleftrightarrow> length (fdt_files t) = MAX_FILES_PER_FD \<and> length (fdt_state t) = MAX_FILES_PER_FD \<and>
     length (fdt_close_on_exec t) = MAX_FILES_PER_FD"

definition fd_wf :: "FDTable \<Rightarrow> bool" where
  "fd_wf t \<longleftrightarrow> fd_arrays t \<and> \<not> sp_locked (fdt_lock t)"

definition fd_slots :: "FDTable \<Rightarrow> u64 \<Rightarrow> nat set" where
  "fd_slots t p = {fd. fd < MAX_FILES_PER_FD \<and> fdt_state t ! fd = FILE_DESCRIPTOR_INSTALLED \<and> fdt_files t ! fd = p}"

text \<open>
  \<open>fd_inv ext t s\<close>: the table is not locked, and every file has as many references as the
  table has slots for it plus \<open>ext\<close> references elsewhere (another table, a system call in
  progress). No file is at the null address.
\<close>

definition fd_inv :: "(u64 \<Rightarrow> nat) \<Rightarrow> FDTable \<Rightarrow> ('h, 'w, 'a) fss \<Rightarrow> bool" where
  "fd_inv ext t s \<longleftrightarrow> cx_ok s \<and> fd_wf t \<and> files_live s \<and> file_refs s 0 = 0 \<and>
     (\<forall>p. file_refs s p = card (fd_slots t p) + ext p)"

definition refs_bounded :: "('h, 'w, 'a) fss \<Rightarrow> bool" where
  "refs_bounded s \<longleftrightarrow> (\<forall>p. file_refs s p < 2 ^ 32 - 1 - MAX_FILES_PER_FD)"

lemma fd_slots_lock [simp]: "fd_slots (t\<lparr>fdt_lock := l\<rparr>) = fd_slots t"
  by (simp add: fd_slots_def fun_eq_iff)

lemma fd_slots_cloexec [simp]: "fd_slots (set_cloexec fd b t) = fd_slots t"
  by (simp add: fd_slots_def set_cloexec_def fun_eq_iff)

lemma finite_fd_slots [simp]: "finite (fd_slots t p)"
  by (simp add: fd_slots_def)

lemma fd_slots_set:
  assumes "fd_arrays t" "fd_in_range fd"
  shows "fd_slots (set_slot fd p st t) q =
    (fd_slots t q - {unat fd}) \<union> (if st = FILE_DESCRIPTOR_INSTALLED \<and> q = p then {unat fd} else {})"
  using assms by (auto simp: fd_slots_def set_slot_def fd_arrays_def fd_in_range_def nth_list_update split: if_splits)

lemma set_slot_lock [simp]:
  "set_slot fd p st (t\<lparr>fdt_lock := l\<rparr>) = (set_slot fd p st t)\<lparr>fdt_lock := l\<rparr>"
  "set_cloexec fd b (t\<lparr>fdt_lock := l\<rparr>) = (set_cloexec fd b t)\<lparr>fdt_lock := l\<rparr>"
  "is_fd_installed (t\<lparr>fdt_lock := l\<rparr>) fd = is_fd_installed t fd"
  "is_fd_free (t\<lparr>fdt_lock := l\<rparr>) fd = is_fd_free t fd"
  "is_fd_reserved (t\<lparr>fdt_lock := l\<rparr>) fd = is_fd_reserved t fd"
  "fdt_find_free (t\<lparr>fdt_lock := l\<rparr>) fd = fdt_find_free t fd"
  "fdt_lock (set_slot fd p st t) = fdt_lock t" "fdt_lock (set_cloexec fd b t) = fdt_lock t"
  by (simp_all add: set_slot_def set_cloexec_def is_fd_installed_def is_fd_free_def is_fd_reserved_def
      is_fd_state_equal_def fdt_find_free_def cong: find_cong)

lemma fd_arrays_updates [simp]:
  "fd_arrays (set_slot fd p st t) = fd_arrays t" "fd_arrays (set_cloexec fd b t) = fd_arrays t"
  "fd_arrays (t\<lparr>fdt_lock := l\<rparr>) = fd_arrays t"
  by (simp_all add: fd_arrays_def set_slot_def set_cloexec_def)

lemma fss_more:
  assumes "cpu_ctx.more s' = cpu_ctx.more (s :: ('h, 'w, 'a) fss)"
  shows "fs_files s' = fs_files s" "fs_heap s' = fs_heap s" "fs_world s' = fs_world s"
    "file_refs s' = file_refs s" "files_live s' = files_live s" "fs_state.more s' = fs_state.more s"
proof -
  show "fs_state.more s' = fs_state.more s" using assms by (cases s, cases s', simp)
  show f: "fs_files s' = fs_files s" "fs_heap s' = fs_heap s" "fs_world s' = fs_world s"
    using assms by (cases s, cases s', simp)+
  show "file_refs s' = file_refs s" "files_live s' = files_live s"
    by (simp_all add: file_refs_def fun_eq_iff files_live_def f)
qed

lemma fs_same_pushed: "fs_same s s' \<Longrightarrow> cx_pushed s0 s \<Longrightarrow> cx_pushed s0 s'"
  by (simp add: fs_same_def cx_pushed_def cpu_ctx.defs)

lemma fs_same_cx: "fs_same s s' \<Longrightarrow> cx_same s0 s \<Longrightarrow> cx_same s0 s'"
  by (simp add: fs_same_def cx_same_def cpu_ctx.defs)

section \<open>Critical sections of the table\<close>

abbreviation held :: "('h, 'w, 'a) fss \<Rightarrow> SpinLock" where
  "held s \<equiv> \<lparr>sp_locked = True, sp_cpu = Some (cx_cpu s)\<rparr>"

lemma fdt_acquire_ok:
  assumes "cx_ok s" "fd_wf t"
  shows "\<exists>s1. fdt_acquire t s = Some (t\<lparr>fdt_lock := held s\<rparr>, s1) \<and> cx_pushed s s1 \<and>
    cpu_ctx.more s1 = cpu_ctx.more s"
  using spinlock_acquire_ok [OF assms(1), of "fdt_lock t"] assms(2)
  by (auto simp: fdt_acquire_def fd_wf_def)

lemma fdt_release_ok:
  assumes "cx_ok s" "cx_pushed s s2"
  shows "\<exists>s3. fdt_release (t\<lparr>fdt_lock := held s\<rparr>) s2 = Some (t\<lparr>fdt_lock := spinlock_init\<rparr>, s3) \<and>
    cx_same s s3 \<and> cpu_ctx.more s3 = cpu_ctx.more s2"
  using spinlock_release_ok [OF assms refl] by (auto simp: fdt_release_def)

text \<open>
  A scoped body that keeps the lock and the interrupt state: its effect \<open>Q\<close> on the table and
  the files is the effect of the whole operation, which leaves the lock free and the interrupts as
  they were.
\<close>

lemma fdt_scoped_ok:
  assumes "cx_ok s" "fd_wf t"
    and body: "\<And>s1. cx_pushed s s1 \<Longrightarrow> cpu_ctx.more s1 = cpu_ctx.more s \<Longrightarrow>
      \<exists>t' s2. body (t\<lparr>fdt_lock := held s\<rparr>) s1 = Some (t'\<lparr>fdt_lock := held s\<rparr>, s2, r) \<and>
        fs_same s1 s2 \<and> Q t' s2"
  shows "\<exists>t' s2 s'. fdt_scoped body t s = Some (t'\<lparr>fdt_lock := spinlock_init\<rparr>, s', r) \<and> cx_same s s' \<and>
    Q t' s2 \<and> cpu_ctx.more s' = cpu_ctx.more s2"
proof -
  obtain s1 where s1: "fdt_acquire t s = Some (t\<lparr>fdt_lock := held s\<rparr>, s1)" "cx_pushed s s1"
    "cpu_ctx.more s1 = cpu_ctx.more s" using fdt_acquire_ok [OF assms(1,2)] by blast
  obtain t' s2 where b: "body (t\<lparr>fdt_lock := held s\<rparr>) s1 = Some (t'\<lparr>fdt_lock := held s\<rparr>, s2, r)"
    "fs_same s1 s2" "Q t' s2" using body [OF s1(2,3)] by blast
  obtain s3 where "fdt_release (t'\<lparr>fdt_lock := held s\<rparr>) s2 = Some (t'\<lparr>fdt_lock := spinlock_init\<rparr>, s3)"
    "cx_same s s3" "cpu_ctx.more s3 = cpu_ctx.more s2"
    using fdt_release_ok [OF assms(1) fs_same_pushed [OF b(2) s1(2)], of t'] by blast
  with s1 b show ?thesis by (auto simp: fdt_scoped_def)
qed

text \<open>The common case of a body that leaves the files alone.\<close>

lemma fdt_scoped_pure:
  assumes "cx_ok s" "fd_wf t" "\<And>s1. body (t\<lparr>fdt_lock := held s\<rparr>) s1 = Some (t'\<lparr>fdt_lock := held s\<rparr>, s1, r)"
  shows "\<exists>s'. fdt_scoped body t s = Some (t'\<lparr>fdt_lock := spinlock_init\<rparr>, s', r) \<and> cx_same s s' \<and>
    cpu_ctx.more s' = cpu_ctx.more s"
proof -
  have "\<exists>t1 s2 s'. fdt_scoped body t s = Some (t1\<lparr>fdt_lock := spinlock_init\<rparr>, s', r) \<and> cx_same s s' \<and>
      (t1 = t' \<and> cpu_ctx.more s2 = cpu_ctx.more s) \<and> cpu_ctx.more s' = cpu_ctx.more s2"
    by (rule fdt_scoped_ok [OF assms(1,2)]) (use assms(3) in \<open>auto simp: fs_same_def\<close>)
  then show ?thesis by auto
qed

lemma fs_same_refl [simp]: "fs_same s s"
  by (simp add: fs_same_def)

lemma fd_inv_simps:
  assumes "fd_inv ext t s"
  shows "cx_ok s" "fd_wf t" "fd_arrays t" "files_live s" "file_refs s p = card (fd_slots t p) + ext p"
    "file_refs s 0 = 0"
  using assms by (auto simp: fd_inv_def fd_wf_def)

lemma fd_invI:
  assumes "cx_ok s" "cx_same s s'" "fd_arrays t" "files_live s'" "file_refs s' 0 = 0"
    "\<And>p. file_refs s' p = card (fd_slots t p) + ext p"
  shows "fd_inv ext (t\<lparr>fdt_lock := spinlock_init\<rparr>) s'"
  using assms cx_same_ok by (auto simp: fd_inv_def fd_wf_def spinlock_init_def)

lemma fd_installed_slot:
  "fd_in_range fd \<Longrightarrow> is_fd_installed t fd \<Longrightarrow> unat fd \<in> fd_slots t (fdt_files t ! unat fd)"
  by (simp add: fd_slots_def fd_in_range_def is_fd_installed_def is_fd_state_equal_def)

lemma fd_installed_card:
  "fd_in_range fd \<Longrightarrow> is_fd_installed t fd \<Longrightarrow> \<exists>k. card (fd_slots t (fdt_files t ! unat fd)) = Suc k"
  using fd_installed_slot [of fd t] by (metis card_gt_0_iff empty_iff finite_fd_slots gr0_implies_Suc)

lemma fd_not_installed_slot: "\<not> is_fd_installed t fd \<Longrightarrow> unat fd \<notin> fd_slots t p"
  by (simp add: fd_slots_def is_fd_installed_def is_fd_state_equal_def)

lemma fd_installed_refs:
  assumes "fd_inv ext t s" "fd_in_range fd" "is_fd_installed t fd"
  shows "0 < file_refs s (fdt_files t ! unat fd)"
  using fd_installed_slot [OF assms(2,3)] fd_inv_simps(5) [OF assms(1)]
  by (metis add_gr_0 card_gt_0_iff empty_iff finite_fd_slots)

text \<open>The lowest free slot from \<open>min_fd\<close> on.\<close>

lemma fdt_find_free_Some:
  assumes "fdt_find_free t min_fd = Some fd"
  shows "fd_in_range fd \<and> is_fd_free t fd \<and> unat min_fd \<le> unat fd \<and>
    (\<forall>k. unat min_fd \<le> k \<and> k < unat fd \<longrightarrow> fdt_state t ! k \<noteq> FILE_DESCRIPTOR_FREE)"
proof -
  obtain i where i: "i < length (u64_range min_fd 64)" "is_fd_free t (u64_range min_fd 64 ! i)"
    "fd = u64_range min_fd 64 ! i" "\<forall>j < i. \<not> is_fd_free t (u64_range min_fd 64 ! j)"
    using assms by (auto simp: fdt_find_free_def find_Some_iff)
  have u: "unat (u64_range min_fd 64 ! j) = unat min_fd + j" if "j \<le> i" for j
    using that i(1) by (intro unat_u64_range_nth) simp
  have "fdt_state t ! k \<noteq> FILE_DESCRIPTOR_FREE" if "unat min_fd \<le> k" "k < unat fd" for k
  proof -
    have "k - unat min_fd < i" using that u [of i] i(3) by simp
    then show ?thesis using i(4) u [of "k - unat min_fd"] that(1)
      by (auto simp: is_fd_free_def is_fd_state_equal_def)
  qed
  then show ?thesis using i u [of i] by (auto simp: fd_in_range_def)
qed

lemma fdt_find_free_None:
  assumes "fdt_find_free t min_fd = None" "unat min_fd \<le> k" "k < MAX_FILES_PER_FD"
  shows "fdt_state t ! k \<noteq> FILE_DESCRIPTOR_FREE"
proof -
  have "of_nat k \<in> set (u64_range min_fd 64)"
    using assms(2,3) by (simp add: set_u64_range word_le_nat_alt word_less_nat_alt unat_of_nat take_bit_nat_eq_self)
  moreover have "unat (of_nat k :: u64) = k" using assms(3) by (simp add: unat_of_nat take_bit_nat_eq_self)
  ultimately show ?thesis
    using assms(1) by (force simp: fdt_find_free_def find_None_iff is_fd_free_def is_fd_state_equal_def)
qed

lemma free_not_installed: "is_fd_free t fd \<Longrightarrow> \<not> is_fd_installed t fd"
  "is_fd_reserved t fd \<Longrightarrow> \<not> is_fd_installed t fd"
  by (simp_all add: is_fd_free_def is_fd_installed_def is_fd_reserved_def is_fd_state_equal_def)

section \<open>The operations keep the invariant\<close>

lemma fd_inv_keep:
  assumes "fd_inv ext t s" "cx_same s s'" "cpu_ctx.more s' = cpu_ctx.more s" "fd_arrays t'"
    "fd_slots t' = fd_slots t"
  shows "fd_inv ext (t'\<lparr>fdt_lock := spinlock_init\<rparr>) s'"
  by (rule fd_invI [OF fd_inv_simps(1) [OF assms(1)] assms(2)])
    (use fss_more [OF assms(3)] fd_inv_simps [OF assms(1)] assms(4,5) in auto)

lemma fd_slots_reserve:
  "fd_arrays t \<Longrightarrow> fd_in_range fd \<Longrightarrow> \<not> is_fd_installed t fd \<Longrightarrow> st \<noteq> FILE_DESCRIPTOR_INSTALLED \<Longrightarrow>
   fd_slots (set_slot fd p st t) = fd_slots t"
  using fd_not_installed_slot by (auto simp: fd_slots_set fun_eq_iff)

lemma fdtable_reserve_ok:
  assumes inv: "fd_inv ext t s"
  shows "\<exists>t' s' e fd. fdtable_reserve t min_fd out_fd s = Some (t', s', e, fd) \<and> fd_inv ext t' s' \<and>
    cx_same s s' \<and> cpu_ctx.more s' = cpu_ctx.more s \<and>
    (if e = EOK then fdt_find_free t min_fd = Some fd \<and> fd_in_range fd \<and>
       t' = (set_slot fd 0 FILE_DESCRIPTOR_RESERVED t)\<lparr>fdt_lock := spinlock_init\<rparr>
     else t' = t\<lparr>fdt_lock := spinlock_init\<rparr> \<and>
       e = (if fd_in_range min_fd then - EMFILE else - EINVAL) \<and> fd = out_fd \<and>
       (fd_in_range min_fd \<longrightarrow> fdt_find_free t min_fd = None))"
proof -
  note b = fd_inv_simps [OF inv]
  let ?body = "\<lambda>t s :: ('a, 'b, 'c) fss. if \<not> fd_in_range min_fd then Some (t, s, - EINVAL, out_fd)
     else case fdt_find_free t min_fd of
       Some fd \<Rightarrow> Some (set_slot fd 0 FILE_DESCRIPTOR_RESERVED t, s, EOK, fd)
     | None \<Rightarrow> Some (t, s, - EMFILE, out_fd)"
  show ?thesis
  proof (cases "fd_in_range min_fd \<and> fdt_find_free t min_fd \<noteq> None")
    case True
    then obtain fd where fd: "fdt_find_free t min_fd = Some fd" by auto
    have f: "fd_in_range fd" "\<not> is_fd_installed t fd"
      using fdt_find_free_Some [OF fd] free_not_installed by auto
    let ?t = "set_slot fd 0 FILE_DESCRIPTOR_RESERVED t"
    have "?body (t\<lparr>fdt_lock := held s\<rparr>) s1 = Some (?t\<lparr>fdt_lock := held s\<rparr>, s1, EOK, fd)" for s1
      using True fd by auto
    from fdt_scoped_pure [where body = ?body, OF b(1,2) this]
    obtain s' where r: "fdt_scoped ?body t s = Some (?t\<lparr>fdt_lock := spinlock_init\<rparr>, s', EOK, fd)"
      "cx_same s s'" "cpu_ctx.more s' = cpu_ctx.more s" by blast
    have "fd_inv ext (?t\<lparr>fdt_lock := spinlock_init\<rparr>) s'"
      by (rule fd_inv_keep [OF inv r(2,3)]) (use b(3) f fd_slots_reserve in auto)
    then show ?thesis using r fd f by (simp add: fdtable_reserve_def)
  next
    case False
    let ?e = "if fd_in_range min_fd then - EMFILE else - EINVAL"
    have "?body (t\<lparr>fdt_lock := held s\<rparr>) s1 = Some (t\<lparr>fdt_lock := held s\<rparr>, s1, ?e, out_fd)" for s1
      using False by auto
    from fdt_scoped_pure [where body = ?body, OF b(1,2) this]
    obtain s' where r: "fdt_scoped ?body t s = Some (t\<lparr>fdt_lock := spinlock_init\<rparr>, s', ?e, out_fd)"
      "cx_same s s'" "cpu_ctx.more s' = cpu_ctx.more s" by blast
    have "fd_inv ext (t\<lparr>fdt_lock := spinlock_init\<rparr>) s'" by (rule fd_inv_keep [OF inv r(2,3) b(3) refl])
    then show ?thesis using r False by (simp add: fdtable_reserve_def)
  qed
qed

lemma card_slot_insert:
  "fd_arrays t \<Longrightarrow> fd_in_range fd \<Longrightarrow> \<not> is_fd_installed t fd \<Longrightarrow>
   card (fd_slots (set_slot fd p FILE_DESCRIPTOR_INSTALLED t) q) =
     card (fd_slots t q) + (if q = p then 1 else 0)"
  using fd_not_installed_slot [of t fd q] by (auto simp: fd_slots_set)

lemma card_slot_remove:
  "fd_arrays t \<Longrightarrow> fd_in_range fd \<Longrightarrow> is_fd_installed t fd \<Longrightarrow> st \<noteq> FILE_DESCRIPTOR_INSTALLED \<Longrightarrow>
   card (fd_slots (set_slot fd p st t) q) =
     card (fd_slots t q) - (if q = fdt_files t ! unat fd then 1 else 0)"
proof -
  assume a: "fd_arrays t" "fd_in_range fd" "is_fd_installed t fd" "st \<noteq> FILE_DESCRIPTOR_INSTALLED"
  have "unat fd \<in> fd_slots t q \<longleftrightarrow> q = fdt_files t ! unat fd"
    using fd_installed_slot [OF a(2,3)] by (auto simp: fd_slots_def)
  then show ?thesis using a by (auto simp: fd_slots_set)
qed

text \<open>Installing a file moves the caller's reference into the table.\<close>

lemma fdtable_install_at_ok:
  assumes inv: "fd_inv ext t s" and ext: "0 < ext file"
  shows "\<exists>t' s' e. fdtable_install_at t file fd s = Some (t', s', e) \<and> cx_same s s' \<and>
    cpu_ctx.more s' = cpu_ctx.more s \<and>
    (if e = EOK then fd_inv (ext(file := ext file - 1)) t' s' \<and> fd_in_range fd \<and> is_fd_reserved t fd \<and>
       t' = (set_slot fd file FILE_DESCRIPTOR_INSTALLED t)\<lparr>fdt_lock := spinlock_init\<rparr>
     else fd_inv ext t' s' \<and> e = (if fd_in_range fd then - EBADF else - EINVAL) \<and>
       (fd_in_range fd \<longrightarrow> \<not> is_fd_reserved t fd))"
proof -
  note b = fd_inv_simps [OF inv]
  let ?body = "\<lambda>t s :: ('a, 'b, 'c) fss. if \<not> fd_in_range fd then Some (t, s, - EINVAL)
     else if \<not> is_fd_reserved t fd then Some (t, s, - EBADF)
     else Some (set_slot fd file FILE_DESCRIPTOR_INSTALLED t, s, EOK)"
  show ?thesis
  proof (cases "fd_in_range fd \<and> is_fd_reserved t fd")
    case True
    let ?t = "set_slot fd file FILE_DESCRIPTOR_INSTALLED t"
    have "?body (t\<lparr>fdt_lock := held s\<rparr>) s1 = Some (?t\<lparr>fdt_lock := held s\<rparr>, s1, EOK)" for s1
      using True by auto
    from fdt_scoped_pure [where body = ?body, OF b(1,2) this]
    obtain s' where r: "fdt_scoped ?body t s = Some (?t\<lparr>fdt_lock := spinlock_init\<rparr>, s', EOK)"
      "cx_same s s'" "cpu_ctx.more s' = cpu_ctx.more s" by blast
    have "fd_inv (ext(file := ext file - 1)) (?t\<lparr>fdt_lock := spinlock_init\<rparr>) s'"
      by (rule fd_invI [OF b(1) r(2)])
        (use fss_more [OF r(3)] b ext True free_not_installed(2) in \<open>auto simp: card_slot_insert\<close>)
    then show ?thesis using r True by (simp add: fdtable_install_at_def)
  next
    case False
    let ?e = "if fd_in_range fd then - EBADF else - EINVAL"
    have "?body (t\<lparr>fdt_lock := held s\<rparr>) s1 = Some (t\<lparr>fdt_lock := held s\<rparr>, s1, ?e)" for s1
      using False by auto
    from fdt_scoped_pure [where body = ?body, OF b(1,2) this]
    obtain s' where r: "fdt_scoped ?body t s = Some (t\<lparr>fdt_lock := spinlock_init\<rparr>, s', ?e)"
      "cx_same s s'" "cpu_ctx.more s' = cpu_ctx.more s" by blast
    have "fd_inv ext (t\<lparr>fdt_lock := spinlock_init\<rparr>) s'" by (rule fd_inv_keep [OF inv r(2,3) b(3) refl])
    then show ?thesis using r False by (simp add: fdtable_install_at_def)
  qed
qed

text \<open>A scoped body that takes one reference with \<^verbatim>\<open>file_get\<close>.\<close>

lemma fdt_scoped_get:
  assumes inv: "fd_inv ext t s" and "refs_bounded s" "0 < file_refs s p"
    and body: "\<And>s1. body (t\<lparr>fdt_lock := held s\<rparr>) s1 =
      do { (s2, q) \<leftarrow> file_get p s1; Some (t' q\<lparr>fdt_lock := held s\<rparr>, s2, r q) }"
  shows "\<exists>s'. fdt_scoped body t s = Some (t' p\<lparr>fdt_lock := spinlock_init\<rparr>, s', r p) \<and> cx_same s s' \<and>
    files_live s' \<and> file_refs s' = (file_refs s)(p := file_refs s p + 1)"
proof -
  note b = fd_inv_simps [OF inv]
  have "\<exists>t1 s2. body (t\<lparr>fdt_lock := held s\<rparr>) s1 = Some (t1\<lparr>fdt_lock := held s\<rparr>, s2, r p) \<and> fs_same s1 s2 \<and>
      (t1 = t' p \<and> files_live s2 \<and> file_refs s2 = (file_refs s)(p := file_refs s p + 1))"
    if s1: "cx_pushed s s1" "cpu_ctx.more s1 = cpu_ctx.more s" for s1
  proof -
    note m = fss_more [OF s1(2)]
    have "file_refs s p < 2 ^ 32 - 1 - MAX_FILES_PER_FD" using assms(2) by (simp only: refs_bounded_def)
    then have "file_refs s p < 2 ^ 32 - 1" by simp
    then obtain s2 where "file_get p s1 = Some (s2, p)" "fs_same s1 s2" "files_live s2"
      "file_refs s2 = (file_refs s)(p := file_refs s p + 1)"
      using file_get_ok [of s1 p] b(4) assms(3) m by auto
    then show ?thesis using body by auto
  qed
  from fdt_scoped_ok [where body = body, OF b(1,2) this]
  obtain t1 s2 s' where "fdt_scoped body t s = Some (t1\<lparr>fdt_lock := spinlock_init\<rparr>, s', r p)" "cx_same s s'"
    "t1 = t' p" "files_live s2" "file_refs s2 = (file_refs s)(p := file_refs s p + 1)"
    and m: "cpu_ctx.more s' = cpu_ctx.more s2" by blast
  then show ?thesis using fss_more [OF m] by auto
qed

lemma fdtable_get_file_ok:
  assumes inv: "fd_inv ext t s" and rb: "refs_bounded s"
  shows "\<exists>s' r. fdtable_get_file t fd s = Some (t\<lparr>fdt_lock := spinlock_init\<rparr>, s', r) \<and> cx_same s s' \<and>
    (if fd_in_range fd \<and> is_fd_installed t fd
     then r = fdt_files t ! unat fd \<and> fd_inv (ext(r := ext r + 1)) (t\<lparr>fdt_lock := spinlock_init\<rparr>) s'
     else r = ERR_TO_PTR (- EBADF) \<and> fd_inv ext (t\<lparr>fdt_lock := spinlock_init\<rparr>) s')"
proof -
  note b = fd_inv_simps [OF inv]
  let ?body = "\<lambda>t s :: ('a, 'b, 'c) fss.
     if \<not> fd_in_range fd \<or> \<not> is_fd_installed t fd then Some (t, s, ERR_TO_PTR (- EBADF))
     else do { (s, p) \<leftarrow> file_get (fdt_files t ! unat fd) s; Some (t, s, p) }"
  show ?thesis
  proof (cases "fd_in_range fd \<and> is_fd_installed t fd")
    case True
    let ?p = "fdt_files t ! unat fd"
    have pos: "0 < file_refs s ?p" using fd_installed_refs [OF inv] True by simp
    then have p0: "?p \<noteq> 0" using b(6) by auto
    have "?body (t\<lparr>fdt_lock := held s\<rparr>) s1 =
      do { (s2, q) \<leftarrow> file_get ?p s1; Some ((\<lambda>_. t) q\<lparr>fdt_lock := held s\<rparr>, s2, q) }" for s1
      using True by simp
    from fdt_scoped_get [where body = ?body, OF inv rb pos this]
    obtain s' where r: "fdt_scoped ?body t s = Some (t\<lparr>fdt_lock := spinlock_init\<rparr>, s', ?p)" "cx_same s s'"
      "files_live s'" "file_refs s' = (file_refs s)(?p := file_refs s ?p + 1)" by blast
    have "fd_inv (ext(?p := ext ?p + 1)) (t\<lparr>fdt_lock := spinlock_init\<rparr>) s'"
      by (rule fd_invI [OF b(1) r(2) b(3) r(3)]) (use r(4) b(5,6) p0 in auto)
    then show ?thesis using r True by (auto simp: fdtable_get_file_def)
  next
    case False
    have "?body (t\<lparr>fdt_lock := held s\<rparr>) s1 = Some (t\<lparr>fdt_lock := held s\<rparr>, s1, ERR_TO_PTR (- EBADF))" for s1
      using False by auto
    from fdt_scoped_pure [where body = ?body, OF b(1,2) this]
    obtain s' where r: "fdt_scoped ?body t s = Some (t\<lparr>fdt_lock := spinlock_init\<rparr>, s', ERR_TO_PTR (- EBADF))"
      "cx_same s s'" "cpu_ctx.more s' = cpu_ctx.more s" by blast
    have "fd_inv ext (t\<lparr>fdt_lock := spinlock_init\<rparr>) s'" by (rule fd_inv_keep [OF inv r(2,3) b(3) refl])
    then show ?thesis using r False by (auto simp: fdtable_get_file_def)
  qed
qed

lemma fdtable_dup_ok:
  assumes inv: "fd_inv ext t s" and rb: "refs_bounded s"
  shows "\<exists>t' s' e fd. fdtable_dup t src_fd out_fd s = Some (t', s', e, fd) \<and> cx_same s s' \<and> fd_inv ext t' s' \<and>
    (if e = EOK then fd_in_range src_fd \<and> is_fd_installed t src_fd \<and> fdt_find_free t 0 = Some fd \<and>
       t' = (set_cloexec fd False (set_slot fd (fdt_files t ! unat src_fd) FILE_DESCRIPTOR_INSTALLED t))
          \<lparr>fdt_lock := spinlock_init\<rparr>
     else t' = t\<lparr>fdt_lock := spinlock_init\<rparr> \<and> fd = out_fd \<and>
       e = (if fd_in_range src_fd \<and> is_fd_installed t src_fd then - EMFILE else - EBADF) \<and>
       (fd_in_range src_fd \<and> is_fd_installed t src_fd \<longrightarrow> fdt_find_free t 0 = None))"
proof -
  note b = fd_inv_simps [OF inv]
  let ?body = "\<lambda>t s :: ('a, 'b, 'c) fss.
     if \<not> fd_in_range src_fd \<or> \<not> is_fd_installed t src_fd then Some (t, s, - EBADF, out_fd)
     else case fdt_find_free t 0 of
       None \<Rightarrow> Some (t, s, - EMFILE, out_fd)
     | Some dst_fd \<Rightarrow> do {
         (s, p) \<leftarrow> file_get (fdt_files t ! unat src_fd) s;
         Some (set_cloexec dst_fd False (set_slot dst_fd p FILE_DESCRIPTOR_INSTALLED t), s, EOK, dst_fd)
       }"
  show ?thesis
  proof (cases "fd_in_range src_fd \<and> is_fd_installed t src_fd \<and> fdt_find_free t 0 \<noteq> None")
    case True
    then obtain fd where fd: "fdt_find_free t 0 = Some fd" by auto
    have f: "fd_in_range fd" "\<not> is_fd_installed t fd"
      using fdt_find_free_Some [OF fd] free_not_installed by auto
    let ?p = "fdt_files t ! unat src_fd"
    have pos: "0 < file_refs s ?p" using fd_installed_refs [OF inv] True by simp
    then have p0: "?p \<noteq> 0" using b(6) by auto
    have "?body (t\<lparr>fdt_lock := held s\<rparr>) s1 = do { (s2, q) \<leftarrow> file_get ?p s1;
        Some ((set_cloexec fd False (set_slot fd q FILE_DESCRIPTOR_INSTALLED t))\<lparr>fdt_lock := held s\<rparr>, s2, EOK, fd) }" for s1
      using True fd by simp
    from fdt_scoped_get [where body = ?body, OF inv rb pos this]
    obtain s' where r: "fdt_scoped ?body t s = Some ((set_cloexec fd False
          (set_slot fd ?p FILE_DESCRIPTOR_INSTALLED t))\<lparr>fdt_lock := spinlock_init\<rparr>, s', EOK, fd)" "cx_same s s'"
      "files_live s'" "file_refs s' = (file_refs s)(?p := file_refs s ?p + 1)" by blast
    have "fd_inv ext ((set_cloexec fd False (set_slot fd ?p FILE_DESCRIPTOR_INSTALLED t))\<lparr>fdt_lock := spinlock_init\<rparr>) s'"
      by (rule fd_invI [OF b(1) r(2) _ r(3)]) (use r(4) b(3,5,6) p0 f in \<open>auto simp: card_slot_insert\<close>)
    then show ?thesis using r True fd by (auto simp: fdtable_dup_def)
  next
    case False
    let ?e = "if fd_in_range src_fd \<and> is_fd_installed t src_fd then - EMFILE else - EBADF"
    have "?body (t\<lparr>fdt_lock := held s\<rparr>) s1 = Some (t\<lparr>fdt_lock := held s\<rparr>, s1, ?e, out_fd)" for s1
      using False by auto
    from fdt_scoped_pure [where body = ?body, OF b(1,2) this]
    obtain s' where r: "fdt_scoped ?body t s = Some (t\<lparr>fdt_lock := spinlock_init\<rparr>, s', ?e, out_fd)"
      "cx_same s s'" "cpu_ctx.more s' = cpu_ctx.more s" by blast
    have "fd_inv ext (t\<lparr>fdt_lock := spinlock_init\<rparr>) s'" by (rule fd_inv_keep [OF inv r(2,3) b(3) refl])
    then show ?thesis using r False by (auto simp: fdtable_dup_def)
  qed
qed

text \<open>A section that only changes the table, written with explicit acquire and release.\<close>

lemma fdt_section:
  assumes "cx_ok s" "fd_wf t"
  shows "\<exists>s1 s3. fdt_acquire t s = Some (t\<lparr>fdt_lock := held s\<rparr>, s1) \<and> cpu_ctx.more s1 = cpu_ctx.more s \<and>
    cx_pushed s s1 \<and>
    (\<forall>t'. fdt_release (t'\<lparr>fdt_lock := held s\<rparr>) s1 = Some (t'\<lparr>fdt_lock := spinlock_init\<rparr>, s3)) \<and>
    cx_same s s3 \<and> cpu_ctx.more s3 = cpu_ctx.more s"
proof -
  obtain s1 where s1: "fdt_acquire t s = Some (t\<lparr>fdt_lock := held s\<rparr>, s1)" "cx_pushed s s1"
    "cpu_ctx.more s1 = cpu_ctx.more s" using fdt_acquire_ok [OF assms] by blast
  obtain s3 where "spinlock_release (held s) s1 = Some (spinlock_init, s3)" "cx_same s s3"
    "cpu_ctx.more s3 = cpu_ctx.more s1" using spinlock_release_ok [OF assms(1) s1(2) refl] by blast
  then show ?thesis using s1 by (auto simp: fdt_release_def)
qed

lemma fdtable_close_file_ok:
  assumes inv: "fd_inv ext t s" and kh: "kfree_total kh"
  shows "\<exists>t' s' e. fdtable_close_file kh t fd s = Some (t', s', e) \<and> cx_same s s' \<and> fd_inv ext t' s' \<and>
    (if fd_in_range fd \<and> is_fd_installed t fd
     then e = EOK \<and> t' = (set_cloexec fd False (set_slot fd 0 FILE_DESCRIPTOR_FREE t))\<lparr>fdt_lock := spinlock_init\<rparr> \<and>
       (fs_files s' (fdt_files t ! unat fd) = None \<longleftrightarrow> file_refs s (fdt_files t ! unat fd) = 1)
     else e = - EBADF \<and> t' = t\<lparr>fdt_lock := spinlock_init\<rparr>)"
proof -
  note b = fd_inv_simps [OF inv]
  obtain s1 s3 where a: "fdt_acquire t s = Some (t\<lparr>fdt_lock := held s\<rparr>, s1)"
    "\<And>t'. fdt_release (t'\<lparr>fdt_lock := held s\<rparr>) s1 = Some (t'\<lparr>fdt_lock := spinlock_init\<rparr>, s3)"
    "cx_same s s3" "cpu_ctx.more s3 = cpu_ctx.more s" using fdt_section [OF b(1,2)] by blast
  note m = fss_more [OF a(4)]
  show ?thesis
  proof (cases "fd_in_range fd \<and> is_fd_installed t fd")
    case True
    let ?p = "fdt_files t ! unat fd"
    let ?t = "set_cloexec fd False (set_slot fd 0 FILE_DESCRIPTOR_FREE t)"
    have pos: "0 < file_refs s ?p" using fd_installed_refs [OF inv] True by simp
    then have p0: "?p \<noteq> 0" using b(6) by auto
    obtain s' where s': "file_put kh ?p s3 = Some (s', int (file_refs s3 ?p) - 1)" "fs_same s3 s'" "files_live s'"
      "file_refs s' = (file_refs s3)(?p := file_refs s3 ?p - 1)" "fs_files s' ?p = None \<longleftrightarrow> file_refs s3 ?p = 1"
      using file_put_ok [OF kh, of s3 ?p] b(4) m pos by auto
    obtain k where "card (fd_slots t ?p) = Suc k" using fd_installed_card True by blast
    then have "fd_inv ext (?t\<lparr>fdt_lock := spinlock_init\<rparr>) s'"
      by (intro fd_invI [OF b(1) fs_same_cx [OF s'(2) a(3)] _ s'(3)])
        (use s'(4) b(3,5,6) m p0 True in \<open>auto simp: card_slot_remove\<close>)
    then show ?thesis
      using True a s' m fs_same_cx [OF s'(2) a(3)] by (simp add: fdtable_close_file_def)
  next
    case False
    have "fd_inv ext (t\<lparr>fdt_lock := spinlock_init\<rparr>) s3" by (rule fd_inv_keep [OF inv a(3,4) b(3) refl])
    then show ?thesis using False a by (auto simp: fdtable_close_file_def)
  qed
qed

text \<open>
  \<^verbatim>\<open>dup2\<close>: the destination descriptor refers to the source's file afterwards, and the
  file it referred to before loses one reference.
\<close>

lemma fdtable_dup_at_ok:
  assumes inv: "fd_inv ext t s" and rb: "refs_bounded s" and kh: "kfree_total kh"
  shows "\<exists>t' s' e. fdtable_dup_at kh t src_fd dst_fd cloexec s = Some (t', s', e) \<and> cx_same s s' \<and> fd_inv ext t' s' \<and>
    (if fd_in_range src_fd \<and> is_fd_installed t src_fd \<and> fd_in_range dst_fd
     then e = EOK \<and> is_fd_installed t' dst_fd \<and> fdt_files t' ! unat dst_fd = fdt_files t ! unat src_fd \<and>
       fdt_close_on_exec t' ! unat dst_fd = cloexec
     else e = - EBADF \<and> t' = t\<lparr>fdt_lock := spinlock_init\<rparr>)"
proof -
  note b = fd_inv_simps [OF inv]
  obtain s1 s3 where a: "fdt_acquire t s = Some (t\<lparr>fdt_lock := held s\<rparr>, s1)" "cpu_ctx.more s1 = cpu_ctx.more s"
    "cx_pushed s s1" "\<And>t'. fdt_release (t'\<lparr>fdt_lock := held s\<rparr>) s1 = Some (t'\<lparr>fdt_lock := spinlock_init\<rparr>, s3)"
    "cx_same s s3" "cpu_ctx.more s3 = cpu_ctx.more s" using fdt_section [OF b(1,2)] by blast
  note m = fss_more [OF a(2)]
  let ?ok = "fd_in_range src_fd \<and> is_fd_installed t src_fd"
  let ?p = "fdt_files t ! unat src_fd"
  consider (bad) "\<not> ?ok \<or> \<not> fd_in_range dst_fd" | (same) "?ok" "src_fd = dst_fd"
    | (other) "?ok" "src_fd \<noteq> dst_fd" "fd_in_range dst_fd" by auto
  then show ?thesis
  proof cases
    case bad
    have "fd_inv ext (t\<lparr>fdt_lock := spinlock_init\<rparr>) s3" by (rule fd_inv_keep [OF inv a(5,6) b(3) refl])
    then show ?thesis using bad a(1,4,5) by (auto simp: fdtable_dup_at_def)
  next
    case same
    let ?t = "set_cloexec src_fd cloexec t"
    have "fd_inv ext (?t\<lparr>fdt_lock := spinlock_init\<rparr>) s3" by (rule fd_inv_keep [OF inv a(5,6)]) (use b(3) in auto)
    moreover have "is_fd_installed ?t src_fd" "fdt_files ?t = fdt_files t" "fdt_close_on_exec ?t ! unat src_fd = cloexec"
      using same b(3) by (auto simp: set_cloexec_def is_fd_installed_def is_fd_state_equal_def fd_arrays_def fd_in_range_def)
    ultimately show ?thesis
      using same a(1,4,5) by (auto simp: fdtable_dup_at_def fdtable_set_close_on_exec_impl_def)
  next
    case other
    let ?o = "fdt_files t ! unat dst_fd"
    let ?inst = "is_fd_installed t dst_fd"
    let ?t1 = "if ?inst then set_cloexec dst_fd False (set_slot dst_fd 0 FILE_DESCRIPTOR_FREE t) else t"
    let ?t2 = "set_cloexec dst_fd cloexec (set_slot dst_fd ?p FILE_DESCRIPTOR_INSTALLED ?t1)"
    have pos: "0 < file_refs s ?p" using fd_installed_refs [OF inv] other by simp
    then have p0: "?p \<noteq> 0" using b(6) by auto
    have "file_refs s ?p < 2 ^ 32 - 1 - MAX_FILES_PER_FD" using rb by (simp only: refs_bounded_def)
    then obtain s2 where s2: "file_get ?p s1 = Some (s2, ?p)" "fs_same s1 s2" "files_live s2"
      "file_refs s2 = (file_refs s)(?p := file_refs s ?p + 1)"
      using file_get_ok [of s1 ?p] b(4) pos m by auto
    obtain s4 where s4: "fdt_release (?t2\<lparr>fdt_lock := held s\<rparr>) s2 = Some (?t2\<lparr>fdt_lock := spinlock_init\<rparr>, s4)"
      "cx_same s s4" "cpu_ctx.more s4 = cpu_ctx.more s2"
      using fdt_release_ok [OF b(1) fs_same_pushed [OF s2(2) a(3)]] by blast
    note m4 = fss_more [OF s4(3)]
    have arr: "fd_arrays ?t1" using b(3) by simp
    have n1: "\<not> is_fd_installed ?t1 dst_fd"
      using b(3) other(3) by (simp add: is_fd_installed_def is_fd_state_equal_def set_slot_def set_cloexec_def
          fd_arrays_def fd_in_range_def)
    have c1: "card (fd_slots ?t1 q) = card (fd_slots t q) - (if ?inst \<and> q = ?o then 1 else 0)" for q
      using card_slot_remove [OF b(3) other(3)] by auto
    have c2: "card (fd_slots ?t2 q) = card (fd_slots ?t1 q) + (if q = ?p then 1 else 0)" for q
      using card_slot_insert [OF arr other(3) n1] by simp
    have eff: "is_fd_installed ?t2 dst_fd" "fdt_files ?t2 ! unat dst_fd = ?p" "fdt_close_on_exec ?t2 ! unat dst_fd = cloexec"
      using b(3) other(3) by (auto simp: is_fd_installed_def is_fd_state_equal_def set_slot_def set_cloexec_def
          fd_arrays_def fd_in_range_def)
    show ?thesis
    proof (cases ?inst)
      case True
      obtain k where k: "card (fd_slots t ?o) = Suc k" using fd_installed_card [OF other(3) True] by blast
      have o: "0 < file_refs s ?o" using fd_installed_refs [OF inv other(3) True] .
      then have o0: "?o \<noteq> 0" using b(6) by auto
      have o4: "0 < file_refs s4 ?o" using o s2(4) m4(4) by simp
      obtain s' where s': "file_put kh ?o s4 = Some (s', int (file_refs s4 ?o) - 1)" "fs_same s4 s'" "files_live s'"
        "file_refs s' = (file_refs s4)(?o := file_refs s4 ?o - 1)"
        using file_put_ok [OF kh _ o4] s2(3) m4(5) by blast
      have "fd_inv ext (?t2\<lparr>fdt_lock := spinlock_init\<rparr>) s'"
      proof (rule fd_invI [OF b(1) fs_same_cx [OF s'(2) s4(2)] _ s'(3)])
        show "file_refs s' q = card (fd_slots ?t2 q) + ext q" for q
          unfolding c2 c1 using s'(4) s2(4) m4(4) b(5) [of q] True k by auto
        show "file_refs s' 0 = 0" using s'(4) s2(4) m4 b(6) p0 o0 by simp
      qed (use arr in simp)
      then show ?thesis
        using other True a(1) s2(1) s4 s'(1) o0 eff fs_same_cx [OF s'(2) s4(2)]
        by (simp add: fdtable_dup_at_def Let_def)
    next
      case False
      have "fd_inv ext (?t2\<lparr>fdt_lock := spinlock_init\<rparr>) s4"
      proof (rule fd_invI [OF b(1) s4(2)])
        show "file_refs s4 q = card (fd_slots ?t2 q) + ext q" for q
          unfolding c2 c1 using s2(4) m4 b(5) [of q] False by auto
        show "file_refs s4 0 = 0" using s2(4) m4 b(6) p0 by simp
      qed (use arr s2(3) m4 in simp_all)
      then show ?thesis
        using other False a(1) s2(1) s4 eff by (simp add: fdtable_dup_at_def Let_def)
    qed
  qed
qed

lemma count_installed: "count_list (fdt_installed_files t) p = card (fd_slots t p)"
proof -
  let ?xs = "filter (\<lambda>fd. fdt_state t ! fd = FILE_DESCRIPTOR_INSTALLED) [0..<MAX_FILES_PER_FD]"
  have "count_list (map (\<lambda>fd. fdt_files t ! fd) ?xs) p = length (filter (\<lambda>fd. fdt_files t ! fd = p) ?xs)"
    by (simp add: count_list_eq_length_filter filter_map comp_def eq_commute)
  also have "\<dots> = card (set (filter (\<lambda>fd. fdt_files t ! fd = p) ?xs))"
    by (rule distinct_card [symmetric]) simp
  also have "set (filter (\<lambda>fd. fdt_files t ! fd = p) ?xs) = fd_slots t p"
    by (auto simp: fd_slots_def)
  finally show ?thesis by (simp add: fdt_installed_files_def)
qed

lemma put_all_ok:
  assumes "kfree_total kh" "files_live s" "\<forall>p. count_list ps p \<le> file_refs s p"
  shows "\<exists>s'. put_all kh ps s = Some s' \<and> fs_same s s' \<and> files_live s' \<and>
    file_refs s' = (\<lambda>p. file_refs s p - count_list ps p)"
  using assms(2,3)
proof (induction ps arbitrary: s)
  case Nil
  then show ?case by (simp add: put_all_def)
next
  case (Cons q ps)
  have "0 < file_refs s q" using Cons.prems(2) [rule_format, of q] by simp
  then obtain s1 where s1: "file_put kh q s = Some (s1, int (file_refs s q) - 1)" "fs_same s s1" "files_live s1"
    "file_refs s1 = (file_refs s)(q := file_refs s q - 1)"
    using file_put_ok [OF assms(1) Cons.prems(1)] by blast
  have "\<forall>p. count_list ps p \<le> file_refs s1 p"
  proof
    fix p show "count_list ps p \<le> file_refs s1 p"
      using Cons.prems(2) [rule_format, of p] s1(4) by (auto split: if_splits)
  qed
  from Cons.IH [OF s1(3) this] obtain s' where "put_all kh ps s1 = Some s'" "fs_same s1 s'" "files_live s'"
    "file_refs s' = (\<lambda>p. file_refs s1 p - count_list ps p)" by blast
  with s1 show ?case by (auto simp: put_all_def fs_same_def fun_eq_iff)
qed

lemma get_all_ok:
  assumes "files_live s" "\<forall>p \<in> set ps. 0 < file_refs s p" "\<forall>p. file_refs s p + length ps < 2 ^ 32 - 1"
  shows "\<exists>s'. get_all ps s = Some s' \<and> fs_same s s' \<and> files_live s' \<and>
    file_refs s' = (\<lambda>p. file_refs s p + count_list ps p) \<and> fs_heap s' = fs_heap s"
  using assms
proof (induction ps arbitrary: s)
  case Nil
  then show ?case by (simp add: get_all_def)
next
  case (Cons q ps)
  have "file_refs s q < 2 ^ 32 - 1" using Cons.prems(3) [rule_format, of q] by simp
  then obtain s1 where s1: "file_get q s = Some (s1, q)" "fs_same s s1" "files_live s1"
    "file_refs s1 = (file_refs s)(q := file_refs s q + 1)" "fs_heap s1 = fs_heap s"
    using file_get_ok [OF Cons.prems(1), of q] Cons.prems(2) by auto
  have "\<forall>p. file_refs s1 p + length ps < 2 ^ 32 - 1"
  proof
    fix p show "file_refs s1 p + length ps < 2 ^ 32 - 1"
      using Cons.prems(3) [rule_format, of p] s1(4) by auto
  qed
  moreover have "\<forall>p \<in> set ps. 0 < file_refs s1 p" using Cons.prems(2) s1(4) by simp
  ultimately obtain s' where "get_all ps s1 = Some s'" "fs_same s1 s'" "files_live s'"
    "file_refs s' = (\<lambda>p. file_refs s1 p + count_list ps p)" "fs_heap s' = fs_heap s1" using Cons.IH [OF s1(3)] by blast
  with s1 show ?case by (auto simp: get_all_def fs_same_def fun_eq_iff)
qed

lemma fd_slots_emptied [simp]: "fd_slots (fdt_emptied t) p = {}"
  by (auto simp: fd_slots_def fdt_emptied_def)

lemma fdtable_close_all_ok:
  assumes inv: "fd_inv ext t s" and kh: "kfree_total kh"
  shows "\<exists>s'. fdtable_close_all kh t s = Some ((fdt_emptied t)\<lparr>fdt_lock := spinlock_init\<rparr>, s', EOK) \<and>
    cx_same s s' \<and> fd_inv ext ((fdt_emptied t)\<lparr>fdt_lock := spinlock_init\<rparr>) s' \<and> fs_state.more s' = fs_state.more s"
proof -
  note b = fd_inv_simps [OF inv]
  obtain s1 s3 where a: "fdt_acquire t s = Some (t\<lparr>fdt_lock := held s\<rparr>, s1)"
    "\<And>t'. fdt_release (t'\<lparr>fdt_lock := held s\<rparr>) s1 = Some (t'\<lparr>fdt_lock := spinlock_init\<rparr>, s3)"
    "cx_same s s3" "cpu_ctx.more s3 = cpu_ctx.more s" using fdt_section [OF b(1,2)] by blast
  note m = fss_more [OF a(4)]
  obtain s' where s': "put_all kh (fdt_installed_files t) s3 = Some s'" "fs_same s3 s'" "files_live s'"
    "file_refs s' = (\<lambda>p. file_refs s3 p - count_list (fdt_installed_files t) p)"
    using put_all_ok [OF kh, of s3 "fdt_installed_files t"] b(4,5) m by (auto simp: count_installed)
  have e: "fdt_emptied (t\<lparr>fdt_lock := l\<rparr>) = (fdt_emptied t)\<lparr>fdt_lock := l\<rparr>"
    "fdt_installed_files (t\<lparr>fdt_lock := l\<rparr>) = fdt_installed_files t" for l
    by (simp_all add: fdt_emptied_def fdt_installed_files_def)
  have "fd_inv ext ((fdt_emptied t)\<lparr>fdt_lock := spinlock_init\<rparr>) s'"
    by (rule fd_invI [OF b(1) fs_same_cx [OF s'(2) a(3)] _ s'(3)])
      (use s'(4) m b(5,6) in \<open>auto simp: count_installed fd_arrays_def fdt_emptied_def fd_slots_def\<close>)
  moreover have "fs_state.more s' = fs_state.more s" using s'(2) m(6) by (simp add: fs_same_def)
  ultimately show ?thesis using a s' fs_same_cx [OF s'(2) a(3)] by (simp add: fdtable_close_all_def e Let_def)
qed

lemma fdtable_destroy_ok:
  assumes inv: "fd_inv ext t s" and kh: "kfree_total kh"
  shows "if \<forall>c < MAX_FILES_PER_FD. fdt_state t ! c = FILE_DESCRIPTOR_FREE
    then \<exists>s'. fdtable_destroy kh table t s = Some (s', EOK) \<and> cx_same s s' \<and> fs_state.more s' = fs_state.more s \<and> file_refs s' = file_refs s
    else fdtable_destroy kh table t s = None"
proof -
  note b = fd_inv_simps [OF inv]
  obtain s1 s3 where a: "fdt_acquire t s = Some (t\<lparr>fdt_lock := held s\<rparr>, s1)"
    "\<And>t'. fdt_release (t'\<lparr>fdt_lock := held s\<rparr>) s1 = Some (t'\<lparr>fdt_lock := spinlock_init\<rparr>, s3)"
    "cx_same s s3" "cpu_ctx.more s3 = cpu_ctx.more s" using fdt_section [OF b(1,2)] by blast
  obtain h where "ho_kfree kh (fs_heap s3) table = Some h" using kh by (auto simp: kfree_total_def)
  moreover have "file_refs (s3\<lparr>fs_heap := h\<rparr>) = file_refs s3" for h by (simp add: file_refs_def fun_eq_iff)
  ultimately show ?thesis using a fss_more(4,6) [OF a(4)] by (auto simp: fdtable_destroy_def cx_same_def)
qed

text \<open>
  \<^verbatim>\<open>fork\<close>: the new table has the same slots, and each file it holds has one more
  reference per slot, which for the old table are references elsewhere.
\<close>

lemma fdtable_create_from_ok:
  assumes inv: "fd_inv ext t s" and rb: "refs_bounded s"
    and k: "ho_kalloc kh (fs_heap s) 664 = Some (h, table)" "\<not> IS_ERR table"
  shows "\<exists>s' t'. fdtable_create_from kh t s = Some (t\<lparr>fdt_lock := spinlock_init\<rparr>, s', table, Some t') \<and>
    cx_same s s' \<and> fd_wf t' \<and> fdt_files t' = fdt_files t \<and> fdt_state t' = fdt_state t \<and>
    fdt_close_on_exec t' = fdt_close_on_exec t \<and>
    fd_inv (\<lambda>p. ext p + card (fd_slots t' p)) (t\<lparr>fdt_lock := spinlock_init\<rparr>) s' \<and>
    fd_inv (\<lambda>p. ext p + card (fd_slots t p)) t' s' \<and> fs_heap s' = h \<and> fs_state.more s' = fs_state.more s"
proof -
  note b = fd_inv_simps [OF inv]
  let ?s = "s\<lparr>fs_heap := h\<rparr>"
  have r: "file_refs ?s = file_refs s" "files_live ?s = files_live s"
    by (simp_all add: file_refs_def fun_eq_iff files_live_def)
  have cx: "cx_ok ?s" "cx_same s ?s" using b(1) by (auto simp: cx_ok_def cx_same_def)
  obtain s1 where s1: "fdt_acquire t ?s = Some (t\<lparr>fdt_lock := held ?s\<rparr>, s1)" "cx_pushed ?s s1"
    "cpu_ctx.more s1 = cpu_ctx.more ?s" using fdt_acquire_ok [OF cx(1) b(2)] by blast
  note m = fss_more [OF s1(3)]
  let ?ps = "fdt_installed_files t"
  have "length ?ps \<le> length [0..<MAX_FILES_PER_FD]"
    unfolding fdt_installed_files_def length_map by (rule length_filter_le)
  then have len: "length ?ps \<le> MAX_FILES_PER_FD" by simp
  have "\<forall>p. file_refs s1 p + length ?ps < 2 ^ 32 - 1"
  proof
    fix p
    have "file_refs s p < 2 ^ 32 - 1 - MAX_FILES_PER_FD" using rb by (simp only: refs_bounded_def)
    then show "file_refs s1 p + length ?ps < 2 ^ 32 - 1" using len m(4) r(1) by simp
  qed
  moreover have "\<forall>p \<in> set ?ps. 0 < file_refs s1 p"
  proof
    fix p assume "p \<in> set ?ps"
    then have "0 < card (fd_slots t p)" by (simp flip: count_installed add: count_list_0_iff neq0_conv [symmetric])
    then show "0 < file_refs s1 p" using m(4) r(1) b(5) by simp
  qed
  ultimately obtain s2 where s2: "get_all ?ps s1 = Some s2" "fs_same s1 s2" "files_live s2"
    "file_refs s2 = (\<lambda>p. file_refs s1 p + count_list ?ps p)" "fs_heap s2 = fs_heap s1"
    using get_all_ok [of s1 ?ps] m(5) r(2) b(4) by blast
  obtain s3 where s3: "fdt_release (t\<lparr>fdt_lock := held ?s\<rparr>) s2 = Some (t\<lparr>fdt_lock := spinlock_init\<rparr>, s3)"
    "cx_same ?s s3" "cpu_ctx.more s3 = cpu_ctx.more s2"
    using fdt_release_ok [OF cx(1) fs_same_pushed [OF s2(2) s1(2)]] by blast
  note m3 = fss_more [OF s3(3)]
  let ?t = "fdtable_init\<lparr>fdt_files := fdt_files t, fdt_state := fdt_state t, fdt_close_on_exec := fdt_close_on_exec t\<rparr>"
  have refs: "file_refs s3 p = card (fd_slots t p) + (ext p + card (fd_slots t p))" for p
    using m3(4) s2(4) m(4) r(1) b(5) [of p] by (simp add: count_installed)
  have cs: "cx_same s s3" using cx(2) s3(2) cx_same_trans by blast
  have t': "fd_arrays ?t" "fd_slots ?t = fd_slots t" "fdt_lock ?t = spinlock_init"
    using b(3) by (auto simp: fd_arrays_def fd_slots_def fdtable_init_def)
  have live: "files_live s3" using m3(5) s2(3) by simp
  have zero: "file_refs s3 0 = 0" using refs [of 0] b(5) [of 0] b(6) by simp
  have 1: "fd_inv (\<lambda>p. ext p + card (fd_slots t p)) (t\<lparr>fdt_lock := spinlock_init\<rparr>) s3"
    by (rule fd_invI [OF b(1) cs b(3) live zero]) (simp add: refs)
  have "fd_inv (\<lambda>p. ext p + card (fd_slots t p)) (?t\<lparr>fdt_lock := spinlock_init\<rparr>) s3"
    by (rule fd_invI [OF b(1) cs t'(1) live zero]) (simp add: refs t'(2))
  moreover have "?t\<lparr>fdt_lock := spinlock_init\<rparr> = ?t" by (simp add: fdtable_init_def)
  ultimately have 2: "fd_inv (\<lambda>p. ext p + card (fd_slots t p)) ?t s3" by simp
  have e: "fdt_installed_files (t\<lparr>fdt_lock := l\<rparr>) = ?ps" for l by (simp add: fdt_installed_files_def)
  have "fdtable_create_from kh t s = Some (t\<lparr>fdt_lock := spinlock_init\<rparr>, s3, table, Some ?t)"
    using k s1(1) s2(1) s3(1) by (simp add: fdtable_create_from_def fdtable_create_def Let_def e)
  moreover have "fs_heap s3 = h" "fs_state.more s3 = fs_state.more s"
    using s2(2,5) m(2,6) m3(2,6) by (simp_all add: fs_same_def)
  ultimately show ?thesis using 1 2 cs t' fd_inv_simps(2) [OF 2] by (intro exI [of _ s3] exI [of _ ?t]) simp
qed

section \<open>Properties\<close>

definition fd_example :: FDTable where
  "fd_example = \<lparr>fdt_lock = spinlock_init, fdt_files = 0x1000 # replicate 63 0,
     fdt_state = FILE_DESCRIPTOR_INSTALLED # FILE_DESCRIPTOR_RESERVED # replicate 62 FILE_DESCRIPTOR_FREE,
     fdt_close_on_exec = replicate 64 False\<rparr>"

lemma fd_example_slots: "fd_slots fd_example p = (if p = 0x1000 then {0} else {})"
proof -
  have "fdt_state fd_example ! k = FILE_DESCRIPTOR_INSTALLED \<longleftrightarrow> k = 0" if "k < 64" for k
    using that by (cases k; cases "k - 1") (auto simp: fd_example_def)
  then show ?thesis by (auto simp: fd_slots_def) (simp_all add: fd_example_def)
qed

lemma fd_example_inv: "fd_inv (\<lambda>_. 0) fd_example fs_example" "refs_bounded fs_example"
proof -
  have r: "file_refs fs_example p = (if p = 0x1000 then 1 else 0)" for p
    by (simp add: file_refs_def file_example_def)
  show "fd_inv (\<lambda>_. 0) fd_example fs_example"
    by (simp add: fd_inv_def fd_wf_def fs_example_live r fd_example_slots)
      (simp add: fd_arrays_def fd_example_def spinlock_init_def)
  show "refs_bounded fs_example" by (simp add: refs_bounded_def r)
qed

lemma fd_example_installed: "is_fd_installed fd_example 0" "fd_in_range 0" "fdt_files fd_example ! 0 = 0x1000"
  by (simp_all add: is_fd_installed_def is_fd_state_equal_def fd_example_def fd_in_range_def)



text \<open>
  Claim C18. Descriptors are given out lowest first: \<^verbatim>\<open>fdtable_add\<close> installs the
  file in the lowest free slot and returns its number, and fails with
  \<^verbatim>\<open>-EMFILE\<close> exactly when all 64 are taken; \<^verbatim>\<open>fdtable_dup\<close> of
  an open descriptor does the same with one more reference to its file.
\<close>

theorem fdtable_lowest_free:
  assumes "fd_inv ext t s" "refs_bounded s" "0 < ext file" "fd_in_range src_fd" "is_fd_installed t src_fd"
  shows "\<exists>t' s' e fd t'' s'' e' fd'.
    fdtable_add t file out_fd s = Some (t', s', e, fd) \<and> cx_same s s' \<and>
    fdtable_dup t src_fd out_fd s = Some (t'', s'', e', fd') \<and> cx_same s s'' \<and> fd_inv ext t'' s'' \<and>
    (if \<exists>k < MAX_FILES_PER_FD. fdt_state t ! k = FILE_DESCRIPTOR_FREE
     then e = EOK \<and> e' = EOK \<and> fd' = fd \<and> unat fd < MAX_FILES_PER_FD \<and>
       fdt_state t ! unat fd = FILE_DESCRIPTOR_FREE \<and>
       (\<forall>k < unat fd. fdt_state t ! k \<noteq> FILE_DESCRIPTOR_FREE) \<and>
       fd_inv (ext(file := ext file - 1)) t' s' \<and> is_fd_installed t' fd \<and> fdt_files t' ! unat fd = file \<and>
       is_fd_installed t'' fd \<and> fdt_files t'' ! unat fd = fdt_files t ! unat src_fd
     else e = - EMFILE \<and> e' = - EMFILE \<and> fd_inv ext t' s')"
proof -
  note b = fd_inv_simps [OF assms(1)]
  have r0: "fd_in_range 0" by (simp add: fd_in_range_def)
  obtain t1 s1 e1 fd1 where r: "fdtable_reserve t 0 out_fd s = Some (t1, s1, e1, fd1)" "fd_inv ext t1 s1" "cx_same s s1"
    and re: "if e1 = EOK then fdt_find_free t 0 = Some fd1 \<and> fd_in_range fd1 \<and>
        t1 = (set_slot fd1 0 FILE_DESCRIPTOR_RESERVED t)\<lparr>fdt_lock := spinlock_init\<rparr>
      else t1 = t\<lparr>fdt_lock := spinlock_init\<rparr> \<and> e1 = - EMFILE \<and> fd1 = out_fd \<and> fdt_find_free t 0 = None"
    using fdtable_reserve_ok [OF assms(1), of 0 out_fd] by (simp only: r0 if_True simp_thms) blast
  obtain t2 s2 e2 fd2 where d: "fdtable_dup t src_fd out_fd s = Some (t2, s2, e2, fd2)" "cx_same s s2" "fd_inv ext t2 s2"
    and de: "if e2 = EOK then fdt_find_free t 0 = Some fd2 \<and>
        t2 = (set_cloexec fd2 False (set_slot fd2 (fdt_files t ! unat src_fd) FILE_DESCRIPTOR_INSTALLED t))\<lparr>fdt_lock := spinlock_init\<rparr>
      else t2 = t\<lparr>fdt_lock := spinlock_init\<rparr> \<and> fd2 = out_fd \<and> e2 = - EMFILE \<and> fdt_find_free t 0 = None"
    using fdtable_dup_ok [OF assms(1,2), of src_fd out_fd] by (simp only: assms(4,5) if_True simp_thms) blast
  show ?thesis
  proof (cases "fdt_find_free t 0")
    case None
    then have "\<not> (\<exists>k < MAX_FILES_PER_FD. fdt_state t ! k = FILE_DESCRIPTOR_FREE)"
      using fdt_find_free_None [OF None] by auto
    then show ?thesis using None r re d de by (auto simp: fdtable_add_def split: if_splits)
  next
    case (Some fd)
    note f = fdt_find_free_Some [OF Some]
    have ex: "\<exists>k < MAX_FILES_PER_FD. fdt_state t ! k = FILE_DESCRIPTOR_FREE"
      using f by (auto simp: fd_in_range_def is_fd_free_def is_fd_state_equal_def)
    have e: "e1 = EOK" "fd1 = fd" "e2 = EOK" "fd2 = fd" using re de Some by (auto split: if_splits)
    have t1: "t1 = (set_slot fd 0 FILE_DESCRIPTOR_RESERVED t)\<lparr>fdt_lock := spinlock_init\<rparr>" using re e by simp
    have rs: "is_fd_reserved t1 fd" using f b(3) unfolding t1
      by (simp add: is_fd_reserved_def is_fd_state_equal_def set_slot_def fd_arrays_def fd_in_range_def)
    obtain t3 s3 e3 where i: "fdtable_install_at t1 file fd s1 = Some (t3, s3, e3)" "cx_same s1 s3"
      "if e3 = EOK then fd_inv (ext(file := ext file - 1)) t3 s3 \<and>
         t3 = (set_slot fd file FILE_DESCRIPTOR_INSTALLED t1)\<lparr>fdt_lock := spinlock_init\<rparr>
       else fd_in_range fd \<longrightarrow> \<not> is_fd_reserved t1 fd"
      using fdtable_install_at_ok [OF r(2) assms(3), of fd] by (auto split: if_splits)
    have e3: "e3 = EOK" using i(3) rs f by (auto split: if_splits)
    have "is_fd_installed t3 fd" "fdt_files t3 ! unat fd = file" "is_fd_installed t2 fd"
      "fdt_files t2 ! unat fd = fdt_files t ! unat src_fd"
      using i(3) e3 e t1 de f b(3)
      by (auto simp: is_fd_installed_def is_fd_state_equal_def set_slot_def set_cloexec_def fd_arrays_def fd_in_range_def)
    moreover have "fdtable_add t file out_fd s = Some (t3, s3, EOK, fd)"
      using r(1) e i(1) e3 by (simp add: fdtable_add_def)
    moreover have "cx_same s s3" using r(3) i(2) cx_same_trans by blast
    ultimately show ?thesis
      using ex f d e i(3) e3 by (auto simp: fd_in_range_def is_fd_free_def is_fd_state_equal_def)
  qed
qed

theorem fdtable_lowest_free_witness:
  "\<exists>t' s' e fd. fdtable_add fd_example 0x1000 9 (set_file 0x1000 (file_example\<lparr>f_rc := 2\<rparr>) fs_example) =
     Some (t', s', e, fd) \<and> e = EOK \<and> fdt_files t' ! unat fd = 0x1000"
proof -
  let ?s = "set_file 0x1000 (file_example\<lparr>f_rc := 2\<rparr>) fs_example"
  have r: "file_refs ?s p = (if p = 0x1000 then 2 else 0)" for p
    by (simp add: file_refs_def set_file_def)
  have "cx_ok ?s" using fs_example_live(3) by (auto simp: cx_ok_def set_file_def)
  moreover have "fd_wf fd_example" by (simp add: fd_wf_def fd_arrays_def fd_example_def spinlock_init_def)
  moreover have "files_live ?s" by (simp add: files_live_def set_file_def)
  ultimately have inv: "fd_inv ((\<lambda>_. 0)(0x1000 := 1)) fd_example ?s"
    by (simp add: fd_inv_def r fd_example_slots)
  have rb: "refs_bounded ?s" by (simp add: refs_bounded_def r)
  have "\<exists>k < MAX_FILES_PER_FD. fdt_state fd_example ! k = FILE_DESCRIPTOR_FREE"
    by (rule exI [of _ 2]) (simp add: fd_example_def)
  then have ex: "(\<exists>k < MAX_FILES_PER_FD. fdt_state fd_example ! k = FILE_DESCRIPTOR_FREE) = True" by blast
  have pos: "0 < ((\<lambda>_. 0)(0x1000 := 1 :: nat)) (0x1000 :: u64)" by simp
  show ?thesis
    using fdtable_lowest_free [OF inv rb pos fd_example_installed(2,1), of 9] unfolding ex if_True by blast
qed



end
