(* ===== verification/ScopedLock.thy ===== *)
theory ScopedLock
  imports SpinLock
begin

text \<open>
  Critical sections on locks that live inside a larger kernel state:
  \<^verbatim>\<open>spinlock_acquire_scoped\<close> of \<^verbatim>\<open>kernel/sync/spinlock.h\<close>. The locale
  \<open>lock_slot\<close> is the interface of a place that holds a lock: reading and writing it does not
  touch the interrupt state of the processor. It turns a section on a free lock into an equation:
  the section returns what its body returns, the lock is free again, and of the interrupt state
  only the note of the outermost push remains (\<open>cx_sec\<close>). Every lock of the kernel state
  interprets it.
\<close>

definition with_lock ::
  "('a cpu_ctx_scheme \<Rightarrow> SpinLock) \<Rightarrow> (SpinLock \<Rightarrow> 'a cpu_ctx_scheme \<Rightarrow> 'a cpu_ctx_scheme) \<Rightarrow>
   ('a cpu_ctx_scheme \<Rightarrow> ('a cpu_ctx_scheme \<times> 'r) option) \<Rightarrow> 'a cpu_ctx_scheme \<Rightarrow>
   ('a cpu_ctx_scheme \<times> 'r) option" where
  "with_lock get put body s = do {
     (l, s) \<leftarrow> spinlock_acquire (get s) s;
     (s, r) \<leftarrow> body (put l s);
     (l, s) \<leftarrow> spinlock_release (get s) s;
     Some (put l s, r)
   }"

text \<open>The interrupt state a finished section leaves behind, and the lock inside a section.\<close>

definition cx_sec :: "'a cpu_ctx_scheme \<Rightarrow> 'a cpu_ctx_scheme" where
  "cx_sec s = (if cx_irq_disable_depth s = 0 then s\<lparr>cx_irq_was_enabled := r_intrd_enabled s\<rparr> else s)"

definition held_by :: "'a cpu_ctx_scheme \<Rightarrow> SpinLock" where
  "held_by s = \<lparr>sp_locked = True, sp_cpu = Some (cx_cpu s)\<rparr>"

definition cx_put :: "DAIF \<Rightarrow> int \<Rightarrow> bool \<Rightarrow> 'a cpu_ctx_scheme \<Rightarrow> 'a cpu_ctx_scheme" where
  "cx_put d n w s = s\<lparr>cx_daif := d, cx_irq_disable_depth := n, cx_irq_was_enabled := w\<rparr>"

lemma cx_put_fields [simp]: "cx_cpu (cx_put d n w s) = cx_cpu s" "cx_daif (cx_put d n w s) = d"
  "cx_irq_disable_depth (cx_put d n w s) = n" "cx_irq_was_enabled (cx_put d n w s) = w"
  "cx_put d n w (cx_put d' n' w' s) = cx_put d n w s"
  by (simp_all add: cx_put_def)

lemma cx_put_same: "cx_put (cx_daif s) (cx_irq_disable_depth s) (cx_irq_was_enabled s) s = s"
  by (simp add: cx_put_def)

lemma irq_push_as_put:
  "irq_push_intr s = cx_put ((cx_daif s)\<lparr>daif_I := True, daif_F := True\<rparr>) (cx_irq_disable_depth s + 1)
     (if cx_irq_disable_depth s = 0 then r_intrd_enabled s else cx_irq_was_enabled s) s"
  by (simp add: irq_push_intr_def cx_put_def w_intrd_disable_def Let_def)

lemma cx_sec_as_put:
  "cx_sec s = cx_put (cx_daif s) (cx_irq_disable_depth s)
     (if cx_irq_disable_depth s = 0 then r_intrd_enabled s else cx_irq_was_enabled s) s"
  by (simp add: cx_sec_def cx_put_def)

lemma cx_sec_fields [simp]: "cx_cpu (cx_sec s) = cx_cpu s" "cx_daif (cx_sec s) = cx_daif s"
  "cx_irq_disable_depth (cx_sec s) = cx_irq_disable_depth s" "cx_ok (cx_sec s) = cx_ok s"
  "r_intrd_enabled (cx_sec s) = r_intrd_enabled s" "cx_sec (cx_sec s) = cx_sec s"
  "irq_local_is_enable (cx_sec s) = irq_local_is_enable s" "cpu_ctx.more (cx_sec s) = cpu_ctx.more s"
  by (auto simp: cx_sec_def cx_ok_def r_intrd_enabled_def irq_local_is_enable_def)

lemma cx_push_fields [simp]: "cx_cpu (irq_push_intr s) = cx_cpu s"
  "cx_irq_disable_depth (irq_push_intr s) = cx_irq_disable_depth s + 1"
  "cx_ok s \<Longrightarrow> cx_ok (irq_push_intr s)" "\<not> r_intrd_enabled (irq_push_intr s)"
  by (auto simp: irq_push_as_put cx_ok_def r_intrd_enabled_def)

lemma cx_sec_push [simp]: "cx_ok s \<Longrightarrow> cx_sec (irq_push_intr s) = irq_push_intr s"
  by (auto simp: cx_sec_def cx_ok_def)

lemma cx_same_sec [simp]: "cx_same s (cx_sec s)"
  by (simp add: cx_same_def cx_sec_def)

lemma irq_pop_push:
  assumes "cx_ok s"
  shows "irq_pop_intr (irq_push_intr s) = Some (cx_sec s)"
proof -
  have "(cx_daif s)\<lparr>daif_I := b, daif_F := b\<rparr> = cx_daif s" if "daif_I (cx_daif s) = b" for b
    using that assms by (cases "cx_daif s") (simp add: cx_ok_def)
  then show ?thesis
    using assms
    by (auto simp: irq_pop_intr_def irq_push_as_put cx_put_def cx_sec_def r_intrd_enabled_def cx_ok_def
        w_intrd_enable_def ASSERT_def)
qed

locale lock_slot =
  fixes ok :: "'a cpu_ctx_scheme \<Rightarrow> bool"
    and get :: "'a cpu_ctx_scheme \<Rightarrow> SpinLock"
    and put :: "SpinLock \<Rightarrow> 'a cpu_ctx_scheme \<Rightarrow> 'a cpu_ctx_scheme"
  assumes get_put: "ok s \<Longrightarrow> get (put l s) = l"
    and ok_put: "ok s \<Longrightarrow> ok (put l s)"
    and get_cx: "get (cx_put d n w s) = get s"
    and put_cx: "put l (cx_put d n w s) = cx_put d n w (put l s)"
    and put_fields: "cx_cpu (put l s) = cx_cpu s" "cx_daif (put l s) = cx_daif s"
      "cx_irq_disable_depth (put l s) = cx_irq_disable_depth s" "cx_irq_was_enabled (put l s) = cx_irq_was_enabled s"
begin

lemma put_push: "put l (irq_push_intr s) = irq_push_intr (put l s)"
  by (simp add: irq_push_as_put put_cx put_fields r_intrd_enabled_def)

lemma get_push: "get (irq_push_intr s) = get s"
  by (simp add: irq_push_as_put get_cx)

lemma put_sec: "put l (cx_sec s) = cx_sec (put l s)"
  by (simp add: cx_sec_as_put put_cx put_fields r_intrd_enabled_def)

lemma get_sec: "get (cx_sec s) = get s"
  by (simp add: cx_sec_as_put get_cx)

text \<open>A section on a free lock.\<close>

lemma section_eq:
  assumes "cx_ok s" "\<not> sp_locked (get s)"
    and body: "body (irq_push_intr (put (held_by s) s)) = Some (irq_push_intr y, r)"
    and y: "cx_ok y" "get y = held_by s" "cx_cpu y = cx_cpu s"
  shows "with_lock get put body s = Some (cx_sec (put spinlock_init y), r)"
proof -
  have "spinlock_acquire (get s) s = Some (held_by s, irq_push_intr s)"
    using assms(2) by (simp add: spinlock_acquire_def held_by_def holding_def)
  moreover have "spinlock_release (get (irq_push_intr y)) (irq_push_intr y) = Some (spinlock_init, cx_sec y)"
    using y irq_pop_push [OF y(1)]
    by (simp add: get_push spinlock_release_def holding_def held_by_def spinlock_init_def)
  ultimately show ?thesis
    using body by (simp add: with_lock_def put_push put_sec)
qed

text \<open>The same for a body known by its effect on the interrupt state only.\<close>

lemma section_rel:
  assumes "cx_ok s" "\<not> sp_locked (get s)" "body (irq_push_intr (put (held_by s) s)) = Some (y, r)"
    and y: "cx_pushed s y" "get y = held_by s"
  shows "\<exists>s'. with_lock get put body s = Some (put spinlock_init s', r) \<and> cx_same s s' \<and> cpu_ctx.more s' = cpu_ctx.more y"
proof -
  have "spinlock_acquire (get s) s = Some (held_by s, irq_push_intr s)"
    using assms(2) by (simp add: spinlock_acquire_def held_by_def holding_def)
  moreover obtain s' where "spinlock_release (get y) y = Some (spinlock_init, s')" "cx_same s s'" "cpu_ctx.more s' = cpu_ctx.more y"
    using spinlock_release_ok [OF assms(1) y(1)] y(2) unfolding held_by_def by metis
  ultimately show ?thesis using assms(3) by (intro exI [of _ s']) (simp add: with_lock_def put_push)
qed

text \<open>A section on a lock that is taken does not return.\<close>

lemma section_stuck: "sp_locked (get s) \<Longrightarrow> with_lock get put body s = None"
  by (auto simp: with_lock_def spinlock_acquire_def ASSERT_def)

text \<open>A section whose body stops the machine.\<close>

lemma section_none:
  assumes "body (irq_push_intr (put (held_by s) s)) = None"
  shows "with_lock get put body s = None"
proof (cases "sp_locked (get s)")
  case False
  then have "spinlock_acquire (get s) s = Some (held_by s, irq_push_intr s)"
    by (simp add: spinlock_acquire_def held_by_def holding_def)
  with assms show ?thesis by (simp add: with_lock_def put_push)
qed (rule section_stuck)

end

end
