(* ===== verification/KState.thy ===== *)
theory KState
  imports FDTable IntrusiveList ScopedLock
begin

text \<open>
  The objects the scheduler and the process code share, and the kernel state that holds them:
  \<^verbatim>\<open>Task\<close> (\<^verbatim>\<open>kernel/core/task.h\<close>), \<^verbatim>\<open>RunQueue\<close> and
  \<^verbatim>\<open>WaitQueue\<close> (\<^verbatim>\<open>kernel/sync\<close>), \<^verbatim>\<open>Cpu\<close>
  (\<^verbatim>\<open>kernel/core/cpu.h\<close>), \<^verbatim>\<open>Process\<close> (\<^verbatim>\<open>kernel/core/process.h\<close>),
  and the two managers.

  Objects allocated on the heap are in partial maps from their address, so that an access to a freed
  object is \<open>None\<close>. Nullable pointers are options. A \<^verbatim>\<open>Cpu\<close> is named by its index in
  \<^verbatim>\<open>CPUS\<close>. The nodes that objects embed are in one store per member, as
  \<open>IntrusiveList\<close> has them. A wait queue is named by the object it is embedded in. The
  state is the view of one processor, \<open>cx_cpu\<close>, whose registers it has.
\<close>

section \<open>Objects\<close>

datatype TaskState = TASK_READY | TASK_RUNNING | TASK_BLOCKED | TASK_DEAD

datatype wq_ref = SleepingTasks nat | WaitersOf u64

text \<open>
  What a saved link register can point to: nothing, the three entry points of new tasks, or the
  instruction after the call of \<^verbatim>\<open>context_switch\<close> in
  \<^verbatim>\<open>scheduler_switch\<close>, whose frame has the local \<^verbatim>\<open>irq_was_enabled\<close>.
\<close>

datatype code_addr = NullCode | TaskTrampoline | UserEntryTrampoline | ChildReturnTrampoline
  | SwitchReturn bool

record ExecutionContext =
  ec_regs :: "u64 list"
  ec_lr :: code_addr
  ec_sp :: u64

datatype task_fn = TaskIdle | TaskCleanup | TaskFn u64

record Task =
  t_tid :: usize
  t_name :: string
  t_cpu :: "nat option"
  t_stack :: u64
  t_context :: ExecutionContext
  t_state :: TaskState
  t_waiting_on :: "wq_ref option"
  t_process :: "u64 option"
  t_sleep_until :: usize
  t_entry :: task_fn
  t_arg :: u64
  t_user_stack :: usize

record RunQueue =
  rq_lock :: SpinLock
  rq_runnables :: "u64 IntrusiveList"

record WaitQueue =
  wq_lock :: SpinLock
  wq_waiters :: "u64 IntrusiveList"

record CpuTimer =
  ct_ticks :: usize
  ct_resched_after :: usize

record Cpu =
  cpu_online :: bool
  cpu_cpuid :: u32
  cpu_timer :: CpuTimer
  cpu_needs_resched :: bool
  cpu_current :: "u64 option"
  cpu_idle :: "u64 option"
  cpu_cleanup_task :: "u64 option"
  cpu_needs_cleanup :: bool
  cpu_runnable_tasks :: RunQueue
  cpu_sleeping_tasks :: wq_ref

datatype ProcessState = PROCESS_RUNNING | PROCESS_ZOMBIE

record Process =
  pr_name :: string
  pr_pid :: usize
  pr_lock :: SpinLock
  pr_address_space :: "u64 option"
  pr_state :: ProcessState
  pr_threads :: "u64 IntrusiveList"
  pr_parent :: "u64 option"
  pr_children :: "u64 IntrusiveList"
  pr_child_waiters :: wq_ref
  pr_files :: "u64 option"
  pr_exiting :: bool
  pr_exit_code :: int

record TaskManager =
  tm_lock :: SpinLock
  tm_tasks :: "u64 IntrusiveList"
  tm_task_id_count :: usize

record ProcManager =
  pm_lock :: SpinLock
  pm_process_list :: "u64 IntrusiveList"
  pm_pid_count :: usize

section \<open>The kernel state\<close>

text \<open>
  The memory system as the code above it sees it; \<open>'h\<close> is its state (page tables, physical
  memory, regions, heap). Besides the heap: the table of an address space and its lock, the physical
  address of a table, the operations on address spaces without their locking (the copy of an address space also
  says whether it destroyed the new one after an error), loading a program,
  copying from and to the memory of the user (the address space is that of the current process), what a
  block that \<^verbatim>\<open>kalloc\<close> returned holds before it is initialised, read as a task or as a
  process, and the address of a function of the kernel.
\<close>

record 'h mm_ops =
  mo_heap :: "'h heap_ops"
  mo_virt_to_phys :: "u64 \<Rightarrow> usize option"
  mo_table :: "'h \<Rightarrow> u64 \<Rightarrow> u64 option"
  mo_as_lock :: "'h \<Rightarrow> u64 \<Rightarrow> SpinLock option"
  mo_address_space_create :: "'h \<Rightarrow> string \<Rightarrow> ('h \<times> u64) option"
  mo_address_space_create_from :: "'h \<Rightarrow> u64 \<Rightarrow> ('h \<times> u64 \<times> bool) option"
  mo_address_space_destroy :: "'h \<Rightarrow> u64 \<Rightarrow> 'h option"
  mo_address_space_alloc :: "'h \<Rightarrow> u64 \<Rightarrow> usize \<Rightarrow> ('h \<times> u64) option"
  mo_address_space_map_owned :: "'h \<Rightarrow> u64 \<Rightarrow> usize \<Rightarrow> usize \<Rightarrow> usize \<Rightarrow> ('h \<times> errno_t) option"
  mo_elf_load :: "'h \<Rightarrow> u8 list \<Rightarrow> u64 \<Rightarrow> ('h \<times> errno_t \<times> u64) option"
  mo_copy_from_user :: "'h \<Rightarrow> u64 option \<Rightarrow> u64 \<Rightarrow> usize \<Rightarrow> (u8 list \<times> errno_t) option"
  mo_copy_to_user_u64 :: "'h \<Rightarrow> u64 option \<Rightarrow> u64 \<Rightarrow> u64 \<Rightarrow> ('h \<times> errno_t) option"
  mo_fresh_task :: "'h \<Rightarrow> u64 \<Rightarrow> Task"
  mo_fresh_process :: "'h \<Rightarrow> u64 \<Rightarrow> Process"
  mo_fn_addr :: "task_fn \<Rightarrow> u64"

abbreviation CONFIG_MAX_CPU_COUNT :: nat where "CONFIG_MAX_CPU_COUNT \<equiv> 8"

record ('h, 'w) kstate = "('h, 'w) fs_state" +
  ks_tasks :: "u64 \<Rightarrow> Task option"
  ks_global_node :: "u64 inodes"
  ks_runnable_node :: "u64 inodes"
  ks_wait_node :: "u64 inodes"
  ks_process_node :: "u64 inodes"
  ks_cpus :: "nat \<Rightarrow> Cpu"
  ks_wqs :: "wq_ref \<Rightarrow> WaitQueue"
  ks_procs :: "u64 \<Rightarrow> Process option"
  ks_manager_node :: "u64 inodes"
  ks_parent_node :: "u64 inodes"
  ks_fdtables :: "u64 \<Rightarrow> FDTable option"
  ks_task_manager :: TaskManager
  ks_proc_manager :: ProcManager
  ks_stack_mem :: "u64 \<Rightarrow> u64"
  ks_regs :: "u64 list"
  ks_sp :: u64
  ks_ttbr0 :: u64
  ks_kernel_user_table :: u64
  ks_timer_counter :: usize
  ks_timer_frequency :: usize

type_synonym ('h, 'w, 'a) kss = "('h, 'w, 'a) kstate_scheme"

definition set_task :: "u64 \<Rightarrow> Task \<Rightarrow> ('h, 'w, 'a) kss \<Rightarrow> ('h, 'w, 'a) kss" where
  "set_task p t s = s\<lparr>ks_tasks := (ks_tasks s)(p \<mapsto> t)\<rparr>"

definition set_cpu :: "nat \<Rightarrow> Cpu \<Rightarrow> ('h, 'w, 'a) kss \<Rightarrow> ('h, 'w, 'a) kss" where
  "set_cpu c v s = s\<lparr>ks_cpus := (ks_cpus s)(c := v)\<rparr>"

definition set_wq :: "wq_ref \<Rightarrow> WaitQueue \<Rightarrow> ('h, 'w, 'a) kss \<Rightarrow> ('h, 'w, 'a) kss" where
  "set_wq q v s = s\<lparr>ks_wqs := (ks_wqs s)(q := v)\<rparr>"

definition set_proc :: "u64 \<Rightarrow> Process \<Rightarrow> ('h, 'w, 'a) kss \<Rightarrow> ('h, 'w, 'a) kss" where
  "set_proc p v s = s\<lparr>ks_procs := (ks_procs s)(p \<mapsto> v)\<rparr>"

text \<open>The processor that runs the code.\<close>

definition cpu_get_cpuid :: "('h, 'w, 'a) kss \<Rightarrow> nat" where
  "cpu_get_cpuid s = cx_cpu s"

definition this_cpu :: "('h, 'w, 'a) kss \<Rightarrow> Cpu" where
  "this_cpu s = ks_cpus s (cx_cpu s)"

definition task_get_current :: "('h, 'w, 'a) kss \<Rightarrow> u64" where
  "task_get_current s = (case cpu_current (this_cpu s) of None \<Rightarrow> ERR_TO_PTR (- ENOENT) | Some task \<Rightarrow> task)"

section \<open>The locks of the state\<close>

definition rq_get :: "nat \<Rightarrow> ('h, 'w, 'a) kss \<Rightarrow> SpinLock" where
  "rq_get c s = rq_lock (cpu_runnable_tasks (ks_cpus s c))"
definition rq_put :: "nat \<Rightarrow> SpinLock \<Rightarrow> ('h, 'w, 'a) kss \<Rightarrow> ('h, 'w, 'a) kss" where
  "rq_put c l s = set_cpu c ((ks_cpus s c)\<lparr>cpu_runnable_tasks := (cpu_runnable_tasks (ks_cpus s c))\<lparr>rq_lock := l\<rparr>\<rparr>) s"

definition wq_get :: "wq_ref \<Rightarrow> ('h, 'w, 'a) kss \<Rightarrow> SpinLock" where
  "wq_get q s = wq_lock (ks_wqs s q)"
definition wq_put :: "wq_ref \<Rightarrow> SpinLock \<Rightarrow> ('h, 'w, 'a) kss \<Rightarrow> ('h, 'w, 'a) kss" where
  "wq_put q l s = set_wq q ((ks_wqs s q)\<lparr>wq_lock := l\<rparr>) s"

definition tm_get :: "('h, 'w, 'a) kss \<Rightarrow> SpinLock" where
  "tm_get s = tm_lock (ks_task_manager s)"
definition tm_put :: "SpinLock \<Rightarrow> ('h, 'w, 'a) kss \<Rightarrow> ('h, 'w, 'a) kss" where
  "tm_put l s = s\<lparr>ks_task_manager := (ks_task_manager s)\<lparr>tm_lock := l\<rparr>\<rparr>"

definition pm_get :: "('h, 'w, 'a) kss \<Rightarrow> SpinLock" where
  "pm_get s = pm_lock (ks_proc_manager s)"
definition pm_put :: "SpinLock \<Rightarrow> ('h, 'w, 'a) kss \<Rightarrow> ('h, 'w, 'a) kss" where
  "pm_put l s = s\<lparr>ks_proc_manager := (ks_proc_manager s)\<lparr>pm_lock := l\<rparr>\<rparr>"

text \<open>A lock of a process; on an address with no process the lock counts as taken.\<close>

definition pr_get :: "u64 \<Rightarrow> ('h, 'w, 'a) kss \<Rightarrow> SpinLock" where
  "pr_get p s = (case ks_procs s p of None \<Rightarrow> \<lparr>sp_locked = True, sp_cpu = None\<rparr> | Some v \<Rightarrow> pr_lock v)"
definition pr_put :: "u64 \<Rightarrow> SpinLock \<Rightarrow> ('h, 'w, 'a) kss \<Rightarrow> ('h, 'w, 'a) kss" where
  "pr_put p l s = s\<lparr>ks_procs := (ks_procs s)(p := map_option (\<lambda>v. v\<lparr>pr_lock := l\<rparr>) (ks_procs s p))\<rparr>"

lemmas slot_defs = rq_get_def rq_put_def wq_get_def wq_put_def tm_get_def tm_put_def pm_get_def pm_put_def
  pr_get_def pr_put_def set_cpu_def set_wq_def

interpretation rql: lock_slot "\<lambda>_. True" "rq_get c" "rq_put c" for c
  by unfold_locales (simp_all add: slot_defs cx_put_def)

interpretation wql: lock_slot "\<lambda>_. True" "wq_get q" "wq_put q" for q
  by unfold_locales (simp_all add: slot_defs cx_put_def)

interpretation tml: lock_slot "\<lambda>_. True" tm_get tm_put
  by unfold_locales (simp_all add: slot_defs cx_put_def)

interpretation pml: lock_slot "\<lambda>_. True" pm_get pm_put
  by unfold_locales (simp_all add: slot_defs cx_put_def)

interpretation prl: lock_slot "\<lambda>s. ks_procs s p \<noteq> None" "pr_get p" "pr_put p" for p
  by unfold_locales (auto simp: slot_defs cx_put_def)

section \<open>State updates and the interrupt state\<close>

text \<open>
  No operation on kernel objects reads or writes the interrupt state: the two markers
  \<^const>\<open>irq_push_intr\<close> and \<^const>\<open>cx_sec\<close> are invisible to field accesses and move
  outwards over field updates.
\<close>

lemma ks_push [simp]:
  "ks_tasks (irq_push_intr s) = ks_tasks s" "ks_global_node (irq_push_intr s) = ks_global_node s"
  "ks_runnable_node (irq_push_intr s) = ks_runnable_node s" "ks_wait_node (irq_push_intr s) = ks_wait_node s"
  "ks_process_node (irq_push_intr s) = ks_process_node s" "ks_cpus (irq_push_intr s) = ks_cpus s"
  "ks_wqs (irq_push_intr s) = ks_wqs s" "ks_procs (irq_push_intr s) = ks_procs s"
  "ks_manager_node (irq_push_intr s) = ks_manager_node s" "ks_parent_node (irq_push_intr s) = ks_parent_node s"
  "ks_fdtables (irq_push_intr s) = ks_fdtables s"
  "ks_task_manager (irq_push_intr s) = ks_task_manager s" "ks_proc_manager (irq_push_intr s) = ks_proc_manager s"
  "ks_stack_mem (irq_push_intr s) = ks_stack_mem s"
  "ks_timer_counter (irq_push_intr s) = ks_timer_counter s" "ks_timer_frequency (irq_push_intr s) = ks_timer_frequency s"
  "fs_heap (irq_push_intr s) = fs_heap s" "fs_files (irq_push_intr s) = fs_files s" "fs_world (irq_push_intr s) = fs_world s"
  by (simp_all add: irq_push_as_put cx_put_def)

lemma ks_push_upd [simp]:
  "(irq_push_intr s)\<lparr>ks_tasks := a1\<rparr> = irq_push_intr (s\<lparr>ks_tasks := a1\<rparr>)"
  "(irq_push_intr s)\<lparr>ks_global_node := a2\<rparr> = irq_push_intr (s\<lparr>ks_global_node := a2\<rparr>)"
  "(irq_push_intr s)\<lparr>ks_runnable_node := a2\<rparr> = irq_push_intr (s\<lparr>ks_runnable_node := a2\<rparr>)"
  "(irq_push_intr s)\<lparr>ks_wait_node := a2\<rparr> = irq_push_intr (s\<lparr>ks_wait_node := a2\<rparr>)"
  "(irq_push_intr s)\<lparr>ks_process_node := a2\<rparr> = irq_push_intr (s\<lparr>ks_process_node := a2\<rparr>)"
  "(irq_push_intr s)\<lparr>ks_cpus := a3\<rparr> = irq_push_intr (s\<lparr>ks_cpus := a3\<rparr>)"
  "(irq_push_intr s)\<lparr>ks_wqs := a4\<rparr> = irq_push_intr (s\<lparr>ks_wqs := a4\<rparr>)"
  "(irq_push_intr s)\<lparr>ks_procs := a5\<rparr> = irq_push_intr (s\<lparr>ks_procs := a5\<rparr>)"
  "(irq_push_intr s)\<lparr>ks_manager_node := a2\<rparr> = irq_push_intr (s\<lparr>ks_manager_node := a2\<rparr>)"
  "(irq_push_intr s)\<lparr>ks_parent_node := a2\<rparr> = irq_push_intr (s\<lparr>ks_parent_node := a2\<rparr>)"
  "(irq_push_intr s)\<lparr>ks_task_manager := a6\<rparr> = irq_push_intr (s\<lparr>ks_task_manager := a6\<rparr>)"
  "(irq_push_intr s)\<lparr>ks_proc_manager := a7\<rparr> = irq_push_intr (s\<lparr>ks_proc_manager := a7\<rparr>)"
  "(irq_push_intr s)\<lparr>ks_stack_mem := a9\<rparr> = irq_push_intr (s\<lparr>ks_stack_mem := a9\<rparr>)"
  "(irq_push_intr s)\<lparr>ks_fdtables := a10\<rparr> = irq_push_intr (s\<lparr>ks_fdtables := a10\<rparr>)"
  "(irq_push_intr s)\<lparr>fs_heap := a8\<rparr> = irq_push_intr (s\<lparr>fs_heap := a8\<rparr>)"
  for s :: "('h, 'w, 'a) kss"
  by (simp_all add: irq_push_as_put cx_put_def r_intrd_enabled_def)

lemma ks_sec [simp]:
  "ks_tasks (cx_sec s) = ks_tasks s" "ks_global_node (cx_sec s) = ks_global_node s"
  "ks_runnable_node (cx_sec s) = ks_runnable_node s" "ks_wait_node (cx_sec s) = ks_wait_node s"
  "ks_process_node (cx_sec s) = ks_process_node s" "ks_cpus (cx_sec s) = ks_cpus s"
  "ks_wqs (cx_sec s) = ks_wqs s" "ks_procs (cx_sec s) = ks_procs s"
  "ks_manager_node (cx_sec s) = ks_manager_node s" "ks_parent_node (cx_sec s) = ks_parent_node s"
  "ks_fdtables (cx_sec s) = ks_fdtables s"
  "ks_task_manager (cx_sec s) = ks_task_manager s" "ks_proc_manager (cx_sec s) = ks_proc_manager s"
  "ks_stack_mem (cx_sec s) = ks_stack_mem s"
  "ks_timer_counter (cx_sec s) = ks_timer_counter s" "ks_timer_frequency (cx_sec s) = ks_timer_frequency s"
  "ks_regs (cx_sec s) = ks_regs s" "ks_sp (cx_sec s) = ks_sp s" "ks_ttbr0 (cx_sec s) = ks_ttbr0 s"
  "ks_kernel_user_table (cx_sec s) = ks_kernel_user_table s"
  "fs_heap (cx_sec s) = fs_heap s" "fs_files (cx_sec s) = fs_files s" "fs_world (cx_sec s) = fs_world s"
  by (simp_all add: cx_sec_def)

lemma ks_sec_upd [simp]:
  "(cx_sec s)\<lparr>ks_tasks := a1\<rparr> = cx_sec (s\<lparr>ks_tasks := a1\<rparr>)"
  "(cx_sec s)\<lparr>ks_global_node := a2\<rparr> = cx_sec (s\<lparr>ks_global_node := a2\<rparr>)"
  "(cx_sec s)\<lparr>ks_runnable_node := a2\<rparr> = cx_sec (s\<lparr>ks_runnable_node := a2\<rparr>)"
  "(cx_sec s)\<lparr>ks_wait_node := a2\<rparr> = cx_sec (s\<lparr>ks_wait_node := a2\<rparr>)"
  "(cx_sec s)\<lparr>ks_process_node := a2\<rparr> = cx_sec (s\<lparr>ks_process_node := a2\<rparr>)"
  "(cx_sec s)\<lparr>ks_cpus := a3\<rparr> = cx_sec (s\<lparr>ks_cpus := a3\<rparr>)"
  "(cx_sec s)\<lparr>ks_wqs := a4\<rparr> = cx_sec (s\<lparr>ks_wqs := a4\<rparr>)"
  "(cx_sec s)\<lparr>ks_procs := a5\<rparr> = cx_sec (s\<lparr>ks_procs := a5\<rparr>)"
  "(cx_sec s)\<lparr>ks_manager_node := a2\<rparr> = cx_sec (s\<lparr>ks_manager_node := a2\<rparr>)"
  "(cx_sec s)\<lparr>ks_parent_node := a2\<rparr> = cx_sec (s\<lparr>ks_parent_node := a2\<rparr>)"
  "(cx_sec s)\<lparr>ks_task_manager := a6\<rparr> = cx_sec (s\<lparr>ks_task_manager := a6\<rparr>)"
  "(cx_sec s)\<lparr>ks_proc_manager := a7\<rparr> = cx_sec (s\<lparr>ks_proc_manager := a7\<rparr>)"
  "(cx_sec s)\<lparr>ks_stack_mem := a9\<rparr> = cx_sec (s\<lparr>ks_stack_mem := a9\<rparr>)"
  "(cx_sec s)\<lparr>ks_fdtables := a10\<rparr> = cx_sec (s\<lparr>ks_fdtables := a10\<rparr>)"
  "(cx_sec s)\<lparr>fs_heap := a8\<rparr> = cx_sec (s\<lparr>fs_heap := a8\<rparr>)"
  for s :: "('h, 'w, 'a) kss"
  by (simp_all add: cx_sec_def r_intrd_enabled_def)

lemma this_cpu_sec [simp]: "this_cpu (cx_sec s) = this_cpu s" "this_cpu (irq_push_intr s) = this_cpu s"
  "task_get_current (cx_sec s) = task_get_current s"
  by (simp_all add: this_cpu_def task_get_current_def)

lemma cx_ok_upd [simp]:
  "cx_ok (s\<lparr>ks_tasks := a1\<rparr>) = cx_ok s" "cx_ok (s\<lparr>ks_global_node := a2\<rparr>) = cx_ok s"
  "cx_ok (s\<lparr>ks_runnable_node := a2\<rparr>) = cx_ok s" "cx_ok (s\<lparr>ks_wait_node := a2\<rparr>) = cx_ok s"
  "cx_ok (s\<lparr>ks_process_node := a2\<rparr>) = cx_ok s" "cx_ok (s\<lparr>ks_cpus := a3\<rparr>) = cx_ok s"
  "cx_ok (s\<lparr>ks_wqs := a4\<rparr>) = cx_ok s" "cx_ok (s\<lparr>ks_procs := a5\<rparr>) = cx_ok s"
  "cx_ok (s\<lparr>ks_manager_node := a2\<rparr>) = cx_ok s" "cx_ok (s\<lparr>ks_parent_node := a2\<rparr>) = cx_ok s"
  "cx_ok (s\<lparr>ks_task_manager := a6\<rparr>) = cx_ok s" "cx_ok (s\<lparr>ks_proc_manager := a7\<rparr>) = cx_ok s"
  "cx_ok (s\<lparr>fs_heap := a8\<rparr>) = cx_ok s" "cx_ok (s\<lparr>ks_stack_mem := a9\<rparr>) = cx_ok s" "cx_ok (s\<lparr>ks_fdtables := a10\<rparr>) = cx_ok s"
  "cx_ok (set_task p t s) = cx_ok s" "cx_ok (set_cpu c v s) = cx_ok s" "cx_ok (set_wq q w s) = cx_ok s"
  "cx_ok (set_proc x pv s) = cx_ok s"
  for s :: "('h, 'w, 'a) kss"
  by (simp_all add: cx_ok_def set_task_def set_cpu_def set_wq_def set_proc_def)

end
