(* ===== verification/Queues.thy ===== *)
theory Queues
  imports KState
begin

text \<open>
  Run queues (\<^verbatim>\<open>kernel/sync/run_queue.c\<close>) and wait queues
  (\<^verbatim>\<open>kernel/sync/wait_queue.c\<close>): intrusive lists of tasks under a spinlock. A run queue
  is named by its processor, a wait queue by the object that embeds it. \<open>rq_rep\<close> and
  \<open>wq_rep\<close> say which list of tasks a queue holds; the lemmas give each operation as an
  equation on a free lock together with its effect on these lists.
\<close>

section \<open>Run queues\<close>

definition runqueue_init :: RunQueue where
  "runqueue_init = \<lparr>rq_lock = spinlock_init, rq_runnables = intrusivelist_init\<rparr>"

definition set_runnables :: "nat \<Rightarrow> u64 IntrusiveList \<Rightarrow> u64 inodes \<Rightarrow> ('h, 'w, 'a) kss \<Rightarrow> ('h, 'w, 'a) kss" where
  "set_runnables c il h s =
     (set_cpu c ((ks_cpus s c)\<lparr>cpu_runnable_tasks := (cpu_runnable_tasks (ks_cpus s c))\<lparr>rq_runnables := il\<rparr>\<rparr>) s)
       \<lparr>ks_runnable_node := h\<rparr>"

abbreviation runnables :: "nat \<Rightarrow> ('h, 'w, 'a) kss \<Rightarrow> u64 IntrusiveList" where
  "runnables c s \<equiv> rq_runnables (cpu_runnable_tasks (ks_cpus s c))"

definition runqueue_enqueue_unlocked :: "nat \<Rightarrow> u64 \<Rightarrow> ('h, 'w, 'a) kss \<Rightarrow> (('h, 'w, 'a) kss \<times> unit) option" where
  "runqueue_enqueue_unlocked rq task s = do {
     t \<leftarrow> ks_tasks s task;
     ASSERT (t_state t = TASK_READY);
     spinlock_assert_locked (rq_get rq s);
     let (il, h) = intrusivelist_insert_tail (runnables rq s) (ks_runnable_node s) task;
     Some (set_runnables rq il h s, ())
   }"

definition runqueue_dequeue_unlocked :: "nat \<Rightarrow> ('h, 'w, 'a) kss \<Rightarrow> (('h, 'w, 'a) kss \<times> u64 option) option" where
  "runqueue_dequeue_unlocked rq s = do {
     spinlock_assert_locked (rq_get rq s);
     let (il, h, run_node) = intrusivelist_remove_head (runnables rq s) (ks_runnable_node s);
     Some (set_runnables rq il h s, run_node)
   }"

definition runqueue_remove_unlocked :: "nat \<Rightarrow> u64 \<Rightarrow> ('h, 'w, 'a) kss \<Rightarrow> (('h, 'w, 'a) kss \<times> unit) option" where
  "runqueue_remove_unlocked rq task s = do {
     spinlock_assert_locked (rq_get rq s);
     let (il, h) = intrusivelist_remove (runnables rq s) (ks_runnable_node s) task;
     Some (set_runnables rq il h s, ())
   }"

definition runqueue_is_empty_unlocked :: "nat \<Rightarrow> ('h, 'w, 'a) kss \<Rightarrow> (('h, 'w, 'a) kss \<times> bool) option" where
  "runqueue_is_empty_unlocked rq s = do {
     spinlock_assert_locked (rq_get rq s);
     Some (s, intrusivelist_is_empty (runnables rq s))
   }"

definition runqueue_count_unlocked :: "nat \<Rightarrow> ('h, 'w, 'a) kss \<Rightarrow> (('h, 'w, 'a) kss \<times> usize) option" where
  "runqueue_count_unlocked rq s = do {
     spinlock_assert_locked (rq_get rq s);
     Some (s, intrusivelist_count (runnables rq s))
   }"

definition runqueue_peek_unlocked :: "nat \<Rightarrow> ('h, 'w, 'a) kss \<Rightarrow> (('h, 'w, 'a) kss \<times> u64 option) option" where
  "runqueue_peek_unlocked rq s = do {
     spinlock_assert_locked (rq_get rq s);
     Some (s, intrusivelist_peek_head (runnables rq s))
   }"

definition runqueue_enqueue :: "nat \<Rightarrow> u64 \<Rightarrow> ('h, 'w, 'a) kss \<Rightarrow> (('h, 'w, 'a) kss \<times> unit) option" where
  "runqueue_enqueue rq task s = do {
     t \<leftarrow> ks_tasks s task;
     ASSERT (t_state t = TASK_READY);
     with_lock (rq_get rq) (rq_put rq) (runqueue_enqueue_unlocked rq task) s
   }"

definition runqueue_dequeue :: "nat \<Rightarrow> ('h, 'w, 'a) kss \<Rightarrow> (('h, 'w, 'a) kss \<times> u64 option) option" where
  "runqueue_dequeue rq s = with_lock (rq_get rq) (rq_put rq) (runqueue_dequeue_unlocked rq) s"

definition runqueue_remove :: "nat \<Rightarrow> u64 \<Rightarrow> ('h, 'w, 'a) kss \<Rightarrow> (('h, 'w, 'a) kss \<times> unit) option" where
  "runqueue_remove rq task s = with_lock (rq_get rq) (rq_put rq) (runqueue_remove_unlocked rq task) s"

definition runqueue_is_empty :: "nat \<Rightarrow> ('h, 'w, 'a) kss \<Rightarrow> (('h, 'w, 'a) kss \<times> bool) option" where
  "runqueue_is_empty rq s = with_lock (rq_get rq) (rq_put rq) (runqueue_is_empty_unlocked rq) s"

definition runqueue_count :: "nat \<Rightarrow> ('h, 'w, 'a) kss \<Rightarrow> (('h, 'w, 'a) kss \<times> usize) option" where
  "runqueue_count rq s = with_lock (rq_get rq) (rq_put rq) (runqueue_count_unlocked rq) s"

definition runqueue_peek :: "nat \<Rightarrow> ('h, 'w, 'a) kss \<Rightarrow> (('h, 'w, 'a) kss \<times> u64 option) option" where
  "runqueue_peek rq s = with_lock (rq_get rq) (rq_put rq) (runqueue_peek_unlocked rq) s"

section \<open>Wait queues\<close>

definition waitqueue_init :: WaitQueue where
  "waitqueue_init = \<lparr>wq_lock = spinlock_init, wq_waiters = intrusivelist_init\<rparr>"

definition set_waiters :: "wq_ref \<Rightarrow> u64 IntrusiveList \<Rightarrow> u64 inodes \<Rightarrow> ('h, 'w, 'a) kss \<Rightarrow> ('h, 'w, 'a) kss" where
  "set_waiters q il h s = (set_wq q ((ks_wqs s q)\<lparr>wq_waiters := il\<rparr>) s)\<lparr>ks_wait_node := h\<rparr>"

abbreviation waiters :: "wq_ref \<Rightarrow> ('h, 'w, 'a) kss \<Rightarrow> u64 IntrusiveList" where
  "waiters q s \<equiv> wq_waiters (ks_wqs s q)"

definition waitqueue_enqueue_unlocked :: "wq_ref \<Rightarrow> u64 \<Rightarrow> ('h, 'w, 'a) kss \<Rightarrow> (('h, 'w, 'a) kss \<times> unit) option" where
  "waitqueue_enqueue_unlocked wq task s = do {
     t \<leftarrow> ks_tasks s task;
     ASSERT (t_state t \<noteq> TASK_READY);
     spinlock_assert_locked (wq_get wq s);
     let (il, h) = intrusivelist_insert_tail (waiters wq s) (ks_wait_node s) task;
     Some (set_task task (t\<lparr>t_waiting_on := Some wq\<rparr>) (set_waiters wq il h s), ())
   }"

definition waitqueue_dequeue_unlocked :: "wq_ref \<Rightarrow> ('h, 'w, 'a) kss \<Rightarrow> (('h, 'w, 'a) kss \<times> u64 option) option" where
  "waitqueue_dequeue_unlocked wq s = do {
     spinlock_assert_locked (wq_get wq s);
     let (il, h, wait_node) = intrusivelist_remove_head (waiters wq s) (ks_wait_node s);
     let s = set_waiters wq il h s;
     case wait_node of
       None \<Rightarrow> Some (s, None)
     | Some waiting_task \<Rightarrow> do {
         t \<leftarrow> ks_tasks s waiting_task;
         Some (set_task waiting_task (t\<lparr>t_waiting_on := None\<rparr>) s, Some waiting_task)
       }
   }"

definition waitqueue_remove_unlocked :: "wq_ref \<Rightarrow> u64 \<Rightarrow> ('h, 'w, 'a) kss \<Rightarrow> (('h, 'w, 'a) kss \<times> unit) option" where
  "waitqueue_remove_unlocked wq task s = do {
     spinlock_assert_locked (wq_get wq s);
     let (il, h) = intrusivelist_remove (waiters wq s) (ks_wait_node s) task;
     Some (set_waiters wq il h s, ())
   }"

definition waitqueue_is_empty_unlocked :: "wq_ref \<Rightarrow> ('h, 'w, 'a) kss \<Rightarrow> (('h, 'w, 'a) kss \<times> bool) option" where
  "waitqueue_is_empty_unlocked wq s = do {
     spinlock_assert_locked (wq_get wq s);
     Some (s, intrusivelist_is_empty (waiters wq s))
   }"

definition waitqueue_count_unlocked :: "wq_ref \<Rightarrow> ('h, 'w, 'a) kss \<Rightarrow> (('h, 'w, 'a) kss \<times> usize) option" where
  "waitqueue_count_unlocked wq s = do {
     spinlock_assert_locked (wq_get wq s);
     Some (s, intrusivelist_count (waiters wq s))
   }"

definition waitqueue_peek_unlocked :: "wq_ref \<Rightarrow> ('h, 'w, 'a) kss \<Rightarrow> (('h, 'w, 'a) kss \<times> u64 option) option" where
  "waitqueue_peek_unlocked wq s = do {
     spinlock_assert_locked (wq_get wq s);
     Some (s, intrusivelist_peek_head (waiters wq s))
   }"

definition waitqueue_enqueue :: "wq_ref \<Rightarrow> u64 \<Rightarrow> ('h, 'w, 'a) kss \<Rightarrow> (('h, 'w, 'a) kss \<times> unit) option" where
  "waitqueue_enqueue wq task s = with_lock (wq_get wq) (wq_put wq) (waitqueue_enqueue_unlocked wq task) s"

definition waitqueue_dequeue :: "wq_ref \<Rightarrow> ('h, 'w, 'a) kss \<Rightarrow> (('h, 'w, 'a) kss \<times> u64 option) option" where
  "waitqueue_dequeue wq s = with_lock (wq_get wq) (wq_put wq) (waitqueue_dequeue_unlocked wq) s"

definition waitqueue_remove :: "wq_ref \<Rightarrow> u64 \<Rightarrow> ('h, 'w, 'a) kss \<Rightarrow> (('h, 'w, 'a) kss \<times> unit) option" where
  "waitqueue_remove wq task s = with_lock (wq_get wq) (wq_put wq) (waitqueue_remove_unlocked wq task) s"

definition waitqueue_is_empty :: "wq_ref \<Rightarrow> ('h, 'w, 'a) kss \<Rightarrow> (('h, 'w, 'a) kss \<times> bool) option" where
  "waitqueue_is_empty wq s = with_lock (wq_get wq) (wq_put wq) (waitqueue_is_empty_unlocked wq) s"

definition waitqueue_count :: "wq_ref \<Rightarrow> ('h, 'w, 'a) kss \<Rightarrow> (('h, 'w, 'a) kss \<times> usize) option" where
  "waitqueue_count wq s = with_lock (wq_get wq) (wq_put wq) (waitqueue_count_unlocked wq) s"

definition waitqueue_peek :: "wq_ref \<Rightarrow> ('h, 'w, 'a) kss \<Rightarrow> (('h, 'w, 'a) kss \<times> u64 option) option" where
  "waitqueue_peek wq s = with_lock (wq_get wq) (wq_put wq) (waitqueue_peek_unlocked wq) s"


section \<open>Operations on free locks\<close>

text \<open>
  The effect of a whole operation, with the lock of the queue free before and after:
  \<open>rq_insert\<close> and the like are the list operation alone.
\<close>

definition rq_free :: "nat \<Rightarrow> ('h, 'w, 'a) kss \<Rightarrow> bool" where
  "rq_free c s \<longleftrightarrow> rq_get c s = spinlock_init"
definition wq_free :: "wq_ref \<Rightarrow> ('h, 'w, 'a) kss \<Rightarrow> bool" where
  "wq_free q s \<longleftrightarrow> wq_get q s = spinlock_init"

definition rq_insert :: "nat \<Rightarrow> u64 \<Rightarrow> ('h, 'w, 'a) kss \<Rightarrow> ('h, 'w, 'a) kss" where
  "rq_insert c p s = (let (il, h) = intrusivelist_insert_tail (runnables c s) (ks_runnable_node s) p in set_runnables c il h s)"

definition rq_pop :: "nat \<Rightarrow> ('h, 'w, 'a) kss \<Rightarrow> ('h, 'w, 'a) kss \<times> u64 option" where
  "rq_pop c s = (let (il, h, r) = intrusivelist_remove_head (runnables c s) (ks_runnable_node s) in (set_runnables c il h s, r))"

definition rq_delete :: "nat \<Rightarrow> u64 \<Rightarrow> ('h, 'w, 'a) kss \<Rightarrow> ('h, 'w, 'a) kss" where
  "rq_delete c p s = (let (il, h) = intrusivelist_remove (runnables c s) (ks_runnable_node s) p in set_runnables c il h s)"

definition wq_insert :: "wq_ref \<Rightarrow> u64 \<Rightarrow> ('h, 'w, 'a) kss \<Rightarrow> ('h, 'w, 'a) kss" where
  "wq_insert q p s = (let (il, h) = intrusivelist_insert_tail (waiters q s) (ks_wait_node s) p in set_waiters q il h s)"

definition wq_pop :: "wq_ref \<Rightarrow> ('h, 'w, 'a) kss \<Rightarrow> ('h, 'w, 'a) kss \<times> u64 option" where
  "wq_pop q s = (let (il, h, r) = intrusivelist_remove_head (waiters q s) (ks_wait_node s) in (set_waiters q il h s, r))"

definition wq_delete :: "wq_ref \<Rightarrow> u64 \<Rightarrow> ('h, 'w, 'a) kss \<Rightarrow> ('h, 'w, 'a) kss" where
  "wq_delete q p s = (let (il, h) = intrusivelist_remove (waiters q s) (ks_wait_node s) p in set_waiters q il h s)"

lemma held_locked [simp]: "sp_locked (held_by s)" "\<not> sp_locked spinlock_init"
  "spinlock_assert_locked (held_by s) = Some ()"
  by (simp_all add: held_by_def spinlock_init_def spinlock_assert_locked_def)

lemma rq_put_idem: "rq_free c s \<Longrightarrow> rq_put c spinlock_init s = s"
  by (cases "cpu_runnable_tasks (ks_cpus s c)", cases "ks_cpus s c")
    (auto intro!: kstate.equality simp: rq_free_def slot_defs)
lemma wq_put_idem: "wq_free q s \<Longrightarrow> wq_put q spinlock_init s = s"
  by (cases "ks_wqs s q") (auto intro!: kstate.equality simp: wq_free_def slot_defs)

lemma rq_put_put [simp]: "rq_put c l (rq_put c l' s) = rq_put c l s"
  by (simp add: slot_defs)
lemma wq_put_put [simp]: "wq_put q l (wq_put q l' s) = wq_put q l s"
  by (simp add: slot_defs)

lemma rq_put_fields [simp]: "ks_tasks (rq_put c l s) = ks_tasks s" "ks_runnable_node (rq_put c l s) = ks_runnable_node s"
  "runnables d (rq_put c l s) = runnables d s" "cx_ok (rq_put c l s) = cx_ok s" "cx_cpu (rq_put c l s) = cx_cpu s"
  "ks_wqs (rq_put c l s) = ks_wqs s" "rq_get c (rq_put c l s) = l" "ks_wait_node (rq_put c l s) = ks_wait_node s"
  by (simp_all add: slot_defs cx_ok_def)
lemma wq_put_fields [simp]: "ks_tasks (wq_put q l s) = ks_tasks s" "ks_wait_node (wq_put q l s) = ks_wait_node s"
  "waiters d (wq_put q l s) = waiters d s" "cx_ok (wq_put q l s) = cx_ok s" "cx_cpu (wq_put q l s) = cx_cpu s"
  "ks_cpus (wq_put q l s) = ks_cpus s" "wq_get q (wq_put q l s) = l" "ks_runnable_node (wq_put q l s) = ks_runnable_node s"
  by (simp_all add: slot_defs cx_ok_def)

lemma set_runnables_simps [simp]:
  "ks_tasks (set_runnables c il h s) = ks_tasks s" "ks_runnable_node (set_runnables c il h s) = h"
  "runnables d (set_runnables c il h s) = (if d = c then il else runnables d s)"
  "rq_get d (set_runnables c il h s) = rq_get d s" "cx_ok (set_runnables c il h s) = cx_ok s"
  "cx_cpu (set_runnables c il h s) = cx_cpu s" "ks_wqs (set_runnables c il h s) = ks_wqs s"
  "ks_wait_node (set_runnables c il h s) = ks_wait_node s"
  "set_runnables c il h (rq_put c l s) = rq_put c l (set_runnables c il h s)"
  "set_runnables c il h (irq_push_intr s) = irq_push_intr (set_runnables c il h s)"
  "set_runnables c il h (cx_sec s) = cx_sec (set_runnables c il h s)"
  by (cases "cpu_runnable_tasks (ks_cpus s c)", simp add: set_runnables_def slot_defs cx_ok_def)+

lemma set_waiters_simps [simp]:
  "ks_tasks (set_waiters q il h s) = ks_tasks s" "ks_wait_node (set_waiters q il h s) = h"
  "waiters d (set_waiters q il h s) = (if d = q then il else waiters d s)"
  "wq_get d (set_waiters q il h s) = wq_get d s" "cx_ok (set_waiters q il h s) = cx_ok s"
  "cx_cpu (set_waiters q il h s) = cx_cpu s" "ks_cpus (set_waiters q il h s) = ks_cpus s"
  "ks_runnable_node (set_waiters q il h s) = ks_runnable_node s"
  "set_waiters q il h (wq_put q l s) = wq_put q l (set_waiters q il h s)"
  "set_waiters q il h (irq_push_intr s) = irq_push_intr (set_waiters q il h s)"
  "set_waiters q il h (cx_sec s) = cx_sec (set_waiters q il h s)"
  by (cases "ks_wqs s q", simp add: set_waiters_def slot_defs cx_ok_def)+

lemma set_task_simps [simp]:
  "ks_tasks (set_task p t s) = (ks_tasks s)(p \<mapsto> t)" "ks_runnable_node (set_task p t s) = ks_runnable_node s"
  "ks_wait_node (set_task p t s) = ks_wait_node s" "ks_cpus (set_task p t s) = ks_cpus s"
  "ks_wqs (set_task p t s) = ks_wqs s" "cx_cpu (set_task p t s) = cx_cpu s" "wq_get q (set_task p t s) = wq_get q s"
  "rq_get c (set_task p t s) = rq_get c s"
  "set_task p t (wq_put q l s) = wq_put q l (set_task p t s)" "set_task p t (rq_put c l s) = rq_put c l (set_task p t s)"
  "set_task p t (irq_push_intr s) = irq_push_intr (set_task p t s)" "set_task p t (cx_sec s) = cx_sec (set_task p t s)"
  "ks_procs (set_task p t s) = ks_procs s" "ks_task_manager (set_task p t s) = ks_task_manager s"
  "this_cpu (set_task p t s) = this_cpu s"
  by (simp_all add: set_task_def slot_defs this_cpu_def)

lemma pop_push [simp]: "rq_get c (irq_push_intr s) = rq_get c s" "wq_get q (irq_push_intr s) = wq_get q s"
  "rq_get c (cx_sec s) = rq_get c s" "wq_get q (cx_sec s) = wq_get q s"
  by (simp_all add: rql.get_push wql.get_push rql.get_sec wql.get_sec)

text \<open>A section on a free queue lock, in the form the operations use.\<close>

lemma rq_section:
  assumes "cx_ok s" "rq_free c s" "body (irq_push_intr (rq_put c (held_by s) s)) = Some (irq_push_intr (rq_put c (held_by s) y), r)"
    "cx_ok y" "cx_cpu y = cx_cpu s" "rq_free c y"
  shows "with_lock (rq_get c) (rq_put c) body s = Some (cx_sec y, r)"
proof -
  have "with_lock (rq_get c) (rq_put c) body s = Some (cx_sec (rq_put c spinlock_init (rq_put c (held_by s) y)), r)"
    by (rule rql.section_eq) (use assms in \<open>simp_all add: rq_free_def\<close>)
  then show ?thesis using assms(6) by (simp add: rq_put_idem)
qed

lemma wq_section:
  assumes "cx_ok s" "wq_free c s" "body (irq_push_intr (wq_put c (held_by s) s)) = Some (irq_push_intr (wq_put c (held_by s) y), r)"
    "cx_ok y" "cx_cpu y = cx_cpu s" "wq_free c y"
  shows "with_lock (wq_get c) (wq_put c) body s = Some (cx_sec y, r)"
proof -
  have "with_lock (wq_get c) (wq_put c) body s = Some (cx_sec (wq_put c spinlock_init (wq_put c (held_by s) y)), r)"
    by (rule wql.section_eq) (use assms in \<open>simp_all add: wq_free_def\<close>)
  then show ?thesis using assms(6) by (simp add: wq_put_idem)
qed

lemma runqueue_enqueue_eq:
  "cx_ok s \<Longrightarrow> rq_free c s \<Longrightarrow> ks_tasks s p = Some t \<Longrightarrow> t_state t = TASK_READY \<Longrightarrow>
   runqueue_enqueue c p s = Some (cx_sec (rq_insert c p s), ())"
  by (simp add: runqueue_enqueue_def)
    (rule rq_section; simp add: runqueue_enqueue_unlocked_def rq_insert_def rq_free_def split_beta Let_def)

lemma runqueue_dequeue_eq:
  "cx_ok s \<Longrightarrow> rq_free c s \<Longrightarrow> runqueue_dequeue c s = Some (cx_sec (fst (rq_pop c s)), snd (rq_pop c s))"
  unfolding runqueue_dequeue_def
  by (rule rq_section; simp add: runqueue_dequeue_unlocked_def rq_pop_def rq_free_def split_beta Let_def)

lemma runqueue_remove_eq:
  "cx_ok s \<Longrightarrow> rq_free c s \<Longrightarrow> runqueue_remove c p s = Some (cx_sec (rq_delete c p s), ())"
  unfolding runqueue_remove_def
  by (rule rq_section; simp add: runqueue_remove_unlocked_def rq_delete_def rq_free_def split_beta Let_def)

lemma runqueue_read_eq:
  assumes "cx_ok s" "rq_free c s"
  shows "runqueue_is_empty c s = Some (cx_sec s, intrusivelist_is_empty (runnables c s))"
    "runqueue_count c s = Some (cx_sec s, intrusivelist_count (runnables c s))"
    "runqueue_peek c s = Some (cx_sec s, intrusivelist_peek_head (runnables c s))"
  unfolding runqueue_is_empty_def runqueue_count_def runqueue_peek_def
  by (rule rq_section; simp add: assms runqueue_is_empty_unlocked_def runqueue_count_unlocked_def runqueue_peek_unlocked_def)+

lemma waitqueue_enqueue_eq:
  "cx_ok s \<Longrightarrow> wq_free q s \<Longrightarrow> ks_tasks s p = Some t \<Longrightarrow> t_state t \<noteq> TASK_READY \<Longrightarrow>
   waitqueue_enqueue q p s = Some (cx_sec (set_task p (t\<lparr>t_waiting_on := Some q\<rparr>) (wq_insert q p s)), ())"
  unfolding waitqueue_enqueue_def
  by (rule wq_section; simp add: waitqueue_enqueue_unlocked_def wq_insert_def wq_free_def split_beta Let_def)

lemma waitqueue_dequeue_eq:
  "cx_ok s \<Longrightarrow> wq_free q s \<Longrightarrow> wq_pop q s = (s', Some p) \<Longrightarrow> ks_tasks s p = Some t \<Longrightarrow>
   waitqueue_dequeue q s = Some (cx_sec (set_task p (t\<lparr>t_waiting_on := None\<rparr>) s'), Some p)"
  "cx_ok s \<Longrightarrow> wq_free q s \<Longrightarrow> wq_pop q s = (s', None) \<Longrightarrow> waitqueue_dequeue q s = Some (cx_sec s', None)"
  unfolding waitqueue_dequeue_def
  by (rule wq_section; auto simp: waitqueue_dequeue_unlocked_def wq_pop_def wq_free_def split_beta Let_def)+

lemma waitqueue_remove_eq:
  "cx_ok s \<Longrightarrow> wq_free q s \<Longrightarrow> waitqueue_remove q p s = Some (cx_sec (wq_delete q p s), ())"
  unfolding waitqueue_remove_def
  by (rule wq_section; simp add: waitqueue_remove_unlocked_def wq_delete_def wq_free_def split_beta Let_def)

lemma waitqueue_read_eq:
  assumes "cx_ok s" "wq_free q s"
  shows "waitqueue_is_empty q s = Some (cx_sec s, intrusivelist_is_empty (waiters q s))"
    "waitqueue_count q s = Some (cx_sec s, intrusivelist_count (waiters q s))"
    "waitqueue_peek q s = Some (cx_sec s, intrusivelist_peek_head (waiters q s))"
  unfolding waitqueue_is_empty_def waitqueue_count_def waitqueue_peek_def
  by (rule wq_section; simp add: assms waitqueue_is_empty_unlocked_def waitqueue_count_unlocked_def waitqueue_peek_unlocked_def)+

end
