(* ===== verification/Scheduler.thy ===== *)
theory Scheduler
  imports Queues
begin

text \<open>
  The scheduler (\<^verbatim>\<open>kernel/sched/scheduler.c\<close>, \<^verbatim>\<open>scheduler_policy.c\<close>), with
  the parts of \<^verbatim>\<open>kernel/core/task.c\<close>, \<^verbatim>\<open>timer.c\<close> and
  \<^verbatim>\<open>task_manager.c\<close> it calls.

  \<^verbatim>\<open>scheduler_switch\<close> is modelled to the point where the next task runs: the model
  saves the registers and the return point of the previous task in its context, loads those of the
  next one, and does what the code at that return point does to the interrupt mask. The rest of the
  previous call happens when another switch picks its task. \<open>mo\<close> is the memory system.
\<close>

section \<open>Timer ticks\<close>

definition ticks_from_seconds :: "usize \<Rightarrow> usize \<Rightarrow> usize" where
  "ticks_from_seconds frequency seconds = frequency * seconds"

definition ticks_from_miliseconds :: "usize \<Rightarrow> usize \<Rightarrow> usize" where
  "ticks_from_miliseconds frequency ms = (let one_milisecond = frequency div 1000 in one_milisecond * ms)"

definition timer_ms_to_ticks :: "usize \<Rightarrow> ('h, 'w, 'a) kss \<Rightarrow> usize" where
  "timer_ms_to_ticks ms s = ticks_from_miliseconds (ks_timer_frequency s) ms"

definition timer_current_tick :: "('h, 'w, 'a) kss \<Rightarrow> usize" where
  "timer_current_tick s = ks_timer_counter s"

section \<open>Tasks\<close>

definition task_comparator_sleep_until :: "(u64 \<Rightarrow> Task option) \<Rightarrow> u64 \<Rightarrow> u64 \<Rightarrow> bool" where
  "task_comparator_sleep_until tasks a b =
     (case (tasks a, tasks b) of
        (Some first, Some second) \<Rightarrow> t_sleep_until first > t_sleep_until second
      | _ \<Rightarrow> False)"

definition is_task_process_exiting :: "u64 option \<Rightarrow> ('h, 'w, 'a) kss \<Rightarrow> bool option" where
  "is_task_process_exiting task s =
     (case task of None \<Rightarrow> Some False
      | Some p \<Rightarrow> do {
          t \<leftarrow> ks_tasks s p;
          case t_process t of None \<Rightarrow> Some False
          | Some proc \<Rightarrow> do { v \<leftarrow> ks_procs s proc; Some (pr_exiting v) }
        })"

definition task_manager_set_state :: "u64 \<Rightarrow> TaskState \<Rightarrow> ('h, 'w, 'a) kss \<Rightarrow> (('h, 'w, 'a) kss \<times> unit) option" where
  "task_manager_set_state task state s =
     with_lock tm_get tm_put (\<lambda>s. do {
       t \<leftarrow> ks_tasks s task;
       Some (set_task task (t\<lparr>t_state := state\<rparr>) s, ())
     }) s"

section \<open>Waking tasks\<close>

definition scheduler_enqueue :: "u64 \<Rightarrow> ('h, 'w, 'a) kss \<Rightarrow> (('h, 'w, 'a) kss \<times> unit) option" where
  "scheduler_enqueue task s = do {
     t \<leftarrow> ks_tasks s task;
     ASSERT (t_cpu t \<noteq> None);
     ASSERT (t_state t \<noteq> TASK_RUNNING);
     ASSERT (t_state t \<noteq> TASK_BLOCKED);
     ASSERT (t_waiting_on t = None);
     cpu \<leftarrow> t_cpu t;
     let s = set_task task (t\<lparr>t_waiting_on := None, t_state := TASK_READY\<rparr>) s;
     runqueue_enqueue cpu task s
   }"

definition scheduler_dequeue :: "u64 \<Rightarrow> ('h, 'w, 'a) kss \<Rightarrow> (('h, 'w, 'a) kss \<times> unit) option" where
  "scheduler_dequeue task s = do {
     t \<leftarrow> ks_tasks s task;
     ASSERT (t_cpu t \<noteq> None);
     ASSERT (t_state t = TASK_READY);
     ASSERT (t_waiting_on t = None);
     cpu \<leftarrow> t_cpu t;
     runqueue_remove cpu task s
   }"

definition scheduler_wake_blocked :: "u64 option \<Rightarrow> ('h, 'w, 'a) kss \<Rightarrow> (('h, 'w, 'a) kss \<times> unit) option" where
  "scheduler_wake_blocked blocked s =
     (case blocked of None \<Rightarrow> Some (s, ())
      | Some task \<Rightarrow> do {
          t \<leftarrow> ks_tasks s task;
          ASSERT (t_state t = TASK_BLOCKED);
          ASSERT (t_waiting_on t = None);
          let s = set_task task (t\<lparr>t_state := TASK_READY\<rparr>) s;
          scheduler_enqueue task s
        })"

definition wq_acquire :: "wq_ref \<Rightarrow> ('h, 'w, 'a) kss \<Rightarrow> ('h, 'w, 'a) kss option" where
  "wq_acquire q s = do { (l, s) \<leftarrow> spinlock_acquire (wq_get q s) s; Some (wq_put q l s) }"

definition wq_release :: "wq_ref \<Rightarrow> ('h, 'w, 'a) kss \<Rightarrow> ('h, 'w, 'a) kss option" where
  "wq_release q s = do { (l, s) \<leftarrow> spinlock_release (wq_get q s) s; Some (wq_put q l s) }"

text \<open>The loop of \<^verbatim>\<open>scheduler_wake_sleepers\<close>, entered and left with the lock held.\<close>

partial_function (option) wake_sleepers_loop ::
  "wq_ref \<Rightarrow> usize \<Rightarrow> u64 option \<Rightarrow> ('h, 'w, 'a) kss \<Rightarrow> ('h, 'w, 'a) kss option" where
  "wake_sleepers_loop sleeping now node s =
     (case node of None \<Rightarrow> Some s
      | Some task \<Rightarrow> do {
          let nxt = inext (ks_wait_node s task);
          t \<leftarrow> ks_tasks s task;
          if now < t_sleep_until t then Some s
          else do {
            let (il, h) = intrusivelist_remove (waiters sleeping s) (ks_wait_node s) task;
            let s = set_waiters sleeping il h s;
            let s = set_task task (t\<lparr>t_waiting_on := None, t_sleep_until := 0\<rparr>) s;
            s \<leftarrow> wq_release sleeping s;
            (s, _) \<leftarrow> scheduler_wake_blocked (Some task) s;
            s \<leftarrow> wq_acquire sleeping s;
            wake_sleepers_loop sleeping now nxt s
          }
        })"

definition scheduler_wake_sleepers :: "('h, 'w, 'a) kss \<Rightarrow> ('h, 'w, 'a) kss option" where
  "scheduler_wake_sleepers s = do {
     let sleeping = cpu_sleeping_tasks (this_cpu s);
     let now = timer_current_tick s;
     s \<leftarrow> wq_acquire sleeping s;
     let node = intrusivelist_peek_head (waiters sleeping s);
     s \<leftarrow> wake_sleepers_loop sleeping now node s;
     wq_release sleeping s
   }"

text \<open>The loop of \<^verbatim>\<open>scheduler_wake_all\<close>.\<close>

partial_function (option) wake_all_loop :: "wq_ref \<Rightarrow> ('h, 'w, 'a) kss \<Rightarrow> (('h, 'w, 'a) kss \<times> unit) option" where
  "wake_all_loop wq s = do {
     (s, blocked) \<leftarrow> waitqueue_dequeue_unlocked wq s;
     (case blocked of None \<Rightarrow> Some (s, ())
      | Some task \<Rightarrow> do {
          t \<leftarrow> ks_tasks s task;
          ASSERT (t_state t = TASK_BLOCKED);
          ASSERT (t_waiting_on t = None \<or> t_waiting_on t = Some wq);
          let s = set_task task (t\<lparr>t_state := TASK_READY\<rparr>) s;
          (s, _) \<leftarrow> scheduler_enqueue task s;
          wake_all_loop wq s
        })
   }"

definition scheduler_wake_all :: "wq_ref \<Rightarrow> ('h, 'w, 'a) kss \<Rightarrow> (('h, 'w, 'a) kss \<times> unit) option" where
  "scheduler_wake_all wq s = with_lock (wq_get wq) (wq_put wq) (wake_all_loop wq) s"

section \<open>Picking the next task\<close>

definition sched_policy_round_robin :: "nat \<Rightarrow> u64 option \<Rightarrow> ('h, 'w, 'a) kss \<Rightarrow> (('h, 'w, 'a) kss \<times> u64 option) option" where
  "sched_policy_round_robin queue current s = runqueue_dequeue_unlocked queue s"

definition scheduler_policy_pick_next :: "nat \<Rightarrow> ('h, 'w, 'a) kss \<Rightarrow> (('h, 'w, 'a) kss \<times> u64 option) option" where
  "scheduler_policy_pick_next cpu s =
     with_lock (rq_get cpu) (rq_put cpu) (\<lambda>s. do {
       (s, empty) \<leftarrow> runqueue_is_empty_unlocked cpu s;
       if empty then Some (s, None)
       else sched_policy_round_robin cpu (cpu_current (ks_cpus s cpu)) s
     }) s"

partial_function (option) pick_next_loop :: "nat \<Rightarrow> ('h, 'w, 'a) kss \<Rightarrow> (('h, 'w, 'a) kss \<times> u64 option) option" where
  "pick_next_loop cpu s = do {
     (s, nxt) \<leftarrow> scheduler_policy_pick_next cpu s;
     (case nxt of None \<Rightarrow> Some (s, cpu_idle (ks_cpus s cpu))
      | Some task \<Rightarrow> do {
          exiting \<leftarrow> is_task_process_exiting (Some task) s;
          if exiting then do {
            (s, _) \<leftarrow> task_manager_set_state task TASK_DEAD s;
            pick_next_loop cpu (set_cpu cpu ((ks_cpus s cpu)\<lparr>cpu_needs_cleanup := True\<rparr>) s)
          }
          else Some (s, Some task)
        })
   }"

definition scheduler_pick_next :: "nat \<Rightarrow> ('h, 'w, 'a) kss \<Rightarrow> (('h, 'w, 'a) kss \<times> u64 option) option" where
  "scheduler_pick_next cpu s =
     (if cpu_needs_cleanup (ks_cpus s cpu) then Some (s, cpu_cleanup_task (ks_cpus s cpu))
      else pick_next_loop cpu s)"

section \<open>Switching\<close>

text \<open>
  \<^verbatim>\<open>context_switch\<close> (\<^verbatim>\<open>context_switch.S\<close>): registers and return point are
  saved in the old context, when there is a task to save it in, and the new ones loaded; the result
  is the address the processor returns to.
\<close>

definition context_switch :: "u64 option \<Rightarrow> u64 \<Rightarrow> code_addr \<Rightarrow> ('h, 'w, 'a) kss \<Rightarrow> (('h, 'w, 'a) kss \<times> code_addr) option" where
  "context_switch old new lr s = do {
     s \<leftarrow> (case old of None \<Rightarrow> Some s
        | Some p \<Rightarrow> do {
            t \<leftarrow> ks_tasks s p;
            Some (set_task p (t\<lparr>t_context := \<lparr>ec_regs = ks_regs s, ec_lr = lr, ec_sp = ks_sp s\<rparr>\<rparr>) s)
          });
     n \<leftarrow> ks_tasks s new;
     Some (s\<lparr>ks_regs := ec_regs (t_context n), ks_sp := ec_sp (t_context n)\<rparr>, ec_lr (t_context n))
   }"

text \<open>
  What runs at the return point before the task's own code goes on: the restoration of the interrupt
  mask after \<^verbatim>\<open>context_switch\<close>, or the start of \<^verbatim>\<open>task_trampoline\<close>; the two
  user entry points leave for user mode.
\<close>

definition resume_at :: "code_addr \<Rightarrow> ('h, 'w, 'a) kss \<Rightarrow> ('h, 'w, 'a) kss option" where
  "resume_at lr s =
     (case lr of
        NullCode \<Rightarrow> None
      | TaskTrampoline \<Rightarrow> Some (irq_local_enable s)
      | UserEntryTrampoline \<Rightarrow> Some s
      | ChildReturnTrampoline \<Rightarrow> Some s
      | SwitchReturn irq_was_enabled \<Rightarrow> Some (if irq_was_enabled then irq_local_enable s else s))"

definition address_space_table :: "'h mm_ops \<Rightarrow> u64 option \<Rightarrow> ('h, 'w, 'a) kss \<Rightarrow> u64 option" where
  "address_space_table mo task s =
     (case task of None \<Rightarrow> Some (ks_kernel_user_table s)
      | Some p \<Rightarrow> do {
          t \<leftarrow> ks_tasks s p;
          case t_process t of None \<Rightarrow> Some (ks_kernel_user_table s)
          | Some proc \<Rightarrow> do { v \<leftarrow> ks_procs s proc; a \<leftarrow> pr_address_space v; mo_table mo (fs_heap s) a }
        })"

definition switch_address_space :: "'h mm_ops \<Rightarrow> u64 option \<Rightarrow> u64 option \<Rightarrow> ('h, 'w, 'a) kss \<Rightarrow> ('h, 'w, 'a) kss option" where
  "switch_address_space mo prev nxt s = do {
     prev_as \<leftarrow> address_space_table mo prev s;
     next_as \<leftarrow> address_space_table mo nxt s;
     if prev_as \<noteq> next_as then do { pa \<leftarrow> mo_virt_to_phys mo next_as; Some (s\<lparr>ks_ttbr0 := pa\<rparr>) } else Some s
   }"

definition scheduler_cpu_has_runnable_tasks :: "('h, 'w, 'a) kss \<Rightarrow> (('h, 'w, 'a) kss \<times> bool) option" where
  "scheduler_cpu_has_runnable_tasks s = do {
     (s, n) \<leftarrow> runqueue_count (cx_cpu s) s;
     Some (s, n > 0)
   }"

text \<open>The first part: the checks on the previous task, and putting it back when it still runs.\<close>

definition switch_out :: "('h, 'w, 'a) kss \<Rightarrow> (('h, 'w, 'a) kss \<times> unit) option" where
  "switch_out s =
     (case cpu_current (this_cpu s) of None \<Rightarrow> Some (s, ())
      | Some prev \<Rightarrow> do {
          t \<leftarrow> ks_tasks s prev;
          ASSERT (t_cpu t = Some (cx_cpu s));
          ASSERT (t_state t \<noteq> TASK_BLOCKED \<or> t_waiting_on t \<noteq> None);
          ASSERT (t_state t \<noteq> TASK_READY \<or> t_waiting_on t = None);
          if Some prev \<noteq> cpu_idle (this_cpu s) \<and> Some prev \<noteq> cpu_cleanup_task (this_cpu s) \<and>
             t_state t = TASK_RUNNING
          then do {
            ASSERT (t_waiting_on t = None);
            ASSERT (t_cpu t = Some (cx_cpu s));
            runqueue_enqueue (cx_cpu s) prev (set_task prev (t\<lparr>t_state := TASK_READY\<rparr>) s)
          }
          else Some (s, ())
        })"

text \<open>The second part: choosing the next task and making it current.\<close>

definition switch_in :: "('h, 'w, 'a) kss \<Rightarrow> (('h, 'w, 'a) kss \<times> u64) option" where
  "switch_in s = do {
     (s, nxt) \<leftarrow> scheduler_pick_next (cx_cpu s) s;
     task \<leftarrow> nxt;
     t \<leftarrow> ks_tasks s task;
     ASSERT (t_cpu t = Some (cx_cpu s));
     ASSERT (t_state t = TASK_READY \<or> nxt = cpu_idle (this_cpu s) \<or> nxt = cpu_cleanup_task (this_cpu s));
     ASSERT (t_waiting_on t = None);
     let s = set_task task (t\<lparr>t_state := TASK_RUNNING\<rparr>) s;
     Some (set_cpu (cx_cpu s) ((this_cpu s)\<lparr>cpu_current := nxt\<rparr>) s, task)
   }"

definition scheduler_switch :: "'h mm_ops \<Rightarrow> ('h, 'w, 'a) kss \<Rightarrow> ('h, 'w, 'a) kss option" where
  "scheduler_switch mo s = do {
     let irq_was_enabled = irq_local_is_enable s;
     let s = irq_local_disable s;
     let prev = cpu_current (this_cpu s);
     (s, _) \<leftarrow> switch_out s;
     (s, nxt) \<leftarrow> switch_in s;
     if prev = Some nxt then do {
       t \<leftarrow> ks_tasks s nxt;
       ASSERT (Some nxt = cpu_idle (this_cpu s) \<or> t_state t = TASK_RUNNING);
       Some (if irq_was_enabled then irq_local_enable s else s)
     }
     else if prev \<noteq> None then do {
       s \<leftarrow> switch_address_space mo prev (Some nxt) s;
       (s, lr) \<leftarrow> context_switch prev nxt (SwitchReturn irq_was_enabled) s;
       resume_at lr s
     }
     else do {
       (s, runnable) \<leftarrow> scheduler_cpu_has_runnable_tasks s;
       ASSERT (Some nxt \<noteq> cpu_idle (this_cpu s) \<or> \<not> runnable);
       s \<leftarrow> switch_address_space mo prev (Some nxt) s;
       (s, lr) \<leftarrow> context_switch None nxt NullCode s;
       resume_at lr s
     }
   }"

definition scheduler_init :: "'h mm_ops \<Rightarrow> ('h, 'w, 'a) kss \<Rightarrow> ('h, 'w, 'a) kss option" where
  "scheduler_init mo s = scheduler_switch mo s"

definition sched_yield :: "'h mm_ops \<Rightarrow> ('h, 'w, 'a) kss \<Rightarrow> ('h, 'w, 'a) kss option" where
  "sched_yield mo s = scheduler_switch mo s"

section \<open>Blocking and sleeping\<close>

definition scheduler_block_current :: "'h mm_ops \<Rightarrow> ('h, 'w, 'a) kss \<Rightarrow> ('h, 'w, 'a) kss option" where
  "scheduler_block_current mo s = do {
     current \<leftarrow> cpu_current (this_cpu s);
     ASSERT (Some current \<noteq> cpu_idle (this_cpu s));
     t \<leftarrow> ks_tasks s current;
     ASSERT (t_cpu t = Some (cx_cpu s));
     ASSERT (t_state t = TASK_RUNNING);
     ASSERT (t_waiting_on t \<noteq> None);
     scheduler_switch mo (set_task current (t\<lparr>t_state := TASK_BLOCKED\<rparr>) s)
   }"

definition sleep_enqueue :: "u64 \<Rightarrow> wq_ref \<Rightarrow> usize \<Rightarrow> ('h, 'w, 'a) kss \<Rightarrow> (('h, 'w, 'a) kss \<times> unit) option" where
  "sleep_enqueue current sleeping ms s = do {
     t \<leftarrow> ks_tasks s current;
     let t = t\<lparr>t_sleep_until := timer_current_tick s + timer_ms_to_ticks ms s\<rparr>;
     let s = set_task current t s;
     (il, h, _) \<leftarrow> intrusivelist_insert_sorted (waiters sleeping s) (ks_wait_node s) current
        (task_comparator_sleep_until (ks_tasks s));
     Some (set_task current (t\<lparr>t_waiting_on := Some sleeping, t_state := TASK_BLOCKED\<rparr>)
        (set_waiters sleeping il h s), ())
   }"

definition scheduler_sleep_current :: "'h mm_ops \<Rightarrow> usize \<Rightarrow> ('h, 'w, 'a) kss \<Rightarrow> ('h, 'w, 'a) kss option" where
  "scheduler_sleep_current mo ms s = do {
     current \<leftarrow> cpu_current (this_cpu s);
     ASSERT (Some current \<noteq> cpu_idle (this_cpu s));
     t \<leftarrow> ks_tasks s current;
     ASSERT (t_cpu t = Some (cx_cpu s));
     ASSERT (t_state t = TASK_RUNNING);
     let sleeping = cpu_sleeping_tasks (this_cpu s);
     (s, _) \<leftarrow> with_lock (wq_get sleeping) (wq_put sleeping) (sleep_enqueue current sleeping ms) s;
     scheduler_switch mo s
   }"

section \<open>Choosing a processor\<close>

definition pick_cpu_step ::
  "nat \<Rightarrow> ('h, 'w, 'a) kss \<times> nat option \<times> usize \<Rightarrow> (('h, 'w, 'a) kss \<times> nat option \<times> usize) option" where
  "pick_cpu_step cpu = (\<lambda>(s, best_cpu, best_count).
     if \<not> cpu_online (ks_cpus s cpu) then Some (s, best_cpu, best_count)
     else do {
       (s, task_count) \<leftarrow> with_lock (rq_get cpu) (rq_put cpu) (runqueue_count_unlocked cpu) s;
       Some (if task_count < best_count then (s, Some cpu, task_count) else (s, best_cpu, best_count))
     })"

definition scheduler_pick_cpu :: "('h, 'w, 'a) kss \<Rightarrow> (('h, 'w, 'a) kss \<times> nat) option" where
  "scheduler_pick_cpu s = do {
     (s, best_cpu, _) \<leftarrow> foldM pick_cpu_step [0..<CONFIG_MAX_CPU_COUNT] (s, None, 0x7fffffffffffffff);
     best \<leftarrow> best_cpu;
     Some (s, best)
   }"

end
