(* ===== verification/ListFamily.thy ===== *)
theory ListFamily
  imports IntrusiveList
begin

text \<open>
  Several intrusive lists over one node member: the run queues of all processors link the
  \<^verbatim>\<open>runnable_node\<close> of tasks, all wait queues their \<^verbatim>\<open>wait_node\<close>, the
  thread lists of all processes their \<^verbatim>\<open>process_node\<close>. \<open>ils_rep h ils xss\<close> says
  that in store \<open>h\<close> the header \<open>ils k\<close> holds the list \<open>xss k\<close>, and that no
  object is in two of them. An operation on one list keeps all the others.
\<close>

definition ils_rep :: "'a inodes \<Rightarrow> ('k \<Rightarrow> 'a IntrusiveList) \<Rightarrow> ('k \<Rightarrow> 'a list) \<Rightarrow> bool" where
  "ils_rep h ils xss \<longleftrightarrow> (\<forall>k. il_rep h (ils k) (xss k)) \<and>
     (\<forall>k l. k \<noteq> l \<longrightarrow> set (xss k) \<inter> set (xss l) = {})"

lemma ils_repD: "ils_rep h ils xss \<Longrightarrow> il_rep h (ils k) (xss k)"
  by (simp add: ils_rep_def)

lemma ils_rep_distinct: "ils_rep h ils xss \<Longrightarrow> distinct (xss k)"
  by (simp add: ils_rep_def il_rep_def)

lemma ils_rep_unique: "ils_rep h ils xss \<Longrightarrow> p \<in> set (xss k) \<Longrightarrow> p \<in> set (xss l) \<Longrightarrow> k = l"
  by (auto simp: ils_rep_def)

lemma ils_rep_change:
  assumes "ils_rep h ils xss" "il_rep h' il' xs'"
    and frame: "\<forall>y. y \<notin> A \<union> set (xss k) \<longrightarrow> h' y = h y"
    and new: "set xs' \<subseteq> A \<union> set (xss k)" "\<forall>l. l \<noteq> k \<longrightarrow> A \<inter> set (xss l) = {}"
  shows "ils_rep h' (ils(k := il')) (xss(k := xs'))"
proof -
  have disj: "set (xss k) \<inter> set (xss l) = {}" "A \<inter> set (xss l) = {}" if "l \<noteq> k" for l
    using assms(1) new(2) that by (auto simp: ils_rep_def)
  have "il_rep h' (ils l) (xss l)" if "l \<noteq> k" for l
  proof (rule il_rep_cong [of "xss l" h])
    show "h x = h' x" if "x \<in> set (xss l)" for x
      using frame that disj [OF \<open>l \<noteq> k\<close>] by (metis IntI UnE empty_iff)
  qed (rule ils_repD [OF assms(1)])
  moreover have "set xs' \<inter> set (xss l) = {}" if "l \<noteq> k" for l
    using new(1) disj [OF that] by blast
  ultimately show ?thesis using assms(1,2) by (auto simp: ils_rep_def)
qed

lemma ils_insert_tail:
  assumes "ils_rep h ils xss" "\<forall>l. p \<notin> set (xss l)" "length (xss k) + 1 < 2 ^ 64"
    and "intrusivelist_insert_tail (ils k) h p = (il', h')"
  shows "ils_rep h' (ils(k := il')) (xss(k := xss k @ [p]))"
  by (rule ils_rep_change [OF assms(1), where A = "{p}"])
    (use insert_tail_rep [OF ils_repD [OF assms(1)] _ assms(3,4)] assms(2) in auto)

lemma ils_remove_head:
  assumes "ils_rep h ils xss" "xss k = x # xs" "intrusivelist_remove_head (ils k) h = (il', h', r)"
  shows "r = Some x \<and> ils_rep h' (ils(k := il')) (xss(k := xs)) \<and> intrusivelist_node_is_null h' x"
proof -
  have i: "il_rep h (ils k) (x # xs)" using ils_repD [OF assms(1), of k] assms(2) by simp
  note r = remove_head_rep [OF i assms(3)]
  have "ils_rep h' (ils(k := il')) (xss(k := xs))"
    by (rule ils_rep_change [OF assms(1), where A = "{}"]) (use r assms(2) in auto)
  then show ?thesis using r by simp
qed

lemma ils_remove_head_empty:
  "ils_rep h ils xss \<Longrightarrow> xss k = [] \<Longrightarrow> intrusivelist_remove_head (ils k) h = (ils k, h, None)"
  using remove_head_empty [of h "ils k"] ils_repD [of h ils xss k] by simp

lemma ils_remove:
  assumes "ils_rep h ils xss" "p \<in> set (xss k)" "intrusivelist_remove (ils k) h p = (il', h')"
  shows "ils_rep h' (ils(k := il')) (xss(k := remove1 p (xss k))) \<and> intrusivelist_node_is_null h' p"
proof -
  obtain as bs where xs: "xss k = as @ p # bs" "p \<notin> set as" using assms(2) by (meson split_list_first)
  have rem: "remove1 p (xss k) = as @ bs" using xs by (simp add: remove1_append)
  have i: "il_rep h (ils k) (as @ p # bs)" using ils_repD [OF assms(1), of k] xs by simp
  note r = remove_rep [OF i assms(3)]
  have "ils_rep h' (ils(k := il')) (xss(k := as @ bs))"
    by (rule ils_rep_change [OF assms(1), where A = "{}"]) (use r xs in auto)
  then show ?thesis using r rem by simp
qed

lemma ils_insert_sorted:
  assumes "ils_rep h ils xss" "\<forall>l. p \<notin> set (xss l)" "length (xss k) + 1 < 2 ^ 64"
  shows "\<exists>il' h'. intrusivelist_insert_sorted (ils k) h p cmp = Some (il', h', True) \<and>
    ils_rep h' (ils(k := il')) (xss(k := takeWhile (\<lambda>e. \<not> cmp e p) (xss k) @ p # dropWhile (\<lambda>e. \<not> cmp e p) (xss k)))"
proof -
  obtain il' h' where r: "intrusivelist_insert_sorted (ils k) h p cmp = Some (il', h', True)"
    "il_rep h' il' (takeWhile (\<lambda>e. \<not> cmp e p) (xss k) @ p # dropWhile (\<lambda>e. \<not> cmp e p) (xss k))"
    "\<forall>y. y \<notin> insert p (set (xss k)) \<longrightarrow> h' y = h y"
    using insert_sorted_rep [OF ils_repD [OF assms(1)] _ assms(3), of p cmp] assms(2) by blast
  have "ils_rep h' (ils(k := il')) (xss(k := takeWhile (\<lambda>e. \<not> cmp e p) (xss k) @ p # dropWhile (\<lambda>e. \<not> cmp e p) (xss k)))"
    by (rule ils_rep_change [OF assms(1) r(2), where A = "{p}"])
      (use r(3) assms(2) in \<open>auto dest: set_takeWhileD set_dropWhileD\<close>)
  with r(1) show ?thesis by blast
qed

lemma ils_next:
  assumes "ils_rep h ils xss" "xss k = x # xs"
  shows "inext (h x) = hd_ptr xs"
  using ils_repD [OF assms(1), of k] assms(2) by (auto simp: il_rep_def)

text \<open>Every member of a list of objects drawn from a finite set fits the counter.\<close>

lemma ils_length_bound:
  assumes "ils_rep h ils xss" "set (xss k) \<subseteq> D" "finite D" "card D < 2 ^ 64" "p \<in> D" "p \<notin> set (xss k)"
  shows "length (xss k) + 1 < 2 ^ 64"
proof -
  have "length (xss k) + 1 = card (insert p (set (xss k)))"
    using assms ils_rep_distinct [OF assms(1), of k] by (simp add: distinct_card)
  also have "\<dots> \<le> card D" using assms by (intro card_mono) auto
  finally show ?thesis using assms(4) by simp
qed

end
