(* ===== verification/SchedInv.thy ===== *)
theory SchedInv
  imports Scheduler ListFamily
begin

text \<open>
  The invariant of the scheduler, and that every operation keeps it. \<open>sched_inv rqs wqs s\<close>:
  the run queue of processor \<open>c\<close> is the list \<open>rqs c\<close>, made of ready tasks of that
  processor, the wait queue \<open>q\<close> is the list \<open>wqs q\<close> of exactly the tasks that wait on
  it, sleeping tasks are sorted by the time they wake, the idle and cleanup tasks are in no queue,
  and all locks are free. \<open>cur_ok\<close> adds what holds of the current tasks outside of a switch.
\<close>

section \<open>The invariant\<close>

definition sleep_key :: "('h, 'w, 'a) kss \<Rightarrow> u64 \<Rightarrow> usize" where
  "sleep_key s p = (case ks_tasks s p of None \<Rightarrow> 0 | Some t \<Rightarrow> t_sleep_until t)"

definition queues_rep :: "(nat \<Rightarrow> u64 list) \<Rightarrow> (wq_ref \<Rightarrow> u64 list) \<Rightarrow> ('h, 'w, 'a) kss \<Rightarrow> bool" where
  "queues_rep rqs wqs s \<longleftrightarrow>
     ils_rep (ks_runnable_node s) (\<lambda>c. runnables c s) rqs \<and>
     ils_rep (ks_wait_node s) (\<lambda>q. waiters q s) wqs"

definition locks_free :: "('h, 'w, 'a) kss \<Rightarrow> bool" where
  "locks_free s \<longleftrightarrow> cx_ok s \<and> (\<forall>c. rq_free c s) \<and> (\<forall>q. wq_free q s) \<and> tm_get s = spinlock_init"

definition task_at :: "(nat \<Rightarrow> u64 list) \<Rightarrow> (wq_ref \<Rightarrow> u64 list) \<Rightarrow> u64 \<Rightarrow> Task option \<Rightarrow> bool" where
  "task_at rqs wqs p to \<longleftrightarrow>
     (\<forall>c. p \<in> set (rqs c) \<longrightarrow> (\<exists>t. to = Some t \<and> t_state t = TASK_READY \<and> t_cpu t = Some c)) \<and>
     (\<forall>q. p \<in> set (wqs q) \<longleftrightarrow> (\<exists>t. to = Some t \<and> t_waiting_on t = Some q)) \<and>
     (\<forall>t. to = Some t \<and> t_waiting_on t \<noteq> None \<longrightarrow> t_state t = TASK_RUNNING \<or> t_state t = TASK_BLOCKED) \<and>
     (\<forall>t c. to = Some t \<and> t_waiting_on t = Some (SleepingTasks c) \<longrightarrow> t_state t = TASK_BLOCKED \<and> t_cpu t = Some c)"

definition tasks_ok :: "(nat \<Rightarrow> u64 list) \<Rightarrow> (wq_ref \<Rightarrow> u64 list) \<Rightarrow> (u64 \<Rightarrow> Task option) \<Rightarrow> bool" where
  "tasks_ok rqs wqs tasks \<longleftrightarrow> finite (dom tasks) \<and> card (dom tasks) < 2 ^ 64 \<and> (\<forall>p. task_at rqs wqs p (tasks p))"

definition special :: "Cpu \<Rightarrow> u64 set" where
  "special c = set_option (cpu_idle c) \<union> set_option (cpu_cleanup_task c)"

definition cpus_ok :: "(nat \<Rightarrow> u64 list) \<Rightarrow> ('h, 'w, 'a) kss \<Rightarrow> bool" where
  "cpus_ok rqs s \<longleftrightarrow>
     (\<forall>c. cpu_sleeping_tasks (ks_cpus s c) = SleepingTasks c) \<and>
     (\<forall>c p. p \<in> special (ks_cpus s c) \<longrightarrow> (\<forall>d. p \<notin> set (rqs d)) \<and>
        (\<exists>t. ks_tasks s p = Some t \<and> t_cpu t = Some c \<and> t_waiting_on t = None))"

definition sched_inv :: "(nat \<Rightarrow> u64 list) \<Rightarrow> (wq_ref \<Rightarrow> u64 list) \<Rightarrow> ('h, 'w, 'a) kss \<Rightarrow> bool" where
  "sched_inv rqs wqs s \<longleftrightarrow> queues_rep rqs wqs s \<and> locks_free s \<and> tasks_ok rqs wqs (ks_tasks s) \<and> cpus_ok rqs s \<and>
     (\<forall>c. sorted (map (sleep_key s) (wqs (SleepingTasks c))))"

definition cur_ok :: "(nat \<Rightarrow> u64 list) \<Rightarrow> ('h, 'w, 'a) kss \<Rightarrow> bool" where
  "cur_ok rqs s \<longleftrightarrow> (\<forall>c p. cpu_current (ks_cpus s c) = Some p \<longrightarrow> (\<forall>d. p \<notin> set (rqs d)) \<and>
     (\<exists>t. ks_tasks s p = Some t \<and> t_cpu t = Some c))"

lemma sched_inv_sec [simp]: "sched_inv rqs wqs (cx_sec s) = sched_inv rqs wqs s"
  "cur_ok rqs (cx_sec s) = cur_ok rqs s" "locks_free (cx_sec s) = locks_free s"
  by (simp_all add: sched_inv_def queues_rep_def locks_free_def cpus_ok_def cur_ok_def sleep_key_def [abs_def]
      rq_free_def wq_free_def tm_get_def)

lemma sched_inv_free: "sched_inv rqs wqs s \<Longrightarrow> cx_ok s" "sched_inv rqs wqs s \<Longrightarrow> rq_free c s"
  "sched_inv rqs wqs s \<Longrightarrow> wq_free q s" "sched_inv rqs wqs s \<Longrightarrow> tm_get s = spinlock_init"
  by (simp_all add: sched_inv_def locks_free_def)

lemma sched_inv_reps: "sched_inv rqs wqs s \<Longrightarrow> ils_rep (ks_runnable_node s) (\<lambda>c. runnables c s) rqs"
  "sched_inv rqs wqs s \<Longrightarrow> ils_rep (ks_wait_node s) (\<lambda>q. waiters q s) wqs"
  by (simp_all add: sched_inv_def queues_rep_def)

lemma sched_inv_at: "sched_inv rqs wqs s \<Longrightarrow> task_at rqs wqs p (ks_tasks s p)"
  by (simp add: sched_inv_def tasks_ok_def)

lemma sched_inv_ready:
  assumes "sched_inv rqs wqs s" "p \<in> set (rqs c)"
  obtains t where "ks_tasks s p = Some t" "t_state t = TASK_READY" "t_cpu t = Some c" "t_waiting_on t = None"
  using sched_inv_at [OF assms(1), of p] assms(2) unfolding task_at_def by force

lemma sched_inv_waiting:
  assumes "sched_inv rqs wqs s"
  shows "p \<in> set (wqs q) \<longleftrightarrow> (\<exists>t. ks_tasks s p = Some t \<and> t_waiting_on t = Some q)"
  using sched_inv_at [OF assms(1), of p] by (simp add: task_at_def)

lemma sched_inv_room:
  assumes "sched_inv rqs wqs s" "ks_tasks s p = Some t"
  shows "p \<notin> set (rqs c) \<Longrightarrow> length (rqs c) + 1 < 2 ^ 64" "p \<notin> set (wqs q) \<Longrightarrow> length (wqs q) + 1 < 2 ^ 64"
proof -
  have d: "finite (dom (ks_tasks s))" "card (dom (ks_tasks s)) < 2 ^ 64" "p \<in> dom (ks_tasks s)"
    "set (rqs c) \<subseteq> dom (ks_tasks s)" "set (wqs q) \<subseteq> dom (ks_tasks s)"
    using assms sched_inv_waiting [OF assms(1)] sched_inv_ready [OF assms(1)]
    by (auto simp: sched_inv_def tasks_ok_def, metis)
  show "p \<notin> set (rqs c) \<Longrightarrow> length (rqs c) + 1 < 2 ^ 64"
    by (rule ils_length_bound [OF sched_inv_reps(1) [OF assms(1)] d(4,1,2,3)])
  show "p \<notin> set (wqs q) \<Longrightarrow> length (wqs q) + 1 < 2 ^ 64"
    by (rule ils_length_bound [OF sched_inv_reps(2) [OF assms(1)] d(5,1,2,3)])
qed

section \<open>State changes that keep the invariant\<close>

text \<open>A change of a task that stays where it is.\<close>

lemma inv_set_task:
  assumes inv: "sched_inv rqs wqs s" and t: "ks_tasks s p = Some t"
    and same: "t_cpu t' = t_cpu t" "t_waiting_on t' = t_waiting_on t"
    and ready: "\<And>c. p \<in> set (rqs c) \<Longrightarrow> t_state t' = TASK_READY"
    and waits: "t_waiting_on t \<noteq> None \<Longrightarrow> t_state t' = TASK_RUNNING \<or> t_state t' = TASK_BLOCKED"
    and sleeps: "\<And>c. t_waiting_on t = Some (SleepingTasks c) \<Longrightarrow> t_sleep_until t' = t_sleep_until t \<and> t_state t' = TASK_BLOCKED"
  shows "sched_inv rqs wqs (set_task p t' s)"
proof -
  have dom: "dom ((ks_tasks s)(p \<mapsto> t')) = dom (ks_tasks s)" using t by auto
  have "task_at rqs wqs p (Some t')"
    using sched_inv_at [OF inv, of p] t same ready waits sleeps by (auto simp: task_at_def)
  then have "tasks_ok rqs wqs ((ks_tasks s)(p \<mapsto> t'))"
    using inv unfolding sched_inv_def tasks_ok_def dom by simp
  moreover have "sleep_key (set_task p t' s) x = sleep_key s x" if "x \<in> set (wqs (SleepingTasks c))" for x c
    using that sleeps t sched_inv_waiting [OF inv, of x "SleepingTasks c"] by (auto simp: sleep_key_def)
  then have "map (sleep_key (set_task p t' s)) (wqs (SleepingTasks c)) = map (sleep_key s) (wqs (SleepingTasks c))" for c
    by simp
  then have "sorted (map (sleep_key (set_task p t' s)) (wqs (SleepingTasks c)))" for c
    using inv by (simp only: sched_inv_def)
  moreover have "cpus_ok rqs (set_task p t' s)"
    using inv t same unfolding sched_inv_def cpus_ok_def by fastforce
  ultimately show ?thesis
    using inv by (simp add: sched_inv_def queues_rep_def locks_free_def rq_free_def wq_free_def tm_get_def)
qed

lemma cur_set_task:
  "cur_ok rqs s \<Longrightarrow> ks_tasks s p = Some t \<Longrightarrow> t_cpu t' = t_cpu t \<Longrightarrow> cur_ok rqs (set_task p t' s)"
  unfolding cur_ok_def by fastforce

lemma set_runnables_other:
  "cpu_sleeping_tasks (ks_cpus (set_runnables c il h s) d) = cpu_sleeping_tasks (ks_cpus s d)"
  "special (ks_cpus (set_runnables c il h s) d) = special (ks_cpus s d)"
  "cpu_current (ks_cpus (set_runnables c il h s) d) = cpu_current (ks_cpus s d)"
  "cpu_idle (ks_cpus (set_runnables c il h s) d) = cpu_idle (ks_cpus s d)"
  "cpu_cleanup_task (ks_cpus (set_runnables c il h s) d) = cpu_cleanup_task (ks_cpus s d)"
  "cpu_needs_cleanup (ks_cpus (set_runnables c il h s) d) = cpu_needs_cleanup (ks_cpus s d)"
  "cpu_online (ks_cpus (set_runnables c il h s) d) = cpu_online (ks_cpus s d)"
  "tm_get (set_runnables c il h s) = tm_get s" "sleep_key (set_runnables c il h s) = sleep_key s"
  "(\<lambda>d. runnables d (set_runnables c il h s)) = (\<lambda>d. runnables d s)(c := il)"
  "ks_procs (set_runnables c il h s) = ks_procs s"
  by (auto simp: set_runnables_def set_cpu_def special_def tm_get_def sleep_key_def)

text \<open>A change of the list of one run queue.\<close>

lemma inv_set_runnables:
  assumes inv: "sched_inv rqs wqs s"
    and rep: "ils_rep h ((\<lambda>d. runnables d s)(c := il)) (rqs(c := xs))"
    and xs: "\<And>p. p \<in> set xs \<Longrightarrow> (\<exists>t. ks_tasks s p = Some t \<and> t_state t = TASK_READY \<and> t_cpu t = Some c) \<and>
      (\<forall>d. p \<notin> special (ks_cpus s d))"
  shows "sched_inv (rqs(c := xs)) wqs (set_runnables c il h s)"
proof -
  let ?s = "set_runnables c il h s"
  have "queues_rep (rqs(c := xs)) wqs ?s"
    unfolding queues_rep_def set_runnables_other(10) using rep sched_inv_reps(2) [OF inv] by simp
  moreover have "locks_free ?s"
    using inv by (simp add: sched_inv_def locks_free_def rq_free_def wq_free_def wq_get_def set_runnables_other)
  moreover have "task_at (rqs(c := xs)) wqs p (ks_tasks s p)" for p
    using sched_inv_at [OF inv, of p] xs [of p] by (auto simp: task_at_def)
  moreover have "cpus_ok (rqs(c := xs)) ?s"
    using inv xs unfolding sched_inv_def cpus_ok_def by (auto simp: set_runnables_other)
  ultimately show ?thesis using inv by (simp add: sched_inv_def tasks_ok_def set_runnables_other)
qed

lemma special_not_queued: "sched_inv rqs wqs s \<Longrightarrow> p \<in> set (rqs c) \<Longrightarrow> p \<notin> special (ks_cpus s d)"
  by (auto simp: sched_inv_def cpus_ok_def)

lemma inv_rq_insert:
  assumes inv: "sched_inv rqs wqs s" and t: "ks_tasks s p = Some t" "t_state t = TASK_READY" "t_cpu t = Some c"
    and new: "\<forall>d. p \<notin> set (rqs d)" "\<forall>d. p \<notin> special (ks_cpus s d)"
  shows "sched_inv (rqs(c := rqs c @ [p])) wqs (rq_insert c p s)"
proof -
  obtain il h where i: "intrusivelist_insert_tail (runnables c s) (ks_runnable_node s) p = (il, h)" by fastforce
  have "length (rqs c) + 1 < 2 ^ 64" using sched_inv_room(1) [OF inv t(1)] new(1) by blast
  then have "ils_rep h ((\<lambda>d. runnables d s)(c := il)) (rqs(c := rqs c @ [p]))"
    using ils_insert_tail [OF sched_inv_reps(1) [OF inv] new(1)] i by blast
  then have "sched_inv (rqs(c := rqs c @ [p])) wqs (set_runnables c il h s)"
  proof (rule inv_set_runnables [OF inv])
    fix x assume "x \<in> set (rqs c @ [p])"
    then show "(\<exists>t. ks_tasks s x = Some t \<and> t_state t = TASK_READY \<and> t_cpu t = Some c) \<and> (\<forall>d. x \<notin> special (ks_cpus s d))"
      using t new special_not_queued [OF inv, of x c] sched_inv_ready [OF inv, of x c] by (cases "x = p") (simp_all, metis)
  qed
  then show ?thesis using i by (simp add: rq_insert_def)
qed

lemma rq_pop_none: "sched_inv rqs wqs s \<Longrightarrow> rqs c = [] \<Longrightarrow> intrusivelist_is_empty (runnables c s)"
  using il_rep_accessors(4) [OF ils_repD [OF sched_inv_reps(1)]] by metis

lemma rq_nonempty: "sched_inv rqs wqs s \<Longrightarrow> rqs c = p # xs \<Longrightarrow> \<not> intrusivelist_is_empty (runnables c s)"
  using il_rep_accessors(4) [OF ils_repD [OF sched_inv_reps(1)]] by (metis list.distinct(1))

lemma inv_rq_pop:
  assumes inv: "sched_inv rqs wqs s" and xs: "rqs c = p # xs"
  obtains il h where "rq_pop c s = (set_runnables c il h s, Some p)" "intrusivelist_node_is_null h p"
    "sched_inv (rqs(c := xs)) wqs (set_runnables c il h s)"
proof -
  obtain il h r where i: "intrusivelist_remove_head (runnables c s) (ks_runnable_node s) = (il, h, r)" by (metis prod_cases3)
  have r: "r = Some p \<and> ils_rep h ((\<lambda>d. runnables d s)(c := il)) (rqs(c := xs)) \<and> intrusivelist_node_is_null h p"
    by (rule ils_remove_head [OF sched_inv_reps(1) [OF inv] xs i])
  have "sched_inv (rqs(c := xs)) wqs (set_runnables c il h s)"
  proof (rule inv_set_runnables [OF inv])
    fix x assume "x \<in> set xs"
    then have "x \<in> set (rqs c)" using xs by simp
    then show "(\<exists>t. ks_tasks s x = Some t \<and> t_state t = TASK_READY \<and> t_cpu t = Some c) \<and> (\<forall>d. x \<notin> special (ks_cpus s d))"
      using special_not_queued [OF inv] sched_inv_ready [OF inv] by metis
  qed (use r in blast)
  with i r that show thesis by (simp add: rq_pop_def)
qed


text \<open>A change of one wait queue together with the task that enters or leaves it.\<close>

lemma set_waiters_other:
  "tm_get (set_waiters q il h s) = tm_get s" "sleep_key (set_waiters q il h s) = sleep_key s"
  "rq_get c (set_waiters q il h s) = rq_get c s" "ks_procs (set_waiters q il h s) = ks_procs s"
  "(\<lambda>d. waiters d (set_waiters q il h s)) = (\<lambda>d. waiters d s)(q := il)"
  by (auto simp: set_waiters_def set_wq_def tm_get_def sleep_key_def rq_get_def)

lemma sleep_key_set_task: "sleep_key (set_task p t s) = (sleep_key s)(p := t_sleep_until t)"
  by (auto simp: sleep_key_def)

lemma inv_set_waiters:
  assumes inv: "sched_inv rqs wqs s" and t: "ks_tasks s p = Some t" "t_cpu t' = t_cpu t"
    and rep: "ils_rep h ((\<lambda>q. waiters q s)(q := il)) (wqs(q := xs))"
    and at: "set xs - {p} = set (wqs q) - {p}" "task_at rqs (wqs(q := xs)) p (Some t')"
    and sp: "t_waiting_on t' = None \<or> (\<forall>d. p \<notin> special (ks_cpus s d))"
    and srt: "\<And>c. sorted (map ((sleep_key s)(p := t_sleep_until t')) ((wqs(q := xs)) (SleepingTasks c)))"
  shows "sched_inv rqs (wqs(q := xs)) (set_task p t' (set_waiters q il h s))"
proof -
  let ?s = "set_task p t' (set_waiters q il h s)"
  have "queues_rep rqs (wqs(q := xs)) ?s"
    unfolding queues_rep_def using rep sched_inv_reps(1) [OF inv] set_waiters_other(5) [of q il h s] by simp
  moreover have "locks_free ?s"
    using inv by (simp add: sched_inv_def locks_free_def rq_free_def wq_free_def tm_get_def set_waiters_def set_wq_def set_task_def slot_defs)
  moreover have "task_at rqs (wqs(q := xs)) x (((ks_tasks s)(p \<mapsto> t')) x)" for x
    using sched_inv_at [OF inv, of x] at by (cases "x = p") (auto simp: task_at_def)
  moreover have "dom ((ks_tasks s)(p \<mapsto> t')) = dom (ks_tasks s)" using t by auto
  moreover have "cpus_ok rqs ?s"
    using inv t sp unfolding sched_inv_def cpus_ok_def by fastforce
  ultimately show ?thesis
    using inv srt by (simp add: sched_inv_def tasks_ok_def sleep_key_set_task set_waiters_other)
qed

lemma inv_sorted_upd:
  assumes "sched_inv rqs wqs s" "p \<notin> set (wqs (SleepingTasks c))"
  shows "sorted (map ((sleep_key s)(p := v)) (wqs (SleepingTasks c)))"
proof -
  have "map ((sleep_key s)(p := v)) (wqs (SleepingTasks c)) = map (sleep_key s) (wqs (SleepingTasks c))"
    using assms(2) by auto
  then show ?thesis using assms(1) by (simp only: sched_inv_def)
qed

text \<open>Waiting on the queue of an object, at its tail.\<close>

lemma inv_wait:
  assumes inv: "sched_inv rqs wqs s" and t: "ks_tasks s p = Some t" "t_waiting_on t = None"
      "t_state t = TASK_RUNNING \<or> t_state t = TASK_BLOCKED"
    and sp: "\<forall>d. p \<notin> special (ks_cpus s d)"
  shows "sched_inv rqs (wqs(WaitersOf a := wqs (WaitersOf a) @ [p]))
    (set_task p (t\<lparr>t_waiting_on := Some (WaitersOf a)\<rparr>) (wq_insert (WaitersOf a) p s))"
proof -
  let ?q = "WaitersOf a"
  obtain il h where i: "intrusivelist_insert_tail (waiters ?q s) (ks_wait_node s) p = (il, h)" by fastforce
  have new: "\<forall>l. p \<notin> set (wqs l)" using sched_inv_waiting [OF inv] t by simp
  then have "length (wqs ?q) + 1 < 2 ^ 64" using sched_inv_room(2) [OF inv t(1)] by blast
  then have rep: "ils_rep h ((\<lambda>d. waiters d s)(?q := il)) (wqs(?q := wqs ?q @ [p]))"
    using ils_insert_tail [OF sched_inv_reps(2) [OF inv] new] i by blast
  have "sched_inv rqs (wqs(?q := wqs ?q @ [p])) (set_task p (t\<lparr>t_waiting_on := Some ?q\<rparr>) (set_waiters ?q il h s))"
  proof (rule inv_set_waiters [OF inv t(1) _ rep])
    show "task_at rqs (wqs(?q := wqs ?q @ [p])) p (Some (t\<lparr>t_waiting_on := Some ?q\<rparr>))"
      using sched_inv_at [OF inv, of p] t new by (auto simp: task_at_def)
    show "sorted (map ((sleep_key s)(p := t_sleep_until (t\<lparr>t_waiting_on := Some ?q\<rparr>))) ((wqs(?q := wqs ?q @ [p])) (SleepingTasks c)))" for c
      using inv_sorted_upd [OF inv, of p c] new by simp
  qed (use new sp in auto)
  then show ?thesis using i by (simp add: wq_insert_def)
qed

text \<open>Leaving the queue of an object: the head, and any member.\<close>

lemma inv_unwait:
  assumes inv: "sched_inv rqs wqs s" and t: "ks_tasks s p = Some t" "t_waiting_on t = Some q"
    and rep: "ils_rep h ((\<lambda>q. waiters q s)(q := il)) (wqs(q := xs))" and xs: "set xs = set (wqs q) - {p}"
    and t': "t_cpu t' = t_cpu t" "t_waiting_on t' = None" "t_state t' = t_state t"
    and sub: "\<exists>as bs. wqs q = as @ p # bs \<and> xs = as @ bs"
  shows "sched_inv rqs (wqs(q := xs)) (set_task p t' (set_waiters q il h s))"
proof (rule inv_set_waiters [OF inv t(1) t'(1) rep])
  have ot: "p \<notin> set (wqs l)" if "l \<noteq> q" for l using sched_inv_waiting [OF inv] t that by auto
  have nr: "p \<notin> set (rqs c)" for c using sched_inv_ready [OF inv] t by (metis option.distinct(1) option.inject)
  show "task_at rqs (wqs(q := xs)) p (Some t')"
    using nr ot xs t'(2) by (auto simp: task_at_def)
  show "sorted (map ((sleep_key s)(p := t_sleep_until t')) ((wqs(q := xs)) (SleepingTasks c)))" for c
  proof (cases "q = SleepingTasks c")
    case True
    obtain as bs where ab: "wqs q = as @ p # bs" "xs = as @ bs" using sub by blast
    have "sorted (map (sleep_key s) (as @ p # bs))" using inv True ab unfolding sched_inv_def by metis
    then have "sorted (map (sleep_key s) xs)" by (simp add: ab sorted_append)
    moreover have "map ((sleep_key s)(p := t_sleep_until t')) xs = map (sleep_key s) xs" using xs by auto
    ultimately have "sorted (map ((sleep_key s)(p := t_sleep_until t')) xs)" by (simp only:)
    then show ?thesis using True by simp
  next
    case False
    then show ?thesis using inv_sorted_upd [OF inv ot] by (metis fun_upd_other)
  qed
qed (use xs t' in auto)

end
