(* ===== verification/SchedWake.thy ===== *)
theory SchedWake
  imports SchedInv
begin

text \<open>
  Waking tasks: \<^verbatim>\<open>scheduler_enqueue\<close>, \<^verbatim>\<open>scheduler_wake_blocked\<close>,
  \<^verbatim>\<open>scheduler_wake_all\<close>, \<^verbatim>\<open>scheduler_wake_sleepers\<close> and the choice of a
  processor, on states that satisfy the scheduler's invariant.
\<close>

section \<open>Adding a task to its run queue\<close>

definition cpu_of :: "('h, 'w, 'a) kss \<Rightarrow> u64 \<Rightarrow> nat option" where
  "cpu_of s p = Option.bind (ks_tasks s p) t_cpu"

definition make_ready :: "u64 \<Rightarrow> Task \<Rightarrow> nat \<Rightarrow> ('h, 'w, 'a) kss \<Rightarrow> ('h, 'w, 'a) kss" where
  "make_ready p t c s = rq_insert c p (set_task p (t\<lparr>t_waiting_on := None, t_state := TASK_READY\<rparr>) s)"

lemma rq_insert_fields [simp]:
  "ks_tasks (rq_insert c p s) = ks_tasks s" "cx_cpu (rq_insert c p s) = cx_cpu s" "cx_ok (rq_insert c p s) = cx_ok s"
  "ks_wqs (rq_insert c p s) = ks_wqs s" "ks_wait_node (rq_insert c p s) = ks_wait_node s"
  "rq_get d (rq_insert c p s) = rq_get d s"
  "cpu_current (ks_cpus (rq_insert c p s) d) = cpu_current (ks_cpus s d)"
  "cpu_idle (ks_cpus (rq_insert c p s) d) = cpu_idle (ks_cpus s d)"
  "cpu_cleanup_task (ks_cpus (rq_insert c p s) d) = cpu_cleanup_task (ks_cpus s d)"
  "cpu_needs_cleanup (ks_cpus (rq_insert c p s) d) = cpu_needs_cleanup (ks_cpus s d)"
  "cpu_online (ks_cpus (rq_insert c p s) d) = cpu_online (ks_cpus s d)"
  "special (ks_cpus (rq_insert c p s) d) = special (ks_cpus s d)"
  "rq_insert c p (irq_push_intr s) = irq_push_intr (rq_insert c p s)"
  "rq_insert c p (cx_sec s) = cx_sec (rq_insert c p s)"
  "cpu_sleeping_tasks (ks_cpus (rq_insert c p s) d) = cpu_sleeping_tasks (ks_cpus s d)"
  "ks_procs (rq_insert c p s) = ks_procs s"
  by (simp_all add: rq_insert_def Let_def split_beta set_runnables_other)

lemma rq_insert_wq_put [simp]: "rq_insert c p (wq_put q l s) = wq_put q l (rq_insert c p s)"
  by (simp add: rq_insert_def split_beta set_runnables_def slot_defs)

lemma make_ready_fields [simp]:
  "ks_tasks (make_ready p t c s) = (ks_tasks s)(p \<mapsto> t\<lparr>t_waiting_on := None, t_state := TASK_READY\<rparr>)"
  "cx_cpu (make_ready p t c s) = cx_cpu s" "cx_ok (make_ready p t c s) = cx_ok s"
  "ks_wqs (make_ready p t c s) = ks_wqs s" "ks_wait_node (make_ready p t c s) = ks_wait_node s"
  "cpu_current (ks_cpus (make_ready p t c s) d) = cpu_current (ks_cpus s d)"
  "cpu_sleeping_tasks (ks_cpus (make_ready p t c s) d) = cpu_sleeping_tasks (ks_cpus s d)"
  "make_ready p t c (irq_push_intr s) = irq_push_intr (make_ready p t c s)"
  "make_ready p t c (cx_sec s) = cx_sec (make_ready p t c s)"
  "make_ready p t c (wq_put q l s) = wq_put q l (make_ready p t c s)"
  "ks_procs (make_ready p t c s) = ks_procs s" "special (ks_cpus (make_ready p t c s) d) = special (ks_cpus s d)"
  by (simp_all add: make_ready_def)

lemma scheduler_enqueue_eq:
  assumes "cx_ok s" "rq_free c s" "ks_tasks s p = Some t" "t_cpu t = Some c" "t_state t = TASK_READY \<or> t_state t = TASK_DEAD"
    "t_waiting_on t = None"
  shows "scheduler_enqueue p s = Some (cx_sec (make_ready p t c s), ())"
proof -
  have "runqueue_enqueue c p (set_task p (t\<lparr>t_waiting_on := None, t_state := TASK_READY\<rparr>) s) =
      Some (cx_sec (rq_insert c p (set_task p (t\<lparr>t_waiting_on := None, t_state := TASK_READY\<rparr>) s)), ())"
    using assms(1,2) by (intro runqueue_enqueue_eq) (auto simp: rq_free_def)
  then show ?thesis using assms by (auto simp: scheduler_enqueue_def make_ready_def)
qed

lemma set_task_twice [simp]: "set_task p t (set_task p t' s) = set_task p t s"
  by (simp add: set_task_def)

lemma scheduler_wake_blocked_eq:
  assumes "cx_ok s" "rq_free c s" "ks_tasks s p = Some t" "t_cpu t = Some c" "t_state t = TASK_BLOCKED"
    "t_waiting_on t = None"
  shows "scheduler_wake_blocked (Some p) s = Some (cx_sec (make_ready p t c s), ())"
proof -
  have "scheduler_enqueue p (set_task p (t\<lparr>t_state := TASK_READY\<rparr>) s) =
      Some (cx_sec (make_ready p (t\<lparr>t_state := TASK_READY\<rparr>) c (set_task p (t\<lparr>t_state := TASK_READY\<rparr>) s)), ())"
    using assms by (intro scheduler_enqueue_eq) (auto simp: rq_free_def)
  then show ?thesis using assms by (simp add: scheduler_wake_blocked_def make_ready_def)
qed

lemma inv_make_ready:
  assumes inv: "sched_inv rqs wqs s" and t: "ks_tasks s p = Some t" "t_cpu t = Some c" "t_waiting_on t = None"
    and new: "\<forall>d. p \<notin> set (rqs d)" "\<forall>d. p \<notin> special (ks_cpus s d)"
  shows "sched_inv (rqs(c := rqs c @ [p])) wqs (make_ready p t c s)"
  unfolding make_ready_def
proof (rule inv_rq_insert [where t = "t\<lparr>t_waiting_on := None, t_state := TASK_READY\<rparr>"])
  show "sched_inv rqs wqs (set_task p (t\<lparr>t_waiting_on := None, t_state := TASK_READY\<rparr>) s)"
    by (rule inv_set_task [OF inv t(1)]) (use t in auto)
qed (use t new in auto)

lemma blocked_not_queued:
  "sched_inv rqs wqs s \<Longrightarrow> ks_tasks s p = Some t \<Longrightarrow> t_state t \<noteq> TASK_READY \<Longrightarrow> p \<notin> set (rqs c)"
  by (metis option.inject sched_inv_ready)

section \<open>Sections on a wait queue\<close>

text \<open>The state inside a section on the wait queue \<open>q\<close>, entered from \<open>s\<close>.\<close>

definition in_wq :: "wq_ref \<Rightarrow> ('h, 'w, 'a) kss \<Rightarrow> ('h, 'w, 'a) kss" where
  "in_wq q s = irq_push_intr (wq_put q (held_by s) s)"

lemma push_sec [simp]: "irq_push_intr (cx_sec s) = irq_push_intr s"
  by (simp add: irq_push_as_put cx_sec_def cx_put_def r_intrd_enabled_def)

lemma held_by_sec [simp]: "held_by (cx_sec s) = held_by s"
  by (simp add: held_by_def)

lemma wq_acquire_eq:
  fixes s :: "('h, 'w, 'a) kss"
  assumes "wq_free q s"
  shows "wq_acquire q s = Some (in_wq q s)" "wq_acquire q (cx_sec s) = Some (in_wq q s)"
proof -
  have "spinlock_acquire (wq_get q s) s' = Some (held_by s', irq_push_intr s')" for s' :: "('h, 'w, 'a) kss"
    using assms by (simp add: wq_free_def spinlock_acquire_def holding_def held_by_def spinlock_init_def)
  then show "wq_acquire q s = Some (in_wq q s)" "wq_acquire q (cx_sec s) = Some (in_wq q s)"
    by (simp_all add: wq_acquire_def in_wq_def wql.put_push)
qed

lemma wq_release_eq:
  assumes "cx_ok s" "wq_free q s"
  shows "wq_release q (in_wq q s) = Some (cx_sec s)"
proof -
  have "irq_pop_intr (irq_push_intr (wq_put q (held_by s) s)) = Some (cx_sec (wq_put q (held_by s) s))"
    using assms(1) by (intro irq_pop_push) simp
  then show ?thesis
    using wq_put_idem [OF assms(2)]
    by (simp add: wq_release_def in_wq_def spinlock_release_def holding_def held_by_def wql.put_sec spinlock_init_def)
qed

lemma wq_put_other [simp]: "rq_get c (wq_put q l s) = rq_get c s" "ks_procs (wq_put q l s) = ks_procs s"
  "ks_timer_counter (wq_put q l s) = ks_timer_counter s"
  by (simp_all add: slot_defs)

lemma in_wq_fields [simp]:
  "ks_tasks (in_wq q s) = ks_tasks s" "ks_wait_node (in_wq q s) = ks_wait_node s" "waiters d (in_wq q s) = waiters d s"
  "cx_cpu (in_wq q s) = cx_cpu s" "wq_get q (in_wq q s) = held_by s" "ks_procs (in_wq q s) = ks_procs s"
  "ks_cpus (in_wq q s) = ks_cpus s" "ks_timer_counter (in_wq q s) = ks_timer_counter s"
  "set_waiters q il h (in_wq q s) = in_wq q (set_waiters q il h s)"
  "set_task p t (in_wq q s) = in_wq q (set_task p t s)" "make_ready p t c (in_wq q s) = in_wq q (make_ready p t c s)"
  "cx_ok s \<Longrightarrow> cx_ok (in_wq q s)" "rq_free c (in_wq q s) = rq_free c s" "rq_get c (in_wq q s) = rq_get c s"
  "rq_insert c p (in_wq q s) = in_wq q (rq_insert c p s)"
  by (simp_all add: in_wq_def held_by_def rq_free_def)

lemma wq_section_in:
  assumes "cx_ok s" "wq_free q s" "body (in_wq q s) = Some (in_wq q y, r)" "cx_ok y" "cx_cpu y = cx_cpu s" "wq_free q y"
  shows "with_lock (wq_get q) (wq_put q) body s = Some (cx_sec y, r)"
  by (rule wq_section) (use assms in \<open>simp_all add: in_wq_def held_by_def\<close>)


section \<open>Waking sleepers\<close>

definition awake :: "Task \<Rightarrow> Task" where
  "awake t = t\<lparr>t_sleep_until := 0, t_waiting_on := None, t_state := TASK_READY\<rparr>"

definition map_tasks :: "(Task \<Rightarrow> Task) \<Rightarrow> u64 set \<Rightarrow> (u64 \<Rightarrow> Task option) \<Rightarrow> u64 \<Rightarrow> Task option" where
  "map_tasks f A tasks = (\<lambda>x. if x \<in> A then map_option f (tasks x) else tasks x)"

lemma waiting_not_special:
  "sched_inv rqs wqs s \<Longrightarrow> p \<in> set (wqs q) \<Longrightarrow> p \<notin> special (ks_cpus s d)"
  using sched_inv_waiting [of rqs wqs s p q] unfolding sched_inv_def cpus_ok_def by (metis option.distinct(1) option.inject)

lemma cx_same_upd [simp]: "cx_same s (set_task p t s') = cx_same s s'" "cx_same s (set_waiters q il h s') = cx_same s s'"
  "cx_same s (set_runnables c il h s') = cx_same s s'" "cx_same s (cx_sec s') = cx_same s s'"
  by (auto simp: cx_same_def set_task_def set_waiters_def set_runnables_def set_wq_def set_cpu_def cx_sec_def)

lemma cx_same_make_ready [simp]: "cx_same s (make_ready p t c s') = cx_same s s'" "cx_same s (rq_insert c p s') = cx_same s s'"
  by (simp_all add: make_ready_def rq_insert_def split_beta)

text \<open>What waking a task leaves alone: all of the processors but their run queues, and what is no part of the scheduler.\<close>

definition cpu_kept :: "Cpu \<Rightarrow> Cpu \<Rightarrow> bool" where
  "cpu_kept a b \<longleftrightarrow> b\<lparr>cpu_runnable_tasks := cpu_runnable_tasks a\<rparr> = a"

definition sched_kept :: "('h, 'w, 'a) kss \<Rightarrow> ('h, 'w, 'a) kss \<Rightarrow> bool" where
  "sched_kept s s' \<longleftrightarrow> kstate.more s' = kstate.more s \<and> (\<forall>d. cpu_kept (ks_cpus s d) (ks_cpus s' d)) \<and>
     ks_procs s' = ks_procs s \<and> fs_heap s' = fs_heap s \<and> ks_kernel_user_table s' = ks_kernel_user_table s \<and>
     ks_regs s' = ks_regs s \<and> ks_sp s' = ks_sp s \<and> ks_ttbr0 s' = ks_ttbr0 s"

lemma cpu_keptD: "cpu_kept a b \<Longrightarrow> f (b\<lparr>cpu_runnable_tasks := cpu_runnable_tasks a\<rparr>) = f a"
  by (simp add: cpu_kept_def)

lemma sched_kept_refl [simp]: "sched_kept s s"
  by (simp add: sched_kept_def cpu_kept_def)

lemma sched_kept_trans: "sched_kept a b \<Longrightarrow> sched_kept b c \<Longrightarrow> sched_kept a c"
proof (unfold sched_kept_def cpu_kept_def, elim conjE, intro conjI allI)
  fix d
  assume 1: "\<forall>d. (ks_cpus b d)\<lparr>cpu_runnable_tasks := cpu_runnable_tasks (ks_cpus a d)\<rparr> = ks_cpus a d"
    and 2: "\<forall>d. (ks_cpus c d)\<lparr>cpu_runnable_tasks := cpu_runnable_tasks (ks_cpus b d)\<rparr> = ks_cpus b d"
  have "(ks_cpus c d)\<lparr>cpu_runnable_tasks := cpu_runnable_tasks (ks_cpus a d)\<rparr> =
      ((ks_cpus c d)\<lparr>cpu_runnable_tasks := cpu_runnable_tasks (ks_cpus b d)\<rparr>)\<lparr>cpu_runnable_tasks := cpu_runnable_tasks (ks_cpus a d)\<rparr>"
    by simp
  then show "(ks_cpus c d)\<lparr>cpu_runnable_tasks := cpu_runnable_tasks (ks_cpus a d)\<rparr> = ks_cpus a d" using 1 2 by simp
qed simp_all

lemma sched_kept_upd [simp]:
  "sched_kept s (set_task p t s') = sched_kept s s'" "sched_kept s (set_waiters q il h s') = sched_kept s s'"
  "sched_kept s (cx_sec s') = sched_kept s s'" "sched_kept s (set_runnables c il h s') = sched_kept s s'"
  by (auto simp: sched_kept_def cpu_kept_def set_task_def set_waiters_def set_wq_def cx_sec_def set_runnables_def set_cpu_def)

lemma sched_kept_make_ready [simp]: "sched_kept s (make_ready p t c s') = sched_kept s s'"
  by (simp add: make_ready_def rq_insert_def split_beta)

lemma wake_one:
  assumes inv: "sched_inv rqs wqs s" and xs: "wqs (SleepingTasks c) = p # xs"
    and t: "ks_tasks s p = Some t" and due: "\<not> now < t_sleep_until t"
  obtains s' where
    "wake_sleepers_loop (SleepingTasks c) now (Some p) (in_wq (SleepingTasks c) s) =
       wake_sleepers_loop (SleepingTasks c) now (hd_ptr xs) (in_wq (SleepingTasks c) s')"
    "sched_inv (rqs(c := rqs c @ [p])) (wqs(SleepingTasks c := xs)) s'" "cx_same s s'"
    "ks_tasks s' = (ks_tasks s)(p \<mapsto> awake t)" "sched_kept s s'"
proof -
  let ?q = "SleepingTasks c"
  have in_q: "p \<in> set (wqs ?q)" using xs by simp
  have tw: "t_waiting_on t = Some ?q" using sched_inv_waiting [OF inv, of p ?q] in_q t by auto
  then have tb: "t_state t = TASK_BLOCKED" "t_cpu t = Some c"
    using sched_inv_at [OF inv, of p] t by (auto simp: task_at_def)
  obtain il h where r: "intrusivelist_remove (waiters ?q s) (ks_wait_node s) p = (il, h)" by fastforce
  have rep: "ils_rep h ((\<lambda>d. waiters d s)(?q := il)) (wqs(?q := xs))"
    using ils_remove [OF sched_inv_reps(2) [OF inv] in_q r] xs by simp
  let ?t = "t\<lparr>t_waiting_on := None, t_sleep_until := 0\<rparr>"
  let ?s1 = "set_task p ?t (set_waiters ?q il h s)"
  have dist: "p \<notin> set xs" using ils_rep_distinct [OF sched_inv_reps(2) [OF inv], of ?q] xs by simp
  have inv1: "sched_inv rqs (wqs(?q := xs)) ?s1"
    by (rule inv_unwait [OF inv t tw rep]) (use xs dist in auto)
  let ?s2 = "make_ready p ?t c ?s1"
  have "sched_inv (rqs(c := rqs c @ [p])) (wqs(?q := xs)) ?s2"
    by (rule inv_make_ready [OF inv1])
      (use tb waiting_not_special [OF inv in_q] blocked_not_queued [OF inv t] in auto)
  moreover have "inext (ks_wait_node s p) = hd_ptr xs" by (rule ils_next [OF sched_inv_reps(2) [OF inv] xs])
  moreover have "wq_release ?q (in_wq ?q ?s1) = Some (cx_sec ?s1)"
    using sched_inv_free [OF inv1] by (intro wq_release_eq) auto
  moreover have "scheduler_wake_blocked (Some p) (cx_sec ?s1) = Some (cx_sec ?s2, ())"
    using scheduler_wake_blocked_eq [of "cx_sec ?s1" c p ?t] sched_inv_free [OF inv1] tb
    by (simp add: rq_free_def)
  moreover have "wq_acquire ?q (cx_sec ?s2) = Some (in_wq ?q ?s2)"
    using sched_inv_free(3) [OF calculation(1)] by (rule wq_acquire_eq)
  ultimately show thesis
    by (intro that [of ?s2]) (simp_all add: wake_sleepers_loop.simps [of ?q now "Some p"] t due r awake_def)
qed

lemma wake_sleepers_loop_ok:
  assumes "sched_inv rqs wqs s" "wqs (SleepingTasks c) = xs"
  shows "\<exists>s'. wake_sleepers_loop (SleepingTasks c) now (hd_ptr xs) (in_wq (SleepingTasks c) s) = Some (in_wq (SleepingTasks c) s') \<and>
    sched_inv (rqs(c := rqs c @ takeWhile (\<lambda>p. sleep_key s p \<le> now) xs))
      (wqs(SleepingTasks c := dropWhile (\<lambda>p. sleep_key s p \<le> now) xs)) s' \<and> cx_same s s' \<and>
    ks_tasks s' = map_tasks awake (set (takeWhile (\<lambda>p. sleep_key s p \<le> now) xs)) (ks_tasks s) \<and>
    sched_kept s s'"
  using assms
proof (induction xs arbitrary: rqs wqs s)
  case Nil
  then have "rqs(c := rqs c @ []) = rqs" "wqs(SleepingTasks c := []) = wqs" by auto
  then show ?case using Nil
    by (intro exI [of _ s]) (simp add: wake_sleepers_loop.simps [of _ _ None] map_tasks_def)
next
  case (Cons p xs)
  obtain t where t: "ks_tasks s p = Some t" using sched_inv_waiting [OF Cons.prems(1), of p "SleepingTasks c"] Cons.prems(2) by auto
  show ?case
  proof (cases "now < t_sleep_until t")
    case True
    then have "\<not> sleep_key s p \<le> now" using t by (simp add: sleep_key_def)
    moreover have "rqs(c := rqs c @ []) = rqs" "wqs(SleepingTasks c := p # xs) = wqs" using Cons.prems(2) by auto
    ultimately show ?thesis using Cons.prems True t
      by (intro exI [of _ s]) (simp add: wake_sleepers_loop.simps [of _ _ "Some p"] map_tasks_def)
  next
    case False
    have due: "sleep_key s p \<le> now" using False t by (simp add: sleep_key_def)
    from wake_one [OF Cons.prems t False] obtain s1 where s1:
      "wake_sleepers_loop (SleepingTasks c) now (Some p) (in_wq (SleepingTasks c) s) =
         wake_sleepers_loop (SleepingTasks c) now (hd_ptr xs) (in_wq (SleepingTasks c) s1)"
      "sched_inv (rqs(c := rqs c @ [p])) (wqs(SleepingTasks c := xs)) s1" "cx_same s s1"
      "ks_tasks s1 = (ks_tasks s)(p \<mapsto> awake t)" "sched_kept s s1"
      by blast
    have dist: "p \<notin> set xs"
      using ils_rep_distinct [OF sched_inv_reps(2) [OF Cons.prems(1)], of "SleepingTasks c"] Cons.prems(2) by simp
    then have key: "sleep_key s1 x = sleep_key s x" if "x \<in> set xs" for x
      using that s1(4) by (auto simp: sleep_key_def)
    have tw: "takeWhile (\<lambda>p. sleep_key s1 p \<le> now) xs = takeWhile (\<lambda>p. sleep_key s p \<le> now) xs"
      "dropWhile (\<lambda>p. sleep_key s1 p \<le> now) xs = dropWhile (\<lambda>p. sleep_key s p \<le> now) xs"
      using key by (auto intro: takeWhile_cong dropWhile_cong)
    have "p \<notin> set (takeWhile (\<lambda>p. sleep_key s p \<le> now) xs)" using dist by (meson set_takeWhileD)
    then have "map_tasks awake (set (takeWhile (\<lambda>p. sleep_key s p \<le> now) xs)) (ks_tasks s1) =
        map_tasks awake (set (takeWhile (\<lambda>p. sleep_key s p \<le> now) (p # xs))) (ks_tasks s)"
      using due t by (auto simp: map_tasks_def s1(4))
    moreover obtain s' where "wake_sleepers_loop (SleepingTasks c) now (hd_ptr xs) (in_wq (SleepingTasks c) s1) =
        Some (in_wq (SleepingTasks c) s')"
      "sched_inv (rqs(c := rqs c @ p # takeWhile (\<lambda>p. sleep_key s p \<le> now) xs))
        (wqs(SleepingTasks c := dropWhile (\<lambda>p. sleep_key s p \<le> now) xs)) s'" "cx_same s1 s'"
      "ks_tasks s' = map_tasks awake (set (takeWhile (\<lambda>p. sleep_key s p \<le> now) xs)) (ks_tasks s1)"
      "sched_kept s1 s'"
      using Cons.IH [OF s1(2), unfolded fun_upd_same fun_upd_upd, OF refl, unfolded tw append_assoc append.simps] by blast
    ultimately show ?thesis using s1 due cx_same_trans [OF s1(3)] sched_kept_trans [OF s1(5)] by (intro exI [of _ s']) (simp del: fun_upd_apply)
  qed
qed


lemma sorted_filter_while:
  fixes f :: "'k \<Rightarrow> u64"
  assumes "sorted (map f xs)"
  shows "takeWhile (\<lambda>p. f p \<le> now) xs = filter (\<lambda>p. f p \<le> now) xs \<and>
    dropWhile (\<lambda>p. f p \<le> now) xs = filter (\<lambda>p. now < f p) xs"
  using assms
proof (induction xs)
  case (Cons x xs)
  have "\<forall>y\<in>set xs. now < f y" if "\<not> f x \<le> now" using that Cons.prems by fastforce
  then show ?case using Cons by (auto simp: filter_id_conv empty_filter_conv)
qed simp

lemma scheduler_wake_sleepers_ok:
  assumes inv: "sched_inv rqs wqs s" and c: "cx_cpu s = c"
  shows "\<exists>s'. scheduler_wake_sleepers s = Some s' \<and> cx_same s s' \<and>
    sched_inv (rqs(c := rqs c @ filter (\<lambda>p. sleep_key s p \<le> timer_current_tick s) (wqs (SleepingTasks c))))
      (wqs(SleepingTasks c := filter (\<lambda>p. timer_current_tick s < sleep_key s p) (wqs (SleepingTasks c)))) s' \<and>
    ks_tasks s' = map_tasks awake (set (filter (\<lambda>p. sleep_key s p \<le> timer_current_tick s) (wqs (SleepingTasks c)))) (ks_tasks s) \<and>
    sched_kept s s'"
proof -
  let ?q = "SleepingTasks c" and ?now = "timer_current_tick s"
  have q: "cpu_sleeping_tasks (this_cpu s) = ?q" using inv c by (simp add: sched_inv_def cpus_ok_def this_cpu_def)
  have srt: "sorted (map (sleep_key s) (wqs ?q))" using inv by (simp add: sched_inv_def)
  have hd: "intrusivelist_peek_head (waiters ?q s) = hd_ptr (wqs ?q)"
    using il_rep_accessors(1) [OF ils_repD [OF sched_inv_reps(2) [OF inv]]] by simp
  obtain s' where s': "wake_sleepers_loop ?q ?now (hd_ptr (wqs ?q)) (in_wq ?q s) = Some (in_wq ?q s')"
    "sched_inv (rqs(c := rqs c @ filter (\<lambda>p. sleep_key s p \<le> ?now) (wqs ?q)))
      (wqs(?q := filter (\<lambda>p. ?now < sleep_key s p) (wqs ?q))) s'" "cx_same s s'"
    "ks_tasks s' = map_tasks awake (set (filter (\<lambda>p. sleep_key s p \<le> ?now) (wqs ?q))) (ks_tasks s)"
    "sched_kept s s'"
    using wake_sleepers_loop_ok [OF inv refl, of c ?now] unfolding conjunct1 [OF sorted_filter_while [OF srt]] conjunct2 [OF sorted_filter_while [OF srt]] by blast
  have "wq_release ?q (in_wq ?q s') = Some (cx_sec s')"
    using sched_inv_free [OF s'(2)] by (intro wq_release_eq) auto
  then have "scheduler_wake_sleepers s = Some (cx_sec s')"
    using s'(1) hd q wq_acquire_eq(1) [OF sched_inv_free(3) [OF inv]] by (simp add: scheduler_wake_sleepers_def)
  then show ?thesis using s' by (intro exI [of _ "cx_sec s'"]) (simp del: fun_upd_apply)
qed

section \<open>Waking every waiter\<close>

lemma cx_sec_in_wq [simp]: "cx_ok s \<Longrightarrow> cx_sec (in_wq q s) = in_wq q s"
  by (simp add: in_wq_def)

lemma set_waiters_id: "set_waiters q (waiters q s) (ks_wait_node s) s = s"
  by (cases "ks_wqs s q") (auto intro!: kstate.equality simp: set_waiters_def set_wq_def)

lemma dequeue_unlocked_empty:
  assumes "sched_inv rqs wqs s" "wqs q = []"
  shows "waitqueue_dequeue_unlocked q (in_wq q s) = Some (in_wq q s, None)" "wq_pop q s = (s, None)"
  using ils_remove_head_empty [OF sched_inv_reps(2) [OF assms(1)] assms(2)]
  by (simp_all add: waitqueue_dequeue_unlocked_def wq_pop_def set_waiters_id)

text \<open>Taking the first waiter of a queue.\<close>

lemma dequeue_one:
  assumes inv: "sched_inv rqs wqs s" and xs: "wqs q = p # xs"
  obtains t il h where "ks_tasks s p = Some t" "t_waiting_on t = Some q" "wq_pop q s = (set_waiters q il h s, Some p)"
    "waitqueue_dequeue_unlocked q (in_wq q s) =
       Some (in_wq q (set_task p (t\<lparr>t_waiting_on := None\<rparr>) (set_waiters q il h s)), Some p)"
    "sched_inv rqs (wqs(q := xs)) (set_task p (t\<lparr>t_waiting_on := None\<rparr>) (set_waiters q il h s))"
proof -
  obtain t where t: "ks_tasks s p = Some t" "t_waiting_on t = Some q"
    using sched_inv_waiting [OF inv, of p q] xs by auto
  obtain il h r where i: "intrusivelist_remove_head (waiters q s) (ks_wait_node s) = (il, h, r)" by (metis prod_cases3)
  have r: "r = Some p" "ils_rep h ((\<lambda>d. waiters d s)(q := il)) (wqs(q := xs))"
    using ils_remove_head [OF sched_inv_reps(2) [OF inv] xs i] by simp_all
  have "p \<notin> set xs" using ils_rep_distinct [OF sched_inv_reps(2) [OF inv], of q] xs by simp
  then have "sched_inv rqs (wqs(q := xs)) (set_task p (t\<lparr>t_waiting_on := None\<rparr>) (set_waiters q il h s))"
    by (intro inv_unwait [OF inv t r(2)]) (use xs in auto)
  with t i r show thesis by (intro that [of t il h]) (simp_all add: waitqueue_dequeue_unlocked_def wq_pop_def)
qed

definition woken :: "Task \<Rightarrow> Task" where
  "woken t = t\<lparr>t_waiting_on := None, t_state := TASK_READY\<rparr>"

text \<open>
  Every waiter of \<open>q\<close> is blocked and has a processor: what the callers of
  \<^verbatim>\<open>scheduler_wake_all\<close> and \<^verbatim>\<open>completion_signal\<close> rely on.
\<close>

definition all_blocked :: "u64 list \<Rightarrow> ('h, 'w, 'a) kss \<Rightarrow> bool" where
  "all_blocked xs s \<longleftrightarrow> (\<forall>p\<in>set xs. \<exists>t c. ks_tasks s p = Some t \<and> t_state t = TASK_BLOCKED \<and> t_cpu t = Some c)"

definition to_runqueues :: "('h, 'w, 'a) kss \<Rightarrow> u64 list \<Rightarrow> (nat \<Rightarrow> u64 list) \<Rightarrow> nat \<Rightarrow> u64 list" where
  "to_runqueues s xs rqs = (\<lambda>c. rqs c @ filter (\<lambda>p. cpu_of s p = Some c) xs)"

lemma wake_first:
  assumes inv: "sched_inv rqs wqs s" and xs: "wqs q = p # xs" and b: "all_blocked (p # xs) s"
  obtains t c s1 s2 where "ks_tasks s p = Some t" "t_cpu t = Some c" "t_state t = TASK_BLOCKED"
    "waitqueue_dequeue_unlocked q (in_wq q s) = Some (in_wq q s1, Some p)" "ks_tasks s1 p = Some (t\<lparr>t_waiting_on := None\<rparr>)"
    "s2 = make_ready p (t\<lparr>t_waiting_on := None\<rparr>) c s1" "cx_ok s1" "rq_free c s1"
    "sched_inv (rqs(c := rqs c @ [p])) (wqs(q := xs)) s2" "cx_same s s2" "ks_tasks s2 = (ks_tasks s)(p \<mapsto> woken t)"
    "all_blocked xs s2" "to_runqueues s2 xs (rqs(c := rqs c @ [p])) = to_runqueues s (p # xs) rqs"
    "\<And>d. cpu_current (ks_cpus s2 d) = cpu_current (ks_cpus s d)" "sched_kept s s2"
proof -
  obtain t il h where t: "ks_tasks s p = Some t" "t_waiting_on t = Some q" and
    d: "waitqueue_dequeue_unlocked q (in_wq q s) =
       Some (in_wq q (set_task p (t\<lparr>t_waiting_on := None\<rparr>) (set_waiters q il h s)), Some p)"
      "sched_inv rqs (wqs(q := xs)) (set_task p (t\<lparr>t_waiting_on := None\<rparr>) (set_waiters q il h s))"
    using dequeue_one [OF inv xs] by metis
  obtain c where tc: "t_state t = TASK_BLOCKED" "t_cpu t = Some c" using b t(1) by (auto simp: all_blocked_def)
  let ?s1 = "set_task p (t\<lparr>t_waiting_on := None\<rparr>) (set_waiters q il h s)"
  let ?s2 = "make_ready p (t\<lparr>t_waiting_on := None\<rparr>) c ?s1"
  have pq: "p \<in> set (wqs q)" using xs by simp
  have inv2: "sched_inv (rqs(c := rqs c @ [p])) (wqs(q := xs)) ?s2"
    by (rule inv_make_ready [OF d(2)])
      (use tc waiting_not_special [OF inv pq] blocked_not_queued [OF inv t(1)] in auto)
  have dist: "p \<notin> set xs" using ils_rep_distinct [OF sched_inv_reps(2) [OF inv], of q] xs by simp
  have "cpu_of ?s2 x = cpu_of s x" for x using t(1) by (simp add: cpu_of_def)
  then have "to_runqueues ?s2 xs (rqs(c := rqs c @ [p])) = to_runqueues s (p # xs) rqs"
    using tc t(1) by (auto simp: to_runqueues_def cpu_of_def)
  moreover have "all_blocked xs ?s2" using b dist by (auto simp: all_blocked_def)
  ultimately show thesis
    using that [OF t(1) tc(2,1) d(1), of ?s2] inv2 sched_inv_free [OF d(2)] by (simp add: woken_def)
qed

lemma wake_all_loop_ok:
  assumes "sched_inv rqs wqs s" "wqs q = xs" "all_blocked xs s"
  shows "\<exists>s'. wake_all_loop q (in_wq q s) = Some (in_wq q s', ()) \<and>
    sched_inv (to_runqueues s xs rqs) (wqs(q := [])) s' \<and> cx_same s s' \<and>
    ks_tasks s' = map_tasks woken (set xs) (ks_tasks s) \<and>
    (\<forall>d. cpu_current (ks_cpus s' d) = cpu_current (ks_cpus s d)) \<and> sched_kept s s'"
  using assms
proof (induction xs arbitrary: rqs wqs s)
  case Nil
  then have "to_runqueues s [] rqs = rqs" "wqs(q := []) = wqs" by (auto simp: to_runqueues_def)
  then show ?case using Nil dequeue_unlocked_empty(1) [OF Nil(1,2)]
    by (subst wake_all_loop.simps) (auto simp: map_tasks_def)
next
  case (Cons p xs)
  obtain t c s1 s2 where w: "ks_tasks s p = Some t" "t_cpu t = Some c" "t_state t = TASK_BLOCKED"
    "waitqueue_dequeue_unlocked q (in_wq q s) = Some (in_wq q s1, Some p)" "ks_tasks s1 p = Some (t\<lparr>t_waiting_on := None\<rparr>)"
    "s2 = make_ready p (t\<lparr>t_waiting_on := None\<rparr>) c s1" "cx_ok s1" "rq_free c s1"
    "sched_inv (rqs(c := rqs c @ [p])) (wqs(q := xs)) s2" "cx_same s s2" "ks_tasks s2 = (ks_tasks s)(p \<mapsto> woken t)"
    "all_blocked xs s2" "to_runqueues s2 xs (rqs(c := rqs c @ [p])) = to_runqueues s (p # xs) rqs"
    "\<And>d. cpu_current (ks_cpus s2 d) = cpu_current (ks_cpus s d)" "sched_kept s s2"
    using wake_first [OF Cons.prems] by blast
  obtain s' where s': "wake_all_loop q (in_wq q s2) = Some (in_wq q s', ())"
    "sched_inv (to_runqueues s (p # xs) rqs) (wqs(q := [])) s'" "cx_same s2 s'"
    "ks_tasks s' = map_tasks woken (set xs) (ks_tasks s2)" "\<forall>d. cpu_current (ks_cpus s' d) = cpu_current (ks_cpus s2 d)"
    "sched_kept s2 s'"
    using Cons.IH [OF w(9) _ w(12), unfolded fun_upd_same fun_upd_upd w(13), OF refl] by blast
  let ?r = "set_task p (t\<lparr>t_waiting_on := None, t_state := TASK_READY\<rparr>) s1"
  have "scheduler_enqueue p (in_wq q ?r) = Some (in_wq q s2, ())"
    using scheduler_enqueue_eq [of "in_wq q ?r" c p "t\<lparr>t_waiting_on := None, t_state := TASK_READY\<rparr>"] w(2,6,7,8)
    by (simp add: make_ready_def rq_free_def)
  then have "wake_all_loop q (in_wq q s) = wake_all_loop q (in_wq q s2)"
    by (subst wake_all_loop.simps) (simp add: w(3,4,5))
  moreover have "p \<notin> set xs"
    using ils_rep_distinct [OF sched_inv_reps(2) [OF Cons.prems(1)], of q] Cons.prems(2) by simp
  then have "ks_tasks s' = map_tasks woken (set (p # xs)) (ks_tasks s)"
    using w(1) by (auto simp: s'(4) w(11) map_tasks_def)
  ultimately show ?case
    using s' w(14) cx_same_trans [OF w(10)] sched_kept_trans [OF w(15) s'(6)] by (intro exI [of _ s']) (simp del: fun_upd_apply)
qed

lemma scheduler_wake_all_ok:
  assumes inv: "sched_inv rqs wqs s" and b: "all_blocked (wqs q) s"
  shows "\<exists>s'. scheduler_wake_all q s = Some (s', ()) \<and> cx_same s s' \<and>
    sched_inv (to_runqueues s (wqs q) rqs) (wqs(q := [])) s' \<and>
    ks_tasks s' = map_tasks woken (set (wqs q)) (ks_tasks s) \<and>
    (\<forall>d. cpu_current (ks_cpus s' d) = cpu_current (ks_cpus s d)) \<and> sched_kept s s'"
proof -
  obtain s' where s': "wake_all_loop q (in_wq q s) = Some (in_wq q s', ())"
    "sched_inv (to_runqueues s (wqs q) rqs) (wqs(q := [])) s'" "cx_same s s'"
    "ks_tasks s' = map_tasks woken (set (wqs q)) (ks_tasks s)"
    "\<forall>d. cpu_current (ks_cpus s' d) = cpu_current (ks_cpus s d)" "sched_kept s s'"
    using wake_all_loop_ok [OF inv refl b] by blast
  have "scheduler_wake_all q s = Some (cx_sec s', ())"
    unfolding scheduler_wake_all_def
    by (rule wq_section_in) (use s' sched_inv_free [OF inv] sched_inv_free [OF s'(2)] in \<open>simp_all add: cx_same_def\<close>)
  then show ?thesis using s' by (intro exI [of _ "cx_sec s'"]) (simp del: fun_upd_apply)
qed

section \<open>The least loaded processor\<close>

lemma pick_cpu_fold:
  assumes "sched_inv rqs wqs s" "\<forall>c. length (rqs c) < 2 ^ 63 - 1"
    and "best = None \<longrightarrow> n = 0x7fffffffffffffff" "\<forall>b. best = Some b \<longrightarrow> unat n = length (rqs b) \<and> cpu_online (ks_cpus s b)"
  shows "\<exists>best' n' s'. foldM pick_cpu_step cs (s, best, n) = Some (s', best', n') \<and> (s' = s \<or> s' = cx_sec s) \<and>
    (\<forall>b. best' = Some b \<longrightarrow> cpu_online (ks_cpus s b) \<and> (best' = best \<or> b \<in> set cs) \<and>
       (\<forall>c\<in>set cs. cpu_online (ks_cpus s c) \<longrightarrow> length (rqs b) \<le> length (rqs c)) \<and>
       (\<forall>b'. best = Some b' \<longrightarrow> length (rqs b) \<le> length (rqs b'))) \<and>
    (best' = None \<longrightarrow> best = None \<and> (\<forall>c\<in>set cs. \<not> cpu_online (ks_cpus s c)))"
  using assms
proof (induction cs arbitrary: s best n)
  case (Cons c cs)
  show ?case
  proof (cases "cpu_online (ks_cpus s c)")
    case False
    then show ?thesis using Cons.IH [OF Cons.prems] by (auto simp: pick_cpu_step_def)
  next
    case True
    let ?k = "intrusivelist_count (runnables c s)"
    have k: "unat ?k = length (rqs c)"
      using il_rep_accessors(3) [OF ils_repD [OF sched_inv_reps(1) [OF Cons.prems(1)]]] by simp
    have rd: "with_lock (rq_get c) (rq_put c) (runqueue_count_unlocked c) s = Some (cx_sec s, ?k)"
      using runqueue_read_eq(2) [OF sched_inv_free(1,2) [OF Cons.prems(1)]] by (simp add: runqueue_count_def)
    have lt: "?k < n \<longleftrightarrow> length (rqs c) < unat n" by (simp add: word_less_nat_alt k)
    have big: "length (rqs c) < unat (0x7fffffffffffffff :: u64)" using Cons.prems(2) by simp
    let ?b = "if ?k < n then Some c else best" and ?n = "if ?k < n then ?k else n"
    have step: "pick_cpu_step c (s, best, n) = Some (cx_sec s, ?b, ?n)"
      using True rd by (simp add: pick_cpu_step_def)
    have "?b = None \<longrightarrow> ?n = 0x7fffffffffffffff" "\<forall>b. ?b = Some b \<longrightarrow> unat ?n = length (rqs b) \<and> cpu_online (ks_cpus (cx_sec s) b)"
      using Cons.prems(3,4) lt big k True by auto
    from Cons.IH [OF _ Cons.prems(2) this] Cons.prems(1) obtain best' n' s' where
      f: "foldM pick_cpu_step cs (cx_sec s, ?b, ?n) = Some (s', best', n')" "s' = cx_sec s"
      "\<forall>b. best' = Some b \<longrightarrow> cpu_online (ks_cpus s b) \<and> (best' = ?b \<or> b \<in> set cs) \<and>
       (\<forall>c\<in>set cs. cpu_online (ks_cpus s c) \<longrightarrow> length (rqs b) \<le> length (rqs c)) \<and>
       (\<forall>b'. ?b = Some b' \<longrightarrow> length (rqs b) \<le> length (rqs b'))"
      "best' = None \<longrightarrow> ?b = None \<and> (\<forall>c\<in>set cs. \<not> cpu_online (ks_cpus s c))"
      by (simp only: sched_inv_sec cx_sec_fields ks_sec) blast
    have nb: "?b \<noteq> None" using Cons.prems(3) lt big by auto
    then obtain b where b: "best' = Some b" using f(4) by (cases best') simp_all
    note fb = f(3) [rule_format, OF b]
    obtain b1 where b1: "?b = Some b1" using nb by blast
    have lb: "length (rqs b) \<le> length (rqs b1)" using fb b1 by blast
    have l1: "length (rqs b1) \<le> length (rqs c)" "\<And>b'. best = Some b' \<Longrightarrow> length (rqs b1) \<le> length (rqs b')"
      using b1 lt Cons.prems(4) by (auto split: if_splits)
    have "best' = best \<or> b \<in> set (c # cs)" using fb b b1 by (auto split: if_splits)
    moreover have "\<forall>d\<in>set (c # cs). cpu_online (ks_cpus s d) \<longrightarrow> length (rqs b) \<le> length (rqs d)"
      using fb lb l1(1) by auto
    moreover have "\<forall>b'. best = Some b' \<longrightarrow> length (rqs b) \<le> length (rqs b')" using lb l1(2) by force
    ultimately show ?thesis using step f(1,2) b fb by simp
  qed
qed auto

lemma scheduler_pick_cpu_ok:
  assumes "sched_inv rqs wqs s" "\<forall>c. length (rqs c) < 2 ^ 63 - 1"
  shows "if \<exists>c < CONFIG_MAX_CPU_COUNT. cpu_online (ks_cpus s c)
    then \<exists>s' b. scheduler_pick_cpu s = Some (s', b) \<and> (s' = s \<or> s' = cx_sec s) \<and> b < CONFIG_MAX_CPU_COUNT \<and>
      cpu_online (ks_cpus s b) \<and> (\<forall>c < CONFIG_MAX_CPU_COUNT. cpu_online (ks_cpus s c) \<longrightarrow> length (rqs b) \<le> length (rqs c))
    else scheduler_pick_cpu s = None"
proof -
  obtain best n s' where f: "foldM pick_cpu_step [0..<CONFIG_MAX_CPU_COUNT] (s, None, 0x7fffffffffffffff) = Some (s', best, n)"
    "s' = s \<or> s' = cx_sec s"
    "\<forall>b. best = Some b \<longrightarrow> cpu_online (ks_cpus s b) \<and> (best = None \<or> b \<in> set [0..<CONFIG_MAX_CPU_COUNT]) \<and>
       (\<forall>c\<in>set [0..<CONFIG_MAX_CPU_COUNT]. cpu_online (ks_cpus s c) \<longrightarrow> length (rqs b) \<le> length (rqs c)) \<and>
       (\<forall>b'. None = Some b' \<longrightarrow> length (rqs b) \<le> length (rqs b'))"
    "best = None \<longrightarrow> None = None \<and> (\<forall>c\<in>set [0..<CONFIG_MAX_CPU_COUNT]. \<not> cpu_online (ks_cpus s c))"
    using pick_cpu_fold [OF assms, of None "0x7fffffffffffffff" "[0..<CONFIG_MAX_CPU_COUNT]"] by blast
  show ?thesis
  proof (cases best)
    case None
    then have "scheduler_pick_cpu s = None" using f(1) by (simp add: scheduler_pick_cpu_def)
    then show ?thesis using f(4) None by auto
  next
    case (Some b)
    then have "scheduler_pick_cpu s = Some (s', b)" using f(1) by (simp add: scheduler_pick_cpu_def)
    moreover have "b < CONFIG_MAX_CPU_COUNT" "cpu_online (ks_cpus s b)"
      "\<forall>c < CONFIG_MAX_CPU_COUNT. cpu_online (ks_cpus s c) \<longrightarrow> length (rqs b) \<le> length (rqs c)"
      using f(3) Some by auto
    ultimately show ?thesis using f(2) by auto
  qed
qed

end
