(* ===== verification/SchedSwitch.thy ===== *)
theory SchedSwitch
  imports SchedWake
begin

text \<open>
  Sleeping and switching: \<^verbatim>\<open>scheduler_sleep_current\<close>, the choice of the next task with the
  removal of tasks of exiting processes, and \<^verbatim>\<open>scheduler_switch\<close> as a whole, on states
  that satisfy the scheduler's invariant.
\<close>

section \<open>Going to sleep\<close>

lemma comparator_keys:
  "ks_tasks s a = Some ta \<Longrightarrow> ks_tasks s b = Some tb \<Longrightarrow>
   task_comparator_sleep_until (ks_tasks s) a b \<longleftrightarrow> sleep_key s b < sleep_key s a"
  by (simp add: task_comparator_sleep_until_def sleep_key_def)

lemma sorted_insert_key:
  fixes f :: "'k \<Rightarrow> u64"
  assumes "sorted (map f xs)"
  shows "sorted (map f (takeWhile (\<lambda>e. f e \<le> f p) xs @ p # dropWhile (\<lambda>e. f e \<le> f p) xs))"
proof -
  have "sorted (map f (dropWhile (\<lambda>e. f e \<le> f p) xs))"
    using assms by (metis sorted_append takeWhile_dropWhile_id map_append)
  moreover have "sorted (map f (takeWhile (\<lambda>e. f e \<le> f p) xs))"
    using assms by (metis sorted_append takeWhile_dropWhile_id map_append)
  moreover have "\<forall>e\<in>set (takeWhile (\<lambda>e. f e \<le> f p) xs). f e \<le> f p" by (meson set_takeWhileD)
  moreover have "\<forall>e\<in>set (dropWhile (\<lambda>e. f e \<le> f p) xs). f p < f e"
    unfolding conjunct2 [OF sorted_filter_while [OF assms]] by auto
  ultimately show ?thesis by (fastforce simp: sorted_append)
qed

lemma set_waiters_task: "set_waiters q il h (set_task p t s) = set_task p t (set_waiters q il h s)"
  by (simp add: set_waiters_def set_task_def set_wq_def)

lemma timer_in_wq [simp]: "timer_current_tick (in_wq q s) = timer_current_tick s"
  "timer_ms_to_ticks ms (in_wq q s) = timer_ms_to_ticks ms s"
  by (simp_all add: timer_current_tick_def timer_ms_to_ticks_def in_wq_def wq_put_def set_wq_def)

definition sleep_list :: "('h, 'w, 'a) kss \<Rightarrow> usize \<Rightarrow> u64 \<Rightarrow> u64 list \<Rightarrow> u64 list" where
  "sleep_list s key p xs = takeWhile (\<lambda>e. sleep_key s e \<le> key) xs @ p # dropWhile (\<lambda>e. sleep_key s e \<le> key) xs"

lemma sleep_enqueue_ok:
  assumes inv: "sched_inv rqs wqs s" and t: "ks_tasks s p = Some t" "t_waiting_on t = None" "t_state t = TASK_RUNNING"
      "t_cpu t = Some c"
    and sp: "\<forall>d. p \<notin> special (ks_cpus s d)" and key: "key = timer_current_tick s + timer_ms_to_ticks ms s"
  obtains s' where
    "with_lock (wq_get (SleepingTasks c)) (wq_put (SleepingTasks c)) (sleep_enqueue p (SleepingTasks c) ms) s = Some (cx_sec s', ())"
    "sched_inv rqs (wqs(SleepingTasks c := sleep_list s key p (wqs (SleepingTasks c)))) s'" "cx_same s s'"
    "ks_tasks s' = (ks_tasks s)(p \<mapsto> t\<lparr>t_sleep_until := key, t_waiting_on := Some (SleepingTasks c), t_state := TASK_BLOCKED\<rparr>)"
    "ks_cpus s' = ks_cpus s"
proof -
  let ?q = "SleepingTasks c" and ?t1 = "t\<lparr>t_sleep_until := key\<rparr>"
  let ?t' = "t\<lparr>t_sleep_until := key, t_waiting_on := Some ?q, t_state := TASK_BLOCKED\<rparr>"
  have new: "\<forall>l. p \<notin> set (wqs l)" using sched_inv_waiting [OF inv] t by simp
  then have room: "length (wqs ?q) + 1 < 2 ^ 64" using sched_inv_room(2) [OF inv t(1)] by blast
  let ?cmp = "task_comparator_sleep_until ((ks_tasks s)(p \<mapsto> ?t1))"
  have cmp: "\<not> ?cmp e p \<longleftrightarrow> sleep_key s e \<le> key" if "e \<in> set (wqs ?q)" for e
    using that new sched_inv_waiting [OF inv, of e ?q]
    by (auto simp: task_comparator_sleep_until_def sleep_key_def not_less split: option.splits)
  have tw: "takeWhile (\<lambda>e. \<not> ?cmp e p) (wqs ?q) @ p # dropWhile (\<lambda>e. \<not> ?cmp e p) (wqs ?q) = sleep_list s key p (wqs ?q)"
    unfolding sleep_list_def using cmp by (metis (mono_tags, lifting) dropWhile_cong takeWhile_cong)
  obtain il h where ih: "intrusivelist_insert_sorted (waiters ?q s) (ks_wait_node s) p ?cmp = Some (il, h, True)"
    "ils_rep h ((\<lambda>d. waiters d s)(?q := il)) (wqs(?q := sleep_list s key p (wqs ?q)))"
    using ils_insert_sorted [OF sched_inv_reps(2) [OF inv] new room, of ?cmp] unfolding tw by blast
  have set_sl: "set (sleep_list s key p (wqs ?q)) = insert p (set (wqs ?q))"
    by (simp add: sleep_list_def) (metis set_append takeWhile_dropWhile_id)
  let ?s' = "set_task p ?t' (set_waiters ?q il h s)"
  have "sched_inv rqs (wqs(?q := sleep_list s key p (wqs ?q))) ?s'"
  proof (rule inv_set_waiters [OF inv t(1) _ ih(2)])
    have nr: "p \<notin> set (rqs d)" for d using blocked_not_queued [OF inv t(1)] t(3) by simp
    show "task_at rqs (wqs(?q := sleep_list s key p (wqs ?q))) p (Some ?t')"
      using nr new set_sl t(4) by (auto simp: task_at_def)
    let ?f = "(sleep_key s)(p := key)"
    have "sorted (map ?f (wqs ?q))" using inv_sorted_upd [OF inv] new by blast
    then have "sorted (map ?f (takeWhile (\<lambda>e. ?f e \<le> ?f p) (wqs ?q) @ p # dropWhile (\<lambda>e. ?f e \<le> ?f p) (wqs ?q)))"
      by (rule sorted_insert_key)
    moreover have "takeWhile (\<lambda>e. ?f e \<le> ?f p) (wqs ?q) = takeWhile (\<lambda>e. sleep_key s e \<le> key) (wqs ?q)"
      "dropWhile (\<lambda>e. ?f e \<le> ?f p) (wqs ?q) = dropWhile (\<lambda>e. sleep_key s e \<le> key) (wqs ?q)"
      using new by (auto intro!: takeWhile_cong dropWhile_cong)
    then have "takeWhile (\<lambda>e. ?f e \<le> ?f p) (wqs ?q) @ p # dropWhile (\<lambda>e. ?f e \<le> ?f p) (wqs ?q) = sleep_list s key p (wqs ?q)"
      by (simp only: sleep_list_def)
    ultimately have own: "sorted (map ?f (sleep_list s key p (wqs ?q)))" by (simp only:)
    show "sorted (map ((sleep_key s)(p := t_sleep_until ?t')) ((wqs(?q := sleep_list s key p (wqs ?q))) (SleepingTasks d)))" for d
    proof (cases "d = c")
      case False
      then have "(wqs(?q := sleep_list s key p (wqs ?q))) (SleepingTasks d) = wqs (SleepingTasks d)" by simp
      then show ?thesis using inv_sorted_upd [OF inv, of p d key] new by (simp del: fun_upd_apply)
    qed (use own in \<open>simp del: fun_upd_apply add: fun_upd_same\<close>)
  qed (use set_sl sp in auto)
  moreover have "with_lock (wq_get ?q) (wq_put ?q) (sleep_enqueue p ?q ms) s = Some (cx_sec ?s', ())"
  proof (rule wq_section_in)
    show "sleep_enqueue p ?q ms (in_wq ?q s) = Some (in_wq ?q ?s', ())"
      using ih(1) t(1) key by (simp add: sleep_enqueue_def set_waiters_task Let_def)
  qed (use sched_inv_free [OF inv] in \<open>simp_all add: wq_free_def\<close>)
  ultimately show thesis by (intro that [of ?s']) simp_all
qed

section \<open>What a switch leaves alone\<close>

text \<open>
  The steps of a switch change states and queues of tasks, never their process, their saved context
  or any process: so neither which tasks are exiting nor which table a task runs on.
\<close>

definition same_env :: "('h, 'w, 'a) kss \<Rightarrow> ('h, 'w, 'a) kss \<Rightarrow> bool" where
  "same_env s s' \<longleftrightarrow> ks_procs s' = ks_procs s \<and> fs_heap s' = fs_heap s \<and>
     ks_kernel_user_table s' = ks_kernel_user_table s \<and>
     ks_regs s' = ks_regs s \<and> ks_sp s' = ks_sp s \<and> ks_ttbr0 s' = ks_ttbr0 s \<and>
     (\<forall>x. map_option (\<lambda>t. (t_process t, t_context t, t_cpu t)) (ks_tasks s' x) =
          map_option (\<lambda>t. (t_process t, t_context t, t_cpu t)) (ks_tasks s x)) \<and>
     (\<forall>c. cpu_idle (ks_cpus s' c) = cpu_idle (ks_cpus s c) \<and> cpu_cleanup_task (ks_cpus s' c) = cpu_cleanup_task (ks_cpus s c))"

lemma same_env_refl [simp]: "same_env s s"
  by (simp add: same_env_def)

lemma same_env_trans: "same_env a b \<Longrightarrow> same_env b c \<Longrightarrow> same_env a c"
  by (simp add: same_env_def)

lemma same_env_view:
  assumes "same_env s s'"
  shows "map_option (\<lambda>t. (t_process t, t_context t, t_cpu t)) (ks_tasks s' x) =
    map_option (\<lambda>t. (t_process t, t_context t, t_cpu t)) (ks_tasks s x)"
  using assms unfolding same_env_def by (elim conjE) (erule spec)

lemma same_env_task:
  assumes "same_env s s'" "ks_tasks s' x = Some t'"
  obtains t where "ks_tasks s x = Some t" "t_process t = t_process t'" "t_context t = t_context t'" "t_cpu t = t_cpu t'"
proof -
  have "map_option (\<lambda>t. (t_process t, t_context t, t_cpu t)) (ks_tasks s x) = Some (t_process t', t_context t', t_cpu t')"
    using same_env_view [OF assms(1), of x] assms(2) by simp
  then show thesis using that by (cases "ks_tasks s x") auto
qed

lemma same_env_None: "same_env s s' \<Longrightarrow> ks_tasks s' x = None \<longleftrightarrow> ks_tasks s x = None"
  using arg_cong [OF same_env_view [of s s' x], of "\<lambda>v. v = None"] by simp

lemma same_env_procs: "same_env s s' \<Longrightarrow> ks_procs s' = ks_procs s"
  "same_env s s' \<Longrightarrow> fs_heap s' = fs_heap s" "same_env s s' \<Longrightarrow> ks_kernel_user_table s' = ks_kernel_user_table s"
  unfolding same_env_def by (elim conjE, assumption)+

lemma same_env_exiting:
  assumes "same_env s s'"
  shows "is_task_process_exiting (Some x) s' = is_task_process_exiting (Some x) s"
proof (cases "ks_tasks s' x")
  case None
  then show ?thesis using same_env_None [OF assms, of x] by (simp add: is_task_process_exiting_def)
next
  case (Some t')
  then obtain t where "ks_tasks s x = Some t" "t_process t = t_process t'" using same_env_task [OF assms] by metis
  then show ?thesis using Some by (simp add: is_task_process_exiting_def same_env_procs [OF assms] split: option.split)
qed

lemma same_env_table:
  assumes "same_env s s'"
  shows "address_space_table mo (Some x) s' = address_space_table mo (Some x) s"
proof (cases "ks_tasks s' x")
  case None
  then show ?thesis using same_env_None [OF assms, of x] by (simp add: address_space_table_def)
next
  case (Some t')
  then obtain t where "ks_tasks s x = Some t" "t_process t = t_process t'" using same_env_task [OF assms] by metis
  then show ?thesis using Some by (simp add: address_space_table_def same_env_procs [OF assms] split: option.split)
qed

lemma same_env_sec [simp]: "same_env s (cx_sec s') = same_env s s'"
  by (simp add: same_env_def)

lemma same_env_runnables [simp]: "same_env s (set_runnables c il h s') = same_env s s'"
  by (auto simp: same_env_def set_runnables_def set_cpu_def)

lemma same_env_rq_insert [simp]: "same_env s (rq_insert c p s') = same_env s s'"
  by (simp add: rq_insert_def split_beta)

lemma same_env_set_task:
  assumes "ks_tasks s' p = Some t" "t_process t' = t_process t" "t_context t' = t_context t" "t_cpu t' = t_cpu t"
    and e: "same_env s s'"
  shows "same_env s (set_task p t' s')"
proof -
  have "map_option (\<lambda>t. (t_process t, t_context t, t_cpu t)) (((ks_tasks s')(p \<mapsto> t')) x) =
      map_option (\<lambda>t. (t_process t, t_context t, t_cpu t)) (ks_tasks s' x)" for x
    using assms by simp
  moreover have "ks_tasks (set_task p t' s') = (ks_tasks s')(p \<mapsto> t')" by simp
  ultimately show ?thesis using e unfolding same_env_def by (simp only:) (simp add: set_task_def)
qed

section \<open>Picking the next task\<close>

lemma inv_set_cpu:
  assumes "sched_inv rqs wqs s" "cpu_runnable_tasks v = cpu_runnable_tasks (ks_cpus s c)"
    "cpu_sleeping_tasks v = cpu_sleeping_tasks (ks_cpus s c)" "cpu_idle v = cpu_idle (ks_cpus s c)"
    "cpu_cleanup_task v = cpu_cleanup_task (ks_cpus s c)"
  shows "sched_inv rqs wqs (set_cpu c v s)"
proof -
  have r: "runnables d (set_cpu c v s) = runnables d s" for d using assms(2) by (simp add: set_cpu_def)
  have "special (ks_cpus (set_cpu c v s) d) = special (ks_cpus s d)" for d
    using assms(4,5) by (simp add: set_cpu_def special_def)
  moreover have "cpu_sleeping_tasks (ks_cpus (set_cpu c v s) d) = cpu_sleeping_tasks (ks_cpus s d)" for d
    using assms(3) by (simp add: set_cpu_def)
  moreover have "rq_get d (set_cpu c v s) = rq_get d s" for d using assms(2) by (simp add: set_cpu_def rq_get_def)
  moreover have "ks_tasks (set_cpu c v s) = ks_tasks s" "sleep_key (set_cpu c v s) = sleep_key s" "cx_ok (set_cpu c v s) = cx_ok s"
    "wq_get q (set_cpu c v s) = wq_get q s" "tm_get (set_cpu c v s) = tm_get s" "ks_runnable_node (set_cpu c v s) = ks_runnable_node s"
    "ks_wait_node (set_cpu c v s) = ks_wait_node s" "ks_wqs (set_cpu c v s) = ks_wqs s" for q
    by (auto simp: set_cpu_def sleep_key_def wq_get_def tm_get_def cx_ok_def)
  ultimately show ?thesis
    using assms(1) by (simp add: sched_inv_def queues_rep_def locks_free_def cpus_ok_def rq_free_def wq_free_def r)
qed

lemma policy_pick_empty:
  assumes "sched_inv rqs wqs s" "rqs c = []"
  shows "scheduler_policy_pick_next c s = Some (cx_sec s, None)"
  unfolding scheduler_policy_pick_next_def
  by (rule rq_section)
    (use sched_inv_free [OF assms(1)] rq_pop_none [OF assms] in \<open>simp_all add: runqueue_is_empty_unlocked_def\<close>)

lemma policy_pick_first:
  assumes inv: "sched_inv rqs wqs s" and xs: "rqs c = p # xs"
  obtains il h where "scheduler_policy_pick_next c s = Some (cx_sec (set_runnables c il h s), Some p)"
    "sched_inv (rqs(c := xs)) wqs (set_runnables c il h s)" "intrusivelist_node_is_null h p"
proof -
  obtain il h where r: "rq_pop c s = (set_runnables c il h s, Some p)" "intrusivelist_node_is_null h p"
    "sched_inv (rqs(c := xs)) wqs (set_runnables c il h s)" using inv_rq_pop [OF inv xs] by blast
  have i: "intrusivelist_remove_head (runnables c s) (ks_runnable_node s) = (il', h', r') \<Longrightarrow>
      set_runnables c il' h' s = set_runnables c il h s \<and> r' = Some p" for il' h' r'
    using r(1) by (simp add: rq_pop_def)
  have "scheduler_policy_pick_next c s = Some (cx_sec (set_runnables c il h s), Some p)"
    unfolding scheduler_policy_pick_next_def
  proof (rule rq_section)
    show "(do {
       (s, empty) \<leftarrow> runqueue_is_empty_unlocked c (irq_push_intr (rq_put c (held_by s) s));
       if empty then Some (s, None) else sched_policy_round_robin c (cpu_current (ks_cpus s c)) s
     }) = Some (irq_push_intr (rq_put c (held_by s) (set_runnables c il h s)), Some p)"
      using rq_nonempty [OF inv xs] i
      by (auto simp: runqueue_is_empty_unlocked_def sched_policy_round_robin_def runqueue_dequeue_unlocked_def split: prod.splits)
  qed (use sched_inv_free [OF inv] in \<open>simp_all add: rq_free_def\<close>)
  then show thesis using that r by blast
qed

lemma tm_put_simps: "ks_tasks (tm_put l s) = ks_tasks s" "set_task p t (tm_put l s) = tm_put l (set_task p t s)"
  "cx_ok (tm_put l s) = cx_ok s"
  by (simp_all add: tm_put_def set_task_def)

lemma tm_section:
  assumes "cx_ok s" "tm_get s = spinlock_init" "ks_tasks s p = Some t"
  shows "task_manager_set_state p st s = Some (cx_sec (set_task p (t\<lparr>t_state := st\<rparr>) s), ())"
proof -
  let ?y = "tm_put (held_by s) (set_task p (t\<lparr>t_state := st\<rparr>) s)"
  have "with_lock tm_get tm_put (\<lambda>s. do { t \<leftarrow> ks_tasks s p; Some (set_task p (t\<lparr>t_state := st\<rparr>) s, ()) }) s =
      Some (cx_sec (tm_put spinlock_init ?y), ())"
    using assms by (intro tml.section_eq) (simp_all add: tml.put_fields tml.get_put tm_put_simps)
  moreover have "tm_put spinlock_init ?y = set_task p (t\<lparr>t_state := st\<rparr>) s"
    using assms(2) by (cases "ks_task_manager s") (auto intro!: kstate.equality simp: tm_put_def tm_get_def set_task_def)
  ultimately show ?thesis by (simp add: task_manager_set_state_def)
qed

definition dead :: "Task \<Rightarrow> Task" where
  "dead t = t\<lparr>t_state := TASK_DEAD\<rparr>"

definition exiting :: "('h, 'w, 'a) kss \<Rightarrow> u64 \<Rightarrow> bool" where
  "exiting s p \<longleftrightarrow> is_task_process_exiting (Some p) s = Some True"

definition mark_cleanup :: "nat \<Rightarrow> ('h, 'w, 'a) kss \<Rightarrow> ('h, 'w, 'a) kss" where
  "mark_cleanup c s = set_cpu c ((ks_cpus s c)\<lparr>cpu_needs_cleanup := True\<rparr>) s"

lemma mark_cleanup_simps [simp]: "ks_tasks (mark_cleanup c s) = ks_tasks s" "cx_cpu (mark_cleanup c s) = cx_cpu s"
  "cpu_current (ks_cpus (mark_cleanup c s) d) = cpu_current (ks_cpus s d)"
  "cpu_idle (ks_cpus (mark_cleanup c s) d) = cpu_idle (ks_cpus s d)"
  "cpu_cleanup_task (ks_cpus (mark_cleanup c s) d) = cpu_cleanup_task (ks_cpus s d)"
  "cpu_needs_cleanup (ks_cpus (mark_cleanup c s) c)"
  "same_env s0 (mark_cleanup c s) = same_env s0 s" "cx_same s0 (mark_cleanup c s) = cx_same s0 s"
  "sched_inv rqs wqs s \<Longrightarrow> sched_inv rqs wqs (mark_cleanup c s)"
  by (auto simp: mark_cleanup_def set_cpu_def same_env_def cx_same_def intro!: inv_set_cpu [unfolded set_cpu_def])

lemma mark_cleanup_sec [simp]: "mark_cleanup c (cx_sec s) = cx_sec (mark_cleanup c s)"
  by (simp add: mark_cleanup_def set_cpu_def)

text \<open>The first task of an exiting process is taken out, marked dead, and cleanup is requested.\<close>

lemma pick_next_reap:
  assumes inv: "sched_inv rqs wqs s" and xs: "rqs c = p # xs" and e: "exiting s p"
  obtains s' t where "pick_next_loop c s = pick_next_loop c (cx_sec s')" "sched_inv (rqs(c := xs)) wqs s'"
    "ks_tasks s p = Some t" "ks_tasks s' = (ks_tasks s)(p \<mapsto> dead t)" "same_env s s'" "cx_same s s'"
    "\<And>d. cpu_current (ks_cpus s' d) = cpu_current (ks_cpus s d)" "cpu_needs_cleanup (ks_cpus s' c)"
proof -
  obtain il h where r: "scheduler_policy_pick_next c s = Some (cx_sec (set_runnables c il h s), Some p)"
    "sched_inv (rqs(c := xs)) wqs (set_runnables c il h s)" using policy_pick_first [OF inv xs] by blast
  obtain t where t: "ks_tasks s p = Some t" "t_waiting_on t = None"
    using sched_inv_ready [OF inv, of p c] xs by auto
  let ?s1 = "set_runnables c il h s" and ?s2 = "set_task p (t\<lparr>t_state := TASK_DEAD\<rparr>) (set_runnables c il h s)"
  have st: "task_manager_set_state p TASK_DEAD (cx_sec ?s1) = Some (cx_sec ?s2, ())"
    using tm_section [of "cx_sec ?s1" p t TASK_DEAD] sched_inv_free [OF r(2)] t(1) by (simp add: tm_get_def)
  have dist: "p \<notin> set ((rqs(c := xs)) d)" for d
    using ils_rep_distinct [OF sched_inv_reps(1) [OF inv], of c] ils_rep_unique [OF sched_inv_reps(1) [OF inv], of p c d] xs by auto
  have "is_task_process_exiting (Some p) (cx_sec ?s1) = Some True"
    using same_env_exiting [of s "cx_sec ?s1" p] e by (simp add: exiting_def)
  then have "pick_next_loop c s = pick_next_loop c (cx_sec (mark_cleanup c ?s2))"
    unfolding mark_cleanup_def by (subst pick_next_loop.simps) (simp add: r(1) st set_cpu_def)
  moreover have "sched_inv (rqs(c := xs)) wqs ?s2"
    by (rule inv_set_task [OF r(2)]) (use t dist in \<open>auto simp del: fun_upd_apply\<close>)
  moreover have "same_env s ?s2" by (rule same_env_set_task [of _ _ t]) (simp_all add: t)
  ultimately show thesis
    using t by (intro that [of "mark_cleanup c ?s2" t]) (simp_all add: dead_def set_runnables_other)
qed


definition proc_known :: "('h, 'w, 'a) kss \<Rightarrow> u64 \<Rightarrow> bool" where
  "proc_known s p \<longleftrightarrow> is_task_process_exiting (Some p) s \<noteq> None"

definition next_of :: "('h, 'w, 'a) kss \<Rightarrow> nat \<Rightarrow> u64 list \<Rightarrow> u64 option" where
  "next_of s c xs = (case dropWhile (exiting s) xs of [] \<Rightarrow> cpu_idle (ks_cpus s c) | y # _ \<Rightarrow> Some y)"

text \<open>
  \<^verbatim>\<open>scheduler_pick_next\<close> returns: it drops the tasks of exiting processes from the front
  of the queue and takes the first other task, or the idle task when there is none.
\<close>

lemma pick_next_loop_ok:
  assumes "sched_inv rqs wqs s" "rqs c = xs" "\<forall>p\<in>set xs. proc_known s p"
  shows "\<exists>s'. pick_next_loop c s = Some (s', next_of s c xs) \<and>
    sched_inv (rqs(c := tl (dropWhile (exiting s) xs))) wqs s' \<and> same_env s s' \<and> cx_same s s' \<and>
    ks_tasks s' = map_tasks dead (set (takeWhile (exiting s) xs)) (ks_tasks s) \<and>
    (\<forall>d. cpu_current (ks_cpus s' d) = cpu_current (ks_cpus s d)) \<and>
    (takeWhile (exiting s) xs \<noteq> [] \<longrightarrow> cpu_needs_cleanup (ks_cpus s' c)) \<and>
    (takeWhile (exiting s) xs = [] \<longrightarrow> cpu_needs_cleanup (ks_cpus s' c) = cpu_needs_cleanup (ks_cpus s c))"
  using assms
proof (induction xs arbitrary: rqs s)
  case Nil
  then have "rqs(c := []) = rqs" by auto
  then show ?case using Nil policy_pick_empty [OF Nil(1,2)]
    by (subst pick_next_loop.simps) (auto simp: next_of_def map_tasks_def)
next
  case (Cons p xs)
  show ?case
  proof (cases "exiting s p")
    case False
    obtain il h where r: "scheduler_policy_pick_next c s = Some (cx_sec (set_runnables c il h s), Some p)"
      "sched_inv (rqs(c := xs)) wqs (set_runnables c il h s)" using policy_pick_first [OF Cons.prems(1,2)] by blast
    have "is_task_process_exiting (Some p) s = Some False"
      using False Cons.prems(3) by (auto simp: exiting_def proc_known_def)
    then have "pick_next_loop c s = Some (cx_sec (set_runnables c il h s), Some p)"
      using same_env_exiting [of s "cx_sec (set_runnables c il h s)" p] by (subst pick_next_loop.simps) (simp add: r(1))
    then show ?thesis using r(2) False
      by (simp add: next_of_def map_tasks_def set_runnables_other del: fun_upd_apply)
  next
    case True
    obtain s1 t where s1: "pick_next_loop c s = pick_next_loop c (cx_sec s1)" "sched_inv (rqs(c := xs)) wqs s1"
      "ks_tasks s p = Some t" "ks_tasks s1 = (ks_tasks s)(p \<mapsto> dead t)" "same_env s s1" "cx_same s s1"
      "\<And>d. cpu_current (ks_cpus s1 d) = cpu_current (ks_cpus s d)" "cpu_needs_cleanup (ks_cpus s1 c)"
      using pick_next_reap [OF Cons.prems(1,2) True] by blast
    have ex: "exiting (cx_sec s1) = exiting s" "proc_known (cx_sec s1) x = proc_known s x" for x
      using same_env_exiting [of s "cx_sec s1"] s1(5) by (auto simp: exiting_def proc_known_def)
    have "cpu_idle (ks_cpus (cx_sec s1) c) = cpu_idle (ks_cpus s c)" using s1(5) by (simp add: same_env_def)
    then have nx: "next_of (cx_sec s1) c xs = next_of s c xs" by (simp only: next_of_def ex)
    have inv': "sched_inv (rqs(c := xs)) wqs (cx_sec s1)" using s1(2) by simp
    have "\<forall>p\<in>set xs. proc_known (cx_sec s1) p" using Cons.prems(3) ex(2) by auto
    from Cons.IH [OF inv' _ this, unfolded fun_upd_same fun_upd_upd ex(1) nx, OF refl]
    obtain s' where s': "pick_next_loop c (cx_sec s1) = Some (s', next_of s c xs)"
      "sched_inv (rqs(c := tl (dropWhile (exiting s) xs))) wqs s'" "same_env (cx_sec s1) s'" "cx_same (cx_sec s1) s'"
      "ks_tasks s' = map_tasks dead (set (takeWhile (exiting s) xs)) (ks_tasks (cx_sec s1))"
      "\<forall>d. cpu_current (ks_cpus s' d) = cpu_current (ks_cpus (cx_sec s1) d)"
      "takeWhile (exiting s) xs \<noteq> [] \<longrightarrow> cpu_needs_cleanup (ks_cpus s' c)"
      "takeWhile (exiting s) xs = [] \<longrightarrow> cpu_needs_cleanup (ks_cpus s' c) = cpu_needs_cleanup (ks_cpus (cx_sec s1) c)"
      by blast
    have "p \<notin> set xs" using ils_rep_distinct [OF sched_inv_reps(1) [OF Cons.prems(1)], of c] Cons.prems(2) by simp
    then have "p \<notin> set (takeWhile (exiting s) xs)" by (meson set_takeWhileD)
    then have "ks_tasks s' = map_tasks dead (set (takeWhile (exiting s) (p # xs))) (ks_tasks s)"
      using True s1(3) by (auto simp: s'(5) map_tasks_def s1(4))
    moreover have "same_env s s'" "cx_same s s'"
      using s1(5,6) s'(3,4) same_env_trans [of s "cx_sec s1" s'] cx_same_trans [of s "cx_sec s1" s'] by auto
    ultimately show ?thesis
      using s1(1,7,8) s' True by (intro exI [of _ s']) (auto simp: next_of_def simp del: fun_upd_apply)
  qed
qed

text \<open>The first part of a switch.\<close>

definition requeued :: "('h, 'w, 'a) kss \<Rightarrow> u64 list" where
  "requeued s = (case cpu_current (this_cpu s) of None \<Rightarrow> [] | Some p \<Rightarrow>
     (case ks_tasks s p of None \<Rightarrow> [] | Some t \<Rightarrow>
        if p \<notin> special (this_cpu s) \<and> t_state t = TASK_RUNNING then [p] else []))"

text \<open>
  What must hold of the current task when the scheduler is called: it belongs to this processor, it
  waits on a queue when it is blocked, and not when it is running or ready.
\<close>

definition may_leave :: "('h, 'w, 'a) kss \<Rightarrow> bool" where
  "may_leave s \<longleftrightarrow> (\<forall>p. cpu_current (this_cpu s) = Some p \<longrightarrow> (\<exists>t. ks_tasks s p = Some t \<and> t_cpu t = Some (cx_cpu s) \<and>
     (t_state t = TASK_BLOCKED \<longleftrightarrow> t_waiting_on t \<noteq> None)))"

lemma rq_insert_current: "requeued s = [p] \<Longrightarrow> cpu_current (this_cpu s) = Some p"
  by (auto simp: requeued_def split: option.splits if_splits)

lemma switch_out_ok:
  assumes inv: "sched_inv rqs wqs s" and cur: "cur_ok rqs s" and m: "may_leave s" and c: "c = cx_cpu s"
    and sp: "\<And>d p. cpu_current (this_cpu s) = Some p \<Longrightarrow> p \<notin> special (this_cpu s) \<Longrightarrow> p \<notin> special (ks_cpus s d)"
  shows "\<exists>s'. switch_out s = Some (s', ()) \<and> sched_inv (rqs(c := rqs c @ requeued s)) wqs s' \<and> same_env s s' \<and> cx_same s s' \<and>
    ks_tasks s' = map_tasks (\<lambda>t. t\<lparr>t_state := TASK_READY\<rparr>) (set (requeued s)) (ks_tasks s) \<and>
    (\<forall>d. cpu_current (ks_cpus s' d) = cpu_current (ks_cpus s d) \<and> cpu_needs_cleanup (ks_cpus s' d) = cpu_needs_cleanup (ks_cpus s d))"
proof (cases "requeued s")
  case Nil
  have "switch_out s = Some (s, ())"
  proof (cases "cpu_current (this_cpu s)")
    case (Some p)
    then obtain t where t: "ks_tasks s p = Some t" "t_cpu t = Some (cx_cpu s)" "t_state t = TASK_BLOCKED \<longleftrightarrow> t_waiting_on t \<noteq> None"
      using m by (auto simp: may_leave_def)
    then have "p \<in> special (this_cpu s) \<or> t_state t \<noteq> TASK_RUNNING" using Nil Some by (auto simp: requeued_def split: if_splits)
    then have "\<not> (Some p \<noteq> cpu_idle (this_cpu s) \<and> Some p \<noteq> cpu_cleanup_task (this_cpu s) \<and> t_state t = TASK_RUNNING)"
      by (auto simp: special_def)
    moreover have "t_state t \<noteq> TASK_READY \<or> t_waiting_on t = None" using t(3) by auto
    ultimately show ?thesis using t by (auto simp: switch_out_def Some)
  qed (simp add: switch_out_def)
  moreover have "rqs(c := rqs c @ []) = rqs" by auto
  ultimately show ?thesis using inv Nil by (intro exI [of _ s]) (simp add: map_tasks_def)
next
  case (Cons p ps)
  then obtain t where p: "cpu_current (this_cpu s) = Some p" "ks_tasks s p = Some t" "p \<notin> special (this_cpu s)"
    "t_state t = TASK_RUNNING" "requeued s = [p]"
    by (auto simp: requeued_def split: option.splits if_splits)
  then have t: "t_cpu t = Some c" "t_waiting_on t = None" using m c by (auto simp: may_leave_def)
  let ?t = "t\<lparr>t_state := TASK_READY\<rparr>"
  let ?s1 = "set_task p ?t s"
  have "Some p \<noteq> cpu_idle (this_cpu s)" "Some p \<noteq> cpu_cleanup_task (this_cpu s)" using p(3) by (auto simp: special_def)
  moreover have "runqueue_enqueue c p ?s1 = Some (cx_sec (rq_insert c p ?s1), ())"
    using sched_inv_free [OF inv] by (intro runqueue_enqueue_eq) (auto simp: rq_free_def)
  ultimately have "switch_out s = Some (cx_sec (rq_insert c p ?s1), ())"
    using p t c by (simp add: switch_out_def)
  moreover have nq: "\<forall>d. p \<notin> set (rqs d)" using cur p(1) by (auto simp: cur_ok_def this_cpu_def)
  have "sched_inv rqs wqs ?s1" by (rule inv_set_task [OF inv p(2)]) (use t nq in auto)
  then have "sched_inv (rqs(c := rqs c @ [p])) wqs (rq_insert c p ?s1)"
    by (rule inv_rq_insert [where t = ?t]) (use t nq sp [OF p(1,3)] in auto)
  moreover have "same_env s ?s1" by (rule same_env_set_task [OF p(2)]) simp_all
  moreover have "(ks_tasks s)(p \<mapsto> ?t) = map_tasks (\<lambda>t. t\<lparr>t_state := TASK_READY\<rparr>) {p} (ks_tasks s)"
    using p(2) by (auto simp: map_tasks_def)
  ultimately show ?thesis using p(5)
    by (intro exI [of _ "cx_sec (rq_insert c p ?s1)"]) (simp del: fun_upd_apply)
qed

end
