(* ===== verification/SchedMain.thy ===== *)
theory SchedMain
  imports SchedSwitch
begin

text \<open>
  \<^verbatim>\<open>scheduler_switch\<close> as a whole: that it returns on every state of the invariant whose
  current task may leave, which task it picks, and that it keeps the invariant.
\<close>

section \<open>Registers and interrupt mask\<close>

lemma sched_inv_cong:
  assumes "ks_tasks s' = ks_tasks s" "ks_runnable_node s' = ks_runnable_node s" "ks_wait_node s' = ks_wait_node s"
    "ks_cpus s' = ks_cpus s" "ks_wqs s' = ks_wqs s" "ks_task_manager s' = ks_task_manager s" "cx_ok s'"
    "sched_inv rqs wqs s"
  shows "sched_inv rqs wqs s'"
proof -
  have "sleep_key s' = sleep_key s" by (auto simp: sleep_key_def assms(1))
  then show ?thesis
    using assms by (simp add: sched_inv_def queues_rep_def locks_free_def cpus_ok_def rq_free_def wq_free_def
        rq_get_def wq_get_def tm_get_def)
qed

lemma cur_ok_cong: "ks_tasks s' = ks_tasks s \<Longrightarrow> ks_cpus s' = ks_cpus s \<Longrightarrow> cur_ok rqs s \<Longrightarrow> cur_ok rqs s'"
  by (simp add: cur_ok_def)

lemma irq_local_fields [simp]:
  "ks_tasks (irq_local_disable s) = ks_tasks s" "ks_runnable_node (irq_local_disable s) = ks_runnable_node s"
  "ks_wait_node (irq_local_disable s) = ks_wait_node s" "ks_cpus (irq_local_disable s) = ks_cpus s"
  "ks_wqs (irq_local_disable s) = ks_wqs s" "ks_task_manager (irq_local_disable s) = ks_task_manager s"
  "cx_cpu (irq_local_disable s) = cx_cpu s" "this_cpu (irq_local_disable s) = this_cpu s"
  "ks_tasks (irq_local_enable s) = ks_tasks s" "ks_runnable_node (irq_local_enable s) = ks_runnable_node s"
  "ks_wait_node (irq_local_enable s) = ks_wait_node s" "ks_cpus (irq_local_enable s) = ks_cpus s"
  "ks_wqs (irq_local_enable s) = ks_wqs s" "ks_task_manager (irq_local_enable s) = ks_task_manager s"
  "cx_cpu (irq_local_enable s) = cx_cpu s" "ks_regs (irq_local_enable s) = ks_regs s" "ks_sp (irq_local_enable s) = ks_sp s"
  "ks_ttbr0 (irq_local_enable s) = ks_ttbr0 s" "same_env s (irq_local_disable s)"
  "same_env s' (irq_local_enable s) = same_env s' s"
  by (simp_all add: irq_local_disable_def irq_local_enable_def this_cpu_def same_env_def)

lemma irq_local_depth [simp]: "cx_irq_disable_depth (irq_local_enable s) = cx_irq_disable_depth s"
  "cx_irq_disable_depth (irq_local_disable s) = cx_irq_disable_depth s"
  by (simp_all add: irq_local_enable_def irq_local_disable_def)

lemma cx_ok_disable: "cx_ok s \<Longrightarrow> cx_ok (irq_local_disable s)"
  by (auto simp: cx_ok_def irq_local_disable_def)

lemma cx_ok_enable: "cx_irq_disable_depth s = 0 \<Longrightarrow> cx_ok (irq_local_enable s)"
  by (auto simp: cx_ok_def irq_local_enable_def)

section \<open>The second part of a switch\<close>

lemma special_own:
  "sched_inv rqs wqs s \<Longrightarrow> p \<in> special (ks_cpus s d) \<Longrightarrow> ks_tasks s p = Some t \<Longrightarrow> t_cpu t = Some d \<and> t_waiting_on t = None"
  by (force simp: sched_inv_def cpus_ok_def)

lemma same_special: "same_env s s' \<Longrightarrow> special (ks_cpus s' d) = special (ks_cpus s d)"
  by (simp add: same_env_def special_def)

text \<open>The task a switch picks from the queue \<open>xs\<close>, the tasks it marks dead, and what is left.\<close>

definition pick :: "('h, 'w, 'a) kss \<Rightarrow> u64 list \<Rightarrow> u64 option" where
  "pick s xs = (if cpu_needs_cleanup (this_cpu s) then cpu_cleanup_task (this_cpu s) else next_of s (cx_cpu s) xs)"

definition reaped :: "('h, 'w, 'a) kss \<Rightarrow> u64 list \<Rightarrow> u64 list" where
  "reaped s xs = (if cpu_needs_cleanup (this_cpu s) then [] else takeWhile (exiting s) xs)"

definition left :: "('h, 'w, 'a) kss \<Rightarrow> u64 list \<Rightarrow> u64 list" where
  "left s xs = (if cpu_needs_cleanup (this_cpu s) then xs else tl (dropWhile (exiting s) xs))"

lemma scheduler_pick_next_ok:
  assumes inv: "sched_inv rqs wqs s" and c: "c = cx_cpu s" and pk: "\<forall>p\<in>set (rqs c). proc_known s p"
  shows "\<exists>s'. scheduler_pick_next c s = Some (s', pick s (rqs c)) \<and> sched_inv (rqs(c := left s (rqs c))) wqs s' \<and>
    same_env s s' \<and> cx_same s s' \<and> ks_tasks s' = map_tasks dead (set (reaped s (rqs c))) (ks_tasks s) \<and>
    (\<forall>d. cpu_current (ks_cpus s' d) = cpu_current (ks_cpus s d)) \<and>
    (reaped s (rqs c) = [] \<longrightarrow> cpu_needs_cleanup (ks_cpus s' c) = cpu_needs_cleanup (ks_cpus s c))"
proof (cases "cpu_needs_cleanup (ks_cpus s c)")
  case True
  have "rqs(c := rqs c) = rqs" by auto
  then show ?thesis using True inv c
    by (intro exI [of _ s]) (simp add: scheduler_pick_next_def pick_def left_def reaped_def this_cpu_def map_tasks_def)
next
  case False
  then show ?thesis using pick_next_loop_ok [OF inv refl pk] c
    by (auto simp: scheduler_pick_next_def pick_def left_def reaped_def this_cpu_def simp del: fun_upd_apply)
qed

lemma picked_props:
  assumes inv: "sched_inv rqs wqs s" and c: "c = cx_cpu s" and pk: "pick s (rqs c) = Some n"
    and s': "sched_inv (rqs(c := left s (rqs c))) wqs s'" "same_env s s'"
      "ks_tasks s' = map_tasks dead (set (reaped s (rqs c))) (ks_tasks s)"
  obtains t where "ks_tasks s n = Some t" "ks_tasks s' n = Some t" "t_cpu t = Some c" "t_waiting_on t = None"
    "t_state t = TASK_READY \<or> n \<in> special (this_cpu s)" "\<forall>d. n \<notin> set ((rqs(c := left s (rqs c))) d)"
proof (cases "n \<in> special (this_cpu s)")
  case True
  then obtain t where t: "ks_tasks s n = Some t" "t_cpu t = Some c" "t_waiting_on t = None"
    using inv c by (force simp: sched_inv_def cpus_ok_def this_cpu_def)
  have nq: "n \<notin> set (rqs d)" for d using inv True by (auto simp: sched_inv_def cpus_ok_def this_cpu_def)
  then have "n \<notin> set (reaped s (rqs c))" by (auto simp: reaped_def dest: set_takeWhileD)
  moreover have "n \<in> special (ks_cpus s' c)" using True same_special [OF s'(2)] c by (simp add: this_cpu_def)
  then have "\<forall>d. n \<notin> set ((rqs(c := left s (rqs c))) d)" using s'(1) unfolding sched_inv_def cpus_ok_def by blast
  ultimately show thesis using that [of t] t True s'(3) by (simp add: map_tasks_def)
next
  case False
  then have nc: "\<not> cpu_needs_cleanup (this_cpu s)" using pk by (auto simp: pick_def special_def)
  obtain ys where ys: "dropWhile (exiting s) (rqs c) = n # ys"
    using pk nc False c by (auto simp: pick_def next_of_def special_def this_cpu_def split: list.splits)
  have in_q: "n \<in> set (rqs c)" using ys by (metis list.set_intros(1) set_dropWhileD)
  then obtain t where t: "ks_tasks s n = Some t" "t_state t = TASK_READY" "t_cpu t = Some c" "t_waiting_on t = None"
    using sched_inv_ready [OF inv] by blast
  have d: "distinct (rqs c)" using ils_rep_distinct [OF sched_inv_reps(1) [OF inv]] .
  then have "distinct (takeWhile (exiting s) (rqs c) @ n # ys)" using ys by (metis takeWhile_dropWhile_id)
  then have nn: "n \<notin> set (reaped s (rqs c))" "n \<notin> set (left s (rqs c))" by (auto simp: reaped_def left_def nc ys)
  moreover have "n \<notin> set (rqs d)" if "d \<noteq> c" for d
    using ils_rep_unique [OF sched_inv_reps(1) [OF inv] in_q] that by blast
  ultimately show thesis using that [of t] t s'(3) by (simp add: map_tasks_def)
qed

lemma switch_in_ok:
  assumes inv: "sched_inv rqs wqs s" and c: "c = cx_cpu s" and known: "\<forall>p\<in>set (rqs c). proc_known s p"
    and pk: "pick s (rqs c) = Some n"
  shows "\<exists>s' t. switch_in s = Some (s', n) \<and> sched_inv (rqs(c := left s (rqs c))) wqs s' \<and> same_env s s' \<and> cx_same s s' \<and>
    ks_tasks s n = Some t \<and>
    ks_tasks s' = (map_tasks dead (set (reaped s (rqs c))) (ks_tasks s))(n \<mapsto> t\<lparr>t_state := TASK_RUNNING\<rparr>) \<and>
    (\<forall>d. cpu_current (ks_cpus s' d) = (if d = c then Some n else cpu_current (ks_cpus s d))) \<and>
    (\<forall>d. n \<notin> set ((rqs(c := left s (rqs c))) d)) \<and> t_cpu t = Some c \<and> t_waiting_on t = None \<and>
    (reaped s (rqs c) = [] \<longrightarrow> cpu_needs_cleanup (ks_cpus s' c) = cpu_needs_cleanup (ks_cpus s c))"
proof -
  obtain s1 where s1: "scheduler_pick_next c s = Some (s1, pick s (rqs c))" "sched_inv (rqs(c := left s (rqs c))) wqs s1"
    "same_env s s1" "cx_same s s1" "ks_tasks s1 = map_tasks dead (set (reaped s (rqs c))) (ks_tasks s)"
    "\<forall>d. cpu_current (ks_cpus s1 d) = cpu_current (ks_cpus s d)"
    "reaped s (rqs c) = [] \<longrightarrow> cpu_needs_cleanup (ks_cpus s1 c) = cpu_needs_cleanup (ks_cpus s c)"
    using scheduler_pick_next_ok [OF inv c known] by blast
  obtain t where t: "ks_tasks s n = Some t" "ks_tasks s1 n = Some t" "t_cpu t = Some c" "t_waiting_on t = None"
    "t_state t = TASK_READY \<or> n \<in> special (this_cpu s)" "\<forall>d. n \<notin> set ((rqs(c := left s (rqs c))) d)"
    using picked_props [OF inv c pk s1(2,3,5)] by metis
  have cc: "cx_cpu s1 = c" using s1(4) c by (simp add: cx_same_def)
  let ?s2 = "set_task n (t\<lparr>t_state := TASK_RUNNING\<rparr>) s1"
  let ?s3 = "set_cpu c ((ks_cpus s1 c)\<lparr>cpu_current := Some n\<rparr>) ?s2"
  have "special (this_cpu s1) = special (this_cpu s)" using same_special [OF s1(3)] cc c by (simp add: this_cpu_def)
  then have "t_state t = TASK_READY \<or> n \<in> special (this_cpu s1)" using t(5) by simp
  then have "t_state t = TASK_READY \<or> Some n = cpu_idle (this_cpu s1) \<or> Some n = cpu_cleanup_task (this_cpu s1)"
    by (auto simp: special_def)
  then have "switch_in s = Some (?s3, n)"
    using s1(1) pk c t(2,3,4) cc by (simp add: switch_in_def this_cpu_def)
  moreover have "sched_inv (rqs(c := left s (rqs c))) wqs ?s2"
    by (rule inv_set_task [OF s1(2) t(2)]) (use t(4,6) in \<open>auto simp del: fun_upd_apply\<close>)
  then have "sched_inv (rqs(c := left s (rqs c))) wqs ?s3" by (rule inv_set_cpu) simp_all
  moreover have "same_env s ?s2" by (rule same_env_set_task [OF t(2)]) (simp_all add: s1(3))
  then have "same_env s ?s3" by (simp add: same_env_def set_cpu_def)
  moreover have "cx_same s ?s3" using s1(4) by (simp add: cx_same_def set_cpu_def set_task_def)
  ultimately show ?thesis
    using t s1(5,6,7) by (intro exI [of _ ?s3] exI [of _ t]) (simp add: set_cpu_def del: fun_upd_apply, simp)
qed

section \<open>A whole switch\<close>

text \<open>
  A task that can be switched to: its saved context has a return point, and the page table of its
  address space has a physical address.
\<close>

definition resumable :: "'h mm_ops \<Rightarrow> ('h, 'w, 'a) kss \<Rightarrow> u64 \<Rightarrow> bool" where
  "resumable mo s x \<longleftrightarrow> (\<exists>t tab pa. ks_tasks s x = Some t \<and> ec_lr (t_context t) \<noteq> NullCode \<and>
     address_space_table mo (Some x) s = Some tab \<and> mo_virt_to_phys mo tab = Some pa)"

lemma resume_at_ok:
  assumes "lr \<noteq> NullCode"
  obtains s' where "resume_at lr s = Some s'" "s' = s \<or> s' = irq_local_enable s"
  using assms by (cases lr) (auto simp: resume_at_def)

text \<open>From the choice of another task to the point where it runs.\<close>

lemma switch_tail_ok:
  assumes inv: "sched_inv rqs wqs s" and cur: "cur_ok rqs s" and d: "cx_irq_disable_depth s = 0"
    and p: "ks_tasks s p = Some tp" "address_space_table mo (Some p) s \<noteq> None" "p \<noteq> n"
    and n: "ks_tasks s n = Some tn" "resumable mo s n"
  shows "\<exists>s'. (do {
       s \<leftarrow> switch_address_space mo (Some p) (Some n) s;
       (s, lr) \<leftarrow> context_switch (Some p) n (SwitchReturn b) s;
       resume_at lr s
     }) = Some s' \<and> sched_inv rqs wqs s' \<and> cur_ok rqs s' \<and> cx_cpu s' = cx_cpu s \<and> cx_irq_disable_depth s' = 0 \<and>
     ks_cpus s' = ks_cpus s \<and> ks_regs s' = ec_regs (t_context tn) \<and> ks_sp s' = ec_sp (t_context tn) \<and>
     ks_tasks s' = (ks_tasks s)(p \<mapsto> tp\<lparr>t_context := \<lparr>ec_regs = ks_regs s, ec_lr = SwitchReturn b, ec_sp = ks_sp s\<rparr>\<rparr>) \<and>
     ks_procs s' = ks_procs s \<and> fs_heap s' = fs_heap s \<and> ks_kernel_user_table s' = ks_kernel_user_table s"
proof -
  obtain tab pa where tab: "address_space_table mo (Some n) s = Some tab" "mo_virt_to_phys mo tab = Some pa"
    "ec_lr (t_context tn) \<noteq> NullCode" using n by (auto simp: resumable_def)
  obtain old where old: "address_space_table mo (Some p) s = Some old" using p(2) by blast
  have "s\<lparr>ks_ttbr0 := ks_ttbr0 s\<rparr> = s" by simp
  then have "switch_address_space mo (Some p) (Some n) s = Some (s\<lparr>ks_ttbr0 := if old = tab then ks_ttbr0 s else pa\<rparr>)"
    using tab old by (simp add: switch_address_space_def)
  then obtain v where v: "switch_address_space mo (Some p) (Some n) s = Some (s\<lparr>ks_ttbr0 := v\<rparr>)" by blast
  let ?t = "tp\<lparr>t_context := \<lparr>ec_regs = ks_regs s, ec_lr = SwitchReturn b, ec_sp = ks_sp s\<rparr>\<rparr>"
  let ?s1 = "set_task p ?t s"
  let ?s2 = "?s1\<lparr>ks_ttbr0 := v, ks_regs := ec_regs (t_context tn), ks_sp := ec_sp (t_context tn)\<rparr>"
  have cs: "context_switch (Some p) n (SwitchReturn b) (s\<lparr>ks_ttbr0 := v\<rparr>) = Some (?s2, ec_lr (t_context tn))"
    using p n by (simp add: context_switch_def set_task_def)
  obtain s' where s': "resume_at (ec_lr (t_context tn)) ?s2 = Some s'" "s' = ?s2 \<or> s' = irq_local_enable ?s2"
    using resume_at_ok [OF tab(3)] by blast
  have "sched_inv rqs wqs ?s1"
    using sched_inv_ready [OF inv] sched_inv_at [OF inv, of p] p(1)
    by (intro inv_set_task [OF inv p(1)]) (auto simp: task_at_def)
  moreover have "cx_ok s'" using s'(2) sched_inv_free(1) [OF inv] cx_ok_enable [of ?s2] d by (auto simp: cx_ok_def set_task_def)
  moreover have sf: "ks_tasks s' = ks_tasks ?s1" "ks_runnable_node s' = ks_runnable_node ?s1" "ks_wait_node s' = ks_wait_node ?s1"
    "ks_cpus s' = ks_cpus ?s1" "ks_wqs s' = ks_wqs ?s1" "ks_task_manager s' = ks_task_manager ?s1" "cx_cpu s' = cx_cpu s"
    "ks_regs s' = ec_regs (t_context tn)" "ks_sp s' = ec_sp (t_context tn)" "ks_procs s' = ks_procs s" "fs_heap s' = fs_heap s"
    "ks_kernel_user_table s' = ks_kernel_user_table s" "cx_irq_disable_depth s' = 0"
    using s'(2) d by (auto simp: set_task_def irq_local_enable_def)
  ultimately have "sched_inv rqs wqs s'" using sched_inv_cong [of s' ?s1] by blast
  moreover have "cur_ok rqs ?s1" by (rule cur_set_task [OF cur p(1)]) simp
  then have "cur_ok rqs s'" using sf by (intro cur_ok_cong [of s' ?s1])
  ultimately show ?thesis using v cs s'(1) sf by (intro exI [of _ s']) simp
qed


text \<open>How much of the processes and tasks a whole switch leaves: all but states and the saved context.\<close>

definition kept :: "'h mm_ops \<Rightarrow> ('h, 'w, 'a) kss \<Rightarrow> ('h, 'w, 'a) kss \<Rightarrow> bool" where
  "kept mo s s' \<longleftrightarrow> (\<forall>x. exiting s' x = exiting s x \<and> proc_known s' x = proc_known s x \<and>
     address_space_table mo (Some x) s' = address_space_table mo (Some x) s \<and> (resumable mo s x \<longrightarrow> resumable mo s' x)) \<and>
     (\<forall>c. cpu_idle (ks_cpus s' c) = cpu_idle (ks_cpus s c) \<and> cpu_cleanup_task (ks_cpus s' c) = cpu_cleanup_task (ks_cpus s c))"

lemma kept_refl [simp]: "kept mo s s"
  by (simp add: kept_def)

lemma kept_trans: "kept mo a b \<Longrightarrow> kept mo b c \<Longrightarrow> kept mo a c"
  by (simp add: kept_def)

lemma kept_same_env:
  assumes e: "same_env s s'"
  shows "kept mo s s'"
proof -
  have "resumable mo s' x" if r: "resumable mo s x" for x
  proof -
    obtain t tab pa where t: "ks_tasks s x = Some t" "ec_lr (t_context t) \<noteq> NullCode"
      "address_space_table mo (Some x) s = Some tab" "mo_virt_to_phys mo tab = Some pa" using r by (auto simp: resumable_def)
    then obtain t' where t': "ks_tasks s' x = Some t'" using same_env_None [OF e, of x] by (cases "ks_tasks s' x") auto
    then have "t_context t' = t_context t" using same_env_task [OF e t'] t(1) by (metis option.inject)
    then show ?thesis using t t' same_env_table [OF e, of mo x] by (simp add: resumable_def)
  qed
  then show ?thesis
    using e same_env_exiting [OF e] same_env_table [OF e] by (simp add: kept_def exiting_def proc_known_def same_env_def)
qed

lemma kept_save:
  assumes "ks_tasks s p = Some t" "ks_tasks s' = (ks_tasks s)(p \<mapsto> t\<lparr>t_context := ctx\<rparr>)" "ec_lr ctx \<noteq> NullCode"
    "ks_procs s' = ks_procs s" "fs_heap s' = fs_heap s" "ks_kernel_user_table s' = ks_kernel_user_table s" "ks_cpus s' = ks_cpus s"
  shows "kept mo s s'"
proof -
  have e: "is_task_process_exiting (Some x) s' = is_task_process_exiting (Some x) s"
    "address_space_table mo (Some x) s' = address_space_table mo (Some x) s" for x
    unfolding is_task_process_exiting_def address_space_table_def assms(2,4,5,6) using assms(1) by simp_all
  moreover have "resumable mo s' x" if "resumable mo s x" for x
    using that assms e(2) [of x] by (auto simp: resumable_def)
  ultimately show ?thesis using assms(7) by (simp add: kept_def exiting_def proc_known_def)
qed

lemma cur_ok_switch:
  assumes cur: "cur_ok rqs s" and inv: "sched_inv rqs wqs s" and p: "cpu_current (ks_cpus s c) = Some p"
    and env: "same_env s s'" and new: "\<And>d. cpu_current (ks_cpus s' d) = (if d = c then Some n else cpu_current (ks_cpus s d))"
    and n: "ks_tasks s n = Some tn" "t_cpu tn = Some c" "\<forall>d. n \<notin> set ((rqs(c := xs)) d)" and xs: "set xs \<subseteq> set (rqs c) \<union> {p}"
  shows "cur_ok (rqs(c := xs)) s'"
  unfolding cur_ok_def
proof (intro allI impI)
  fix d q assume q: "cpu_current (ks_cpus s' d) = Some q"
  have cpu: "\<exists>t'. ks_tasks s' q = Some t' \<and> t_cpu t' = Some d" if "ks_tasks s q = Some t" "t_cpu t = Some d" for t
    using that same_env_view [OF env, of q] by (cases "ks_tasks s' q") auto
  show "(\<forall>e. q \<notin> set ((rqs(c := xs)) e)) \<and> (\<exists>t. ks_tasks s' q = Some t \<and> t_cpu t = Some d)"
  proof (cases "d = c")
    case True
    then show ?thesis using q new n cpu by simp
  next
    case False
    then have "cpu_current (ks_cpus s d) = Some q" using q new by simp
    then obtain t where t: "ks_tasks s q = Some t" "t_cpu t = Some d" "\<forall>e. q \<notin> set (rqs e)"
      using cur unfolding cur_ok_def by blast
    moreover obtain tp where "ks_tasks s p = Some tp" "t_cpu tp = Some c" using cur p unfolding cur_ok_def by blast
    ultimately have "q \<noteq> p" using False by auto
    then show ?thesis using t cpu xs by auto
  qed
qed


lemma set_tl_dropWhile: "set (tl (dropWhile P xs)) \<subseteq> set xs"
  by (induction xs) auto

lemma pick_env:
  assumes "same_env s s'" "cx_cpu s' = cx_cpu s" "\<forall>d. cpu_needs_cleanup (ks_cpus s' d) = cpu_needs_cleanup (ks_cpus s d)"
  shows "pick s' = pick s" "left s' = left s" "reaped s' = reaped s"
proof -
  have e: "exiting s' = exiting s" using same_env_exiting [OF assms(1)] by (auto simp: exiting_def)
  have i: "cpu_idle (ks_cpus s' d) = cpu_idle (ks_cpus s d)" "cpu_cleanup_task (ks_cpus s' d) = cpu_cleanup_task (ks_cpus s d)" for d
    using assms(1) by (simp_all add: same_env_def)
  show "pick s' = pick s" "left s' = left s" "reaped s' = reaped s"
    using assms(2,3) by (simp_all add: fun_eq_iff pick_def left_def reaped_def next_of_def this_cpu_def e i cong: list.case_cong)
qed

text \<open>The first two parts together: the state in which the next task is chosen and marked.\<close>

lemma switch_out_in:
  assumes inv: "sched_inv rqs wqs s" and cur: "cur_ok rqs s" and m: "may_leave s" and c: "c = cx_cpu s"
    and p: "cpu_current (this_cpu s) = Some p"
    and Q: "Q = rqs c @ requeued s" and known: "\<forall>x\<in>set Q. proc_known s x" and pk: "pick s Q = Some n"
  obtains s1 s2 t tn where "switch_out (irq_local_disable s) = Some (s1, ())" "switch_in s1 = Some (s2, n)"
    "sched_inv (rqs(c := left s Q)) wqs s2" "cur_ok (rqs(c := left s Q)) s2" "same_env s s2" "cx_same (irq_local_disable s) s2"
    "ks_tasks s n = Some tn" "ks_tasks s2 n = Some (t\<lparr>t_state := TASK_RUNNING\<rparr>)" "t_context tn = t_context t"
    "t_cpu t = Some c" "t_waiting_on t = None"
    "\<And>d. cpu_current (ks_cpus s2 d) = (if d = c then Some n else cpu_current (ks_cpus s d))"
    "\<And>x. x \<in> set (reaped s Q) \<Longrightarrow> x \<noteq> n \<Longrightarrow> \<exists>t. ks_tasks s2 x = Some t \<and> t_state t = TASK_DEAD"
    "reaped s Q = [] \<longrightarrow> cpu_needs_cleanup (ks_cpus s2 c) = cpu_needs_cleanup (ks_cpus s c)"
    "\<And>x tx. ks_tasks s x = Some tx \<Longrightarrow> t_waiting_on tx \<noteq> None \<or> t_state tx = TASK_DEAD \<and> x \<noteq> n \<Longrightarrow> ks_tasks s2 x = Some tx"
proof -
  let ?s0 = "irq_local_disable s"
  have inv0: "sched_inv rqs wqs ?s0"
    by (rule sched_inv_cong [OF _ _ _ _ _ _ _ inv]) (simp_all add: cx_ok_disable sched_inv_free(1) [OF inv])
  have cur0: "cur_ok rqs ?s0" by (rule cur_ok_cong [OF _ _ cur]) simp_all
  have m0: "may_leave ?s0" and rq0: "requeued ?s0 = requeued s" using m
    by (simp_all add: may_leave_def requeued_def cong: option.case_cong)
  have sp: "q \<notin> special (ks_cpus ?s0 d)" if "cpu_current (this_cpu ?s0) = Some q" "q \<notin> special (this_cpu ?s0)" for d q
    using that m special_own [OF inv, of q d] by (auto simp: may_leave_def this_cpu_def)
  obtain s1 where s1: "switch_out ?s0 = Some (s1, ())" "sched_inv (rqs(c := Q)) wqs s1" "same_env ?s0 s1" "cx_same ?s0 s1"
    "ks_tasks s1 = map_tasks (\<lambda>t. t\<lparr>t_state := TASK_READY\<rparr>) (set (requeued s)) (ks_tasks s)"
    "\<forall>d. cpu_current (ks_cpus s1 d) = cpu_current (ks_cpus s d) \<and> cpu_needs_cleanup (ks_cpus s1 d) = cpu_needs_cleanup (ks_cpus s d)"
    using switch_out_ok [OF inv0 cur0 m0 _ sp, of c] c Q rq0 by auto
  have e1: "same_env s s1" using same_env_trans [OF _ s1(3), of s] by simp
  have c1: "c = cx_cpu s1" using s1(4) c by (simp add: cx_same_def)
  have pe: "pick s1 = pick s" "left s1 = left s" "reaped s1 = reaped s"
    using pick_env [OF e1] c1 c s1(6) by blast+
  have known1: "\<forall>x\<in>set ((rqs(c := Q)) c). proc_known s1 x"
    using known same_env_exiting [OF e1] by (simp add: proc_known_def)
  have pk1: "pick s1 ((rqs(c := Q)) c) = Some n" using pk pe by simp
  obtain s2 t where s2: "switch_in s1 = Some (s2, n)" "sched_inv (rqs(c := left s Q)) wqs s2" "same_env s1 s2" "cx_same s1 s2"
    "ks_tasks s1 n = Some t" "ks_tasks s2 = (map_tasks dead (set (reaped s Q)) (ks_tasks s1))(n \<mapsto> t\<lparr>t_state := TASK_RUNNING\<rparr>)"
    "\<forall>d. cpu_current (ks_cpus s2 d) = (if d = c then Some n else cpu_current (ks_cpus s1 d))"
    "\<forall>d. n \<notin> set ((rqs(c := left s Q)) d)" "t_cpu t = Some c" "t_waiting_on t = None"
    "reaped s Q = [] \<longrightarrow> cpu_needs_cleanup (ks_cpus s2 c) = cpu_needs_cleanup (ks_cpus s1 c)"
    using switch_in_ok [OF s1(2) c1 known1 pk1, unfolded pe fun_upd_same fun_upd_upd] by blast
  have e2: "same_env s s2" using same_env_trans [OF e1 s2(3)] .
  obtain tn where tn: "ks_tasks s n = Some tn" "t_context tn = t_context t" "t_cpu tn = Some c"
    using same_env_task [OF e1 s2(5)] s2(9) by metis
  have new: "cpu_current (ks_cpus s2 d) = (if d = c then Some n else cpu_current (ks_cpus s d))" for d
    using s2(7) s1(6) by simp
  have pc: "cpu_current (ks_cpus s c) = Some p" using p c by (simp add: this_cpu_def)
  have "set (left s Q) \<subseteq> set Q"
    using set_tl_dropWhile [of "exiting s" Q] by (simp add: left_def)
  moreover have rqp: "set (requeued s) \<subseteq> {p}" using p by (auto simp: requeued_def split: option.splits if_splits)
  ultimately have xs: "set (left s Q) \<subseteq> set (rqs c) \<union> {p}" using Q by auto
  have cur2: "cur_ok (rqs(c := left s Q)) s2"
    by (rule cur_ok_switch [OF cur inv pc e2 new tn(1,3) s2(8) xs])
  have inQ: "x \<in> set Q \<Longrightarrow> \<exists>t. ks_tasks s1 x = Some t \<and> t_state t = TASK_READY \<and> t_waiting_on t = None" for x
    using sched_inv_ready [OF s1(2), of x c] by (metis fun_upd_same)
  have rQ: "x \<in> set (reaped s Q) \<Longrightarrow> x \<in> set Q" for x by (auto simp: reaped_def dest: set_takeWhileD split: if_splits)
  have reap: "\<exists>t. ks_tasks s2 x = Some t \<and> t_state t = TASK_DEAD" if "x \<in> set (reaped s Q)" "x \<noteq> n" for x
    using inQ [OF rQ [OF that(1)]] that by (auto simp: s2(6) map_tasks_def dead_def)
  have wk: "ks_tasks s2 x = Some tx"
    if w: "ks_tasks s x = Some tx" "t_waiting_on tx \<noteq> None \<or> t_state tx = TASK_DEAD \<and> x \<noteq> n" for x tx
  proof -
    have nr: "x \<notin> set (requeued s)"
    proof
      assume x: "x \<in> set (requeued s)"
      then have "t_state tx = TASK_RUNNING" using w(1) p by (auto simp: requeued_def split: option.splits if_splits)
      moreover have "x \<in> set Q" using x Q by simp
      ultimately show False using inQ [of x] w x by (auto simp: s1(5) map_tasks_def)
    qed
    then have t1: "ks_tasks s1 x = Some tx" using w(1) by (simp add: s1(5) map_tasks_def)
    then have "x \<notin> set Q" using inQ [of x] w(2) by auto
    then have "x \<notin> set (reaped s Q)" using rQ by blast
    moreover have "x \<noteq> n" using t1 s2(5,10) w(2) by auto
    ultimately show ?thesis using t1 by (simp add: s2(6) map_tasks_def)
  qed
  have "cx_same ?s0 s2" using cx_same_trans [OF s1(4) s2(4)] .
  moreover have "ks_tasks s2 n = Some (t\<lparr>t_state := TASK_RUNNING\<rparr>)" using s2(6) by simp
  moreover have "reaped s Q = [] \<longrightarrow> cpu_needs_cleanup (ks_cpus s2 c) = cpu_needs_cleanup (ks_cpus s c)"
    using s2(11) s1(6) by simp
  ultimately show thesis
    using s2(1,2) by (intro that [OF s1(1) _ _ cur2 e2 _ tn(1) _ tn(2) s2(9,10) new reap _ wk]) simp_all
qed

lemma scheduler_switch_ok:
  assumes inv: "sched_inv rqs wqs s" and cur: "cur_ok rqs s" and m: "may_leave s" and c: "c = cx_cpu s"
    and dep: "cx_irq_disable_depth s = 0" and p: "cpu_current (this_cpu s) = Some p"
    and Q: "Q = rqs c @ requeued s" and known: "\<forall>x\<in>set Q. proc_known s x" and pk: "pick s Q = Some n"
    and res: "n \<noteq> p \<Longrightarrow> resumable mo s n \<and> address_space_table mo (Some p) s \<noteq> None"
  shows "\<exists>s' tn. scheduler_switch mo s = Some s' \<and> sched_inv (rqs(c := left s Q)) wqs s' \<and> cur_ok (rqs(c := left s Q)) s' \<and>
    cx_cpu s' = c \<and> cx_irq_disable_depth s' = 0 \<and> kept mo s s' \<and>
    (\<forall>d. cpu_current (ks_cpus s' d) = (if d = c then Some n else cpu_current (ks_cpus s d))) \<and>
    ks_tasks s n = Some tn \<and> (\<exists>t. ks_tasks s' n = Some t \<and> t_state t = TASK_RUNNING \<and> t_cpu t = Some c \<and> t_waiting_on t = None) \<and>
    (n \<noteq> p \<longrightarrow> ks_regs s' = ec_regs (t_context tn) \<and> ks_sp s' = ec_sp (t_context tn) \<and>
       (\<exists>t. ks_tasks s' p = Some t \<and>
          t_context t = \<lparr>ec_regs = ks_regs s, ec_lr = SwitchReturn (irq_local_is_enable s), ec_sp = ks_sp s\<rparr>)) \<and>
    (\<forall>x\<in>set (reaped s Q). x \<noteq> n \<longrightarrow> (\<exists>t. ks_tasks s' x = Some t \<and> t_state t = TASK_DEAD)) \<and>
    (reaped s Q = [] \<longrightarrow> cpu_needs_cleanup (ks_cpus s' c) = cpu_needs_cleanup (ks_cpus s c)) \<and>
    (\<forall>x t. ks_tasks s x = Some t \<and> (t_waiting_on t \<noteq> None \<or> t_state t = TASK_DEAD \<and> x \<noteq> n) \<longrightarrow>
      (\<exists>t'. ks_tasks s' x = Some t' \<and> t_state t' = t_state t \<and> t_cpu t' = t_cpu t)) \<and>
    ks_procs s' = ks_procs s \<and> fs_heap s' = fs_heap s"
proof -
  obtain s1 s2 t tn where o: "switch_out (irq_local_disable s) = Some (s1, ())" "switch_in s1 = Some (s2, n)"
    and s2: "sched_inv (rqs(c := left s Q)) wqs s2" "cur_ok (rqs(c := left s Q)) s2" "same_env s s2" "cx_same (irq_local_disable s) s2"
    and tn: "ks_tasks s n = Some tn" "ks_tasks s2 n = Some (t\<lparr>t_state := TASK_RUNNING\<rparr>)" "t_context tn = t_context t"
      "t_cpu t = Some c" "t_waiting_on t = None"
    and new: "\<And>d. cpu_current (ks_cpus s2 d) = (if d = c then Some n else cpu_current (ks_cpus s d))"
    and reap: "\<And>x. x \<in> set (reaped s Q) \<Longrightarrow> x \<noteq> n \<Longrightarrow> \<exists>t. ks_tasks s2 x = Some t \<and> t_state t = TASK_DEAD"
    and nc: "reaped s Q = [] \<longrightarrow> cpu_needs_cleanup (ks_cpus s2 c) = cpu_needs_cleanup (ks_cpus s c)"
    and wk: "\<And>x tx. ks_tasks s x = Some tx \<Longrightarrow> t_waiting_on tx \<noteq> None \<or> t_state tx = TASK_DEAD \<and> x \<noteq> n \<Longrightarrow> ks_tasks s2 x = Some tx"
    by (rule switch_out_in [OF inv cur m c p Q known pk]) (rule that; assumption)
  have d2: "cx_irq_disable_depth s2 = 0" "cx_cpu s2 = c" using s2(4) dep c by (simp_all add: cx_same_def)
  have cu: "cpu_current (this_cpu (irq_local_disable s)) = Some p" using p by simp
  show ?thesis
  proof (cases "n = p")
    case True
    let ?s' = "if irq_local_is_enable s then irq_local_enable s2 else s2"
    have "scheduler_switch mo s = Some ?s'" using o cu True tn(2) by (simp add: scheduler_switch_def)
    moreover have "cx_ok ?s'" using cx_ok_enable [OF d2(1)] sched_inv_free(1) [OF s2(1)] by simp
    then have "sched_inv (rqs(c := left s Q)) wqs ?s'" by (intro sched_inv_cong [OF _ _ _ _ _ _ _ s2(1)]) simp_all
    moreover have "cur_ok (rqs(c := left s Q)) ?s'" by (rule cur_ok_cong [OF _ _ s2(2)]) simp_all
    moreover have "kept mo s ?s'" using s2(3) by (intro kept_same_env) simp
    ultimately show ?thesis
      using True tn new d2 reap nc wk same_env_procs [OF s2(3)] by (intro exI [of _ ?s'] exI [of _ tn]) (simp add: irq_local_enable_def del: fun_upd_apply)
  next
    case False
    obtain tp where tp: "ks_tasks s2 p = Some tp"
      using m p same_env_None [OF s2(3), of p] by (cases "ks_tasks s2 p") (auto simp: may_leave_def)
    define b where "b = irq_local_is_enable s"
    have "resumable mo s2 n" using kept_same_env [OF s2(3)] res [OF False] by (simp add: kept_def)
    moreover have "address_space_table mo (Some p) s2 \<noteq> None" using same_env_table [OF s2(3)] res [OF False] by simp
    ultimately obtain s' where s': "(do {
       s \<leftarrow> switch_address_space mo (Some p) (Some n) s2;
       (s, lr) \<leftarrow> context_switch (Some p) n (SwitchReturn b) s;
       resume_at lr s
     }) = Some s'" "sched_inv (rqs(c := left s Q)) wqs s'" "cur_ok (rqs(c := left s Q)) s'" "cx_cpu s' = cx_cpu s2"
     "cx_irq_disable_depth s' = 0" "ks_cpus s' = ks_cpus s2" "ks_regs s' = ec_regs (t_context t)" "ks_sp s' = ec_sp (t_context t)"
     "ks_tasks s' = (ks_tasks s2)(p \<mapsto> tp\<lparr>t_context := \<lparr>ec_regs = ks_regs s2, ec_lr = SwitchReturn b, ec_sp = ks_sp s2\<rparr>\<rparr>)"
     "ks_procs s' = ks_procs s2" "fs_heap s' = fs_heap s2" "ks_kernel_user_table s' = ks_kernel_user_table s2"
      using switch_tail_ok [OF s2(1,2) d2(1) tp _ _ tn(2), of mo b] False by auto
    have "scheduler_switch mo s = Some s'" using o cu False s'(1) by (simp add: scheduler_switch_def b_def)
    moreover have "kept mo s2 s'" by (rule kept_save [OF tp s'(9) _ s'(10-12,6)]) simp
    then have "kept mo s s'" using kept_trans [OF kept_same_env [OF s2(3)]] by blast
    moreover have "ks_regs s2 = ks_regs s" "ks_sp s2 = ks_sp s" using s2(3) by (simp_all add: same_env_def)
    moreover have "\<exists>t. ks_tasks s' x = Some t \<and> t_state t = TASK_DEAD" if "x \<in> set (reaped s Q)" "x \<noteq> n" for x
      using reap [OF that] tp by (auto simp: s'(9))
    moreover have "\<exists>t'. ks_tasks s' x = Some t' \<and> t_state t' = t_state tx \<and> t_cpu t' = t_cpu tx"
      if "ks_tasks s x = Some tx" "t_waiting_on tx \<noteq> None \<or> t_state tx = TASK_DEAD \<and> x \<noteq> n" for x tx
      using wk [OF that] tp by (auto simp: s'(9))
    ultimately show ?thesis
      using False tn s' new d2 nc same_env_procs [OF s2(3)] by (intro exI [of _ s'] exI [of _ tn]) (simp add: b_def)
  qed
qed

end
