(* ===== verification/SchedProps.thy ===== *)
theory SchedProps
  imports SchedMain
begin

text \<open>
  The properties of the scheduler: the invariant of a switch, fairness of the round robin, sleeping
  and waking, and the choice of a processor; with a concrete kernel state for their witnesses.
\<close>

section \<open>A concrete state\<close>

text \<open>
  Processor 0 runs task 0x1000, with 0x2000 in its run queue, 0x5000 asleep until tick 5, and
  0x3000 and 0x4000 as idle and cleanup tasks; the timer is at tick 10.
\<close>

definition task_ex :: "TaskState \<Rightarrow> Task" where
  "task_ex st = \<lparr>t_tid = 1, t_name = ''t'', t_cpu = Some 0, t_stack = 0,
     t_context = \<lparr>ec_regs = [7], ec_lr = TaskTrampoline, ec_sp = 9\<rparr>, t_state = st, t_waiting_on = None,
     t_process = None, t_sleep_until = 0, t_entry = TaskFn 0, t_arg = 0, t_user_stack = 0\<rparr>"

definition tasks_ex :: "u64 \<Rightarrow> Task option" where
  "tasks_ex = [0x1000 \<mapsto> task_ex TASK_RUNNING, 0x2000 \<mapsto> task_ex TASK_READY, 0x3000 \<mapsto> task_ex TASK_READY,
     0x4000 \<mapsto> task_ex TASK_READY,
     0x5000 \<mapsto> (task_ex TASK_BLOCKED)\<lparr>t_waiting_on := Some (SleepingTasks 0), t_sleep_until := 5\<rparr>]"

definition single :: "u64 \<Rightarrow> u64 IntrusiveList" where
  "single p = \<lparr>il_head = Some p, il_tail = Some p, il_count = 1\<rparr>"

definition cpu_ex :: "nat \<Rightarrow> Cpu" where
  "cpu_ex c = \<lparr>cpu_online = (c = 0), cpu_cpuid = of_nat c, cpu_timer = \<lparr>ct_ticks = 0, ct_resched_after = 0\<rparr>,
     cpu_needs_resched = False, cpu_current = (if c = 0 then Some 0x1000 else None),
     cpu_idle = (if c = 0 then Some 0x3000 else None), cpu_cleanup_task = (if c = 0 then Some 0x4000 else None),
     cpu_needs_cleanup = False,
     cpu_runnable_tasks = \<lparr>rq_lock = spinlock_init, rq_runnables = (if c = 0 then single 0x2000 else intrusivelist_init)\<rparr>,
     cpu_sleeping_tasks = SleepingTasks c\<rparr>"

definition wq_ex :: "wq_ref \<Rightarrow> WaitQueue" where
  "wq_ex q = \<lparr>wq_lock = spinlock_init, wq_waiters = (if q = SleepingTasks 0 then single 0x5000 else intrusivelist_init)\<rparr>"

definition nodes_ex :: "u64 inodes" where
  "nodes_ex = (\<lambda>_. \<lparr>inext = None, iprev = None\<rparr>)"

definition ks_example :: "(unit, nat) kstate" where
  "ks_example = fs_state.extend fs_example
     \<lparr>ks_tasks = tasks_ex, ks_global_node = nodes_ex, ks_runnable_node = nodes_ex, ks_wait_node = nodes_ex,
      ks_process_node = nodes_ex, ks_cpus = cpu_ex, ks_wqs = wq_ex, ks_procs = (\<lambda>_. None),
      ks_manager_node = nodes_ex, ks_parent_node = nodes_ex, ks_fdtables = (\<lambda>_. None),
      ks_task_manager = \<lparr>tm_lock = spinlock_init, tm_tasks = intrusivelist_init, tm_task_id_count = 1\<rparr>,
      ks_proc_manager = \<lparr>pm_lock = spinlock_init, pm_process_list = intrusivelist_init, pm_pid_count = 1\<rparr>,
      ks_stack_mem = (\<lambda>_. 0), ks_regs = [1], ks_sp = 2, ks_ttbr0 = 0, ks_kernel_user_table = 0x8000, ks_timer_counter = 10,
      ks_timer_frequency = 1000\<rparr>"

definition rqs_ex :: "nat \<Rightarrow> u64 list" where "rqs_ex = (\<lambda>_. [])(0 := [0x2000])"
definition wqs_ex :: "wq_ref \<Rightarrow> u64 list" where "wqs_ex = (\<lambda>_. [])(SleepingTasks 0 := [0x5000])"

lemma ks_example_fields [simp]:
  "ks_tasks ks_example = tasks_ex" "ks_runnable_node ks_example = nodes_ex" "ks_wait_node ks_example = nodes_ex"
  "ks_cpus ks_example = cpu_ex" "ks_wqs ks_example = wq_ex" "cx_cpu ks_example = 0" "cx_irq_disable_depth ks_example = 0"
  "ks_timer_counter ks_example = 10" "this_cpu ks_example = cpu_ex 0" "ks_kernel_user_table ks_example = 0x8000"
  "ks_procs ks_example = (\<lambda>_. None)" "ks_timer_frequency ks_example = 1000"
  "ks_task_manager ks_example = \<lparr>tm_lock = spinlock_init, tm_tasks = intrusivelist_init, tm_task_id_count = 1\<rparr>"
  by (simp_all add: ks_example_def fs_state.defs cpu_ctx.defs fs_example_def ctx_example_def this_cpu_def)

lemma tasks_ex_simps [simp]: "tasks_ex 0x1000 = Some (task_ex TASK_RUNNING)" "tasks_ex 0x2000 = Some (task_ex TASK_READY)"
  "tasks_ex 0x3000 = Some (task_ex TASK_READY)" "tasks_ex 0x4000 = Some (task_ex TASK_READY)"
  "tasks_ex 0x5000 = Some ((task_ex TASK_BLOCKED)\<lparr>t_waiting_on := Some (SleepingTasks 0), t_sleep_until := 5\<rparr>)"
  by (simp_all add: tasks_ex_def)

lemma task_ex_simps [simp]: "t_state (task_ex st) = st" "t_waiting_on (task_ex st) = None" "t_cpu (task_ex st) = Some 0"
  "t_process (task_ex st) = None" "ec_lr (t_context (task_ex st)) = TaskTrampoline" "t_sleep_until (task_ex st) = 0"
  by (simp_all add: task_ex_def)

lemma ks_example_cx: "cx_ok ks_example"
  by (simp add: ks_example_def fs_state.defs cpu_ctx.defs fs_example_def ctx_example_def cx_ok_def)

lemma single_rep: "il_rep nodes_ex (single p) [p]"
  by (simp add: il_rep_def single_def nodes_ex_def)

lemma ks_example_inv: "sched_inv rqs_ex wqs_ex ks_example"
proof -
  have "ils_rep nodes_ex (\<lambda>c. rq_runnables (cpu_runnable_tasks (cpu_ex c))) rqs_ex"
    by (auto simp: ils_rep_def rqs_ex_def cpu_ex_def single_rep il_rep_init)
  moreover have "ils_rep nodes_ex (\<lambda>q. wq_waiters (wq_ex q)) wqs_ex"
    by (auto simp: ils_rep_def wqs_ex_def wq_ex_def single_rep il_rep_init)
  moreover have "dom tasks_ex = {0x1000, 0x2000, 0x3000, 0x4000, 0x5000}" by (auto simp: tasks_ex_def split: if_splits)
  then have "finite (dom tasks_ex)" "card (dom tasks_ex) < 2 ^ 64" by simp_all
  moreover have "task_at rqs_ex wqs_ex p (tasks_ex p)" for p
    by (auto simp: task_at_def rqs_ex_def wqs_ex_def tasks_ex_def split: if_splits)
  moreover have "cpus_ok rqs_ex ks_example"
    by (auto simp: cpus_ok_def cpu_ex_def special_def rqs_ex_def split: if_splits)
  moreover have "locks_free ks_example"
    by (simp add: locks_free_def ks_example_cx rq_free_def wq_free_def rq_get_def wq_get_def tm_get_def cpu_ex_def wq_ex_def)
  moreover have "sorted (map (sleep_key ks_example) (wqs_ex (SleepingTasks c)))" for c by (simp add: wqs_ex_def)
  ultimately show ?thesis by (simp add: sched_inv_def queues_rep_def tasks_ok_def)
qed

lemma ks_example_cur: "cur_ok rqs_ex ks_example"
  by (auto simp: cur_ok_def cpu_ex_def rqs_ex_def split: if_splits)

definition process_ex :: Process where
  "process_ex = \<lparr>pr_name = [], pr_pid = 0, pr_lock = spinlock_init, pr_address_space = None, pr_state = PROCESS_RUNNING,
     pr_threads = intrusivelist_init, pr_parent = None, pr_children = intrusivelist_init, pr_child_waiters = WaitersOf 0,
     pr_files = None, pr_exiting = False, pr_exit_code = 0\<rparr>"

definition mm_example :: "unit mm_ops" where
  "mm_example = \<lparr>mo_heap = heap_example, mo_virt_to_phys = Some, mo_table = (\<lambda>_ _. None), mo_as_lock = (\<lambda>_ _. Some spinlock_init),
     mo_address_space_create = (\<lambda>_ _. None), mo_address_space_create_from = (\<lambda>_ _. None),
     mo_address_space_destroy = (\<lambda>_ _. None), mo_address_space_alloc = (\<lambda>_ _ _. None),
     mo_address_space_map_owned = (\<lambda>_ _ _ _ _. None), mo_elf_load = (\<lambda>_ _ _. None),
     mo_copy_from_user = (\<lambda>_ _ _ _. None), mo_copy_to_user_u64 = (\<lambda>_ _ _ _. None),
     mo_fresh_task = (\<lambda>_ _. task_ex TASK_DEAD), mo_fresh_process = (\<lambda>_ _. process_ex), mo_fn_addr = (\<lambda>_. 0)\<rparr>"

lemma ks_example_resumable: "p \<in> {0x1000, 0x2000, 0x3000, 0x4000} \<Longrightarrow> resumable mm_example ks_example p"
  by (auto simp: resumable_def address_space_table_def mm_example_def)

lemma ks_example_procs: "p \<in> {0x1000, 0x2000, 0x3000, 0x4000} \<Longrightarrow> proc_known ks_example p \<and> \<not> exiting ks_example p"
  by (auto simp: proc_known_def exiting_def is_task_process_exiting_def)

section \<open>Round robin\<close>

text \<open>A processor whose tasks only yield: so many switches in a row.\<close>

primrec switches :: "'h mm_ops \<Rightarrow> nat \<Rightarrow> ('h, 'w, 'a) kss \<Rightarrow> ('h, 'w, 'a) kss option" where
  "switches mo 0 s = Some s"
| "switches mo (Suc n) s = Option.bind (switches mo n s) (scheduler_switch mo)"

text \<open>
  \<open>turn mo rqs wqs c L s\<close>: processor \<open>c\<close> runs the first task of \<open>L\<close> and has the
  others in its run queue, in this order; none of them belongs to an exiting process.
\<close>

definition turn :: "'h mm_ops \<Rightarrow> (nat \<Rightarrow> u64 list) \<Rightarrow> (wq_ref \<Rightarrow> u64 list) \<Rightarrow> nat \<Rightarrow> u64 list \<Rightarrow> ('h, 'w, 'a) kss \<Rightarrow> bool" where
  "turn mo rqs wqs c L s \<longleftrightarrow> L \<noteq> [] \<and> sched_inv (rqs(c := tl L)) wqs s \<and> cur_ok (rqs(c := tl L)) s \<and>
     cx_cpu s = c \<and> cx_irq_disable_depth s = 0 \<and> cpu_current (ks_cpus s c) = Some (hd L) \<and>
     \<not> cpu_needs_cleanup (ks_cpus s c) \<and> hd L \<notin> special (ks_cpus s c) \<and>
     (\<exists>t. ks_tasks s (hd L) = Some t \<and> t_state t = TASK_RUNNING \<and> t_cpu t = Some c \<and> t_waiting_on t = None) \<and>
     (\<forall>x\<in>set L. proc_known s x \<and> \<not> exiting s x \<and> resumable mo s x)"

lemma turn_step:
  assumes t: "turn mo rqs wqs c L s"
  shows "\<exists>s'. scheduler_switch mo s = Some s' \<and> turn mo rqs wqs c (rotate1 L) s'"
proof -
  obtain p xs where L: "L = p # xs" using t by (cases L) (auto simp: turn_def)
  note u = t [unfolded turn_def L list.sel]
  have inv: "sched_inv (rqs(c := xs)) wqs s" and cur: "cur_ok (rqs(c := xs)) s" and c: "c = cx_cpu s"
    and d: "cx_irq_disable_depth s = 0" and p: "cpu_current (this_cpu s) = Some p"
    using u by (auto simp: this_cpu_def)
  have m: "may_leave s" using u by (auto simp: may_leave_def this_cpu_def)
  have rq: "requeued s = [p]" using u c by (auto simp: requeued_def this_cpu_def)
  have Q: "xs @ [p] = (rqs(c := xs)) c @ requeued s" using rq by simp
  have ne: "\<not> exiting s x" "proc_known s x" if "x \<in> set (xs @ [p])" for x using that u by auto
  have dw: "dropWhile (exiting s) (xs @ [p]) = xs @ [p]" "takeWhile (exiting s) (xs @ [p]) = []"
    using ne(1) by (cases xs; simp)+
  define n where "n = hd (xs @ [p])"
  have pk: "pick s (xs @ [p]) = Some n"
    using u c by (cases xs) (simp_all add: pick_def next_of_def dw this_cpu_def n_def ne)
  have lf: "left s (xs @ [p]) = tl (xs @ [p])" "reaped s (xs @ [p]) = []" using u c dw by (simp_all add: left_def reaped_def this_cpu_def)
  have nL: "n \<in> set (p # xs)" by (cases xs) (simp_all add: n_def)
  have res: "resumable mo s n \<and> address_space_table mo (Some p) s \<noteq> None"
    using u nL unfolding resumable_def by (metis list.set_intros(1) option.distinct(1))
  obtain s' where s': "scheduler_switch mo s = Some s'" "sched_inv (rqs(c := tl (xs @ [p]))) wqs s'"
    "cur_ok (rqs(c := tl (xs @ [p]))) s'" "cx_cpu s' = c" "cx_irq_disable_depth s' = 0" "kept mo s s'"
    "\<forall>d. cpu_current (ks_cpus s' d) = (if d = c then Some n else cpu_current (ks_cpus s d))"
    "\<exists>t. ks_tasks s' n = Some t \<and> t_state t = TASK_RUNNING \<and> t_cpu t = Some c \<and> t_waiting_on t = None"
    "cpu_needs_cleanup (ks_cpus s' c) = cpu_needs_cleanup (ks_cpus s c)"
    using scheduler_switch_ok [OF inv cur m c d p Q _ pk res] ne(2) unfolding lf fun_upd_upd by blast
  have "n \<notin> special (ks_cpus s c)"
  proof (cases xs)
    case (Cons x ys)
    then have "n \<in> set ((rqs(c := xs)) c)" by (simp add: n_def)
    then show ?thesis by (rule special_not_queued [OF inv])
  qed (use u in \<open>simp add: n_def\<close>)
  then have "n \<notin> special (ks_cpus s' c)" using s'(6) by (simp add: kept_def special_def)
  moreover have "\<forall>x\<in>set (xs @ [p]). proc_known s' x \<and> \<not> exiting s' x \<and> resumable mo s' x"
    using u s'(6) by (auto simp: kept_def)
  ultimately show ?thesis
    using s' u by (intro exI [of _ s']) (simp add: turn_def L n_def del: fun_upd_apply)
qed

lemma switches_turn: "turn mo rqs wqs c L s \<Longrightarrow> \<exists>s'. switches mo n s = Some s' \<and> turn mo rqs wqs c (rotate n L) s'"
proof (induction n)
  case (Suc n)
  then obtain s1 where "switches mo n s = Some s1" "turn mo rqs wqs c (rotate n L) s1" by blast
  then show ?case using turn_step [of mo rqs wqs c "rotate n L" s1] by auto
qed simp

lemma rotate_reaches: "x \<in> set L \<Longrightarrow> \<exists>k < length L. hd (rotate k L) = x"
  by (metis in_set_conv_nth hd_rotate_conv_nth length_0_conv less_nat_zero_code mod_less)

text \<open>
  Claim C2. Round robin is fair: when the tasks of a processor only yield, the scheduler keeps
  running; after any number of switches the current task and the run queue are a rotation of what they
  were, so that every task of the queue runs within one round, and the order never changes.
\<close>

theorem scheduler_round_robin:
  assumes "turn mo rqs wqs c (p # xs) s"
  shows "(\<exists>s'. switches mo n s = Some s' \<and> cpu_current (ks_cpus s' c) = Some (hd (rotate n (p # xs))) \<and>
      sched_inv (rqs(c := tl (rotate n (p # xs)))) wqs s') \<and>
    (\<forall>x\<in>set xs. \<exists>k \<le> length xs. \<exists>s'. switches mo k s = Some s' \<and> cpu_current (ks_cpus s' c) = Some x)"
proof (intro conjI ballI)
  show "\<exists>s'. switches mo n s = Some s' \<and> cpu_current (ks_cpus s' c) = Some (hd (rotate n (p # xs))) \<and>
      sched_inv (rqs(c := tl (rotate n (p # xs)))) wqs s'"
    using switches_turn [OF assms, of n] unfolding turn_def by blast
next
  fix x assume "x \<in> set xs"
  then obtain k where "k < length (p # xs)" "hd (rotate k (p # xs)) = x" using rotate_reaches [of x "p # xs"] by auto
  then show "\<exists>k \<le> length xs. \<exists>s'. switches mo k s = Some s' \<and> cpu_current (ks_cpus s' c) = Some x"
    using switches_turn [OF assms, of k] unfolding turn_def by (intro exI [of _ k]) auto
qed

lemma turn_example: "turn mm_example rqs_ex wqs_ex 0 [0x1000, 0x2000] ks_example"
proof -
  have "rqs_ex(0 := [0x2000]) = rqs_ex" by (auto simp: rqs_ex_def)
  then show ?thesis
    using ks_example_inv ks_example_cur ks_example_procs ks_example_resumable
    by (auto simp: turn_def cpu_ex_def special_def)
qed

theorem scheduler_round_robin_witness:
  "\<exists>s'. switches mm_example 1 ks_example = Some s' \<and> cpu_current (ks_cpus s' 0) = Some 0x2000"
  using scheduler_round_robin [OF turn_example, of 1] by auto

section \<open>The invariant of a switch\<close>

text \<open>
  Claim C1. \<^verbatim>\<open>scheduler_switch\<close> keeps the scheduler's invariant and always reaches the next
  task, on any state whose current task may leave: a task that still runs goes to the end of the run
  queue, tasks of exiting processes are taken out and marked dead, and the next task is the cleanup
  task when cleanup is due, else the first remaining task of the queue, else the idle task. It is
  then the current task, running, on its own registers and stack pointer, while those of the task that
  left are saved in its context with its interrupt state.
\<close>

theorem scheduler_switch_invariant:
  assumes "sched_inv rqs wqs s" "cur_ok rqs s" "may_leave s" "c = cx_cpu s" "cx_irq_disable_depth s = 0"
    and "cpu_current (this_cpu s) = Some p" "Q = rqs c @ requeued s" "\<forall>x\<in>set Q. proc_known s x"
    and "pick s Q = Some n" "n \<noteq> p \<Longrightarrow> resumable mo s n \<and> address_space_table mo (Some p) s \<noteq> None"
  shows "\<exists>s' tn. scheduler_switch mo s = Some s' \<and> sched_inv (rqs(c := left s Q)) wqs s' \<and> cur_ok (rqs(c := left s Q)) s' \<and>
    (\<forall>d. cpu_current (ks_cpus s' d) = (if d = c then Some n else cpu_current (ks_cpus s d))) \<and>
    ks_tasks s n = Some tn \<and> (\<exists>t. ks_tasks s' n = Some t \<and> t_state t = TASK_RUNNING) \<and>
    (n \<noteq> p \<longrightarrow> ks_regs s' = ec_regs (t_context tn) \<and> ks_sp s' = ec_sp (t_context tn) \<and>
       (\<exists>t. ks_tasks s' p = Some t \<and>
          t_context t = \<lparr>ec_regs = ks_regs s, ec_lr = SwitchReturn (irq_local_is_enable s), ec_sp = ks_sp s\<rparr>)) \<and>
    (\<forall>x\<in>set (reaped s Q). x \<noteq> n \<longrightarrow> (\<exists>t. ks_tasks s' x = Some t \<and> t_state t = TASK_DEAD))"
  using scheduler_switch_ok [OF assms] by blast

theorem scheduler_switch_invariant_witness:
  "\<exists>s'. scheduler_switch mm_example ks_example = Some s' \<and> cpu_current (ks_cpus s' 0) = Some 0x2000 \<and>
     sched_inv (rqs_ex(0 := [0x1000])) wqs_ex s'"
proof -
  have m: "may_leave ks_example" and rq: "requeued ks_example = [0x1000]"
    by (simp_all add: may_leave_def requeued_def cpu_ex_def special_def)
  have p: "cpu_current (this_cpu ks_example) = Some 0x1000" by (simp add: cpu_ex_def)
  have Q: "[0x2000, 0x1000] = rqs_ex 0 @ requeued ks_example" by (simp add: rq rqs_ex_def)
  have k: "\<forall>x\<in>set [0x2000, 0x1000]. proc_known ks_example x" using ks_example_procs by simp
  have ne: "\<not> exiting ks_example 0x2000" using ks_example_procs by simp
  have pk: "pick ks_example [0x2000, 0x1000] = Some 0x2000" by (simp add: pick_def next_of_def ne cpu_ex_def)
  have lf: "left ks_example [0x2000, 0x1000] = [0x1000]" by (simp add: left_def ne cpu_ex_def)
  have r: "resumable mm_example ks_example 0x2000 \<and> address_space_table mm_example (Some 0x1000) ks_example \<noteq> None"
    using ks_example_resumable [of "0x1000"] ks_example_resumable [of "0x2000"] by (auto simp: resumable_def)
  have c0: "0 = cx_cpu ks_example" and d: "cx_irq_disable_depth ks_example = 0" by simp_all
  show ?thesis
    using scheduler_switch_invariant [OF ks_example_inv ks_example_cur m c0 d p Q k pk r] unfolding lf by auto
qed

section \<open>Sleeping and waking\<close>

text \<open>
  Claim C4. A task that sleeps is taken from the processor and put in its processor's sleeping queue
  at the place its wake time gives: the current time plus the ticks of the requested milliseconds. The
  queue stays sorted by wake time, tasks with the same wake time stay in order of arrival, and no task
  is lost.
\<close>

theorem scheduler_sleep_sorted:
  assumes "sched_inv rqs wqs s" "ks_tasks s p = Some t" "t_waiting_on t = None" "t_state t = TASK_RUNNING"
    and "t_cpu t = Some c" "\<forall>d. p \<notin> special (ks_cpus s d)" "cx_cpu s = c" "cpu_current (this_cpu s) = Some p"
    and "key = timer_current_tick s + ks_timer_frequency s div 1000 * ms"
  shows "\<exists>s'. scheduler_sleep_current mo ms s = scheduler_switch mo s' \<and>
    sched_inv rqs (wqs(SleepingTasks c := takeWhile (\<lambda>e. sleep_key s e \<le> key) (wqs (SleepingTasks c)) @
      p # dropWhile (\<lambda>e. sleep_key s e \<le> key) (wqs (SleepingTasks c)))) s' \<and>
    sleep_key s' p = key \<and> (\<exists>t'. ks_tasks s' p = Some t' \<and> t_state t' = TASK_BLOCKED \<and> t_waiting_on t' = Some (SleepingTasks c)) \<and>
    (\<forall>x. x \<noteq> p \<longrightarrow> ks_tasks s' x = ks_tasks s x)"
proof -
  have key: "key = timer_current_tick s + timer_ms_to_ticks ms s"
    using assms(9) by (simp add: timer_ms_to_ticks_def ticks_from_miliseconds_def)
  obtain s' where s': "with_lock (wq_get (SleepingTasks c)) (wq_put (SleepingTasks c)) (sleep_enqueue p (SleepingTasks c) ms) s = Some (cx_sec s', ())"
    "sched_inv rqs (wqs(SleepingTasks c := sleep_list s key p (wqs (SleepingTasks c)))) s'" 
    "ks_tasks s' = (ks_tasks s)(p \<mapsto> t\<lparr>t_sleep_until := key, t_waiting_on := Some (SleepingTasks c), t_state := TASK_BLOCKED\<rparr>)"
    using sleep_enqueue_ok [OF assms(1-6) key] by metis
  have "cpu_sleeping_tasks (this_cpu s) = SleepingTasks c"
    using assms(1,7) by (simp add: sched_inv_def cpus_ok_def this_cpu_def)
  moreover have "Some p \<noteq> cpu_idle (this_cpu s)" using assms(6) by (auto simp: special_def this_cpu_def)
  ultimately have "scheduler_sleep_current mo ms s = scheduler_switch mo (cx_sec s')"
    using assms(2,4,5,7,8) s'(1) by (simp add: scheduler_sleep_current_def)
  then show ?thesis using s'(2,3)
    by (intro exI [of _ "cx_sec s'"]) (simp add: sleep_list_def sleep_key_def del: fun_upd_apply, simp)
qed

theorem scheduler_sleep_sorted_witness:
  "\<exists>s'. scheduler_sleep_current mm_example 20 ks_example = scheduler_switch mm_example s' \<and>
     sched_inv rqs_ex (wqs_ex(SleepingTasks 0 := [0x5000, 0x1000])) s'"
proof -
  have "sleep_key ks_example 0x5000 \<le> 30" by (simp add: sleep_key_def)
  moreover have "wqs_ex (SleepingTasks 0) = [0x5000]" by (simp add: wqs_ex_def)
  moreover have "\<forall>d. 0x1000 \<notin> special (ks_cpus ks_example d)" by (simp add: special_def cpu_ex_def)
  moreover have "cpu_current (cpu_ex 0) = Some 0x1000" "timer_current_tick ks_example = 10"
    by (simp_all add: cpu_ex_def timer_current_tick_def)
  ultimately show ?thesis
    using scheduler_sleep_sorted [OF ks_example_inv, of "0x1000" "task_ex TASK_RUNNING" 0 30 20 mm_example]
    by (simp del: fun_upd_apply) blast
qed

text \<open>
  Claim C3. A timer tick wakes exactly the sleepers that are due: \<^verbatim>\<open>scheduler_wake_sleepers\<close>
  returns, every task whose wake time has come leaves the sleeping queue and joins the run queue, in
  order of wake time, ready and waiting on nothing; all others keep sleeping, and no other task changes.
\<close>

theorem scheduler_wake_sleepers_exact:
  assumes "sched_inv rqs wqs s" "cx_cpu s = c"
  shows "\<exists>s'. scheduler_wake_sleepers s = Some s' \<and> cx_same s s' \<and>
    sched_inv (rqs(c := rqs c @ filter (\<lambda>p. sleep_key s p \<le> timer_current_tick s) (wqs (SleepingTasks c))))
      (wqs(SleepingTasks c := filter (\<lambda>p. timer_current_tick s < sleep_key s p) (wqs (SleepingTasks c)))) s' \<and>
    (\<forall>x. ks_tasks s' x = (if x \<in> set (wqs (SleepingTasks c)) \<and> sleep_key s x \<le> timer_current_tick s
       then map_option (\<lambda>t. t\<lparr>t_sleep_until := 0, t_waiting_on := None, t_state := TASK_READY\<rparr>) (ks_tasks s x)
       else ks_tasks s x))"
proof -
  have "map_tasks awake (set (filter P xs)) f x = (if x \<in> set xs \<and> P x
      then map_option (\<lambda>t. t\<lparr>t_sleep_until := 0, t_waiting_on := None, t_state := TASK_READY\<rparr>) (f x) else f x)" for P xs f x
    by (simp add: map_tasks_def awake_def [abs_def])
  moreover obtain s' where "scheduler_wake_sleepers s = Some s'" "cx_same s s'"
    "sched_inv (rqs(c := rqs c @ filter (\<lambda>p. sleep_key s p \<le> timer_current_tick s) (wqs (SleepingTasks c))))
      (wqs(SleepingTasks c := filter (\<lambda>p. timer_current_tick s < sleep_key s p) (wqs (SleepingTasks c)))) s'"
    "ks_tasks s' = map_tasks awake (set (filter (\<lambda>p. sleep_key s p \<le> timer_current_tick s) (wqs (SleepingTasks c)))) (ks_tasks s)"
    using scheduler_wake_sleepers_ok [OF assms] by blast
  ultimately show ?thesis by (intro exI [of _ s'] conjI allI) simp_all
qed

theorem scheduler_wake_sleepers_exact_witness:
  "\<exists>s'. scheduler_wake_sleepers ks_example = Some s' \<and> sched_inv (rqs_ex(0 := [0x2000, 0x5000])) (wqs_ex(SleepingTasks 0 := [])) s'"
proof -
  have "sleep_key ks_example 0x5000 = 5" "timer_current_tick ks_example = 10"
    by (simp_all add: sleep_key_def timer_current_tick_def)
  moreover have "wqs_ex (SleepingTasks 0) = [0x5000]" "rqs_ex 0 = [0x2000]" by (simp_all add: wqs_ex_def rqs_ex_def)
  ultimately show ?thesis
    using scheduler_wake_sleepers_exact [OF ks_example_inv, of 0] by (auto simp del: fun_upd_apply)
qed

section \<open>Choosing a processor\<close>

text \<open>
  Claim C5. \<^verbatim>\<open>scheduler_pick_cpu\<close> returns an online processor whose run queue is no longer
  than that of any other online processor, and stops the machine exactly when none is online; it
  changes nothing but the note of the last interrupt state.
\<close>

theorem scheduler_pick_cpu_least_loaded:
  assumes "sched_inv rqs wqs s" "\<forall>c. length (rqs c) < 2 ^ 63 - 1"
  shows "if \<exists>c < CONFIG_MAX_CPU_COUNT. cpu_online (ks_cpus s c)
    then \<exists>s' b. scheduler_pick_cpu s = Some (s', b) \<and> (s' = s \<or> s' = cx_sec s) \<and> b < CONFIG_MAX_CPU_COUNT \<and>
      cpu_online (ks_cpus s b) \<and> (\<forall>c < CONFIG_MAX_CPU_COUNT. cpu_online (ks_cpus s c) \<longrightarrow> length (rqs b) \<le> length (rqs c))
    else scheduler_pick_cpu s = None"
  by (rule scheduler_pick_cpu_ok [OF assms])

theorem scheduler_pick_cpu_least_loaded_witness:
  "\<exists>s' b. scheduler_pick_cpu ks_example = Some (s', b) \<and> cpu_online (cpu_ex b)"
proof -
  have "\<forall>c. length (rqs_ex c) < 2 ^ 63 - 1" by (simp add: rqs_ex_def)
  moreover have "\<exists>c < CONFIG_MAX_CPU_COUNT. cpu_online (ks_cpus ks_example c)" by (intro exI [of _ 0]) (simp add: cpu_ex_def)
  ultimately show ?thesis using scheduler_pick_cpu_least_loaded [OF ks_example_inv] by auto
qed

section \<open>A window in which preemption panics\<close>

text \<open>
  A task that has put itself on a wait queue but is still running must not be preempted: the switch
  stops the machine. \<^verbatim>\<open>mutex_acquire\<close>, \<^verbatim>\<open>semaphore_acquire\<close> and
  \<^verbatim>\<open>sys_wait4\<close> are in this state with interrupts enabled, between
  \<^verbatim>\<open>waitqueue_enqueue\<close> and \<^verbatim>\<open>scheduler_block_current\<close>.
\<close>

lemma scheduler_switch_waiting_panics:
  assumes "cpu_current (this_cpu s) = Some p" "ks_tasks s p = Some t" "t_state t = TASK_RUNNING" "t_waiting_on t \<noteq> None"
    "p \<notin> special (this_cpu s)"
  shows "scheduler_switch mo s = None"
proof -
  have "Some p \<noteq> cpu_idle (this_cpu s)" "Some p \<noteq> cpu_cleanup_task (this_cpu s)" using assms(5) by (auto simp: special_def)
  then have "switch_out (irq_local_disable s) = None" using assms(1-4) by (auto simp: switch_out_def)
  then show ?thesis by (simp add: scheduler_switch_def)
qed

end
