(* ===== verification/Sync.thy ===== *)
theory Sync
  imports Scheduler
begin

text \<open>
  The blocking locks: \<^verbatim>\<open>kernel/sync/mutex.c\<close>, \<^verbatim>\<open>semaphore.c\<close> and
  \<^verbatim>\<open>completion.c\<close>. The kernel state is extended by a store of the objects, by address.

  The loops of the acquiring functions are modelled by one round. The result \<open>True\<close> is a
  return to the caller; \<open>False\<close> means that the task is blocked and the processor runs another
  one: the task goes on with the next round when it is resumed.
\<close>

record Mutex =
  mt_lock :: SpinLock
  mt_owner :: "u64 option"
  mt_waiters :: wq_ref

record Semaphore =
  sm_lock :: SpinLock
  sm_waiters :: wq_ref
  sm_count :: usize
  sm_initial_count :: usize

record Completion =
  cm_waiters :: wq_ref
  cm_done :: bool

record ('h, 'w) sync_state = "('h, 'w) kstate" +
  sy_mutexes :: "u64 \<Rightarrow> Mutex"
  sy_semaphores :: "u64 \<Rightarrow> Semaphore"
  sy_completions :: "u64 \<Rightarrow> Completion"

type_synonym ('h, 'w, 'a) sys = "('h, 'w, 'a) sync_state_scheme"

definition set_mutex :: "u64 \<Rightarrow> Mutex \<Rightarrow> ('h, 'w, 'a) sys \<Rightarrow> ('h, 'w, 'a) sys" where
  "set_mutex m v s = s\<lparr>sy_mutexes := (sy_mutexes s)(m := v)\<rparr>"

definition set_semaphore :: "u64 \<Rightarrow> Semaphore \<Rightarrow> ('h, 'w, 'a) sys \<Rightarrow> ('h, 'w, 'a) sys" where
  "set_semaphore m v s = s\<lparr>sy_semaphores := (sy_semaphores s)(m := v)\<rparr>"

definition set_completion :: "u64 \<Rightarrow> Completion \<Rightarrow> ('h, 'w, 'a) sys \<Rightarrow> ('h, 'w, 'a) sys" where
  "set_completion m v s = s\<lparr>sy_completions := (sy_completions s)(m := v)\<rparr>"

definition mt_get :: "u64 \<Rightarrow> ('h, 'w, 'a) sys \<Rightarrow> SpinLock" where
  "mt_get m s = mt_lock (sy_mutexes s m)"
definition mt_put :: "u64 \<Rightarrow> SpinLock \<Rightarrow> ('h, 'w, 'a) sys \<Rightarrow> ('h, 'w, 'a) sys" where
  "mt_put m l s = set_mutex m ((sy_mutexes s m)\<lparr>mt_lock := l\<rparr>) s"

definition sm_get :: "u64 \<Rightarrow> ('h, 'w, 'a) sys \<Rightarrow> SpinLock" where
  "sm_get m s = sm_lock (sy_semaphores s m)"
definition sm_put :: "u64 \<Rightarrow> SpinLock \<Rightarrow> ('h, 'w, 'a) sys \<Rightarrow> ('h, 'w, 'a) sys" where
  "sm_put m l s = set_semaphore m ((sy_semaphores s m)\<lparr>sm_lock := l\<rparr>) s"

lemmas sync_slot_defs = mt_get_def mt_put_def sm_get_def sm_put_def set_mutex_def set_semaphore_def

interpretation mtl: lock_slot "\<lambda>_. True" "mt_get m" "mt_put m" for m
  by unfold_locales (simp_all add: sync_slot_defs cx_put_def)

interpretation sml: lock_slot "\<lambda>_. True" "sm_get m" "sm_put m" for m
  by unfold_locales (simp_all add: sync_slot_defs cx_put_def)

section \<open>Mutexes\<close>

definition mutex_init :: "u64 \<Rightarrow> ('h, 'w, 'a) sys \<Rightarrow> ('h, 'w, 'a) sys" where
  "mutex_init m s =
     set_mutex m \<lparr>mt_lock = spinlock_init, mt_owner = None, mt_waiters = WaitersOf m\<rparr> (set_wq (WaitersOf m) waitqueue_init s)"

text \<open>The part of \<^verbatim>\<open>mutex_acquire\<close> under the spinlock: taking the mutex, or joining its waiters.\<close>

definition mutex_take_or_wait :: "u64 \<Rightarrow> ('h, 'w, 'a) sys \<Rightarrow> (('h, 'w, 'a) sys \<times> bool) option" where
  "mutex_take_or_wait m s =
     (let current = cpu_current (this_cpu s); mt = sy_mutexes s m in
      if mt_owner mt = None then Some (set_mutex m (mt\<lparr>mt_owner := current\<rparr>) s, True)
      else do {
        task \<leftarrow> current;
        (s, _) \<leftarrow> waitqueue_enqueue (mt_waiters mt) task s;
        Some (s, False)
      })"

definition mutex_acquire :: "'h mm_ops \<Rightarrow> u64 \<Rightarrow> ('h, 'w, 'a) sys \<Rightarrow> (('h, 'w, 'a) sys \<times> bool) option" where
  "mutex_acquire mo m s = do {
     (s, taken) \<leftarrow> with_lock (mt_get m) (mt_put m) (mutex_take_or_wait m) s;
     if taken then Some (s, True)
     else do { s \<leftarrow> scheduler_block_current mo s; Some (s, False) }
   }"

definition mutex_try_acquire :: "u64 \<Rightarrow> ('h, 'w, 'a) sys \<Rightarrow> (('h, 'w, 'a) sys \<times> bool) option" where
  "mutex_try_acquire m s =
     with_lock (mt_get m) (mt_put m) (\<lambda>s.
       let current = cpu_current (this_cpu s); mt = sy_mutexes s m in
       if mt_owner mt = None then Some (set_mutex m (mt\<lparr>mt_owner := current\<rparr>) s, True)
       else Some (s, False)) s"

definition mutex_give :: "u64 \<Rightarrow> ('h, 'w, 'a) sys \<Rightarrow> (('h, 'w, 'a) sys \<times> u64 option) option" where
  "mutex_give m s =
     (let current = cpu_current (this_cpu s); mt = sy_mutexes s m in do {
        ASSERT (mt_owner mt \<noteq> None);
        ASSERT (mt_owner mt = current);
        waitqueue_dequeue (mt_waiters mt) (set_mutex m (mt\<lparr>mt_owner := None\<rparr>) s)
      })"

definition mutex_release :: "u64 \<Rightarrow> ('h, 'w, 'a) sys \<Rightarrow> (('h, 'w, 'a) sys \<times> unit) option" where
  "mutex_release m s = do {
     (s, blocked) \<leftarrow> with_lock (mt_get m) (mt_put m) (mutex_give m) s;
     if blocked = None then Some (s, ())
     else scheduler_wake_blocked blocked s
   }"

definition mutex_is_acquired :: "u64 \<Rightarrow> ('h, 'w, 'a) sys \<Rightarrow> (('h, 'w, 'a) sys \<times> bool) option" where
  "mutex_is_acquired m s = with_lock (mt_get m) (mt_put m) (\<lambda>s. Some (s, mt_owner (sy_mutexes s m) \<noteq> None)) s"

section \<open>Semaphores\<close>

definition semaphore_init :: "u64 \<Rightarrow> usize \<Rightarrow> ('h, 'w, 'a) sys \<Rightarrow> ('h, 'w, 'a) sys" where
  "semaphore_init m count s =
     set_semaphore m \<lparr>sm_lock = spinlock_init, sm_waiters = WaitersOf m, sm_count = count, sm_initial_count = count\<rparr>
       (set_wq (WaitersOf m) waitqueue_init s)"

definition semaphore_take_or_wait :: "u64 \<Rightarrow> ('h, 'w, 'a) sys \<Rightarrow> (('h, 'w, 'a) sys \<times> bool) option" where
  "semaphore_take_or_wait m s =
     (let current = cpu_current (this_cpu s); sm = sy_semaphores s m in
      if sm_count sm > 0 then Some (set_semaphore m (sm\<lparr>sm_count := sm_count sm - 1\<rparr>) s, True)
      else do {
        task \<leftarrow> current;
        (s, _) \<leftarrow> waitqueue_enqueue (sm_waiters sm) task s;
        Some (s, False)
      })"

definition semaphore_acquire :: "'h mm_ops \<Rightarrow> u64 \<Rightarrow> ('h, 'w, 'a) sys \<Rightarrow> (('h, 'w, 'a) sys \<times> bool) option" where
  "semaphore_acquire mo m s = do {
     (s, taken) \<leftarrow> with_lock (sm_get m) (sm_put m) (semaphore_take_or_wait m) s;
     if taken then Some (s, True)
     else do { s \<leftarrow> scheduler_block_current mo s; Some (s, False) }
   }"

definition semaphore_try_acquire :: "u64 \<Rightarrow> ('h, 'w, 'a) sys \<Rightarrow> (('h, 'w, 'a) sys \<times> bool) option" where
  "semaphore_try_acquire m s =
     with_lock (sm_get m) (sm_put m) (\<lambda>s.
       let sm = sy_semaphores s m in
       if sm_count sm > 0 then Some (set_semaphore m (sm\<lparr>sm_count := sm_count sm - 1\<rparr>) s, True)
       else Some (s, False)) s"

definition semaphore_give :: "u64 \<Rightarrow> ('h, 'w, 'a) sys \<Rightarrow> (('h, 'w, 'a) sys \<times> u64 option) option" where
  "semaphore_give m s =
     (let sm = sy_semaphores s m in do {
        ASSERT (sm_count sm < sm_initial_count sm);
        waitqueue_dequeue (sm_waiters sm) (set_semaphore m (sm\<lparr>sm_count := sm_count sm + 1\<rparr>) s)
      })"

definition semaphore_release :: "u64 \<Rightarrow> ('h, 'w, 'a) sys \<Rightarrow> (('h, 'w, 'a) sys \<times> unit) option" where
  "semaphore_release m s = do {
     (s, blocked) \<leftarrow> with_lock (sm_get m) (sm_put m) (semaphore_give m) s;
     if blocked = None then Some (s, ())
     else scheduler_wake_blocked blocked s
   }"

section \<open>Completions\<close>

definition completion_init :: "u64 \<Rightarrow> ('h, 'w, 'a) sys \<Rightarrow> ('h, 'w, 'a) sys" where
  "completion_init m s =
     set_completion m \<lparr>cm_waiters = WaitersOf m, cm_done = False\<rparr> (set_wq (WaitersOf m) waitqueue_init s)"

definition completion_check :: "u64 \<Rightarrow> ('h, 'w, 'a) sys \<Rightarrow> (('h, 'w, 'a) sys \<times> u64 option) option" where
  "completion_check m s =
     (if cm_done (sy_completions s m) then Some (s, None)
      else do {
        let cur = task_get_current s;
        ASSERT (\<not> IS_ERR cur);
        t \<leftarrow> ks_tasks s cur;
        Some (set_task cur (t\<lparr>t_state := TASK_BLOCKED\<rparr>) s, Some cur)
      })"

definition completion_wait :: "'h mm_ops \<Rightarrow> u64 \<Rightarrow> ('h, 'w, 'a) sys \<Rightarrow> (('h, 'w, 'a) sys \<times> bool) option" where
  "completion_wait mo m s = do {
     let q = cm_waiters (sy_completions s m);
     (s, blocked) \<leftarrow> with_lock (wq_get q) (wq_put q) (completion_check m) s;
     (case blocked of None \<Rightarrow> Some (s, True)
      | Some cur \<Rightarrow> do {
          (s, _) \<leftarrow> waitqueue_enqueue q cur s;
          s \<leftarrow> scheduler_switch mo s;
          Some (s, False)
        })
   }"

partial_function (option) completion_signal_loop :: "wq_ref \<Rightarrow> ('h, 'w, 'a) kss \<Rightarrow> (('h, 'w, 'a) kss \<times> unit) option" where
  "completion_signal_loop wq s = do {
     (s, task) \<leftarrow> waitqueue_dequeue_unlocked wq s;
     (case task of None \<Rightarrow> Some (s, ())
      | Some p \<Rightarrow> do {
          (s, _) \<leftarrow> scheduler_wake_blocked (Some p) s;
          completion_signal_loop wq s
        })
   }"

definition completion_signal :: "u64 \<Rightarrow> ('h, 'w, 'a) sys \<Rightarrow> (('h, 'w, 'a) sys \<times> unit) option" where
  "completion_signal m s = do {
     let cm = sy_completions s m;
     ASSERT (\<not> cm_done cm);
     with_lock (wq_get (cm_waiters cm)) (wq_put (cm_waiters cm)) (\<lambda>s.
       completion_signal_loop (cm_waiters cm) (set_completion m ((sy_completions s m)\<lparr>cm_done := True\<rparr>) s)) s
   }"

definition completion_reset :: "u64 \<Rightarrow> ('h, 'w, 'a) sys \<Rightarrow> (('h, 'w, 'a) sys \<times> unit) option" where
  "completion_reset m s =
     (let q = cm_waiters (sy_completions s m) in
      with_lock (wq_get q) (wq_put q) (\<lambda>s. Some (set_completion m ((sy_completions s m)\<lparr>cm_done := False\<rparr>) s, ())) s)"

end
