(* ===== verification/SyncLock.thy ===== *)
theory SyncLock
  imports KPrelude
begin

text \<open>
  What a lock with a queue of waiters promises, as a locale over its operations: \<open>enter\<close> is one
  attempt of a task to take the lock, which succeeds or puts the task at the end of the waiters,
  \<open>give\<close> releases the lock and takes the first waiter out, \<open>rely\<close> is everything the
  rest of the kernel may do in between. \<open>lock_run\<close> are the runs of any number of tasks; the
  locale shows that units are conserved and that no wakeup is lost. Mutexes and semaphores are its
  two interpretations.
\<close>

text \<open>
  \<open>held p\<close> counts the units task \<open>p\<close> has taken less those it gave back,
  \<open>trying\<close> are the tasks inside the acquiring loop.
\<close>

inductive lock_run ::
  "(u64 \<Rightarrow> 's \<Rightarrow> 's \<Rightarrow> bool \<Rightarrow> bool) \<Rightarrow> (u64 \<Rightarrow> 's \<Rightarrow> 's \<Rightarrow> bool) \<Rightarrow> ('s \<Rightarrow> 's \<Rightarrow> bool) \<Rightarrow>
   's \<Rightarrow> 's \<Rightarrow> (u64 \<Rightarrow> int) \<Rightarrow> u64 set \<Rightarrow> bool"
  for enter give rely s0 where
  start: "lock_run enter give rely s0 s0 (\<lambda>_. 0) {}"
| taken: "lock_run enter give rely s0 s held trying \<Longrightarrow> enter p s s' True \<Longrightarrow>
    lock_run enter give rely s0 s' (held(p := held p + 1)) (trying - {p})"
| waits: "lock_run enter give rely s0 s held trying \<Longrightarrow> enter p s s' False \<Longrightarrow>
    lock_run enter give rely s0 s' held (insert p trying)"
| given: "lock_run enter give rely s0 s held trying \<Longrightarrow> give p s s' \<Longrightarrow>
    lock_run enter give rely s0 s' (held(p := held p - 1)) trying"
| other: "lock_run enter give rely s0 s held trying \<Longrightarrow> rely s s' \<Longrightarrow> lock_run enter give rely s0 s' held trying"

lemma sum_upd_word:
  fixes f :: "'n::len word \<Rightarrow> int"
  shows "sum (f(p := v)) UNIV = sum f UNIV - f p + v"
proof -
  have "sum (f(p := v)) UNIV = v + sum (f(p := v)) (UNIV - {p})" by (subst sum.remove [of _ p]) simp_all
  also have "sum (f(p := v)) (UNIV - {p}) = sum f (UNIV - {p})" by (rule sum.cong) auto
  also have "sum f (UNIV - {p}) = sum f UNIV - f p" by (simp add: sum_diff1)
  finally show ?thesis by simp
qed

locale waiting_lock =
  fixes inv :: "'s \<Rightarrow> bool"
    and avail :: "'s \<Rightarrow> nat"
    and waiting :: "'s \<Rightarrow> u64 list"
    and enter :: "u64 \<Rightarrow> 's \<Rightarrow> 's \<Rightarrow> bool \<Rightarrow> bool"
    and give :: "u64 \<Rightarrow> 's \<Rightarrow> 's \<Rightarrow> bool"
    and rely :: "'s \<Rightarrow> 's \<Rightarrow> bool"
  assumes enter_take: "inv s \<Longrightarrow> enter p s s' True \<Longrightarrow>
      inv s' \<and> avail s = Suc (avail s') \<and> waiting s' = waiting s \<and> p \<notin> set (waiting s)"
    and enter_wait: "inv s \<Longrightarrow> enter p s s' False \<Longrightarrow>
      inv s' \<and> avail s = 0 \<and> avail s' = 0 \<and> waiting s' = waiting s @ [p] \<and> p \<notin> set (waiting s)"
    and give_law: "inv s \<Longrightarrow> give p s s' \<Longrightarrow> inv s' \<and> avail s' = Suc (avail s) \<and> waiting s' = tl (waiting s)"
    and rely_law: "inv s \<Longrightarrow> rely s s' \<Longrightarrow> inv s' \<and> avail s' = avail s \<and> waiting s' = waiting s"
begin

text \<open>
  Units are conserved, the waiters are distinct tasks in the acquiring loop, and while there are
  waiters no more units are free than tasks that were woken and have not tried again.
\<close>

lemma run_inv:
  assumes "lock_run enter give rely s0 s held trying" "inv s0" "waiting s0 = []"
  shows "inv s \<and> sum held UNIV + int (avail s) = int (avail s0) \<and> distinct (waiting s) \<and> set (waiting s) \<subseteq> trying \<and>
    (waiting s \<noteq> [] \<longrightarrow> avail s \<le> card (trying - set (waiting s)))"
  using assms(1)
proof (induction rule: lock_run.induct)
  case (taken s held trying p s')
  then have l: "inv s'" "avail s = Suc (avail s')" "waiting s' = waiting s" "p \<notin> set (waiting s)"
    using enter_take by blast+
  have "card (trying - set (waiting s)) \<le> Suc (card (trying - {p} - set (waiting s)))"
    using card_insert_le_m1 [of "Suc (card (trying - {p} - set (waiting s)))" "trying - {p} - set (waiting s)" p]
      card_mono [of "insert p (trying - {p} - set (waiting s))" "trying - set (waiting s)"] by fastforce
  then show ?case using taken.IH l by (auto simp: sum_upd_word simp del: fun_upd_apply)
next
  case (waits s held trying p s')
  then have "inv s'" "avail s = 0" "avail s' = 0" "waiting s' = waiting s @ [p]" "p \<notin> set (waiting s)"
    using enter_wait by blast+
  then show ?case using waits.IH by auto
next
  case (given s held trying p s')
  then have l: "inv s'" "avail s' = Suc (avail s)" "waiting s' = tl (waiting s)" using give_law by blast+
  show ?case
  proof (cases "waiting s")
    case Nil
    then show ?thesis using given.IH l by (simp add: sum_upd_word del: fun_upd_apply)
  next
    case (Cons x xs)
    have e: "trying - set xs = insert x (trying - set (waiting s))" using given.IH Cons by auto
    have "card (trying - set xs) = Suc (card (trying - set (waiting s)))"
      unfolding e by (rule card_insert_disjoint) (use Cons in auto)
    then show ?thesis using given.IH l Cons by (auto simp: sum_upd_word simp del: fun_upd_apply)
  qed
qed (use assms rely_law in auto)

end

text \<open>A lock of one unit that knows its owner.\<close>

locale owned_lock = waiting_lock inv avail waiting enter give rely
  for inv :: "'s \<Rightarrow> bool" and avail waiting enter give rely +
  fixes owner :: "'s \<Rightarrow> u64 option"
  assumes avail_owner: "avail s = (if owner s = None then 1 else 0)"
    and enter_owner: "inv s \<Longrightarrow> enter p s s' True \<Longrightarrow> owner s' = Some p"
    and wait_owner: "inv s \<Longrightarrow> enter p s s' False \<Longrightarrow> owner s' = owner s"
    and give_owner: "inv s \<Longrightarrow> give p s s' \<Longrightarrow> owner s = Some p"
    and rely_owner: "inv s \<Longrightarrow> rely s s' \<Longrightarrow> owner s' = owner s"
begin

lemma take_free: "inv s \<Longrightarrow> enter p s s' True \<Longrightarrow> owner s = None"
  using enter_take avail_owner [of s] by (metis nat.simps(3))

lemma give_frees: "inv s \<Longrightarrow> give p s s' \<Longrightarrow> owner s' = None"
  using give_law avail_owner [of s'] by (metis nat.simps(3))

lemma run_owner:
  assumes "lock_run enter give rely s0 s held trying" "inv s0" "waiting s0 = []" "owner s0 = None"
  shows "held p = (if owner s = Some p then 1 else 0)"
  using assms(1)
proof (induction arbitrary: p rule: lock_run.induct)
  case (taken s held trying q s')
  have "inv s" using run_inv [OF taken.hyps(1) assms(2,3)] by blast
  then show ?case using taken take_free [of s q s'] enter_owner [of s q s'] by auto
next
  case (waits s held trying q s')
  have "inv s" using run_inv [OF waits.hyps(1) assms(2,3)] by blast
  then show ?case using waits wait_owner [of s q s'] by simp
next
  case (given s held trying q s')
  have "inv s" using run_inv [OF given.hyps(1) assms(2,3)] by blast
  then show ?case using given give_owner [of s q s'] give_frees [of s q s'] by auto
next
  case (other s held trying s')
  have "inv s" using run_inv [OF other.hyps(1) assms(2,3)] by blast
  then show ?case using other rely_owner [of s s'] by simp
qed (simp add: assms(4))

end

end
