(* ===== verification/SchedFrame.thy ===== *)
theory SchedFrame
  imports SchedProps
begin

text \<open>
  The scheduler leaves everything alone that is not its own: no operation of \<open>Scheduler\<close>
  touches what a state adds to the kernel state (\<^term>\<open>kstate.more\<close>).
\<close>

lemma more_simps [simp]:
  "kstate.more (set_task p t s) = kstate.more s" "kstate.more (set_cpu c v s) = kstate.more s"
  "kstate.more (set_wq q w s) = kstate.more s" "kstate.more (set_waiters q il h s) = kstate.more s"
  "kstate.more (set_runnables c il h s) = kstate.more s" "kstate.more (rq_put c l s) = kstate.more s"
  "kstate.more (wq_put q l s) = kstate.more s" "kstate.more (tm_put l s) = kstate.more s"
  "kstate.more (irq_push_intr s) = kstate.more s" "kstate.more (irq_local_disable s) = kstate.more s"
  "kstate.more (irq_local_enable s) = kstate.more s" "kstate.more (cx_sec s) = kstate.more s"
  for s :: "('h, 'w, 'a) kss"
  by (simp_all add: set_task_def set_cpu_def set_wq_def set_waiters_def set_runnables_def slot_defs irq_push_as_put cx_put_def
      irq_local_disable_def irq_local_enable_def w_intrd_disable_def w_intrd_enable_def cx_sec_def)

text \<open>\<open>frame s m\<close>: the outcome \<open>m\<close> of an operation started in \<open>s\<close>, if any, agrees with it there.\<close>

definition frame :: "('h, 'w, 'a) kss \<Rightarrow> (('h, 'w, 'a) kss \<times> 'r) option \<Rightarrow> bool" where
  "frame s m \<longleftrightarrow> (\<forall>s' r. m = Some (s', r) \<longrightarrow> kstate.more s' = kstate.more s)"

definition frame1 :: "('h, 'w, 'a) kss \<Rightarrow> ('h, 'w, 'a) kss option \<Rightarrow> bool" where
  "frame1 s m \<longleftrightarrow> (\<forall>s'. m = Some s' \<longrightarrow> kstate.more s' = kstate.more s)"

named_theorems frames

lemma frame_none [frames]: "frame s None" "frame1 s None"
  by (simp_all add: frame_def frame1_def)

lemma frame_some [frames]: "kstate.more s' = kstate.more s \<Longrightarrow> frame s (Some (s', r))"
  "kstate.more s' = kstate.more s \<Longrightarrow> frame1 s (Some s')"
  by (simp_all add: frame_def frame1_def)

lemma frame_if [frames]: "frame s a \<Longrightarrow> frame s b \<Longrightarrow> frame s (if c then a else b)"
  "frame1 s d \<Longrightarrow> frame1 s e \<Longrightarrow> frame1 s (if c then d else e)"
  by simp_all

lemma frame_get [frames]: "(\<And>x. m = Some x \<Longrightarrow> frame s (k x)) \<Longrightarrow> frame s (Option.bind m k)"
  "(\<And>x. m = Some x \<Longrightarrow> frame1 s (k' x)) \<Longrightarrow> frame1 s (Option.bind m k')"
  by (cases m; simp add: frame_none)+

lemma frame_case [frames]: "frame s a \<Longrightarrow> (\<And>x. v = Some x \<Longrightarrow> frame s (b x)) \<Longrightarrow> frame s (case v of None \<Rightarrow> a | Some x \<Rightarrow> b x)"
  "frame1 s d \<Longrightarrow> (\<And>x. v = Some x \<Longrightarrow> frame1 s (e x)) \<Longrightarrow> frame1 s (case v of None \<Rightarrow> d | Some x \<Rightarrow> e x)"
  by (cases v; simp)+

lemma frameD: "frame s m \<Longrightarrow> m = Some x \<Longrightarrow> kstate.more (fst x) = kstate.more s"
  by (cases x) (simp add: frame_def)

lemma frame_trans: "kstate.more s1 = kstate.more s \<Longrightarrow> frame s1 m \<Longrightarrow> frame s m"
  "kstate.more s1 = kstate.more s \<Longrightarrow> frame1 s1 m' \<Longrightarrow> frame1 s m'"
  by (simp_all add: frame_def frame1_def)

lemma frame_bind:
  "frame s m \<Longrightarrow> (\<And>s' r. frame s' (k s' r)) \<Longrightarrow> frame s (Option.bind m (\<lambda>(s, r). k s r))"
  "frame s m \<Longrightarrow> (\<And>s' r. frame1 s' (k1 s' r)) \<Longrightarrow> frame1 s (Option.bind m (\<lambda>(s, r). k1 s r))"
  "frame1 s m1 \<Longrightarrow> (\<And>s'. frame s' (k2 s')) \<Longrightarrow> frame s (Option.bind m1 k2)"
  "frame1 s m1 \<Longrightarrow> (\<And>s'. frame1 s' (k3 s')) \<Longrightarrow> frame1 s (Option.bind m1 k3)"
  by (cases m; cases m1; fastforce simp: frame_def frame1_def)+

lemma irq_pop_frame: "frame1 s (irq_pop_intr s)" for s :: "('h, 'w, 'a) kss"
  by (auto simp: frame1_def irq_pop_intr_def w_intrd_enable_def Let_def bind_eq_Some_conv split: if_splits)

lemma spinlock_more:
  "spinlock_acquire l s = Some (l', s') \<Longrightarrow> kstate.more s' = kstate.more s"
  "spinlock_release l s = Some (l', s') \<Longrightarrow> kstate.more s' = kstate.more s" for s :: "('h, 'w, 'a) kss"
  using irq_pop_frame [of s]
  by (auto simp: frame1_def spinlock_acquire_def spinlock_release_def Let_def bind_eq_Some_conv split: if_splits)

lemma with_lock_frame:
  fixes s :: "('h, 'w, 'a) kss"
  assumes "\<And>l s. kstate.more (put l s) = kstate.more s" "\<And>s. frame s (body s)"
  shows "frame s (with_lock get put body s)"
proof -
  have "kstate.more s2 = kstate.more (put l s1)" if "body (put l s1) = Some (s2, r)" for l s1 s2 r
    using assms(2) that by (simp add: frame_def)
  then show ?thesis
    using assms(1) by (fastforce simp: frame_def with_lock_def bind_eq_Some_conv dest: spinlock_more)
qed

lemma runqueue_frame:
  "frame s (runqueue_enqueue c p s)" "frame s (runqueue_dequeue_unlocked c s)"
  "frame s (runqueue_count c s)" "frame s (runqueue_is_empty_unlocked c s)" for s :: "('h, 'w, 'a) kss"
  unfolding runqueue_enqueue_def runqueue_enqueue_unlocked_def runqueue_dequeue_unlocked_def runqueue_count_def
    runqueue_count_unlocked_def runqueue_is_empty_unlocked_def Let_def split_beta
  by (intro frames with_lock_frame; simp)+

lemma set_state_frame: "frame s (task_manager_set_state p st s)" for s :: "('h, 'w, 'a) kss"
  unfolding task_manager_set_state_def by (intro frames with_lock_frame; simp)

lemma policy_frame: "frame s (scheduler_policy_pick_next c s)" for s :: "('h, 'w, 'a) kss"
  unfolding scheduler_policy_pick_next_def sched_policy_round_robin_def
  by (intro with_lock_frame frame_bind runqueue_frame frames; simp)

lemma pick_next_loop_frame:
  fixes s :: "('h, 'w, 'a) kss"
  shows "frame s (pick_next_loop c s)"
proof -
  have "kstate.more (fst x) = kstate.more s" if "pick_next_loop c s = Some x" for x
  proof (rule pick_next_loop.raw_induct [OF _ that])
    fix loop c and s :: "('h, 'w, 'a) kss" and x
    assume 1: "\<And>c s x. loop c s = Some x \<Longrightarrow> kstate.more (fst x) = kstate.more s"
      "Option.bind (scheduler_policy_pick_next c s) (\<lambda>(s, nxt). case nxt of None \<Rightarrow> Some (s, cpu_idle (ks_cpus s c))
        | Some task \<Rightarrow> Option.bind (is_task_process_exiting (Some task) s) (\<lambda>exiting.
            if exiting then Option.bind (task_manager_set_state task TASK_DEAD s)
              (\<lambda>(s, _). loop c (set_cpu c ((ks_cpus s c)\<lparr>cpu_needs_cleanup := True\<rparr>) s))
            else Some (s, Some task))) = Some x"
    let ?next = "\<lambda>s nxt. case nxt of None \<Rightarrow> Some (s, cpu_idle (ks_cpus s c))
      | Some task \<Rightarrow> Option.bind (is_task_process_exiting (Some task) s) (\<lambda>exiting.
          if exiting then Option.bind (task_manager_set_state task TASK_DEAD s)
            (\<lambda>(s, _). loop c (set_cpu c ((ks_cpus s c)\<lparr>cpu_needs_cleanup := True\<rparr>) s))
          else Some (s, Some task))"
    have l: "frame s (loop c s)" for s by (auto simp: frame_def dest: 1(1))
    then have l1: "frame s (loop c (set_cpu c v s))" for s v by (rule frame_trans(1) [rotated]) simp
    have d: "frame s (Option.bind (task_manager_set_state task TASK_DEAD s)
        (\<lambda>(s, _). loop c (set_cpu c ((ks_cpus s c)\<lparr>cpu_needs_cleanup := True\<rparr>) s)))" for s task
      by (rule frame_bind(1) [OF set_state_frame]) (rule l1)
    have "frame s (?next s nxt)" for s nxt
      by (intro frame_case(1) frame_get(1) frame_if(1) d) (simp_all add: frame_some)
    then have "frame s (Option.bind (scheduler_policy_pick_next c s) (\<lambda>(s, nxt). ?next s nxt))"
      by (rule frame_bind(1) [OF policy_frame])
    then show "kstate.more (fst x) = kstate.more s" using 1(2) by (cases x) (simp add: frame_def)
  qed
  then show ?thesis by (auto simp: frame_def)
qed

lemma switch_parts_frame:
  "frame s (switch_out s)" "frame s (switch_in s)" "frame1 s (switch_address_space mo a b s)"
  "frame s (context_switch old new lr s)" "frame1 s (resume_at lr s)"
  "frame s (scheduler_cpu_has_runnable_tasks s)" for s :: "('h, 'w, 'a) kss"
proof -
  have "frame s (runqueue_enqueue c p (set_task q t s))" for c p q t by (rule frame_trans(1) [OF _ runqueue_frame(1)]) simp
  then show "frame s (switch_out s)" unfolding switch_out_def by (intro frames; simp)
  show "frame s (switch_in s)" unfolding switch_in_def scheduler_pick_next_def Let_def
    by (rule frame_bind) (intro frames pick_next_loop_frame; simp)+
  show "frame1 s (switch_address_space mo a b s)" unfolding switch_address_space_def by (intro frames; simp)
  have c: "frame1 s (case old of None \<Rightarrow> Some s | Some p \<Rightarrow> Option.bind (ks_tasks s p)
      (\<lambda>t. Some (set_task p (t\<lparr>t_context := \<lparr>ec_regs = ks_regs s, ec_lr = lr, ec_sp = ks_sp s\<rparr>\<rparr>) s)))"
    by (intro frames; simp)
  show "frame s (context_switch old new lr s)" unfolding context_switch_def
    by (rule frame_bind(3) [OF c]) (intro frames; simp)
  show "frame1 s (resume_at lr s)" unfolding resume_at_def by (cases lr) (auto intro!: frames)
  show "frame s (scheduler_cpu_has_runnable_tasks s)" unfolding scheduler_cpu_has_runnable_tasks_def
    by (intro frame_bind runqueue_frame frames; simp)
qed

lemma scheduler_switch_frame: "frame1 s (scheduler_switch mo s)" for s :: "('h, 'w, 'a) kss"
  unfolding scheduler_switch_def Let_def
  apply (rule frame_trans(2) [of "irq_local_disable s"], simp)
  apply (rule frame_bind(2) [OF switch_parts_frame(1)])
  apply (rule frame_bind(2) [OF switch_parts_frame(2)])
  apply (intro frame_if(2))
    apply (intro frames; simp)
   apply (rule frame_bind(4) [OF switch_parts_frame(3)], rule frame_bind(2) [OF switch_parts_frame(4)], rule switch_parts_frame)
  apply (rule frame_bind(2) [OF switch_parts_frame(6)], rule frame_get(2))
  apply (rule frame_bind(4) [OF switch_parts_frame(3)], rule frame_bind(2) [OF switch_parts_frame(4)], rule switch_parts_frame)
  done


lemma waitqueue_dequeue_frame: "frame s (waitqueue_dequeue_unlocked q s)" for s :: "('h, 'w, 'a) kss"
  unfolding waitqueue_dequeue_unlocked_def Let_def split_beta by (intro frames; simp)

lemma scheduler_enqueue_frame: "frame s (scheduler_enqueue p s)" for s :: "('h, 'w, 'a) kss"
proof -
  have "frame s (runqueue_enqueue c p (set_task q t s))" for c q t by (rule frame_trans(1) [OF _ runqueue_frame(1)]) simp
  then show ?thesis unfolding scheduler_enqueue_def Let_def by (intro frames)
qed

lemma wake_all_loop_frame: "frame s (wake_all_loop q s)" for s :: "('h, 'w, 'a) kss"
proof -
  have "kstate.more (fst x) = kstate.more s" if "wake_all_loop q s = Some x" for x
  proof (rule wake_all_loop.raw_induct [OF _ that])
    fix loop q and s :: "('h, 'w, 'a) kss" and x
    assume 1: "\<And>q s x. loop q s = Some x \<Longrightarrow> kstate.more (fst x) = kstate.more s"
      "(do {
         (s, blocked) \<leftarrow> waitqueue_dequeue_unlocked q s;
         (case blocked of None \<Rightarrow> Some (s, ())
          | Some task \<Rightarrow> do {
              t \<leftarrow> ks_tasks s task;
              ASSERT (t_state t = TASK_BLOCKED);
              ASSERT (t_waiting_on t = None \<or> t_waiting_on t = Some q);
              let s = set_task task (t\<lparr>t_state := TASK_READY\<rparr>) s;
              (s, _) \<leftarrow> scheduler_enqueue task s;
              loop q s
            })
       }) = Some x"
    let ?next = "\<lambda>s blocked. case blocked of None \<Rightarrow> Some (s, ())
      | Some task \<Rightarrow> do {
          t \<leftarrow> ks_tasks s task;
          ASSERT (t_state t = TASK_BLOCKED);
          ASSERT (t_waiting_on t = None \<or> t_waiting_on t = Some q);
          (s, _) \<leftarrow> scheduler_enqueue task (set_task task (t\<lparr>t_state := TASK_READY\<rparr>) s);
          loop q s
        }"
    have l: "frame s (loop q s)" for s by (auto simp: frame_def dest: 1(1))
    have e: "frame s (Option.bind (scheduler_enqueue task (set_task task t s)) (\<lambda>(s, _). loop q s))" for s task t
      by (rule frame_trans(1) [OF _ frame_bind(1) [OF scheduler_enqueue_frame l]]) simp
    have "frame s (?next s blocked)" for s blocked
      by (intro frame_case(1) frame_get(1) e) (simp add: frame_some)
    then have "frame s (Option.bind (waitqueue_dequeue_unlocked q s) (\<lambda>(s, blocked). ?next s blocked))"
      by (rule frame_bind(1) [OF waitqueue_dequeue_frame])
    then show "kstate.more (fst x) = kstate.more s" by (rule frameD [OF _ 1(2) [unfolded Let_def]])
  qed
  then show ?thesis by (auto simp: frame_def)
qed

end
