(* ===== verification/SyncProps.thy ===== *)
theory SyncProps
  imports Sync SyncLock SchedFrame
begin

text \<open>
  Mutexes and semaphores keep the promises of \<open>SyncLock\<close>. The lemmas give each operation
  as an equation on a state whose locks are free, then interpret the locales on the operations of
  \<open>Sync\<close>. The runs interleave whole operations: the lock is a spinlock, so that what happens
  under it is not interrupted, and \<open>rely\<close> covers everything else, switches and interrupts
  included, as long as it keeps the scheduler's invariant and leaves the object alone.
\<close>

section \<open>The waiters of an object as a list\<close>

primrec il_walk :: "'a inodes \<Rightarrow> nat \<Rightarrow> 'a option \<Rightarrow> 'a list" where
  "il_walk h 0 p = []"
| "il_walk h (Suc n) p = (case p of None \<Rightarrow> [] | Some x \<Rightarrow> x # il_walk h n (inext (h x)))"

lemma waiters_walk_links: "links h pr xs nx \<Longrightarrow> il_walk h (length xs) (hd_ptr xs) = xs"
  by (induction xs arbitrary: pr) (auto simp: hd_ptr_def split: list.splits)

definition waiting_on :: "wq_ref \<Rightarrow> ('h, 'w, 'a) kss \<Rightarrow> u64 list" where
  "waiting_on q s = il_walk (ks_wait_node s) (unat (il_count (waiters q s))) (il_head (waiters q s))"

lemma waiting_on_rep: "sched_inv rqs wqs s \<Longrightarrow> waiting_on q s = wqs q"
  using ils_repD [OF sched_inv_reps(2), of rqs wqs s q]
  by (auto simp: waiting_on_def il_rep_def unsigned_of_nat take_bit_nat_eq_self intro: waiters_walk_links)

section \<open>States around the objects\<close>

lemma set_mutex_simps [simp]:
  "ks_tasks (set_mutex m v s) = ks_tasks s" "ks_wait_node (set_mutex m v s) = ks_wait_node s"
  "ks_runnable_node (set_mutex m v s) = ks_runnable_node s" "ks_cpus (set_mutex m v s) = ks_cpus s"
  "ks_wqs (set_mutex m v s) = ks_wqs s" "ks_task_manager (set_mutex m v s) = ks_task_manager s"
  "cx_ok (set_mutex m v s) = cx_ok s" "cx_cpu (set_mutex m v s) = cx_cpu s" "this_cpu (set_mutex m v s) = this_cpu s"
  "wq_get q (set_mutex m v s) = wq_get q s" "sy_mutexes (set_mutex m v s) = (sy_mutexes s)(m := v)"
  "set_task p t (set_mutex m v s) = set_mutex m v (set_task p t s)"
  "set_waiters q il h (set_mutex m v s) = set_mutex m v (set_waiters q il h s)"
  "set_mutex m v (irq_push_intr s) = irq_push_intr (set_mutex m v s)"
  "set_mutex m v (cx_sec s) = cx_sec (set_mutex m v s)" "held_by (set_mutex m v s) = held_by s"
  "set_mutex m v (set_mutex m v' s) = set_mutex m v s"
  for s :: "('h, 'w, 'a) sys"
  by (simp_all add: set_mutex_def cx_ok_def this_cpu_def slot_defs set_task_def set_waiters_def set_wq_def
      irq_push_as_put cx_put_def cx_sec_def r_intrd_enabled_def held_by_def)

lemma sy_mutexes_simps [simp]:
  "sy_mutexes (set_task p t s) = sy_mutexes s" "sy_mutexes (set_waiters q il h s) = sy_mutexes s"
  "sy_mutexes (irq_push_intr s) = sy_mutexes s" "sy_mutexes (cx_sec s) = sy_mutexes s"
  "sy_mutexes (set_runnables c il h s) = sy_mutexes s" "sy_mutexes (set_cpu c u s) = sy_mutexes s"
  "sy_mutexes (set_semaphore m' v' s) = sy_mutexes s"
  for s :: "('h, 'w, 'a) sys"
  by (simp_all add: set_task_def set_waiters_def set_wq_def irq_push_as_put cx_put_def cx_sec_def set_runnables_def
      set_cpu_def set_semaphore_def)

lemma set_semaphore_simps [simp]:
  "ks_tasks (set_semaphore m v s) = ks_tasks s" "ks_wait_node (set_semaphore m v s) = ks_wait_node s"
  "ks_runnable_node (set_semaphore m v s) = ks_runnable_node s" "ks_cpus (set_semaphore m v s) = ks_cpus s"
  "ks_wqs (set_semaphore m v s) = ks_wqs s" "ks_task_manager (set_semaphore m v s) = ks_task_manager s"
  "cx_ok (set_semaphore m v s) = cx_ok s" "cx_cpu (set_semaphore m v s) = cx_cpu s" "this_cpu (set_semaphore m v s) = this_cpu s"
  "wq_get q (set_semaphore m v s) = wq_get q s" "sy_semaphores (set_semaphore m v s) = (sy_semaphores s)(m := v)"
  "set_task p t (set_semaphore m v s) = set_semaphore m v (set_task p t s)"
  "set_waiters q il h (set_semaphore m v s) = set_semaphore m v (set_waiters q il h s)"
  "set_semaphore m v (irq_push_intr s) = irq_push_intr (set_semaphore m v s)"
  "set_semaphore m v (cx_sec s) = cx_sec (set_semaphore m v s)" "held_by (set_semaphore m v s) = held_by s"
  "set_semaphore m v (set_semaphore m v' s) = set_semaphore m v s"
  for s :: "('h, 'w, 'a) sys"
  by (simp_all add: set_semaphore_def cx_ok_def this_cpu_def slot_defs set_task_def set_waiters_def set_wq_def
      irq_push_as_put cx_put_def cx_sec_def r_intrd_enabled_def held_by_def)

lemma sy_semaphores_simps [simp]:
  "sy_semaphores (set_task p t s) = sy_semaphores s" "sy_semaphores (set_waiters q il h s) = sy_semaphores s"
  "sy_semaphores (irq_push_intr s) = sy_semaphores s" "sy_semaphores (cx_sec s) = sy_semaphores s"
  "sy_semaphores (set_runnables c il h s) = sy_semaphores s" "sy_semaphores (set_cpu c u s) = sy_semaphores s"
  "sy_semaphores (set_mutex m' v' s) = sy_semaphores s"
  for s :: "('h, 'w, 'a) sys"
  by (simp_all add: set_task_def set_waiters_def set_wq_def irq_push_as_put cx_put_def cx_sec_def set_runnables_def
      set_cpu_def set_mutex_def)

lemma sched_inv_eq:
  assumes "ks_tasks s' = ks_tasks s" "ks_runnable_node s' = ks_runnable_node s" "ks_wait_node s' = ks_wait_node s"
    "ks_cpus s' = ks_cpus s" "ks_wqs s' = ks_wqs s" "ks_task_manager s' = ks_task_manager s" "cx_ok s' = cx_ok s"
  shows "sched_inv rqs wqs s' = sched_inv rqs wqs s"
proof
  show "sched_inv rqs wqs s'" if "sched_inv rqs wqs s"
    using sched_inv_free(1) [OF that] assms by (intro sched_inv_cong [OF assms(1-6) _ that]) simp
  show "sched_inv rqs wqs s" if "sched_inv rqs wqs s'"
    using sched_inv_free(1) [OF that] assms
    by (intro sched_inv_cong [OF assms(1-6) [symmetric] _ that]) simp
qed

lemma sync_inv [simp]: "sched_inv rqs wqs (set_mutex m v s) = sched_inv rqs wqs s"
  "sched_inv rqs wqs (set_semaphore m w s) = sched_inv rqs wqs s"
  by (rule sched_inv_eq; simp)+

text \<open>Task \<open>p\<close> runs on the processor and waits for nothing.\<close>

definition runs :: "('h, 'w, 'a) kss \<Rightarrow> u64 \<Rightarrow> bool" where
  "runs s p \<longleftrightarrow> cpu_current (this_cpu s) = Some p \<and> (\<forall>d. p \<notin> special (ks_cpus s d)) \<and>
     (\<exists>t. ks_tasks s p = Some t \<and> t_state t = TASK_RUNNING \<and> t_waiting_on t = None \<and> t_cpu t = Some (cx_cpu s))"

text \<open>The part of \<^verbatim>\<open>scheduler_block_current\<close> before the switch.\<close>

definition block_mark :: "('h, 'w, 'a) kss \<Rightarrow> ('h, 'w, 'a) kss option" where
  "block_mark s = do {
     current \<leftarrow> cpu_current (this_cpu s);
     ASSERT (Some current \<noteq> cpu_idle (this_cpu s));
     t \<leftarrow> ks_tasks s current;
     ASSERT (t_cpu t = Some (cx_cpu s));
     ASSERT (t_state t = TASK_RUNNING);
     ASSERT (t_waiting_on t \<noteq> None);
     Some (set_task current (t\<lparr>t_state := TASK_BLOCKED\<rparr>) s)
   }"

lemma scheduler_block_current_mark: "scheduler_block_current mo s = Option.bind (block_mark s) (scheduler_switch mo)"
  by (simp add: scheduler_block_current_def block_mark_def ASSERT_def split: option.splits cong: option.case_cong)

lemma block_mark_sec [simp]: "block_mark (cx_sec s) = map_option cx_sec (block_mark s)"
proof (cases "cpu_current (this_cpu s)")
  case (Some p)
  then show ?thesis by (cases "ks_tasks s p") (simp_all add: block_mark_def)
qed (simp add: block_mark_def)

lemma set_waiters_tm [simp]: "ks_task_manager (set_waiters q il h s) = ks_task_manager s"
  by (simp add: set_waiters_def set_wq_def)

text \<open>What one queue of waiters of the object at \<open>m\<close> needs.\<close>

definition waiters_inv :: "u64 \<Rightarrow> ('h, 'w, 'a) kss \<Rightarrow> bool" where
  "waiters_inv m s \<longleftrightarrow> (\<exists>rqs wqs. sched_inv rqs wqs s \<and> all_blocked (wqs (WaitersOf m)) s)"

lemma waiters_inv_sync [simp]: "waiters_inv m (set_mutex m' v s) = waiters_inv m s"
  "waiters_inv m (set_semaphore m' w s) = waiters_inv m s"
  "waiting_on q (set_mutex m' v s) = waiting_on q s" "waiting_on q (set_semaphore m' w s) = waiting_on q s"
  for s :: "('h, 'w, 'a) sys"
  by (simp_all add: waiters_inv_def all_blocked_def waiting_on_def)

lemma waiters_inv_sec [simp]: "waiters_inv m (cx_sec s) = waiters_inv m s" "waiting_on q (cx_sec s) = waiting_on q s"
  by (simp_all add: waiters_inv_def all_blocked_def waiting_on_def)

lemma runs_not_waiting: "waiters_inv m s \<Longrightarrow> runs s p \<Longrightarrow> p \<notin> set (waiting_on (WaitersOf m) s)"
  using waiting_on_rep sched_inv_waiting unfolding waiters_inv_def runs_def by (metis option.distinct(1) option.inject)

text \<open>Joining the waiters, up to the switch.\<close>

lemma wait_enqueue:
  assumes "waiters_inv m s" "runs s p" "ks_tasks s p = Some t"
  defines "s1 \<equiv> set_task p (t\<lparr>t_waiting_on := Some (WaitersOf m)\<rparr>) (wq_insert (WaitersOf m) p s)"
  shows "block_mark s1 = Some (set_task p (t\<lparr>t_waiting_on := Some (WaitersOf m), t_state := TASK_BLOCKED\<rparr>) s1) \<and>
    waiters_inv m (set_task p (t\<lparr>t_waiting_on := Some (WaitersOf m), t_state := TASK_BLOCKED\<rparr>) s1) \<and>
    waiting_on (WaitersOf m) (set_task p (t\<lparr>t_waiting_on := Some (WaitersOf m), t_state := TASK_BLOCKED\<rparr>) s1) =
      waiting_on (WaitersOf m) s @ [p]"
proof -
  let ?q = "WaitersOf m" and ?s2 = "set_task p (t\<lparr>t_waiting_on := Some (WaitersOf m), t_state := TASK_BLOCKED\<rparr>) s1"
  obtain rqs wqs where inv: "sched_inv rqs wqs s" and b: "all_blocked (wqs ?q) s" using assms(1) by (auto simp: waiters_inv_def)
  have t: "t_state t = TASK_RUNNING" "t_waiting_on t = None" "t_cpu t = Some (cx_cpu s)" "cpu_current (this_cpu s) = Some p"
    "\<forall>d. p \<notin> special (ks_cpus s d)" using assms(2,3) by (auto simp: runs_def)
  have inv1: "sched_inv rqs (wqs(?q := wqs ?q @ [p])) s1"
    unfolding s1_def by (rule inv_wait [OF inv assms(3) t(2) _ t(5)]) (simp add: t(1))
  have f: "ks_tasks s1 = (ks_tasks s)(p \<mapsto> t\<lparr>t_waiting_on := Some ?q\<rparr>)" "this_cpu s1 = this_cpu s" "cx_cpu s1 = cx_cpu s"
    by (simp_all add: s1_def wq_insert_def split_beta this_cpu_def)
  have "Some p \<noteq> cpu_idle (this_cpu s)" using t(5) by (auto simp: special_def this_cpu_def)
  then have "block_mark s1 = Some ?s2" using t f by (simp add: block_mark_def)
  moreover have nr: "p \<notin> set (rqs c)" for c using blocked_not_queued [OF inv assms(3)] t(1) by simp
  have inv2: "sched_inv rqs (wqs(?q := wqs ?q @ [p])) ?s2"
    by (rule inv_set_task [OF inv1, where t = "t\<lparr>t_waiting_on := Some ?q\<rparr>"]) (use f nr in auto)
  moreover have "all_blocked ((wqs(?q := wqs ?q @ [p])) ?q) ?s2" using b f t by (auto simp: all_blocked_def)
  ultimately have "block_mark s1 = Some ?s2" "waiters_inv m ?s2" unfolding waiters_inv_def by blast+
  moreover have "waiting_on ?q ?s2 = waiting_on ?q s @ [p]"
    using waiting_on_rep [OF inv2, of ?q] waiting_on_rep [OF inv, of ?q] by simp
  ultimately show ?thesis by simp
qed

text \<open>Taking the first waiter out and making it ready.\<close>

lemma wait_dequeue_empty:
  assumes "waiters_inv m s" "waiting_on (WaitersOf m) s = []"
  shows "wq_pop (WaitersOf m) s = (s, None)"
  using assms dequeue_unlocked_empty(2) waiting_on_rep unfolding waiters_inv_def by metis

lemma wait_dequeue:
  assumes "waiters_inv m s" "waiting_on (WaitersOf m) s = p # xs"
  obtains t il h where "ks_tasks s p = Some t" "wq_pop (WaitersOf m) s = (set_waiters (WaitersOf m) il h s, Some p)"
    "\<And>s1 :: ('h, 'w, 'a) kss. ks_tasks s1 = (ks_tasks s)(p \<mapsto> t\<lparr>t_waiting_on := None\<rparr>) \<Longrightarrow> ks_runnable_node s1 = ks_runnable_node s \<Longrightarrow>
       ks_wait_node s1 = h \<Longrightarrow> ks_cpus s1 = ks_cpus s \<Longrightarrow> ks_wqs s1 = ks_wqs (set_waiters (WaitersOf m) il h s) \<Longrightarrow>
       ks_task_manager s1 = ks_task_manager s \<Longrightarrow> cx_ok s1 \<Longrightarrow>
       \<exists>s2. scheduler_wake_blocked (Some p) s1 = Some (s2, ()) \<and> waiters_inv m s2 \<and> waiting_on (WaitersOf m) s2 = xs \<and>
         (\<exists>c il h t'. s2 = cx_sec (set_runnables c il h (set_task p t' s1)))"
proof -
  let ?q = "WaitersOf m"
  obtain rqs wqs where inv: "sched_inv rqs wqs s" and b: "all_blocked (wqs ?q) s" using assms(1) by (auto simp: waiters_inv_def)
  have xs: "wqs ?q = p # xs" using waiting_on_rep [OF inv] assms(2) by simp
  obtain t il h where d: "ks_tasks s p = Some t" "wq_pop ?q s = (set_waiters ?q il h s, Some p)"
    "sched_inv rqs (wqs(?q := xs)) (set_task p (t\<lparr>t_waiting_on := None\<rparr>) (set_waiters ?q il h s))"
    "t_waiting_on t = Some ?q"
    by (rule dequeue_one [OF inv xs]) blast
  obtain c where c: "t_state t = TASK_BLOCKED" "t_cpu t = Some c" using b xs d(1) by (auto simp: all_blocked_def)
  have fin: "\<exists>s2. scheduler_wake_blocked (Some p) s1 = Some (s2, ()) \<and> waiters_inv m s2 \<and> waiting_on ?q s2 = xs \<and>
      (\<exists>c il h t'. s2 = cx_sec (set_runnables c il h (set_task p t' s1)))"
    if e: "ks_tasks s1 = (ks_tasks s)(p \<mapsto> t\<lparr>t_waiting_on := None\<rparr>)" "ks_runnable_node s1 = ks_runnable_node s"
      "ks_wait_node s1 = h" "ks_cpus s1 = ks_cpus s" "ks_wqs s1 = ks_wqs (set_waiters ?q il h s)"
      "ks_task_manager s1 = ks_task_manager s" "cx_ok s1" for s1 :: "('h, 'w, 'a) kss"
  proof -
    let ?t = "t\<lparr>t_waiting_on := None\<rparr>" and ?s2 = "make_ready p (t\<lparr>t_waiting_on := None\<rparr>) c s1"
    have inv1: "sched_inv rqs (wqs(?q := xs)) s1"
      by (rule sched_inv_cong [OF _ _ _ _ _ _ e(7) d(3)]) (use e in \<open>simp_all add: set_waiters_def set_wq_def set_task_def\<close>)
    have nr: "\<forall>d. p \<notin> set (rqs d)" using blocked_not_queued [OF inv d(1)] c by simp
    have ns: "\<forall>d. p \<notin> special (ks_cpus s1 d)" using waiting_not_special [OF inv, of p ?q] xs e(4) by simp
    have "scheduler_wake_blocked (Some p) s1 = Some (cx_sec ?s2, ())"
      by (rule scheduler_wake_blocked_eq [OF e(7) sched_inv_free(2) [OF inv1]]) (use e(1) c in simp_all)
    moreover have inv2: "sched_inv (rqs(c := rqs c @ [p])) (wqs(?q := xs)) ?s2"
      by (rule inv_make_ready [OF inv1 _ _ _ nr ns]) (use e(1) c in simp_all)
    moreover have "p \<notin> set xs" using ils_rep_distinct [OF sched_inv_reps(2) [OF inv], of ?q] xs by simp
    then have "all_blocked ((wqs(?q := xs)) ?q) ?s2" using b xs e(1) by (auto simp: all_blocked_def)
    moreover have "\<exists>c il h t'. cx_sec ?s2 = cx_sec (set_runnables c il h (set_task p t' s1))"
      by (auto simp: make_ready_def rq_insert_def split_beta)
    ultimately have "scheduler_wake_blocked (Some p) s1 = Some (cx_sec ?s2, ())" "waiters_inv m ?s2"
      "\<exists>c il h t'. cx_sec ?s2 = cx_sec (set_runnables c il h (set_task p t' s1))"
      unfolding waiters_inv_def by blast+
    moreover have "waiting_on ?q ?s2 = xs" using waiting_on_rep [OF inv2, of ?q] by simp
    ultimately show ?thesis by (intro exI [of _ "cx_sec ?s2"]) simp
  qed
  show thesis by (rule that [OF d(1,2)]) (rule fin)
qed


section \<open>Mutexes\<close>

definition mutex_inv :: "u64 \<Rightarrow> ('h, 'w, 'a) sys \<Rightarrow> bool" where
  "mutex_inv m s \<longleftrightarrow> waiters_inv m s \<and> mt_waiters (sy_mutexes s m) = WaitersOf m \<and> mt_lock (sy_mutexes s m) = spinlock_init"

text \<open>One attempt: a successful or waiting round of \<^verbatim>\<open>mutex_acquire\<close>, up to the switch.\<close>

definition mutex_enter :: "u64 \<Rightarrow> u64 \<Rightarrow> ('h, 'w, 'a) sys \<Rightarrow> ('h, 'w, 'a) sys \<Rightarrow> bool \<Rightarrow> bool" where
  "mutex_enter m p s s' got \<longleftrightarrow> runs s p \<and>
     ((\<exists>s1. with_lock (mt_get m) (mt_put m) (mutex_take_or_wait m) s = Some (s1, got) \<and>
         (if got then s' = s1 else block_mark s1 = Some s')) \<or>
      (got \<and> mutex_try_acquire m s = Some (s', True)))"

definition mutex_leave :: "u64 \<Rightarrow> u64 \<Rightarrow> ('h, 'w, 'a) sys \<Rightarrow> ('h, 'w, 'a) sys \<Rightarrow> bool" where
  "mutex_leave m p s s' \<longleftrightarrow> runs s p \<and> mutex_release m s = Some (s', ())"

definition mutex_rely :: "u64 \<Rightarrow> ('h, 'w, 'a) sys \<Rightarrow> ('h, 'w, 'a) sys \<Rightarrow> bool" where
  "mutex_rely m s s' \<longleftrightarrow> mutex_inv m s' \<and> mt_owner (sy_mutexes s' m) = mt_owner (sy_mutexes s m) \<and>
     waiting_on (WaitersOf m) s' = waiting_on (WaitersOf m) s"

lemma mutex_acquire_enter:
  assumes "runs s p"
  shows "mutex_acquire mo m s = Some (s', True) \<Longrightarrow> mutex_enter m p s s' True"
    and "mutex_enter m p s s' False \<Longrightarrow> mutex_acquire mo m s = map_option (\<lambda>s. (s, False)) (scheduler_switch mo s')"
proof -
  show "mutex_acquire mo m s = Some (s', True) \<Longrightarrow> mutex_enter m p s s' True"
    using assms by (auto simp: mutex_acquire_def mutex_enter_def bind_eq_Some_conv split: if_splits prod.splits)
  assume "mutex_enter m p s s' False"
  then obtain s1 where "with_lock (mt_get m) (mt_put m) (mutex_take_or_wait m) s = Some (s1, False)" "block_mark s1 = Some s'"
    by (auto simp: mutex_enter_def)
  then show "mutex_acquire mo m s = map_option (\<lambda>s. (s, False)) (scheduler_switch mo s')"
    by (simp add: mutex_acquire_def scheduler_block_current_mark) (cases "scheduler_switch mo s'"; simp)
qed

lemma mt_put_as: "mt_put m l s = set_mutex m ((sy_mutexes s m)\<lparr>mt_lock := l\<rparr>) s"
  by (simp add: mt_put_def)

lemma mt_lock_same: "mt_lock v = l \<Longrightarrow> v\<lparr>mt_lock := l\<rparr> = v"
  by (cases v) simp

lemma set_mutex_same [simp]: "sy_mutexes s m = v \<Longrightarrow> set_mutex m v s = s"
  by (auto simp: set_mutex_def)

lemma mutex_section:
  assumes "cx_ok s" "mt_lock (sy_mutexes s m) = spinlock_init"
    and "body (irq_push_intr (set_mutex m ((sy_mutexes s m)\<lparr>mt_lock := held_by s\<rparr>) s)) = Some (irq_push_intr y, r)"
    and "cx_ok y" "mt_lock (sy_mutexes y m) = held_by s" "cx_cpu y = cx_cpu s"
  shows "with_lock (mt_get m) (mt_put m) body s = Some (cx_sec (set_mutex m ((sy_mutexes y m)\<lparr>mt_lock := spinlock_init\<rparr>) y), r)"
  using mtl.section_eq [of s m body y r] assms by (simp add: mt_get_def mt_put_as)

lemma mutex_take_eq:
  assumes "mutex_inv m s" "runs s p" "mt_owner (sy_mutexes s m) = None"
  defines "s' \<equiv> cx_sec (set_mutex m ((sy_mutexes s m)\<lparr>mt_owner := Some p\<rparr>) s)"
  shows "with_lock (mt_get m) (mt_put m) (mutex_take_or_wait m) s = Some (s', True)" "mutex_try_acquire m s = Some (s', True)"
proof -
  have c: "cx_ok s" "mt_lock (sy_mutexes s m) = spinlock_init" "cpu_current (this_cpu s) = Some p"
    using assms by (auto simp: mutex_inv_def waiters_inv_def runs_def dest: sched_inv_free)
  have e: "(sy_mutexes s m)\<lparr>mt_owner := Some p, mt_lock := spinlock_init\<rparr> = (sy_mutexes s m)\<lparr>mt_owner := Some p\<rparr>"
    using c(2) by (intro mt_lock_same) simp
  show "with_lock (mt_get m) (mt_put m) (mutex_take_or_wait m) s = Some (s', True)"
    using mutex_section [OF c(1,2), of "mutex_take_or_wait m" "set_mutex m ((sy_mutexes s m)\<lparr>mt_lock := held_by s, mt_owner := Some p\<rparr>) s"]
      c assms(3) by (simp add: mutex_take_or_wait_def s'_def e)
  show "mutex_try_acquire m s = Some (s', True)"
    unfolding mutex_try_acquire_def
    by (subst mutex_section [OF c(1,2), where y = "set_mutex m ((sy_mutexes s m)\<lparr>mt_lock := held_by s, mt_owner := Some p\<rparr>) s"])
      (use c assms(3) in \<open>simp_all add: s'_def e\<close>)
qed

lemma mutex_wait_eq:
  assumes "mutex_inv m s" "runs s p" "mt_owner (sy_mutexes s m) \<noteq> None" "ks_tasks s p = Some t"
  shows "with_lock (mt_get m) (mt_put m) (mutex_take_or_wait m) s =
    Some (cx_sec (set_task p (t\<lparr>t_waiting_on := Some (WaitersOf m)\<rparr>) (wq_insert (WaitersOf m) p s)), False)"
    "mutex_try_acquire m s = Some (cx_sec s, False)"
proof -
  let ?q = "WaitersOf m"
  let ?h = "set_mutex m ((sy_mutexes s m)\<lparr>mt_lock := held_by s\<rparr>) s"
  have c: "cx_ok s" "mt_lock (sy_mutexes s m) = spinlock_init" "cpu_current (this_cpu s) = Some p" "t_state t = TASK_RUNNING"
    "mt_waiters (sy_mutexes s m) = ?q" "wq_free ?q s"
    using assms by (auto simp: mutex_inv_def waiters_inv_def runs_def dest: sched_inv_free)
  note e = mt_lock_same [OF c(2)]
  have i: "wq_insert ?q p (irq_push_intr ?h) = irq_push_intr (set_mutex m ((sy_mutexes s m)\<lparr>mt_lock := held_by s\<rparr>) (wq_insert ?q p s))"
    by (simp add: wq_insert_def split_beta)
  have "waitqueue_enqueue ?q p (irq_push_intr ?h) =
      Some (cx_sec (set_task p (t\<lparr>t_waiting_on := Some ?q\<rparr>) (wq_insert ?q p (irq_push_intr ?h))), ())"
    by (rule waitqueue_enqueue_eq) (use c assms(4) in \<open>simp_all add: wq_free_def\<close>)
  then have b: "mutex_take_or_wait m (irq_push_intr ?h) =
      Some (irq_push_intr (set_mutex m ((sy_mutexes s m)\<lparr>mt_lock := held_by s\<rparr>) (set_task p (t\<lparr>t_waiting_on := Some ?q\<rparr>) (wq_insert ?q p s))), False)"
    using c assms(3) by (auto simp: mutex_take_or_wait_def Let_def i wq_insert_def split_beta)
  show "with_lock (mt_get m) (mt_put m) (mutex_take_or_wait m) s =
    Some (cx_sec (set_task p (t\<lparr>t_waiting_on := Some ?q\<rparr>) (wq_insert ?q p s)), False)"
    using mutex_section [OF c(1,2), where body = "mutex_take_or_wait m", OF b] c e by (simp add: wq_insert_def split_beta)
  show "mutex_try_acquire m s = Some (cx_sec s, False)"
    unfolding mutex_try_acquire_def
    by (subst mutex_section [OF c(1,2), where y = ?h]) (use c assms(3) in \<open>auto simp: e\<close>)
qed


lemma mutex_release_ok:
  fixes s :: "('h, 'w, 'a) sys"
  assumes "mutex_inv m s" "runs s p" "mt_owner (sy_mutexes s m) = Some p"
  shows "\<exists>s'. mutex_release m s = Some (s', ()) \<and> mutex_inv m s' \<and> mt_owner (sy_mutexes s' m) = None \<and>
    waiting_on (WaitersOf m) s' = tl (waiting_on (WaitersOf m) s)"
proof -
  let ?q = "WaitersOf m" and ?v = "(sy_mutexes s m)\<lparr>mt_owner := None\<rparr>"
  let ?h = "set_mutex m ((sy_mutexes s m)\<lparr>mt_lock := held_by s\<rparr>) s"
  let ?g = "set_mutex m ((sy_mutexes s m)\<lparr>mt_lock := held_by s, mt_owner := None\<rparr>) s"
  have w: "waiters_inv m s" and c: "cx_ok s" "mt_lock (sy_mutexes s m) = spinlock_init" "cpu_current (this_cpu s) = Some p"
    "mt_waiters (sy_mutexes s m) = ?q" "wq_free ?q s"
    using assms by (auto simp: mutex_inv_def waiters_inv_def runs_def dest: sched_inv_free)
  have b: "mutex_give m (irq_push_intr ?h) = waitqueue_dequeue ?q (irq_push_intr ?g)"
    using c assms(3) by (simp add: mutex_give_def)
  have cg: "cx_ok (irq_push_intr ?g)" "wq_free ?q (irq_push_intr ?g)" using c by (simp_all add: wq_free_def)
  have e: "(sy_mutexes s m)\<lparr>mt_owner := None, mt_lock := spinlock_init\<rparr> = ?v" using c(2) by (intro mt_lock_same) simp
  show ?thesis
  proof (cases "waiting_on ?q s")
    case Nil
    have "wq_pop ?q (irq_push_intr ?g) = (irq_push_intr ?g, None)"
      using wait_dequeue_empty [OF w Nil] by (auto simp: wq_pop_def split_beta set_waiters_id)
    then have "mutex_give m (irq_push_intr ?h) = Some (irq_push_intr ?g, None)"
      using waitqueue_dequeue_eq(2) [OF cg] c(1) by (simp add: b)
    then have "with_lock (mt_get m) (mt_put m) (mutex_give m) s = Some (cx_sec (set_mutex m ?v s), None)"
      by (subst mutex_section [OF c(1,2), where y = ?g]) (use c in \<open>simp_all add: e\<close>)
    then show ?thesis using w c Nil by (simp add: mutex_release_def mutex_inv_def)
  next
    case (Cons x xs)
    obtain t il h where d: "ks_tasks s x = Some t" "wq_pop ?q s = (set_waiters ?q il h s, Some x)"
      and k: "\<And>s1 :: ('h, 'w, 'a) sys. ks_tasks s1 = (ks_tasks s)(x \<mapsto> t\<lparr>t_waiting_on := None\<rparr>) \<Longrightarrow> ks_runnable_node s1 = ks_runnable_node s \<Longrightarrow>
       ks_wait_node s1 = h \<Longrightarrow> ks_cpus s1 = ks_cpus s \<Longrightarrow> ks_wqs s1 = ks_wqs (set_waiters ?q il h s) \<Longrightarrow>
       ks_task_manager s1 = ks_task_manager s \<Longrightarrow> cx_ok s1 \<Longrightarrow>
       \<exists>s2. scheduler_wake_blocked (Some x) s1 = Some (s2, ()) \<and> waiters_inv m s2 \<and> waiting_on ?q s2 = xs \<and>
         (\<exists>c il h t'. s2 = cx_sec (set_runnables c il h (set_task x t' s1)))"
      by (rule wait_dequeue [OF w Cons]) blast
    let ?y = "set_task x (t\<lparr>t_waiting_on := None\<rparr>) (set_waiters ?q il h ?g)"
    have "wq_pop ?q (irq_push_intr ?g) = (irq_push_intr (set_waiters ?q il h ?g), Some x)"
      using d(2) by (auto simp: wq_pop_def split_beta)
    then have "mutex_give m (irq_push_intr ?h) = Some (irq_push_intr ?y, Some x)"
      using waitqueue_dequeue_eq(1) [OF cg] d(1) c(1) by (simp add: b)
    then have l: "with_lock (mt_get m) (mt_put m) (mutex_give m) s =
        Some (cx_sec (set_mutex m ?v (set_task x (t\<lparr>t_waiting_on := None\<rparr>) (set_waiters ?q il h s))), Some x)"
      by (subst mutex_section [OF c(1,2), where y = ?y]) (use c in \<open>simp_all add: e\<close>)
    let ?z = "cx_sec (set_mutex m ?v (set_task x (t\<lparr>t_waiting_on := None\<rparr>) (set_waiters ?q il h s)))"
    have "\<exists>s2. scheduler_wake_blocked (Some x) ?z = Some (s2, ()) \<and> waiters_inv m s2 \<and> waiting_on ?q s2 = xs \<and>
        (\<exists>c il h t'. s2 = cx_sec (set_runnables c il h (set_task x t' ?z)))"
      by (rule k) (use c(1) in simp_all)
    then obtain s2 where "scheduler_wake_blocked (Some x) ?z = Some (s2, ())" "waiters_inv m s2" "waiting_on ?q s2 = xs"
      "sy_mutexes s2 = sy_mutexes ?z" by auto
    then show ?thesis using l c Cons by (intro exI [of _ s2]) (simp add: mutex_release_def mutex_inv_def)
  qed
qed

lemma mutex_release_not_owner:
  assumes "mt_owner (sy_mutexes s m) \<noteq> cpu_current (this_cpu s) \<or> mt_owner (sy_mutexes s m) = None"
  shows "mutex_release m s = None"
proof -
  have "with_lock (mt_get m) (mt_put m) (mutex_give m) s = None"
    by (rule mtl.section_none) (use assms in \<open>auto simp: mutex_give_def mt_put_as Let_def\<close>)
  then show ?thesis by (simp add: mutex_release_def)
qed

text \<open>The mutex as a lock with one unit that knows its owner.\<close>

lemma mutex_enter_laws:
  assumes "mutex_inv m s" "mutex_enter m p s s' got"
  shows "mutex_inv m s'" "p \<notin> set (waiting_on (WaitersOf m) s)" "got \<longleftrightarrow> mt_owner (sy_mutexes s m) = None"
    "mt_owner (sy_mutexes s' m) = (if got then Some p else mt_owner (sy_mutexes s m))"
    "waiting_on (WaitersOf m) s' = (if got then waiting_on (WaitersOf m) s else waiting_on (WaitersOf m) s @ [p])"
proof -
  have r: "runs s p" using assms(2) by (simp add: mutex_enter_def)
  obtain t where t: "ks_tasks s p = Some t" using r by (auto simp: runs_def)
  have w: "waiters_inv m s" using assms(1) by (simp add: mutex_inv_def)
  show "p \<notin> set (waiting_on (WaitersOf m) s)" by (rule runs_not_waiting [OF w r])
  have "mutex_inv m s' \<and> (got \<longleftrightarrow> mt_owner (sy_mutexes s m) = None) \<and>
    mt_owner (sy_mutexes s' m) = (if got then Some p else mt_owner (sy_mutexes s m)) \<and>
    waiting_on (WaitersOf m) s' = (if got then waiting_on (WaitersOf m) s else waiting_on (WaitersOf m) s @ [p])"
  proof (cases "mt_owner (sy_mutexes s m) = None")
    case True
    then have "got \<and> s' = cx_sec (set_mutex m ((sy_mutexes s m)\<lparr>mt_owner := Some p\<rparr>) s)"
      using assms(2) mutex_take_eq [OF assms(1) r True] by (auto simp: mutex_enter_def split: if_splits)
    then show ?thesis using True assms(1) by (auto simp: mutex_inv_def)
  next
    case False
    note b = wait_enqueue [OF w r t]
    have "\<not> got \<and> s' = cx_sec (set_task p (t\<lparr>t_waiting_on := Some (WaitersOf m), t_state := TASK_BLOCKED\<rparr>) (wq_insert (WaitersOf m) p s))"
      using assms(2) mutex_wait_eq [OF assms(1) r False t] b
      by (auto simp: mutex_enter_def split: if_splits)
    then show ?thesis using False assms(1) b by (auto simp: mutex_inv_def wq_insert_def split_beta)
  qed
  then show "mutex_inv m s'" "got \<longleftrightarrow> mt_owner (sy_mutexes s m) = None"
    "mt_owner (sy_mutexes s' m) = (if got then Some p else mt_owner (sy_mutexes s m))"
    "waiting_on (WaitersOf m) s' = (if got then waiting_on (WaitersOf m) s else waiting_on (WaitersOf m) s @ [p])" by blast+
qed

lemma mutex_leave_laws:
  assumes "mutex_inv m s" "mutex_leave m p s s'"
  shows "mutex_inv m s'" "mt_owner (sy_mutexes s m) = Some p" "mt_owner (sy_mutexes s' m) = None"
    "waiting_on (WaitersOf m) s' = tl (waiting_on (WaitersOf m) s)"
proof -
  have r: "runs s p" and l: "mutex_release m s = Some (s', ())" using assms(2) by (simp_all add: mutex_leave_def)
  then show o: "mt_owner (sy_mutexes s m) = Some p" using mutex_release_not_owner [of s m] by (auto simp: runs_def)
  show "mutex_inv m s'" "mt_owner (sy_mutexes s' m) = None" "waiting_on (WaitersOf m) s' = tl (waiting_on (WaitersOf m) s)"
    using mutex_release_ok [OF assms(1) r o] l by auto
qed

interpretation mtx: owned_lock "mutex_inv m" "\<lambda>s. if mt_owner (sy_mutexes s m) = None then 1 else 0"
  "\<lambda>s. waiting_on (WaitersOf m) s" "mutex_enter m" "mutex_leave m" "mutex_rely m" "\<lambda>s. mt_owner (sy_mutexes s m)" for m
  by unfold_locales (auto dest: mutex_enter_laws mutex_leave_laws simp: mutex_rely_def)


section \<open>Semaphores\<close>

definition semaphore_inv :: "u64 \<Rightarrow> ('h, 'w, 'a) sys \<Rightarrow> bool" where
  "semaphore_inv m s \<longleftrightarrow> waiters_inv m s \<and> sm_waiters (sy_semaphores s m) = WaitersOf m \<and> sm_lock (sy_semaphores s m) = spinlock_init"

definition semaphore_enter :: "u64 \<Rightarrow> u64 \<Rightarrow> ('h, 'w, 'a) sys \<Rightarrow> ('h, 'w, 'a) sys \<Rightarrow> bool \<Rightarrow> bool" where
  "semaphore_enter m p s s' got \<longleftrightarrow> runs s p \<and>
     ((\<exists>s1. with_lock (sm_get m) (sm_put m) (semaphore_take_or_wait m) s = Some (s1, got) \<and>
         (if got then s' = s1 else block_mark s1 = Some s')) \<or>
      (got \<and> semaphore_try_acquire m s = Some (s', True)))"

definition semaphore_leave :: "u64 \<Rightarrow> u64 \<Rightarrow> ('h, 'w, 'a) sys \<Rightarrow> ('h, 'w, 'a) sys \<Rightarrow> bool" where
  "semaphore_leave m p s s' \<longleftrightarrow> runs s p \<and> semaphore_release m s = Some (s', ())"

definition semaphore_rely :: "u64 \<Rightarrow> ('h, 'w, 'a) sys \<Rightarrow> ('h, 'w, 'a) sys \<Rightarrow> bool" where
  "semaphore_rely m s s' \<longleftrightarrow> semaphore_inv m s' \<and> sm_count (sy_semaphores s' m) = sm_count (sy_semaphores s m) \<and>
     waiting_on (WaitersOf m) s' = waiting_on (WaitersOf m) s"

lemma semaphore_acquire_enter:
  assumes "runs s p"
  shows "semaphore_acquire mo m s = Some (s', True) \<Longrightarrow> semaphore_enter m p s s' True"
    and "semaphore_enter m p s s' False \<Longrightarrow> semaphore_acquire mo m s = map_option (\<lambda>s. (s, False)) (scheduler_switch mo s')"
proof -
  show "semaphore_acquire mo m s = Some (s', True) \<Longrightarrow> semaphore_enter m p s s' True"
    using assms by (auto simp: semaphore_acquire_def semaphore_enter_def bind_eq_Some_conv split: if_splits prod.splits)
  assume "semaphore_enter m p s s' False"
  then obtain s1 where "with_lock (sm_get m) (sm_put m) (semaphore_take_or_wait m) s = Some (s1, False)" "block_mark s1 = Some s'"
    by (auto simp: semaphore_enter_def)
  then show "semaphore_acquire mo m s = map_option (\<lambda>s. (s, False)) (scheduler_switch mo s')"
    by (simp add: semaphore_acquire_def scheduler_block_current_mark) (cases "scheduler_switch mo s'"; simp)
qed

lemma sm_put_as: "sm_put m l s = set_semaphore m ((sy_semaphores s m)\<lparr>sm_lock := l\<rparr>) s"
  by (simp add: sm_put_def)

lemma sm_lock_same: "sm_lock v = l \<Longrightarrow> v\<lparr>sm_lock := l\<rparr> = v"
  by (cases v) simp

lemma set_semaphore_same [simp]: "sy_semaphores s m = v \<Longrightarrow> set_semaphore m v s = s"
  by (auto simp: set_semaphore_def)

lemma semaphore_section:
  assumes "cx_ok s" "sm_lock (sy_semaphores s m) = spinlock_init"
    and "body (irq_push_intr (set_semaphore m ((sy_semaphores s m)\<lparr>sm_lock := held_by s\<rparr>) s)) = Some (irq_push_intr y, r)"
    and "cx_ok y" "sm_lock (sy_semaphores y m) = held_by s" "cx_cpu y = cx_cpu s"
  shows "with_lock (sm_get m) (sm_put m) body s = Some (cx_sec (set_semaphore m ((sy_semaphores y m)\<lparr>sm_lock := spinlock_init\<rparr>) y), r)"
  using sml.section_eq [of s m body y r] assms by (simp add: sm_get_def sm_put_as)

lemma semaphore_take_eq:
  assumes "semaphore_inv m s" "runs s p" "sm_count (sy_semaphores s m) > 0"
  defines "s' \<equiv> cx_sec (set_semaphore m ((sy_semaphores s m)\<lparr>sm_count := sm_count (sy_semaphores s m) - 1\<rparr>) s)"
  shows "with_lock (sm_get m) (sm_put m) (semaphore_take_or_wait m) s = Some (s', True)" "semaphore_try_acquire m s = Some (s', True)"
proof -
  let ?n = "sm_count (sy_semaphores s m) - 1"
  have c: "cx_ok s" "sm_lock (sy_semaphores s m) = spinlock_init" "cpu_current (this_cpu s) = Some p"
    using assms by (auto simp: semaphore_inv_def waiters_inv_def runs_def dest: sched_inv_free)
  have e: "(sy_semaphores s m)\<lparr>sm_count := ?n, sm_lock := spinlock_init\<rparr> = (sy_semaphores s m)\<lparr>sm_count := ?n\<rparr>"
    using c(2) by (intro sm_lock_same) simp
  show "with_lock (sm_get m) (sm_put m) (semaphore_take_or_wait m) s = Some (s', True)"
    using semaphore_section [OF c(1,2), of "semaphore_take_or_wait m" "set_semaphore m ((sy_semaphores s m)\<lparr>sm_lock := held_by s, sm_count := ?n\<rparr>) s"]
      c assms(3) by (simp add: semaphore_take_or_wait_def s'_def e)
  show "semaphore_try_acquire m s = Some (s', True)"
    unfolding semaphore_try_acquire_def
    by (subst semaphore_section [OF c(1,2), where y = "set_semaphore m ((sy_semaphores s m)\<lparr>sm_lock := held_by s, sm_count := ?n\<rparr>) s"])
      (use c assms(3) in \<open>simp_all add: s'_def e\<close>)
qed

lemma semaphore_wait_eq:
  assumes "semaphore_inv m s" "runs s p" "sm_count (sy_semaphores s m) = 0" "ks_tasks s p = Some t"
  shows "with_lock (sm_get m) (sm_put m) (semaphore_take_or_wait m) s =
    Some (cx_sec (set_task p (t\<lparr>t_waiting_on := Some (WaitersOf m)\<rparr>) (wq_insert (WaitersOf m) p s)), False)"
    "semaphore_try_acquire m s = Some (cx_sec s, False)"
proof -
  let ?q = "WaitersOf m"
  let ?h = "set_semaphore m ((sy_semaphores s m)\<lparr>sm_lock := held_by s\<rparr>) s"
  have c: "cx_ok s" "sm_lock (sy_semaphores s m) = spinlock_init" "cpu_current (this_cpu s) = Some p" "t_state t = TASK_RUNNING"
    "sm_waiters (sy_semaphores s m) = ?q" "wq_free ?q s"
    using assms by (auto simp: semaphore_inv_def waiters_inv_def runs_def dest: sched_inv_free)
  note e = sm_lock_same [OF c(2)]
  have i: "wq_insert ?q p (irq_push_intr ?h) = irq_push_intr (set_semaphore m ((sy_semaphores s m)\<lparr>sm_lock := held_by s\<rparr>) (wq_insert ?q p s))"
    by (simp add: wq_insert_def split_beta)
  have "waitqueue_enqueue ?q p (irq_push_intr ?h) =
      Some (cx_sec (set_task p (t\<lparr>t_waiting_on := Some ?q\<rparr>) (wq_insert ?q p (irq_push_intr ?h))), ())"
    by (rule waitqueue_enqueue_eq) (use c assms(4) in \<open>simp_all add: wq_free_def\<close>)
  then have b: "semaphore_take_or_wait m (irq_push_intr ?h) =
      Some (irq_push_intr (set_semaphore m ((sy_semaphores s m)\<lparr>sm_lock := held_by s\<rparr>) (set_task p (t\<lparr>t_waiting_on := Some ?q\<rparr>) (wq_insert ?q p s))), False)"
    using c assms(3) by (auto simp: semaphore_take_or_wait_def Let_def i wq_insert_def split_beta)
  show "with_lock (sm_get m) (sm_put m) (semaphore_take_or_wait m) s =
    Some (cx_sec (set_task p (t\<lparr>t_waiting_on := Some ?q\<rparr>) (wq_insert ?q p s)), False)"
    using semaphore_section [OF c(1,2), where body = "semaphore_take_or_wait m", OF b] c e by (simp add: wq_insert_def split_beta)
  show "semaphore_try_acquire m s = Some (cx_sec s, False)"
    unfolding semaphore_try_acquire_def
    by (subst semaphore_section [OF c(1,2), where y = ?h]) (use c assms(3) in \<open>auto simp: e\<close>)
qed

lemma semaphore_release_ok:
  fixes s :: "('h, 'w, 'a) sys"
  assumes "semaphore_inv m s" "sm_count (sy_semaphores s m) < sm_initial_count (sy_semaphores s m)"
  shows "\<exists>s'. semaphore_release m s = Some (s', ()) \<and> semaphore_inv m s' \<and>
    sm_count (sy_semaphores s' m) = sm_count (sy_semaphores s m) + 1 \<and>
    waiting_on (WaitersOf m) s' = tl (waiting_on (WaitersOf m) s)"
proof -
  let ?q = "WaitersOf m" and ?n = "sm_count (sy_semaphores s m) + 1"
  let ?v = "(sy_semaphores s m)\<lparr>sm_count := ?n\<rparr>"
  let ?h = "set_semaphore m ((sy_semaphores s m)\<lparr>sm_lock := held_by s\<rparr>) s"
  let ?g = "set_semaphore m ((sy_semaphores s m)\<lparr>sm_lock := held_by s, sm_count := ?n\<rparr>) s"
  have w: "waiters_inv m s" and c: "cx_ok s" "sm_lock (sy_semaphores s m) = spinlock_init"
    "sm_waiters (sy_semaphores s m) = ?q" "wq_free ?q s"
    using assms by (auto simp: semaphore_inv_def waiters_inv_def dest: sched_inv_free)
  have b: "semaphore_give m (irq_push_intr ?h) = waitqueue_dequeue ?q (irq_push_intr ?g)"
    using c assms(2) by (simp add: semaphore_give_def)
  have cg: "cx_ok (irq_push_intr ?g)" "wq_free ?q (irq_push_intr ?g)" using c by (simp_all add: wq_free_def)
  have e: "(sy_semaphores s m)\<lparr>sm_count := ?n, sm_lock := spinlock_init\<rparr> = ?v" using c(2) by (intro sm_lock_same) simp
  show ?thesis
  proof (cases "waiting_on ?q s")
    case Nil
    have "wq_pop ?q (irq_push_intr ?g) = (irq_push_intr ?g, None)"
      using wait_dequeue_empty [OF w Nil] by (auto simp: wq_pop_def split_beta set_waiters_id)
    then have "semaphore_give m (irq_push_intr ?h) = Some (irq_push_intr ?g, None)"
      using waitqueue_dequeue_eq(2) [OF cg] c(1) by (simp add: b)
    then have "with_lock (sm_get m) (sm_put m) (semaphore_give m) s = Some (cx_sec (set_semaphore m ?v s), None)"
      by (subst semaphore_section [OF c(1,2), where y = ?g]) (use c in \<open>simp_all add: e\<close>)
    then show ?thesis using w c Nil by (simp add: semaphore_release_def semaphore_inv_def)
  next
    case (Cons x xs)
    obtain t il h where d: "ks_tasks s x = Some t" "wq_pop ?q s = (set_waiters ?q il h s, Some x)"
      and k: "\<And>s1 :: ('h, 'w, 'a) sys. ks_tasks s1 = (ks_tasks s)(x \<mapsto> t\<lparr>t_waiting_on := None\<rparr>) \<Longrightarrow> ks_runnable_node s1 = ks_runnable_node s \<Longrightarrow>
       ks_wait_node s1 = h \<Longrightarrow> ks_cpus s1 = ks_cpus s \<Longrightarrow> ks_wqs s1 = ks_wqs (set_waiters ?q il h s) \<Longrightarrow>
       ks_task_manager s1 = ks_task_manager s \<Longrightarrow> cx_ok s1 \<Longrightarrow>
       \<exists>s2. scheduler_wake_blocked (Some x) s1 = Some (s2, ()) \<and> waiters_inv m s2 \<and> waiting_on ?q s2 = xs \<and>
         (\<exists>c il h t'. s2 = cx_sec (set_runnables c il h (set_task x t' s1)))"
      by (rule wait_dequeue [OF w Cons]) blast
    let ?y = "set_task x (t\<lparr>t_waiting_on := None\<rparr>) (set_waiters ?q il h ?g)"
    have "wq_pop ?q (irq_push_intr ?g) = (irq_push_intr (set_waiters ?q il h ?g), Some x)"
      using d(2) by (auto simp: wq_pop_def split_beta)
    then have "semaphore_give m (irq_push_intr ?h) = Some (irq_push_intr ?y, Some x)"
      using waitqueue_dequeue_eq(1) [OF cg] d(1) c(1) by (simp add: b)
    then have l: "with_lock (sm_get m) (sm_put m) (semaphore_give m) s =
        Some (cx_sec (set_semaphore m ?v (set_task x (t\<lparr>t_waiting_on := None\<rparr>) (set_waiters ?q il h s))), Some x)"
      by (subst semaphore_section [OF c(1,2), where y = ?y]) (use c in \<open>simp_all add: e\<close>)
    let ?z = "cx_sec (set_semaphore m ?v (set_task x (t\<lparr>t_waiting_on := None\<rparr>) (set_waiters ?q il h s)))"
    have "\<exists>s2. scheduler_wake_blocked (Some x) ?z = Some (s2, ()) \<and> waiters_inv m s2 \<and> waiting_on ?q s2 = xs \<and>
        (\<exists>c il h t'. s2 = cx_sec (set_runnables c il h (set_task x t' ?z)))"
      by (rule k) (use c(1) in simp_all)
    then obtain s2 where "scheduler_wake_blocked (Some x) ?z = Some (s2, ())" "waiters_inv m s2" "waiting_on ?q s2 = xs"
      "sy_semaphores s2 = sy_semaphores ?z" by auto
    then show ?thesis using l c Cons by (intro exI [of _ s2]) (simp add: semaphore_release_def semaphore_inv_def)
  qed
qed

lemma semaphore_release_over:
  assumes "\<not> sm_count (sy_semaphores s m) < sm_initial_count (sy_semaphores s m)"
  shows "semaphore_release m s = None"
proof -
  have "with_lock (sm_get m) (sm_put m) (semaphore_give m) s = None"
    by (rule sml.section_none) (use assms in \<open>auto simp: semaphore_give_def sm_put_as Let_def\<close>)
  then show ?thesis by (simp add: semaphore_release_def)
qed

lemma semaphore_enter_laws:
  assumes "semaphore_inv m s" "semaphore_enter m p s s' got"
  shows "semaphore_inv m s'" "p \<notin> set (waiting_on (WaitersOf m) s)" "got \<longleftrightarrow> sm_count (sy_semaphores s m) > 0"
    "sm_count (sy_semaphores s' m) = (if got then sm_count (sy_semaphores s m) - 1 else 0)"
    "waiting_on (WaitersOf m) s' = (if got then waiting_on (WaitersOf m) s else waiting_on (WaitersOf m) s @ [p])"
proof -
  have r: "runs s p" using assms(2) by (simp add: semaphore_enter_def)
  obtain t where t: "ks_tasks s p = Some t" using r by (auto simp: runs_def)
  have w: "waiters_inv m s" using assms(1) by (simp add: semaphore_inv_def)
  show "p \<notin> set (waiting_on (WaitersOf m) s)" by (rule runs_not_waiting [OF w r])
  have "semaphore_inv m s' \<and> (got \<longleftrightarrow> sm_count (sy_semaphores s m) > 0) \<and>
    sm_count (sy_semaphores s' m) = (if got then sm_count (sy_semaphores s m) - 1 else 0) \<and>
    waiting_on (WaitersOf m) s' = (if got then waiting_on (WaitersOf m) s else waiting_on (WaitersOf m) s @ [p])"
  proof (cases "sm_count (sy_semaphores s m) > 0")
    case True
    then have "got \<and> s' = cx_sec (set_semaphore m ((sy_semaphores s m)\<lparr>sm_count := sm_count (sy_semaphores s m) - 1\<rparr>) s)"
      using assms(2) semaphore_take_eq [OF assms(1) r True] by (auto simp: semaphore_enter_def split: if_splits)
    then show ?thesis using True assms(1) by (auto simp: semaphore_inv_def)
  next
    case False
    then have z: "sm_count (sy_semaphores s m) = 0" by (simp add: word_gt_0)
    note b = wait_enqueue [OF w r t]
    have "\<not> got \<and> s' = cx_sec (set_task p (t\<lparr>t_waiting_on := Some (WaitersOf m), t_state := TASK_BLOCKED\<rparr>) (wq_insert (WaitersOf m) p s))"
      using assms(2) semaphore_wait_eq [OF assms(1) r z t] b
      by (auto simp: semaphore_enter_def split: if_splits)
    then show ?thesis using z assms(1) b by (auto simp: semaphore_inv_def wq_insert_def split_beta)
  qed
  then show "semaphore_inv m s'" "got \<longleftrightarrow> sm_count (sy_semaphores s m) > 0"
    "sm_count (sy_semaphores s' m) = (if got then sm_count (sy_semaphores s m) - 1 else 0)"
    "waiting_on (WaitersOf m) s' = (if got then waiting_on (WaitersOf m) s else waiting_on (WaitersOf m) s @ [p])" by blast+
qed

lemma unat_succ: "n < k \<Longrightarrow> unat (n + 1) = Suc (unat n)" for n k :: u64
  by unat_arith

lemma unat_pred: "0 < n \<Longrightarrow> unat n = Suc (unat (n - 1))" for n :: u64
  by unat_arith

lemma semaphore_leave_laws:
  assumes "semaphore_inv m s" "semaphore_leave m p s s'"
  shows "semaphore_inv m s'" "unat (sm_count (sy_semaphores s' m)) = Suc (unat (sm_count (sy_semaphores s m)))"
    "waiting_on (WaitersOf m) s' = tl (waiting_on (WaitersOf m) s)"
proof -
  have l: "semaphore_release m s = Some (s', ())" using assms(2) by (simp add: semaphore_leave_def)
  then have o: "sm_count (sy_semaphores s m) < sm_initial_count (sy_semaphores s m)" using semaphore_release_over [of s m] by force
  show "unat (sm_count (sy_semaphores s' m)) = Suc (unat (sm_count (sy_semaphores s m)))"
    using semaphore_release_ok [OF assms(1) o] l unat_succ [OF o] by auto
  show "semaphore_inv m s'" "waiting_on (WaitersOf m) s' = tl (waiting_on (WaitersOf m) s)"
    using semaphore_release_ok [OF assms(1) o] l by auto
qed

lemma semaphore_take_law:
  assumes "semaphore_inv m s" "semaphore_enter m p s s' True"
  shows "unat (sm_count (sy_semaphores s m)) = Suc (unat (sm_count (sy_semaphores s' m)))"
  using semaphore_enter_laws [OF assms] unat_pred by simp

lemma semaphore_full_law:
  assumes "semaphore_inv m s" "semaphore_enter m p s s' False"
  shows "sm_count (sy_semaphores s m) = 0"
  using semaphore_enter_laws(3) [OF assms] by (simp add: word_gt_0)

interpretation smp: waiting_lock "semaphore_inv m" "\<lambda>s. unat (sm_count (sy_semaphores s m))"
  "\<lambda>s. waiting_on (WaitersOf m) s" "semaphore_enter m" "semaphore_leave m" "semaphore_rely m" for m
  by unfold_locales (auto simp: semaphore_rely_def semaphore_take_law semaphore_full_law
      dest: semaphore_enter_laws(1,2) semaphore_enter_laws(4,5) semaphore_leave_laws)

section \<open>What the rest of the kernel does in between\<close>

text \<open>A switch and a timer tick are among the steps that \<open>mutex_rely\<close> allows.\<close>

lemma all_blocked_kept:
  assumes "sched_inv rqs wqs s" "all_blocked (wqs q) s"
    "\<forall>x t. ks_tasks s x = Some t \<and> t_waiting_on t \<noteq> None \<longrightarrow>
       (\<exists>t'. ks_tasks s' x = Some t' \<and> t_state t' = t_state t \<and> t_cpu t' = t_cpu t)"
  shows "all_blocked (wqs q) s'"
  using assms sched_inv_waiting [OF assms(1)] unfolding all_blocked_def by (metis option.distinct(1) option.inject)

lemma sync_more: "kstate.more s' = kstate.more s \<Longrightarrow> sy_mutexes s' = sy_mutexes s \<and> sy_semaphores s' = sy_semaphores s"
  for s s' :: "('h, 'w, 'a) sys"
  by (cases s, cases s') simp

lemma mutex_rely_switch:
  fixes s :: "('h, 'w, 'a) sys"
  assumes "mutex_inv m s" "sched_inv rqs wqs s" "all_blocked (wqs (WaitersOf m)) s" "cur_ok rqs s" "may_leave s" "c = cx_cpu s"
    "cx_irq_disable_depth s = 0" "cpu_current (this_cpu s) = Some p" "Q = rqs c @ requeued s" "\<forall>x\<in>set Q. proc_known s x"
    "pick s Q = Some n" "n \<noteq> p \<Longrightarrow> resumable mo s n \<and> address_space_table mo (Some p) s \<noteq> None"
  shows "\<exists>s'. scheduler_switch mo s = Some s' \<and> mutex_rely m s s'"
proof -
  obtain s' where s': "scheduler_switch mo s = Some s'" "sched_inv (rqs(c := left s Q)) wqs s'"
    "\<forall>x t. ks_tasks s x = Some t \<and> t_waiting_on t \<noteq> None \<longrightarrow>
       (\<exists>t'. ks_tasks s' x = Some t' \<and> t_state t' = t_state t \<and> t_cpu t' = t_cpu t)"
    using scheduler_switch_ok [OF assms(2,4-12)] by blast
  have "sy_mutexes s' = sy_mutexes s" using sync_more scheduler_switch_frame [of s mo] s'(1) by (auto simp: frame1_def)
  moreover have "waiters_inv m s'" using s'(2) all_blocked_kept [OF assms(2,3) s'(3)] unfolding waiters_inv_def by blast
  moreover have "waiting_on (WaitersOf m) s' = waiting_on (WaitersOf m) s" using waiting_on_rep [OF s'(2)] waiting_on_rep [OF assms(2)] by simp
  ultimately show ?thesis using s'(1) assms(1) by (auto simp: mutex_rely_def mutex_inv_def)
qed

text \<open>The loop of \<^verbatim>\<open>completion_signal\<close> does what that of \<^verbatim>\<open>scheduler_wake_all\<close> does.\<close>

lemma wake_step:
  "Option.bind (scheduler_wake_blocked (Some p) s) k = Option.bind (ks_tasks s p) (\<lambda>t. do {
     ASSERT (t_state t = TASK_BLOCKED);
     ASSERT (t_waiting_on t = None \<or> t_waiting_on t = Some wq);
     let s = set_task p (t\<lparr>t_state := TASK_READY\<rparr>) s;
     r \<leftarrow> scheduler_enqueue p s;
     k r })"
  by (cases "ks_tasks s p") (auto simp: scheduler_wake_blocked_def scheduler_enqueue_def ASSERT_def)

lemma wake_all_loop_completion:
  assumes "wake_all_loop wq s = Some y"
  shows "completion_signal_loop wq s = Some y"
proof (rule wake_all_loop.raw_induct [OF _ assms])
  fix loop wq s y
  assume ih: "\<And>wq s y. loop wq s = Some y \<Longrightarrow> completion_signal_loop wq s = Some y"
    and b: "(do {
       (s, blocked) \<leftarrow> waitqueue_dequeue_unlocked wq s;
       (case blocked of None \<Rightarrow> Some (s, ())
        | Some task \<Rightarrow> do {
            t \<leftarrow> ks_tasks s task;
            ASSERT (t_state t = TASK_BLOCKED);
            ASSERT (t_waiting_on t = None \<or> t_waiting_on t = Some wq);
            let s = set_task task (t\<lparr>t_state := TASK_READY\<rparr>) s;
            (s, _) \<leftarrow> scheduler_enqueue task s;
            loop wq s
          })
     }) = Some y"
  then obtain s1 r where d: "waitqueue_dequeue_unlocked wq s = Some (s1, r)" by (auto simp: bind_eq_Some_conv)
  show "completion_signal_loop wq s = Some y"
  proof (cases r)
    case None
    then show ?thesis using b d by (subst completion_signal_loop.simps) simp
  next
    case (Some p)
    have "Option.bind (scheduler_wake_blocked (Some p) s1) (\<lambda>(s, _). loop wq s) = Some y"
      using b d Some by (simp add: wake_step [where wq = wq])
    then have "Option.bind (scheduler_wake_blocked (Some p) s1) (\<lambda>(s, _). completion_signal_loop wq s) = Some y"
      by (auto simp: bind_eq_Some_conv dest: ih)
    then show ?thesis using d Some by (subst completion_signal_loop.simps) simp
  qed
qed

section \<open>Completions\<close>

definition completion_inv :: "u64 \<Rightarrow> ('h, 'w, 'a) sys \<Rightarrow> bool" where
  "completion_inv m s \<longleftrightarrow> waiters_inv m s \<and> cm_waiters (sy_completions s m) = WaitersOf m"

lemma set_completion_simps [simp]:
  "ks_tasks (set_completion m v s) = ks_tasks s" "ks_wait_node (set_completion m v s) = ks_wait_node s"
  "ks_runnable_node (set_completion m v s) = ks_runnable_node s" "ks_cpus (set_completion m v s) = ks_cpus s"
  "ks_wqs (set_completion m v s) = ks_wqs s" "ks_task_manager (set_completion m v s) = ks_task_manager s"
  "cx_ok (set_completion m v s) = cx_ok s" "cx_cpu (set_completion m v s) = cx_cpu s"
  "sy_completions (set_completion m v s) = (sy_completions s)(m := v)"
  "set_completion m v (in_wq q s) = in_wq q (set_completion m v s)" "wq_free q (set_completion m v s) = wq_free q s"
  for s :: "('h, 'w, 'a) sys"
  by (simp_all add: set_completion_def cx_ok_def in_wq_def irq_push_as_put cx_put_def r_intrd_enabled_def held_by_def
      slot_defs wq_free_def)

lemma sy_completions_simps [simp]:
  "sy_completions (in_wq q s) = sy_completions s" "sy_completions (cx_sec s) = sy_completions s" for s :: "('h, 'w, 'a) sys"
  by (simp_all add: in_wq_def irq_push_as_put cx_put_def slot_defs cx_sec_def)

lemma completion_more: "kstate.more s' = kstate.more s \<Longrightarrow> sy_completions s' = sy_completions s"
  for s s' :: "('h, 'w, 'a) sys"
  by (cases s, cases s') simp

text \<open>
  \<^verbatim>\<open>completion_signal\<close> on a completion that is not done: every waiter, and no other task, becomes
  ready on its own processor in the order of waiting, and the completion is done; a later
  \<^verbatim>\<open>completion_wait\<close> returns at once, and a second signal stops the machine.
\<close>

lemma completion_signal_ok:
  fixes s :: "('h, 'w, 'a) sys"
  assumes inv: "sched_inv rqs wqs s" and b: "all_blocked (wqs (WaitersOf m)) s"
    and c: "cm_waiters (sy_completions s m) = WaitersOf m" "\<not> cm_done (sy_completions s m)"
  shows "\<exists>s'. completion_signal m s = Some (s', ()) \<and>
    sched_inv (to_runqueues s (wqs (WaitersOf m)) rqs) (wqs(WaitersOf m := [])) s' \<and>
    ks_tasks s' = map_tasks woken (set (wqs (WaitersOf m))) (ks_tasks s) \<and> cm_done (sy_completions s' m)"
proof -
  let ?q = "WaitersOf m" and ?s = "set_completion m ((sy_completions s m)\<lparr>cm_done := True\<rparr>) s"
  have i: "sched_inv rqs wqs ?s" by (rule sched_inv_cong [OF _ _ _ _ _ _ _ inv]) (use sched_inv_free(1) [OF inv] in simp_all)
  have b1: "all_blocked (wqs ?q) ?s" and r1: "to_runqueues ?s (wqs ?q) rqs = to_runqueues s (wqs ?q) rqs"
    using b by (simp_all add: all_blocked_def to_runqueues_def cpu_of_def)
  obtain s' where s': "wake_all_loop ?q (in_wq ?q ?s) = Some (in_wq ?q s', ())"
    "sched_inv (to_runqueues s (wqs ?q) rqs) (wqs(?q := [])) s'" "cx_same ?s s'"
    "ks_tasks s' = map_tasks woken (set (wqs ?q)) (ks_tasks s)"
    using wake_all_loop_ok [OF i refl b1] unfolding r1 by auto
  have l: "completion_signal_loop ?q (in_wq ?q ?s) = Some (in_wq ?q s', ())" by (rule wake_all_loop_completion [OF s'(1)])
  have "completion_signal m s = Some (cx_sec s', ())"
    unfolding completion_signal_def using c
    by (simp, intro wq_section_in) (use l c s' sched_inv_free [OF inv] sched_inv_free [OF s'(2)] in \<open>simp_all add: cx_same_def\<close>)
  moreover have "sy_completions s' = sy_completions ?s"
    using wake_all_loop_frame [of "in_wq ?q ?s" ?q] s'(1) by (intro completion_more) (simp add: frame_def in_wq_def)
  then have "cm_done (sy_completions s' m)" by simp
  ultimately show ?thesis using s' by (intro exI [of _ "cx_sec s'"]) (simp del: fun_upd_apply)
qed

lemma completion_wait_done:
  assumes "waiters_inv m s" "cm_waiters (sy_completions s m) = WaitersOf m" "cm_done (sy_completions s m)"
  shows "completion_wait mo m s = Some (cx_sec s, True)" "completion_signal m s = None"
proof -
  have c: "cx_ok s" "wq_free (WaitersOf m) s" using assms(1) by (auto simp: waiters_inv_def dest: sched_inv_free)
  have "with_lock (wq_get (WaitersOf m)) (wq_put (WaitersOf m)) (completion_check m) s = Some (cx_sec s, None)"
    by (rule wq_section_in) (use c assms in \<open>simp_all add: completion_check_def\<close>)
  then show "completion_wait mo m s = Some (cx_sec s, True)" using assms by (simp add: completion_wait_def)
  show "completion_signal m s = None" using assms by (simp add: completion_signal_def)
qed

section \<open>The properties\<close>


text \<open>
  Claim C7. A semaphore conserves its units: what tasks have taken and not given back, and what is left,
  is always the initial count, so that no more tasks than units are inside. No wakeup is lost: while
  tasks wait there are no more free units than woken tasks that will try again. An attempt takes a unit
  exactly when one is left, and a release returns exactly when a unit is out.
\<close>

theorem semaphore_conserves_units:
  assumes "lock_run (semaphore_enter m) (semaphore_leave m) (semaphore_rely m) s0 s units trying"
    and "semaphore_inv m s0" "waiting_on (WaitersOf m) s0 = []"
  shows "sum units UNIV + int (unat (sm_count (sy_semaphores s m))) = int (unat (sm_count (sy_semaphores s0 m))) \<and>
    (waiting_on (WaitersOf m) s \<noteq> [] \<longrightarrow>
       unat (sm_count (sy_semaphores s m)) \<le> card (trying - set (waiting_on (WaitersOf m) s))) \<and>
    (\<forall>p. runs s p \<longrightarrow> (\<exists>s'. semaphore_enter m p s s' (sm_count (sy_semaphores s m) > 0)) \<and>
       (semaphore_release m s \<noteq> None \<longleftrightarrow> sm_count (sy_semaphores s m) < sm_initial_count (sy_semaphores s m)))"
proof (intro conjI allI impI)
  note run = smp.run_inv [OF assms]
  show "sum units UNIV + int (unat (sm_count (sy_semaphores s m))) = int (unat (sm_count (sy_semaphores s0 m)))"
    "waiting_on (WaitersOf m) s \<noteq> [] \<Longrightarrow>
       unat (sm_count (sy_semaphores s m)) \<le> card (trying - set (waiting_on (WaitersOf m) s))"
    using run by blast+
  fix p assume r: "runs s p"
  have inv: "semaphore_inv m s" using run by blast
  obtain t where t: "ks_tasks s p = Some t" using r by (auto simp: runs_def)
  show "\<exists>s'. semaphore_enter m p s s' (sm_count (sy_semaphores s m) > 0)"
    using semaphore_take_eq(1) [OF inv r] semaphore_wait_eq(1) [OF inv r _ t] wait_enqueue [OF _ r t, of m] r inv
    by (cases "sm_count (sy_semaphores s m) = 0") (auto simp: semaphore_enter_def semaphore_inv_def word_gt_0)
  show "semaphore_release m s \<noteq> None \<longleftrightarrow> sm_count (sy_semaphores s m) < sm_initial_count (sy_semaphores s m)"
    using semaphore_release_ok [OF inv] semaphore_release_over [of s m] by force
qed


section \<open>A concrete state\<close>

text \<open>The state of \<^const>\<open>ks_example\<close> with a free mutex at 0x9000 and a semaphore of two units at 0xa000.\<close>

definition sy_example :: "(unit, nat) sync_state" where
  "sy_example = kstate.extend ks_example
     \<lparr>sy_mutexes = (\<lambda>m. \<lparr>mt_lock = spinlock_init, mt_owner = None, mt_waiters = WaitersOf m\<rparr>),
      sy_semaphores = (\<lambda>m. \<lparr>sm_lock = spinlock_init, sm_waiters = WaitersOf m, sm_count = 2, sm_initial_count = 2\<rparr>),
      sy_completions = (\<lambda>m. \<lparr>cm_waiters = WaitersOf m, cm_done = False\<rparr>)\<rparr>"

lemma sy_example_fields [simp]:
  "ks_tasks sy_example = tasks_ex" "ks_runnable_node sy_example = nodes_ex" "ks_wait_node sy_example = nodes_ex"
  "ks_cpus sy_example = cpu_ex" "ks_wqs sy_example = wq_ex" "cx_cpu sy_example = 0" "this_cpu sy_example = cpu_ex 0"
  "ks_task_manager sy_example = ks_task_manager ks_example" "cx_ok sy_example"
  "sy_mutexes sy_example m = \<lparr>mt_lock = spinlock_init, mt_owner = None, mt_waiters = WaitersOf m\<rparr>"
  "sy_semaphores sy_example m = \<lparr>sm_lock = spinlock_init, sm_waiters = WaitersOf m, sm_count = 2, sm_initial_count = 2\<rparr>"
  "sy_completions sy_example m = \<lparr>cm_waiters = WaitersOf m, cm_done = False\<rparr>"
  by (simp_all add: sy_example_def kstate.defs ks_example_def fs_state.defs cpu_ctx.defs fs_example_def ctx_example_def this_cpu_def
      cx_ok_def)

lemma sy_example_inv: "sched_inv rqs_ex wqs_ex sy_example"
proof -
  have "sleep_key sy_example = sleep_key ks_example" by (auto simp: sleep_key_def)
  then show ?thesis using ks_example_inv
    by (simp add: sched_inv_def queues_rep_def locks_free_def cpus_ok_def rq_free_def wq_free_def rq_get_def wq_get_def tm_get_def)
qed

lemma sy_example_runs: "runs sy_example 0x1000"
  by (simp add: runs_def special_def cpu_ex_def)

lemma sy_example_waiters: "waiters_inv m sy_example" "waiting_on (WaitersOf m) sy_example = []"
proof -
  have "wqs_ex (WaitersOf m) = []" by (simp add: wqs_ex_def)
  then show "waiters_inv m sy_example"
    using sy_example_inv unfolding waiters_inv_def
    by (intro exI [of _ rqs_ex] exI [of _ wqs_ex]) (simp add: all_blocked_def)
  show "waiting_on (WaitersOf m) sy_example = []"
    using waiting_on_rep [OF sy_example_inv, of "WaitersOf m"] by (simp add: wqs_ex_def)
qed

lemma mutex_example_run:
  "\<exists>s. lock_run (mutex_enter 0x9000) (mutex_leave 0x9000) (mutex_rely 0x9000) sy_example s ((\<lambda>_. 0)(0x1000 := 1)) {} \<and>
     mt_owner (sy_mutexes s 0x9000) = Some 0x1000"
proof -
  have inv: "mutex_inv 0x9000 sy_example" using sy_example_waiters by (simp add: mutex_inv_def)
  obtain s where e: "mutex_enter 0x9000 0x1000 sy_example s True"
    using mutex_take_eq(2) [OF inv sy_example_runs] sy_example_runs by (auto simp: mutex_enter_def)
  moreover have "mt_owner (sy_mutexes s 0x9000) = Some 0x1000" using mutex_enter_laws(4) [OF inv e] by simp
  ultimately show ?thesis
    using lock_run.taken [OF lock_run.start, of "mutex_enter 0x9000" "0x1000" sy_example s "mutex_leave 0x9000" "mutex_rely 0x9000"]
    by (intro exI [of _ s]) simp
qed


theorem semaphore_conserves_units_witness:
  "\<exists>s. lock_run (semaphore_enter 0xa000) (semaphore_leave 0xa000) (semaphore_rely 0xa000) sy_example s ((\<lambda>_. 0)(0x1000 := 1)) {} \<and>
     uint (sm_count (sy_semaphores s 0xa000)) = 1"
proof -
  have inv: "semaphore_inv 0xa000 sy_example" using sy_example_waiters by (simp add: semaphore_inv_def)
  obtain s where "semaphore_enter 0xa000 0x1000 sy_example s True"
    using semaphore_take_eq(2) [OF inv sy_example_runs] sy_example_runs by (auto simp: semaphore_enter_def)
  then have s: "lock_run (semaphore_enter 0xa000) (semaphore_leave 0xa000) (semaphore_rely 0xa000) sy_example s ((\<lambda>_. 0)(0x1000 := 1)) {}"
    using lock_run.taken [OF lock_run.start, of "semaphore_enter 0xa000" "0x1000" sy_example s "semaphore_leave 0xa000" "semaphore_rely 0xa000"]
    by simp
  then show ?thesis
    using semaphore_conserves_units [OF s inv sy_example_waiters(2)]
    by (intro exI [of _ s]) (simp add: sum_upd_word del: fun_upd_apply)
qed

end
