(* ===== verification/Processes.thy ===== *)
theory Processes
  imports Scheduler
begin

text \<open>
  Processes (\<^verbatim>\<open>kernel/core/process.c\<close>): the object itself, its threads and its children.
  The queue \<^verbatim>\<open>child_waiters\<close> of the process at \<open>p\<close> is \<^term>\<open>WaitersOf p\<close>.
\<close>

text \<open>\<^verbatim>\<open>process_init\<close> writes into memory the caller allocated; the parent is not among the fields it sets.\<close>

definition process_init :: "u64 \<Rightarrow> usize \<Rightarrow> string \<Rightarrow> u64 \<Rightarrow> u64 \<Rightarrow> ('h, 'w, 'a) kss \<Rightarrow> ('h, 'w, 'a) kss option" where
  "process_init proc pid name as fd_table s = do {
     v \<leftarrow> ks_procs s proc;
     let s = set_proc proc (v\<lparr>pr_pid := pid, pr_name := name, pr_lock := spinlock_init, pr_state := PROCESS_RUNNING,
        pr_address_space := Some as, pr_threads := intrusivelist_init, pr_children := intrusivelist_init,
        pr_child_waiters := WaitersOf proc, pr_files := Some fd_table, pr_exiting := False, pr_exit_code := 0\<rparr>) s;
     let s = s\<lparr>ks_parent_node := intrusivelist_node_init proc (ks_parent_node s)\<rparr>;
     Some (set_wq (WaitersOf proc) waitqueue_init s)
   }"

definition process_exit :: "u64 \<Rightarrow> int \<Rightarrow> ('h, 'w, 'a) kss \<Rightarrow> ('h, 'w, 'a) kss option" where
  "process_exit proc exit_code s = do {
     v \<leftarrow> ks_procs s proc;
     Some (set_proc proc (v\<lparr>pr_exit_code := exit_code, pr_exiting := True, pr_state := PROCESS_ZOMBIE\<rparr>) s)
   }"

definition process_add_thread :: "u64 \<Rightarrow> u64 \<Rightarrow> ('h, 'w, 'a) kss \<Rightarrow> (('h, 'w, 'a) kss \<times> unit) option" where
  "process_add_thread proc thread s =
     with_lock (pr_get proc) (pr_put proc) (\<lambda>s. do {
       v \<leftarrow> ks_procs s proc;
       let (il, h) = intrusivelist_insert_tail (pr_threads v) (ks_process_node s) thread;
       Some ((set_proc proc (v\<lparr>pr_threads := il\<rparr>) s)\<lparr>ks_process_node := h\<rparr>, ())
     }) s"

definition process_remove_thread :: "u64 \<Rightarrow> u64 \<Rightarrow> ('h, 'w, 'a) kss \<Rightarrow> (('h, 'w, 'a) kss \<times> unit) option" where
  "process_remove_thread proc thread s =
     with_lock (pr_get proc) (pr_put proc) (\<lambda>s. do {
       v \<leftarrow> ks_procs s proc;
       let (il, h) = intrusivelist_remove (pr_threads v) (ks_process_node s) thread;
       Some ((set_proc proc (v\<lparr>pr_threads := il\<rparr>) s)\<lparr>ks_process_node := h\<rparr>, ())
     }) s"

definition process_thread_count :: "u64 \<Rightarrow> ('h, 'w, 'a) kss \<Rightarrow> (('h, 'w, 'a) kss \<times> usize) option" where
  "process_thread_count proc s =
     with_lock (pr_get proc) (pr_put proc) (\<lambda>s. do {
       v \<leftarrow> ks_procs s proc;
       Some (s, intrusivelist_count (pr_threads v))
     }) s"

definition process_add_child :: "u64 \<Rightarrow> u64 \<Rightarrow> ('h, 'w, 'a) kss \<Rightarrow> (('h, 'w, 'a) kss \<times> unit) option" where
  "process_add_child parent child s =
     with_lock (pr_get parent) (pr_put parent) (with_lock (pr_get child) (pr_put child) (\<lambda>s. do {
       v \<leftarrow> ks_procs s parent;
       let (il, h) = intrusivelist_insert_tail (pr_children v) (ks_parent_node s) child;
       Some ((set_proc parent (v\<lparr>pr_children := il\<rparr>) s)\<lparr>ks_parent_node := h\<rparr>, ())
     })) s"

definition process_remove_child :: "u64 \<Rightarrow> u64 \<Rightarrow> ('h, 'w, 'a) kss \<Rightarrow> (('h, 'w, 'a) kss \<times> unit) option" where
  "process_remove_child parent child s =
     with_lock (pr_get parent) (pr_put parent) (with_lock (pr_get child) (pr_put child) (\<lambda>s. do {
       v \<leftarrow> ks_procs s parent;
       let (il, h) = intrusivelist_remove (pr_children v) (ks_parent_node s) child;
       Some ((set_proc parent (v\<lparr>pr_children := il\<rparr>) s)\<lparr>ks_parent_node := h\<rparr>, ())
     })) s"

definition process_set_parent :: "u64 \<Rightarrow> u64 \<Rightarrow> ('h, 'w, 'a) kss \<Rightarrow> (('h, 'w, 'a) kss \<times> unit) option" where
  "process_set_parent parent child s =
     with_lock (pr_get parent) (pr_put parent) (with_lock (pr_get child) (pr_put child) (\<lambda>s. do {
       v \<leftarrow> ks_procs s child;
       Some (set_proc child (v\<lparr>pr_parent := Some parent\<rparr>) s, ())
     })) s"

definition process_get_current :: "('h, 'w, 'a) kss \<Rightarrow> u64 option" where
  "process_get_current s =
     (case cpu_current (this_cpu s) of None \<Rightarrow> Some (ERR_TO_PTR (- ENOENT))
      | Some current_task \<Rightarrow> do {
          t \<leftarrow> ks_tasks s current_task;
          Some (case t_process t of None \<Rightarrow> ERR_TO_PTR (- ENOENT) | Some parent \<Rightarrow> parent)
        })"

end
