(* ===== verification/Tasks.thy ===== *)
theory Tasks
  imports Processes
begin

text \<open>
  Tasks and their manager (\<^verbatim>\<open>kernel/core/task.c\<close>, \<^verbatim>\<open>kernel/core/task_manager.c\<close>).

  A block from \<^verbatim>\<open>kalloc\<close> holds unknown contents until it is initialised
  (\<open>mo_fresh_task\<close>); \<^verbatim>\<open>kfree\<close> takes the object out of the map. What the code stores on a
  kernel stack is in \<open>ks_stack_mem\<close>, by the address of the word. The bodies of the idle and the
  cleanup task are endless loops; they are modelled by one round.
\<close>

abbreviation TASK_STACK_SIZE :: usize where "TASK_STACK_SIZE \<equiv> 0x10000"

abbreviation sizeof_Task :: usize where "sizeof_Task \<equiv> 256"

section \<open>Exception frames and stacks\<close>

record ExceptionFrame =
  ef_sp :: u64
  ef_reserved1 :: u64
  ef_x :: "u64 list"
  ef_x19_x30 :: "u64 list"
  ef_ELR_EL1 :: u64
  ef_SPSR_EL1 :: u64
  ef_ESR_EL1 :: u64
  ef_FAR_EL1 :: u64
  ef_SP_EL0 :: u64
  ef_reserved2 :: u64

text \<open>The frame as the words of memory it takes; \<open>ef_x\<close> has the 18 registers x0 to x17, the other list 12.\<close>

definition frame_words :: "ExceptionFrame \<Rightarrow> u64 list" where
  "frame_words f = [ef_sp f, ef_reserved1 f] @ ef_x f @ ef_x19_x30 f @
     [ef_ELR_EL1 f, ef_SPSR_EL1 f, ef_ESR_EL1 f, ef_FAR_EL1 f, ef_SP_EL0 f, ef_reserved2 f]"

fun store_words :: "u64 \<Rightarrow> u64 list \<Rightarrow> (u64 \<Rightarrow> u64) \<Rightarrow> u64 \<Rightarrow> u64" where
  "store_words a [] m = m"
| "store_words a (w # ws) m = store_words (a + 8) ws (m(a := w))"

section \<open>Tasks\<close>

definition task_init ::
  "'h mm_ops \<Rightarrow> u64 option \<Rightarrow> u64 \<Rightarrow> task_fn \<Rightarrow> u64 \<Rightarrow> usize \<Rightarrow> string \<Rightarrow> ('h, 'w, 'a) kss \<Rightarrow>
   (('h, 'w, 'a) kss \<times> errno_t) option" where
  "task_init mo p task task_fn arg tid name s = do {
     t \<leftarrow> ks_tasks s task;
     let t = t\<lparr>t_tid := tid, t_name := name\<rparr>;
     (h, stack) \<leftarrow> ho_kalloc (mo_heap mo) (fs_heap s) TASK_STACK_SIZE;
     let s = s\<lparr>fs_heap := h\<rparr>;
     let t = t\<lparr>t_stack := stack\<rparr>;
     if IS_ERR stack then Some (set_task task t s, - ENOMEM)
     else do {
       let t = t\<lparr>t_process := p,
         t_context := \<lparr>ec_regs = replicate 11 0, ec_lr = TaskTrampoline, ec_sp = stack + TASK_STACK_SIZE\<rparr>,
         t_state := TASK_READY, t_waiting_on := None, t_sleep_until := 0, t_entry := task_fn, t_arg := arg\<rparr>;
       let s = s\<lparr>ks_global_node := intrusivelist_node_init task (ks_global_node s),
                 ks_runnable_node := intrusivelist_node_init task (ks_runnable_node s),
                 ks_wait_node := intrusivelist_node_init task (ks_wait_node s)\<rparr>;
       Some (set_task task t s, EOK)
     }
   }"

definition task_init_user ::
  "'h mm_ops \<Rightarrow> u64 option \<Rightarrow> u64 \<Rightarrow> usize \<Rightarrow> usize \<Rightarrow> usize \<Rightarrow> string \<Rightarrow> ('h, 'w, 'a) kss \<Rightarrow>
   (('h, 'w, 'a) kss \<times> errno_t) option" where
  "task_init_user mo p task user_entry stack tid name s = do {
     (s, err) \<leftarrow> task_init mo p task (TaskFn 0) 0 tid name s;
     if err \<noteq> EOK then Some (s, - ENOMEM)
     else do {
       t \<leftarrow> ks_tasks s task;
       let frame = ec_sp (t_context t) - 16;
       let s = s\<lparr>ks_stack_mem := store_words frame [user_entry, stack] (ks_stack_mem s)\<rparr>;
       let t = t\<lparr>t_user_stack := stack, t_context := (t_context t)\<lparr>ec_lr := UserEntryTrampoline, ec_sp := frame\<rparr>\<rparr>;
       Some (set_task task t s, EOK)
     }
   }"

text \<open>The start of \<^verbatim>\<open>task_trampoline\<close>: the function the task goes on with.\<close>

definition task_trampoline :: "('h, 'w, 'a) kss \<Rightarrow> (('h, 'w, 'a) kss \<times> task_fn \<times> u64) option" where
  "task_trampoline s = do {
     task \<leftarrow> cpu_current (this_cpu s);
     t \<leftarrow> ks_tasks s task;
     Some (irq_local_enable s, t_entry t, t_arg t)
   }"

text \<open>\<^verbatim>\<open>task_exit\<close> does not return; the result is the state in which another task runs.\<close>

definition task_exit :: "'h mm_ops \<Rightarrow> u64 \<Rightarrow> ('h, 'w, 'a) kss \<Rightarrow> ('h, 'w, 'a) kss option" where
  "task_exit mo task s = do {
     let s = set_cpu (cx_cpu s) ((this_cpu s)\<lparr>cpu_needs_cleanup := True\<rparr>) s;
     (s, _) \<leftarrow> task_manager_set_state task TASK_DEAD s;
     s \<leftarrow> sched_yield mo s;
     ASSERT (cpu_current (this_cpu s) \<noteq> Some task);
     Some s
   }"

definition task_destroy :: "'h mm_ops \<Rightarrow> u64 \<Rightarrow> ('h, 'w, 'a) kss \<Rightarrow> ('h, 'w, 'a) kss option" where
  "task_destroy mo task s = do {
     t \<leftarrow> ks_tasks s task;
     h \<leftarrow> ho_kfree (mo_heap mo) (fs_heap s) (t_stack t);
     h \<leftarrow> ho_kfree (mo_heap mo) h task;
     Some (s\<lparr>fs_heap := h, ks_tasks := (ks_tasks s)(task := None)\<rparr>)
   }"

section \<open>The task manager\<close>

definition task_manager_init :: "('h, 'w, 'a) kss \<Rightarrow> ('h, 'w, 'a) kss" where
  "task_manager_init s = s\<lparr>ks_task_manager := \<lparr>tm_lock = spinlock_init, tm_tasks = intrusivelist_init, tm_task_id_count = 1\<rparr>\<rparr>"

text \<open>The next task id, and adding a task at the end of the list.\<close>

definition tm_next_id :: "('h, 'w, 'a) kss \<Rightarrow> ('h, 'w, 'a) kss \<times> usize" where
  "tm_next_id s = (let n = tm_task_id_count (ks_task_manager s) in
     (s\<lparr>ks_task_manager := (ks_task_manager s)\<lparr>tm_task_id_count := n + 1\<rparr>\<rparr>, n))"

definition tm_insert :: "u64 \<Rightarrow> ('h, 'w, 'a) kss \<Rightarrow> ('h, 'w, 'a) kss" where
  "tm_insert task s = (let (il, h) = intrusivelist_insert_tail (tm_tasks (ks_task_manager s)) (ks_global_node s) task in
     s\<lparr>ks_task_manager := (ks_task_manager s)\<lparr>tm_tasks := il\<rparr>, ks_global_node := h\<rparr>)"

definition task_manager_create_user ::
  "'h mm_ops \<Rightarrow> u64 option \<Rightarrow> usize \<Rightarrow> usize \<Rightarrow> string \<Rightarrow> ('h, 'w, 'a) kss \<Rightarrow> (('h, 'w, 'a) kss \<times> u64) option" where
  "task_manager_create_user mo p user_entry user_stack name s = do {
     (s, cpu) \<leftarrow> scheduler_pick_cpu s;
     (h, task) \<leftarrow> ho_kalloc (mo_heap mo) (fs_heap s) sizeof_Task;
     let s = s\<lparr>fs_heap := h\<rparr>;
     if IS_ERR task then Some (s, task)
     else do {
       let s = set_task task ((mo_fresh_task mo h task)\<lparr>t_cpu := Some cpu\<rparr>) s;
       with_lock tm_get tm_put (\<lambda>s. do {
         let (s, tid) = tm_next_id s;
         (s, err) \<leftarrow> task_init_user mo p task user_entry user_stack tid name s;
         if err \<noteq> EOK then Some (s, ERR_TO_PTR err)
         else Some (tm_insert task s, task)
       }) s
     }
   }"

definition task_manager_create_user_from ::
  "'h mm_ops \<Rightarrow> u64 option \<Rightarrow> u64 \<Rightarrow> ExceptionFrame option \<Rightarrow> ('h, 'w, 'a) kss \<Rightarrow> (('h, 'w, 'a) kss \<times> u64) option" where
  "task_manager_create_user_from mo p src src_frame s = do {
     t \<leftarrow> ks_tasks s src;
     (s, dst) \<leftarrow> task_manager_create_user mo p (mo_fn_addr mo (t_entry t)) (t_user_stack t) (t_name t) s;
     if IS_ERR dst then Some (s, dst)
     else case src_frame of None \<Rightarrow> Some (s, dst)
     | Some f \<Rightarrow> do {
         d \<leftarrow> ks_tasks s dst;
         let stack_top = t_stack d + TASK_STACK_SIZE;
         let child_frame = stack_top - 304;
         let s = s\<lparr>ks_stack_mem := store_words child_frame (frame_words (f\<lparr>ef_x := (ef_x f)[0 := 0]\<rparr>)) (ks_stack_mem s)\<rparr>;
         Some (set_task dst (d\<lparr>t_context := (t_context d)\<lparr>ec_lr := ChildReturnTrampoline, ec_sp := child_frame\<rparr>\<rparr>) s, dst)
       }
   }"

text \<open>The result of \<^verbatim>\<open>kalloc\<close> is used without a check: an error pointer is a fault.\<close>

definition task_manager_create_with_cpu ::
  "'h mm_ops \<Rightarrow> u64 option \<Rightarrow> task_fn \<Rightarrow> u64 \<Rightarrow> string \<Rightarrow> nat \<Rightarrow> ('h, 'w, 'a) kss \<Rightarrow> (('h, 'w, 'a) kss \<times> u64) option" where
  "task_manager_create_with_cpu mo p task_fn arg name cpu s = do {
     (h, task) \<leftarrow> ho_kalloc (mo_heap mo) (fs_heap s) sizeof_Task;
     ASSERT (\<not> IS_ERR task);
     let s = set_task task ((mo_fresh_task mo h task)\<lparr>t_cpu := Some cpu\<rparr>) (s\<lparr>fs_heap := h\<rparr>);
     with_lock tm_get tm_put (\<lambda>s. do {
       let (s, tid) = tm_next_id s;
       (s, err) \<leftarrow> task_init mo p task task_fn arg tid name s;
       if err \<noteq> EOK then Some (s, ERR_TO_PTR err)
       else Some (tm_insert task s, task)
     }) s
   }"

definition task_manager_create ::
  "'h mm_ops \<Rightarrow> u64 option \<Rightarrow> task_fn \<Rightarrow> u64 \<Rightarrow> string \<Rightarrow> ('h, 'w, 'a) kss \<Rightarrow> (('h, 'w, 'a) kss \<times> u64) option" where
  "task_manager_create mo p task_fn arg name s = do {
     (s, cpu) \<leftarrow> scheduler_pick_cpu s;
     task_manager_create_with_cpu mo p task_fn arg name cpu s
   }"

text \<open>The idle and cleanup task of a processor are not in the list of the manager.\<close>

definition create_own_task ::
  "'h mm_ops \<Rightarrow> task_fn \<Rightarrow> usize \<Rightarrow> string \<Rightarrow> ('h, 'w, 'a) kss \<Rightarrow> (('h, 'w, 'a) kss \<times> u64) option" where
  "create_own_task mo task_fn tid name s = do {
     (h, task) \<leftarrow> ho_kalloc (mo_heap mo) (fs_heap s) sizeof_Task;
     let s = s\<lparr>fs_heap := h\<rparr>;
     if IS_ERR task then Some (s, ERR_TO_PTR (- ENOMEM))
     else do {
       let s = set_task task ((mo_fresh_task mo h task)\<lparr>t_cpu := Some (cx_cpu s)\<rparr>) s;
       (s, err) \<leftarrow> task_init mo None task task_fn 0 tid name s;
       if err \<noteq> EOK then Some (s, ERR_TO_PTR err) else Some (s, task)
     }
   }"

definition task_manager_create_idle_task :: "'h mm_ops \<Rightarrow> ('h, 'w, 'a) kss \<Rightarrow> (('h, 'w, 'a) kss \<times> u64) option" where
  "task_manager_create_idle_task mo s = create_own_task mo TaskIdle 0 ''Idle task'' s"

definition task_manager_create_cleanup_task :: "'h mm_ops \<Rightarrow> ('h, 'w, 'a) kss \<Rightarrow> (('h, 'w, 'a) kss \<times> u64) option" where
  "task_manager_create_cleanup_task mo s = create_own_task mo TaskCleanup (- 1) ''Clean up'' s"

text \<open>\<^verbatim>\<open>intrusivelist_foreach\<close> over the tasks, up to the first that satisfies a condition.\<close>

partial_function (option) tm_find :: "(Task \<Rightarrow> bool) \<Rightarrow> u64 option \<Rightarrow> ('h, 'w, 'a) kss \<Rightarrow> u64 option option" where
  "tm_find ok node s =
     (case node of None \<Rightarrow> Some None
      | Some task \<Rightarrow> do {
          t \<leftarrow> ks_tasks s task;
          if ok t then Some (Some task) else tm_find ok (inext (ks_global_node s task)) s
        })"

definition task_manager_lookup :: "usize \<Rightarrow> ('h, 'w, 'a) kss \<Rightarrow> (('h, 'w, 'a) kss \<times> u64 option) option" where
  "task_manager_lookup task_id s =
     with_lock tm_get tm_put (\<lambda>s. do {
       r \<leftarrow> tm_find (\<lambda>t. task_id = t_tid t) (il_head (tm_tasks (ks_task_manager s))) s;
       Some (s, r)
     }) s"

definition task_manager_find_dead_task :: "('h, 'w, 'a) kss \<Rightarrow> (('h, 'w, 'a) kss \<times> u64 option) option" where
  "task_manager_find_dead_task s =
     with_lock tm_get tm_put (\<lambda>s. do {
       r \<leftarrow> tm_find (\<lambda>t. TASK_DEAD = t_state t) (il_head (tm_tasks (ks_task_manager s))) s;
       Some (s, r)
     }) s"

definition task_manager_remove_task :: "u64 \<Rightarrow> ('h, 'w, 'a) kss \<Rightarrow> (('h, 'w, 'a) kss \<times> unit) option" where
  "task_manager_remove_task task s =
     with_lock tm_get tm_put (\<lambda>s.
       let (il, h) = intrusivelist_remove (tm_tasks (ks_task_manager s)) (ks_global_node s) task in
       Some (s\<lparr>ks_task_manager := (ks_task_manager s)\<lparr>tm_tasks := il\<rparr>, ks_global_node := h\<rparr>, ())) s"

section \<open>The idle and the cleanup task\<close>

definition task_idle :: "'h mm_ops \<Rightarrow> ('h, 'w, 'a) kss \<Rightarrow> ('h, 'w, 'a) kss option" where
  "task_idle mo s = do {
     (s, runnable) \<leftarrow> scheduler_cpu_has_runnable_tasks s;
     if runnable then sched_yield mo s else Some s
   }"

text \<open>
  \<^verbatim>\<open>address_space_destroy\<close> takes the lock of the address space and frees it without releasing it:
  the interrupts of the processor stay disabled.
\<close>

definition address_space_destroy :: "'h mm_ops \<Rightarrow> u64 \<Rightarrow> ('h, 'w, 'a) kss \<Rightarrow> ('h, 'w, 'a) kss option" where
  "address_space_destroy mo as s = do {
     l \<leftarrow> mo_as_lock mo (fs_heap s) as;
     (l, s) \<leftarrow> spinlock_acquire l s;
     h \<leftarrow> mo_address_space_destroy mo (fs_heap s) as;
     Some (s\<lparr>fs_heap := h\<rparr>)
   }"

text \<open>What the cleanup task does for the process of a dead thread.\<close>

definition cleanup_process :: "'h mm_ops \<Rightarrow> u64 \<Rightarrow> u64 \<Rightarrow> ('h, 'w, 'a) kss \<Rightarrow> ('h, 'w, 'a) kss option" where
  "cleanup_process mo proc dead s = do {
     (s, _) \<leftarrow> process_remove_thread proc dead s;
     v \<leftarrow> ks_procs s proc;
     (s, last) \<leftarrow> (if pr_exiting v then do { (s, n) \<leftarrow> process_thread_count proc s; Some (s, n = 0) } else Some (s, False));
     if last then do {
       v \<leftarrow> ks_procs s proc;
       as \<leftarrow> pr_address_space v;
       s \<leftarrow> address_space_destroy mo as s;
       v \<leftarrow> ks_procs s proc;
       Some (set_proc proc (v\<lparr>pr_address_space := None\<rparr>) s)
     }
     else Some s
   }"

definition task_cleanup :: "'h mm_ops \<Rightarrow> ('h, 'w, 'a) kss \<Rightarrow> ('h, 'w, 'a) kss option" where
  "task_cleanup mo s = do {
     (s, dead) \<leftarrow> task_manager_find_dead_task s;
     case dead of
       None \<Rightarrow> sched_yield mo (set_cpu (cx_cpu s) ((this_cpu s)\<lparr>cpu_needs_cleanup := False\<rparr>) s)
     | Some dead \<Rightarrow> do {
         t \<leftarrow> ks_tasks s dead;
         ASSERT (t_waiting_on t = None);
         ASSERT (intrusivelist_node_is_null (ks_wait_node s) dead);
         ASSERT (intrusivelist_node_is_null (ks_runnable_node s) dead);
         (s, _) \<leftarrow> task_manager_remove_task dead s;
         s \<leftarrow> (case t_process t of None \<Rightarrow> Some s | Some proc \<Rightarrow> cleanup_process mo proc dead s);
         task_destroy mo dead s
       }
   }"

end
