(* ===== verification/TaskProps.thy ===== *)
theory TaskProps
  imports Tasks SchedFrame
begin

text \<open>
  The task manager: \<open>tm_inv ts s\<close> says that its list holds the tasks \<open>ts\<close>, all of them
  alive, with ids below the next one. Creation adds a task that a lookup then finds, and the rounds of
  the cleanup task free exactly the dead tasks and end.
\<close>

section \<open>Sections on the manager's lock\<close>

definition in_tm :: "('h, 'w, 'a) kss \<Rightarrow> ('h, 'w, 'a) kss" where
  "in_tm s = irq_push_intr (tm_put (held_by s) s)"

lemma tm_put_idem: "tm_get s = spinlock_init \<Longrightarrow> tm_put spinlock_init s = s"
  by (cases "ks_task_manager s") (auto intro!: kstate.equality simp: tm_put_def tm_get_def)

lemma tm_section_in:
  assumes "cx_ok s" "tm_get s = spinlock_init" "body (in_tm s) = Some (in_tm y, r)" "cx_ok y" "cx_cpu y = cx_cpu s"
    "tm_get y = spinlock_init"
  shows "with_lock tm_get tm_put body s = Some (cx_sec y, r)"
proof -
  have h: "held_by y = held_by s" using assms(5) by (simp add: held_by_def)
  have "with_lock tm_get tm_put body s = Some (cx_sec (tm_put spinlock_init (tm_put (held_by s) y)), r)"
    using assms h by (intro tml.section_eq) (simp_all add: tml.put_fields tml.get_put tm_put_simps in_tm_def)
  moreover have "tm_put spinlock_init (tm_put (held_by s) y) = tm_put spinlock_init y" by (simp add: tm_put_def)
  ultimately show ?thesis using assms(6) by (simp add: tm_put_idem)
qed

lemma in_tm_fields [simp]:
  "ks_tasks (in_tm s) = ks_tasks s" "ks_global_node (in_tm s) = ks_global_node s" "fs_heap (in_tm s) = fs_heap s"
  "tm_tasks (ks_task_manager (in_tm s)) = tm_tasks (ks_task_manager s)" "ks_stack_mem (in_tm s) = ks_stack_mem s"
  "tm_task_id_count (ks_task_manager (in_tm s)) = tm_task_id_count (ks_task_manager s)"
  "ks_runnable_node (in_tm s) = ks_runnable_node s" "ks_wait_node (in_tm s) = ks_wait_node s" "cx_cpu (in_tm s) = cx_cpu s"
  by (simp_all add: in_tm_def tm_put_def)

lemma held_by_upd [simp]: "held_by (set_task p t s) = held_by s" "held_by (s\<lparr>fs_heap := h\<rparr>) = held_by s"
  "held_by (s\<lparr>ks_global_node := n\<rparr>) = held_by s" "held_by (s\<lparr>ks_runnable_node := n\<rparr>) = held_by s"
  "held_by (s\<lparr>ks_wait_node := n\<rparr>) = held_by s" "held_by (s\<lparr>ks_stack_mem := m\<rparr>) = held_by s"
  "held_by (s\<lparr>ks_task_manager := v\<rparr>) = held_by s" for s :: "('h, 'w, 'a) kss"
  by (simp_all add: held_by_def set_task_def)

lemma in_tm_upd [simp]:
  "set_task p t (in_tm s) = in_tm (set_task p t s)" "(in_tm s)\<lparr>fs_heap := h\<rparr> = in_tm (s\<lparr>fs_heap := h\<rparr>)"
  "(in_tm s)\<lparr>ks_global_node := n\<rparr> = in_tm (s\<lparr>ks_global_node := n\<rparr>)"
  "(in_tm s)\<lparr>ks_runnable_node := n\<rparr> = in_tm (s\<lparr>ks_runnable_node := n\<rparr>)"
  "(in_tm s)\<lparr>ks_wait_node := n\<rparr> = in_tm (s\<lparr>ks_wait_node := n\<rparr>)"
  "(in_tm s)\<lparr>ks_stack_mem := m\<rparr> = in_tm (s\<lparr>ks_stack_mem := m\<rparr>)"
  by (simp_all add: in_tm_def tm_put_def set_task_def)
    (rule arg_cong [where f = irq_push_intr]; rule kstate.equality; simp add: held_by_def)+

lemma tm_get_upd [simp]: "tm_get (set_task p t s) = tm_get s" "tm_get (s\<lparr>fs_heap := h\<rparr>) = tm_get s"
  by (simp_all add: tm_get_def)

lemma in_tm_count [simp]:
  "(in_tm s)\<lparr>ks_task_manager := (ks_task_manager (in_tm s))\<lparr>tm_task_id_count := v\<rparr>\<rparr> =
     in_tm (s\<lparr>ks_task_manager := (ks_task_manager s)\<lparr>tm_task_id_count := v\<rparr>\<rparr>)"
  "(in_tm s)\<lparr>ks_task_manager := (ks_task_manager (in_tm s))\<lparr>tm_tasks := il\<rparr>\<rparr> =
     in_tm (s\<lparr>ks_task_manager := (ks_task_manager s)\<lparr>tm_tasks := il\<rparr>\<rparr>)"
  "(in_tm s)\<lparr>ks_task_manager := (ks_task_manager (in_tm s))\<lparr>tm_tasks := il\<rparr>, ks_global_node := n\<rparr> =
     in_tm (s\<lparr>ks_task_manager := (ks_task_manager s)\<lparr>tm_tasks := il\<rparr>, ks_global_node := n\<rparr>)"
  by (cases "ks_task_manager s"; simp add: in_tm_def tm_put_def;
      rule arg_cong [where f = irq_push_intr]; rule kstate.equality; simp)+

section \<open>The list of tasks\<close>

definition tid_of :: "('h, 'w, 'a) kss \<Rightarrow> u64 \<Rightarrow> usize" where
  "tid_of s p = (case ks_tasks s p of None \<Rightarrow> 0 | Some t \<Rightarrow> t_tid t)"

definition tm_inv :: "u64 list \<Rightarrow> ('h, 'w, 'a) kss \<Rightarrow> bool" where
  "tm_inv ts s \<longleftrightarrow> cx_ok s \<and> tm_get s = spinlock_init \<and> il_rep (ks_global_node s) (tm_tasks (ks_task_manager s)) ts \<and>
     (\<forall>p\<in>set ts. ks_tasks s p \<noteq> None)"

lemma tm_inv_sec [simp]: "tm_inv ts (cx_sec s) = tm_inv ts s"
  by (simp add: tm_inv_def tm_get_def)

lemma tm_find_links:
  assumes "links (ks_global_node s) pr ts None" "\<forall>p\<in>set ts. ks_tasks s p \<noteq> None"
  shows "tm_find ok (hd_ptr ts) s = Some (find (\<lambda>p. \<exists>t. ks_tasks s p = Some t \<and> ok t) ts)"
  using assms
proof (induction ts arbitrary: pr)
  case Nil
  then show ?case by (subst tm_find.simps) (simp add: hd_ptr_def)
next
  case (Cons p ts)
  then obtain t where t: "ks_tasks s p = Some t" by auto
  have n: "inext (ks_global_node s p) = hd_ptr ts" using Cons.prems(1) by (cases ts) (auto simp: hd_ptr_def)
  have "tm_find ok (hd_ptr ts) s = Some (find (\<lambda>p. \<exists>t. ks_tasks s p = Some t \<and> ok t) ts)"
    using Cons by (cases ts) auto
  then show ?case using t n by (subst tm_find.simps) (simp add: hd_ptr_def)
qed

lemma tm_find_in:
  assumes "tm_inv ts s"
  shows "tm_find ok (il_head (tm_tasks (ks_task_manager s))) (in_tm s) =
    Some (find (\<lambda>p. \<exists>t. ks_tasks s p = Some t \<and> ok t) ts)"
  using assms tm_find_links [of "in_tm s" None ts ok] by (auto simp: tm_inv_def il_rep_def)

lemma task_manager_find_eq:
  assumes "tm_inv ts s"
  shows "task_manager_lookup n s = Some (cx_sec s, find (\<lambda>p. \<exists>t. ks_tasks s p = Some t \<and> n = t_tid t) ts)"
    "task_manager_find_dead_task s = Some (cx_sec s, find (\<lambda>p. \<exists>t. ks_tasks s p = Some t \<and> TASK_DEAD = t_state t) ts)"
proof -
  have c: "cx_ok s" "tm_get s = spinlock_init" using assms by (simp_all add: tm_inv_def)
  show "task_manager_lookup n s = Some (cx_sec s, find (\<lambda>p. \<exists>t. ks_tasks s p = Some t \<and> n = t_tid t) ts)"
    unfolding task_manager_lookup_def by (rule tm_section_in) (use c in \<open>simp_all add: tm_find_in [OF assms]\<close>)
  show "task_manager_find_dead_task s = Some (cx_sec s, find (\<lambda>p. \<exists>t. ks_tasks s p = Some t \<and> TASK_DEAD = t_state t) ts)"
    unfolding task_manager_find_dead_task_def by (rule tm_section_in) (use c in \<open>simp_all add: tm_find_in [OF assms]\<close>)
qed

section \<open>Creating a task\<close>

text \<open>The contents of a task object after \<^verbatim>\<open>task_init\<close>.\<close>

definition init_task :: "u64 option \<Rightarrow> task_fn \<Rightarrow> u64 \<Rightarrow> usize \<Rightarrow> string \<Rightarrow> u64 \<Rightarrow> Task \<Rightarrow> Task" where
  "init_task p fn arg tid name stack t = t\<lparr>t_tid := tid, t_name := name, t_stack := stack, t_process := p,
     t_context := \<lparr>ec_regs = replicate 11 0, ec_lr = TaskTrampoline, ec_sp = stack + TASK_STACK_SIZE\<rparr>,
     t_state := TASK_READY, t_waiting_on := None, t_sleep_until := 0, t_entry := fn, t_arg := arg\<rparr>"

definition init_nodes :: "u64 \<Rightarrow> ('h, 'w, 'a) kss \<Rightarrow> ('h, 'w, 'a) kss" where
  "init_nodes task s = s\<lparr>ks_global_node := intrusivelist_node_init task (ks_global_node s),
     ks_runnable_node := intrusivelist_node_init task (ks_runnable_node s),
     ks_wait_node := intrusivelist_node_init task (ks_wait_node s)\<rparr>"

lemma task_init_eq:
  assumes "ks_tasks s task = Some t" "ho_kalloc (mo_heap mo) (fs_heap s) TASK_STACK_SIZE = Some (h, stack)" "\<not> IS_ERR stack"
  shows "task_init mo p task fn arg tid name s =
    Some (set_task task (init_task p fn arg tid name stack t) (init_nodes task (s\<lparr>fs_heap := h\<rparr>)), EOK)"
  using assms by (simp add: task_init_def init_task_def init_nodes_def)

lemma init_nodes_in_tm [simp]: "init_nodes task (in_tm s) = in_tm (init_nodes task s)"
  by (simp add: init_nodes_def)

lemma init_nodes_fields [simp]: "ks_tasks (init_nodes task s) = ks_tasks s" "cx_ok (init_nodes task s) = cx_ok s"
  "cx_cpu (init_nodes task s) = cx_cpu s" "tm_get (init_nodes task s) = tm_get s"
  "ks_task_manager (init_nodes task s) = ks_task_manager s"
  "ks_global_node (init_nodes task s) = intrusivelist_node_init task (ks_global_node s)"
  "ks_stack_mem (init_nodes task s) = ks_stack_mem s"
  by (simp_all add: init_nodes_def tm_get_def)

lemma tm_insert_in [simp]: "tm_insert task (in_tm s) = in_tm (tm_insert task s)"
  by (simp add: tm_insert_def split_beta)

lemma tm_insert_fields [simp]: "ks_tasks (tm_insert task s) = ks_tasks s" "cx_ok (tm_insert task s) = cx_ok s"
  "cx_cpu (tm_insert task s) = cx_cpu s" "tm_get (tm_insert task s) = tm_get s" "ks_stack_mem (tm_insert task s) = ks_stack_mem s"
  "tm_task_id_count (ks_task_manager (tm_insert task s)) = tm_task_id_count (ks_task_manager s)"
  by (simp_all add: tm_insert_def split_beta tm_get_def)

definition with_next_id :: "('h, 'w, 'a) kss \<Rightarrow> ('h, 'w, 'a) kss" where
  "with_next_id s = s\<lparr>ks_task_manager := (ks_task_manager s)\<lparr>tm_task_id_count := tm_task_id_count (ks_task_manager s) + 1\<rparr>\<rparr>"

lemma tm_next_id_in: "tm_next_id (in_tm s) = (in_tm (with_next_id s), tm_task_id_count (ks_task_manager s))"
  by (simp add: tm_next_id_def with_next_id_def Let_def)

lemma with_next_id_fields [simp]: "ks_tasks (with_next_id s) = ks_tasks s" "fs_heap (with_next_id s) = fs_heap s"
  "cx_ok (with_next_id s) = cx_ok s" "cx_cpu (with_next_id s) = cx_cpu s" "tm_get (with_next_id s) = tm_get s"
  "tm_tasks (ks_task_manager (with_next_id s)) = tm_tasks (ks_task_manager s)" "ks_global_node (with_next_id s) = ks_global_node s"
  "tm_task_id_count (ks_task_manager (with_next_id s)) = tm_task_id_count (ks_task_manager s) + 1"
  "ks_stack_mem (with_next_id s) = ks_stack_mem s"
  by (simp_all add: with_next_id_def tm_get_def)

lemma tm_inv_insert:
  assumes "il_rep (ks_global_node s) (tm_tasks (ks_task_manager s)) ts" "task \<notin> set ts" "length ts + 1 < 2 ^ 64"
  shows "il_rep (ks_global_node (tm_insert task (set_task task t (init_nodes task s))))
    (tm_tasks (ks_task_manager (tm_insert task (set_task task t (init_nodes task s))))) (ts @ [task])"
proof -
  let ?h = "intrusivelist_node_init task (ks_global_node s)"
  have "il_rep ?h (tm_tasks (ks_task_manager s)) ts"
    by (rule il_rep_cong [OF _ assms(1)]) (use assms(2) in \<open>auto simp: intrusivelist_node_init_def set_next_def set_prev_def\<close>)
  then show ?thesis
    using insert_tail_rep [OF _ assms(2,3), of ?h "tm_tasks (ks_task_manager s)"] 
    by (simp add: tm_insert_def split_beta set_task_def)
qed


text \<open>What the heap must give: two new blocks, for the object and for its stack.\<close>

definition fresh_blocks :: "'h mm_ops \<Rightarrow> u64 list \<Rightarrow> ('h, 'w, 'a) kss \<Rightarrow> u64 \<Rightarrow> 'h \<Rightarrow> u64 \<Rightarrow> 'h \<Rightarrow> bool" where
  "fresh_blocks mo ts s task h1 stack h2 \<longleftrightarrow>
     ho_kalloc (mo_heap mo) (fs_heap s) sizeof_Task = Some (h1, task) \<and> \<not> IS_ERR task \<and> task \<notin> set ts \<and>
     ho_kalloc (mo_heap mo) h1 TASK_STACK_SIZE = Some (h2, stack) \<and> \<not> IS_ERR stack"

definition created :: "'h mm_ops \<Rightarrow> u64 option \<Rightarrow> task_fn \<Rightarrow> u64 \<Rightarrow> string \<Rightarrow> nat \<Rightarrow> u64 \<Rightarrow> 'h \<Rightarrow> u64 \<Rightarrow> 'h \<Rightarrow>
    ('h, 'w, 'a) kss \<Rightarrow> ('h, 'w, 'a) kss" where
  "created mo p fn arg name cpu task h1 stack h2 s =
     tm_insert task (set_task task (init_task p fn arg (tm_task_id_count (ks_task_manager s)) name stack
       ((mo_fresh_task mo h1 task)\<lparr>t_cpu := Some cpu\<rparr>))
       (init_nodes task (with_next_id (set_task task ((mo_fresh_task mo h1 task)\<lparr>t_cpu := Some cpu\<rparr>) (s\<lparr>fs_heap := h1\<rparr>))\<lparr>fs_heap := h2\<rparr>)))"

lemma task_manager_create_with_cpu_eq:
  assumes "cx_ok s" "tm_get s = spinlock_init" "fresh_blocks mo ts s task h1 stack h2"
  shows "task_manager_create_with_cpu mo p fn arg name cpu s = Some (cx_sec (created mo p fn arg name cpu task h1 stack h2 s), task)"
proof -
  let ?t = "(mo_fresh_task mo h1 task)\<lparr>t_cpu := Some cpu\<rparr>"
  let ?s1 = "set_task task ?t (s\<lparr>fs_heap := h1\<rparr>)"
  have a: "ho_kalloc (mo_heap mo) (fs_heap s) sizeof_Task = Some (h1, task)" "\<not> IS_ERR task"
    "ho_kalloc (mo_heap mo) h1 TASK_STACK_SIZE = Some (h2, stack)" "\<not> IS_ERR stack"
    using assms(3) by (auto simp: fresh_blocks_def)
  have f: "fs_heap ?s1 = h1" "ks_task_manager ?s1 = ks_task_manager s" "cx_ok ?s1" "tm_get ?s1 = spinlock_init"
    using assms(1,2) by (simp_all add: set_task_def tm_get_def)
  have "task_init mo p task fn arg (tm_task_id_count (ks_task_manager s)) name (in_tm (with_next_id ?s1)) =
      Some (set_task task (init_task p fn arg (tm_task_id_count (ks_task_manager s)) name stack ?t)
        (init_nodes task ((in_tm (with_next_id ?s1))\<lparr>fs_heap := h2\<rparr>)), EOK)"
    by (rule task_init_eq) (use a f in simp_all)
  then have "with_lock tm_get tm_put (\<lambda>s. do {
       let (s, tid) = tm_next_id s;
       (s, err) \<leftarrow> task_init mo p task fn arg tid name s;
       if err \<noteq> EOK then Some (s, ERR_TO_PTR err)
       else Some (tm_insert task s, task)
     }) ?s1 = Some (cx_sec (created mo p fn arg name cpu task h1 stack h2 s), task)"
    using f by (intro tm_section_in) (simp_all add: tm_next_id_in created_def)
  then show ?thesis using a by (simp add: task_manager_create_with_cpu_def)
qed

lemma created_inv:
  assumes "tm_inv ts s" "length ts + 1 < 2 ^ 64" "task \<notin> set ts"
  shows "tm_inv (ts @ [task]) (created mo p fn arg name cpu task h1 stack h2 s)"
    "ks_tasks (created mo p fn arg name cpu task h1 stack h2 s) =
       (ks_tasks s)(task \<mapsto> init_task p fn arg (tm_task_id_count (ks_task_manager s)) name stack ((mo_fresh_task mo h1 task)\<lparr>t_cpu := Some cpu\<rparr>))"
    "tm_task_id_count (ks_task_manager (created mo p fn arg name cpu task h1 stack h2 s)) = tm_task_id_count (ks_task_manager s) + 1"
proof -
  let ?s1 = "with_next_id (set_task task ((mo_fresh_task mo h1 task)\<lparr>t_cpu := Some cpu\<rparr>) (s\<lparr>fs_heap := h1\<rparr>))\<lparr>fs_heap := h2\<rparr>"
  have g: "ks_global_node ?s1 = ks_global_node s" "tm_tasks (ks_task_manager ?s1) = tm_tasks (ks_task_manager s)"
    "cx_ok ?s1 = cx_ok s" "tm_get ?s1 = tm_get s"
    by (simp_all add: with_next_id_def set_task_def tm_get_def)
  show t: "ks_tasks (created mo p fn arg name cpu task h1 stack h2 s) =
       (ks_tasks s)(task \<mapsto> init_task p fn arg (tm_task_id_count (ks_task_manager s)) name stack ((mo_fresh_task mo h1 task)\<lparr>t_cpu := Some cpu\<rparr>))"
    by (simp add: created_def with_next_id_def set_task_def)
  show "tm_task_id_count (ks_task_manager (created mo p fn arg name cpu task h1 stack h2 s)) = tm_task_id_count (ks_task_manager s) + 1"
    by (simp add: created_def with_next_id_def set_task_def)
  show "tm_inv (ts @ [task]) (created mo p fn arg name cpu task h1 stack h2 s)"
    using assms g tm_inv_insert [of ?s1 ts task] unfolding tm_inv_def t
    by (auto simp: created_def)
qed

text \<open>
  Claim C8. \<^verbatim>\<open>task_manager_create_with_cpu\<close> returns a new task whenever the heap has the two
  blocks for it: ready, on the given processor, starting in the trampoline at the top of its own stack,
  with the next task id. A lookup of that id finds the new task, a lookup of any id already given finds
  what it found before, no other task changes, and ids are never given twice before they wrap.
\<close>

theorem task_create_lookup:
  assumes "tm_inv ts s" "length ts + 1 < 2 ^ 64" "fresh_blocks mo ts s task h1 stack h2"
    and "n = tm_task_id_count (ks_task_manager s)" "\<forall>p\<in>set ts. tid_of s p < n"
  shows "\<exists>s'. task_manager_create_with_cpu mo p fn arg name cpu s = Some (s', task) \<and> tm_inv (ts @ [task]) s' \<and>
    (\<exists>t. ks_tasks s' task = Some t \<and> t_state t = TASK_READY \<and> t_cpu t = Some cpu \<and> t_tid t = n \<and> t_process t = p \<and>
       t_context t = \<lparr>ec_regs = replicate 11 0, ec_lr = TaskTrampoline, ec_sp = stack + TASK_STACK_SIZE\<rparr> \<and>
       t_entry t = fn \<and> t_arg t = arg) \<and>
    (\<forall>x. x \<noteq> task \<longrightarrow> ks_tasks s' x = ks_tasks s x) \<and>
    map_option snd (task_manager_lookup n s') = Some (Some task) \<and>
    (\<forall>m < n. map_option snd (task_manager_lookup m s') = map_option snd (task_manager_lookup m s)) \<and>
    (n \<noteq> - 1 \<longrightarrow> (\<forall>p\<in>set (ts @ [task]). tid_of s' p < tm_task_id_count (ks_task_manager s')))"
proof -
  let ?c = "created mo p fn arg name cpu task h1 stack h2 s"
  have nt: "task \<notin> set ts" using assms(3) by (simp add: fresh_blocks_def)
  have e: "task_manager_create_with_cpu mo p fn arg name cpu s = Some (cx_sec ?c, task)"
    by (rule task_manager_create_with_cpu_eq [OF _ _ assms(3)]) (use assms(1) in \<open>simp_all add: tm_inv_def\<close>)
  note c = created_inv [OF assms(1,2) nt, of mo p fn arg name cpu h1 stack h2, folded assms(4)]
  have i: "tm_inv (ts @ [task]) (cx_sec ?c)" using c(1) by simp
  have o: "find (\<lambda>q. \<exists>t. ks_tasks ?c q = Some t \<and> m = t_tid t) ts = find (\<lambda>q. \<exists>t. ks_tasks s q = Some t \<and> m = t_tid t) ts" for m
    using nt by (intro find_cong refl) (auto simp: c(2))
  have none: "find (\<lambda>q. \<exists>t. ks_tasks s q = Some t \<and> n = t_tid t) ts = None"
    using assms(5) by (auto simp: find_None_iff tid_of_def)
  have app: "find P (ts @ [task]) = (case find P ts of None \<Rightarrow> if P task then Some task else None | Some x \<Rightarrow> Some x)" for P
    by (induction ts) auto
  have tn: "ks_tasks ?c task = Some (init_task p fn arg n name stack ((mo_fresh_task mo h1 task)\<lparr>t_cpu := Some cpu\<rparr>))"
    using c(2) by simp
  have "map_option snd (task_manager_lookup n (cx_sec ?c)) = Some (Some task)"
    unfolding task_manager_find_eq(1) [OF i] app using o [of n] none tn by (simp add: init_task_def)
  moreover have "map_option snd (task_manager_lookup m (cx_sec ?c)) = map_option snd (task_manager_lookup m s)" if "m < n" for m
    unfolding task_manager_find_eq(1) [OF i] task_manager_find_eq(1) [OF assms(1)] app
    using o [of m] tn that by (auto simp: init_task_def split: option.split)
  moreover have "tid_of ?c q < n + 1" if "n \<noteq> - 1" "q \<in> set (ts @ [task])" for q
  proof -
    have "n < - 1" using that(1) by (simp add: word_order.not_eq_extremum)
    then have "n < n + 1" by unat_arith
    then show ?thesis using assms(5) that(2) nt tn by (auto simp: tid_of_def c(2) init_task_def)
  qed
  ultimately show ?thesis
    using e i c tn by (intro exI [of _ "cx_sec ?c"]) (simp add: init_task_def tid_of_def)
qed

text \<open>A manager that knows the task 0x2000, and a heap that gives 0x9000 for objects and 0x20000 for stacks.\<close>

definition tm_example :: "TaskState \<Rightarrow> (unit, nat) kstate" where
  "tm_example st = ks_example\<lparr>ks_tasks := tasks_ex(0x2000 \<mapsto> task_ex st),
     ks_task_manager := \<lparr>tm_lock = spinlock_init, tm_tasks = single 0x2000, tm_task_id_count = 5\<rparr>\<rparr>"

definition mm_tasks :: "unit mm_ops" where
  "mm_tasks = mm_example\<lparr>mo_heap := heap_example\<lparr>ho_kalloc := (\<lambda>_ n. Some ((), if n = sizeof_Task then 0x9000 else 0x20000))\<rparr>\<rparr>"

lemma tm_example_fields [simp]:
  "ks_tasks (tm_example st) = tasks_ex(0x2000 \<mapsto> task_ex st)" "ks_global_node (tm_example st) = nodes_ex"
  "ks_wait_node (tm_example st) = nodes_ex" "ks_runnable_node (tm_example st) = nodes_ex"
  "ks_task_manager (tm_example st) = \<lparr>tm_lock = spinlock_init, tm_tasks = single 0x2000, tm_task_id_count = 5\<rparr>"
  by (simp_all add: tm_example_def) (simp add: ks_example_def fs_state.defs cpu_ctx.defs)

lemma tm_example_inv: "tm_inv [0x2000] (tm_example st)"
  using ks_example_cx single_rep [of "0x2000"] by (simp add: tm_inv_def tm_get_def) (simp add: tm_example_def)

theorem task_create_lookup_witness:
  "\<exists>s'. task_manager_create_with_cpu mm_tasks None (TaskFn 1) 7 ''worker'' 0 (tm_example TASK_READY) = Some (s', 0x9000) \<and>
     tm_inv [0x2000, 0x9000] s' \<and> map_option snd (task_manager_lookup 5 s') = Some (Some 0x9000)"
proof -
  have f: "fresh_blocks mm_tasks [0x2000] (tm_example TASK_READY) 0x9000 () 0x20000 ()"
    by (simp add: fresh_blocks_def mm_tasks_def heap_example_def IS_ERR_unat)
  have t: "\<forall>p\<in>set [0x2000]. tid_of (tm_example TASK_READY) p < 5" by (simp add: tid_of_def task_ex_def)
  show ?thesis
    using task_create_lookup [OF tm_example_inv _ f _ t, of None "TaskFn 1" 7 "''worker''" 0] by auto
qed


section \<open>The cleanup task\<close>

definition is_dead :: "('h, 'w, 'a) kss \<Rightarrow> u64 \<Rightarrow> bool" where
  "is_dead s p \<longleftrightarrow> (\<exists>t. ks_tasks s p = Some t \<and> TASK_DEAD = t_state t)"

text \<open>The dead tasks of the list are kernel threads that left every queue.\<close>

definition reapable :: "u64 list \<Rightarrow> ('h, 'w, 'a) kss \<Rightarrow> bool" where
  "reapable ts s \<longleftrightarrow> (\<forall>p\<in>set ts. is_dead s p \<longrightarrow> (\<forall>t. ks_tasks s p = Some t \<longrightarrow> t_process t = None \<and> t_waiting_on t = None) \<and>
     intrusivelist_node_is_null (ks_wait_node s) p \<and> intrusivelist_node_is_null (ks_runnable_node s) p)"

definition tm_delete :: "u64 \<Rightarrow> ('h, 'w, 'a) kss \<Rightarrow> ('h, 'w, 'a) kss" where
  "tm_delete task s = (let (il, h) = intrusivelist_remove (tm_tasks (ks_task_manager s)) (ks_global_node s) task in
     s\<lparr>ks_task_manager := (ks_task_manager s)\<lparr>tm_tasks := il\<rparr>, ks_global_node := h\<rparr>)"

lemma tm_delete_fields [simp]: "ks_tasks (tm_delete task s) = ks_tasks s" "cx_ok (tm_delete task s) = cx_ok s"
  "cx_cpu (tm_delete task s) = cx_cpu s" "tm_get (tm_delete task s) = tm_get s" "ks_wait_node (tm_delete task s) = ks_wait_node s"
  "ks_runnable_node (tm_delete task s) = ks_runnable_node s" "ks_cpus (tm_delete task s) = ks_cpus s" "fs_heap (tm_delete task s) = fs_heap s"
  by (simp_all add: tm_delete_def split_beta tm_get_def)

lemma task_manager_remove_task_eq:
  assumes "cx_ok s" "tm_get s = spinlock_init"
  shows "task_manager_remove_task task s = Some (cx_sec (tm_delete task s), ())"
  unfolding task_manager_remove_task_def
  by (rule tm_section_in) (use assms in \<open>simp_all add: tm_delete_def split_beta\<close>, simp_all add: tm_get_def)

lemma tm_delete_rep:
  assumes "il_rep (ks_global_node s) (tm_tasks (ks_task_manager s)) (as @ d # bs)"
  shows "il_rep (ks_global_node (tm_delete d s)) (tm_tasks (ks_task_manager (tm_delete d s))) (as @ bs)"
  using remove_rep [OF assms] by (simp add: tm_delete_def split_beta)

text \<open>One round that finds a dead task.\<close>

lemma cleanup_round:
  assumes inv: "tm_inv (as @ d # bs) s" and d: "is_dead s d" "\<forall>p\<in>set as. \<not> is_dead s p" and r: "reapable (as @ d # bs) s"
    and k: "kfree_total (mo_heap mo)"
  shows "\<exists>s'. task_cleanup mo s = Some s' \<and> tm_inv (as @ bs) s' \<and> ks_tasks s' = (ks_tasks s)(d := None) \<and>
    reapable (as @ bs) s' \<and> cx_same s s' \<and> ks_cpus s' = ks_cpus s"
proof -
  have c: "cx_ok s" "tm_get s = spinlock_init" and rep: "il_rep (ks_global_node s) (tm_tasks (ks_task_manager s)) (as @ d # bs)"
    and ex: "\<forall>p\<in>set (as @ d # bs). ks_tasks s p \<noteq> None" using inv by (simp_all add: tm_inv_def)
  obtain t where t: "ks_tasks s d = Some t" "t_state t = TASK_DEAD" using d(1) by (auto simp: is_dead_def)
  have dist: "d \<notin> set (as @ bs)" using rep by (auto simp: il_rep_def)
  have "find (is_dead s) as = None" using d(2) by (simp add: find_None_iff)
  moreover have "find P (as @ xs) = (case find P as of None \<Rightarrow> find P xs | Some x \<Rightarrow> Some x)" for P xs by (induction as) auto
  ultimately have "find (is_dead s) (as @ d # bs) = Some d" using d(1) by simp
  then have f: "task_manager_find_dead_task s = Some (cx_sec s, Some d)"
    using task_manager_find_eq(2) [OF inv] unfolding is_dead_def [abs_def] by simp
  obtain h1 where h1: "ho_kfree (mo_heap mo) (fs_heap s) (t_stack t) = Some h1" using k by (auto simp: kfree_total_def)
  obtain h2 where h2: "ho_kfree (mo_heap mo) h1 d = Some h2" using k by (auto simp: kfree_total_def)
  have q: "t_process t = None" "t_waiting_on t = None" "intrusivelist_node_is_null (ks_wait_node s) d"
    "intrusivelist_node_is_null (ks_runnable_node s) d" using r d(1) t(1) by (auto simp: reapable_def)
  let ?s' = "(cx_sec (tm_delete d s))\<lparr>fs_heap := h2, ks_tasks := (ks_tasks s)(d := None)\<rparr>"
  have rm: "task_manager_remove_task d (cx_sec s) = Some (cx_sec (tm_delete d s), ())"
    using task_manager_remove_task_eq [of "cx_sec s" d] c by (simp add: tm_delete_def split_beta tm_get_def)
  have "task_cleanup mo s = Some ?s'"
    using f t q h1 h2 rm by (simp add: task_cleanup_def task_destroy_def)
  moreover have "tm_inv (as @ bs) ?s'"
    using c ex dist tm_delete_rep [OF rep] tm_delete_fields(4) [of d s] unfolding tm_get_def by (auto simp: tm_inv_def tm_get_def)
  moreover have "reapable (as @ bs) ?s'" using r dist by (auto simp: reapable_def is_dead_def)
  moreover have "cx_same s ?s'" by (simp add: cx_same_def tm_delete_def split_beta cx_sec_def)
  ultimately show ?thesis by (intro exI [of _ ?s']) simp
qed

primrec cleanup_rounds :: "'h mm_ops \<Rightarrow> nat \<Rightarrow> ('h, 'w, 'a) kss \<Rightarrow> ('h, 'w, 'a) kss option" where
  "cleanup_rounds mo 0 s = Some s"
| "cleanup_rounds mo (Suc n) s = Option.bind (task_cleanup mo s) (cleanup_rounds mo n)"

lemma split_dead:
  assumes "filter P ts \<noteq> []"
  obtains as d bs where "ts = as @ d # bs" "P d" "\<forall>p\<in>set as. \<not> P p"
  using assms by (metis filter_False split_list_first_prop)

lemma cleanup_rounds_ok:
  assumes "tm_inv ts s" "reapable ts s" "kfree_total (mo_heap mo)" "n = length (filter (is_dead s) ts)"
  shows "\<exists>s'. cleanup_rounds mo n s = Some s' \<and> tm_inv (filter (\<lambda>p. \<not> is_dead s p) ts) s' \<and> cx_same s s' \<and> ks_cpus s' = ks_cpus s \<and>
    (\<forall>x. ks_tasks s' x = (if x \<in> set ts \<and> is_dead s x then None else ks_tasks s x))"
  using assms
proof (induction n arbitrary: ts s)
  case 0
  then have "filter (is_dead s) ts = []" by simp
  then have "\<forall>x\<in>set ts. \<not> is_dead s x" by (simp add: filter_empty_conv)
  then show ?case using 0 by auto
next
  case (Suc n)
  then have "filter (is_dead s) ts \<noteq> []" by auto
  then obtain as d bs where ts: "ts = as @ d # bs" "is_dead s d" "\<forall>p\<in>set as. \<not> is_dead s p" by (rule split_dead)
  obtain s1 where s1: "task_cleanup mo s = Some s1" "tm_inv (as @ bs) s1" "ks_tasks s1 = (ks_tasks s)(d := None)"
    "reapable (as @ bs) s1" "cx_same s s1" "ks_cpus s1 = ks_cpus s"
    using cleanup_round [OF Suc.prems(1) [unfolded ts(1)] ts(2,3) Suc.prems(2) [unfolded ts(1)] Suc.prems(3)] by blast
  have dist: "d \<notin> set (as @ bs)" using Suc.prems(1) ts(1) by (auto simp: tm_inv_def il_rep_def)
  have e: "is_dead s1 x = is_dead s x" if "x \<noteq> d" for x using that by (simp add: is_dead_def s1(3))
  have e': "is_dead s1 x = is_dead s x" if "x \<in> set (as @ bs)" for x using e [of x] that dist by blast
  have fe: "filter (is_dead s1) xs = filter (is_dead s) xs" "filter (\<lambda>p. \<not> is_dead s1 p) xs = filter (\<lambda>p. \<not> is_dead s p) xs"
    if "set xs \<subseteq> set (as @ bs)" for xs
    using e' subsetD [OF that] by (auto intro!: filter_cong [OF refl])
  have "n = length (filter (is_dead s1) (as @ bs))" using Suc.prems(4) ts fe(1) [of as] fe(1) [of bs] by simp
  then obtain s' where s': "cleanup_rounds mo n s1 = Some s'" "tm_inv (filter (\<lambda>p. \<not> is_dead s1 p) (as @ bs)) s'" "cx_same s1 s'"
    "ks_cpus s' = ks_cpus s1" "\<forall>x. ks_tasks s' x = (if x \<in> set (as @ bs) \<and> is_dead s1 x then None else ks_tasks s1 x)"
    using Suc.IH [OF s1(2,4) Suc.prems(3)] by blast
  have "filter (\<lambda>p. \<not> is_dead s1 p) (as @ bs) = filter (\<lambda>p. \<not> is_dead s p) ts" using fe(2) [of "as @ bs"] ts by simp
  moreover have "ks_tasks s' x = (if x \<in> set ts \<and> is_dead s x then None else ks_tasks s x)" for x
    using s'(5) e [of x] dist ts by (auto simp: s1(3) is_dead_def)
  ultimately show ?case
    using s1 s' cx_same_trans [OF s1(5) s'(3)] by (intro exI [of _ s']) simp
qed



text \<open>
  The cleanup of the last thread of an exiting process leaves the interrupts of the processor disabled:
  the lock of the address space is taken and never released.
\<close>

lemma address_space_destroy_masks:
  assumes "mo_as_lock mo (fs_heap s) as = Some spinlock_init" "mo_address_space_destroy mo (fs_heap s) as = Some h" "cx_ok s"
  shows "\<exists>s'. address_space_destroy mo as s = Some s' \<and> cx_irq_disable_depth s' = cx_irq_disable_depth s + 1 \<and>
    \<not> irq_local_is_enable s'"
  using assms irq_push_pushed [of "s\<lparr>fs_heap := h\<rparr>"]
  by (simp add: address_space_destroy_def spinlock_acquire_def Let_def holding_def spinlock_init_def cx_pushed_def
      irq_local_is_enable_def)

end
