(* ===== verification/ProcManager.thy ===== *)
theory ProcManager
  imports Tasks
begin

text \<open>
  The process manager (\<^verbatim>\<open>kernel/core/process_manager.c\<close>): creating processes, from nothing, from
  an ELF image, from a program in memory, and from another process (fork), and destroying them. The
  console behind the standard files is given by \<open>con_read\<close> and \<open>con_write\<close>.
\<close>

abbreviation sizeof_Process :: usize where "sizeof_Process \<equiv> 216"

abbreviation USER_TASK_STACK_SIZE :: usize where "USER_TASK_STACK_SIZE \<equiv> 0x10000"

type_synonym 'w con_read = "'w \<Rightarrow> 'w \<times> u8 option"
type_synonym 'w con_write = "u8 list \<Rightarrow> 'w \<Rightarrow> 'w"

definition proc_manager_init :: "('h, 'w, 'a) kss \<Rightarrow> ('h, 'w, 'a) kss" where
  "proc_manager_init s = s\<lparr>ks_proc_manager := \<lparr>pm_lock = spinlock_init, pm_process_list = intrusivelist_init, pm_pid_count = 1\<rparr>\<rparr>"

text \<open>Memory of processes: \<^verbatim>\<open>kalloc\<close> with unknown contents, \<^verbatim>\<open>kfree\<close>.\<close>

definition alloc_process :: "'h mm_ops \<Rightarrow> ('h, 'w, 'a) kss \<Rightarrow> (('h, 'w, 'a) kss \<times> u64) option" where
  "alloc_process mo s = do {
     (h, proc) \<leftarrow> ho_kalloc (mo_heap mo) (fs_heap s) sizeof_Process;
     let s = s\<lparr>fs_heap := h\<rparr>;
     Some (if IS_ERR proc then s else set_proc proc (mo_fresh_process mo h proc) s, proc)
   }"

definition free_process :: "'h mm_ops \<Rightarrow> u64 \<Rightarrow> ('h, 'w, 'a) kss \<Rightarrow> ('h, 'w, 'a) kss option" where
  "free_process mo proc s = do {
     h \<leftarrow> ho_kfree (mo_heap mo) (fs_heap s) proc;
     Some (s\<lparr>fs_heap := h, ks_procs := (ks_procs s)(proc := None)\<rparr>)
   }"

definition pm_next_pid :: "('h, 'w, 'a) kss \<Rightarrow> ('h, 'w, 'a) kss \<times> usize" where
  "pm_next_pid s = (let n = pm_pid_count (ks_proc_manager s) in
     (s\<lparr>ks_proc_manager := (ks_proc_manager s)\<lparr>pm_pid_count := n + 1\<rparr>\<rparr>, n))"

definition pm_insert :: "u64 \<Rightarrow> ('h, 'w, 'a) kss \<Rightarrow> ('h, 'w, 'a) kss" where
  "pm_insert proc s = (let (il, h) = intrusivelist_insert_tail (pm_process_list (ks_proc_manager s)) (ks_manager_node s) proc in
     s\<lparr>ks_proc_manager := (ks_proc_manager s)\<lparr>pm_process_list := il\<rparr>, ks_manager_node := h\<rparr>)"

definition set_fdtable :: "u64 \<Rightarrow> FDTable \<Rightarrow> ('h, 'w, 'a) kss \<Rightarrow> ('h, 'w, 'a) kss" where
  "set_fdtable a t s = s\<lparr>ks_fdtables := (ks_fdtables s)(a \<mapsto> t)\<rparr>"

definition proc_manager_create_impl ::
  "'h mm_ops \<Rightarrow> 'w con_read \<Rightarrow> 'w con_write \<Rightarrow> string \<Rightarrow> ('h, 'w, 'a) kss \<Rightarrow> (('h, 'w, 'a) kss \<times> u64) option" where
  "proc_manager_create_impl mo con_read con_write name s = do {
     (s, proc) \<leftarrow> alloc_process mo s;
     if IS_ERR proc then Some (s, proc)
     else do {
       (s, table, ft) \<leftarrow> fdtable_create (mo_heap mo) s;
       case ft of
         None \<Rightarrow> do { s \<leftarrow> free_process mo proc s; Some (s, ERR_TO_PTR (- ENOMEM)) }
       | Some t \<Rightarrow> do {
           (t, s, ret) \<leftarrow> fdtable_attach_std_files (mo_heap mo) con_read con_write t s;
           if ret \<noteq> EOK then do {
             s \<leftarrow> free_process mo proc s;
             (s, _) \<leftarrow> fdtable_destroy (mo_heap mo) table t s;
             Some (s, ERR_TO_PTR (- EMFILE))
           }
           else do {
             (h, as) \<leftarrow> mo_address_space_create mo (fs_heap s) name;
             let s = s\<lparr>fs_heap := h\<rparr>;
             if IS_ERR as then do {
               s \<leftarrow> free_process mo proc s;
               (s, _) \<leftarrow> fdtable_destroy (mo_heap mo) table t s;
               Some (s, ERR_TO_PTR (- ENOMEM))
             }
             else do {
               let (s, pid) = pm_next_pid (set_fdtable table t s);
               s \<leftarrow> process_init proc pid name as table s;
               Some (pm_insert proc s, proc)
             }
           }
         }
     }
   }"

definition proc_manager_create ::
  "'h mm_ops \<Rightarrow> 'w con_read \<Rightarrow> 'w con_write \<Rightarrow> string \<Rightarrow> ('h, 'w, 'a) kss \<Rightarrow> (('h, 'w, 'a) kss \<times> u64) option" where
  "proc_manager_create mo con_read con_write name s =
     with_lock pm_get pm_put (proc_manager_create_impl mo con_read con_write name) s"

text \<open>Destroying a process: the parts under the lock of the manager, in order.\<close>

definition destroy_files :: "'h mm_ops \<Rightarrow> u64 option \<Rightarrow> ('h, 'w, 'a) kss \<Rightarrow> ('h, 'w, 'a) kss option" where
  "destroy_files mo files s =
     (case files of None \<Rightarrow> Some s
      | Some table \<Rightarrow> do {
          t \<leftarrow> ks_fdtables s table;
          (t, s, _) \<leftarrow> fdtable_close_all (mo_heap mo) t s;
          (s, _) \<leftarrow> fdtable_destroy (mo_heap mo) table t s;
          Some (s\<lparr>ks_fdtables := (ks_fdtables s)(table := None)\<rparr>)
        })"

definition proc_manager_remove_destroy :: "'h mm_ops \<Rightarrow> u64 \<Rightarrow> ('h, 'w, 'a) kss \<Rightarrow> (('h, 'w, 'a) kss \<times> unit) option" where
  "proc_manager_remove_destroy mo proc s =
     with_lock pm_get pm_put (\<lambda>s. do {
       v \<leftarrow> ks_procs s proc;
       ASSERT (pr_state v = PROCESS_ZOMBIE);
       ASSERT (intrusivelist_count (pr_threads v) = 0);
       let (il, h) = intrusivelist_remove (pm_process_list (ks_proc_manager s)) (ks_manager_node s) proc;
       let s = s\<lparr>ks_proc_manager := (ks_proc_manager s)\<lparr>pm_process_list := il\<rparr>, ks_manager_node := h\<rparr>;
       s \<leftarrow> (case pr_address_space v of None \<Rightarrow> Some s | Some as \<Rightarrow> address_space_destroy mo as s);
       s \<leftarrow> destroy_files mo (pr_files v) s;
       s \<leftarrow> free_process mo proc s;
       Some (s, ())
     }) s"

text \<open>An operation on an address space under its lock.\<close>

definition as_scoped ::
  "'h mm_ops \<Rightarrow> u64 \<Rightarrow> ('h \<Rightarrow> ('h \<times> 'r) option) \<Rightarrow> ('h, 'w, 'a) kss \<Rightarrow> (('h, 'w, 'a) kss \<times> 'r) option" where
  "as_scoped mo as f s = do {
     l \<leftarrow> mo_as_lock mo (fs_heap s) as;
     (l, s) \<leftarrow> spinlock_acquire l s;
     (h, r) \<leftarrow> f (fs_heap s);
     (l, s) \<leftarrow> spinlock_release l (s\<lparr>fs_heap := h\<rparr>);
     Some (s, r)
   }"

text \<open>The copy of an address space; on an error after its creation the copy is destroyed, with its lock held.\<close>

definition address_space_create_from :: "'h mm_ops \<Rightarrow> u64 \<Rightarrow> ('h, 'w, 'a) kss \<Rightarrow> (('h, 'w, 'a) kss \<times> u64) option" where
  "address_space_create_from mo src s = do {
     l \<leftarrow> mo_as_lock mo (fs_heap s) src;
     (l, s) \<leftarrow> spinlock_acquire l s;
     (h, dst, destroyed) \<leftarrow> mo_address_space_create_from mo (fs_heap s) src;
     let s = s\<lparr>fs_heap := h\<rparr>;
     (l, s) \<leftarrow> spinlock_release l (if destroyed then irq_push_intr s else s);
     Some (s, dst)
   }"

definition proc_manager_create_exec_from_elf ::
  "'h mm_ops \<Rightarrow> 'w con_read \<Rightarrow> 'w con_write \<Rightarrow> string \<Rightarrow> u8 list \<Rightarrow> ('h, 'w, 'a) kss \<Rightarrow> (('h, 'w, 'a) kss \<times> u64) option" where
  "proc_manager_create_exec_from_elf mo con_read con_write name elf s = do {
     (s, proc) \<leftarrow> proc_manager_create mo con_read con_write name s;
     v \<leftarrow> ks_procs s proc;
     as \<leftarrow> pr_address_space v;
     (h, err, entry) \<leftarrow> mo_elf_load mo (fs_heap s) elf as;
     let s = s\<lparr>fs_heap := h\<rparr>;
     if err \<noteq> EOK then do { (s, _) \<leftarrow> proc_manager_remove_destroy mo proc s; Some (s, ERR_TO_PTR err) }
     else do {
       (s, ustack) \<leftarrow> as_scoped mo as (\<lambda>h. mo_address_space_alloc mo h as USER_TASK_STACK_SIZE) s;
       if IS_ERR ustack then do { (s, _) \<leftarrow> proc_manager_remove_destroy mo proc s; Some (s, ERR_TO_PTR (- ENOMEM)) }
       else do {
         (s, task) \<leftarrow> task_manager_create_user mo (Some proc) entry (ustack + USER_TASK_STACK_SIZE) name s;
         if IS_ERR task then do { (s, _) \<leftarrow> proc_manager_remove_destroy mo proc s; Some (s, ERR_TO_PTR (- ENOMEM)) }
         else do {
           (s, _) \<leftarrow> process_add_thread proc task s;
           (s, _) \<leftarrow> scheduler_enqueue task s;
           Some (s, proc)
         }
       }
     }
   }"

text \<open>The error paths of the two functions below free the process object alone.\<close>

definition abandon_process :: "'h mm_ops \<Rightarrow> u64 \<Rightarrow> u64 \<Rightarrow> ('h, 'w, 'a) kss \<Rightarrow> (('h, 'w, 'a) kss \<times> u64) option" where
  "abandon_process mo proc as s = do {
     s \<leftarrow> address_space_destroy mo as s;
     s \<leftarrow> free_process mo proc s;
     Some (s, ERR_TO_PTR (- ENOMEM))
   }"

definition USER_PROGRAM_START_VM :: usize where "USER_PROGRAM_START_VM = 0x400000"

definition proc_manager_create_exec ::
  "'h mm_ops \<Rightarrow> 'w con_read \<Rightarrow> 'w con_write \<Rightarrow> string \<Rightarrow> usize \<Rightarrow> usize \<Rightarrow> usize \<Rightarrow> ('h, 'w, 'a) kss \<Rightarrow>
   (('h, 'w, 'a) kss \<times> u64) option" where
  "proc_manager_create_exec mo con_read con_write name program_pa program_size entry s =
     with_lock pm_get pm_put (\<lambda>s. do {
       (s, proc) \<leftarrow> proc_manager_create_impl mo con_read con_write name s;
       if IS_ERR proc then Some (s, proc)
       else do {
         v \<leftarrow> ks_procs s proc;
         as \<leftarrow> pr_address_space v;
         (s, ustack) \<leftarrow> as_scoped mo as (\<lambda>h. mo_address_space_alloc mo h as USER_TASK_STACK_SIZE) s;
         if IS_ERR ustack then abandon_process mo proc as s
         else do {
           (s, err) \<leftarrow> as_scoped mo as (\<lambda>h. mo_address_space_map_owned mo h as USER_PROGRAM_START_VM program_pa program_size) s;
           if err \<noteq> EOK then abandon_process mo proc as s
           else do {
             (s, task) \<leftarrow> task_manager_create_user mo (Some proc) entry (ustack + USER_TASK_STACK_SIZE) name s;
             if IS_ERR task then abandon_process mo proc as s
             else do {
               (s, _) \<leftarrow> process_add_thread proc task s;
               (s, _) \<leftarrow> scheduler_enqueue task s;
               Some (s, proc)
             }
           }
         }
       }
     }) s"

definition proc_manager_create_exec_from ::
  "'h mm_ops \<Rightarrow> u64 \<Rightarrow> u64 \<Rightarrow> ExceptionFrame option \<Rightarrow> ('h, 'w, 'a) kss \<Rightarrow> (('h, 'w, 'a) kss \<times> u64) option" where
  "proc_manager_create_exec_from mo src_proc src_task src_frame s =
     with_lock pm_get pm_put (\<lambda>s. do {
       src \<leftarrow> ks_procs s src_proc;
       (s, dst) \<leftarrow> alloc_process mo s;
       if IS_ERR dst then Some (s, dst)
       else do {
         files \<leftarrow> pr_files src;
         ft \<leftarrow> ks_fdtables s files;
         (ft, s, table, nt) \<leftarrow> fdtable_create_from (mo_heap mo) ft s;
         let s = set_fdtable files ft s;
         case nt of
           None \<Rightarrow> do { s \<leftarrow> free_process mo dst s; Some (s, ERR_TO_PTR (- ENOMEM)) }
         | Some nt \<Rightarrow> do {
             src_as \<leftarrow> pr_address_space src;
             (s, as) \<leftarrow> address_space_create_from mo src_as s;
             if IS_ERR as then do {
               s \<leftarrow> free_process mo dst s;
               (s, _) \<leftarrow> fdtable_destroy (mo_heap mo) table nt s;
               Some (s, ERR_TO_PTR (- ENOMEM))
             }
             else do {
               let (s, pid) = pm_next_pid (set_fdtable table nt s);
               s \<leftarrow> process_init dst pid (pr_name src) as table s;
               (s, dst_task) \<leftarrow> task_manager_create_user_from mo (Some dst) src_task src_frame s;
               if IS_ERR dst_task then abandon_process mo dst as s
               else do {
                 let s = pm_insert dst s;
                 (s, _) \<leftarrow> process_add_thread dst dst_task s;
                 (s, _) \<leftarrow> scheduler_enqueue dst_task s;
                 Some (s, dst)
               }
             }
           }
       }
     }) s"

text \<open>The result of \<^verbatim>\<open>proc_manager_create_exec_from\<close> is used without a check.\<close>

definition proc_manager_create_exec_child_from ::
  "'h mm_ops \<Rightarrow> u64 \<Rightarrow> u64 \<Rightarrow> ExceptionFrame option \<Rightarrow> ('h, 'w, 'a) kss \<Rightarrow> (('h, 'w, 'a) kss \<times> u64) option" where
  "proc_manager_create_exec_child_from mo parent parent_task parent_frame s = do {
     (s, child) \<leftarrow> proc_manager_create_exec_from mo parent parent_task parent_frame s;
     (s, _) \<leftarrow> process_add_child parent child s;
     (s, _) \<leftarrow> process_set_parent parent child s;
     Some (s, child)
   }"

end
