(* ===== verification/Syscalls.thy ===== *)
theory Syscalls
  imports ProcManager
begin

text \<open>
  System calls (\<^verbatim>\<open>kernel/syscall\<close>). A handler ends in one of two ways: it returns a
  \<^verbatim>\<open>SyscallReturn\<close> to the caller, or the calling task stops running inside it and the
  state is that of the task that runs next (\<open>None\<close> as the outcome). A task that blocked in
  \<^verbatim>\<open>sys_wait4\<close> goes on with the next round of its loop when it is woken.
\<close>

record SyscallReturn =
  sr_ret :: int
  sr_should_resched :: bool

definition sc_arg :: "ExceptionFrame \<Rightarrow> nat \<Rightarrow> u64" where
  "sc_arg frame i = ef_x frame ! i"

abbreviation i64_of :: "u64 \<Rightarrow> int" where "i64_of w \<equiv> sint w"

type_synonym ('h, 'w, 'a) sys_result = "(('h, 'w, 'a) kss \<times> SyscallReturn option) option"

definition returns :: "int \<Rightarrow> bool \<Rightarrow> ('h, 'w, 'a) kss \<Rightarrow> ('h, 'w, 'a) sys_result" where
  "returns ret resched s = Some (s, Some \<lparr>sr_ret = ret, sr_should_resched = resched\<rparr>)"

text \<open>The address space of the current process, which the copying functions use.\<close>

definition current_address_space :: "('h, 'w, 'a) kss \<Rightarrow> u64 option" where
  "current_address_space s = do {
     task \<leftarrow> cpu_current (this_cpu s);
     t \<leftarrow> ks_tasks s task;
     proc \<leftarrow> t_process t;
     v \<leftarrow> ks_procs s proc;
     pr_address_space v
   }"

section \<open>Input and output\<close>

definition sys_write :: "'h mm_ops \<Rightarrow> ExceptionFrame \<Rightarrow> ('h, 'w, 'a) kss \<Rightarrow> ('h, 'w, 'a) sys_result" where
  "sys_write mo frame s = do {
     let fd = sc_arg frame 0; let buf = sc_arg frame 1; let count = sc_arg frame 2;
     if count = 0 then returns EOK False s
     else do {
       (h, kernel_buf) \<leftarrow> ho_kalloc (mo_heap mo) (fs_heap s) count;
       let s = s\<lparr>fs_heap := h\<rparr>;
       if IS_ERR kernel_buf then returns (- ENOMEM) False s
       else do {
         (bytes, ret) \<leftarrow> mo_copy_from_user mo (fs_heap s) (current_address_space s) buf count;
         if ret \<noteq> EOK then do {
           h \<leftarrow> ho_kfree (mo_heap mo) (fs_heap s) kernel_buf;
           returns ret False (s\<lparr>fs_heap := h\<rparr>)
         }
         else do {
           proc \<leftarrow> process_get_current s;
           ASSERT (\<not> IS_ERR proc);
           v \<leftarrow> ks_procs s proc;
           files \<leftarrow> pr_files v;
           ft \<leftarrow> ks_fdtables s files;
           (ft, s, file) \<leftarrow> fdtable_get_file ft fd s;
           let s = set_fdtable files ft s;
           if IS_ERR file then do {
             h \<leftarrow> ho_kfree (mo_heap mo) (fs_heap s) kernel_buf;
             returns (PTR_TO_ERR file) False (s\<lparr>fs_heap := h\<rparr>)
           }
           else do {
             (s, written) \<leftarrow> file_write file bytes s;
             (s, _) \<leftarrow> file_put (mo_heap mo) file s;
             h \<leftarrow> ho_kfree (mo_heap mo) (fs_heap s) kernel_buf;
             returns written False (s\<lparr>fs_heap := h\<rparr>)
           }
         }
       }
     }
   }"

section \<open>Processes\<close>

definition sys_fork :: "'h mm_ops \<Rightarrow> ExceptionFrame \<Rightarrow> ('h, 'w, 'a) kss \<Rightarrow> ('h, 'w, 'a) sys_result" where
  "sys_fork mo frame s = do {
     let task = task_get_current s;
     ASSERT (\<not> IS_ERR task);
     proc \<leftarrow> process_get_current s;
     ASSERT (\<not> IS_ERR proc);
     (s, new_proc) \<leftarrow> proc_manager_create_exec_child_from mo proc task (Some frame) s;
     if IS_ERR new_proc then returns (PTR_TO_ERR new_proc) False s
     else do {
       v \<leftarrow> ks_procs s new_proc;
       returns (i64_of (pr_pid v)) True s
     }
   }"

definition sys_exit :: "'h mm_ops \<Rightarrow> ExceptionFrame \<Rightarrow> ('h, 'w, 'a) kss \<Rightarrow> ('h, 'w, 'a) sys_result" where
  "sys_exit mo frame s = do {
     let status = i64_of (sc_arg frame 0);
     let task = task_get_current s;
     proc \<leftarrow> process_get_current s;
     s \<leftarrow> process_exit proc status s;
     v \<leftarrow> ks_procs s proc;
     parent \<leftarrow> pr_parent v;
     pv \<leftarrow> ks_procs s parent;
     (s, _) \<leftarrow> scheduler_wake_all (pr_child_waiters pv) s;
     s \<leftarrow> task_exit mo task s;
     Some (s, None)
   }"

definition sys_getpid :: "ExceptionFrame \<Rightarrow> ('h, 'w, 'a) kss \<Rightarrow> ('h, 'w, 'a) sys_result" where
  "sys_getpid frame s = do {
     let task = task_get_current s;
     ASSERT (\<not> IS_ERR task);
     proc \<leftarrow> process_get_current s;
     ASSERT (\<not> IS_ERR proc);
     v \<leftarrow> ks_procs s proc;
     returns (i64_of (pr_pid v)) False s
   }"

definition sys_getppid :: "ExceptionFrame \<Rightarrow> ('h, 'w, 'a) kss \<Rightarrow> ('h, 'w, 'a) sys_result" where
  "sys_getppid frame s = do {
     let task = task_get_current s;
     ASSERT (\<not> IS_ERR task);
     t \<leftarrow> ks_tasks s task;
     proc \<leftarrow> t_process t;
     ASSERT (\<not> IS_ERR proc);
     v \<leftarrow> ks_procs s proc;
     (case pr_parent v of None \<Rightarrow> returns 0 False s
      | Some parent \<Rightarrow> do { pv \<leftarrow> ks_procs s parent; returns (i64_of (pr_pid pv)) False s })
   }"

text \<open>\<^verbatim>\<open>process_foreach_child\<close> up to the first zombie.\<close>

partial_function (option) find_zombie :: "u64 option \<Rightarrow> ('h, 'w, 'a) kss \<Rightarrow> u64 option option" where
  "find_zombie node s =
     (case node of None \<Rightarrow> Some None
      | Some child \<Rightarrow> do {
          let next_node = inext (ks_parent_node s child);
          v \<leftarrow> ks_procs s child;
          if pr_state v = PROCESS_ZOMBIE then Some (Some child) else find_zombie next_node s
        })"

definition sys_wait4 :: "'h mm_ops \<Rightarrow> ExceptionFrame \<Rightarrow> ('h, 'w, 'a) kss \<Rightarrow> ('h, 'w, 'a) sys_result" where
  "sys_wait4 mo frame s = do {
     let status = sc_arg frame 0;
     let calling_task = task_get_current s;
     ASSERT (\<not> IS_ERR calling_task);
     parent \<leftarrow> process_get_current s;
     ASSERT (\<not> IS_ERR parent);
     pv \<leftarrow> ks_procs s parent;
     zombie \<leftarrow> find_zombie (il_head (pr_children pv)) s;
     (case zombie of
        Some child \<Rightarrow> do {
          v \<leftarrow> ks_procs s child;
          (s, _) \<leftarrow> process_remove_child parent child s;
          (h, ret) \<leftarrow> mo_copy_to_user_u64 mo (fs_heap s) (current_address_space s) status (word_of_int (pr_exit_code v));
          let s = s\<lparr>fs_heap := h\<rparr>;
          if ret \<noteq> EOK then returns (- EFAULT) False s
          else do {
            (s, _) \<leftarrow> proc_manager_remove_destroy mo child s;
            returns (i64_of (pr_pid v)) False s
          }
        }
      | None \<Rightarrow>
          if il_head (pr_children pv) = None then returns (- ECHILD) False s
          else do {
            (s, _) \<leftarrow> waitqueue_enqueue (pr_child_waiters pv) calling_task s;
            s \<leftarrow> scheduler_block_current mo s;
            Some (s, None)
          })
   }"

section \<open>Scheduling\<close>

definition sys_yield :: "ExceptionFrame \<Rightarrow> ('h, 'w, 'a) kss \<Rightarrow> ('h, 'w, 'a) sys_result" where
  "sys_yield frame s = returns EOK True s"

section \<open>The table and the dispatcher\<close>

datatype syscall_function_type = Sys_write | Sys_yield | Sys_getpid | Sys_fork | Sys_exit | Sys_wait4 | Sys_getppid

definition SYSCALL_LIST :: "(usize \<times> string) list" where
  "SYSCALL_LIST = [(0, ''SYS_READ''), (1, ''SYS_WRITE''), (2, ''SYS_OPEN''), (3, ''SYS_CLOSE''), (24, ''SYS_YIELD''),
     (39, ''SYS_GETPID''), (56, ''SYS_CLONE''), (57, ''SYS_FORK''), (58, ''SYS_VFORK''), (59, ''SYS_EXECVE''),
     (60, ''SYS_EXIT''), (61, ''SYS_WAIT4''), (62, ''SYS_KILL''), (63, ''SYS_UNAME''), (110, ''SYS_GETPPID'')]"

definition MAX_SYSCALL_COUNT :: usize where "MAX_SYSCALL_COUNT = 111"

definition syscall_build_table :: "syscall_function_type option list" where
  "syscall_build_table = (replicate 111 None)
     [1 := Some Sys_write, 24 := Some Sys_yield, 39 := Some Sys_getpid, 57 := Some Sys_fork, 60 := Some Sys_exit,
      61 := Some Sys_wait4, 110 := Some Sys_getppid]"

definition syscall_table_retrieve :: "syscall_function_type option list \<Rightarrow> usize \<Rightarrow> syscall_function_type option" where
  "syscall_table_retrieve tab syscall_id = (if syscall_id \<ge> MAX_SYSCALL_COUNT then None else tab ! unat syscall_id)"

text \<open>The array of names has holes: an id in range without a name gives the null pointer.\<close>

definition syscall_to_str :: "usize \<Rightarrow> string option" where
  "syscall_to_str syscall = (if syscall \<ge> 111 then Some ''nil'' else map_of SYSCALL_LIST syscall)"

definition run_syscall ::
  "'h mm_ops \<Rightarrow> syscall_function_type \<Rightarrow> ExceptionFrame \<Rightarrow> ('h, 'w, 'a) kss \<Rightarrow> ('h, 'w, 'a) sys_result" where
  "run_syscall mo fn frame s =
     (case fn of Sys_write \<Rightarrow> sys_write mo frame s | Sys_yield \<Rightarrow> sys_yield frame s | Sys_getpid \<Rightarrow> sys_getpid frame s
      | Sys_fork \<Rightarrow> sys_fork mo frame s | Sys_exit \<Rightarrow> sys_exit mo frame s | Sys_wait4 \<Rightarrow> sys_wait4 mo frame s
      | Sys_getppid \<Rightarrow> sys_getppid frame s)"

definition is_syscall :: "ExceptionFrame \<Rightarrow> bool" where
  "is_syscall frame \<longleftrightarrow> EXTRACT_BITS (ef_ESR_EL1 frame) 31 26 = 0x15"

definition set_x0 :: "u64 \<Rightarrow> ExceptionFrame \<Rightarrow> ExceptionFrame" where
  "set_x0 v frame = frame\<lparr>ef_x := (ef_x frame)[0 := v]\<rparr>"

text \<open>The outcome is the frame the caller goes on with and whether to reschedule, or nothing when it does not go on now.\<close>

definition syscall_dispatch ::
  "'h mm_ops \<Rightarrow> syscall_function_type option list \<Rightarrow> ExceptionFrame \<Rightarrow> ('h, 'w, 'a) kss \<Rightarrow>
   (('h, 'w, 'a) kss \<times> (ExceptionFrame \<times> bool) option) option" where
  "syscall_dispatch mo tab frame s =
     (case syscall_table_retrieve tab (sc_arg frame 8) of
        None \<Rightarrow> Some (s, Some (set_x0 (word_of_int (- ENOSYS)) frame, False))
      | Some fn \<Rightarrow> do {
          (s, r) \<leftarrow> run_syscall mo fn frame s;
          Some (s, map_option (\<lambda>r. (set_x0 (word_of_int (sr_ret r)) frame, sr_should_resched r)) r)
        })"

end
