(* ===== verification/Pmm.thy ===== *)
theory Pmm
  imports ScopedLock
begin

text \<open>
  Physical memory: the memory map of the boot loader (\<^verbatim>\<open>kernel/boot/memmap.c\<close>) and the
  allocator of physical pages (\<^verbatim>\<open>kernel/mm/pmm.c\<close>), which links the free pages through their
  first word.

  Memory is a map from the kernel's addresses to 64-bit words: all physical memory is mapped at a fixed
  offset (\<open>mm_hddm_offset\<close>), and a word is named by its address there. The entries of the memory
  map are arguments of \<open>memmap_save_init\<close>, as is what the boot loader says of the offset and of
  the place of the kernel. The state also has the two registers with the current page tables.
\<close>

section \<open>The memory map\<close>

datatype MemMapEntryType = MEMMAP_USABLE | MEMMAP_RESERVED | MEMMAP_ACPI_RECLAIMABLE | MEMMAP_ACPI_NVS | MEMMAP_BAD_MEMORY
  | MEMMAP_BOOTLOADER_RECLAIMABLE | MEMMAP_EXECUTABLE_AND_MODULES | MEMMAP_FRAMEBUFFER | MEMMAP_RESERVED_MAPPED | MEMMAP_UNKNOWN

record MemMapEntry =
  me_base :: usize
  me_length :: usize
  me_type :: MemMapEntryType

abbreviation MAX_MEMMAP_ENTRIES :: nat where "MAX_MEMMAP_ENTRIES \<equiv> 128"

text \<open>The table has 128 entries; the entries in use are the list.\<close>

type_synonym MemMapTable = "MemMapEntry list"

record mem_state = cpu_ctx +
  mm_mem :: "u64 \<Rightarrow> u64"
  mm_pmm_lock :: SpinLock
  mm_free_list :: u64
  mm_memmap_table :: MemMapTable
  mm_hddm_offset :: usize
  mm_kernel_physical_base :: usize
  mm_kernel_virtual_base :: usize
  mm_ttbr0_el1 :: u64
  mm_ttbr1_el1 :: u64

type_synonym 'a mss = "'a mem_state_scheme"

definition limine_memmap_type_to_memmap :: "usize \<Rightarrow> MemMapEntryType" where
  "limine_memmap_type_to_memmap limine_memmap_type =
     (if limine_memmap_type = 0 then MEMMAP_USABLE
      else if limine_memmap_type = 1 then MEMMAP_RESERVED
      else if limine_memmap_type = 2 then MEMMAP_ACPI_RECLAIMABLE
      else if limine_memmap_type = 3 then MEMMAP_ACPI_NVS
      else if limine_memmap_type = 4 then MEMMAP_BAD_MEMORY
      else if limine_memmap_type = 5 then MEMMAP_BOOTLOADER_RECLAIMABLE
      else if limine_memmap_type = 6 then MEMMAP_EXECUTABLE_AND_MODULES
      else if limine_memmap_type = 7 then MEMMAP_FRAMEBUFFER
      else if limine_memmap_type = 8 then MEMMAP_RESERVED_MAPPED
      else MEMMAP_UNKNOWN)"

text \<open>The boot loader's entries: base, length and type. More than 128 overrun the table.\<close>

definition memmap_save_init_limine :: "(usize \<times> usize \<times> usize) list \<Rightarrow> MemMapTable option" where
  "memmap_save_init_limine entries = do {
     ASSERT (length entries \<le> MAX_MEMMAP_ENTRIES);
     Some (map (\<lambda>(base, len, type). \<lparr>me_base = base, me_length = len, me_type = limine_memmap_type_to_memmap type\<rparr>) entries)
   }"

definition memmap_save_init :: "(usize \<times> usize \<times> usize) list \<Rightarrow> usize \<Rightarrow> usize \<Rightarrow> usize \<Rightarrow> 'a mss \<Rightarrow> 'a mss option" where
  "memmap_save_init entries hhdm physical_base virtual_base s = do {
     table \<leftarrow> memmap_save_init_limine entries;
     Some (s\<lparr>mm_memmap_table := table, mm_hddm_offset := hhdm, mm_kernel_physical_base := physical_base,
             mm_kernel_virtual_base := virtual_base\<rparr>)
   }"

definition memmap_hddm_offset :: "'a mss \<Rightarrow> usize" where
  "memmap_hddm_offset s = mm_hddm_offset s"

definition kernel_virt_to_phys :: "usize \<Rightarrow> 'a mss \<Rightarrow> usize" where
  "kernel_virt_to_phys va s = mm_kernel_physical_base s + (va - mm_kernel_virtual_base s)"

section \<open>Memory\<close>

text \<open>A page of zeros, and an access to a word: through an error pointer it faults.\<close>

definition zero_page :: "u64 \<Rightarrow> (u64 \<Rightarrow> u64) \<Rightarrow> u64 \<Rightarrow> u64" where
  "zero_page p m = (\<lambda>a. if a - p < PAGE_SIZE then 0 else m a)"

definition load :: "u64 \<Rightarrow> 'a mss \<Rightarrow> u64 option" where
  "load p s = (if IS_ERR p then None else Some (mm_mem s p))"

definition store :: "u64 \<Rightarrow> u64 \<Rightarrow> 'a mss \<Rightarrow> 'a mss" where
  "store p v s = s\<lparr>mm_mem := (mm_mem s)(p := v)\<rparr>"

section \<open>The page allocator\<close>

definition pml_get :: "'a mss \<Rightarrow> SpinLock" where "pml_get s = mm_pmm_lock s"
definition pml_put :: "SpinLock \<Rightarrow> 'a mss \<Rightarrow> 'a mss" where "pml_put l s = s\<lparr>mm_pmm_lock := l\<rparr>"

interpretation pml: lock_slot "\<lambda>_. True" pml_get pml_put
  by unfold_locales (simp_all add: pml_get_def pml_put_def cx_put_def)

definition pmm_phys_to_virt :: "usize \<Rightarrow> 'a mss \<Rightarrow> u64" where
  "pmm_phys_to_virt phy s = phy + memmap_hddm_offset s"

definition pmm_virt_to_phys :: "u64 \<Rightarrow> 'a mss \<Rightarrow> usize option" where
  "pmm_virt_to_phys virt s = do {
     ASSERT (virt \<ge> memmap_hddm_offset s);
     Some (virt - memmap_hddm_offset s)
   }"

definition pmm_alloc :: "'a mss \<Rightarrow> ('a mss \<times> usize) option" where
  "pmm_alloc s =
     with_lock pml_get pml_put (\<lambda>s.
       let ret = mm_free_list s in
       if ret = 0 then Some (s, ERR_TO_PTR (- ENOMEM))
       else do {
         let s = s\<lparr>mm_free_list := mm_mem s ret\<rparr>;
         let s = s\<lparr>mm_mem := zero_page ret (mm_mem s)\<rparr>;
         pa \<leftarrow> pmm_virt_to_phys ret s;
         Some (s, pa)
       }) s"

definition pmm_free :: "usize \<Rightarrow> 'a mss \<Rightarrow> ('a mss \<times> unit) option" where
  "pmm_free phy_addr s = do {
     ASSERT (IS_PAGE_ALIGNED phy_addr);
     let p = pmm_phys_to_virt phy_addr s;
     with_lock pml_get pml_put (\<lambda>s.
       let s = store p (mm_free_list s) s in
       Some (s\<lparr>mm_free_list := p\<rparr>, ())) s
   }"

text \<open>\<^verbatim>\<open>for (; p + PAGE_SIZE <= end; p += PAGE_SIZE)\<close>; it may not end when the sum wraps around.\<close>

partial_function (option) pmm_free_range :: "usize \<Rightarrow> usize \<Rightarrow> 'a mss \<Rightarrow> 'a mss option" where
  "pmm_free_range p e s =
     (if p + PAGE_SIZE \<le> e then do {
        (s, _) \<leftarrow> pmm_free p s;
        pmm_free_range (p + PAGE_SIZE) e s
      }
      else Some s)"

definition pmm_init :: "'a mss \<Rightarrow> 'a mss option" where
  "pmm_init s =
     foldM (\<lambda>entry s.
       if me_type entry = MEMMAP_ACPI_RECLAIMABLE \<or> me_type entry = MEMMAP_USABLE
       then pmm_free_range (me_base entry) (me_base entry + me_length entry) s
       else Some s) (mm_memmap_table s) (s\<lparr>mm_pmm_lock := spinlock_init\<rparr>)"

end
