(* ===== verification/BitField.thy ===== *)
theory BitField
  imports KPrelude
begin

text \<open>
  Bit fields of a 64-bit word, as the unions of \<^verbatim>\<open>kernel/mm/paging.h\<close> declare them: the field of
  width \<open>w\<close> at bit \<open>lo\<close>, read and written. Writing a field sets it to the low bits of the value and leaves
  every other field alone.
\<close>

definition field_get :: "nat \<Rightarrow> nat \<Rightarrow> u64 \<Rightarrow> u64" where
  "field_get lo w x = take_bit w (drop_bit lo x)"

definition field_set :: "nat \<Rightarrow> nat \<Rightarrow> u64 \<Rightarrow> u64 \<Rightarrow> u64" where
  "field_set lo w v x = (x AND NOT (push_bit lo (mask w))) OR push_bit lo (take_bit w v)"

lemma bit_field_set: "bit (field_set lo w v x) n \<longleftrightarrow>
    (if lo \<le> n \<and> n < lo + w then n < 64 \<and> bit v (n - lo) else bit x n)"
  using bit_imp_le_length [of x n] by (auto simp: field_set_def bit_simps)

lemma field_get_set [simp]: "lo + w \<le> 64 \<Longrightarrow> field_get lo w (field_set lo w v x) = take_bit w v"
  by (rule bit_eqI) (auto simp: field_get_def bit_simps bit_field_set dest: bit_imp_le_length)

lemma field_get_set_other [simp]:
  "lo + w \<le> lo' \<or> lo' + w' \<le> lo \<Longrightarrow> field_get lo' w' (field_set lo w v x) = field_get lo' w' x"
  by (rule bit_eqI) (auto simp: field_get_def bit_simps bit_field_set)

lemma field_get_0 [simp]: "field_get lo w 0 = 0"
  by (simp add: field_get_def)

end
