(* ===== verification/Paging.thy ===== *)
theory Paging
  imports Pmm BitField
begin

text \<open>
  Page tables (\<^verbatim>\<open>kernel/mm/paging.c\<close>): four levels of tables of 512 descriptors, walked, filled and
  destroyed in memory. A descriptor is its 64-bit word; the fields of the two unions of
  \<^verbatim>\<open>paging.h\<close> are bit fields of it, and the enumerations their values. The barriers and the flushing of
  the translation cache have no effect on the model's state: no access goes through a stale entry in it.
\<close>

section \<open>Descriptors\<close>

type_synonym TableDescriptor = u64
type_synonym PageDescriptor = u64

definition td_is_valid :: "TableDescriptor \<Rightarrow> bool" where "td_is_valid d \<longleftrightarrow> field_get 0 1 d \<noteq> 0"
definition td_is_table :: "TableDescriptor \<Rightarrow> bool" where "td_is_table d \<longleftrightarrow> field_get 1 1 d \<noteq> 0"
definition td_next_level_address :: "TableDescriptor \<Rightarrow> u64" where "td_next_level_address d = field_get 12 36 d"

definition pd_is_valid :: "PageDescriptor \<Rightarrow> bool" where "pd_is_valid d \<longleftrightarrow> field_get 0 1 d \<noteq> 0"
definition pd_is_page :: "PageDescriptor \<Rightarrow> bool" where "pd_is_page d \<longleftrightarrow> field_get 1 1 d \<noteq> 0"
definition pd_attr_index :: "PageDescriptor \<Rightarrow> u64" where "pd_attr_index d = field_get 2 3 d"
definition pd_ap :: "PageDescriptor \<Rightarrow> u64" where "pd_ap d = field_get 6 2 d"
definition pd_sh :: "PageDescriptor \<Rightarrow> u64" where "pd_sh d = field_get 8 2 d"
definition pd_output_address :: "PageDescriptor \<Rightarrow> u64" where "pd_output_address d = field_get 12 36 d"
definition pd_pxn :: "PageDescriptor \<Rightarrow> u64" where "pd_pxn d = field_get 53 1 d"
definition pd_uxn_xn :: "PageDescriptor \<Rightarrow> u64" where "pd_uxn_xn d = field_get 54 1 d"

lemmas pd_defs = pd_is_valid_def pd_is_page_def pd_attr_index_def pd_ap_def pd_sh_def pd_output_address_def
  pd_pxn_def pd_uxn_xn_def

text \<open>The enumerations.\<close>

definition EXECUTABLE :: u64 where "EXECUTABLE = 0"
definition NOT_EXECUTABLE :: u64 where "NOT_EXECUTABLE = 1"
definition SHAREABLE_NON_SHAREABLE :: u64 where "SHAREABLE_NON_SHAREABLE = 0"
definition SHAREABLE_INNER_SHAREABLE :: u64 where "SHAREABLE_INNER_SHAREABLE = 3"
definition EL1_READ_WRITE_EL0_NONE :: u64 where "EL1_READ_WRITE_EL0_NONE = 0"
definition EL1_READ_WRITE_EL0_READ_WRITE :: u64 where "EL1_READ_WRITE_EL0_READ_WRITE = 1"
definition EL1_READ_ONLY_EL0_NONE :: u64 where "EL1_READ_ONLY_EL0_NONE = 2"
definition EL1_READ_ONLY_EL0_READ_ONLY :: u64 where "EL1_READ_ONLY_EL0_READ_ONLY = 3"
definition ATTR_INDEX_DEVICE :: u64 where "ATTR_INDEX_DEVICE = 0"
definition ATTR_INDEX_NORMAL :: u64 where "ATTR_INDEX_NORMAL = 1"

section \<open>Addresses\<close>

definition PT_INDEX_MASK :: u64 where "PT_INDEX_MASK = 0x1FF"

definition L0_INDEX :: "u64 \<Rightarrow> u64" where "L0_INDEX va = drop_bit 39 va AND PT_INDEX_MASK"
definition L1_INDEX :: "u64 \<Rightarrow> u64" where "L1_INDEX va = drop_bit 30 va AND PT_INDEX_MASK"
definition L2_INDEX :: "u64 \<Rightarrow> u64" where "L2_INDEX va = drop_bit 21 va AND PT_INDEX_MASK"
definition L3_INDEX :: "u64 \<Rightarrow> u64" where "L3_INDEX va = drop_bit 12 va AND PT_INDEX_MASK"

definition PA_TO_PAGE_DESC :: "u64 \<Rightarrow> u64" where "PA_TO_PAGE_DESC pa = drop_bit 12 pa"
definition PAGE_DESC_TO_PA :: "u64 \<Rightarrow> u64" where "PAGE_DESC_TO_PA desc_addr = push_bit 12 desc_addr"

text \<open>\<^verbatim>\<open>&table[index]\<close>.\<close>

definition entry_at :: "u64 \<Rightarrow> u64 \<Rightarrow> u64" where "entry_at table index = table + 8 * index"

section \<open>Walking and changing tables\<close>

definition paging_create_table :: "'a mss \<Rightarrow> ('a mss \<times> u64) option" where
  "paging_create_table s = do {
     (s, pa) \<leftarrow> pmm_alloc s;
     if IS_ERR_VALUE pa then Some (s, pa)
     else do {
       let td = pmm_phys_to_virt pa s;
       Some (s\<lparr>mm_mem := zero_page td (mm_mem s)\<rparr>, td)
     }
   }"

text \<open>The result of \<^verbatim>\<open>pmm_alloc\<close> is not checked.\<close>

definition table_next_table :: "u64 \<Rightarrow> bool \<Rightarrow> 'a mss \<Rightarrow> ('a mss \<times> u64) option" where
  "table_next_table td allocate s = do {
     d \<leftarrow> load td s;
     if td_is_valid d then Some (s, pmm_phys_to_virt (PAGE_DESC_TO_PA (td_next_level_address d)) s)
     else if \<not> allocate then Some (s, ERR_TO_PTR (- ENOMEM))
     else do {
       (s, pa) \<leftarrow> pmm_alloc s;
       let page = pmm_phys_to_virt pa s;
       Some (store td (field_set 12 36 (PA_TO_PAGE_DESC pa) (field_set 1 1 1 (field_set 0 1 1 0))) s, page)
     }
   }"

definition walk_pagetable :: "u64 \<Rightarrow> u64 \<Rightarrow> bool \<Rightarrow> 'a mss \<Rightarrow> ('a mss \<times> u64) option" where
  "walk_pagetable table va allocate s = do {
     (s, l1) \<leftarrow> table_next_table (entry_at table (L0_INDEX va)) allocate s;
     if IS_ERR l1 then Some (s, l1)
     else do {
       (s, l2) \<leftarrow> table_next_table (entry_at l1 (L1_INDEX va)) allocate s;
       if IS_ERR l2 then Some (s, l2)
       else do {
         (s, l3) \<leftarrow> table_next_table (entry_at l2 (L2_INDEX va)) allocate s;
         if IS_ERR l3 then Some (s, l3)
         else Some (s, entry_at l3 (L3_INDEX va))
       }
     }
   }"

definition leaf_desc :: "u64 \<Rightarrow> u64 \<Rightarrow> u64 \<Rightarrow> u64 \<Rightarrow> u64 \<Rightarrow> u64 \<Rightarrow> PageDescriptor \<Rightarrow> PageDescriptor" where
  "leaf_desc pa perms attr_index shareability privilege_execution underprivilege_execution d =
     (let d = field_set 1 1 1 d;
          d = field_set 0 1 1 d;
          d = field_set 2 3 attr_index d;
          d = field_set 6 2 perms d;
          d = field_set 8 2 shareability d;
          d = field_set 10 1 1 d;
          d = field_set 12 36 (PA_TO_PAGE_DESC pa) d;
          d = field_set 53 1 privilege_execution d
      in field_set 54 1 underprivilege_execution d)"

partial_function (option) paging_map_loop ::
  "u64 \<Rightarrow> u64 \<Rightarrow> u64 \<Rightarrow> u64 \<Rightarrow> u64 \<Rightarrow> u64 \<Rightarrow> u64 \<Rightarrow> u64 \<Rightarrow> u64 \<Rightarrow> 'a mss \<Rightarrow> ('a mss \<times> errno_t) option" where
  "paging_map_loop table va e pa perms attr_index shareability pxn uxn s =
     (if va < e then do {
        (s, pde) \<leftarrow> walk_pagetable table va True s;
        if IS_ERR pde then Some (s, PTR_TO_ERR pde)
        else do {
          d \<leftarrow> load pde s;
          ASSERT (\<not> pd_is_valid d);
          let s = store pde (leaf_desc pa perms attr_index shareability pxn uxn d) s;
          paging_map_loop table (va + PAGE_SIZE) e (pa + PAGE_SIZE) perms attr_index shareability pxn uxn s
        }
      }
      else Some (s, EOK))"

definition paging_map ::
  "u64 \<Rightarrow> usize \<Rightarrow> usize \<Rightarrow> usize \<Rightarrow> u64 \<Rightarrow> u64 \<Rightarrow> u64 \<Rightarrow> u64 \<Rightarrow> u64 \<Rightarrow> 'a mss \<Rightarrow> ('a mss \<times> errno_t) option" where
  "paging_map table va pa sz perms attr_index shareability pxn uxn s = do {
     ASSERT (IS_PAGE_ALIGNED pa);
     ASSERT (IS_PAGE_ALIGNED va);
     ASSERT (IS_PAGE_ALIGNED sz);
     paging_map_loop table va (va + sz) pa perms attr_index shareability pxn uxn s
   }"

partial_function (option) paging_unmap_loop :: "u64 \<Rightarrow> u64 \<Rightarrow> u64 \<Rightarrow> 'a mss \<Rightarrow> ('a mss \<times> unit) option" where
  "paging_unmap_loop page va e s =
     (if va < e then do {
        (s, pde) \<leftarrow> walk_pagetable page va False s;
        ASSERT (\<not> IS_ERR pde);
        d \<leftarrow> load pde s;
        ASSERT (pd_is_valid d);
        paging_unmap_loop page (va + PAGE_SIZE) e (store pde 0 s)
      }
      else Some (s, ()))"

definition paging_unmap :: "u64 \<Rightarrow> usize \<Rightarrow> usize \<Rightarrow> 'a mss \<Rightarrow> ('a mss \<times> unit) option" where
  "paging_unmap page va sz s = do {
     ASSERT (IS_PAGE_ALIGNED va);
     ASSERT (IS_PAGE_ALIGNED sz);
     paging_unmap_loop page va (va + sz) s
   }"

text \<open>A walk that does not allocate leaves the state alone; only its result is kept.\<close>

definition paging_lookup_desc :: "u64 \<Rightarrow> u64 \<Rightarrow> 'a mss \<Rightarrow> u64 option" where
  "paging_lookup_desc table va s = map_option snd (walk_pagetable table va False s)"

definition paging_page_to_pa :: "u64 \<Rightarrow> u64 \<Rightarrow> 'a mss \<Rightarrow> usize option" where
  "paging_page_to_pa pde va s = do {
     d \<leftarrow> load pde s;
     Some (PAGE_DESC_TO_PA (pd_output_address d) OR (va AND (PAGE_SIZE - 1)))
   }"

definition paging_lookup :: "u64 \<Rightarrow> u64 \<Rightarrow> 'a mss \<Rightarrow> usize option" where
  "paging_lookup table va s = do {
     pde \<leftarrow> paging_lookup_desc table va s;
     if IS_ERR pde then Some 0 else paging_page_to_pa pde va s
   }"

text \<open>
  \<^verbatim>\<open>table_descriptor_destroy_recursive\<close>: the argument counts the levels it may still go down, which is 4
  less the argument \<^verbatim>\<open>level\<close> of the code.
\<close>

primrec table_descriptor_destroy_recursive :: "nat \<Rightarrow> u64 \<Rightarrow> 'a mss \<Rightarrow> ('a mss \<times> unit) option" where
  "table_descriptor_destroy_recursive 0 = (\<lambda>table s. do {
     s \<leftarrow> foldM (\<lambda>i s. do {
       d \<leftarrow> load (entry_at table i) s;
       Some (if td_is_valid d then store (entry_at table i) 0 s else s)
     }) (u64_range 0 512) s;
     pa \<leftarrow> pmm_virt_to_phys table s;
     pmm_free pa s
   })"
| "table_descriptor_destroy_recursive (Suc n) = (\<lambda>table s. do {
     s \<leftarrow> foldM (\<lambda>i s. do {
       d \<leftarrow> load (entry_at table i) s;
       if \<not> td_is_valid d then Some s
       else do {
         (s, _) \<leftarrow> (if td_is_table d
           then table_descriptor_destroy_recursive n (pmm_phys_to_virt (PAGE_DESC_TO_PA (td_next_level_address d)) s) s
           else Some (s, ()));
         Some (store (entry_at table i) 0 s)
       }
     }) (u64_range 0 512) s;
     pa \<leftarrow> pmm_virt_to_phys table s;
     pmm_free pa s
   })"

definition paging_destroy_table :: "u64 \<Rightarrow> 'a mss \<Rightarrow> ('a mss \<times> unit) option" where
  "paging_destroy_table table s = table_descriptor_destroy_recursive 4 table s"

section \<open>The kernel's tables\<close>

definition map_device :: "u64 \<Rightarrow> usize \<Rightarrow> usize \<Rightarrow> usize \<Rightarrow> 'a mss \<Rightarrow> ('a mss \<times> errno_t) option" where
  "map_device page va pa sz s = paging_map page va pa sz EL1_READ_WRITE_EL0_NONE ATTR_INDEX_DEVICE
     SHAREABLE_NON_SHAREABLE NOT_EXECUTABLE NOT_EXECUTABLE s"

definition map_text :: "u64 \<Rightarrow> usize \<Rightarrow> usize \<Rightarrow> usize \<Rightarrow> 'a mss \<Rightarrow> ('a mss \<times> errno_t) option" where
  "map_text page va pa sz s = paging_map page va pa sz EL1_READ_ONLY_EL0_NONE ATTR_INDEX_NORMAL
     SHAREABLE_INNER_SHAREABLE EXECUTABLE NOT_EXECUTABLE s"

definition map_data :: "u64 \<Rightarrow> usize \<Rightarrow> usize \<Rightarrow> usize \<Rightarrow> 'a mss \<Rightarrow> ('a mss \<times> errno_t) option" where
  "map_data page va pa sz s = paging_map page va pa sz EL1_READ_WRITE_EL0_NONE ATTR_INDEX_NORMAL
     SHAREABLE_INNER_SHAREABLE NOT_EXECUTABLE NOT_EXECUTABLE s"

text \<open>The symbols of the linker script, and the entries of the boot loader's memory map as it gives them.\<close>

record kernel_symbols =
  ksym_start :: usize
  ksym_text_end :: usize
  ksym_data_start :: usize
  ksym_data_end :: usize

definition paging_kernel_init :: "kernel_symbols \<Rightarrow> (usize \<times> usize \<times> usize) list \<Rightarrow> u64 \<Rightarrow> 'a mss \<Rightarrow> 'a mss option" where
  "paging_kernel_init ks limine_entries table s = do {
     (s, _) \<leftarrow> map_text table (ksym_start ks) (kernel_virt_to_phys (ksym_start ks) s) (ksym_text_end ks - ksym_start ks) s;
     (s, _) \<leftarrow> map_data table (ksym_data_start ks) (kernel_virt_to_phys (ksym_data_start ks) s)
       (ksym_data_end ks - ksym_data_start ks) s;
     foldM (\<lambda>(base, len, type) s.
       if type = 7 then do {
         (s, _) \<leftarrow> map_device table (pmm_phys_to_virt base s) base len s;
         Some s
       }
       else if type = 5 \<or> type = 6 \<or> type = 0 then do {
         (s, _) \<leftarrow> map_data table (pmm_phys_to_virt base s) base len s;
         Some s
       }
       else Some s) limine_entries s
   }"

definition paging_switch_kernel_table :: "u64 \<Rightarrow> 'a mss \<Rightarrow> 'a mss option" where
  "paging_switch_kernel_table table s = do {
     pa \<leftarrow> pmm_virt_to_phys table s;
     Some (s\<lparr>mm_ttbr1_el1 := pa\<rparr>)
   }"

definition paging_switch_user_table :: "u64 \<Rightarrow> 'a mss \<Rightarrow> 'a mss option" where
  "paging_switch_user_table table s = do {
     pa \<leftarrow> pmm_virt_to_phys table s;
     Some (s\<lparr>mm_ttbr0_el1 := pa\<rparr>)
   }"

end
