(* ===== verification/PagingTree.thy ===== *)
theory PagingTree
  imports Paging
begin

text \<open>
  Page tables as trees in memory. \<open>tables h m n t\<close> are the table pages below the table \<open>t\<close> with
  \<open>n\<close> more levels, \<open>tree\<close> says that they form a tree without sharing, \<open>leaf\<close> is the address of the
  descriptor of a page and \<open>pt_get\<close> its contents (0 where a table is missing). Adding an empty table and
  writing a leaf keep the tree and change nothing but what they are meant to.
\<close>

section \<open>Pages\<close>

definition page_of :: "u64 \<Rightarrow> u64" where "page_of a = round_down a PAGE_SIZE"

lemma unat_page_of: "unat (page_of a) = unat a - unat a mod 4096"
  using unat_round_down [of 12 a] by (simp add: page_of_def PAGE_SIZE_def)

lemma aligned_unat: "IS_PAGE_ALIGNED p \<longleftrightarrow> (\<exists>k < 4503599627370496. unat p = 4096 * k)"
  using unat_u64_less [of p] by (auto simp: IS_PAGE_ALIGNED_unat elim!: dvdE simp del: unat_u64_less)

lemma sub_mod_4096: "a - a mod 4096 = 4096 * k \<longleftrightarrow> 4096 * k \<le> a \<and> a < 4096 * k + 4096" for a k :: nat
proof -
  have "a - a mod 4096 = 4096 * k \<longleftrightarrow> a div 4096 = k" unfolding minus_mod_eq_mult_div by simp
  also have "\<dots> \<longleftrightarrow> 4096 * k \<le> a \<and> a < 4096 * k + 4096" by (auto intro: div_nat_eqI)
  finally show ?thesis .
qed

lemma in_page_of:
  assumes "IS_PAGE_ALIGNED p"
  shows "a - p < PAGE_SIZE \<longleftrightarrow> page_of a = p"
proof -
  obtain k where k: "k < 4503599627370496" "unat p = 4096 * k" using assms by (auto simp: aligned_unat)
  have "page_of a = p \<longleftrightarrow> unat p \<le> unat a \<and> unat a < unat p + 4096"
    by (simp add: u64_eq_iff_unat unat_page_of k(2) sub_mod_4096)
  then show ?thesis using unat_u64_less [of a] k
    by (auto simp: PAGE_SIZE_def word_less_nat_alt unat_sub_if' simp del: unat_u64_less)
qed

lemma zero_page_apply: "IS_PAGE_ALIGNED p \<Longrightarrow> zero_page p m a = (if page_of a = p then 0 else m a)"
  by (simp add: zero_page_def in_page_of)

lemma page_of_aligned [simp]: "IS_PAGE_ALIGNED p \<Longrightarrow> page_of p = p"
  by (auto simp: aligned_unat u64_eq_iff_unat unat_page_of)

lemma unat_entry_at:
  assumes "IS_PAGE_ALIGNED t" "i < 512"
  shows "unat (entry_at t i) = unat t + 8 * unat i"
proof -
  obtain k where k: "k < 4503599627370496" "unat t = 4096 * k" using assms by (auto simp: aligned_unat)
  have i: "unat i < 512" using assms by (simp add: word_less_nat_alt)
  have "unat (8 * i) = 8 * unat i" using i unat_mult_u64 [of 8 i] by simp
  then show ?thesis using i k unat_add_u64 [of t "8 * i"] by (simp add: entry_at_def)
qed

lemma page_of_entry [simp]:
  assumes "IS_PAGE_ALIGNED t" "i < 512"
  shows "page_of (entry_at t i) = t"
proof -
  obtain k where "unat t = 4096 * k" using assms by (auto simp: aligned_unat)
  then show ?thesis using assms(2)
    by (simp add: u64_eq_iff_unat unat_page_of unat_entry_at [OF assms] sub_mod_4096 word_less_nat_alt)
qed

lemma entry_inject: "IS_PAGE_ALIGNED t \<Longrightarrow> i < 512 \<Longrightarrow> j < 512 \<Longrightarrow> entry_at t i = entry_at t j \<longleftrightarrow> i = j"
  by (auto simp: u64_eq_iff_unat unat_entry_at)

text \<open>A page that can hold a table: mapped at the offset \<open>h\<close>, with a physical address below 2 ^ 48.\<close>

definition table_page :: "usize \<Rightarrow> u64 \<Rightarrow> bool" where
  "table_page h p \<longleftrightarrow> IS_PAGE_ALIGNED h \<and> IS_PAGE_ALIGNED p \<and> h \<le> p \<and> unat (p - h) < 2 ^ 48 \<and> unat p + 8192 \<le> 2 ^ 64 \<and> p \<noteq> 0"

lemma table_pageD: "table_page h p \<Longrightarrow> h \<le> p" "table_page h p \<Longrightarrow> p \<noteq> 0"
  unfolding table_page_def by blast+

lemma table_page_aligned [simp]: "table_page h p \<Longrightarrow> IS_PAGE_ALIGNED p"
  by (simp add: table_page_def)

lemma table_page_not_err:
  assumes "table_page h p" "i < 512"
  shows "\<not> IS_ERR p" "\<not> IS_ERR (entry_at p i)"
proof -
  have "unat p + 8192 \<le> 2 ^ 64" "unat i < 512" "IS_PAGE_ALIGNED p"
    using assms unfolding table_page_def by (blast, simp add: word_less_nat_alt, blast)
  then show "\<not> IS_ERR p" "\<not> IS_ERR (entry_at p i)"
    using unat_entry_at [of p i] assms(2) by (simp_all add: IS_ERR_unat)
qed

section \<open>Descriptors\<close>

definition next_table :: "usize \<Rightarrow> TableDescriptor \<Rightarrow> u64" where
  "next_table h d = PAGE_DESC_TO_PA (td_next_level_address d) + h"

definition table_desc :: "u64 \<Rightarrow> TableDescriptor" where
  "table_desc pa = field_set 12 36 (PA_TO_PAGE_DESC pa) (field_set 1 1 1 (field_set 0 1 1 0))"

lemma pa_desc_roundtrip:
  assumes "IS_PAGE_ALIGNED pa" "unat pa < 2 ^ 48"
  shows "PAGE_DESC_TO_PA (take_bit 36 (PA_TO_PAGE_DESC pa)) = pa"
proof -
  have "take_bit 36 (drop_bit 12 pa) = drop_bit 12 pa"
  proof -
    have "unat (drop_bit 12 pa) < 2 ^ 36"
      unfolding unsigned_drop_bit_eq using assms(2)
      by (simp add: drop_bit_eq_div take_bit_nat_eq_self less_mult_imp_div_less)
    then have "unat (take_bit 36 (drop_bit 12 pa)) = unat (drop_bit 12 pa)"
      by (simp add: unsigned_take_bit_eq take_bit_nat_eq_self)
    then show ?thesis by (simp add: u64_eq_iff_unat)
  qed
  moreover have "push_bit 12 (drop_bit 12 pa) = round_down pa PAGE_SIZE"
    by (rule bit_eqI)
      (auto simp: round_down_def round_mask_def PAGE_SIZE_def bit_simps mask_eq_exp_minus_1 [of 12, where 'a = "64 word", simplified, symmetric])
  moreover have "round_down pa PAGE_SIZE = pa" using page_of_aligned [OF assms(1)] by (simp add: page_of_def)
  ultimately show ?thesis by (simp add: PAGE_DESC_TO_PA_def PA_TO_PAGE_DESC_def)
qed

lemma table_page_pa:
  assumes "table_page h p"
  shows "IS_PAGE_ALIGNED (p - h)" "unat (p - h) < 2 ^ 48" "p - h + h = p"
proof -
  have "h \<le> p" "4096 dvd unat h" "4096 dvd unat p" using assms by (simp_all add: table_page_def IS_PAGE_ALIGNED_unat)
  then show "IS_PAGE_ALIGNED (p - h)" by (simp add: IS_PAGE_ALIGNED_unat unat_sub_u64)
  show "unat (p - h) < 2 ^ 48" using assms unfolding table_page_def by blast
  show "p - h + h = p" by simp
qed

lemma table_desc_simps [simp]: "td_is_valid (table_desc pa)"
  "table_page h p \<Longrightarrow> next_table h (table_desc (p - h)) = p"
  by (simp add: table_desc_def td_is_valid_def)
    (simp add: table_desc_def next_table_def td_next_level_address_def pa_desc_roundtrip [OF table_page_pa(1,2)] table_page_pa(3))

lemma td_valid_0 [simp]: "\<not> td_is_valid 0" by (simp add: td_is_valid_def)

section \<open>Trees\<close>

definition idx :: "nat \<Rightarrow> u64 \<Rightarrow> u64" where "idx k va = take_bit 9 (drop_bit (12 + 9 * k) va)"

lemma idx_less [simp]: "idx k va < 512"
proof -
  have "unat (idx k va) < 2 ^ 9" unfolding idx_def unsigned_take_bit_eq by (rule take_bit_nat_less_exp)
  then show ?thesis by (simp add: word_less_nat_alt)
qed

primrec tables :: "usize \<Rightarrow> (u64 \<Rightarrow> u64) \<Rightarrow> nat \<Rightarrow> u64 \<Rightarrow> u64 set" where
  "tables h m 0 t = {t}"
| "tables h m (Suc n) t = insert t (\<Union>i\<in>{i. i < 512 \<and> td_is_valid (m (entry_at t i))}. tables h m n (next_table h (m (entry_at t i))))"

text \<open>The tables above the last level.\<close>

primrec inner :: "usize \<Rightarrow> (u64 \<Rightarrow> u64) \<Rightarrow> nat \<Rightarrow> u64 \<Rightarrow> u64 set" where
  "inner h m 0 t = {}"
| "inner h m (Suc n) t = insert t (\<Union>i\<in>{i. i < 512 \<and> td_is_valid (m (entry_at t i))}. inner h m n (next_table h (m (entry_at t i))))"

primrec tree :: "usize \<Rightarrow> (u64 \<Rightarrow> u64) \<Rightarrow> nat \<Rightarrow> u64 \<Rightarrow> bool" where
  "tree h m 0 t = table_page h t"
| "tree h m (Suc n) t \<longleftrightarrow> table_page h t \<and>
     (\<forall>i < 512. td_is_valid (m (entry_at t i)) \<longrightarrow>
        tree h m n (next_table h (m (entry_at t i))) \<and> t \<notin> tables h m n (next_table h (m (entry_at t i)))) \<and>
     (\<forall>i < 512. \<forall>j < 512. td_is_valid (m (entry_at t i)) \<and> td_is_valid (m (entry_at t j)) \<and> i \<noteq> j \<longrightarrow>
        tables h m n (next_table h (m (entry_at t i))) \<inter> tables h m n (next_table h (m (entry_at t j))) = {})"

primrec leaf :: "usize \<Rightarrow> (u64 \<Rightarrow> u64) \<Rightarrow> nat \<Rightarrow> u64 \<Rightarrow> u64 \<Rightarrow> u64 option" where
  "leaf h m 0 t va = Some (entry_at t (idx 0 va))"
| "leaf h m (Suc n) t va = (let d = m (entry_at t (idx (Suc n) va)) in
     if td_is_valid d then leaf h m n (next_table h d) va else None)"

definition pt_get :: "usize \<Rightarrow> (u64 \<Rightarrow> u64) \<Rightarrow> nat \<Rightarrow> u64 \<Rightarrow> u64 \<Rightarrow> PageDescriptor" where
  "pt_get h m n t va = (case leaf h m n t va of None \<Rightarrow> 0 | Some a \<Rightarrow> m a)"

lemma tree_page: "tree h m n t \<Longrightarrow> table_page h t"
  by (cases n) simp_all

lemma root_in_tables [simp]: "t \<in> tables h m n t"
  by (cases n) simp_all

lemma inner_tables: "inner h m n t \<subseteq> tables h m n t"
  by (induction n arbitrary: t) auto

lemma tables_aligned: "tree h m n t \<Longrightarrow> p \<in> tables h m n t \<Longrightarrow> table_page h p"
  by (induction n arbitrary: t) auto

lemma tree_child:
  assumes "tree h m (Suc n) t" "i < 512" "td_is_valid (m (entry_at t i))" "c = next_table h (m (entry_at t i))"
  shows "tree h m n c" "t \<notin> tables h m n c" "tables h m n c \<subseteq> tables h m (Suc n) t"
  using assms by auto

text \<open>Only the contents of the inner tables matter for the shape.\<close>

lemma shape_cong:
  assumes "tree h m n t" "\<And>a. page_of a \<in> inner h m n t \<Longrightarrow> m' a = m a"
  shows "tables h m' n t = tables h m n t \<and> inner h m' n t = inner h m n t \<and> tree h m' n t \<and>
    (\<forall>va. leaf h m' n t va = leaf h m n t va)"
  using assms
proof (induction n arbitrary: t)
  case (Suc n)
  have p: "table_page h t" using Suc.prems(1) by simp
  have e: "m' (entry_at t i) = m (entry_at t i)" if "i < 512" for i
    using Suc.prems(2) [of "entry_at t i"] that p by simp
  have ih: "tables h m' n c = tables h m n c \<and> inner h m' n c = inner h m n c \<and> tree h m' n c \<and>
      (\<forall>va. leaf h m' n c va = leaf h m n c va)"
    if "i < 512" "td_is_valid (m (entry_at t i))" "c = next_table h (m (entry_at t i))" for i c
    by (rule Suc.IH) (use Suc.prems that in auto)
  have "{i. i < 512 \<and> td_is_valid (m' (entry_at t i))} = {i. i < 512 \<and> td_is_valid (m (entry_at t i))}"
    using e by auto
  moreover have "leaf h m' (Suc n) t va = leaf h m (Suc n) t va" for va
    using e [of "idx (Suc n) va"] ih [of "idx (Suc n) va"] by (auto simp: Let_def)
  moreover have "tree h m' (Suc n) t" using Suc.prems(1) e ih by simp
  ultimately show ?case using e ih by (auto simp: )
qed simp

lemma tables_cong:
  assumes "tree h m n t" "\<And>a. page_of a \<in> tables h m n t \<Longrightarrow> m' a = m a"
  shows "tables h m' n t = tables h m n t" "tree h m' n t" "inner h m' n t = inner h m n t"
    "leaf h m' n t va = leaf h m n t va"
  using shape_cong [of h m n t m', OF assms(1)] assms(2) inner_tables [of h m n t] by blast+

lemma leaf_place:
  assumes "tree h m n t" "leaf h m n t va = Some a"
  shows "page_of a \<in> tables h m n t \<and> page_of a \<notin> inner h m n t \<and> \<not> IS_ERR a"
  using assms
proof (induction n arbitrary: t)
  case 0
  then show ?case using table_page_not_err(2) [OF _ idx_less, of h t 0 va] by auto
next
  case (Suc n)
  let ?i = "idx (Suc n) va" let ?c = "next_table h (m (entry_at t ?i))"
  have d: "td_is_valid (m (entry_at t ?i))" "leaf h m n ?c va = Some a"
    using Suc.prems(2) by (auto simp: Let_def split: if_splits)
  note c = tree_child [OF Suc.prems(1) idx_less d(1) refl]
  have pa: "page_of a \<in> tables h m n ?c" "page_of a \<notin> inner h m n ?c" "\<not> IS_ERR a"
    using Suc.IH [OF c(1) d(2)] by blast+
  have "page_of a \<notin> inner h m n (next_table h (m (entry_at t j)))"
    if "j < 512" "td_is_valid (m (entry_at t j))" for j
  proof (cases "j = ?i")
    case False
    then have "tables h m n (next_table h (m (entry_at t j))) \<inter> tables h m n ?c = {}" using Suc.prems(1) that d by simp
    then show ?thesis using pa(1) inner_tables by blast
  qed (use pa in simp)
  moreover have "page_of a \<noteq> t" using pa(1) c(2) by auto
  ultimately show ?case using pa c(3) by auto
qed

lemma leaf_page:
  assumes "tree h m n t" "leaf h m n t va = Some a"
  shows "page_of a \<in> tables h m n t" "page_of a \<notin> inner h m n t" "\<not> IS_ERR a"
  using leaf_place [OF assms] by blast+

lemma pt_get_cong:
  assumes "tree h m n t" "\<And>a. page_of a \<in> tables h m n t \<Longrightarrow> m' a = m a"
  shows "pt_get h m' n t va = pt_get h m n t va"
  using tables_cong(4) [OF assms, of va] leaf_page(1) [OF assms(1), of va] assms(2)
  by (auto simp: pt_get_def split: option.split)

text \<open>Two addresses with the same descriptor have the same page number.\<close>

lemma leaf_inject:
  assumes "tree h m n t" "leaf h m n t va = Some a" "leaf h m n t vb = Some a"
  shows "\<forall>k \<le> n. idx k va = idx k vb"
  using assms
proof (induction n arbitrary: t)
  case 0
  then show ?case by (auto simp: entry_inject)
next
  case (Suc n)
  let ?i = "idx (Suc n) va" let ?j = "idx (Suc n) vb"
  have i: "td_is_valid (m (entry_at t ?i))" "leaf h m n (next_table h (m (entry_at t ?i))) va = Some a"
    and j: "td_is_valid (m (entry_at t ?j))" "leaf h m n (next_table h (m (entry_at t ?j))) vb = Some a"
    using Suc.prems(2,3) by (auto simp: Let_def split: if_splits)
  have tr: "tree h m n (next_table h (m (entry_at t ?i)))" "tree h m n (next_table h (m (entry_at t ?j)))"
    using Suc.prems(1) i j by auto
  have "?i = ?j"
  proof (rule ccontr)
    assume "?i \<noteq> ?j"
    then have "tables h m n (next_table h (m (entry_at t ?i))) \<inter> tables h m n (next_table h (m (entry_at t ?j))) = {}"
      using Suc.prems(1) i(1) j(1) by simp
    then show False using leaf_page(1) [OF tr(1) i(2)] leaf_page(1) [OF tr(2) j(2)] by blast
  qed
  then show ?case using Suc.IH [OF tr(1) i(2)] j(2) by (auto simp: le_Suc_eq)
qed

lemma leaf_same: "\<forall>k \<le> n. idx k va = idx k vb \<Longrightarrow> leaf h m n t va = leaf h m n t vb"
  by (induction n arbitrary: t) (auto simp: Let_def)

text \<open>Writing a leaf.\<close>

lemma write_leaf:
  assumes "tree h m n t" "leaf h m n t va = Some a"
  shows "tree h (m(a := d)) n t" "tables h (m(a := d)) n t = tables h m n t"
    "leaf h (m(a := d)) n t vb = leaf h m n t vb"
    "pt_get h (m(a := d)) n t vb = (if \<forall>k \<le> n. idx k va = idx k vb then d else pt_get h m n t vb)"
proof -
  have c: "page_of x \<in> inner h m n t \<Longrightarrow> (m(a := d)) x = m x" for x
    using leaf_page(2) [OF assms] by auto
  show "tree h (m(a := d)) n t" "tables h (m(a := d)) n t = tables h m n t"
    and l: "leaf h (m(a := d)) n t vb = leaf h m n t vb" for vb
    using shape_cong [OF assms(1) c] by blast+
  show "pt_get h (m(a := d)) n t vb = (if \<forall>k \<le> n. idx k va = idx k vb then d else pt_get h m n t vb)"
    using leaf_same [of n va vb h m t] leaf_inject [OF assms(1,2), of vb] assms(2)
    unfolding pt_get_def l by (cases "leaf h m n t vb"; cases "\<forall>k \<le> n. idx k va = idx k vb") (auto simp del: all_simps)
qed

text \<open>An empty table.\<close>

lemma empty_tree:
  assumes "table_page h p" "\<And>a. page_of a = p \<Longrightarrow> m a = 0"
  shows "tree h m n p" "tables h m n p = {p}" "pt_get h m n p va = 0"
proof -
  have "m (entry_at p i) = 0" if "i < 512" for i using assms that by simp
  then show "tree h m n p" "tables h m n p = {p}" "pt_get h m n p va = 0"
    using assms(1) by (cases n; auto simp: pt_get_def Let_def)+
qed

text \<open>Adding an empty table below an entry that had none.\<close>

lemma add_table:
  assumes tr: "tree h m (Suc n) t" and i: "i < 512" "\<not> td_is_valid (m (entry_at t i))"
    and p: "table_page h p" "p \<notin> tables h m (Suc n) t" "m1 = (zero_page p m)(entry_at t i := table_desc (p - h))"
  shows "tree h m1 (Suc n) t \<and> tables h m1 (Suc n) t = insert p (tables h m (Suc n) t) \<and>
    (\<forall>va. pt_get h m1 (Suc n) t va = pt_get h m (Suc n) t va)"
proof -
  have t: "table_page h t" "t \<noteq> p" using tr p(2) by auto
  have m1: "m1 a = (if a = entry_at t i then table_desc (p - h) else if page_of a = p then 0 else m a)" for a
    using p(1) by (simp add: p(3) zero_page_apply)
  have ej: "m1 (entry_at t j) = (if j = i then table_desc (p - h) else m (entry_at t j))" if "j < 512" for j
    using that i(1) t by (simp add: m1 entry_inject)
  have e0: "tree h m1 n p" "tables h m1 n p = {p}" "pt_get h m1 n p va = 0" for va
    by (rule empty_tree [OF p(1)]; use i(1) t in \<open>auto simp: m1\<close>)+
  have c: "tree h m1 n c" "tables h m1 n c = tables h m n c" "pt_get h m1 n c va = pt_get h m n c va" "p \<notin> tables h m n c"
    if "j < 512" "td_is_valid (m (entry_at t j))" "c = next_table h (m (entry_at t j))" for j c va
  proof -
    note ch = tree_child [OF tr that]
    show np: "p \<notin> tables h m n c" using ch(3) p(2) by blast
    have "m1 a = m a" if "page_of a \<in> tables h m n c" for a
      using that np ch(2) i(1) t by (auto simp: m1)
    then show "tree h m1 n c" "tables h m1 n c = tables h m n c" "pt_get h m1 n c va = pt_get h m n c va"
      using tables_cong [OF ch(1)] pt_get_cong [OF ch(1)] by blast+
  qed
  have v: "j < 512 \<and> td_is_valid (m1 (entry_at t j)) \<longleftrightarrow> j < 512 \<and> (j = i \<or> td_is_valid (m (entry_at t j)))" for j
    using ej [of j] by (cases "j = i") auto
  have ni: "next_table h (m1 (entry_at t i)) = p" using ej [OF i(1)] p(1) by simp
  have nj: "next_table h (m1 (entry_at t j)) = next_table h (m (entry_at t j))" if "j < 512" "j \<noteq> i" for j
    using ej [OF that(1)] that(2) by simp
  have "{j. j < 512 \<and> td_is_valid (m1 (entry_at t j))} = insert i {j. j < 512 \<and> td_is_valid (m (entry_at t j))}"
    using v i(1) by blast
  moreover have "(\<Union>j\<in>{j. j < 512 \<and> td_is_valid (m (entry_at t j))}. tables h m1 n (next_table h (m1 (entry_at t j)))) =
      (\<Union>j\<in>{j. j < 512 \<and> td_is_valid (m (entry_at t j))}. tables h m n (next_table h (m (entry_at t j))))"
  proof (intro SUP_cong refl)
    fix j assume "j \<in> {j. j < 512 \<and> td_is_valid (m (entry_at t j))}"
    then have j: "j < 512" "td_is_valid (m (entry_at t j))" "j \<noteq> i" using i(2) by auto
    show "tables h m1 n (next_table h (m1 (entry_at t j))) = tables h m n (next_table h (m (entry_at t j)))"
      using c(2) [OF j(1,2) refl] nj [OF j(1,3)] by simp
  qed
  ultimately have "tables h m1 (Suc n) t = insert p (tables h m (Suc n) t)"
    using ni e0(2) by auto
  moreover have "tree h m1 (Suc n) t"
  proof -
    have a: "tree h m1 n (next_table h (m1 (entry_at t j))) \<and> t \<notin> tables h m1 n (next_table h (m1 (entry_at t j)))"
      if "j < 512" "td_is_valid (m1 (entry_at t j))" for j
    proof (cases "j = i")
      case True
      then show ?thesis using ni e0(1,2) t(2) by simp
    next
      case False
      then have "td_is_valid (m (entry_at t j))" using v that by blast
      then show ?thesis using nj [OF that(1) False] c(1,2) [OF that(1) _ refl] tree_child(2) [OF tr that(1) _ refl] by simp
    qed
    have b: "tables h m1 n (next_table h (m1 (entry_at t j))) \<inter> tables h m1 n (next_table h (m1 (entry_at t k))) = {}"
      if jk: "j < 512" "k < 512" "td_is_valid (m1 (entry_at t j))" "td_is_valid (m1 (entry_at t k))" "j \<noteq> k" for j k
    proof -
      have d: "tables h m1 n (next_table h (m1 (entry_at t x))) = tables h m n (next_table h (m (entry_at t x)))"
        "p \<notin> tables h m n (next_table h (m (entry_at t x)))" "td_is_valid (m (entry_at t x))"
        if "x < 512" "x \<noteq> i" "td_is_valid (m1 (entry_at t x))" for x
        using that v [of x] nj c(2,4) [OF that(1) _ refl] by auto
      have pi: "tables h m1 n (next_table h (m1 (entry_at t i))) = {p}" using ni e0(2) by simp
      consider "j = i" "k \<noteq> i" | "k = i" "j \<noteq> i" | "j \<noteq> i" "k \<noteq> i" using jk(5) by blast
      then show ?thesis
      proof cases
        case 3
        then show ?thesis using d(1,3) jk tr by simp
      qed (use d(1,2) jk pi in simp_all)
    qed
    show ?thesis using a b t(1) by simp
  qed
  moreover have "pt_get h m1 (Suc n) t va = pt_get h m (Suc n) t va" for va
  proof (cases "idx (Suc n) va = i")
    case True
    then show ?thesis using e0(3) [of va] i ni v [of i] by (auto simp: pt_get_def Let_def)
  next
    case False
    then have "m1 (entry_at t (idx (Suc n) va)) = m (entry_at t (idx (Suc n) va))" using ej by simp
    then show ?thesis using c(3) [OF idx_less _ refl, of "Suc n" va va] by (auto simp: pt_get_def Let_def)
  qed
  ultimately show ?thesis by blast
qed

text \<open>A change inside one child of a table.\<close>

lemma change_child:
  assumes tr: "tree h m (Suc n) t" and i: "i < 512" "td_is_valid (m (entry_at t i))" "c = next_table h (m (entry_at t i))"
    and c': "tree h m' n c" "tables h m' n c = tables h m n c \<union> P" "P \<inter> tables h m (Suc n) t = {}"
    and eq: "\<And>a. page_of a \<notin> tables h m n c \<union> P \<Longrightarrow> m' a = m a"
  shows "tree h m' (Suc n) t" "tables h m' (Suc n) t = tables h m (Suc n) t \<union> P" "m' (entry_at t i) = m (entry_at t i)"
    "(\<forall>va. pt_get h m' n c va = pt_get h m n c va) \<Longrightarrow> pt_get h m' (Suc n) t va = pt_get h m (Suc n) t va"
proof -
  note ch = tree_child [OF tr i]
  have t: "table_page h t" "t \<notin> P" using tr c'(3) by auto
  have ej: "m' (entry_at t j) = m (entry_at t j)" if "j < 512" for j
    using eq [of "entry_at t j"] that t ch(2) by simp
  then show "m' (entry_at t i) = m (entry_at t i)" using i(1) by blast
  have o: "tree h m' n e" "tables h m' n e = tables h m n e" "pt_get h m' n e va = pt_get h m n e va" "tables h m n e \<inter> (tables h m n c \<union> P) = {}"
    if "j < 512" "td_is_valid (m (entry_at t j))" "e = next_table h (m (entry_at t j))" "j \<noteq> i" for j e va
  proof -
    note ce = tree_child [OF tr that(1-3)]
    show d: "tables h m n e \<inter> (tables h m n c \<union> P) = {}"
      using tr that i ce(3) c'(3) by (auto simp: disjoint_iff)
    have "m' a = m a" if "page_of a \<in> tables h m n e" for a by (rule eq) (use that d in blast)
    then show "tree h m' n e" "tables h m' n e = tables h m n e" "pt_get h m' n e va = pt_get h m n e va"
      using tables_cong [OF ce(1)] pt_get_cong [OF ce(1)] by blast+
  qed
  have tb: "tables h m' n (next_table h (m' (entry_at t j))) = tables h m n (next_table h (m (entry_at t j))) \<union> (if j = i then P else {})"
    if "j < 512" "td_is_valid (m (entry_at t j))" for j
    using o(2) [OF that refl] c'(2) i(3) ej [OF that(1)] by (cases "j = i") auto
  have "tables h m' (Suc n) t = insert t (\<Union>j\<in>{j. j < 512 \<and> td_is_valid (m (entry_at t j))}.
      tables h m n (next_table h (m (entry_at t j))) \<union> (if j = i then P else {}))"
    using ej tb by (auto simp: )
  also have "\<dots> = tables h m (Suc n) t \<union> P" using i by (auto split: if_splits)
  finally show "tables h m' (Suc n) t = tables h m (Suc n) t \<union> P" .
  show "tree h m' (Suc n) t"
  proof -
    have a: "tree h m' n (next_table h (m' (entry_at t j))) \<and> t \<notin> tables h m' n (next_table h (m' (entry_at t j)))"
      if "j < 512" "td_is_valid (m (entry_at t j))" for j
      using tb [OF that] tree_child(2) [OF tr that refl] t(2) o(1) [OF that refl] c'(1) i(3) ej [OF that(1)] by (cases "j = i") auto
    have b: "tables h m' n (next_table h (m' (entry_at t j))) \<inter> tables h m' n (next_table h (m' (entry_at t k))) = {}"
      if "j < 512" "k < 512" "td_is_valid (m (entry_at t j))" "td_is_valid (m (entry_at t k))" "j \<noteq> k" for j k
    proof -
      have d: "tables h m n (next_table h (m (entry_at t j))) \<inter> tables h m n (next_table h (m (entry_at t k))) = {}"
        using tr that by simp
      show ?thesis
        using d o(4) [OF that(1,3) refl] o(4) [OF that(2,4) refl] tb [OF that(1,3)] tb [OF that(2,4)] that(5) by auto
    qed
    show ?thesis using a b t(1) ej by simp
  qed
  show "pt_get h m' (Suc n) t va = pt_get h m (Suc n) t va" if "\<forall>va. pt_get h m' n c va = pt_get h m n c va"
    using that o(3) [OF idx_less _ refl, of "Suc n" va va] ej [OF idx_less, of "Suc n" va] i(3)
    by (cases "idx (Suc n) va = i") (auto simp: pt_get_def Let_def)
qed

end
