(* ===== verification/PagingProps.thy ===== *)
theory PagingProps
  imports PagingTree
begin

text \<open>
  Walking, mapping and unmapping on the trees of page tables. \<open>pt_inv ps t s\<close> is the state between
  operations: the tables below \<open>t\<close> form a tree, \<open>ps\<close> are the free pages of the page allocator, and these
  share no page.
\<close>

section \<open>The free pages\<close>

fun chain :: "(u64 \<Rightarrow> u64) \<Rightarrow> u64 \<Rightarrow> u64 list \<Rightarrow> bool" where
  "chain m p [] = (p = 0)"
| "chain m p (q # qs) = (p = q \<and> q \<noteq> 0 \<and> chain m (m q) qs)"

lemma chain_cong: "(\<And>q. q \<in> set qs \<Longrightarrow> m' q = m q) \<Longrightarrow> chain m' p qs = chain m p qs"
  by (induction qs arbitrary: p) auto

definition mem_ok :: "'a mss \<Rightarrow> bool" where
  "mem_ok s \<longleftrightarrow> cx_ok s \<and> pml_get s = spinlock_init"

definition free_ok :: "u64 list \<Rightarrow> 'a mss \<Rightarrow> bool" where
  "free_ok ps s \<longleftrightarrow> chain (mm_mem s) (mm_free_list s) ps \<and> distinct ps \<and> (\<forall>p\<in>set ps. table_page (mm_hddm_offset s) p)"

lemma mem_fields [simp]:
  "mm_mem (cx_sec s) = mm_mem s" "mm_free_list (cx_sec s) = mm_free_list s" "mm_hddm_offset (cx_sec s) = mm_hddm_offset s"
  "mm_mem (irq_push_intr s) = mm_mem s" "mm_free_list (irq_push_intr s) = mm_free_list s" "mm_hddm_offset (irq_push_intr s) = mm_hddm_offset s"
  "pml_get (cx_sec s) = pml_get s" "mm_mem (pml_put l s) = mm_mem s" "mm_free_list (pml_put l s) = mm_free_list s"
  "mm_hddm_offset (pml_put l s) = mm_hddm_offset s"
  by (simp_all add: cx_sec_def irq_push_as_put cx_put_def pml_get_def pml_put_def)

lemma mem_upd [simp]:
  "(irq_push_intr s)\<lparr>mm_mem := a\<rparr> = irq_push_intr (s\<lparr>mm_mem := a\<rparr>)"
  "(irq_push_intr s)\<lparr>mm_free_list := b\<rparr> = irq_push_intr (s\<lparr>mm_free_list := b\<rparr>)"
  "(irq_push_intr s)\<lparr>mm_free_list := b, mm_mem := a\<rparr> = irq_push_intr (s\<lparr>mm_free_list := b, mm_mem := a\<rparr>)"
  "(irq_push_intr s)\<lparr>mm_mem := a, mm_free_list := b\<rparr> = irq_push_intr (s\<lparr>mm_mem := a, mm_free_list := b\<rparr>)" for s :: "'a mss"
  by (simp_all add: irq_push_as_put cx_put_def r_intrd_enabled_def)

lemma cx_ok_mem [simp]: "cx_ok (s\<lparr>mm_mem := a\<rparr>) = cx_ok s" "cx_ok (s\<lparr>mm_free_list := b\<rparr>) = cx_ok s"
  "cx_ok (pml_put l s) = cx_ok s" for s :: "'a mss"
  by (simp_all add: cx_ok_def pml_put_def)

lemma mem_ok_simps [simp]: "mem_ok (cx_sec s) = mem_ok s" "mem_ok (s\<lparr>mm_mem := a\<rparr>) = mem_ok s"
  "mem_ok (s\<lparr>mm_free_list := b\<rparr>) = mem_ok s" "mem_ok (store x v s) = mem_ok s"
  by (simp_all add: mem_ok_def store_def) (simp_all add: pml_get_def)

lemma store_fields [simp]: "mm_mem (store x v s) = (mm_mem s)(x := v)" "mm_free_list (store x v s) = mm_free_list s"
  "mm_hddm_offset (store x v s) = mm_hddm_offset s"
  by (simp_all add: store_def)

lemma pmm_alloc_ok:
  assumes "mem_ok s" "free_ok (p # ps) s"
  shows "pmm_alloc s = Some (cx_sec (s\<lparr>mm_free_list := mm_mem s p, mm_mem := zero_page p (mm_mem s)\<rparr>), p - mm_hddm_offset s)"
proof -
  let ?b = "\<lambda>s. let ret = mm_free_list s in if ret = 0 then Some (s, ERR_TO_PTR (- ENOMEM)) else do {
         let s = s\<lparr>mm_free_list := mm_mem s ret\<rparr>; let s = s\<lparr>mm_mem := zero_page ret (mm_mem s)\<rparr>;
         pa \<leftarrow> pmm_virt_to_phys ret s; Some (s, pa) }"
  let ?y = "(pml_put (held_by s) s)\<lparr>mm_free_list := mm_mem s p, mm_mem := zero_page p (mm_mem s)\<rparr>"
  have f: "mm_free_list s = p" "p \<noteq> 0" "mm_hddm_offset s \<le> p" 
    using assms(2) table_pageD by (auto simp: free_ok_def)
  have "with_lock pml_get pml_put ?b s = Some (cx_sec (pml_put spinlock_init ?y), p - mm_hddm_offset s)"
    by (rule pml.section_eq)
      (use assms(1) f in \<open>simp_all add: mem_ok_def spinlock_init_def pmm_virt_to_phys_def memmap_hddm_offset_def\<close>,
       simp_all add: pml_put_def pml_get_def)
  moreover have "pml_put spinlock_init ?y = s\<lparr>mm_free_list := mm_mem s p, mm_mem := zero_page p (mm_mem s)\<rparr>"
    using assms(1) by (intro mem_state.equality) (simp_all add: pml_put_def mem_ok_def pml_get_def)
  ultimately show ?thesis unfolding pmm_alloc_def by (simp add: Let_def)
qed

section \<open>Walking\<close>

primrec walk :: "nat \<Rightarrow> u64 \<Rightarrow> u64 \<Rightarrow> bool \<Rightarrow> 'a mss \<Rightarrow> ('a mss \<times> u64) option" where
  "walk 0 t va allocate s = Some (s, entry_at t (idx 0 va))"
| "walk (Suc n) t va allocate s = do {
     (s, c) \<leftarrow> table_next_table (entry_at t (idx (Suc n) va)) allocate s;
     if IS_ERR c then Some (s, c) else walk n c va allocate s
   }"

lemma walk_pagetable_eq: "walk_pagetable t va allocate s = walk 3 t va allocate s"
proof -
  have "idx 3 va = L0_INDEX va" "idx 2 va = L1_INDEX va" "idx 1 va = L2_INDEX va" "idx 0 va = L3_INDEX va"
    by (simp_all add: idx_def L0_INDEX_def L1_INDEX_def L2_INDEX_def L3_INDEX_def PT_INDEX_MASK_def take_bit_eq_mask mask_numeral mask_Suc_rec)
  then show ?thesis
    by (simp add: walk_pagetable_def numeral_3_eq_3 numeral_2_eq_2 if_distrib cong: if_cong)
qed

lemma next_table_valid:
  assumes "table_page (mm_hddm_offset s) t" "i < 512" "td_is_valid (mm_mem s (entry_at t i))"
  shows "table_next_table (entry_at t i) allocate s = Some (s, next_table (mm_hddm_offset s) (mm_mem s (entry_at t i)))"
  using assms table_page_not_err(2) [OF assms(1,2)]
  by (simp add: table_next_table_def load_def pmm_phys_to_virt_def next_table_def memmap_hddm_offset_def)

lemma next_table_missing:
  assumes "table_page (mm_hddm_offset s) t" "i < 512" "\<not> td_is_valid (mm_mem s (entry_at t i))"
  shows "table_next_table (entry_at t i) False s = Some (s, ERR_TO_PTR (- ENOMEM))"
  using assms table_page_not_err(2) [OF assms(1,2)] by (simp add: table_next_table_def load_def)

text \<open>A walk that does not allocate finds the descriptor or fails, and changes nothing.\<close>

lemma walk_lookup:
  assumes "tree (mm_hddm_offset s) (mm_mem s) n t"
  shows "walk n t va False s = Some (s, case leaf (mm_hddm_offset s) (mm_mem s) n t va of None \<Rightarrow> ERR_TO_PTR (- ENOMEM) | Some a \<Rightarrow> a)"
  using assms
proof (induction n arbitrary: t)
  case (Suc n)
  let ?d = "mm_mem s (entry_at t (idx (Suc n) va))"
  have p: "table_page (mm_hddm_offset s) t" using Suc.prems by simp
  show ?case
  proof (cases "td_is_valid ?d")
    case True
    then have c: "tree (mm_hddm_offset s) (mm_mem s) n (next_table (mm_hddm_offset s) ?d)" using Suc.prems by simp
    then have "\<not> IS_ERR (next_table (mm_hddm_offset s) ?d)" using tree_page table_page_not_err(1) [of _ _ 0] by fastforce
    then show ?thesis using Suc.IH [OF c] True next_table_valid [OF p idx_less True] by (simp add: Let_def)
  next
    case False
    then show ?thesis using next_table_missing [OF p idx_less False] by (simp add: Let_def IS_ERR_ENOMEM)
  qed
qed simp

text \<open>
  What an allocating walk below the table \<open>t\<close> may do: take the first \<open>k\<close> free pages as empty tables.
\<close>

definition grown :: "nat \<Rightarrow> u64 \<Rightarrow> u64 list \<Rightarrow> nat \<Rightarrow> 'a mss \<Rightarrow> 'a mss \<Rightarrow> bool" where
  "grown n t ps k s s' \<longleftrightarrow> mem_ok s' \<and> mm_hddm_offset s' = mm_hddm_offset s \<and> free_ok (drop k ps) s' \<and>
     tree (mm_hddm_offset s) (mm_mem s') n t \<and>
     tables (mm_hddm_offset s) (mm_mem s') n t = tables (mm_hddm_offset s) (mm_mem s) n t \<union> set (take k ps) \<and>
     (\<forall>va. pt_get (mm_hddm_offset s) (mm_mem s') n t va = pt_get (mm_hddm_offset s) (mm_mem s) n t va) \<and>
     (\<forall>x. page_of x \<notin> tables (mm_hddm_offset s) (mm_mem s) n t \<union> set (take k ps) \<longrightarrow> mm_mem s' x = mm_mem s x)"

lemma grown_refl: "mem_ok s \<Longrightarrow> free_ok ps s \<Longrightarrow> tree (mm_hddm_offset s) (mm_mem s) n t \<Longrightarrow> grown n t ps 0 s s"
  by (simp add: grown_def)

lemma grown_trans:
  assumes "grown n t ps k s s1" "grown n t (drop k ps) j s1 s2"
  shows "grown n t ps (k + j) s s2"
proof -
  have d: "drop (k + j) ps = drop j (drop k ps)" by (simp add: add.commute)
  show ?thesis using assms by (auto simp: grown_def take_add d simp del: drop_drop)
qed

lemma grown_child:
  assumes "grown n c ps k s s'" "tree (mm_hddm_offset s) (mm_mem s) (Suc n) t" "i < 512"
    and "td_is_valid (mm_mem s (entry_at t i))" "c = next_table (mm_hddm_offset s) (mm_mem s (entry_at t i))"
    and "set ps \<inter> tables (mm_hddm_offset s) (mm_mem s) (Suc n) t = {}"
  shows "grown (Suc n) t ps k s s'" "mm_mem s' (entry_at t i) = mm_mem s (entry_at t i)"
proof -
  have g: "tree (mm_hddm_offset s) (mm_mem s') n c"
    "tables (mm_hddm_offset s) (mm_mem s') n c = tables (mm_hddm_offset s) (mm_mem s) n c \<union> set (take k ps)"
    "\<forall>va. pt_get (mm_hddm_offset s) (mm_mem s') n c va = pt_get (mm_hddm_offset s) (mm_mem s) n c va"
    "\<And>x. page_of x \<notin> tables (mm_hddm_offset s) (mm_mem s) n c \<union> set (take k ps) \<Longrightarrow> mm_mem s' x = mm_mem s x"
    using assms(1) by (auto simp: grown_def)
  have d: "set (take k ps) \<inter> tables (mm_hddm_offset s) (mm_mem s) (Suc n) t = {}"
    using assms(6) set_take_subset [of k ps] by blast
  note ch = change_child [OF assms(2-5) g(1,2) d g(4)]
  show "mm_mem s' (entry_at t i) = mm_mem s (entry_at t i)" by (rule ch(3))
  show "grown (Suc n) t ps k s s'"
    unfolding grown_def
    using assms(1) ch(1,2) ch(4) [OF _ g(3)] g(4) tree_child(3) [OF assms(2-5)]
    by (auto simp: grown_def simp del: tables.simps tree.simps)
qed

lemma next_table_alloc:
  assumes "mem_ok s" "free_ok ps s" "ps \<noteq> []" "tree (mm_hddm_offset s) (mm_mem s) (Suc n) t" "i < 512"
    and "\<not> td_is_valid (mm_mem s (entry_at t i))" "set ps \<inter> tables (mm_hddm_offset s) (mm_mem s) (Suc n) t = {}"
  shows "\<exists>s'. table_next_table (entry_at t i) True s = Some (s', hd ps) \<and> grown (Suc n) t ps 1 s s' \<and>
    td_is_valid (mm_mem s' (entry_at t i)) \<and> hd ps = next_table (mm_hddm_offset s) (mm_mem s' (entry_at t i))"
proof -
  obtain p qs where ps: "ps = p # qs" using assms(3) by (cases ps) auto
  let ?h = "mm_hddm_offset s"
  have p: "table_page ?h p" "p \<notin> set qs" "chain (mm_mem s) (mm_mem s p) qs" "\<forall>q\<in>set qs. table_page ?h q" "distinct qs"
    using assms(2) by (auto simp: free_ok_def ps)
  have t: "table_page ?h t" using assms(4) by simp
  let ?s1 = "cx_sec (s\<lparr>mm_free_list := mm_mem s p, mm_mem := zero_page p (mm_mem s)\<rparr>)"
  let ?s' = "store (entry_at t i) (table_desc (p - ?h)) ?s1"
  have m1: "mm_mem ?s' = (zero_page p (mm_mem s))(entry_at t i := table_desc (p - ?h))" by simp
  have ne: "\<not> IS_ERR (entry_at t i)" by (rule table_page_not_err(2) [OF t assms(5)])
  have np: "p \<notin> tables ?h (mm_mem s) (Suc n) t" using assms(7) ps by auto
  have r: "table_next_table (entry_at t i) True s = Some (?s', p)"
    using pmm_alloc_ok [OF assms(1) assms(2) [unfolded ps]] assms(6) ne table_page_pa(3) [OF p(1)]
    by (simp add: table_next_table_def load_def pmm_phys_to_virt_def memmap_hddm_offset_def table_desc_def)
  note ad = add_table [OF assms(4-6) p(1) np m1]
  have tq: "t \<noteq> q" if "q \<in> set qs" for q using assms(7) that ps by auto
  have ck: "mm_mem ?s' q = mm_mem s q" if "q \<in> set qs" for q
  proof -
    have "IS_PAGE_ALIGNED q" using that p(4) table_page_aligned by blast
    then have "page_of q = q" "page_of (entry_at t i) = t" using t assms(5) by simp_all
    then have "q \<noteq> entry_at t i" using tq [OF that] by metis
    moreover have "page_of q \<noteq> p" using that p(2) \<open>page_of q = q\<close> by auto
    ultimately show ?thesis using p(1) by (simp add: zero_page_apply)
  qed
  then have "free_ok qs ?s'" using p chain_cong [of qs "mm_mem ?s'" "mm_mem s"] by (simp add: free_ok_def)
  then have "grown (Suc n) t ps 1 s ?s'"
    unfolding grown_def using assms(1) ad p(1) t assms(5)
    by (auto simp: ps zero_page_apply simp del: tables.simps tree.simps)
  then show ?thesis using r p(1) by (intro exI [of _ ?s']) (simp add: ps)
qed

lemma walk_alloc:
  assumes "mem_ok s" "free_ok ps s" "n \<le> length ps" "tree (mm_hddm_offset s) (mm_mem s) n t"
    and "set ps \<inter> tables (mm_hddm_offset s) (mm_mem s) n t = {}"
  shows "\<exists>s' a k. walk n t va True s = Some (s', a) \<and> k \<le> n \<and> grown n t ps k s s' \<and>
    leaf (mm_hddm_offset s) (mm_mem s') n t va = Some a"
  using assms
proof (induction n arbitrary: t s ps)
  case 0
  then show ?case by (auto intro: grown_refl)
next
  case (Suc n)
  let ?h = "mm_hddm_offset s" let ?e = "entry_at t (idx (Suc n) va)"
  have p: "table_page ?h t" using Suc.prems(4) by simp
  obtain s1 c k where s1: "table_next_table ?e True s = Some (s1, c)" "k \<le> 1" "grown (Suc n) t ps k s s1"
    "td_is_valid (mm_mem s1 ?e)" "c = next_table ?h (mm_mem s1 ?e)"
  proof (cases "td_is_valid (mm_mem s ?e)")
    case True
    then show ?thesis
      using that [of s _ 0] next_table_valid [OF p idx_less True] grown_refl [OF Suc.prems(1,2,4)] by auto
  next
    case False
    moreover have "ps \<noteq> []" using Suc.prems(3) by auto
    ultimately obtain s' where "table_next_table ?e True s = Some (s', hd ps)" "grown (Suc n) t ps 1 s s'"
      "td_is_valid (mm_mem s' ?e)" "hd ps = next_table ?h (mm_mem s' ?e)"
      using next_table_alloc [OF Suc.prems(1,2) _ Suc.prems(4) idx_less _ Suc.prems(5)] by blast
    then show ?thesis using that [of s' "hd ps" 1] by simp
  qed
  let ?qs = "drop k ps"
  have h: "mm_hddm_offset s1 = ?h" "mem_ok s1" "free_ok ?qs s1" "tree ?h (mm_mem s1) (Suc n) t"
    "tables ?h (mm_mem s1) (Suc n) t = tables ?h (mm_mem s) (Suc n) t \<union> set (take k ps)"
    using s1(3) by (simp_all add: grown_def del: tree.simps tables.simps)
  note ch = tree_child [OF h(4) idx_less s1(4,5)]
  have "set ?qs \<inter> set (take k ps) = {}"
    using Suc.prems(2) set_take_disj_set_drop_if_distinct [of ps k k] by (auto simp: free_ok_def)
  then have d: "set ?qs \<inter> tables ?h (mm_mem s1) (Suc n) t = {}"
    using Suc.prems(5) h(5) set_drop_subset [of k ps] by blast
  then have "set ?qs \<inter> tables (mm_hddm_offset s1) (mm_mem s1) n c = {}" using ch(3) h(1) by auto
  then obtain s' a j where s': "walk n c va True s1 = Some (s', a)" "j \<le> n" "grown n c ?qs j s1 s'"
    "leaf ?h (mm_mem s') n c va = Some a"
    using Suc.IH [OF h(2,3) _ ch(1) [folded h(1)]] h(1) Suc.prems(3) s1(2) by (force simp del: tables.simps tree.simps)
  note gc = grown_child [OF s'(3) h(4) [folded h(1)] idx_less s1(4) s1(5) [folded h(1)] d [folded h(1)]]
  have "\<not> IS_ERR c" by (rule table_page_not_err(1) [OF tree_page [OF ch(1)], of 0]) simp
  moreover have "leaf ?h (mm_mem s') (Suc n) t va = Some a" using s'(4) gc(2) s1(4,5) by (simp add: Let_def)
  moreover have "k + j \<le> Suc n" using s1(2) s'(2) by simp
  ultimately show ?case
    using s1(1) s'(1) grown_trans [OF s1(3) gc(1)] by (intro exI [of _ s'] exI [of _ a] exI [of _ "k + j"]) simp
qed

section \<open>Mapping and unmapping\<close>

definition pt_inv :: "u64 list \<Rightarrow> u64 \<Rightarrow> 'a mss \<Rightarrow> bool" where
  "pt_inv ps t s \<longleftrightarrow> mem_ok s \<and> free_ok ps s \<and> tree (mm_hddm_offset s) (mm_mem s) 3 t \<and>
     set ps \<inter> tables (mm_hddm_offset s) (mm_mem s) 3 t = {}"

definition entry_of :: "u64 \<Rightarrow> 'a mss \<Rightarrow> u64 \<Rightarrow> PageDescriptor" where
  "entry_of t s va = pt_get (mm_hddm_offset s) (mm_mem s) 3 t va"

definition page_no :: "u64 \<Rightarrow> u64" where "page_no va = take_bit 36 (drop_bit 12 va)"

lemma same_page: "(\<forall>k \<le> 3. idx k va = idx k vb) \<longleftrightarrow> page_no va = page_no vb"
proof -
  have "bit (page_no va) b = bit (page_no vb) b" if "\<forall>k \<le> 3. idx k va = idx k vb" for b
  proof (cases "b < 36")
    case True
    let ?k = "b div 9"
    have k: "?k \<le> 3" using True by simp
    have "bit (idx ?k v) (b mod 9) = bit (page_no v) b" for v
      using True by (simp add: idx_def page_no_def bit_simps add.assoc)
    then show ?thesis using that k by metis
  qed (simp add: page_no_def bit_simps)
  moreover have "idx k v = take_bit 9 (drop_bit (9 * k) (page_no v))" if "k \<le> 3" for k v
    by (rule bit_eqI) (use that in \<open>auto simp: idx_def page_no_def bit_simps add_ac\<close>)
  ultimately show ?thesis by (metis bit_eqI)
qed

lemma unat_page_no: "unat (page_no x) = unat x div 4096 mod 2 ^ 36"
  unfolding page_no_def unsigned_take_bit_eq unsigned_drop_bit_eq
  by (simp add: take_bit_eq_mod drop_bit_eq_div)

lemma leaf_entry:
  assumes "pt_inv ps t s" "leaf (mm_hddm_offset s) (mm_mem s) 3 t va = Some a"
  shows "\<not> IS_ERR a" "mm_mem s a = entry_of t s va"
    "pt_inv ps t (store a d s)" "entry_of t (store a d s) vb = (if page_no va = page_no vb then d else entry_of t s vb)"
proof -
  have i: "mem_ok s" "free_ok ps s" "tree (mm_hddm_offset s) (mm_mem s) 3 t"
    "set ps \<inter> tables (mm_hddm_offset s) (mm_mem s) 3 t = {}" using assms(1) by (simp_all add: pt_inv_def)
  note w = write_leaf [OF i(3) assms(2)]
  show "\<not> IS_ERR a" by (rule leaf_page(3) [OF i(3) assms(2)])
  show "mm_mem s a = entry_of t s va" using assms(2) by (simp add: entry_of_def pt_get_def)
  have "q \<noteq> a" if "q \<in> set ps" for q
  proof -
    have "IS_PAGE_ALIGNED q" using i(2) that table_page_aligned by (auto simp: free_ok_def)
    then show ?thesis using leaf_page(1) [OF i(3) assms(2)] i(4) that by fastforce
  qed
  then have "chain ((mm_mem s)(a := d)) p ps = chain (mm_mem s) p ps" for p by (intro chain_cong) auto
  then show "pt_inv ps t (store a d s)" using i w(1,2) [of d] by (simp add: pt_inv_def free_ok_def)
  show "entry_of t (store a d s) vb = (if page_no va = page_no vb then d else entry_of t s vb)"
    using w(4) [of d vb] by (simp add: entry_of_def same_page)
qed

lemma walk_for_map:
  assumes "pt_inv ps t s" "3 \<le> length ps"
  shows "\<exists>s' a k. walk_pagetable t va True s = Some (s', a) \<and> k \<le> 3 \<and> pt_inv (drop k ps) t s' \<and>
    mm_hddm_offset s' = mm_hddm_offset s \<and> entry_of t s' = entry_of t s \<and> leaf (mm_hddm_offset s') (mm_mem s') 3 t va = Some a"
proof -
  have i: "mem_ok s" "free_ok ps s" "tree (mm_hddm_offset s) (mm_mem s) 3 t"
    "set ps \<inter> tables (mm_hddm_offset s) (mm_mem s) 3 t = {}" using assms(1) by (simp_all add: pt_inv_def)
  obtain s' a k where g: "walk 3 t va True s = Some (s', a)" "k \<le> 3" "grown 3 t ps k s s'"
    "leaf (mm_hddm_offset s) (mm_mem s') 3 t va = Some a"
    using walk_alloc [OF i(1,2) assms(2) i(3,4)] by blast
  have "set (drop k ps) \<inter> set (take k ps) = {}"
    using i(2) set_take_disj_set_drop_if_distinct [of ps k k] by (auto simp: free_ok_def)
  then have "set (drop k ps) \<inter> tables (mm_hddm_offset s') (mm_mem s') 3 t = {}"
    using g(3) i(4) set_drop_subset [of k ps] unfolding grown_def by (auto simp: disjoint_iff)
  then have "pt_inv (drop k ps) t s'" "entry_of t s' = entry_of t s" "mm_hddm_offset s' = mm_hddm_offset s"
    using g(3) by (auto simp: grown_def pt_inv_def entry_of_def)
  then show ?thesis using g walk_pagetable_eq [of t va True s] by (intro exI [of _ s'] exI [of _ a] exI [of _ k]) simp
qed

lemma walk_for_lookup:
  assumes "pt_inv ps t s"
  shows "walk_pagetable t va False s =
    Some (s, case leaf (mm_hddm_offset s) (mm_mem s) 3 t va of None \<Rightarrow> ERR_TO_PTR (- ENOMEM) | Some a \<Rightarrow> a)"
  using walk_lookup [of s 3 t va] assms by (simp add: walk_pagetable_eq pt_inv_def)

text \<open>The pages of a range.\<close>

definition nth_page :: "u64 \<Rightarrow> nat \<Rightarrow> u64" where "nth_page va j = va + of_nat j * PAGE_SIZE"

lemma nth_page_simps: "nth_page va 0 = va" "nth_page (va + PAGE_SIZE) j = nth_page va (Suc j)"
  by (simp_all add: nth_page_def algebra_simps)

lemma unat_nth_page:
  assumes "unat va + j * 4096 < 2 ^ 64"
  shows "unat (nth_page va j) = unat va + j * 4096"
proof -
  have "unat (of_nat j :: u64) = j" using assms by (simp add: unat_of_nat take_bit_nat_eq_self)
  then have "unat (of_nat j * PAGE_SIZE :: u64) = j * 4096"
    using assms unat_mult_u64 [of "of_nat j" PAGE_SIZE] by (simp add: PAGE_SIZE_def)
  then show ?thesis using assms unat_add_u64 [of va "of_nat j * PAGE_SIZE"] by (simp add: nth_page_def)
qed

lemma page_no_nth:
  assumes "unat va + n * 4096 < 2 ^ 64" "n \<le> 2 ^ 36" "i < n" "j < n"
  shows "page_no (nth_page va i) = page_no (nth_page va j) \<longleftrightarrow> i = j"
proof -
  have u: "unat (nth_page va k) div 4096 = unat va div 4096 + k" if "k < n" for k
    using that assms(1) unat_nth_page [of va k] by (simp add: div_add1_eq)
  have "(a + i) mod 2 ^ 36 = (a + j) mod 2 ^ 36 \<longleftrightarrow> i = j" for a :: nat
  proof
    assume "(a + i) mod 2 ^ 36 = (a + j) mod 2 ^ 36"
    then have "i mod 2 ^ 36 = j mod 2 ^ 36" by (simp add: mod_eq_iff_dvd_symdiff_nat)
    then show "i = j" using assms(2-4) by simp
  qed simp
  then show ?thesis using u [OF assms(3)] u [OF assms(4)] by (simp add: u64_eq_iff_unat unat_page_no)
qed

lemma paging_map_loop_ok:
  assumes "pt_inv ps t s" "3 * n \<le> length ps" "unat va + n * 4096 < 2 ^ 64" "n \<le> 2 ^ 36"
    and "\<forall>j < n. \<not> pd_is_valid (entry_of t s (nth_page va j))"
  shows "\<exists>s' k. paging_map_loop t va (nth_page va n) pa perms ai sh px ux s = Some (s', EOK) \<and> k \<le> 3 * n \<and>
    pt_inv (drop k ps) t s' \<and>
    (\<forall>j < n. entry_of t s' (nth_page va j) = leaf_desc (nth_page pa j) perms ai sh px ux (entry_of t s (nth_page va j))) \<and>
    (\<forall>x. (\<forall>j < n. page_no x \<noteq> page_no (nth_page va j)) \<longrightarrow> entry_of t s' x = entry_of t s x)"
  using assms
proof (induction n arbitrary: s ps va pa)
  case 0
  then show ?case by (subst paging_map_loop.simps) (auto simp: nth_page_simps)
next
  case (Suc n)
  let ?d = "leaf_desc pa perms ai sh px ux (entry_of t s va)"
  have len: "3 \<le> length ps" using Suc.prems(2) by simp
  obtain s1 a k where w: "walk_pagetable t va True s = Some (s1, a)" "k \<le> 3" "pt_inv (drop k ps) t s1"
    "mm_hddm_offset s1 = mm_hddm_offset s" "entry_of t s1 = entry_of t s" "leaf (mm_hddm_offset s1) (mm_mem s1) 3 t va = Some a"
    using walk_for_map [OF Suc.prems(1) len] by blast
  note le = leaf_entry [OF w(3,6)]
  let ?s2 = "store a ?d s1"
  have e2: "entry_of t ?s2 x = (if page_no va = page_no x then ?d else entry_of t s x)" for x using le(4) w(5) by simp
  have dist: "page_no va \<noteq> page_no (nth_page va (Suc j))" if "j < n" for j
    using page_no_nth [OF Suc.prems(3,4), of 0 "Suc j"] that by (simp add: nth_page_simps)
  have va1: "unat (va + PAGE_SIZE) = unat va + 4096" using unat_nth_page [of va 1] Suc.prems(3) by (simp add: nth_page_def)
  have iv: "\<forall>j < n. \<not> pd_is_valid (entry_of t ?s2 (nth_page (va + PAGE_SIZE) j))"
    using Suc.prems(5) dist by (simp add: e2 nth_page_simps)
  have ln: "3 * n \<le> length (drop k ps)" "unat (va + PAGE_SIZE) + n * 4096 < 2 ^ 64" "n \<le> 2 ^ 36"
    using Suc.prems(2-4) w(2) va1 by simp_all
  obtain s' k' where s': "paging_map_loop t (va + PAGE_SIZE) (nth_page (va + PAGE_SIZE) n) (pa + PAGE_SIZE) perms ai sh px ux ?s2 = Some (s', EOK)"
    "k' \<le> 3 * n" "pt_inv (drop k' (drop k ps)) t s'"
    "\<forall>j < n. entry_of t s' (nth_page (va + PAGE_SIZE) j) = leaf_desc (nth_page (pa + PAGE_SIZE) j) perms ai sh px ux (entry_of t ?s2 (nth_page (va + PAGE_SIZE) j))"
    "\<forall>x. (\<forall>j < n. page_no x \<noteq> page_no (nth_page (va + PAGE_SIZE) j)) \<longrightarrow> entry_of t s' x = entry_of t ?s2 x"
    using Suc.IH [OF le(3) ln iv, of "pa + PAGE_SIZE"] by blast
  have lt: "va < nth_page va (Suc n)" using unat_nth_page [OF Suc.prems(3)] by (simp add: word_less_nat_alt)
  have nv: "\<not> pd_is_valid (mm_mem s1 a)" using Suc.prems(5) le(2) w(5) by (auto simp: nth_page_simps)
  have "paging_map_loop t va (nth_page va (Suc n)) pa perms ai sh px ux s = Some (s', EOK)"
    using lt w(1) le(1,2) w(5) nv s'(1)
    by (subst paging_map_loop.simps) (simp add: load_def nth_page_simps)
  moreover have "entry_of t s' (nth_page va j) = leaf_desc (nth_page pa j) perms ai sh px ux (entry_of t s (nth_page va j))"
    if "j < Suc n" for j
  proof (cases j)
    case 0
    then have "entry_of t s' va = ?d" using s'(5) dist e2 by (auto simp: nth_page_simps)
    then show ?thesis using 0 by (simp add: nth_page_simps)
  next
    case (Suc i)
    then show ?thesis using s'(4) that dist [of i] e2 by (simp add: nth_page_simps)
  qed
  moreover have "entry_of t s' x = entry_of t s x" if "\<forall>j < Suc n. page_no x \<noteq> page_no (nth_page va j)" for x
    using s'(5) that e2 by (force simp: nth_page_simps)
  moreover have "drop k' (drop k ps) = drop (k' + k) ps" by simp
  ultimately show ?case using s'(2,3) w(2) by (intro exI [of _ s'] exI [of _ "k' + k"]) auto
qed

lemma paging_unmap_loop_ok:
  assumes "pt_inv ps t s" "unat va + n * 4096 < 2 ^ 64" "n \<le> 2 ^ 36" "\<forall>j < n. pd_is_valid (entry_of t s (nth_page va j))"
  shows "\<exists>s'. paging_unmap_loop t va (nth_page va n) s = Some (s', ()) \<and> pt_inv ps t s' \<and>
    (\<forall>j < n. entry_of t s' (nth_page va j) = 0) \<and>
    (\<forall>x. (\<forall>j < n. page_no x \<noteq> page_no (nth_page va j)) \<longrightarrow> entry_of t s' x = entry_of t s x)"
  using assms
proof (induction n arbitrary: s va)
  case 0
  then show ?case by (subst paging_unmap_loop.simps) (auto simp: nth_page_simps)
next
  case (Suc n)
  have v: "pd_is_valid (entry_of t s va)" using Suc.prems(4) by (auto simp: nth_page_simps)
  then obtain a where a: "leaf (mm_hddm_offset s) (mm_mem s) 3 t va = Some a"
    by (auto simp: entry_of_def pt_get_def pd_is_valid_def split: option.splits)
  note le = leaf_entry [OF Suc.prems(1) a]
  let ?s2 = "store a 0 s"
  have dist: "page_no va \<noteq> page_no (nth_page va (Suc j))" if "j < n" for j
    using page_no_nth [OF Suc.prems(2,3), of 0 "Suc j"] that by (simp add: nth_page_simps)
  have va1: "unat (va + PAGE_SIZE) = unat va + 4096" using unat_nth_page [of va 1] Suc.prems(2) by (simp add: nth_page_def)
  have iv: "\<forall>j < n. pd_is_valid (entry_of t ?s2 (nth_page (va + PAGE_SIZE) j))"
    using Suc.prems(4) dist le(4) by (simp add: nth_page_simps)
  have ln: "unat (va + PAGE_SIZE) + n * 4096 < 2 ^ 64" "n \<le> 2 ^ 36" using Suc.prems(2,3) va1 by simp_all
  obtain s' where s': "paging_unmap_loop t (va + PAGE_SIZE) (nth_page (va + PAGE_SIZE) n) ?s2 = Some (s', ())" "pt_inv ps t s'"
    "\<forall>j < n. entry_of t s' (nth_page (va + PAGE_SIZE) j) = 0"
    "\<forall>x. (\<forall>j < n. page_no x \<noteq> page_no (nth_page (va + PAGE_SIZE) j)) \<longrightarrow> entry_of t s' x = entry_of t ?s2 x"
    using Suc.IH [OF le(3) ln iv] by blast
  have lt: "va < nth_page va (Suc n)" using unat_nth_page [OF Suc.prems(2)] by (simp add: word_less_nat_alt)
  have "paging_unmap_loop t va (nth_page va (Suc n)) s = Some (s', ())"
    using lt a le(1,2) v s'(1) walk_for_lookup [OF Suc.prems(1), of va]
    by (subst paging_unmap_loop.simps) (simp add: load_def nth_page_simps)
  moreover have "entry_of t s' (nth_page va j) = 0" if "j < Suc n" for j
  proof (cases j)
    case 0
    then have "entry_of t s' va = 0" using s'(4) dist le(4) by (auto simp: nth_page_simps)
    then show ?thesis using 0 by (simp add: nth_page_simps)
  next
    case (Suc i)
    then show ?thesis using s'(3) that by (simp add: nth_page_simps)
  qed
  moreover have "entry_of t s' x = entry_of t s x" if "\<forall>j < Suc n. page_no x \<noteq> page_no (nth_page va j)" for x
    using s'(4) that le(4) by (force simp: nth_page_simps)
  ultimately show ?case using s'(2) by blast
qed

section \<open>The round trip\<close>

text \<open>The address translation of the processor: valid descriptors translate.\<close>

definition translate :: "u64 \<Rightarrow> 'a mss \<Rightarrow> u64 \<Rightarrow> usize option" where
  "translate t s x = (let d = entry_of t s x in
     if pd_is_valid d then Some (PAGE_DESC_TO_PA (pd_output_address d) OR (x AND (PAGE_SIZE - 1))) else None)"

lemma entry_of_page: "page_no x = page_no y \<Longrightarrow> entry_of t s x = entry_of t s y"
  using leaf_same [of 3 x y] by (simp add: entry_of_def pt_get_def same_page)

lemma paging_lookup_valid:
  assumes "pt_inv ps t s" "pd_is_valid (entry_of t s x)"
  shows "paging_lookup t x s = translate t s x"
proof -
  obtain a where a: "leaf (mm_hddm_offset s) (mm_mem s) 3 t x = Some a"
    using assms(2) by (auto simp: entry_of_def pt_get_def pd_is_valid_def split: option.splits)
  show ?thesis
    using leaf_entry(1,2) [OF assms(1) a] a assms(2) walk_for_lookup [OF assms(1), of x]
    by (simp add: paging_lookup_def paging_lookup_desc_def paging_page_to_pa_def load_def translate_def Let_def)
qed

lemma leaf_desc_fields:
  "pd_is_valid (leaf_desc pa perms ai sh px ux d)" "pd_output_address (leaf_desc pa perms ai sh px ux d) = take_bit 36 (PA_TO_PAGE_DESC pa)"
  "pd_ap (leaf_desc pa perms ai sh px ux d) = take_bit 2 perms" "pd_attr_index (leaf_desc pa perms ai sh px ux d) = take_bit 3 ai"
  "pd_sh (leaf_desc pa perms ai sh px ux d) = take_bit 2 sh"
  "pd_pxn (leaf_desc pa perms ai sh px ux d) = take_bit 1 px" "pd_uxn_xn (leaf_desc pa perms ai sh px ux d) = take_bit 1 ux"
  by (simp_all add: leaf_desc_def pd_defs Let_def)

text \<open>An address of a range, split into its page and its offset.\<close>

lemma range_split:
  assumes "IS_PAGE_ALIGNED va" "IS_PAGE_ALIGNED sz" "unat va + unat sz < 2 ^ 64" "x - va < sz"
  obtains j r where "j < unat sz div 4096" "r < 4096" "x = nth_page va j + of_nat r" "x - va = nth_page 0 j + of_nat r"
    "unat (nth_page va j) = unat va + j * 4096" "unat x = unat (nth_page va j) + r" "page_no x = page_no (nth_page va j)"
proof -
  let ?o = "unat (x - va)"
  have o: "?o < unat sz" using assms(4) by (simp add: word_less_nat_alt)
  obtain k where k: "unat sz = 4096 * k" using assms(2) by (auto simp: aligned_unat)
  obtain v where v: "unat va = 4096 * v" using assms(1) by (auto simp: aligned_unat)
  let ?j = "?o div 4096" let ?r = "?o mod 4096"
  have j: "?j < k" using o k by (simp add: less_mult_imp_div_less mult.commute)
  have u: "unat (nth_page va ?j) = unat va + ?j * 4096" by (rule unat_nth_page) (use j k assms(3) in simp)
  have x: "x - va = nth_page 0 ?j + of_nat ?r"
  proof -
    have "nth_page 0 a + of_nat b = of_nat (a * 4096 + b)" for a b by (simp add: nth_page_def PAGE_SIZE_def)
    then have "nth_page 0 ?j + of_nat ?r = of_nat (?j * 4096 + ?r)" .
    also have "\<dots> = x - va" unfolding div_mult_mod_eq by simp
    finally show ?thesis by (rule sym)
  qed
  then have x': "x = nth_page va ?j + of_nat ?r" by (simp add: nth_page_def algebra_simps)
  have r: "unat (of_nat ?r :: u64) = ?r" using mod_less_divisor [of 4096 ?o] by (simp add: unat_of_nat take_bit_nat_eq_self)
  have b: "unat (nth_page va ?j) + ?r < 2 ^ 64" using u assms(3) o by simp
  have ux: "unat x = unat (nth_page va ?j) + ?r"
  proof -
    have "unat x = unat (nth_page va ?j + of_nat ?r)" by (rule arg_cong [OF x'])
    also have "\<dots> = unat (nth_page va ?j) + unat (of_nat ?r :: u64)" by (rule unat_add_u64) (use b r in linarith)
    finally show ?thesis using r by linarith
  qed
  have "page_no x = page_no (nth_page va ?j)"
    using ux u v by (simp add: u64_eq_iff_unat unat_page_no)
  then show thesis using that [of ?j ?r] j k x x' u ux by simp
qed

lemma translate_leaf:
  assumes "IS_PAGE_ALIGNED va" "IS_PAGE_ALIGNED pa" "j * 4096 + r < n" "r < 4096" "unat va + j * 4096 + r < 2 ^ 64" "unat pa + n \<le> 2 ^ 48"
    and "x = nth_page va j + of_nat r" "entry_of t s x = leaf_desc (nth_page pa j) perms ai sh px ux d"
  shows "translate t s x = Some (pa + (nth_page 0 j + of_nat r))"
proof -
  obtain v where v: "unat va = 4096 * v" using assms(1) by (auto simp: aligned_unat)
  obtain q where q: "unat pa = 4096 * q" using assms(2) by (auto simp: aligned_unat)
  have uv: "unat (nth_page va j) = 4096 * (v + j)" using unat_nth_page [of va j] v assms(5) by simp
  have up: "unat (nth_page pa j) = 4096 * (q + j)" using unat_nth_page [of pa j] q assms(3,6) by simp
  have r: "unat (of_nat r :: u64) = r" using assms(4) by (simp add: unat_of_nat take_bit_nat_eq_self)
  have ux: "unat x = 4096 * (v + j) + r"
    unfolding assms(7) using unat_add_u64 [of "nth_page va j" "of_nat r"] uv r assms(5) v by simp
  have al: "IS_PAGE_ALIGNED (nth_page pa j)" "unat (nth_page pa j) < 2 ^ 48"
    using up q assms(3,6) by (simp_all add: IS_PAGE_ALIGNED_unat)
  have "x AND (PAGE_SIZE - 1) = take_bit 12 x" by (simp add: take_bit_eq_mask PAGE_SIZE_def mask_eq_exp_minus_1)
  also have "\<dots> = of_nat r"
  proof -
    have "unat (take_bit 12 x) = r" 
      unfolding unsigned_take_bit_eq ux using assms(4) by (simp add: take_bit_eq_mod del: distrib_left_numeral)
    then show ?thesis using r by (simp add: u64_eq_iff_unat)
  qed
  finally have lo: "x AND (PAGE_SIZE - 1) = of_nat r" .
  have "nth_page pa j OR of_nat r = nth_page pa j + of_nat r"
  proof (rule disjunctive_add_eq_or [symmetric], rule bit_eqI)
    fix b
    have "take_bit 12 (nth_page pa j) = 0"
    proof -
      have "unat (take_bit 12 (nth_page pa j)) = 0" unfolding unsigned_take_bit_eq using up by (simp add: take_bit_eq_mod)
      then show ?thesis by (simp add: unat_eq_zero)
    qed
    then have "b < 12 \<Longrightarrow> \<not> bit (nth_page pa j) b" by (metis bit_0_eq bit_take_bit_iff bot_apply bot_bool_def)
    moreover have "take_bit 12 (of_nat r :: u64) = of_nat r"
    proof -
      have "unat (take_bit 12 (of_nat r :: u64)) = r" unfolding unsigned_take_bit_eq using r assms(4) by (simp add: take_bit_nat_eq_self)
      then show ?thesis using r by (simp add: u64_eq_iff_unat)
    qed
    then have "bit (of_nat r :: u64) b \<Longrightarrow> b < 12" by (metis bit_take_bit_iff)
    ultimately show "bit (nth_page pa j AND of_nat r) b = bit 0 b" by (auto simp: bit_simps)
  qed
  moreover have "nth_page pa j + of_nat r = pa + (nth_page 0 j + of_nat r)" by (simp add: nth_page_def algebra_simps)
  ultimately show ?thesis
    unfolding translate_def assms(8) Let_def leaf_desc_fields pa_desc_roundtrip [OF al] lo by (simp add: leaf_desc_fields)
qed

text \<open>
  Claim C14. Mapping and unmapping are inverse: \<^verbatim>\<open>paging_map\<close> of an unmapped, aligned range succeeds when the
  page allocator has pages for the missing tables. Afterwards every address of the range translates to the
  physical address at the same offset with the given permissions, no other page changes, and the tables
  still form a tree with pages of their own. \<^verbatim>\<open>paging_unmap\<close> of the range then succeeds and brings back
  exactly the old translation of every address.
\<close>

theorem paging_map_roundtrip:
  assumes inv: "pt_inv ps t s" and al: "IS_PAGE_ALIGNED va" "IS_PAGE_ALIGNED pa" "IS_PAGE_ALIGNED sz"
    and bd: "unat va + unat sz < 2 ^ 64" "unat pa + unat sz \<le> 2 ^ 48" "3 * (unat sz div 4096) \<le> length ps"
    and un: "\<forall>x. x - va < sz \<longrightarrow> \<not> pd_is_valid (entry_of t s x)"
  shows "\<exists>s'. paging_map t va pa sz perms ai sh px ux s = Some (s', EOK) \<and> (\<exists>k. pt_inv (drop k ps) t s') \<and>
    (\<forall>x. x - va < sz \<longrightarrow> translate t s' x = Some (pa + (x - va)) \<and> paging_lookup t x s' = Some (pa + (x - va)) \<and>
       pd_ap (entry_of t s' x) = take_bit 2 perms \<and> pd_attr_index (entry_of t s' x) = take_bit 3 ai \<and>
       pd_sh (entry_of t s' x) = take_bit 2 sh \<and> pd_pxn (entry_of t s' x) = take_bit 1 px \<and> pd_uxn_xn (entry_of t s' x) = take_bit 1 ux) \<and>
    (\<forall>x. (\<forall>y. y - va < sz \<longrightarrow> page_no x \<noteq> page_no y) \<longrightarrow> entry_of t s' x = entry_of t s x) \<and>
    (\<exists>s''. paging_unmap t va sz s' = Some (s'', ()) \<and> (\<forall>x. translate t s'' x = translate t s x))"
proof -
  let ?n = "unat sz div 4096"
  obtain k where k: "unat sz = 4096 * k" using al(3) by (auto simp: aligned_unat)
  have e: "va + sz = nth_page va ?n"
    using bd(1) k unat_nth_page [of va ?n] unat_add_u64 [of va sz] by (simp add: u64_eq_iff_unat)
  have n: "unat va + ?n * 4096 < 2 ^ 64" "?n \<le> 2 ^ 36" using bd(1,2) k by simp_all
  have in_range: "nth_page va j - va < sz" if "j < ?n" for j
  proof -
    have "unat (nth_page 0 j) = j * 4096" using unat_nth_page [of 0 j] that n(1) by simp
    then show ?thesis using that k by (simp add: nth_page_def word_less_nat_alt)
  qed
  have "\<forall>j < ?n. \<not> pd_is_valid (entry_of t s (nth_page va j))" using un in_range by blast
  then obtain s' j' where s': "paging_map_loop t va (nth_page va ?n) pa perms ai sh px ux s = Some (s', EOK)"
    "pt_inv (drop j' ps) t s'"
    "\<forall>j < ?n. entry_of t s' (nth_page va j) = leaf_desc (nth_page pa j) perms ai sh px ux (entry_of t s (nth_page va j))"
    "\<forall>x. (\<forall>j < ?n. page_no x \<noteq> page_no (nth_page va j)) \<longrightarrow> entry_of t s' x = entry_of t s x"
    using paging_map_loop_ok [OF inv bd(3) n] by blast
  have "\<forall>j < ?n. pd_is_valid (entry_of t s' (nth_page va j))" using s'(3) leaf_desc_fields(1) by simp
  then obtain s'' where s'': "paging_unmap_loop t va (nth_page va ?n) s' = Some (s'', ())"
    "\<forall>j < ?n. entry_of t s'' (nth_page va j) = 0"
    "\<forall>x. (\<forall>j < ?n. page_no x \<noteq> page_no (nth_page va j)) \<longrightarrow> entry_of t s'' x = entry_of t s' x"
    using paging_unmap_loop_ok [OF s'(2) n] by blast
  have inside: "translate t s' x = Some (pa + (x - va)) \<and> (\<exists>d q. entry_of t s' x = leaf_desc q perms ai sh px ux d)" if x: "x - va < sz" for x
  proof -
    obtain j r where j: "j < ?n" "r < 4096" "x = nth_page va j + of_nat r" "x - va = nth_page 0 j + of_nat r"
      "unat (nth_page va j) = unat va + j * 4096" "unat x = unat (nth_page va j) + r" "page_no x = page_no (nth_page va j)"
      using range_split [OF al(1,3) bd(1) x] by metis
    have d: "entry_of t s' x = leaf_desc (nth_page pa j) perms ai sh px ux (entry_of t s (nth_page va j))"
      using s'(3) j(1) entry_of_page [OF j(7)] by metis
    have "j * 4096 + r < unat sz" "unat va + j * 4096 + r < 2 ^ 64" using j(1,2) k bd(1) by simp_all
    then show ?thesis using translate_leaf [OF al(1,2) _ j(2) _ bd(2) j(3) d] j(4) d by auto
  qed
  have undo: "translate t s'' x = translate t s x" for x
  proof (cases "\<exists>j < unat sz div 4096. page_no x = page_no (nth_page va j)")
    case True
    then obtain j where j: "j < ?n" "page_no x = page_no (nth_page va j)" by blast
    then have "\<not> pd_is_valid (entry_of t s x)" "\<not> pd_is_valid (entry_of t s'' x)"
      using un in_range [OF j(1)] s''(2) entry_of_page [OF j(2), of t s] entry_of_page [OF j(2), of t s'']
      by (auto simp: pd_is_valid_def)
    then show ?thesis by (simp add: translate_def Let_def)
  next
    case False
    then show ?thesis using s'(4) s''(3) by (simp add: translate_def)
  qed
  have frame: "entry_of t s' x = entry_of t s x" if "\<forall>y. y - va < sz \<longrightarrow> page_no x \<noteq> page_no y" for x
    using s'(4) that in_range by blast
  have look: "paging_lookup t x s' = translate t s' x" if "x - va < sz" for x
    using inside [OF that] paging_lookup_valid [OF s'(2)] leaf_desc_fields(1) by auto
  have perms: "pd_ap (entry_of t s' x) = take_bit 2 perms \<and> pd_attr_index (entry_of t s' x) = take_bit 3 ai \<and>
       pd_sh (entry_of t s' x) = take_bit 2 sh \<and> pd_pxn (entry_of t s' x) = take_bit 1 px \<and> pd_uxn_xn (entry_of t s' x) = take_bit 1 ux"
    if x: "x - va < sz" for x
    using inside [OF x] leaf_desc_fields(3-7) by metis
  show ?thesis
    using s'(1,2) s''(1) al e inside look frame undo perms
    by (intro exI [of _ s']) (auto simp: paging_map_def paging_unmap_def simp del: take_bit_Suc)
qed

text \<open>A root table at 0x1000 and three free pages.\<close>

definition pt_example :: mem_state where
  "pt_example = cpu_ctx.extend ctx_example
     \<lparr>mm_mem = (\<lambda>_. 0)(0x2000 := 0x3000, 0x3000 := 0x4000), mm_pmm_lock = spinlock_init, mm_free_list = 0x2000,
      mm_memmap_table = [], mm_hddm_offset = 0, mm_kernel_physical_base = 0, mm_kernel_virtual_base = 0,
      mm_ttbr0_el1 = 0, mm_ttbr1_el1 = 0\<rparr>"

lemma pt_example_page: "p \<in> {0x1000, 0x2000, 0x3000, 0x4000} \<Longrightarrow> table_page 0 p"
  by (auto simp: table_page_def IS_PAGE_ALIGNED_unat)

lemma pt_example_mem: "page_of a = 0x1000 \<Longrightarrow> mm_mem pt_example a = 0"
  by (auto simp: pt_example_def cpu_ctx.defs page_of_def round_down_def round_mask_def PAGE_SIZE_def)

lemma pt_example_inv: "pt_inv [0x2000, 0x3000, 0x4000] 0x1000 pt_example"
proof -
  have h: "mm_hddm_offset pt_example = 0" by (simp add: pt_example_def cpu_ctx.defs)
  have "mem_ok pt_example"
    using ctx_example_ok by (simp add: mem_ok_def pml_get_def pt_example_def cpu_ctx.defs cx_ok_def ctx_example_def)
  moreover have "free_ok [0x2000, 0x3000, 0x4000] pt_example"
    using pt_example_page by (simp add: free_ok_def h) (simp add: pt_example_def cpu_ctx.defs)
  moreover have "tree 0 (mm_mem pt_example) 3 0x1000" "tables 0 (mm_mem pt_example) 3 0x1000 = {0x1000}"
    by (rule empty_tree; use pt_example_page pt_example_mem in simp)+
  ultimately show ?thesis by (simp add: pt_inv_def h)
qed

theorem paging_map_roundtrip_witness:
  "\<exists>s'. paging_map 0x1000 0x400000 0x8000 0x1000 EL1_READ_WRITE_EL0_READ_WRITE ATTR_INDEX_NORMAL SHAREABLE_INNER_SHAREABLE
      NOT_EXECUTABLE NOT_EXECUTABLE pt_example = Some (s', EOK) \<and> translate 0x1000 s' 0x400123 = Some 0x8123"
proof -
  have "entry_of 0x1000 pt_example x = 0" for x
    using empty_tree(3) [of 0 "0x1000" "mm_mem pt_example" 3 x] pt_example_page [of "0x1000"] pt_example_mem
    by (simp add: entry_of_def) (simp add: pt_example_def cpu_ctx.defs)
  then have "\<forall>x. x - 0x400000 < 0x1000 \<longrightarrow> \<not> pd_is_valid (entry_of 0x1000 pt_example x)" by (simp add: pd_is_valid_def)
  from paging_map_roundtrip [OF pt_example_inv _ _ _ _ _ _ this, of "0x8000" EL1_READ_WRITE_EL0_READ_WRITE ATTR_INDEX_NORMAL
      SHAREABLE_INNER_SHAREABLE NOT_EXECUTABLE NOT_EXECUTABLE]
  obtain s' where "paging_map 0x1000 0x400000 0x8000 0x1000 EL1_READ_WRITE_EL0_READ_WRITE ATTR_INDEX_NORMAL SHAREABLE_INNER_SHAREABLE
      NOT_EXECUTABLE NOT_EXECUTABLE pt_example = Some (s', EOK)"
    "\<forall>x. x - 0x400000 < 0x1000 \<longrightarrow> translate 0x1000 s' x = Some (0x8000 + (x - 0x400000))"
    by (auto simp: IS_PAGE_ALIGNED_unat)
  then show ?thesis by (intro exI [of _ s'] conjI) (assumption, drule spec [of _ "0x400123"], simp)
qed

end
