(* ===== verification/Vmm.thy ===== *)
theory Vmm
  imports Paging Region
begin

text \<open>
  The virtual memory manager of the kernel (\<^verbatim>\<open>kernel/mm/vmm.c\<close>): mapping physical memory and
  allocating pages in a region of addresses, for the kernel's own regions under its lock and for the
  regions of user address spaces, which call the functions without lock. A region is passed in and out.
\<close>

definition KERNEL_VM_RANGE_BASE :: usize where "KERNEL_VM_RANGE_BASE = 0xffffffffa0000000"
definition KERNEL_VM_RANGE_SIZE :: usize where "KERNEL_VM_RANGE_SIZE = 0x40000000"
definition KERNEL_MMIO_RANGE_START :: usize where "KERNEL_MMIO_RANGE_START = 0xffffffff90000000"
definition KERNEL_MMIO_RANGE_SIZE :: usize where "KERNEL_MMIO_RANGE_SIZE = 0x10000000"

record KernelAddressSpace =
  kas_lock :: SpinLock
  kas_kernel_page_table :: u64
  kas_kernel_user_table :: u64
  kas_kernel_mem_region :: AllocRegion
  kas_kernel_mmio_region :: AllocRegion

record vm_state = mem_state +
  vm_as :: KernelAddressSpace

type_synonym 'a vms = "'a vm_state_scheme"

definition kas_get :: "'a vms \<Rightarrow> SpinLock" where "kas_get s = kas_lock (vm_as s)"
definition kas_put :: "SpinLock \<Rightarrow> 'a vms \<Rightarrow> 'a vms" where "kas_put l s = s\<lparr>vm_as := (vm_as s)\<lparr>kas_lock := l\<rparr>\<rparr>"

interpretation kasl: lock_slot "\<lambda>_. True" kas_get kas_put
  by unfold_locales (simp_all add: kas_get_def kas_put_def cx_put_def)

definition set_mem_region :: "AllocRegion \<Rightarrow> 'a vms \<Rightarrow> 'a vms" where
  "set_mem_region r s = s\<lparr>vm_as := (vm_as s)\<lparr>kas_kernel_mem_region := r\<rparr>\<rparr>"

definition set_mmio_region :: "AllocRegion \<Rightarrow> 'a vms \<Rightarrow> 'a vms" where
  "set_mmio_region r s = s\<lparr>vm_as := (vm_as s)\<lparr>kas_kernel_mmio_region := r\<rparr>\<rparr>"

section \<open>Mapping and allocating in a region\<close>

text \<open>The result of \<^verbatim>\<open>region_alloc\<close> is not checked: an error pointer is not page aligned, so the mapping panics.\<close>

definition vm_map ::
  "u64 \<Rightarrow> usize \<Rightarrow> usize \<Rightarrow> AllocRegion \<Rightarrow> u64 \<Rightarrow> u64 \<Rightarrow> u64 \<Rightarrow> u64 \<Rightarrow> u64 \<Rightarrow> 'a mss \<Rightarrow> ('a mss \<times> AllocRegion \<times> u64) option" where
  "vm_map table pa sz region perms attr_index shareability pxn uxn s = do {
     let sz = (if IS_PAGE_ALIGNED sz then sz else round_up sz PAGE_SIZE);
     let page_count = sz div PAGE_SIZE;
     (region, va) \<leftarrow> region_alloc region page_count;
     (s, err) \<leftarrow> paging_map table va pa sz perms attr_index shareability pxn uxn s;
     Some (s, region, if err \<noteq> EOK then ERR_TO_PTR err else va)
   }"

definition vm_unmap :: "u64 \<Rightarrow> u64 \<Rightarrow> usize \<Rightarrow> AllocRegion \<Rightarrow> 'a mss \<Rightarrow> ('a mss \<times> AllocRegion \<times> errno_t) option" where
  "vm_unmap table va sz region s = do {
     let sz = (if IS_PAGE_ALIGNED sz then sz else round_up sz PAGE_SIZE);
     (region, _) \<leftarrow> region_free region va;
     (s, _) \<leftarrow> paging_unmap table va sz s;
     Some (s, region, EOK)
   }"

text \<open>The pages from \<open>va\<close> on, \<open>n\<close> of them; the result is the error of the function, or none.\<close>

primrec vm_alloc_pages ::
  "nat \<Rightarrow> u64 \<Rightarrow> u64 \<Rightarrow> u64 \<Rightarrow> u64 \<Rightarrow> u64 \<Rightarrow> u64 \<Rightarrow> u64 \<Rightarrow> 'a mss \<Rightarrow> ('a mss \<times> u64 option) option" where
  "vm_alloc_pages 0 table va perms attr_index shareability pxn uxn s = Some (s, None)"
| "vm_alloc_pages (Suc n) table va perms attr_index shareability pxn uxn s = do {
     (s, pa) \<leftarrow> pmm_alloc s;
     if IS_ERR_VALUE pa then Some (s, Some (ERR_TO_PTR (- ENOMEM)))
     else do {
       (s, err) \<leftarrow> paging_map table va pa PAGE_SIZE perms attr_index shareability pxn uxn s;
       if err \<noteq> EOK then Some (s, Some (ERR_TO_PTR err))
       else vm_alloc_pages n table (va + PAGE_SIZE) perms attr_index shareability pxn uxn s
     }
   }"

definition vm_alloc ::
  "u64 \<Rightarrow> usize \<Rightarrow> AllocRegion \<Rightarrow> u64 \<Rightarrow> u64 \<Rightarrow> u64 \<Rightarrow> u64 \<Rightarrow> u64 \<Rightarrow> 'a mss \<Rightarrow> ('a mss \<times> AllocRegion \<times> u64) option" where
  "vm_alloc table sz region perms attr_index shareability pxn uxn s = do {
     let page_count = sz div PAGE_SIZE;
     (region, start) \<leftarrow> region_alloc region page_count;
     if IS_ERR start then Some (s, region, ERR_TO_PTR (- ENOMEM))
     else do {
       (s, err) \<leftarrow> vm_alloc_pages (unat page_count) table start perms attr_index shareability pxn uxn s;
       Some (s, region, case err of None \<Rightarrow> start | Some e \<Rightarrow> e)
     }
   }"

definition vm_free_page :: "u64 \<Rightarrow> u64 \<Rightarrow> usize \<Rightarrow> 'a mss \<Rightarrow> 'a mss option" where
  "vm_free_page table addr page s = do {
     let va = addr + page * PAGE_SIZE;
     pa \<leftarrow> paging_lookup table va s;
     if pa \<noteq> 0 then do {
       (s, _) \<leftarrow> paging_unmap table va PAGE_SIZE s;
       (s, _) \<leftarrow> pmm_free pa s;
       Some s
     }
     else Some s
   }"

definition vm_free :: "u64 \<Rightarrow> u64 \<Rightarrow> AllocRegion \<Rightarrow> 'a mss \<Rightarrow> ('a mss \<times> AllocRegion) option" where
  "vm_free table addr region s = do {
     allocation \<leftarrow> region_find region addr;
     case allocation of
       Inl _ \<Rightarrow> None
     | Inr i \<Rightarrow> do {
         s \<leftarrow> foldM (vm_free_page table addr) (u64_range 0 (ra_page_count (rg_allocations region ! i))) s;
         (region, _) \<leftarrow> region_free region addr;
         Some (s, region)
       }
   }"

section \<open>The kernel's address space\<close>

definition vm_set_kernel_page_table :: "'a vms \<Rightarrow> ('a vms \<times> unit) option" where
  "vm_set_kernel_page_table s =
     with_lock kas_get kas_put (\<lambda>s. do {
       s \<leftarrow> paging_switch_kernel_table (kas_kernel_page_table (vm_as s)) s;
       Some (s, ())
     }) s"

definition vm_init :: "kernel_symbols \<Rightarrow> (usize \<times> usize \<times> usize) list \<Rightarrow> 'a vms \<Rightarrow> 'a vms option" where
  "vm_init ks limine_entries s = do {
     let s = kas_put spinlock_init s;
     (s, kt) \<leftarrow> paging_create_table s;
     let s = s\<lparr>vm_as := (vm_as s)\<lparr>kas_kernel_page_table := kt\<rparr>\<rparr>;
     ASSERT (\<not> IS_ERR kt);
     (s, ut) \<leftarrow> paging_create_table s;
     let s = s\<lparr>vm_as := (vm_as s)\<lparr>kas_kernel_user_table := ut\<rparr>\<rparr>;
     ASSERT (\<not> IS_ERR ut);
     s \<leftarrow> paging_kernel_init ks limine_entries kt s;
     (s, _) \<leftarrow> vm_set_kernel_page_table s;
     mem \<leftarrow> region_init (STATIC_ALLOC_VM_REGION KERNEL_VM_RANGE_BASE KERNEL_VM_RANGE_SIZE);
     mmio \<leftarrow> region_init (STATIC_ALLOC_VM_REGION KERNEL_MMIO_RANGE_START KERNEL_MMIO_RANGE_SIZE);
     Some (set_mmio_region mmio (set_mem_region mem s))
   }"

definition vm_get_kernel_user_page_table :: "'a vms \<Rightarrow> u64" where
  "vm_get_kernel_user_page_table s = kas_kernel_user_table (vm_as s)"

definition vm_mem_map :: "usize \<Rightarrow> usize \<Rightarrow> 'a vms \<Rightarrow> ('a vms \<times> u64) option" where
  "vm_mem_map pa sz s =
     with_lock kas_get kas_put (\<lambda>s. do {
       (s, r, va) \<leftarrow> vm_map (kas_kernel_page_table (vm_as s)) pa sz (kas_kernel_mem_region (vm_as s))
         EL1_READ_WRITE_EL0_NONE ATTR_INDEX_NORMAL SHAREABLE_INNER_SHAREABLE NOT_EXECUTABLE NOT_EXECUTABLE s;
       Some (set_mem_region r s, va)
     }) s"

definition vm_mmio_map :: "usize \<Rightarrow> usize \<Rightarrow> 'a vms \<Rightarrow> ('a vms \<times> u64) option" where
  "vm_mmio_map pa sz s =
     with_lock kas_get kas_put (\<lambda>s. do {
       let page_base = round_down pa PAGE_SIZE;
       let offset = pa - page_base;
       (s, r, va) \<leftarrow> vm_map (kas_kernel_page_table (vm_as s)) page_base (sz + offset) (kas_kernel_mmio_region (vm_as s))
         EL1_READ_WRITE_EL0_NONE ATTR_INDEX_DEVICE SHAREABLE_NON_SHAREABLE NOT_EXECUTABLE NOT_EXECUTABLE s;
       Some (set_mmio_region r s, if IS_ERR va then va else va + offset)
     }) s"

definition vm_mem_unmap :: "u64 \<Rightarrow> usize \<Rightarrow> 'a vms \<Rightarrow> ('a vms \<times> unit) option" where
  "vm_mem_unmap addr sz s =
     with_lock kas_get kas_put (\<lambda>s. do {
       (s, r, _) \<leftarrow> vm_unmap (kas_kernel_page_table (vm_as s)) addr sz (kas_kernel_mem_region (vm_as s)) s;
       Some (set_mem_region r s, ())
     }) s"

definition vm_mmio_unmap :: "u64 \<Rightarrow> usize \<Rightarrow> 'a vms \<Rightarrow> ('a vms \<times> unit) option" where
  "vm_mmio_unmap addr sz s =
     with_lock kas_get kas_put (\<lambda>s. do {
       let offset = addr AND (PAGE_SIZE - 1);
       (s, r, _) \<leftarrow> vm_unmap (kas_kernel_page_table (vm_as s)) (addr - offset) (round_up (sz + offset) PAGE_SIZE)
         (kas_kernel_mmio_region (vm_as s)) s;
       Some (set_mmio_region r s, ())
     }) s"

definition vm_alloc_mem :: "usize \<Rightarrow> 'a vms \<Rightarrow> ('a vms \<times> u64) option" where
  "vm_alloc_mem sz s =
     with_lock kas_get kas_put (\<lambda>s. do {
       (s, r, va) \<leftarrow> vm_alloc (kas_kernel_page_table (vm_as s)) sz (kas_kernel_mem_region (vm_as s))
         EL1_READ_WRITE_EL0_NONE ATTR_INDEX_NORMAL SHAREABLE_INNER_SHAREABLE NOT_EXECUTABLE NOT_EXECUTABLE s;
       Some (set_mem_region r s, va)
     }) s"

definition vm_alloc_mmio :: "usize \<Rightarrow> 'a vms \<Rightarrow> ('a vms \<times> u64) option" where
  "vm_alloc_mmio sz s =
     with_lock kas_get kas_put (\<lambda>s. do {
       (s, r, va) \<leftarrow> vm_alloc (kas_kernel_page_table (vm_as s)) sz (kas_kernel_mmio_region (vm_as s))
         EL1_READ_WRITE_EL0_NONE ATTR_INDEX_DEVICE SHAREABLE_NON_SHAREABLE NOT_EXECUTABLE NOT_EXECUTABLE s;
       Some (set_mmio_region r s, va)
     }) s"

definition vm_free_mem :: "u64 \<Rightarrow> 'a vms \<Rightarrow> ('a vms \<times> unit) option" where
  "vm_free_mem addr s =
     with_lock kas_get kas_put (\<lambda>s. do {
       (s, r) \<leftarrow> vm_free (kas_kernel_page_table (vm_as s)) addr (kas_kernel_mem_region (vm_as s)) s;
       Some (set_mem_region r s, ())
     }) s"

definition vm_free_mmio :: "u64 \<Rightarrow> 'a vms \<Rightarrow> ('a vms \<times> unit) option" where
  "vm_free_mmio addr s =
     with_lock kas_get kas_put (\<lambda>s. do {
       (s, r) \<leftarrow> vm_free (kas_kernel_page_table (vm_as s)) addr (kas_kernel_mmio_region (vm_as s)) s;
       Some (set_mmio_region r s, ())
     }) s"

end
