(* ===== verification/KHeap.thy ===== *)
theory KHeap
  imports Vmm FreeList
begin

text \<open>
  The kernel heap (\<^verbatim>\<open>kernel/mm/kheap.c\<close>): a free list in pages of the kernel's memory region that grows on
  demand, and the regions that live in heap memory. The headers of the blocks are kept beside the other words of memory
  (\<open>hs_blocks\<close>). A write through an error pointer faults.
\<close>

record KHeap =
  kh_lock :: SpinLock
  kh_freelist :: FreeList

record heap_state = vm_state +
  hs_kheap :: KHeap
  hs_blocks :: fl_mem

type_synonym 'a hss = "'a heap_state_scheme"

text \<open>\<^verbatim>\<open>round_up((usize)5 * 1000 * 1000, PAGE_SIZE)\<close>.\<close>

definition INITIAL_HEAP_SIZE :: usize where "INITIAL_HEAP_SIZE = round_up 5000000 PAGE_SIZE"
definition MAX_HEAP_SIZE :: usize where "MAX_HEAP_SIZE = 50000000"

definition khl_get :: "'a hss \<Rightarrow> SpinLock" where "khl_get s = kh_lock (hs_kheap s)"
definition khl_put :: "SpinLock \<Rightarrow> 'a hss \<Rightarrow> 'a hss" where "khl_put l s = s\<lparr>hs_kheap := (hs_kheap s)\<lparr>kh_lock := l\<rparr>\<rparr>"

interpretation khl: lock_slot "\<lambda>_. True" khl_get khl_put
  by unfold_locales (simp_all add: khl_get_def khl_put_def cx_put_def)

definition set_heap :: "FreeList \<Rightarrow> fl_mem \<Rightarrow> 'a hss \<Rightarrow> 'a hss" where
  "set_heap fl m s = s\<lparr>hs_kheap := (hs_kheap s)\<lparr>kh_freelist := fl\<rparr>, hs_blocks := m\<rparr>"

definition kheap_init :: "'a hss \<Rightarrow> 'a hss option" where
  "kheap_init s = do {
     let s = khl_put spinlock_init s;
     (s, pool) \<leftarrow> vm_alloc_mem INITIAL_HEAP_SIZE s;
     ASSERT (\<not> IS_ERR pool);
     let (fl, m) = freelist_init (hs_blocks s) pool INITIAL_HEAP_SIZE;
     Some (set_heap fl m s)
   }"

definition grow_heap :: "usize \<Rightarrow> 'a hss \<Rightarrow> 'a hss option" where
  "grow_heap sz s = do {
     ASSERT (sz \<noteq> 0);
     if fl_capacity (kh_freelist (hs_kheap s)) + sz > MAX_HEAP_SIZE then Some s
     else do {
       let rounded_size = round_up sz PAGE_SIZE;
       (s, pool) \<leftarrow> vm_alloc_mem rounded_size s;
       ASSERT (\<not> IS_ERR pool);
       (fl, m) \<leftarrow> freelist_add_region (kh_freelist (hs_kheap s)) (hs_blocks s) pool rounded_size;
       Some (set_heap fl m s)
     }
   }"

definition kalloc :: "usize \<Rightarrow> 'a hss \<Rightarrow> ('a hss \<times> u64) option" where
  "kalloc sz s =
     with_lock khl_get khl_put (\<lambda>s. do {
       (fl, m, alloc) \<leftarrow> freelist_alloc (kh_freelist (hs_kheap s)) (hs_blocks s) sz;
       let s = set_heap fl m s;
       (s, alloc) \<leftarrow> (if IS_ERR alloc then do {
          s \<leftarrow> grow_heap sz s;
          (fl, m, alloc) \<leftarrow> freelist_alloc (kh_freelist (hs_kheap s)) (hs_blocks s) sz;
          Some (set_heap fl m s, alloc)
        }
        else Some (s, alloc));
       Some (s, if IS_ERR alloc then ERR_TO_PTR (- ENOMEM) else alloc)
     }) s"

definition kfree :: "u64 \<Rightarrow> 'a hss \<Rightarrow> ('a hss \<times> unit) option" where
  "kfree ptr s = do {
     ASSERT (ptr \<noteq> 0);
     with_lock khl_get khl_put (\<lambda>s. do {
       (fl, m) \<leftarrow> freelist_free (kh_freelist (hs_kheap s)) (hs_blocks s) ptr;
       Some (set_heap fl m s, ())
     }) s
   }"

section \<open>Regions in heap memory\<close>

text \<open>
  Objects in blocks of the heap are in maps by their address. \<open>junk a n\<close> is what the \<open>n\<close> bytes of a new
  block at \<open>a\<close> hold: \<^verbatim>\<open>region_create\<close> clears the table of allocations but not the bitmap.
  \<open>new_region\<close> and \<open>drop_region\<close> run the functions of the region allocator on the heap.
\<close>

record AddressSpace =
  as_lock :: SpinLock
  as_table :: u64
  as_user_region :: u64

record as_state = heap_state +
  as_regions :: "u64 \<Rightarrow> AllocRegion option"
  as_spaces :: "u64 \<Rightarrow> AddressSpace option"

type_synonym 'a ass = "'a as_state_scheme"

definition set_region :: "u64 \<Rightarrow> AllocRegion \<Rightarrow> 'a ass \<Rightarrow> 'a ass" where
  "set_region p r s = s\<lparr>as_regions := (as_regions s)(p \<mapsto> r)\<rparr>"

definition kalloc_fn :: "'a ass \<Rightarrow> usize \<Rightarrow> ('a ass \<times> u64) option" where "kalloc_fn s sz = kalloc sz s"
definition kfree_fn :: "'a ass \<Rightarrow> u64 \<Rightarrow> 'a ass option" where "kfree_fn s p = map_option fst (kfree p s)"

definition new_region ::
  "(u64 \<Rightarrow> nat \<Rightarrow> u8 list) \<Rightarrow> usize \<Rightarrow> usize \<Rightarrow> usize \<Rightarrow> 'a ass \<Rightarrow> ('a ass \<times> u64) option" where
  "new_region junk base sz max_allocations s = do {
     (s, region, r) \<leftarrow> region_create kalloc_fn kfree_fn (\<lambda>_. junk) s base sz max_allocations;
     Some (case r of None \<Rightarrow> s | Some r \<Rightarrow> set_region region r s, region)
   }"

definition drop_region :: "u64 \<Rightarrow> 'a ass \<Rightarrow> 'a ass option" where
  "drop_region region s = do {
     r \<leftarrow> as_regions s region;
     s \<leftarrow> region_destroy kfree_fn s region r;
     Some (s\<lparr>as_regions := (as_regions s)(region := None)\<rparr>)
   }"

end
