(* ===== verification/AddressSpace.thy ===== *)
theory AddressSpace
  imports KHeap
begin

text \<open>
  User address spaces (\<^verbatim>\<open>kernel/mm/address_space.c\<close>): a page table and a region of user addresses.
  They live in heap memory (\<open>as_spaces\<close>). The names of the functions have the suffix \<open>_mm\<close> where the
  process layer uses the plain name.
\<close>

abbreviation sizeof_AddressSpace :: usize where "sizeof_AddressSpace \<equiv> 40"

abbreviation CONFIG_VM_MAX_USER_ALLOCATIONS :: usize where "CONFIG_VM_MAX_USER_ALLOCATIONS \<equiv> 256"

definition set_space :: "u64 \<Rightarrow> AddressSpace \<Rightarrow> 'a ass \<Rightarrow> 'a ass" where
  "set_space p v s = s\<lparr>as_spaces := (as_spaces s)(p \<mapsto> v)\<rparr>"

definition asl_get :: "u64 \<Rightarrow> 'a ass \<Rightarrow> SpinLock" where
  "asl_get p s = (case as_spaces s p of None \<Rightarrow> \<lparr>sp_locked = True, sp_cpu = None\<rparr> | Some v \<Rightarrow> as_lock v)"
definition asl_put :: "u64 \<Rightarrow> SpinLock \<Rightarrow> 'a ass \<Rightarrow> 'a ass" where
  "asl_put p l s = s\<lparr>as_spaces := (as_spaces s)(p := map_option (\<lambda>v. v\<lparr>as_lock := l\<rparr>) (as_spaces s p))\<rparr>"

interpretation asl: lock_slot "\<lambda>s. as_spaces s p \<noteq> None" "asl_get p" "asl_put p" for p
  by unfold_locales (auto simp: asl_get_def asl_put_def cx_put_def)

section \<open>Creating and destroying\<close>

definition address_space_create_mm :: "(u64 \<Rightarrow> nat \<Rightarrow> u8 list) \<Rightarrow> 'a ass \<Rightarrow> ('a ass \<times> u64) option" where
  "address_space_create_mm junk s = do {
     (s, as) \<leftarrow> kalloc sizeof_AddressSpace s;
     if IS_ERR as then Some (s, ERR_TO_PTR (- ENOMEM))
     else do {
       (s, table) \<leftarrow> paging_create_table s;
       if IS_ERR table then do {
         (s, _) \<leftarrow> kfree as s;
         Some (s, ERR_TO_PTR (- ENOMEM))
       }
       else do {
         (s, region) \<leftarrow> new_region junk USER_VM_RANGE_BASE USER_VM_RANGE_SIZE CONFIG_VM_MAX_USER_ALLOCATIONS s;
         if IS_ERR region then do {
           (s, _) \<leftarrow> paging_destroy_table table s;
           (s, _) \<leftarrow> kfree as s;
           Some (s, ERR_TO_PTR (- ENOMEM))
         }
         else Some (set_space as \<lparr>as_lock = spinlock_init, as_table = table, as_user_region = region\<rparr> s, as)
       }
     }
   }"

text \<open>The loop of \<^verbatim>\<open>address_space_destroy\<close> over the table of allocations.\<close>

definition destroy_alloc :: "u64 \<Rightarrow> u64 \<Rightarrow> usize \<Rightarrow> 'a ass \<Rightarrow> 'a ass option" where
  "destroy_alloc table region i s = do {
     r \<leftarrow> as_regions s region;
     ASSERT (unat i < length (rg_allocations r));
     let va = ra_va (rg_allocations r ! unat i);
     if va \<noteq> 0 then do {
       (s, r) \<leftarrow> vm_free table va r s;
       Some (set_region region r s)
     }
     else Some s
   }"

definition address_space_destroy_mm :: "u64 \<Rightarrow> 'a ass \<Rightarrow> 'a ass option" where
  "address_space_destroy_mm as s = do {
     v \<leftarrow> as_spaces s as;
     (l, s) \<leftarrow> spinlock_acquire (as_lock v) s;
     let s = asl_put as l s;
     r \<leftarrow> as_regions s (as_user_region v);
     s \<leftarrow> foldM (destroy_alloc (as_table v) (as_user_region v)) (u64_range 0 (rg_max_allocations_count r)) s;
     s \<leftarrow> drop_region (as_user_region v) s;
     (s, _) \<leftarrow> paging_destroy_table (as_table v) s;
     (s, _) \<leftarrow> kfree as s;
     Some (s\<lparr>as_spaces := (as_spaces s)(as := None)\<rparr>)
   }"

section \<open>Copying\<close>

text \<open>\<^verbatim>\<open>memcpy\<close> of one page.\<close>

definition copy_page :: "u64 \<Rightarrow> u64 \<Rightarrow> (u64 \<Rightarrow> u64) \<Rightarrow> u64 \<Rightarrow> u64" where
  "copy_page dst src m = (\<lambda>a. if a - dst < PAGE_SIZE then m (src + (a - dst)) else m a)"

text \<open>
  One page of the copy: the outcome is the new count of mapped pages and whether to go on (\<open>None\<close>) or to
  clean up and return an error code, which is \<open>EOK\<close> when no page is left.
\<close>

definition copy_one_page :: "u64 \<Rightarrow> u64 \<Rightarrow> u64 \<Rightarrow> usize \<Rightarrow> 'a mss \<Rightarrow> ('a mss \<times> usize \<times> errno_t option) option" where
  "copy_one_page dst_table src_table va mapped_pages s = do {
     src_pde \<leftarrow> paging_lookup_desc src_table va s;
     d \<leftarrow> load src_pde s;
     if \<not> pd_is_valid d \<or> \<not> pd_is_page d then Some (s, mapped_pages, None)
     else do {
       src_pa \<leftarrow> paging_page_to_pa src_pde va s;
       (s, dst_pa) \<leftarrow> pmm_alloc s;
       if IS_ERR dst_pa then Some (s, mapped_pages, Some EOK)
       else do {
         let s = s\<lparr>mm_mem := copy_page (pmm_phys_to_virt dst_pa s) (pmm_phys_to_virt src_pa s) (mm_mem s)\<rparr>;
         d \<leftarrow> load src_pde s;
         (s, ret) \<leftarrow> paging_map dst_table va dst_pa PAGE_SIZE (pd_ap d) (pd_attr_index d) (pd_sh d) (pd_pxn d) (pd_uxn_xn d) s;
         if ret \<noteq> EOK then do {
           (s, _) \<leftarrow> pmm_free dst_pa s;
           Some (s, mapped_pages, Some ret)
         }
         else Some (s, mapped_pages + 1, None)
       }
     }
   }"

primrec copy_pages :: "u64 \<Rightarrow> u64 \<Rightarrow> u64 list \<Rightarrow> usize \<Rightarrow> 'a mss \<Rightarrow> ('a mss \<times> usize \<times> errno_t option) option" where
  "copy_pages dst_table src_table [] mapped_pages s = Some (s, mapped_pages, None)"
| "copy_pages dst_table src_table (va # vas) mapped_pages s = do {
     (s, mapped_pages, e) \<leftarrow> copy_one_page dst_table src_table va mapped_pages s;
     case e of None \<Rightarrow> copy_pages dst_table src_table vas mapped_pages s | Some _ \<Rightarrow> Some (s, mapped_pages, e)
   }"

text \<open>The addresses of the pages of a table of allocations, in the order of the two loops.\<close>

definition alloc_pages :: "AllocRegion \<Rightarrow> u64 list" where
  "alloc_pages r = concat (map (\<lambda>a. map (\<lambda>i. ra_va a + i * PAGE_SIZE) (u64_range 0 (ra_page_count a)))
     (take (unat (rg_max_allocations_count r)) (rg_allocations r)))"

text \<open>The cleanup frees the first pages of the destination, as many as were mapped; the mappings stay.\<close>

definition cleanup_page :: "u64 \<Rightarrow> u64 \<Rightarrow> 'a mss \<Rightarrow> 'a mss option" where
  "cleanup_page table va s = do {
     pa \<leftarrow> paging_lookup table va s;
     if pa \<noteq> 0 then do { (s, _) \<leftarrow> pmm_free pa s; Some s } else Some s
   }"

definition address_space_copy :: "u64 \<Rightarrow> u64 \<Rightarrow> 'a ass \<Rightarrow> ('a ass \<times> errno_t) option" where
  "address_space_copy dst src s = do {
     d \<leftarrow> as_spaces s dst;
     v \<leftarrow> as_spaces s src;
     rs \<leftarrow> as_regions s (as_user_region v);
     rd \<leftarrow> as_regions s (as_user_region d);
     ASSERT (unat (rg_max_allocations_count rs) \<le> length (rg_allocations rs));
     (s, mapped_pages, e) \<leftarrow> copy_pages (as_table d) (as_table v) (alloc_pages rs) 0 s;
     case e of
       None \<Rightarrow> Some (s, EOK)
     | Some ret \<Rightarrow> do {
         s \<leftarrow> foldM (cleanup_page (as_table d)) (take (unat mapped_pages) (alloc_pages rd)) s;
         Some (s, ret)
       }
   }"

definition address_space_create_from_mm :: "(u64 \<Rightarrow> nat \<Rightarrow> u8 list) \<Rightarrow> u64 \<Rightarrow> 'a ass \<Rightarrow> ('a ass \<times> u64) option" where
  "address_space_create_from_mm junk src s =
     with_lock (asl_get src) (asl_put src) (\<lambda>s. do {
       (s, dst) \<leftarrow> address_space_create_mm junk s;
       if IS_ERR dst then Some (s, dst)
       else do {
         d \<leftarrow> as_spaces s dst;
         v \<leftarrow> as_spaces s src;
         rd \<leftarrow> as_regions s (as_user_region d);
         rs \<leftarrow> as_regions s (as_user_region v);
         (rd, ret) \<leftarrow> region_copy False rd rs;
         let s = set_region (as_user_region d) rd s;
         if ret \<noteq> EOK then do {
           s \<leftarrow> address_space_destroy_mm dst s;
           Some (s, ERR_TO_PTR ret)
         }
         else do {
           (s, ret) \<leftarrow> address_space_copy dst src s;
           if ret \<noteq> EOK then do {
             s \<leftarrow> address_space_destroy_mm dst s;
             Some (s, ERR_TO_PTR ret)
           }
           else Some (s, dst)
         }
       }
     }) s"

section \<open>Allocating and mapping\<close>

definition address_space_alloc_mm :: "u64 \<Rightarrow> usize \<Rightarrow> u64 \<Rightarrow> u64 \<Rightarrow> 'a ass \<Rightarrow> ('a ass \<times> u64) option" where
  "address_space_alloc_mm as sz perms uxn s =
     with_lock (asl_get as) (asl_put as) (\<lambda>s. do {
       v \<leftarrow> as_spaces s as;
       r \<leftarrow> as_regions s (as_user_region v);
       (s, r, va) \<leftarrow> vm_alloc (as_table v) sz r perms ATTR_INDEX_NORMAL SHAREABLE_INNER_SHAREABLE NOT_EXECUTABLE uxn s;
       Some (set_region (as_user_region v) r s, va)
     }) s"

definition address_space_map_unowned_impl ::
  "u64 \<Rightarrow> usize \<Rightarrow> usize \<Rightarrow> usize \<Rightarrow> u64 \<Rightarrow> u64 \<Rightarrow> 'a ass \<Rightarrow> ('a ass \<times> errno_t) option" where
  "address_space_map_unowned_impl as va pa sz perms uxn s = do {
     v \<leftarrow> as_spaces s as;
     paging_map (as_table v) va pa sz perms ATTR_INDEX_NORMAL SHAREABLE_INNER_SHAREABLE NOT_EXECUTABLE uxn s
   }"

definition address_space_map_unowned ::
  "u64 \<Rightarrow> usize \<Rightarrow> usize \<Rightarrow> usize \<Rightarrow> u64 \<Rightarrow> u64 \<Rightarrow> 'a ass \<Rightarrow> ('a ass \<times> errno_t) option" where
  "address_space_map_unowned as va pa sz perms uxn s =
     with_lock (asl_get as) (asl_put as) (address_space_map_unowned_impl as va pa sz perms uxn) s"

definition address_space_map_owned_mm ::
  "u64 \<Rightarrow> usize \<Rightarrow> usize \<Rightarrow> usize \<Rightarrow> u64 \<Rightarrow> u64 \<Rightarrow> 'a ass \<Rightarrow> ('a ass \<times> errno_t) option" where
  "address_space_map_owned_mm as va pa sz perms uxn s = do {
     ASSERT (IS_PAGE_ALIGNED sz);
     with_lock (asl_get as) (asl_put as) (\<lambda>s. do {
       let page_count = sz div PAGE_SIZE;
       if page_count = 0 then Some (s, EOK)
       else do {
         v \<leftarrow> as_spaces s as;
         r \<leftarrow> as_regions s (as_user_region v);
         (r, err) \<leftarrow> region_reserve r va page_count;
         let s = set_region (as_user_region v) r s;
         if err \<noteq> EOK then Some (s, err)
         else do {
           (s, err) \<leftarrow> address_space_map_unowned_impl as va pa sz perms uxn s;
           if err \<noteq> EOK then do {
             r \<leftarrow> as_regions s (as_user_region v);
             (r, _) \<leftarrow> region_free r va;
             Some (set_region (as_user_region v) r s, err)
           }
           else Some (s, EOK)
         }
       }
     }) s
   }"

end
