(* ===== verification/Uaccess.thy ===== *)
theory Uaccess
  imports AddressSpace PagingProps
begin

text \<open>
  Copies between the kernel and the memory of the current process (\<^verbatim>\<open>kernel/mm/uaccess.c\<close>). The kernel's
  buffer is a list of bytes. The bytes of user memory are those of the words of the physical page that the
  processor finds through the table of \<^verbatim>\<open>TTBR0_EL1\<close>; an access it cannot translate, or a write to a page the
  kernel may only read, is a fault in the kernel, which stops the machine (\<open>None\<close>).

  The current process is an argument: the address of its address space, or \<open>None\<close> when the processor has no
  current task or the task no process.
\<close>

section \<open>Bytes\<close>

definition byte_shift :: "u64 \<Rightarrow> nat" where "byte_shift a = 8 * unat (a AND 7)"

definition load_byte :: "u64 \<Rightarrow> 'a mss \<Rightarrow> u8" where
  "load_byte a s = ucast (field_get (byte_shift a) 8 (mm_mem s (a AND NOT 7)))"

definition store_byte :: "u64 \<Rightarrow> u8 \<Rightarrow> 'a mss \<Rightarrow> 'a mss" where
  "store_byte a b s = store (a AND NOT 7) (field_set (byte_shift a) 8 (ucast b) (mm_mem s (a AND NOT 7))) s"

text \<open>The bytes of a value in memory, least significant first.\<close>

definition le_bytes :: "nat \<Rightarrow> 'w::len word \<Rightarrow> u8 list" where
  "le_bytes n v = map (\<lambda>i. ucast (drop_bit (8 * i) v)) [0..<n]"

primrec le_word :: "u8 list \<Rightarrow> 'w::len word" where
  "le_word [] = 0"
| "le_word (b # bs) = ucast b OR push_bit 8 (le_word bs)"

section \<open>The processor's accesses to user memory\<close>

definition user_access :: "bool \<Rightarrow> u64 \<Rightarrow> 'a mss \<Rightarrow> u64 option" where
  "user_access wr va s = do {
     ASSERT (drop_bit 48 va = 0);
     pde \<leftarrow> paging_lookup_desc (pmm_phys_to_virt (mm_ttbr0_el1 s) s) va s;
     d \<leftarrow> load pde s;
     ASSERT (pd_is_valid d \<and> pd_is_page d);
     ASSERT (\<not> wr \<or> pd_ap d = EL1_READ_WRITE_EL0_NONE \<or> pd_ap d = EL1_READ_WRITE_EL0_READ_WRITE);
     Some (pmm_phys_to_virt (PAGE_DESC_TO_PA (pd_output_address d) OR (va AND (PAGE_SIZE - 1))) s)
   }"

text \<open>\<^verbatim>\<open>memcpy\<close> from and to user memory.\<close>

primrec memcpy_from_user :: "nat \<Rightarrow> u64 \<Rightarrow> 'a mss \<Rightarrow> u8 list option" where
  "memcpy_from_user 0 va s = Some []"
| "memcpy_from_user (Suc n) va s = do {
     a \<leftarrow> user_access False va s;
     bs \<leftarrow> memcpy_from_user n (va + 1) s;
     Some (load_byte a s # bs)
   }"

primrec memcpy_to_user :: "u8 list \<Rightarrow> u64 \<Rightarrow> 'a mss \<Rightarrow> 'a mss option" where
  "memcpy_to_user [] va s = Some s"
| "memcpy_to_user (b # bs) va s = do {
     a \<leftarrow> user_access True va s;
     memcpy_to_user bs (va + 1) (store_byte a b s)
   }"

section \<open>The checks\<close>

definition is_within_user_vm_range :: "u64 \<Rightarrow> usize \<Rightarrow> bool" where
  "is_within_user_vm_range ptr sz =
     (if ptr < USER_VM_RANGE_BASE then False
      else if ptr > USER_VM_RANGE_END - sz then False
      else True)"

definition is_page_writable_by_user :: "PageDescriptor \<Rightarrow> bool" where
  "is_page_writable_by_user pde \<longleftrightarrow> pd_ap pde = EL1_READ_WRITE_EL0_READ_WRITE"

definition is_page_readable_by_user :: "PageDescriptor \<Rightarrow> bool" where
  "is_page_readable_by_user pde \<longleftrightarrow> pd_ap pde = EL1_READ_WRITE_EL0_READ_WRITE \<or> pd_ap pde = EL1_READ_ONLY_EL0_READ_ONLY"

text \<open>The body of the loop without its \<^verbatim>\<open>break\<close>; the descriptor is read even through an error pointer, which faults.\<close>

definition user_page_valid :: "u64 \<Rightarrow> bool \<Rightarrow> bool \<Rightarrow> u64 \<Rightarrow> 'a mss \<Rightarrow> bool option" where
  "user_page_valid table required_user_writable required_user_readable va s = do {
     pde \<leftarrow> paging_lookup_desc table va s;
     pa \<leftarrow> paging_page_to_pa pde va s;
     if pa = 0 then Some False
     else do {
       d \<leftarrow> load pde s;
       if required_user_writable \<and> \<not> is_page_writable_by_user d then Some False
       else if required_user_readable \<and> \<not> is_page_readable_by_user d then Some False
       else Some True
     }
   }"

partial_function (option) user_range_loop :: "u64 \<Rightarrow> bool \<Rightarrow> bool \<Rightarrow> u64 \<Rightarrow> u64 \<Rightarrow> 'a mss \<Rightarrow> bool option" where
  "user_range_loop table w r va e s =
     (if va \<le> e then do {
        ok \<leftarrow> user_page_valid table w r va s;
        if \<not> ok then Some False
        else if va > e - PAGE_SIZE then Some True
        else user_range_loop table w r (va + PAGE_SIZE) e s
      }
      else Some True)"

definition user_range_valid :: "u64 option \<Rightarrow> u64 \<Rightarrow> usize \<Rightarrow> bool \<Rightarrow> bool \<Rightarrow> 'a ass \<Rightarrow> bool option" where
  "user_range_valid cur ptr sz required_user_writable required_user_readable s =
     (if \<not> is_within_user_vm_range ptr sz then Some False
      else do {
        as \<leftarrow> cur;
        v \<leftarrow> as_spaces s as;
        let e = ptr + sz - 1;
        user_range_loop (as_table v) required_user_writable required_user_readable (round_down e PAGE_SIZE) e s
      })"

section \<open>The copies\<close>

text \<open>The result of a copy from the user is the bytes that were written to the kernel's buffer.\<close>

definition copy_from_user :: "u64 option \<Rightarrow> u64 \<Rightarrow> usize \<Rightarrow> 'a ass \<Rightarrow> (errno_t \<times> u8 list) option" where
  "copy_from_user cur user_src sz s =
     (if sz = 0 then Some (EOK, [])
      else do {
        ok \<leftarrow> user_range_valid cur user_src sz False True s;
        if \<not> ok then Some (- EFAULT, [])
        else do {
          bs \<leftarrow> memcpy_from_user (unat sz) user_src s;
          Some (EOK, bs)
        }
      })"

definition copy_to_user :: "u64 option \<Rightarrow> u64 \<Rightarrow> u8 list \<Rightarrow> 'a ass \<Rightarrow> ('a ass \<times> errno_t) option" where
  "copy_to_user cur user_dst bs s =
     (let sz = of_nat (length bs) in
      if sz = 0 then Some (s, EOK)
      else do {
        ok \<leftarrow> user_range_valid cur user_dst sz True False s;
        if \<not> ok then Some (s, - EFAULT)
        else do {
          s \<leftarrow> memcpy_to_user bs user_dst s;
          Some (s, EOK)
        }
      })"

text \<open>The fixed sizes: the argument is the value of \<^verbatim>\<open>*dst\<close> before, the result the one after.\<close>

definition copy_from_user_u8 :: "u64 option \<Rightarrow> u8 \<Rightarrow> u64 \<Rightarrow> 'a ass \<Rightarrow> (errno_t \<times> u8) option" where
  "copy_from_user_u8 cur dst src s = do {
     (e, bs) \<leftarrow> copy_from_user cur src 1 s;
     Some (e, if bs = [] then dst else le_word bs)
   }"

definition copy_from_user_u32 :: "u64 option \<Rightarrow> u32 \<Rightarrow> u64 \<Rightarrow> 'a ass \<Rightarrow> (errno_t \<times> u32) option" where
  "copy_from_user_u32 cur dst src s = do {
     (e, bs) \<leftarrow> copy_from_user cur src 4 s;
     Some (e, if bs = [] then dst else le_word bs)
   }"

definition copy_from_user_u64 :: "u64 option \<Rightarrow> u64 \<Rightarrow> u64 \<Rightarrow> 'a ass \<Rightarrow> (errno_t \<times> u64) option" where
  "copy_from_user_u64 cur dst src s = do {
     (e, bs) \<leftarrow> copy_from_user cur src 8 s;
     Some (e, if bs = [] then dst else le_word bs)
   }"

definition copy_to_user_u8 :: "u64 option \<Rightarrow> u64 \<Rightarrow> u8 \<Rightarrow> 'a ass \<Rightarrow> ('a ass \<times> errno_t) option" where
  "copy_to_user_u8 cur dst val s = copy_to_user cur dst (le_bytes 1 val) s"

definition copy_to_user_u32 :: "u64 option \<Rightarrow> u64 \<Rightarrow> u32 \<Rightarrow> 'a ass \<Rightarrow> ('a ass \<times> errno_t) option" where
  "copy_to_user_u32 cur dst val s = copy_to_user cur dst (le_bytes 4 val) s"

definition copy_to_user_u64 :: "u64 option \<Rightarrow> u64 \<Rightarrow> u64 \<Rightarrow> 'a ass \<Rightarrow> ('a ass \<times> errno_t) option" where
  "copy_to_user_u64 cur dst val s = copy_to_user cur dst (le_bytes 8 val) s"

text \<open>The loop over a string: the first argument counts the iterations left.\<close>

primrec copy_string_loop :: "nat \<Rightarrow> u64 option \<Rightarrow> u64 \<Rightarrow> usize \<Rightarrow> usize \<Rightarrow> 'a ass \<Rightarrow> (errno_t \<times> u8 list) option" where
  "copy_string_loop 0 cur src max_len index s = Some (- ENAMETOOLONG, [])"
| "copy_string_loop (Suc n) cur src max_len index s = do {
     ok \<leftarrow> user_range_valid cur (index + src) max_len False True s;
     if \<not> ok then Some (- EFAULT, [])
     else do {
       a \<leftarrow> user_access False (src + index) s;
       if load_byte a s = 0 then Some (EOK, [0])
       else do {
         (e, bs) \<leftarrow> copy_string_loop n cur src max_len (index + 1) s;
         Some (e, load_byte a s # bs)
       }
     }
   }"

definition copy_from_user_string :: "u64 option \<Rightarrow> u64 \<Rightarrow> usize \<Rightarrow> 'a ass \<Rightarrow> (errno_t \<times> u8 list) option" where
  "copy_from_user_string cur src max_len s =
     (if max_len = 0 then Some (EOK, []) else copy_string_loop (unat max_len) cur src max_len 0 s)"

end
