(* ===== verification/UaccessProps.thy ===== *)
theory UaccessProps
  imports Uaccess
begin

text \<open>
  What the copies to and from user memory do: the check of a range is the check of its last page; a range
  within one page that the process may write is written and read back, and nothing else changes.
\<close>

section \<open>Bytes of words\<close>

lemma byte_address: "(a AND NOT 7 = b AND NOT 7 \<and> a AND 7 = b AND 7) \<longleftrightarrow> a = b" for a b :: u64
proof -
  have "c = (c AND NOT 7) OR (c AND 7)" for c :: u64 by (rule bit_eqI) (auto simp: bit_simps)
  then show ?thesis by metis
qed

lemma byte_shift_le: "byte_shift a + 8 \<le> 64"
proof -
  have "a AND 7 \<le> 7" by (rule word_and_le1)
  then show ?thesis by (simp add: byte_shift_def word_le_nat_alt)
qed

lemma load_store_byte: "load_byte b (store_byte a v s) = (if a = b then v else load_byte b s)"
proof (cases "a AND NOT 7 = b AND NOT 7")
  case True
  show ?thesis
  proof (cases "a AND 7 = b AND 7")
    case True
    then have "a = b" using \<open>a AND NOT 7 = b AND NOT 7\<close> byte_address by blast
    then show ?thesis using byte_shift_le [of a]
      by (simp add: load_byte_def store_byte_def) (rule bit_eqI, simp add: bit_simps)
  next
    case False
    then have "a \<noteq> b" by auto
    have "unat (a AND 7) \<noteq> unat (b AND 7)" using False by (simp add: word_unat_eq_iff)
    then have "byte_shift a + 8 \<le> byte_shift b \<or> byte_shift b + 8 \<le> byte_shift a" by (auto simp: byte_shift_def)
    then show ?thesis using True \<open>a \<noteq> b\<close> by (simp add: load_byte_def store_byte_def)
  qed
next
  case False
  then show ?thesis by (auto simp: load_byte_def store_byte_def)
qed

lemma page_of_word: "page_of (a AND NOT 7) = page_of a"
proof -
  have "bit (7 :: u64) n \<Longrightarrow> bit (4095 :: u64) n" for n
    using bit_mask_iff [of 3 n, where ?'a = u64] bit_mask_iff [of 12 n, where ?'a = u64] by (simp add: mask_eq_exp_minus_1)
  then show ?thesis by (intro bit_eqI) (auto simp: page_of_def round_down_def round_mask_def PAGE_SIZE_def bit_simps)
qed

lemma store_byte_mem: "page_of x \<noteq> page_of a \<Longrightarrow> mm_mem (store_byte a b s) x = mm_mem s x"
  using page_of_word [of a] by (auto simp: store_byte_def)

lemma store_byte_fields [simp]: "mm_hddm_offset (store_byte a b s) = mm_hddm_offset s"
  "mm_ttbr0_el1 (store_byte a b s) = mm_ttbr0_el1 s" "as_spaces (store_byte a b s') = as_spaces s'"
  by (simp_all add: store_byte_def store_def)

primrec store_bytes :: "u64 \<Rightarrow> u8 list \<Rightarrow> 'a mss \<Rightarrow> 'a mss" where
  "store_bytes a [] s = s"
| "store_bytes a (b # bs) s = store_bytes (a + 1) bs (store_byte a b s)"

lemma load_store_bytes:
  "length bs < 2 ^ 64 \<Longrightarrow> load_byte c (store_bytes a bs s) = (if unat (c - a) < length bs then bs ! unat (c - a) else load_byte c s)"
proof (induction bs arbitrary: a s)
  case (Cons b bs)
  show ?case
  proof (cases "c = a")
    case True
    then have "unat (c - (a + 1)) = 2 ^ 64 - 1" by simp
    then show ?thesis using Cons True by (simp add: load_store_byte)
  next
    case False
    then have "c - a \<noteq> 0" by simp
    then have "unat (c - a - 1) = unat (c - a) - 1" "0 < unat (c - a)" by (simp_all add: unat_minus_one word_gt_0_no [symmetric] unat_gt_0)
    then have "unat (c - a) = Suc (unat (c - (a + 1)))" by (simp add: diff_diff_eq)
    then show ?thesis using Cons False by (simp add: load_store_byte)
  qed
qed simp

lemma store_bytes_spaces: "as_spaces (store_bytes a bs s) = as_spaces s"
  by (induction bs arbitrary: a s) simp_all

section \<open>Values and their bytes\<close>

lemma le_bytes_Suc: "le_bytes (Suc n) v = ucast v # le_bytes n (drop_bit 8 v)"
  by (simp add: le_bytes_def upt_conv_Cons map_Suc_upt [symmetric] del: upt_Suc) (simp add: map_Suc_upt [symmetric] add.commute)

lemma length_le_bytes [simp]: "length (le_bytes n v) = n"
  by (simp add: le_bytes_def)

lemma le_word_bytes: "le_word (le_bytes n v) = take_bit (8 * n) v" for v :: "'w::len word"
proof (induction n arbitrary: v)
  case (Suc n)
  have "ucast (ucast v :: u8) OR push_bit 8 (take_bit (8 * n) (drop_bit 8 v)) = take_bit (8 * Suc n) v"
    by (rule bit_eqI) (auto simp: bit_simps dest: bit_imp_le_length)
  then show ?case by (simp add: le_bytes_Suc Suc)
qed (simp add: le_bytes_def)

section \<open>The check of a range\<close>

lemma round_down_page: "unat (round_down e PAGE_SIZE) = unat e - unat e mod 4096"
  using unat_page_of [of e] by (simp add: page_of_def)

text \<open>The loop makes one round: it starts at the last page of the range.\<close>

lemma user_range_loop_last: "user_range_loop table w r (round_down e PAGE_SIZE) e s = user_page_valid table w r (round_down e PAGE_SIZE) s"
proof -
  let ?va = "round_down e PAGE_SIZE"
  have le: "?va \<le> e" by (simp add: word_le_nat_alt round_down_page)
  have stop: "user_range_loop table w r (?va + PAGE_SIZE) e s = Some True" if "\<not> ?va > e - PAGE_SIZE"
  proof -
    have lt: "unat e < 4096"
    proof (rule ccontr)
      assume "\<not> unat e < 4096"
      then have "unat (e - PAGE_SIZE) = unat e - 4096" by (simp add: PAGE_SIZE_def unat_sub word_le_nat_alt)
      then have "unat (e - PAGE_SIZE) < unat ?va" using \<open>\<not> unat e < 4096\<close> mod_less_divisor [of 4096 "unat e"] by (simp add: round_down_page)
      then show False using that by (simp add: word_less_nat_alt)
    qed
    then have "?va = 0" using round_down_page [of e] by (simp add: unat_eq_zero)
    then show ?thesis using lt by (subst user_range_loop.simps) (simp add: PAGE_SIZE_def word_le_nat_alt)
  qed
  show ?thesis
    by (subst user_range_loop.simps) (use le stop in \<open>auto simp: Option.bind_eq_Some_conv split: Option.bind_split\<close>)
qed

text \<open>
  The check of a user range is the check of its last page: whatever the size, the loop of
  \<^verbatim>\<open>user_range_valid\<close> looks at the one page that holds the last byte, and no other page of the range is checked.
\<close>

theorem user_range_valid_last_page:
  "user_range_valid cur ptr sz w r s =
     (if \<not> is_within_user_vm_range ptr sz then Some False
      else do {
        as \<leftarrow> cur;
        v \<leftarrow> as_spaces s as;
        user_page_valid (as_table v) w r (round_down (ptr + sz - 1) PAGE_SIZE) s
      })"
  by (simp add: user_range_valid_def user_range_loop_last Let_def)

section \<open>Accesses of the current process\<close>

text \<open>The process runs on its own table, whose pages form a tree.\<close>

definition user_ctx :: "u64 \<Rightarrow> 'a mss \<Rightarrow> bool" where
  "user_ctx t s \<longleftrightarrow> tree (mm_hddm_offset s) (mm_mem s) 3 t \<and> mm_ttbr0_el1 s = t - mm_hddm_offset s"

abbreviation user_tables :: "u64 \<Rightarrow> 'a mss \<Rightarrow> u64 set" where
  "user_tables t s \<equiv> tables (mm_hddm_offset s) (mm_mem s) 3 t"

lemma user_lookup:
  assumes "tree (mm_hddm_offset s) (mm_mem s) 3 t"
  shows "paging_lookup_desc t va s \<bind> (\<lambda>pde. load pde s \<bind> f pde) =
    (case leaf (mm_hddm_offset s) (mm_mem s) 3 t va of None \<Rightarrow> None | Some a \<Rightarrow> f a (entry_of t s va))"
  using leaf_page(3) [OF assms, of va] walk_lookup [OF assms, of va] IS_ERR_ENOMEM
  by (auto simp: paging_lookup_desc_def walk_pagetable_eq load_def entry_of_def pt_get_def split: option.split)

definition user_addr :: "u64 \<Rightarrow> u64 \<Rightarrow> 'a mss \<Rightarrow> u64" where
  "user_addr t va s = pmm_phys_to_virt (PAGE_DESC_TO_PA (pd_output_address (entry_of t s va)) OR (va AND (PAGE_SIZE - 1))) s"

lemma user_access_eq:
  assumes "user_ctx t s" "drop_bit 48 va = 0"
  shows "user_access wr va s = (let d = entry_of t s va in
    if pd_is_valid d \<and> pd_is_page d \<and> (wr \<longrightarrow> pd_ap d = EL1_READ_WRITE_EL0_NONE \<or> pd_ap d = EL1_READ_WRITE_EL0_READ_WRITE)
    then Some (user_addr t va s) else None)"
proof -
  have tr: "tree (mm_hddm_offset s) (mm_mem s) 3 t" using assms(1) by (simp add: user_ctx_def)
  have "pmm_phys_to_virt (mm_ttbr0_el1 s) s = t" using assms(1) by (simp add: user_ctx_def pmm_phys_to_virt_def memmap_hddm_offset_def)
  moreover have "leaf (mm_hddm_offset s) (mm_mem s) 3 t va = None \<Longrightarrow> \<not> pd_is_valid (entry_of t s va)"
    by (simp add: entry_of_def pt_get_def pd_is_valid_def)
  ultimately show ?thesis
    using assms(2) unfolding user_access_def
    by (simp add: user_lookup [OF tr] user_addr_def ASSERT_def Let_def split: option.split)
qed

lemma store_byte_ctx:
  assumes "user_ctx t s" "page_of a \<notin> user_tables t s"
  shows "user_ctx t (store_byte a b s)" "entry_of t (store_byte a b s) va = entry_of t s va"
    "user_tables t (store_byte a b s) = user_tables t s" "user_addr t va (store_byte a b s) = user_addr t va s"
proof -
  have c: "page_of x \<in> user_tables t s \<Longrightarrow> mm_mem (store_byte a b s) x = mm_mem s x" for x
    using assms(2) by (metis store_byte_mem)
  have tr: "tree (mm_hddm_offset s) (mm_mem s) 3 t" using assms(1) by (simp add: user_ctx_def)
  note tc = tables_cong [OF tr c]
  show "user_ctx t (store_byte a b s)" using assms(1) tc(2) by (simp add: user_ctx_def)
  show e: "entry_of t (store_byte a b s) va = entry_of t s va" for va using pt_get_cong [OF tr c] by (simp add: entry_of_def)
  show "user_tables t (store_byte a b s) = user_tables t s" using tc(1) by simp
  show "user_addr t va (store_byte a b s) = user_addr t va s" using e by (simp add: user_addr_def pmm_phys_to_virt_def memmap_hddm_offset_def)
qed

lemma user_access_store_byte:
  assumes "user_ctx t s" "page_of a \<notin> user_tables t s" "drop_bit 48 va = 0"
  shows "user_access wr va (store_byte a b s) = user_access wr va s"
  unfolding user_access_eq [OF assms(1,3)] user_access_eq [OF store_byte_ctx(1) [OF assms(1,2)] assms(3)]
  by (simp add: store_byte_ctx(2,4) [OF assms(1,2)] Let_def)

lemma memcpy_to_user_ok:
  assumes "user_ctx t s"
    and "\<And>i. i < length bs \<Longrightarrow> drop_bit 48 (va + of_nat i) = 0 \<and> user_access True (va + of_nat i) s = Some (a + of_nat i) \<and>
      page_of (a + of_nat i) \<notin> user_tables t s"
  shows "memcpy_to_user bs va s = Some (store_bytes a bs s) \<and> user_ctx t (store_bytes a bs s) \<and>
    (\<forall>x. entry_of t (store_bytes a bs s) x = entry_of t s x \<and> user_addr t x (store_bytes a bs s) = user_addr t x s)"
  using assms
proof (induction bs arbitrary: va a s)
  case (Cons b bs)
  let ?s = "store_byte a b s"
  have h: "user_access True va s = Some a" "page_of a \<notin> user_tables t s" using Cons.prems(2) [of 0] by simp_all
  note c = store_byte_ctx [OF Cons.prems(1) h(2)]
  have "drop_bit 48 (va + 1 + of_nat i) = 0 \<and> user_access True (va + 1 + of_nat i) ?s = Some (a + 1 + of_nat i) \<and>
      page_of (a + 1 + of_nat i) \<notin> user_tables t ?s" if "i < length bs" for i
    using Cons.prems(2) [of "Suc i"] that user_access_store_byte [OF Cons.prems(1) h(2), of "va + 1 + of_nat i" True b] c(3)
    by (simp add: add.assoc)
  from Cons.IH [OF c(1) this] show ?case using h(1) c(2,4) by simp
qed simp

lemma memcpy_from_user_ok:
  "(\<And>i. i < n \<Longrightarrow> user_access False (va + of_nat i) s = Some (a + of_nat i)) \<Longrightarrow>
    memcpy_from_user n va s = Some (map (\<lambda>i. load_byte (a + of_nat i) s) [0..<n])"
proof (induction n arbitrary: va a)
  case (Suc n)
  have "user_access False (va + 1 + of_nat i) s = Some (a + 1 + of_nat i)" if "i < n" for i
    using Suc.prems [of "Suc i"] that by (simp add: add.assoc)
  from Suc.IH [OF this] show ?case using Suc.prems [of 0]
    by (simp add: upt_conv_Cons map_Suc_upt [symmetric] add.assoc del: upt_Suc)
qed simp

section \<open>A range within a page\<close>

text \<open>The kernel's address of the physical page behind a user address.\<close>

definition user_frame :: "u64 \<Rightarrow> u64 \<Rightarrow> 'a mss \<Rightarrow> u64" where
  "user_frame t va s = pmm_phys_to_virt (PAGE_DESC_TO_PA (pd_output_address (entry_of t s va))) s"

lemma page_offset: "x AND (PAGE_SIZE - 1) = of_nat (unat x mod 4096)"
proof -
  have "x AND (PAGE_SIZE - 1) = take_bit 12 x" by (simp add: take_bit_eq_mask PAGE_SIZE_def mask_eq_exp_minus_1)
  moreover have "unat (take_bit 12 x) = unat x mod 4096" unfolding unsigned_take_bit_eq by (simp add: take_bit_eq_mod)
  moreover have "unat (of_nat (unat x mod 4096) :: u64) = unat x mod 4096"
    using mod_less_divisor [of 4096 "unat x"] by (simp add: unat_of_nat take_bit_nat_eq_self)
  ultimately show ?thesis by (simp add: u64_eq_iff_unat)
qed

lemma or_page_offset: "PAGE_DESC_TO_PA oa OR (x AND (PAGE_SIZE - 1)) = PAGE_DESC_TO_PA oa + of_nat (unat x mod 4096)" for oa x :: u64
proof -
  have "PAGE_DESC_TO_PA oa AND (x AND (PAGE_SIZE - 1)) = 0"
    by (rule bit_eqI) (auto simp: PAGE_DESC_TO_PA_def PAGE_SIZE_def bit_simps bit_mask_iff
        simp flip: mask_eq_exp_minus_1 [of 12, where ?'a = u64, simplified])
  then have "PAGE_DESC_TO_PA oa OR (x AND (PAGE_SIZE - 1)) = PAGE_DESC_TO_PA oa + (x AND (PAGE_SIZE - 1))"
    by (rule disjunctive_add_eq_or [symmetric])
  then show ?thesis by (simp only: page_offset)
qed

lemma page_of_offset:
  assumes "IS_PAGE_ALIGNED f" "r < 4096"
  shows "page_of (f + of_nat r) = f"
proof -
  have "f + of_nat r - f < PAGE_SIZE" using assms(2) by (simp add: PAGE_SIZE_def word_less_nat_alt unat_of_nat take_bit_nat_eq_self)
  then show ?thesis using in_page_of [OF assms(1)] by blast
qed

lemma user_frame_aligned: "IS_PAGE_ALIGNED (mm_hddm_offset s) \<Longrightarrow> IS_PAGE_ALIGNED (user_frame t va s)"
proof -
  have "unat (PAGE_DESC_TO_PA oa) = (4096 * unat oa) mod 2 ^ 64" for oa
    by (simp add: PAGE_DESC_TO_PA_def push_bit_eq_mult unat_word_ariths mult.commute)
  then have "4096 dvd unat (PAGE_DESC_TO_PA oa)" for oa by (simp add: dvd_mod_iff)
  then show "IS_PAGE_ALIGNED (mm_hddm_offset s) \<Longrightarrow> ?thesis"
    by (simp add: IS_PAGE_ALIGNED_unat user_frame_def pmm_phys_to_virt_def memmap_hddm_offset_def unat_word_ariths dvd_mod_iff)
qed

lemma mod_add_small:
  fixes a i :: nat
  assumes "a mod 4096 + i < 4096"
  shows "(a + i) mod 4096 = a mod 4096 + i" "(a + i) div 4096 = a div 4096"
proof -
  have "a + i = (a mod 4096 + i) + 4096 * (a div 4096)" by simp
  then show "(a + i) mod 4096 = a mod 4096 + i" "(a + i) div 4096 = a div 4096"
    using assms by (metis mod_mult_self2 mod_less, metis div_mult_self2 div_less add_0_right zero_neq_numeral)
qed

lemma in_page:
  assumes "unat p < 2 ^ 48 - 4096" "unat p mod 4096 + i < 4096"
  shows "drop_bit 48 (p + of_nat i) = 0" "entry_of t s (p + of_nat i) = entry_of t s p"
    "user_addr t (p + of_nat i) s = user_addr t p s + of_nat i" "unat (p + of_nat i) = unat p + i"
    "user_addr t p s + of_nat i = user_frame t p s + of_nat (unat p mod 4096 + i)"
proof -
  have i: "unat (of_nat i :: u64) = i" using assms(2) by (simp add: unat_of_nat take_bit_nat_eq_self)
  show u: "unat (p + of_nat i) = unat p + i" using unat_add_u64 [of p "of_nat i"] i assms by simp
  have "unat (drop_bit 48 x) = unat x div 2 ^ 48" for x :: u64 unfolding unsigned_drop_bit_eq by (simp add: drop_bit_eq_div take_bit_nat_eq_self)
  then have "unat (drop_bit 48 (p + of_nat i)) = 0" using u assms by simp
  then show "drop_bit 48 (p + of_nat i) = 0" by (simp add: unat_eq_zero)
  note m = mod_add_small [OF assms(2)]
  have "page_no (p + of_nat i) = page_no p" by (simp add: u64_eq_iff_unat unat_page_no u m)
  then show e: "entry_of t s (p + of_nat i) = entry_of t s p" by (rule entry_of_page)
  show "user_addr t (p + of_nat i) s = user_addr t p s + of_nat i"
    by (simp add: user_addr_def e or_page_offset u m pmm_phys_to_virt_def)
  show "user_addr t p s + of_nat i = user_frame t p s + of_nat (unat p mod 4096 + i)"
    by (simp add: user_addr_def user_frame_def or_page_offset pmm_phys_to_virt_def)
qed

lemma user_range_in_page:
  assumes "as_spaces s as = Some v" "tree (mm_hddm_offset s) (mm_mem s) 3 (as_table v)" "d = entry_of (as_table v) s p"
    "pd_is_valid d" "PAGE_DESC_TO_PA (pd_output_address d) \<noteq> 0" "0 < n" "unat p mod 4096 + n \<le> 4096"
    "is_within_user_vm_range p (of_nat n)"
  shows "user_range_valid (Some as) p (of_nat n) w r s = Some ((w \<longrightarrow> is_page_writable_by_user d) \<and> (r \<longrightarrow> is_page_readable_by_user d))"
    "unat p < 2 ^ 48 - 4096"
proof -
  have n: "unat (of_nat n :: u64) = n" using assms(7) by (simp add: unat_of_nat take_bit_nat_eq_self)
  have "p \<le> USER_VM_RANGE_END - of_nat n" using assms(8) by (auto simp: is_within_user_vm_range_def split: if_splits)
  moreover have "unat (USER_VM_RANGE_END - of_nat n) = unat USER_VM_RANGE_END - n"
    using n assms(7) unat_sub_u64 [of "of_nat n" USER_VM_RANGE_END]
    by (simp add: word_le_nat_alt USER_VM_RANGE_END_def USER_VM_RANGE_BASE_def USER_VM_RANGE_SIZE_def)
  ultimately show p: "unat p < 2 ^ 48 - 4096"
    by (simp add: word_le_nat_alt USER_VM_RANGE_END_def USER_VM_RANGE_BASE_def USER_VM_RANGE_SIZE_def)
  let ?e = "p + of_nat n - 1"
  have e: "?e = p + of_nat (n - 1)" using assms(6) by (cases n) simp_all
  note q = in_page [OF p, of "n - 1"]
  have eu: "unat ?e = unat p + (n - 1)" unfolding e using q(4) assms(6,7) by simp
  let ?b = "round_down ?e PAGE_SIZE"
  have b: "unat ?b = unat p - unat p mod 4096"
    unfolding round_down_page eu using mod_add_small(1) [of "unat p" "n - 1"] assms(6,7) by simp
  have bm: "unat ?b mod 4096 = 0" "unat ?b div 4096 = unat p div 4096" unfolding b by (simp_all add: minus_mod_eq_mult_div)
  have "page_no ?b = page_no p" by (simp add: u64_eq_iff_unat unat_page_no bm)
  then have d: "entry_of (as_table v) s ?b = d" using entry_of_page assms(3) by metis
  obtain a where a: "leaf (mm_hddm_offset s) (mm_mem s) 3 (as_table v) ?b = Some a"
    using assms(4) d by (cases "leaf (mm_hddm_offset s) (mm_mem s) 3 (as_table v) ?b") (auto simp: entry_of_def pt_get_def pd_is_valid_def)
  have "\<not> IS_ERR a" "mm_mem s a = d" using leaf_page(3) [OF assms(2) a] a d by (auto simp: entry_of_def pt_get_def)
  then have "user_page_valid (as_table v) w r ?b s = Some ((w \<longrightarrow> is_page_writable_by_user d) \<and> (r \<longrightarrow> is_page_readable_by_user d))"
    using assms(5) walk_lookup [OF assms(2), of ?b] a bm(1)
    by (auto simp: user_page_valid_def paging_lookup_desc_def walk_pagetable_eq paging_page_to_pa_def load_def or_page_offset)
  then show "user_range_valid (Some as) p (of_nat n) w r s = Some ((w \<longrightarrow> is_page_writable_by_user d) \<and> (r \<longrightarrow> is_page_readable_by_user d))"
    using assms(1,8) by (simp add: user_range_valid_def user_range_loop_last)
qed

section \<open>The copies\<close>

definition user_page_ok :: "u64 \<Rightarrow> u64 \<Rightarrow> 'a ass \<Rightarrow> bool" where
  "user_page_ok t p s \<longleftrightarrow> user_ctx t s \<and> IS_PAGE_ALIGNED (mm_hddm_offset s) \<and>
     pd_is_valid (entry_of t s p) \<and> pd_is_page (entry_of t s p) \<and> PAGE_DESC_TO_PA (pd_output_address (entry_of t s p)) \<noteq> 0 \<and>
     user_frame t p s \<notin> user_tables t s"

text \<open>
  Claim C23. Copying into user memory and back: for a range of bytes within one page that the current
  process may write, \<^verbatim>\<open>copy_to_user\<close> succeeds, a later \<^verbatim>\<open>copy_from_user\<close> of the same range gives the same bytes,
  every byte of memory outside the range keeps its value, and so does the translation of every address. If
  the process may only read the page, the write is refused with \<^verbatim>\<open>EFAULT\<close>, nothing changes, and reading works.
\<close>

theorem user_copy_roundtrip:
  assumes sp: "as_spaces s as = Some v" and pg: "user_page_ok (as_table v) p s"
    and rng: "bs \<noteq> []" "unat p mod 4096 + length bs \<le> 4096" "is_within_user_vm_range p (of_nat (length bs))"
  shows "(is_page_writable_by_user (entry_of (as_table v) s p) \<longrightarrow>
      (\<exists>s'. copy_to_user (Some as) p bs s = Some (s', EOK) \<and> copy_from_user (Some as) p (of_nat (length bs)) s' = Some (EOK, bs) \<and>
        (\<forall>c. length bs \<le> unat (c - user_addr (as_table v) p s) \<longrightarrow> load_byte c s' = load_byte c s) \<and>
        (\<forall>x. entry_of (as_table v) s' x = entry_of (as_table v) s x))) \<and>
    (\<not> is_page_writable_by_user (entry_of (as_table v) s p) \<longrightarrow> copy_to_user (Some as) p bs s = Some (s, - EFAULT)) \<and>
    (is_page_readable_by_user (entry_of (as_table v) s p) \<longrightarrow>
      copy_from_user (Some as) p (of_nat (length bs)) s =
        Some (EOK, map (\<lambda>i. load_byte (user_addr (as_table v) p s + of_nat i) s) [0..<length bs]))"
proof -
  let ?t = "as_table v" let ?d = "entry_of ?t s p" let ?a = "user_addr ?t p s" let ?n = "length bs" let ?s = "store_bytes ?a bs s"
  have c: "user_ctx ?t s" "pd_is_valid ?d" "pd_is_page ?d" "PAGE_DESC_TO_PA (pd_output_address ?d) \<noteq> 0" "user_frame ?t p s \<notin> user_tables ?t s"
    "IS_PAGE_ALIGNED (user_frame ?t p s)" using pg user_frame_aligned [of s ?t p] by (simp_all add: user_page_ok_def)
  have n: "0 < ?n" "?n < 2 ^ 64" "of_nat ?n \<noteq> (0 :: u64)" "unat (of_nat ?n :: u64) = ?n"
    using rng(1,2) by (auto simp: unat_of_nat take_bit_nat_eq_self word_unat_eq_iff)
  have tr: "tree (mm_hddm_offset s) (mm_mem s) 3 ?t" using c(1) by (simp add: user_ctx_def)
  note vr = user_range_in_page [OF sp tr refl c(2,4) n(1) rng(2,3)]
  have ip: "drop_bit 48 (p + of_nat i) = 0 \<and> entry_of ?t s (p + of_nat i) = ?d \<and> user_addr ?t (p + of_nat i) s = ?a + of_nat i \<and>
      page_of (?a + of_nat i) \<notin> user_tables ?t s" if "i < ?n" for i
  proof -
    have i: "unat p mod 4096 + i < 4096" using that rng(2) by simp
    show ?thesis unfolding in_page(2,3,5) [OF vr(2) i] using in_page(1) [OF vr(2) i] page_of_offset [OF c(6) i] c(5) by simp
  qed
  have rd: "copy_from_user (Some as) p (of_nat ?n) s2 = Some (EOK, map (\<lambda>i. load_byte (?a + of_nat i) s2) [0..<?n])"
    if "is_page_readable_by_user ?d" "as_spaces s2 as = Some v" "user_ctx ?t s2" "\<forall>x. entry_of ?t s2 x = entry_of ?t s x \<and> user_addr ?t x s2 = user_addr ?t x s" for s2 :: "'a ass"
  proof -
    have "tree (mm_hddm_offset s2) (mm_mem s2) 3 ?t" using that(3) by (simp add: user_ctx_def)
    from user_range_in_page(1) [OF that(2) this refl _ _ n(1) rng(2,3), of False True]
    have "user_range_valid (Some as) p (of_nat ?n) False True s2 = Some True" using that(1,4) c(2,4) by simp
    moreover have "memcpy_from_user ?n p s2 = Some (map (\<lambda>i. load_byte (?a + of_nat i) s2) [0..<?n])"
      by (rule memcpy_from_user_ok) (use ip user_access_eq [OF that(3)] that(4) c(2,3) in \<open>simp add: Let_def\<close>)
    ultimately show ?thesis using n by (simp add: copy_from_user_def)
  qed
  have wr: "copy_to_user (Some as) p bs s = Some (?s, EOK) \<and> user_ctx ?t ?s \<and>
      (\<forall>x. entry_of ?t ?s x = entry_of ?t s x \<and> user_addr ?t x ?s = user_addr ?t x s)" if w: "is_page_writable_by_user ?d"
  proof -
    have "memcpy_to_user bs p s = Some ?s \<and> user_ctx ?t ?s \<and>
      (\<forall>x. entry_of ?t ?s x = entry_of ?t s x \<and> user_addr ?t x ?s = user_addr ?t x s)"
      by (rule memcpy_to_user_ok [OF c(1)])
        (use ip user_access_eq [OF c(1)] c(2,3) w in \<open>simp add: Let_def is_page_writable_by_user_def\<close>)
    then show ?thesis using vr(1) [of True False] w n(3) by (simp add: copy_to_user_def Let_def)
  qed
  have "as_spaces ?s = as_spaces s" by (rule store_bytes_spaces)
  moreover have "map (\<lambda>i. load_byte (?a + of_nat i) ?s) [0..<?n] = bs"
    using n(2) by (intro nth_equalityI) (simp_all add: load_store_bytes unat_of_nat take_bit_nat_eq_self)
  moreover have "length bs \<le> unat (c - ?a) \<longrightarrow> load_byte c ?s = load_byte c s" for c
    using n(2) by (simp add: load_store_bytes)
  ultimately show ?thesis
    using wr rd [of s] rd [of ?s] sp c(1) vr(1) [of True False] n(3)
    by (intro conjI impI) (auto simp: is_page_readable_by_user_def is_page_writable_by_user_def copy_to_user_def Let_def)
qed

section \<open>A process with one page\<close>

text \<open>Its table is at 0x1000; the user page 0x400000 is the physical page 0x8000, which it may read and write.\<close>

definition ua_mem :: "u64 \<Rightarrow> u64" where
  "ua_mem = (\<lambda>_. 0)(0x1000 := 0x2003, 0x2000 := 0x3003, 0x3010 := 0x4003, 0x4000 := 0x8747)"

definition ua_example :: as_state where
  "ua_example = cpu_ctx.extend ctx_example
     \<lparr>mm_mem = ua_mem, mm_pmm_lock = spinlock_init, mm_free_list = 0,
      mm_memmap_table = [], mm_hddm_offset = 0, mm_kernel_physical_base = 0, mm_kernel_virtual_base = 0,
      mm_ttbr0_el1 = 0x1000, mm_ttbr1_el1 = 0,
      vm_as = \<lparr>kas_lock = spinlock_init, kas_kernel_page_table = 0, kas_kernel_user_table = 0,
        kas_kernel_mem_region = rg_example, kas_kernel_mmio_region = rg_example\<rparr>,
      hs_kheap = \<lparr>kh_lock = spinlock_init, kh_freelist = \<lparr>fl_head = 0, fl_capacity = 0\<rparr>\<rparr>,
      hs_blocks = (\<lambda>_. \<lparr>fe_size = 0, fe_next = 0\<rparr>), as_regions = Map.empty,
      as_spaces = [0x9000 \<mapsto> \<lparr>as_lock = spinlock_init, as_table = 0x1000, as_user_region = 0\<rparr>]\<rparr>"

lemma ua_example_fields: "mm_mem ua_example = ua_mem" "mm_hddm_offset ua_example = 0" "mm_ttbr0_el1 ua_example = 0x1000"
  "as_spaces ua_example 0x9000 = Some \<lparr>as_lock = spinlock_init, as_table = 0x1000, as_user_region = 0\<rparr>"
  by (simp_all add: ua_example_def cpu_ctx.defs)

lemma one_child:
  assumes "table_page h t" "i < 512" "\<And>j. j < 512 \<Longrightarrow> td_is_valid (m (entry_at t j)) \<longleftrightarrow> j = i"
    "c = next_table h (m (entry_at t i))" "tree h m n c" "t \<notin> tables h m n c"
  shows "tree h m (Suc n) t" "tables h m (Suc n) t = insert t (tables h m n c)"
    "leaf h m (Suc n) t va = (if idx (Suc n) va = i then leaf h m n c va else None)"
proof -
  have v: "{j. j < 512 \<and> td_is_valid (m (entry_at t j))} = {i}" using assms(2,3) by auto
  show "tree h m (Suc n) t" using assms by auto
  show "tables h m (Suc n) t = insert t (tables h m n c)" unfolding tables.simps v using assms(4) by simp
  show "leaf h m (Suc n) t va = (if idx (Suc n) va = i then leaf h m n c va else None)"
    using assms(3) [OF idx_less, of "Suc n" va] assms(4) by (simp add: Let_def)
qed

lemma ua_entry:
  assumes "t \<in> {0x1000, 0x2000, 0x3000}" "j < 512"
  shows "td_is_valid (ua_mem (entry_at t j)) \<longleftrightarrow> j = (if t = 0x3000 then 2 else 0)"
proof -
  have al: "IS_PAGE_ALIGNED (0x1000 :: u64)" "IS_PAGE_ALIGNED (0x2000 :: u64)" "IS_PAGE_ALIGNED (0x3000 :: u64)" "IS_PAGE_ALIGNED (0x4000 :: u64)"
    by (simp_all add: IS_PAGE_ALIGNED_unat)
  have q: "entry_at t j = a \<longleftrightarrow> t = u \<and> j = k" if "a = entry_at u k" "u \<in> {0x1000, 0x2000, 0x3000, 0x4000}" "k < 512" for a u k
  proof -
    have "IS_PAGE_ALIGNED t" "IS_PAGE_ALIGNED u" using assms(1) that(2) al by auto
    then show ?thesis using that(1,3) assms(2) page_of_entry entry_inject by metis
  qed
  have "entry_at t j = 0x1000 \<longleftrightarrow> t = 0x1000 \<and> j = 0" "entry_at t j = 0x2000 \<longleftrightarrow> t = 0x2000 \<and> j = 0"
    "entry_at t j = 0x3010 \<longleftrightarrow> t = 0x3000 \<and> j = 2" "entry_at t j = 0x4000 \<longleftrightarrow> t = 0x4000 \<and> j = 0"
    by (rule q; simp add: entry_at_def)+
  then show ?thesis using assms(1) by (auto simp: ua_mem_def td_is_valid_def field_get_def)
qed

lemma ua_child:
  assumes "t \<in> {0x1000, 0x2000, 0x3000}" "c = t + 0x1000" "tree 0 ua_mem n c" "t \<notin> tables 0 ua_mem n c"
  shows "tree 0 ua_mem (Suc n) t" "tables 0 ua_mem (Suc n) t = insert t (tables 0 ua_mem n c)"
    "leaf 0 ua_mem (Suc n) t va = (if idx (Suc n) va = (if t = 0x3000 then 2 else 0) then leaf 0 ua_mem n c va else None)"
proof -
  have p: "table_page 0 t" "(if t = 0x3000 then 2 else 0) < (512 :: u64)" using pt_example_page assms(1) by auto
  have "c = next_table 0 (ua_mem (entry_at t (if t = 0x3000 then 2 else 0)))"
    using assms(1,2) by (auto simp: ua_mem_def entry_at_def next_table_def td_next_level_address_def field_get_def PAGE_DESC_TO_PA_def)
  note c = one_child [OF p ua_entry [OF assms(1)] this assms(3,4)]
  show "tree 0 ua_mem (Suc n) t" "tables 0 ua_mem (Suc n) t = insert t (tables 0 ua_mem n c)"
    "leaf 0 ua_mem (Suc n) t va = (if idx (Suc n) va = (if t = 0x3000 then 2 else 0) then leaf 0 ua_mem n c va else None)"
    by (rule c; assumption)+
qed

lemma ua_tree: "tree 0 ua_mem 3 0x1000" "tables 0 ua_mem 3 0x1000 = {0x1000, 0x2000, 0x3000, 0x4000}"
  "pt_get 0 ua_mem 3 0x1000 0x400010 = 0x8747"
proof -
  have p: "tree 0 ua_mem 0 0x4000" "tables 0 ua_mem 0 0x4000 = {0x4000}" using pt_example_page by simp_all
  have n: "(0x3000 :: u64) \<notin> {0x4000}" "(0x2000 :: u64) \<notin> {0x3000, 0x4000}" "(0x1000 :: u64) \<notin> {0x2000, 0x3000, 0x4000}" by simp_all
  have a: "(0x3000 :: u64) \<in> {0x1000, 0x2000, 0x3000}" "(0x4000 :: u64) = 0x3000 + 0x1000"
    "(0x2000 :: u64) \<in> {0x1000, 0x2000, 0x3000}" "(0x3000 :: u64) = 0x2000 + 0x1000"
    "(0x1000 :: u64) \<in> {0x1000, 0x2000, 0x3000}" "(0x2000 :: u64) = 0x1000 + 0x1000" by simp_all
  note l1 = ua_child [OF a(1,2) p(1), unfolded p(2), OF n(1)]
  note l2 = ua_child [OF a(3,4) l1(1), unfolded l1(2), OF n(2)]
  note l3 = ua_child [OF a(5,6) l2(1), unfolded l2(2), OF n(3)]
  have s: "3 = Suc (Suc (Suc 0))" by simp
  show "tree 0 ua_mem 3 0x1000" unfolding s by (rule l3(1))
  show "tables 0 ua_mem 3 0x1000 = {0x1000, 0x2000, 0x3000, 0x4000}" unfolding s by (rule l3(2))
  have "leaf 0 ua_mem 3 0x1000 0x400010 = Some 0x4000"
    unfolding s l3(3) l2(3) l1(3) by (simp add: idx_def entry_at_def)
  then show "pt_get 0 ua_mem 3 0x1000 0x400010 = 0x8747" by (simp add: pt_get_def ua_mem_def)
qed

theorem user_copy_roundtrip_witness:
  "\<exists>s'. copy_to_user (Some 0x9000) 0x400010 [1, 2, 3] ua_example = Some (s', EOK) \<and>
    copy_from_user (Some 0x9000) 0x400010 3 s' = Some (EOK, [1, 2, 3])"
proof -
  let ?d = "entry_of 0x1000 ua_example 0x400010"
  have d: "?d = 0x8747" using ua_tree(3) by (simp add: entry_of_def ua_example_fields)
  then have f: "user_frame 0x1000 0x400010 ua_example = 0x8000" "is_page_writable_by_user ?d"
    by (simp_all add: user_frame_def pmm_phys_to_virt_def memmap_hddm_offset_def ua_example_fields pd_defs field_get_def PAGE_DESC_TO_PA_def
        is_page_writable_by_user_def EL1_READ_WRITE_EL0_READ_WRITE_def)
  have "user_page_ok 0x1000 0x400010 ua_example"
    using ua_tree(1,2) f(1) by (simp add: user_page_ok_def user_ctx_def d ua_example_fields IS_PAGE_ALIGNED_unat)
      (simp add: pd_defs field_get_def PAGE_DESC_TO_PA_def)
  moreover have "is_within_user_vm_range 0x400010 3"
    by (simp add: is_within_user_vm_range_def USER_VM_RANGE_END_def USER_VM_RANGE_BASE_def USER_VM_RANGE_SIZE_def)
  ultimately show ?thesis
    using user_copy_roundtrip [OF ua_example_fields(4), of "0x400010" "[1, 2, 3]"] f(2) by auto
qed

end
