(* ===== verification/Elf.thy ===== *)
theory Elf
  imports Uaccess
begin

text \<open>
  The loader of programs (\<^verbatim>\<open>kernel/exec/elf.c\<close>, with the headers of \<^verbatim>\<open>elf_internal.h\<close>). The file is the
  memory from its first byte on: \<open>file off\<close> is the byte at the offset \<open>off\<close>, or \<open>None\<close> where the memory
  cannot be read, which faults. The code reads the headers without looking at the size of the file, so the bytes
  behind the file count too. The headers are packed structures, decoded from their bytes.
\<close>

type_synonym elf_file = "u64 \<Rightarrow> u8 option"

primrec read_bytes :: "nat \<Rightarrow> elf_file \<Rightarrow> u64 \<Rightarrow> u8 list option" where
  "read_bytes 0 file off = Some []"
| "read_bytes (Suc n) file off = do {
     b \<leftarrow> file off;
     bs \<leftarrow> read_bytes n file (off + 1);
     Some (b # bs)
   }"

definition le_field :: "nat \<Rightarrow> nat \<Rightarrow> u8 list \<Rightarrow> 'w::len word" where
  "le_field off n bs = le_word (take n (drop off bs))"

section \<open>Headers\<close>

abbreviation ELF_HEADER_MAGIC_SIZE :: nat where "ELF_HEADER_MAGIC_SIZE \<equiv> 4"

record ElfHeader =
  eh_ident_magic :: "u8 list"
  eh_ident_class :: u8
  eh_ident_data :: u8
  eh_ident_version :: u8
  eh_ident_os_abi :: u8
  eh_ident_abi_version :: u8
  eh_type :: "16 word"
  eh_machine :: "16 word"
  eh_version :: u32
  eh_entry :: u64
  eh_program_header_off :: u64
  eh_section_header_off :: u64
  eh_flags :: u32
  eh_executable_header_size :: "16 word"
  eh_program_header_table_entry_size :: "16 word"
  eh_program_header_table_entry_count :: "16 word"
  eh_section_header_table_entry_size :: "16 word"
  eh_section_header_table_entry_count :: "16 word"
  eh_section_header_string_table_index :: "16 word"

definition elf_header_at :: "elf_file \<Rightarrow> u64 \<Rightarrow> ElfHeader option" where
  "elf_header_at file off = do {
     b \<leftarrow> read_bytes 64 file off;
     Some \<lparr>eh_ident_magic = take ELF_HEADER_MAGIC_SIZE b, eh_ident_class = le_field 4 1 b, eh_ident_data = le_field 5 1 b,
       eh_ident_version = le_field 6 1 b, eh_ident_os_abi = le_field 7 1 b, eh_ident_abi_version = le_field 15 1 b,
       eh_type = le_field 16 2 b, eh_machine = le_field 18 2 b, eh_version = le_field 20 4 b, eh_entry = le_field 24 8 b,
       eh_program_header_off = le_field 32 8 b, eh_section_header_off = le_field 40 8 b, eh_flags = le_field 48 4 b,
       eh_executable_header_size = le_field 52 2 b, eh_program_header_table_entry_size = le_field 54 2 b,
       eh_program_header_table_entry_count = le_field 56 2 b, eh_section_header_table_entry_size = le_field 58 2 b,
       eh_section_header_table_entry_count = le_field 60 2 b, eh_section_header_string_table_index = le_field 62 2 b\<rparr>
   }"

record ElfProgramHeader =
  ph_type :: u32
  ph_flags :: u32
  ph_offset :: u64
  ph_vaddr :: u64
  ph_paddr :: u64
  ph_filesz :: u64
  ph_memsz :: u64
  ph_align :: u64

abbreviation sizeof_ElfProgramHeader :: u64 where "sizeof_ElfProgramHeader \<equiv> 56"

definition elf_program_header_at :: "elf_file \<Rightarrow> u64 \<Rightarrow> ElfProgramHeader option" where
  "elf_program_header_at file off = do {
     b \<leftarrow> read_bytes 56 file off;
     Some \<lparr>ph_type = le_field 0 4 b, ph_flags = le_field 4 4 b, ph_offset = le_field 8 8 b, ph_vaddr = le_field 16 8 b,
       ph_paddr = le_field 24 8 b, ph_filesz = le_field 32 8 b, ph_memsz = le_field 40 8 b, ph_align = le_field 48 8 b\<rparr>
   }"

definition ELF_HEADER_IDENT_CLASS_CLASS64 :: u8 where "ELF_HEADER_IDENT_CLASS_CLASS64 = 2"
definition ELF_HEADER_IDENT_DATA_LSB :: u8 where "ELF_HEADER_IDENT_DATA_LSB = 1"
definition ELF_PROGRAM_HEADER_TYPE_LOAD :: u32 where "ELF_PROGRAM_HEADER_TYPE_LOAD = 1"
definition PF_X :: u32 where "PF_X = 1"
definition PF_W :: u32 where "PF_W = 2"

section \<open>Checks\<close>

definition KNOWN_HEADER_MAGIC :: "u8 list" where "KNOWN_HEADER_MAGIC = [0x7f, 0x45, 0x4c, 0x46]"

definition elf_verify_header_magic :: "u8 list \<Rightarrow> bool" where
  "elf_verify_header_magic magic \<longleftrightarrow> KNOWN_HEADER_MAGIC = magic"

definition elf_verify_header :: "ElfHeader \<Rightarrow> bool" where
  "elf_verify_header header =
     (if \<not> elf_verify_header_magic (eh_ident_magic header) then False
      else if eh_ident_class header \<noteq> ELF_HEADER_IDENT_CLASS_CLASS64 then False
      else if eh_ident_data header \<noteq> ELF_HEADER_IDENT_DATA_LSB then False
      else True)"

definition verify_program_header :: "ElfProgramHeader \<Rightarrow> u64 \<Rightarrow> errno_t" where
  "verify_program_header prog_header elf_size =
     (if ph_filesz prog_header > ph_memsz prog_header \<or>
         ph_offset prog_header > elf_size \<or>
         ph_filesz prog_header > elf_size - ph_offset prog_header \<or>
         ph_vaddr prog_header > USER_VM_RANGE_END \<or>
         ph_memsz prog_header > USER_VM_RANGE_END - ph_vaddr prog_header
      then - EINVAL else EOK)"

section \<open>Loading\<close>

text \<open>\<^verbatim>\<open>memcpy\<close> from the file to the kernel's mapping of a page.\<close>

primrec memcpy_elf :: "nat \<Rightarrow> elf_file \<Rightarrow> u64 \<Rightarrow> u64 \<Rightarrow> 'a mss \<Rightarrow> 'a mss option" where
  "memcpy_elf 0 file dst off s = Some s"
| "memcpy_elf (Suc n) file dst off s = do {
     b \<leftarrow> file off;
     memcpy_elf n file (dst + 1) (off + 1) (store_byte dst b s)
   }"

text \<open>What is copied to the page at \<open>va\<close>: the start and the size within the page, and the offset in the file.\<close>

definition segment_copy :: "ElfProgramHeader \<Rightarrow> usize \<Rightarrow> (usize \<times> usize \<times> usize) option" where
  "segment_copy ph va =
     (let segment_start = ph_vaddr ph;
          copy_start = (if va < segment_start then segment_start - va else 0);
          copy_end = (if va + PAGE_SIZE > segment_start + ph_filesz ph then (segment_start + ph_filesz ph) - va else PAGE_SIZE)
      in if copy_end \<le> copy_start then None
         else Some (copy_start, copy_end - copy_start, ph_offset ph + ((va + copy_start) - segment_start)))"

definition copy_segment_page :: "elf_file \<Rightarrow> ElfProgramHeader \<Rightarrow> u64 \<Rightarrow> usize \<Rightarrow> 'a mss \<Rightarrow> 'a mss option" where
  "copy_segment_page elf ph page va s =
     (case segment_copy ph va of
        None \<Rightarrow> Some s
      | Some (copy_start, copy_size, file_offset) \<Rightarrow> memcpy_elf (unat copy_size) elf (page + copy_start) file_offset s)"

partial_function (option) map_section_loop ::
  "elf_file \<Rightarrow> ElfProgramHeader \<Rightarrow> u64 \<Rightarrow> u64 \<Rightarrow> u64 \<Rightarrow> usize \<Rightarrow> usize \<Rightarrow> 'a ass \<Rightarrow> ('a ass \<times> errno_t) option" where
  "map_section_loop elf ph read_write_perms exec_perms as va map_end s =
     (if va < map_end then do {
        (s, pa) \<leftarrow> pmm_alloc s;
        if IS_ERR pa then Some (s, PTR_TO_ERR pa)
        else do {
          (s, ret) \<leftarrow> address_space_map_owned_mm as va pa PAGE_SIZE read_write_perms exec_perms s;
          if ret \<noteq> EOK then do {
            (s, _) \<leftarrow> pmm_free pa s;
            Some (s, ret)
          }
          else do {
            let page = pmm_phys_to_virt pa s;
            s \<leftarrow> copy_segment_page elf ph page va s;
            map_section_loop elf ph read_write_perms exec_perms as (va + PAGE_SIZE) map_end s
          }
        }
      }
      else Some (s, EOK))"

definition map_section_from_header :: "elf_file \<Rightarrow> u64 \<Rightarrow> ElfProgramHeader \<Rightarrow> u64 \<Rightarrow> 'a ass \<Rightarrow> ('a ass \<times> errno_t) option" where
  "map_section_from_header elf elf_size ph as s =
     (let ret = verify_program_header ph elf_size in
      if ret \<noteq> EOK then Some (s, ret)
      else if ph_memsz ph = 0 then Some (s, EOK)
      else let read_write_perms = (if ph_flags ph AND PF_W \<noteq> 0 then EL1_READ_WRITE_EL0_READ_WRITE else EL1_READ_ONLY_EL0_READ_ONLY);
               exec_perms = (if ph_flags ph AND PF_X \<noteq> 0 then EXECUTABLE else NOT_EXECUTABLE);
               segment_start = ph_vaddr ph;
               segment_end = ph_vaddr ph + ph_memsz ph;
               map_start = round_down segment_start PAGE_SIZE;
               map_end = round_up segment_end PAGE_SIZE
           in map_section_loop elf ph read_write_perms exec_perms as map_start map_end s)"

text \<open>The loop over the program headers; the result of the load is the entry point.\<close>

primrec load_segments :: "elf_file \<Rightarrow> u64 \<Rightarrow> u64 \<Rightarrow> u64 \<Rightarrow> usize list \<Rightarrow> 'a ass \<Rightarrow> ('a ass \<times> errno_t) option" where
  "load_segments file file_size program_headers as [] s = Some (s, EOK)"
| "load_segments file file_size program_headers as (prog_header_count # cs) s = do {
     program_header \<leftarrow> elf_program_header_at file (program_headers + prog_header_count * sizeof_ElfProgramHeader);
     if ph_type program_header = ELF_PROGRAM_HEADER_TYPE_LOAD then do {
       (s, ret) \<leftarrow> map_section_from_header file file_size program_header as s;
       if ret \<noteq> EOK then Some (s, ret) else load_segments file file_size program_headers as cs s
     }
     else load_segments file file_size program_headers as cs s
   }"

definition elf_load :: "elf_file \<Rightarrow> u64 \<Rightarrow> u64 \<Rightarrow> u64 \<Rightarrow> 'a ass \<Rightarrow> ('a ass \<times> errno_t \<times> u64) option" where
  "elf_load file file_size addr_space out_entry s = do {
     header \<leftarrow> elf_header_at file 0;
     if \<not> elf_verify_header header then Some (s, - EINVAL, out_entry)
     else do {
       (s, ret) \<leftarrow> load_segments file file_size (eh_program_header_off header) addr_space
         (u64_range 0 (ucast (eh_program_header_table_entry_count header))) s;
       if ret \<noteq> EOK then Some (s, ret, out_entry)
       else Some (s, EOK, eh_entry header)
     }
   }"

end
