(* ===== verification/ElfProps.thy ===== *)
theory ElfProps
  imports Elf UaccessProps
begin

text \<open>
  What the loader of programs guarantees: a program header that passes the check describes a part of the file
  and a part of the user range, and a page of a segment gets the bytes of the file that belong to it and zeros
  elsewhere, unless it lies behind the bytes of the file.
\<close>

lemma user_range_end: "unat USER_VM_RANGE_END = 0x40010000"
  by (simp add: USER_VM_RANGE_END_def USER_VM_RANGE_BASE_def USER_VM_RANGE_SIZE_def)

lemma sub_bound: "a > b - c \<longleftrightarrow> unat b < unat a + unat c" if "c \<le> b" for a b c :: u64
  using that by (auto simp: word_less_nat_alt unat_sub_u64 word_le_nat_alt)

lemma verify_program_headerD:
  assumes "verify_program_header ph elf_size = EOK"
  shows "unat (ph_filesz ph) \<le> unat (ph_memsz ph)" "unat (ph_offset ph) + unat (ph_filesz ph) \<le> unat elf_size"
    "unat (ph_vaddr ph) + unat (ph_memsz ph) \<le> 0x40010000"
  using assms sub_bound [of "ph_offset ph" elf_size "ph_filesz ph"] sub_bound [of "ph_vaddr ph" USER_VM_RANGE_END "ph_memsz ph"] user_range_end
  by (auto simp: verify_program_header_def word_less_nat_alt word_le_nat_alt split: if_splits)


section \<open>The bytes of a page\<close>

lemma store_bytes_window:
  assumes "cs + length bs \<le> 4096"
  shows "load_byte x (store_bytes (page + of_nat cs) bs s) =
    (if cs \<le> unat (x - page) \<and> unat (x - page) < cs + length bs then bs ! (unat (x - page) - cs) else load_byte x s)"
proof -
  have c: "unat (of_nat cs :: u64) = cs" "cs \<le> 4096" using assms by (simp_all add: unat_of_nat take_bit_nat_eq_self)
  have "unat (x - (page + of_nat cs)) = (if cs \<le> unat (x - page) then unat (x - page) - cs else unat (x - page) + 2 ^ 64 - cs)"
    using c unat_sub_if' [of "x - page" "of_nat cs"] by (simp add: diff_diff_eq)
  then show ?thesis using assms c(2) by (subst load_store_bytes) auto
qed

lemma memcpy_elf_ok:
  "(\<And>i. i < length bs \<Longrightarrow> file (off + of_nat i) = Some (bs ! i)) \<Longrightarrow> memcpy_elf (length bs) file dst off s = Some (store_bytes dst bs s)"
proof (induction bs arbitrary: dst off s)
  case (Cons b bs)
  have "file off = Some b" using Cons.prems [of 0] by simp
  moreover have "file (off + 1 + of_nat i) = Some (bs ! i)" if "i < length bs" for i
    using Cons.prems [of "Suc i"] that by (simp add: add.assoc)
  ultimately show ?case using Cons.IH by simp
qed simp

text \<open>The range that is copied, in numbers: the part of the page that the bytes of the file cover.\<close>

lemma segment_copy_range:
  assumes ok: "verify_program_header ph elf_size = EOK" and va: "unat va \<le> unat (ph_vaddr ph) + unat (ph_filesz ph)" "unat (ph_vaddr ph) < unat va + 4096"
  defines "cs \<equiv> unat (ph_vaddr ph) - unat va" and "ce \<equiv> min 4096 (unat (ph_vaddr ph) + unat (ph_filesz ph) - unat va)"
  shows "segment_copy ph va = (if ce \<le> cs then None
    else Some (of_nat cs, of_nat (ce - cs), ph_offset ph + of_nat (unat va + cs - unat (ph_vaddr ph))))"
proof -
  let ?v = "unat (ph_vaddr ph)" let ?f = "unat (ph_filesz ph)"
  have b: "?f \<le> unat (ph_memsz ph)" "?v + unat (ph_memsz ph) \<le> 0x40010000" using verify_program_headerD [OF ok] by simp_all
  have vf: "unat (ph_vaddr ph + ph_filesz ph) = ?v + ?f" using b unat_add_u64 [of "ph_vaddr ph" "ph_filesz ph"] by simp
  have vp: "unat (va + PAGE_SIZE) = unat va + 4096" using b va unat_add_u64 [of va PAGE_SIZE] by (simp add: PAGE_SIZE_def)
  have cs: "(if va < ph_vaddr ph then ph_vaddr ph - va else 0) = of_nat cs"
    by (simp add: cs_def u64_eq_iff_unat word_less_nat_alt unat_sub_u64 word_le_nat_alt)
  have ce: "(if va + PAGE_SIZE > ph_vaddr ph + ph_filesz ph then (ph_vaddr ph + ph_filesz ph) - va else PAGE_SIZE) = of_nat ce"
    using va(1) vf vp by (auto simp: ce_def word_less_nat_alt u64_eq_iff_unat unat_sub_u64 word_le_nat_alt PAGE_SIZE_def unat_of_nat take_bit_nat_eq_self min_def)
  have small: "cs < 2 ^ 64" "ce < 2 ^ 64" using va b by (simp_all add: cs_def ce_def)
  have le: "(of_nat ce :: u64) \<le> of_nat cs \<longleftrightarrow> ce \<le> cs"
    using small by (simp add: word_le_nat_alt unat_of_nat take_bit_nat_eq_self)
  have "?v \<le> unat va + cs" by (simp add: cs_def)
  then have "va + of_nat cs - ph_vaddr ph = of_nat (unat va + cs - ?v)" by (simp add: of_nat_diff)
  moreover have "(of_nat ce :: u64) - of_nat cs = of_nat (ce - cs)" if "\<not> ce \<le> cs" using that by (simp add: of_nat_diff)
  ultimately show ?thesis by (simp add: segment_copy_def Let_def cs ce le)
qed

lemma copy_segment_page_ok:
  assumes ok: "verify_program_header ph elf_size = EOK" and va: "unat va \<le> unat (ph_vaddr ph) + unat (ph_filesz ph)" "unat (ph_vaddr ph) < unat va + 4096"
    and rd: "\<And>i. i < unat (ph_filesz ph) \<Longrightarrow> file (ph_offset ph + of_nat i) = Some (g i)"
  obtains cs bs where "copy_segment_page file ph page va s = Some (store_bytes (page + of_nat cs) bs s)" "cs + length bs \<le> 4096"
    "\<And>k. k < 4096 \<Longrightarrow> cs \<le> k \<and> k < cs + length bs \<longleftrightarrow> unat (ph_vaddr ph) \<le> unat va + k \<and> unat va + k < unat (ph_vaddr ph) + unat (ph_filesz ph)"
    "\<And>k. cs \<le> k \<Longrightarrow> k < cs + length bs \<Longrightarrow> bs ! (k - cs) = g (unat va + k - unat (ph_vaddr ph))"
proof -
  let ?v = "unat (ph_vaddr ph)" let ?f = "unat (ph_filesz ph)" let ?a = "unat va"
  define cs where "cs = ?v - ?a"
  define ce where "ce = min 4096 (?v + ?f - ?a)"
  let ?bs = "map g [?a + cs - ?v..<?a + ce - ?v]"
  note sc = segment_copy_range [OF ok va, folded cs_def ce_def]
  show thesis
  proof (cases "ce \<le> cs")
    case True
    show thesis
    proof (rule that [of cs "[]"])
      show "copy_segment_page file ph page va s = Some (store_bytes (page + of_nat cs) [] s)" using sc True by (simp add: copy_segment_page_def)
    qed (use True va in \<open>auto simp: cs_def ce_def min_def split: if_splits\<close>)
  next
    case False
    then have l: "length ?bs = ce - cs" "?v \<le> ?a + cs" "ce \<le> 4096" by (auto simp: cs_def ce_def)
    have u: "unat (of_nat (ce - cs) :: u64) = ce - cs" using l(3) by (simp add: unat_of_nat take_bit_nat_eq_self)
    have "file (ph_offset ph + of_nat (?a + cs - ?v) + of_nat i) = Some (?bs ! i)" if "i < length ?bs" for i
    proof -
      have "?a + cs - ?v + i < ?f" using that l by (simp add: ce_def min_def split: if_splits)
      then have "file (ph_offset ph + of_nat (?a + cs - ?v + i)) = Some (g (?a + cs - ?v + i))" by (rule rd)
      then show ?thesis using that l(1) by (simp only: add.assoc of_nat_add nth_map_upt) (simp add: add.assoc)
    qed
    then have "memcpy_elf (length ?bs) file (page + of_nat cs) (ph_offset ph + of_nat (?a + cs - ?v)) s = Some (store_bytes (page + of_nat cs) ?bs s)"
      by (rule memcpy_elf_ok)
    then have c: "copy_segment_page file ph page va s = Some (store_bytes (page + of_nat cs) ?bs s)"
      using sc False u unfolding l(1) by (simp add: copy_segment_page_def)
    show thesis
    proof (rule that [OF c])
      show "?bs ! (k - cs) = g (?a + k - ?v)" if "cs \<le> k" "k < cs + length ?bs" for k
      proof -
        have "?a + cs - ?v + (k - cs) = ?a + k - ?v" using that(1) l(2) by simp
        then show ?thesis using that l(1) by simp
      qed
    qed (use l False va in \<open>auto simp: cs_def ce_def min_def split: if_splits\<close>)
  qed
qed


text \<open>
  A page behind the bytes of the file: when a page of the segment starts behind the end of its bytes in
  the file, as the pages of uninitialised data do, the size of the copy wraps around and is larger than the whole
  user range.
\<close>

theorem segment_copy_wraps:
  assumes "verify_program_header ph elf_size = EOK" "unat (ph_vaddr ph) + unat (ph_filesz ph) < unat va"
    "unat va < unat (ph_vaddr ph) + unat (ph_memsz ph)"
  shows "\<exists>sz off. segment_copy ph va = Some (0, sz, off) \<and> unat sz = 2 ^ 64 - (unat va - (unat (ph_vaddr ph) + unat (ph_filesz ph))) \<and>
    USER_VM_RANGE_END < sz"
proof -
  let ?v = "unat (ph_vaddr ph)" let ?f = "unat (ph_filesz ph)"
  have b: "?f \<le> unat (ph_memsz ph)" "?v + unat (ph_memsz ph) \<le> 0x40010000" using verify_program_headerD [OF assms(1)] by simp_all
  have vf: "unat (ph_vaddr ph + ph_filesz ph) = ?v + ?f" using b unat_add_u64 [of "ph_vaddr ph" "ph_filesz ph"] by simp
  have vp: "unat (va + PAGE_SIZE) = unat va + 4096" using b assms unat_add_u64 [of va PAGE_SIZE] by (simp add: PAGE_SIZE_def)
  let ?sz = "(ph_vaddr ph + ph_filesz ph) - va"
  have sz: "unat ?sz = 2 ^ 64 - (unat va - (?v + ?f))" using assms(2) vf unat_sub_if' [of "ph_vaddr ph + ph_filesz ph" va] by simp
  then have big: "USER_VM_RANGE_END < ?sz" using b assms by (simp add: word_less_nat_alt user_range_end)
  then have "?sz \<noteq> 0" by (metis word_not_simps(1))
  moreover have "\<not> va < ph_vaddr ph" "ph_vaddr ph + ph_filesz ph < va + PAGE_SIZE" using assms(2) vf vp by (simp_all add: word_less_nat_alt)
  ultimately show ?thesis using sz big by (simp add: segment_copy_def Let_def)
qed

text \<open>A segment of 16 bytes of the file in three pages of memory.\<close>

definition ph_example :: ElfProgramHeader where
  "ph_example = \<lparr>ph_type = ELF_PROGRAM_HEADER_TYPE_LOAD, ph_flags = PF_W, ph_offset = 0x78, ph_vaddr = 0x400010, ph_paddr = 0,
     ph_filesz = 16, ph_memsz = 0x2800, ph_align = 0x1000\<rparr>"

lemma ph_example_ok: "verify_program_header ph_example 0x100 = EOK"
  by (simp add: ph_example_def verify_program_header_def USER_VM_RANGE_END_def USER_VM_RANGE_BASE_def USER_VM_RANGE_SIZE_def)


theorem segment_copy_wraps_witness:
  "\<exists>sz off. segment_copy ph_example 0x402000 = Some (0, sz, off) \<and> USER_VM_RANGE_END < sz"
  using segment_copy_wraps [OF ph_example_ok, of "0x402000"] by (auto simp: ph_example_def)

end
