(* ===== verification/CString.thy ===== *)
theory CString
  imports KPrelude
begin

text \<open>
  Memory and strings: \<^verbatim>\<open>lib/string.c\<close>, the character classes of \<^verbatim>\<open>lib/ctype.h\<close> and the number parser of
  \<^verbatim>\<open>lib/stdlib.c\<close>. Memory is a map from addresses to bytes, a pointer an address, the null pointer 0. A loop that
  counts down is recursion on the count; a loop over a string, which ends only when it finds its end, is a partial
  function. On this machine \<^verbatim>\<open>char\<close> is unsigned.
\<close>

type_synonym bytes = "u64 \<Rightarrow> u8"

section \<open>Memory\<close>

text \<open>The two loops of \<^verbatim>\<open>memmove\<close>.\<close>

primrec copy_up :: "nat \<Rightarrow> u64 \<Rightarrow> u64 \<Rightarrow> bytes \<Rightarrow> bytes" where
  "copy_up 0 d s m = m"
| "copy_up (Suc len) d s m = copy_up len (d + 1) (s + 1) (m(d := m s))"

primrec copy_down :: "nat \<Rightarrow> u64 \<Rightarrow> u64 \<Rightarrow> bytes \<Rightarrow> bytes" where
  "copy_down 0 lastd lasts m = m"
| "copy_down (Suc len) lastd lasts m = copy_down len (lastd - 1) (lasts - 1) (m(lastd := m lasts))"

definition memmove :: "u64 \<Rightarrow> u64 \<Rightarrow> usize \<Rightarrow> bytes \<Rightarrow> bytes \<times> u64" where
  "memmove dest src len m =
     (if dest < src then (copy_up (unat len) dest src m, dest)
      else (copy_down (unat len) (dest + (len - 1)) (src + (len - 1)) m, dest))"

primrec memset_loop :: "nat \<Rightarrow> u64 \<Rightarrow> u8 \<Rightarrow> bytes \<Rightarrow> bytes" where
  "memset_loop 0 ptr byte m = m"
| "memset_loop (Suc count) ptr byte m = memset_loop count (ptr + 1) byte (m(ptr := byte))"

definition memset :: "u64 \<Rightarrow> u8 \<Rightarrow> usize \<Rightarrow> bytes \<Rightarrow> bytes \<times> u64" where
  "memset s byte count m = (memset_loop (unat count) s byte m, s)"

definition memcpy :: "u64 \<Rightarrow> u64 \<Rightarrow> usize \<Rightarrow> bytes \<Rightarrow> bytes \<times> u64" where
  "memcpy dest src sz m = (copy_up (unat sz) dest src m, dest)"

primrec memcmp_loop :: "nat \<Rightarrow> u64 \<Rightarrow> u64 \<Rightarrow> bytes \<Rightarrow> int" where
  "memcmp_loop 0 p1 p2 m = 0"
| "memcmp_loop (Suc n) p1 p2 m =
     (let diff = uint (m p1) - uint (m p2) in if diff \<noteq> 0 then diff else memcmp_loop n (p1 + 1) (p2 + 1) m)"

definition memcmp :: "u64 \<Rightarrow> u64 \<Rightarrow> usize \<Rightarrow> bytes \<Rightarrow> int" where
  "memcmp s1 s2 n m = memcmp_loop (unat n) s1 s2 m"

primrec memchr_loop :: "nat \<Rightarrow> u64 \<Rightarrow> u8 \<Rightarrow> bytes \<Rightarrow> u64" where
  "memchr_loop 0 s c m = 0"
| "memchr_loop (Suc n) s c m = (if m s \<noteq> c then memchr_loop n (s + 1) c m else s)"

definition memchr :: "u64 \<Rightarrow> u32 \<Rightarrow> usize \<Rightarrow> bytes \<Rightarrow> u64" where
  "memchr src c n m = memchr_loop (unat n) src (ucast c) m"

primrec memrchr_loop :: "nat \<Rightarrow> u64 \<Rightarrow> u8 \<Rightarrow> bytes \<Rightarrow> u64" where
  "memrchr_loop 0 s c m = 0"
| "memrchr_loop (Suc n) s c m = (if m (s + of_nat n) = c then s + of_nat n else memrchr_loop n s c m)"

definition memrchr :: "u64 \<Rightarrow> u32 \<Rightarrow> usize \<Rightarrow> bytes \<Rightarrow> u64" where
  "memrchr s c n m = memrchr_loop (unat n) s (ucast c) m"

section \<open>Strings\<close>

text \<open>The end of a string: the address of its first zero byte.\<close>

partial_function (option) strlen_loop :: "u64 \<Rightarrow> bytes \<Rightarrow> u64 option" where
  "strlen_loop p m = (if m p \<noteq> 0 then strlen_loop (p + 1) m else Some p)"

definition strlen :: "u64 \<Rightarrow> bytes \<Rightarrow> usize option" where
  "strlen s m = map_option (\<lambda>p. p - s) (strlen_loop s m)"

definition strrchr :: "u64 \<Rightarrow> u32 \<Rightarrow> bytes \<Rightarrow> u64 option" where
  "strrchr s c m = map_option (\<lambda>n. memrchr s c (n + 1) m) (strlen s m)"

partial_function (option) strncmp :: "u64 \<Rightarrow> u64 \<Rightarrow> u32 \<Rightarrow> bytes \<Rightarrow> int option" where
  "strncmp a b n m =
     (if m a \<noteq> 0 \<and> m a = m b \<and> n - 1 > 0 then strncmp (a + 1) (b + 1) (n - 1) m
      else Some (uint (m a) - uint (m b)))"

partial_function (option) strcmp :: "u64 \<Rightarrow> u64 \<Rightarrow> bytes \<Rightarrow> int option" where
  "strcmp a b m =
     (if m a \<noteq> 0 \<and> m a = m b then strcmp (a + 1) (b + 1) m
      else Some (uint (m a) - uint (m b)))"

definition strnlen :: "u64 \<Rightarrow> usize \<Rightarrow> bytes \<Rightarrow> usize" where
  "strnlen s n m = (let p = memchr s 0 n m in if p \<noteq> 0 then p - s else n)"

text \<open>The loop looks at the first byte of the string, \<^verbatim>\<open>*s\<close>, in every round.\<close>

partial_function (option) strchrnul_loop :: "u64 \<Rightarrow> u64 \<Rightarrow> u8 \<Rightarrow> bytes \<Rightarrow> u64 option" where
  "strchrnul_loop s p c m = (if m s \<noteq> 0 \<and> m p \<noteq> c then strchrnul_loop s (p + 1) c m else Some p)"

definition strchrnul :: "u64 \<Rightarrow> u32 \<Rightarrow> bytes \<Rightarrow> u64 option" where
  "strchrnul s c m =
     (let c = ucast c in
      if c = 0 then map_option (\<lambda>n. s + n) (strlen s m) else strchrnul_loop s s c m)"

definition strchr :: "u64 \<Rightarrow> u32 \<Rightarrow> bytes \<Rightarrow> u64 option" where
  "strchr s c m = map_option (\<lambda>r. if m r = ucast c then r else 0) (strchrnul s c m)"

section \<open>Characters and numbers\<close>

definition isdigit :: "u32 \<Rightarrow> bool" where "isdigit c \<longleftrightarrow> c - 48 < 10"
definition isalpha :: "u32 \<Rightarrow> bool" where "isalpha c \<longleftrightarrow> (c OR 32) - 97 < 26"
definition isupper :: "u32 \<Rightarrow> bool" where "isupper c \<longleftrightarrow> c - 65 < 26"
definition isspace :: "u32 \<Rightarrow> bool" where "isspace c \<longleftrightarrow> c = 32 \<or> c - 9 < 5"

text \<open>The state of the parser: the next address and the current character.\<close>

partial_function (option) skip_space :: "u64 \<Rightarrow> bytes \<Rightarrow> (u64 \<times> u32) option" where
  "skip_space s m = (let c = ucast (m s) in if isspace c then skip_space (s + 1) m else Some (s + 1, c))"

text \<open>The value of a character as a digit; \<open>None\<close> when it is no digit and no letter.\<close>

definition digit_value :: "u32 \<Rightarrow> u32 option" where
  "digit_value c = (if isdigit c then Some (c - 48)
     else if isalpha c then Some (c - (if isupper c then 55 else 87))
     else None)"

partial_function (option) strtoul_loop :: "u64 \<Rightarrow> u64 \<Rightarrow> u32 \<Rightarrow> u64 \<Rightarrow> int \<Rightarrow> u64 \<Rightarrow> u32 \<Rightarrow> bytes \<Rightarrow> (u64 \<times> int \<times> u64) option" where
  "strtoul_loop base cutoff cutlim acc any s c m =
     (case digit_value c of
        None \<Rightarrow> Some (acc, any, s)
      | Some d \<Rightarrow>
          if sint d \<ge> sint base then Some (acc, any, s)
          else if any < 0 then strtoul_loop base cutoff cutlim acc any (s + 1) (ucast (m s)) m
          else if acc > cutoff \<or> acc = cutoff \<and> sint d > sint cutlim
          then strtoul_loop base cutoff cutlim (- 1) (- 1) (s + 1) (ucast (m s)) m
          else strtoul_loop base cutoff cutlim (acc * base + scast d) 1 (s + 1) (ucast (m s)) m)"

text \<open>The result is the number and the value of \<^verbatim>\<open>*endptr\<close>.\<close>

definition strtoul :: "u64 \<Rightarrow> u64 \<Rightarrow> bytes \<Rightarrow> (u64 \<times> u64) option" where
  "strtoul nptr base m = do {
     (s, c) \<leftarrow> skip_space nptr m;
     let (neg, s, c) = (if c = 45 then (True, s + 1, ucast (m s))
       else if c = 43 then (False, s + 1, ucast (m s)) else (False, s, c));
     let (s, c, base) = (if (base = 0 \<or> base = 16) \<and> c = 48 \<and> (m s = 120 \<or> m s = 88)
       then (s + 2, ucast (m (s + 1)), 16) else (s, c, base));
     let base = (if base = 0 then (if c = 48 then 8 else 10) else base);
     (acc, any, s) \<leftarrow> strtoul_loop base (- 1 div base) (ucast ((- 1 :: u64) mod base)) 0 0 s c m;
     let acc = (if neg \<and> any > 0 then - acc else acc);
     Some (acc, if any \<noteq> 0 then s - 1 else nptr)
   }"

section \<open>Overlapping copies\<close>

lemma unat_offset: "unat p + n \<le> 2 ^ 64 \<Longrightarrow> unat k < n \<Longrightarrow> unat (p + k) = unat p + unat k" for p k :: u64
  by (rule unat_add_u64) simp

lemma unat_offset_pred: "a \<noteq> d \<Longrightarrow> unat (a - d) = Suc (unat (a - (d + 1)))" for a d :: u64
proof -
  assume "a \<noteq> d"
  then have n: "a - d \<noteq> 0" by simp
  then have "unat (a - d - 1) = unat (a - d) - 1" by (rule unat_minus_one)
  moreover have "0 < unat (a - d)" using n by (simp add: unat_gt_0)
  ultimately show ?thesis by (simp add: diff_diff_eq)
qed

lemma copy_up_exact:
  assumes "d < s" "unat s + n \<le> 2 ^ 64"
  shows "copy_up n d s m a = (if unat (a - d) < n then m (s + (a - d)) else m a)"
  using assms
proof (induction n arbitrary: d s m)
  case (Suc n)
  let ?m = "m(d := m s)"
  have lt: "unat d < unat s" using Suc.prems(1) by (simp add: word_less_nat_alt)
  show ?case
  proof (cases "n = 0")
    case False
    have s1: "unat (s + 1) = unat s + 1" "unat (d + 1) = unat d + 1"
      using Suc.prems lt False unat_add_u64 [of s 1] unat_add_u64 [of d 1] by simp_all
    have ih: "copy_up n (d + 1) (s + 1) ?m a = (if unat (a - (d + 1)) < n then ?m (s + 1 + (a - (d + 1))) else ?m a)"
      by (rule Suc.IH) (use s1 lt Suc.prems(2) in \<open>simp_all add: word_less_nat_alt\<close>)
    show ?thesis
    proof (cases "a = d")
      case True
      then have "unat (a - (d + 1)) = 2 ^ 64 - 1" by simp
      then show ?thesis using ih True Suc.prems(2) by simp
    next
      case ad: False
      note p = unat_offset_pred [OF ad]
      have "s + (a - d) \<noteq> d" if "unat (a - d) < Suc n"
      proof -
        have "unat (s + (a - d)) \<noteq> unat d" using unat_offset [OF Suc.prems(2) that] lt by linarith
        then show ?thesis by metis
      qed
      then show ?thesis using ih p ad by (auto simp: algebra_simps)
    qed
  qed (auto simp: unat_eq_zero)
qed simp

lemma copy_down_exact:
  assumes "s \<le> d" "unat d + n \<le> 2 ^ 64"
  shows "copy_down n (d + of_nat n - 1) (s + of_nat n - 1) m a = (if unat (a - d) < n then m (s + (a - d)) else m a)"
  using assms(2)
proof (induction n arbitrary: m)
  case (Suc n)
  let ?m = "m(d + of_nat n := m (s + of_nat n))"
  have n: "unat (of_nat n :: u64) = n" using Suc.prems by (simp add: unat_of_nat take_bit_nat_eq_self)
  have le: "unat s \<le> unat d" using assms(1) by (simp add: word_le_nat_alt)
  have dn: "unat (d + of_nat n) = unat d + n" using unat_offset [OF Suc.prems, of "of_nat n"] n by simp
  have ih: "copy_down n (d + of_nat n - 1) (s + of_nat n - 1) ?m a = (if unat (a - d) < n then ?m (s + (a - d)) else ?m a)"
    by (rule Suc.IH) (use Suc.prems in simp)
  have "s + (a - d) \<noteq> d + of_nat n" if "unat (a - d) < n"
  proof -
    have "unat s + n \<le> 2 ^ 64" using le Suc.prems by simp
    then have "unat (s + (a - d)) \<noteq> unat (d + of_nat n)" using unat_offset [of s n "a - d"] that le dn by linarith
    then show ?thesis by metis
  qed
  moreover have "a = d + of_nat n \<longleftrightarrow> unat (a - d) = n"
  proof
    assume "unat (a - d) = n"
    then have "a - d = of_nat n" using n by (simp add: u64_eq_iff_unat)
    then show "a = d + of_nat n" by (simp add: algebra_simps)
  qed (use n in simp)
  moreover have "copy_down (Suc n) (d + of_nat (Suc n) - 1) (s + of_nat (Suc n) - 1) m a = copy_down n (d + of_nat n - 1) (s + of_nat n - 1) ?m a"
    by (simp add: algebra_simps)
  ultimately show ?case using ih by (auto simp: less_Suc_eq)
qed simp

text \<open>
  Claim C28. \<^verbatim>\<open>memmove\<close> copies correctly however the two ranges overlap: afterwards every byte of the destination
  is the byte that was at its place in the source before the call, every other byte is unchanged, and the
  destination is returned.
\<close>

theorem memmove_exact:
  assumes "unat dest + unat len \<le> 2 ^ 64" "unat src + unat len \<le> 2 ^ 64"
  shows "memmove dest src len m = (\<lambda>a. if a - dest < len then m (src + (a - dest)) else m a, dest)"
proof (cases "dest < src")
  case True
  then show ?thesis using copy_up_exact [OF True assms(2)] by (auto simp: memmove_def word_less_nat_alt)
next
  case False
  then have "src \<le> dest" by simp
  have e: "p + of_nat (unat len) - 1 = p + (len - 1)" for p :: u64 by (simp add: add_diff_eq)
  have "copy_down (unat len) (dest + (len - 1)) (src + (len - 1)) m a =
      (if unat (a - dest) < unat len then m (src + (a - dest)) else m a)" for a
    using copy_down_exact [OF \<open>src \<le> dest\<close> assms(1), of m a] unfolding e .
  then show ?thesis using False by (auto simp: memmove_def word_less_nat_alt)
qed

theorem memmove_exact_witness: "fst (memmove 0x1002 0x1000 4 (\<lambda>a. ucast a)) 0x1005 = (3 :: u8)"
  by (subst memmove_exact) simp_all

section \<open>Comparing strings\<close>

primrec cstr :: "bytes \<Rightarrow> u64 \<Rightarrow> u8 list \<Rightarrow> bool" where
  "cstr m p [] \<longleftrightarrow> m p = 0"
| "cstr m p (x # xs) \<longleftrightarrow> m p = x \<and> x \<noteq> 0 \<and> cstr m (p + 1) xs"

lemma strlen_ok: "cstr m p xs \<Longrightarrow> strlen p m = Some (of_nat (length xs))"
proof -
  have "cstr m p xs \<Longrightarrow> strlen_loop p m = Some (p + of_nat (length xs))" for p
  proof (induction xs arbitrary: p)
    case Nil
    then show ?case by (subst strlen_loop.simps) simp
  next
    case (Cons x xs)
    then show ?case by (subst strlen_loop.simps) (simp add: add.assoc)
  qed
  then show "cstr m p xs \<Longrightarrow> ?thesis" by (simp add: strlen_def)
qed

lemma strcmp_ok:
  "cstr m a xs \<Longrightarrow> cstr m b ys \<Longrightarrow> \<exists>r. strcmp a b m = Some r \<and> (r = 0 \<longleftrightarrow> xs = ys) \<and> (r < 0 \<longleftrightarrow> (xs, ys) \<in> lexord {(x, y). x < y})"
proof (induction xs arbitrary: a b ys)
  case Nil
  then have "strcmp a b m = Some (uint (m a) - uint (m b))" by (subst strcmp.simps) simp
  then show ?case using Nil by (cases ys) (auto simp: word_less_def word_neq_0_conv)
next
  case (Cons x xs)
  show ?case
  proof (cases "\<exists>zs. ys = x # zs")
    case True
    then obtain zs where ys: "ys = x # zs" by blast
    have "strcmp a b m = strcmp (a + 1) (b + 1) m" using Cons.prems ys by (subst strcmp.simps) simp
    then show ?thesis using Cons.IH [of "a + 1" "b + 1" zs] Cons.prems ys by simp
  next
    case False
    then have ne: "m a \<noteq> m b" using Cons.prems by (cases ys) auto
    then have "strcmp a b m = Some (uint (m a) - uint (m b))" by (subst strcmp.simps) simp
    then show ?thesis using Cons.prems ne by (cases ys) (auto simp: word_less_def word_uint_eq_iff)
  qed
qed

text \<open>
  \<^verbatim>\<open>strchr\<close> of a character that the string does not hold reads on behind the end of the string: for the
  string with the one character \<open>a\<close> followed in memory by \<open>b\<close> it finds that \<open>b\<close>.
\<close>

lemma strchr_behind_end:
  "m 0 = 97 \<Longrightarrow> m 1 = 0 \<Longrightarrow> m 2 = 98 \<Longrightarrow> cstr m 0 [97] \<and> strchr 0 98 m = Some 2" for m :: bytes
  by (simp add: strchr_def strchrnul_def strchrnul_loop.simps)

section \<open>Parsing numbers\<close>

text \<open>A decimal string and the number that its digits denote.\<close>

definition dec_char :: "nat \<Rightarrow> u8" where "dec_char d = 48 + of_nat d"

definition dec_value :: "nat \<Rightarrow> nat list \<Rightarrow> nat" where "dec_value a ds = foldl (\<lambda>a d. 10 * a + d) a ds"

lemma dec_value_simps [simp]: "dec_value a [] = a" "dec_value a (d # ds) = dec_value (10 * a + d) ds"
  by (simp_all add: dec_value_def)

lemma dec_value_ge: "a \<le> dec_value a ds"
proof (induction ds arbitrary: a)
  case (Cons d ds)
  show ?case using Cons [of "10 * a + d"] by simp
qed simp

lemma dec_char_digit:
  assumes "d < 10"
  shows "digit_value (ucast (dec_char d)) = Some (of_nat d)" "sint (of_nat d :: u32) = int d" "scast (of_nat d :: u32) = (of_nat d :: u64)"
    "dec_char d \<noteq> 0" "\<not> isspace (ucast (dec_char d))" "ucast (dec_char d) \<noteq> (45 :: u32)" "ucast (dec_char d) \<noteq> (43 :: u32)"
proof -
  have "d = 0 \<or> d = 1 \<or> d = 2 \<or> d = 3 \<or> d = 4 \<or> d = 5 \<or> d = 6 \<or> d = 7 \<or> d = 8 \<or> d = 9" using assms by arith
  then show "digit_value (ucast (dec_char d)) = Some (of_nat d)" "sint (of_nat d :: u32) = int d" "scast (of_nat d :: u32) = (of_nat d :: u64)"
    "dec_char d \<noteq> 0" "\<not> isspace (ucast (dec_char d))" "ucast (dec_char d) \<noteq> (45 :: u32)" "ucast (dec_char d) \<noteq> (43 :: u32)"
    by (elim disjE; simp add: dec_char_def digit_value_def isdigit_def isspace_def)+
qed

lemma digit_value_end: "digit_value 0 = None"
  by (simp add: digit_value_def isdigit_def isalpha_def)

text \<open>The limits for base 10: the test of the parser is the overflow of the next step.\<close>

lemma decimal_limit:
  assumes "a < 2 ^ 64" "d < 10"
  shows "((of_nat a :: u64) > - 1 div 10 \<or> of_nat a = - 1 div (10 :: u64) \<and> sint (of_nat d :: u32) > sint (ucast (- 1 mod 10 :: u64) :: u32)) \<longleftrightarrow> 2 ^ 64 \<le> 10 * a + d"
proof -
  have a: "unat (of_nat a :: u64) = a" using assms(1) by (simp add: unat_of_nat take_bit_nat_eq_self)
  have l: "(- 1 div 10 :: u64) = 1844674407370955161" "(- 1 mod 10 :: u64) = 5" by simp_all
  show ?thesis unfolding l word_less_nat_alt u64_eq_iff_unat a using dec_char_digit(2) [OF assms(2)] assms(2) by simp linarith
qed

lemma strtoul_loop_digits:
  assumes "cstr m p (map dec_char ds)" "\<forall>d \<in> set ds. d < 10" "a < 2 ^ 64"
  shows "strtoul_loop 10 (- 1 div 10) (ucast (- 1 mod 10 :: u64)) (- 1) (- 1) (p + 1) (ucast (m p)) m = Some (- 1, - 1, p + of_nat (length ds) + 1)"
    "0 \<le> any \<Longrightarrow> strtoul_loop 10 (- 1 div 10) (ucast (- 1 mod 10 :: u64)) (of_nat a) any (p + 1) (ucast (m p)) m =
      Some (if dec_value a ds < 2 ^ 64 then (of_nat (dec_value a ds), if ds = [] then any else 1, p + of_nat (length ds) + 1)
            else (- 1, - 1, p + of_nat (length ds) + 1))"
proof -
  let ?l = "strtoul_loop 10 (- 1 div 10) (ucast (- 1 mod 10 :: u64))"
  have sat: "?l (- 1) (- 1) (p + 1) (ucast (m p)) m = Some (- 1, - 1, p + of_nat (length ds) + 1)"
    if "cstr m p (map dec_char ds)" "\<forall>d \<in> set ds. d < 10" for p ds
    using that
  proof (induction ds arbitrary: p)
    case Nil
    then show ?case by (subst strtoul_loop.simps) (simp add: digit_value_end)
  next
    case (Cons d ds)
    have d: "d < 10" using Cons.prems(2) by simp
    have "?l (- 1) (- 1) (p + 1) (ucast (m p)) m = ?l (- 1) (- 1) (p + 1 + 1) (ucast (m (p + 1))) m"
      using Cons.prems(1) dec_char_digit [OF d] d by (subst strtoul_loop.simps) simp
    then show ?case using Cons.IH [of "p + 1"] Cons.prems by (simp add: algebra_simps)
  qed
  from sat [OF assms(1,2)] show "?l (- 1) (- 1) (p + 1) (ucast (m p)) m = Some (- 1, - 1, p + of_nat (length ds) + 1)" .
  show "?l (of_nat a) any (p + 1) (ucast (m p)) m =
      Some (if dec_value a ds < 2 ^ 64 then (of_nat (dec_value a ds), if ds = [] then any else 1, p + of_nat (length ds) + 1)
            else (- 1, - 1, p + of_nat (length ds) + 1))" if "0 \<le> any"
    using assms that
  proof (induction ds arbitrary: p a any)
    case Nil
    then show ?case by (subst strtoul_loop.simps) (simp add: digit_value_end)
  next
    case (Cons d ds)
    have d: "d < 10" using Cons.prems(2) by simp
    have c: "m p = dec_char d" "cstr m (p + 1) (map dec_char ds)" "\<forall>d \<in> set ds. d < 10" using Cons.prems by simp_all
    have step: "?l (of_nat a) any (p + 1) (ucast (m p)) m =
        (if 2 ^ 64 \<le> 10 * a + d then ?l (- 1) (- 1) (p + 1 + 1) (ucast (m (p + 1))) m
         else ?l (of_nat (10 * a + d)) 1 (p + 1 + 1) (ucast (m (p + 1))) m)"
    proof -
      have "of_nat a * 10 + scast (of_nat d :: u32) = (of_nat (10 * a + d) :: u64)" using dec_char_digit(3) [OF d] by simp
      moreover have "\<not> sint (of_nat d :: u32) \<ge> sint (10 :: u64)" using dec_char_digit(2) [OF d] d by simp
      ultimately show ?thesis
        using Cons.prems(4) dec_char_digit(1) [OF d] decimal_limit [OF Cons.prems(3) d] c(1)
        by (subst strtoul_loop.simps) (simp del: of_nat_add of_nat_mult)
    qed
    show ?case
    proof (cases "2 ^ 64 \<le> 10 * a + d")
      case True
      then have "\<not> dec_value (10 * a + d) ds < 2 ^ 64" using dec_value_ge [of "10 * a + d" ds] by linarith
      then show ?thesis using step True sat [OF c(2,3)] by (simp add: algebra_simps)
    next
      case False
      then have "10 * a + d < 2 ^ 64" by simp
      from Cons.IH [OF c(2,3) this, of 1] show ?thesis using step False by (simp add: algebra_simps)
    qed
  qed
qed

text \<open>
  \<^verbatim>\<open>strtoul\<close> reads back decimal numbers: for a string of decimal digits it returns the number that they denote
  when it fits 64 bits and the largest number otherwise, and stops at the end of the string; a minus sign in
  front negates a number that fits.
\<close>

lemma strtoul_decimal:
  assumes "cstr m p (map dec_char ds)" "\<forall>d \<in> set ds. d < 10"
  shows "strtoul p 10 m = Some (if dec_value 0 ds < 2 ^ 64 then of_nat (dec_value 0 ds) else - 1, p + of_nat (length ds))"
proof -
  have c: "\<not> isspace (ucast (m p))" "ucast (m p) \<noteq> (45 :: u32)" "ucast (m p) \<noteq> (43 :: u32)"
    using assms dec_char_digit(5-7) by (cases ds; simp add: isspace_def)+
  then have "skip_space p m = Some (p + 1, ucast (m p))" by (subst skip_space.simps) (simp add: Let_def)
  then show ?thesis
    using c strtoul_loop_digits(2) [OF assms, of 0 0] by (cases ds) (simp_all add: strtoul_def Let_def)
qed

lemma strtoul_negative:
  assumes "cstr m p (45 # map dec_char ds)" "ds \<noteq> []" "\<forall>d \<in> set ds. d < 10" "dec_value 0 ds < 2 ^ 64"
  shows "strtoul p 10 m = Some (- of_nat (dec_value 0 ds), p + of_nat (length ds) + 1)"
proof -
  have c: "m p = 45" "cstr m (p + 1) (map dec_char ds)" using assms(1) by simp_all
  then have "skip_space p m = Some (p + 1, 45)" by (subst skip_space.simps) (simp add: Let_def isspace_def)
  then show ?thesis
    using strtoul_loop_digits(2) [OF c(2) assms(3), of 0 0] assms(2,4) by (simp add: strtoul_def Let_def)
qed

end
