(* ===== verification/Printf.thy ===== *)
theory Printf
  imports CString
begin

text \<open>
  Formatted output (\<^verbatim>\<open>kernel/debug/printf.c\<close>). The format and the string arguments are lists of the characters
  before the terminating zero, the other arguments a list of tagged values, the buffer a map from offsets to
  bytes: the code writes to the buffer without regard to its size and looks at the size only between two
  characters of the format.

  Two places increment the pointer to the count instead of the count: \<^verbatim>\<open>print_string\<close> after a line feed, and
  \<^verbatim>\<open>print_double\<close> after every digit of the integral part. A later use of that pointer reads memory the function
  does not own; such a call has no result here (\<open>None\<close>).
\<close>

datatype va_arg = VInt u32 | VLong u64 | VStr "u8 list option" | VDouble

type_synonym out = "bytes \<times> usize"

definition put_char :: "u8 \<Rightarrow> out \<Rightarrow> out" where
  "put_char c b = ((fst b)(snd b := c), snd b + 1)"

section \<open>Numbers\<close>

definition digits :: "u8 list" where
  "digits = [48, 49, 50, 51, 52, 53, 54, 55, 56, 57, 65, 66, 67, 68, 69, 70]"

text \<open>The loop of \<^verbatim>\<open>_print_int\<close>: the digits, least significant first.\<close>

partial_function (option) print_digits :: "u64 \<Rightarrow> u64 \<Rightarrow> u8 list option" where
  "print_digits base xx = do {
     ASSERT (unat (xx mod base) < length digits);
     ds \<leftarrow> (if xx div base \<noteq> 0 then print_digits base (xx div base) else Some []);
     Some (digits ! unat (xx mod base) # ds)
   }"

definition print_int_rev :: "u64 \<Rightarrow> u8 \<Rightarrow> bool \<Rightarrow> u8 list option" where
  "print_int_rev x base sign =
     (let is_negative = sign \<and> x <s 0;
          xx = (if is_negative then - x else x)
      in do {
        ds \<leftarrow> print_digits (ucast base) xx;
        Some (if is_negative then ds @ [45] else ds)
      })"

text \<open>\<^verbatim>\<open>print_int\<close>: at most 32 characters fit its buffer.\<close>

definition print_int :: "u64 \<Rightarrow> u8 \<Rightarrow> bool \<Rightarrow> out \<Rightarrow> out option" where
  "print_int x base sign b = do {
     buf \<leftarrow> print_int_rev x base sign;
     ASSERT (length buf \<le> 32);
     Some (fold put_char (rev buf) b)
   }"

section \<open>Strings and formats\<close>

fun print_string :: "u8 list \<Rightarrow> out \<Rightarrow> out option" where
  "print_string [] b = Some b"
| "print_string (c # s) b =
     (let b = put_char c b in
      if c = 10 then (if s = [] then Some ((fst b)(snd b := 13), snd b) else None)
      else print_string s b)"

text \<open>One conversion: the character behind the percent sign and the arguments left.\<close>

definition print_format :: "u8 \<Rightarrow> va_arg list \<Rightarrow> out \<Rightarrow> (va_arg list \<times> out) option" where
  "print_format ch ap b =
     (if ch = 100 then (case ap of VInt v # ap \<Rightarrow> map_option (Pair ap) (print_int (scast v) 10 True b) | _ \<Rightarrow> None)
      else if ch = 120 then (case ap of VLong v # ap \<Rightarrow> map_option (Pair ap) (print_int v 16 False b) | _ \<Rightarrow> None)
      else if ch = 102 then None
      else if ch = 112 then (case ap of VLong v # ap \<Rightarrow>
        map_option (Pair ap) (print_int v 16 False (put_char 120 (put_char 48 b))) | _ \<Rightarrow> None)
      else if ch = 115 then (case ap of VStr s # ap \<Rightarrow>
        map_option (Pair ap) (print_string (case s of None \<Rightarrow> [110, 117, 108, 108] | Some s \<Rightarrow> s) b) | _ \<Rightarrow> None)
      else if ch = 99 then (case ap of VInt v # ap \<Rightarrow> Some (ap, put_char (ucast v) b) | _ \<Rightarrow> None)
      else if ch = 98 then (case ap of VInt v # ap \<Rightarrow>
        map_option (Pair ap) (print_string (if v \<noteq> 0 then [116, 114, 117, 101] else [102, 97, 108, 115, 101]) b) | _ \<Rightarrow> None)
      else if ch = 37 then Some (ap, put_char 37 b)
      else Some (ap, put_char ch (put_char 37 b)))"

text \<open>The loop of \<^verbatim>\<open>__vsnprintf\<close>; \<open>spec\<close> is \<^verbatim>\<open>state_format_specifier\<close>.\<close>

fun vsnprintf_loop :: "usize \<Rightarrow> u8 list \<Rightarrow> bool \<Rightarrow> va_arg list \<Rightarrow> out \<Rightarrow> (bytes \<times> usize) option" where
  "vsnprintf_loop buf_size [] spec ap b = Some b"
| "vsnprintf_loop buf_size (ch # fmt) spec ap b =
     (if snd b > buf_size then Some (fst b, 0)
      else if \<not> spec then
        (if ch = 37 then vsnprintf_loop buf_size fmt True ap b
         else let b = put_char ch b in
           vsnprintf_loop buf_size fmt False ap (if ch = 10 then put_char 13 b else b))
      else do {
        (ap, b) \<leftarrow> print_format ch ap b;
        vsnprintf_loop buf_size fmt False ap b
      })"

definition vsnprintf :: "bytes \<Rightarrow> usize \<Rightarrow> u8 list \<Rightarrow> va_arg list \<Rightarrow> (bytes \<times> usize) option" where
  "vsnprintf buffer buf_size fmt ap = vsnprintf_loop buf_size fmt False ap (buffer, 0)"

section \<open>Decimal numbers\<close>

fun dec_digits :: "nat \<Rightarrow> nat list" where
  "dec_digits n = (if n < 10 then [n] else dec_digits (n div 10) @ [n mod 10])"

declare dec_digits.simps [simp del]

lemma dec_value_append: "dec_value a (xs @ [d]) = 10 * dec_value a xs + d"
  by (simp add: dec_value_def)

lemma dec_digits_value: "dec_value 0 (dec_digits n) = n" "\<forall>d \<in> set (dec_digits n). d < 10" "dec_digits n \<noteq> []"
  by (induction n rule: dec_digits.induct; subst dec_digits.simps; simp add: dec_value_append)+

lemma dec_digits_length: "n < 10 ^ k \<Longrightarrow> 0 < k \<Longrightarrow> length (dec_digits n) \<le> k"
proof (induction n arbitrary: k rule: dec_digits.induct)
  case (1 n)
  show ?case
  proof (cases "n < 10")
    case False
    then obtain j where k: "k = Suc j" "0 < j" using 1 by (cases k; cases "k - 1") auto
    have "n div 10 < 10 ^ j" using 1(2) k(1) by (simp add: less_mult_imp_div_less)
    then have "length (dec_digits (n div 10)) \<le> j" using 1(1) [OF False] k(2) by blast
    then show ?thesis using False k(1) by (subst dec_digits.simps) simp
  qed (use 1 in \<open>subst dec_digits.simps, simp\<close>)
qed

lemma dec_digits_u64: "length (dec_digits (unat y)) \<le> 20" for y :: u64
proof (rule dec_digits_length)
  show "unat y < 10 ^ 20" by (rule order_less_trans [OF unat_u64_less]) simp
qed simp

lemma digit_char: "k < 10 \<Longrightarrow> digits ! k = dec_char k"
proof -
  assume "k < 10"
  then have "k = 0 \<or> k = 1 \<or> k = 2 \<or> k = 3 \<or> k = 4 \<or> k = 5 \<or> k = 6 \<or> k = 7 \<or> k = 8 \<or> k = 9" by arith
  then show ?thesis by (elim disjE) (simp_all add: digits_def dec_char_def)
qed

lemma print_digits_dec: "unat xx = n \<Longrightarrow> print_digits 10 xx = Some (rev (map dec_char (dec_digits n)))"
proof (induction n arbitrary: xx rule: dec_digits.induct)
  case (1 n)
  have u: "unat (xx mod 10) = n mod 10" "unat (xx div 10) = n div 10" using 1(2) by (simp_all add: unat_mod unat_div)
  have z: "xx div 10 \<noteq> 0 \<longleftrightarrow> \<not> n < 10" using u(2) by (simp add: u64_eq_iff_unat) linarith
  show ?case
  proof (cases "n < 10")
    case True
    then show ?thesis using u z digit_char [of n] by (subst print_digits.simps, subst dec_digits.simps) (simp add: digits_def ASSERT_def)
  next
    case False
    then show ?thesis using 1(1) [OF False u(2)] u z digit_char [of "n mod 10"]
      by (subst print_digits.simps, subst dec_digits.simps) (simp add: digits_def ASSERT_def)
  qed
qed

text \<open>The characters of a signed number.\<close>

definition dec_string :: "u64 \<Rightarrow> u8 list" where
  "dec_string x = (if x <s 0 then 45 # map dec_char (dec_digits (unat (- x))) else map dec_char (dec_digits (unat x)))"

lemma print_int_dec: "print_int x 10 True b = Some (fold put_char (dec_string x) b)"
proof -
  note l = dec_digits_u64
  show ?thesis using l [of x] l [of "- x"] print_digits_dec [OF refl, of x] print_digits_dec [OF refl, of "- x"]
    by (simp add: print_int_def print_int_rev_def dec_string_def Let_def ASSERT_def)
qed

lemma fold_put:
  "length s < 2 ^ 64 \<Longrightarrow> fold put_char s (m, p) = (\<lambda>a. if unat (a - p) < length s then s ! unat (a - p) else m a, p + of_nat (length s))"
proof (induction s arbitrary: m p)
  case (Cons c s)
  have "fold put_char (c # s) (m, p) = fold put_char s (m(p := c), p + 1)" by (simp add: put_char_def)
  also have "\<dots> = (\<lambda>a. if unat (a - (p + 1)) < length s then s ! unat (a - (p + 1)) else (m(p := c)) a, p + 1 + of_nat (length s))"
    by (rule Cons.IH) (use Cons.prems in simp)
  also have "\<dots> = (\<lambda>a. if unat (a - p) < length (c # s) then (c # s) ! unat (a - p) else m a, p + of_nat (length (c # s)))"
  proof -
    have "(if unat (a - (p + 1)) < length s then s ! unat (a - (p + 1)) else (m(p := c)) a) =
        (if unat (a - p) < length (c # s) then (c # s) ! unat (a - p) else m a)" for a
    proof (cases "a = p")
      case True
      then show ?thesis using Cons.prems by simp
    next
      case False
      then show ?thesis using unat_offset_pred [OF False] by simp
    qed
    then show ?thesis by (simp add: add.assoc)
  qed
  finally show ?case .
qed simp

lemma cstr_nth:
  "(\<And>i. i < length xs \<Longrightarrow> m (p + of_nat i) = xs ! i \<and> xs ! i \<noteq> 0) \<Longrightarrow> m (p + of_nat (length xs)) = 0 \<Longrightarrow> cstr m p xs"
proof (induction xs arbitrary: p)
  case (Cons x xs)
  have "cstr m (p + 1) xs"
  proof (rule Cons.IH)
    show "m (p + 1 + of_nat i) = xs ! i \<and> xs ! i \<noteq> 0" if "i < length xs" for i using Cons.prems(1) [of "Suc i"] that by (simp add: add.assoc)
  qed (use Cons.prems(2) in \<open>simp add: add.assoc\<close>)
  then show ?case using Cons.prems(1) [of 0] by simp
qed simp

lemma cstr_put:
  assumes "length s < 2 ^ 64" "0 \<notin> set s" "m (p + of_nat (length s)) = 0" "fold put_char s (m, p) = (m', q)"
  shows "cstr m' p s" "q = p + of_nat (length s)"
  using assms fold_put [OF assms(1), of m p]
  by (auto intro!: cstr_nth simp: unat_of_nat take_bit_nat_eq_self dest: nth_mem)

text \<open>
  Claim C27. Printing and parsing are inverse: for every 32-bit number, printing it with \<^verbatim>\<open>%d\<close> into a cleared
  buffer ends, and \<^verbatim>\<open>strtoul\<close> of that buffer in base 10 gives the number back, as a signed number of 64 bits, and
  stops where the output ends.
\<close>

theorem printf_strtoul_roundtrip:
  "\<exists>buf n. vsnprintf (\<lambda>_. 0) buf_size [37, 100] [VInt v] = Some (buf, n) \<and> strtoul 0 10 buf = Some (scast v, n)"
proof -
  let ?x = "scast v :: u64" let ?s = "dec_string ?x"
  obtain buf n where b: "fold put_char ?s (\<lambda>_. 0, 0) = (buf, n)" by fastforce
  have "vsnprintf (\<lambda>_. 0) buf_size [37, 100] [VInt v] = Some (buf, n)"
    by (simp add: vsnprintf_def print_format_def print_int_dec b)
  moreover have "strtoul 0 10 buf = Some (?x, n)"
  proof -
    have s: "length ?s < 2 ^ 64" "0 \<notin> set ?s"
      using dec_digits_u64 [of ?x] dec_digits_u64 [of "- ?x"] dec_digits_value(2) [of "unat ?x"] dec_digits_value(2) [of "unat (- ?x)"] dec_char_digit(4)
      by (auto simp: dec_string_def)
    note c = cstr_put [OF s _ b]
    show ?thesis
    proof (cases "?x <s 0")
      case True
      then have "cstr buf 0 (45 # map dec_char (dec_digits (unat (- ?x))))" "n = of_nat (length (dec_digits (unat (- ?x)))) + 1"
        using c by (simp_all add: dec_string_def)
      then show ?thesis using strtoul_negative [of buf 0 "dec_digits (unat (- ?x))"] dec_digits_value [of "unat (- ?x)"] by simp
    next
      case False
      then have "cstr buf 0 (map dec_char (dec_digits (unat ?x)))" "n = of_nat (length (dec_digits (unat ?x)))"
        using c by (simp_all add: dec_string_def)
      then show ?thesis using strtoul_decimal [of buf 0 "dec_digits (unat ?x)"] dec_digits_value [of "unat ?x"] by simp
    qed
  qed
  ultimately show ?thesis by blast
qed

end
