(* ===== verification/LinkedList.thy ===== *)
theory LinkedList
  imports IntrusiveList
begin

text \<open>
  The generic doubly linked list of \<^verbatim>\<open>lib/ds/linkedlist.c\<close>, whose nodes come from the kernel heap.

  The nodes are a store from their addresses; a null pointer to a node is \<open>None\<close>, data are addresses. The heap
  is an argument: its state, and \<open>kalloc\<close> and \<open>kfree\<close>. The code does not check what \<^verbatim>\<open>kalloc\<close> returns, so
  a failed allocation is a write through an error pointer, which faults.
\<close>

section \<open>The linked list\<close>

record Node =
  n_data :: u64
  n_next :: "u64 option"
  n_prev :: "u64 option"

record LinkedList =
  ll_head :: "u64 option"
  ll_tail :: "u64 option"
  ll_count :: usize

type_synonym nodes = "u64 \<Rightarrow> Node"
type_synonym 'h kalloc_op = "'h \<Rightarrow> usize \<Rightarrow> ('h \<times> u64) option"
type_synonym 'h kfree_op = "'h \<Rightarrow> u64 \<Rightarrow> 'h option"

abbreviation sizeof_Node :: usize where "sizeof_Node \<equiv> 24"

definition set_n_next :: "u64 \<Rightarrow> u64 option \<Rightarrow> nodes \<Rightarrow> nodes" where
  "set_n_next p v ns = ns(p := (ns p)\<lparr>n_next := v\<rparr>)"

definition set_n_prev :: "u64 \<Rightarrow> u64 option \<Rightarrow> nodes \<Rightarrow> nodes" where
  "set_n_prev p v ns = ns(p := (ns p)\<lparr>n_prev := v\<rparr>)"

text \<open>The links of the nodes, as those of an intrusive list; \<^verbatim>\<open>linkedlist_foreach\<close> follows them.\<close>

definition node_links :: "nodes \<Rightarrow> u64 inodes" where
  "node_links ns = (\<lambda>p. \<lparr>inext = n_next (ns p), iprev = n_prev (ns p)\<rparr>)"

text \<open>A fresh node; the first write to it faults when the allocation failed.\<close>

definition alloc_node :: "'h kalloc_op \<Rightarrow> 'h \<Rightarrow> ('h \<times> u64) option" where
  "alloc_node kalloc h = do {
     (h, node) \<leftarrow> kalloc h sizeof_Node;
     ASSERT (\<not> IS_ERR node);
     Some (h, node)
   }"

definition linkedlist_init :: LinkedList where
  "linkedlist_init = \<lparr>ll_head = None, ll_tail = None, ll_count = 0\<rparr>"

definition linkedlist_count :: "LinkedList \<Rightarrow> usize" where
  "linkedlist_count ll = ll_count ll"

definition linkedlist_insert_head ::
  "'h kalloc_op \<Rightarrow> LinkedList \<Rightarrow> u64 \<Rightarrow> nodes \<Rightarrow> 'h \<Rightarrow> (LinkedList \<times> nodes \<times> 'h) option" where
  "linkedlist_insert_head kalloc ll data ns h = do {
     (h, node) \<leftarrow> alloc_node kalloc h;
     let ns = ns(node := \<lparr>n_data = data, n_next = ll_head ll, n_prev = None\<rparr>);
     let (ll, ns) = (case ll_head ll of
         Some old \<Rightarrow> (ll, set_n_prev old (Some node) ns)
       | None \<Rightarrow> (ll\<lparr>ll_tail := Some node\<rparr>, ns));
     Some (ll\<lparr>ll_head := Some node, ll_count := ll_count ll + 1\<rparr>, ns, h)
   }"

definition linkedlist_insert_tail ::
  "'h kalloc_op \<Rightarrow> LinkedList \<Rightarrow> u64 \<Rightarrow> nodes \<Rightarrow> 'h \<Rightarrow> (LinkedList \<times> nodes \<times> 'h) option" where
  "linkedlist_insert_tail kalloc ll data ns h = do {
     (h, node) \<leftarrow> alloc_node kalloc h;
     let ns = ns(node := \<lparr>n_data = data, n_next = None, n_prev = ll_tail ll\<rparr>);
     let (ll, ns) = (case ll_tail ll of
         Some old \<Rightarrow> (ll, set_n_next old (Some node) ns)
       | None \<Rightarrow> (ll\<lparr>ll_head := Some node\<rparr>, ns));
     Some (ll\<lparr>ll_tail := Some node, ll_count := ll_count ll + 1\<rparr>, ns, h)
   }"

text \<open>The loop of \<^verbatim>\<open>linkedlist_insert_at\<close>: the node it stops at, if any, and the value of \<^verbatim>\<open>counting\<close>.\<close>

definition ll_walk :: "nodes \<Rightarrow> usize \<Rightarrow> usize \<Rightarrow> u64 option \<Rightarrow> (u64 option \<times> usize) option" where
  "ll_walk ns index counting p = il_walk (node_links ns) index counting p"

definition linkedlist_insert_at ::
  "'h kalloc_op \<Rightarrow> LinkedList \<Rightarrow> u64 \<Rightarrow> usize \<Rightarrow> nodes \<Rightarrow> 'h \<Rightarrow> (LinkedList \<times> nodes \<times> 'h \<times> bool) option" where
  "linkedlist_insert_at kalloc ll data index ns h =
     (if index = 0 then map_option (\<lambda>(ll, ns, h). (ll, ns, h, True)) (linkedlist_insert_head kalloc ll data ns h)
      else if index = ll_count ll then map_option (\<lambda>(ll, ns, h). (ll, ns, h, True)) (linkedlist_insert_tail kalloc ll data ns h)
      else if ll_count ll < index then Some (ll, ns, h, False)
      else do {
        (stop, counting) \<leftarrow> ll_walk ns index 0 (ll_head ll);
        (ll, ns, h) \<leftarrow> (case stop of
            None \<Rightarrow> Some (ll, ns, h)
          | Some existing \<Rightarrow> do {
              (h, new_node) \<leftarrow> alloc_node kalloc h;
              let ns = set_n_next new_node (Some existing) ns;
              let was_prev = n_prev (ns existing);
              let ns = set_n_prev existing (Some new_node) ns;
              let ns = set_n_prev new_node was_prev ns;
              prev \<leftarrow> was_prev;
              let ns = set_n_next prev (Some new_node) ns;
              let ns = ns(new_node := (ns new_node)\<lparr>n_data := data\<rparr>);
              Some (ll\<lparr>ll_count := ll_count ll + 1\<rparr>, ns, h)
            });
        Some (ll, ns, h, counting = index)
      })"

text \<open>The result of a removal is the data, 0 for an empty list.\<close>

definition linkedlist_remove_head ::
  "'h kfree_op \<Rightarrow> LinkedList \<Rightarrow> nodes \<Rightarrow> 'h \<Rightarrow> (LinkedList \<times> nodes \<times> 'h \<times> u64) option" where
  "linkedlist_remove_head kfree ll ns h =
     (case ll_head ll of
        None \<Rightarrow> Some (ll, ns, h, 0)
      | Some current_head \<Rightarrow> do {
          let ll = ll\<lparr>ll_head := n_next (ns current_head)\<rparr>;
          let (ll, ns) = (case ll_head ll of
              Some p \<Rightarrow> (ll, set_n_prev p None ns)
            | None \<Rightarrow> (ll\<lparr>ll_tail := None\<rparr>, ns));
          let data = n_data (ns current_head);
          h \<leftarrow> kfree h current_head;
          Some (ll\<lparr>ll_count := ll_count ll - 1\<rparr>, ns, h, data)
        })"

definition linkedlist_remove_tail ::
  "'h kfree_op \<Rightarrow> LinkedList \<Rightarrow> nodes \<Rightarrow> 'h \<Rightarrow> (LinkedList \<times> nodes \<times> 'h \<times> u64) option" where
  "linkedlist_remove_tail kfree ll ns h = do {
     current_tail \<leftarrow> ll_tail ll;
     let ll = ll\<lparr>ll_tail := n_prev (ns current_tail)\<rparr>;
     let (ll, ns) = (case ll_tail ll of
         Some p \<Rightarrow> (ll, set_n_next p None ns)
       | None \<Rightarrow> (ll\<lparr>ll_head := None\<rparr>, ns));
     let data = n_data (ns current_tail);
     h \<leftarrow> kfree h current_tail;
     Some (ll\<lparr>ll_count := ll_count ll - 1\<rparr>, ns, h, data)
   }"

text \<open>The loop of \<^verbatim>\<open>linkedlist_remove\<close>: the first node with the data.\<close>

definition ll_find :: "nodes \<Rightarrow> u64 \<Rightarrow> u64 option \<Rightarrow> u64 option option" where
  "ll_find ns data p = il_find (node_links ns) (\<lambda>node. n_data (ns node) = data) p"

definition linkedlist_remove ::
  "'h kfree_op \<Rightarrow> LinkedList \<Rightarrow> u64 \<Rightarrow> nodes \<Rightarrow> 'h \<Rightarrow> (LinkedList \<times> nodes \<times> 'h \<times> bool) option" where
  "linkedlist_remove kfree ll data ns h = do {
     found \<leftarrow> ll_find ns data (ll_head ll);
     case found of
       None \<Rightarrow> Some (ll, ns, h, False)
     | Some node \<Rightarrow> do {
         let (ll, ns) = (case n_prev (ns node) of
             Some p \<Rightarrow> (ll, set_n_next p (n_next (ns node)) ns)
           | None \<Rightarrow> (ll\<lparr>ll_head := n_next (ns node)\<rparr>, ns));
         let (ll, ns) = (case n_next (ns node) of
             Some p \<Rightarrow> (ll, set_n_prev p (n_prev (ns node)) ns)
           | None \<Rightarrow> (ll\<lparr>ll_tail := n_prev (ns node)\<rparr>, ns));
         let ll = ll\<lparr>ll_count := ll_count ll - 1\<rparr>;
         h \<leftarrow> kfree h node;
         Some (ll, ns, h, True)
       }
   }"

definition linkedlist_peek_head :: "LinkedList \<Rightarrow> nodes \<Rightarrow> u64" where
  "linkedlist_peek_head ll ns = (case ll_head ll of None \<Rightarrow> 0 | Some p \<Rightarrow> n_data (ns p))"

definition linkedlist_peek_tail :: "LinkedList \<Rightarrow> nodes \<Rightarrow> u64" where
  "linkedlist_peek_tail ll ns = (case ll_tail ll of None \<Rightarrow> 0 | Some p \<Rightarrow> n_data (ns p))"

section \<open>The list as a sequence\<close>

text \<open>
  The links of the nodes are those of an intrusive list whose objects are the nodes, so that the facts on chains of
  nodes apply; \<open>ll_rep ns ll ps ds\<close> adds that the nodes \<open>ps\<close> hold the data \<open>ds\<close>.
\<close>

definition ll_rep :: "nodes \<Rightarrow> LinkedList \<Rightarrow> u64 list \<Rightarrow> u64 list \<Rightarrow> bool" where
  "ll_rep ns ll ps ds \<longleftrightarrow> il_rep (node_links ns) \<lparr>il_head = ll_head ll, il_tail = ll_tail ll, il_count = ll_count ll\<rparr> ps \<and>
     map (\<lambda>p. n_data (ns p)) ps = ds"

lemma node_links_set [simp]:
  "node_links (set_n_next p v ns) = set_next p v (node_links ns)" "node_links (set_n_prev p v ns) = set_prev p v (node_links ns)"
  "node_links (ns(p := x)) = (node_links ns)(p := \<lparr>inext = n_next x, iprev = n_prev x\<rparr>)"
  "inext (node_links ns p) = n_next (ns p)" "iprev (node_links ns p) = n_prev (ns p)"
  by (auto simp: node_links_def set_n_next_def set_n_prev_def set_next_def set_prev_def)

lemma n_fields_set [simp]:
  "n_data (set_n_next p v ns q) = n_data (ns q)" "n_data (set_n_prev p v ns q) = n_data (ns q)"
  "n_next (set_n_next p v ns q) = (if q = p then v else n_next (ns q))" "n_next (set_n_prev p v ns q) = n_next (ns q)"
  "n_prev (set_n_prev p v ns q) = (if q = p then v else n_prev (ns q))" "n_prev (set_n_next p v ns q) = n_prev (ns q)"
  by (auto simp: set_n_next_def set_n_prev_def)

lemma links_fun_upd [simp]: "x \<notin> set xs \<Longrightarrow> links (h(x := v)) p xs n = links h p xs n"
  by (rule links_cong) auto

lemma insert_head_ll:
  assumes "ll_rep ns ll ps ds" "kalloc h sizeof_Node = Some (h', node)" "\<not> IS_ERR node" "node \<notin> set ps" "length ps + 1 < 2 ^ 64"
  shows "\<exists>ll' ns'. linkedlist_insert_head kalloc ll d ns h = Some (ll', ns', h') \<and> ll_rep ns' ll' (node # ps) (d # ds)"
  using assms by (cases ps) (auto simp: ll_rep_def il_rep_def linkedlist_insert_head_def alloc_node_def Let_def ASSERT_def)

lemma insert_tail_ll:
  assumes "ll_rep ns ll ps ds" "kalloc h sizeof_Node = Some (h', node)" "\<not> IS_ERR node" "node \<notin> set ps" "length ps + 1 < 2 ^ 64"
  shows "\<exists>ll' ns'. linkedlist_insert_tail kalloc ll d ns h = Some (ll', ns', h') \<and> ll_rep ns' ll' (ps @ [node]) (ds @ [d])"
  using assms by (cases ps rule: rev_cases) (auto simp: ll_rep_def il_rep_def linkedlist_insert_tail_def alloc_node_def Let_def ASSERT_def)

lemma remove_head_ll:
  assumes "ll_rep ns ll (p # ps) (d # ds)" "kfree h p = Some h'"
  shows "\<exists>ll' ns'. linkedlist_remove_head kfree ll ns h = Some (ll', ns', h', d) \<and> ll_rep ns' ll' ps ds"
  using assms by (cases ps) (auto simp: ll_rep_def il_rep_def linkedlist_remove_head_def Let_def)

lemma remove_tail_ll:
  assumes "ll_rep ns ll (ps @ [p]) (ds @ [d])" "kfree h p = Some h'"
  shows "\<exists>ll' ns'. linkedlist_remove_tail kfree ll ns h = Some (ll', ns', h', d) \<and> ll_rep ns' ll' ps ds"
  using assms by (cases ps rule: rev_cases) (auto simp: ll_rep_def il_rep_def linkedlist_remove_tail_def Let_def)

lemma remove_ll:
  assumes "ll_rep ns ll ps ds" "\<And>p. p \<in> set ps \<Longrightarrow> kfree h p = Some (f p)"
  shows "\<exists>ll' ns' h'. linkedlist_remove kfree ll d ns h = Some (ll', ns', h', d \<in> set ds) \<and>
    (\<exists>ps'. ll_rep ns' ll' ps' (remove1 d ds)) \<and> (d \<notin> set ds \<longrightarrow> h' = h)"
proof -
  have r: "links (node_links ns) None ps None" "ll_head ll = hd_ptr ps" "map (\<lambda>p. n_data (ns p)) ps = ds"
    using assms(1) by (auto simp: ll_rep_def il_rep_def)
  note f = il_find_links [OF r(1), of "\<lambda>p. n_data (ns p) = d"]
  show ?thesis
  proof (cases "d \<in> set ds")
    case False
    then have "dropWhile (\<lambda>p. n_data (ns p) \<noteq> d) ps = []" using r(3) by (auto simp: dropWhile_eq_Nil_conv)
    then have "ll_find ns d (ll_head ll) = Some None" using f r(2) by (simp only: ll_find_def hd_ptr_simps)
    then show ?thesis using False assms(1) by (auto simp: linkedlist_remove_def remove1_idem)
  next
    case True
    then obtain ps1 p ps2 where ps: "ps = ps1 @ p # ps2" "n_data (ns p) = d" "\<forall>q \<in> set ps1. n_data (ns q) \<noteq> d"
      using r(3) split_list_first_prop [of ps "\<lambda>p. n_data (ns p) = d"] by (metis (no_types, lifting) imageE list.set_map)
    have "dropWhile (\<lambda>p. n_data (ns p) \<noteq> d) ps = p # ps2" using ps by (simp add: dropWhile_append2)
    then have ff: "ll_find ns d (ll_head ll) = Some (Some p)" using f r(2) by (simp add: ll_find_def)
    have "d \<notin> (\<lambda>p. n_data (ns p)) ` set ps1" using ps(3) by blast
    then have rm: "remove1 d ds = map (\<lambda>p. n_data (ns p)) (ps1 @ ps2)" using r(3) [symmetric] ps(1,2) by (simp add: remove1_append)
    have "\<exists>ll' ns'. linkedlist_remove kfree ll d ns h = Some (ll', ns', f p, True) \<and> ll_rep ns' ll' (ps1 @ ps2) (map (\<lambda>p. n_data (ns p)) (ps1 @ ps2))"
      using assms(1) assms(2) [of p] ff unfolding ps(1)
      by (cases ps1 rule: rev_cases; cases ps2) (auto simp: ll_rep_def il_rep_def linkedlist_remove_def Let_def)
    then show ?thesis using True rm by auto
  qed
qed

end
