(* ===== verification/Arena.thy ===== *)
theory Arena
  imports KPrelude
begin

text \<open>
  The arena allocator (\<^verbatim>\<open>lib/allocator/arena.c\<close>): a pool from which blocks are taken in order and given back
  all at once. \<^verbatim>\<open>arena_init\<close> leaves the count of a structure as it is, so the arena is empty only if its memory
  was zero.
\<close>

record Arena =
  ar_pool :: u64
  ar_count :: usize
  ar_capacity :: usize

definition arena_init :: "Arena \<Rightarrow> u64 \<Rightarrow> usize \<Rightarrow> Arena" where
  "arena_init arena pool capacity = arena\<lparr>ar_pool := pool, ar_capacity := capacity\<rparr>"

definition arena_left :: "Arena \<Rightarrow> usize" where
  "arena_left arena = ar_capacity arena - ar_count arena"

definition arena_alloc :: "Arena \<Rightarrow> usize \<Rightarrow> Arena \<times> u64" where
  "arena_alloc arena sz =
     (if arena_left arena < sz then (arena, ERR_TO_PTR (- ENOMEM))
      else (arena\<lparr>ar_count := ar_count arena + sz\<rparr>, ar_pool arena + ar_count arena))"

definition arena_count :: "Arena \<Rightarrow> usize" where "arena_count arena = ar_count arena"
definition arena_capacity :: "Arena \<Rightarrow> usize" where "arena_capacity arena = ar_capacity arena"
definition arena_is_full :: "Arena \<Rightarrow> bool" where "arena_is_full arena \<longleftrightarrow> ar_count arena = ar_capacity arena"
definition arena_is_empty :: "Arena \<Rightarrow> bool" where "arena_is_empty arena \<longleftrightarrow> ar_count arena = 0"

definition arena_can_fit :: "Arena \<Rightarrow> usize \<Rightarrow> bool" where
  "arena_can_fit arena sz \<longleftrightarrow> (let left = ar_capacity arena - ar_count arena in left \<ge> sz)"

definition arena_reset :: "Arena \<Rightarrow> Arena" where "arena_reset arena = arena\<lparr>ar_count := 0\<rparr>"
definition arena_base :: "Arena \<Rightarrow> u64" where "arena_base arena = ar_pool arena"

section \<open>Runs of allocations\<close>

definition ar_inv :: "Arena \<Rightarrow> bool" where
  "ar_inv arena \<longleftrightarrow> ar_count arena \<le> ar_capacity arena \<and> unat (ar_pool arena) + unat (ar_capacity arena) \<le> 2 ^ 64"

lemma arena_alloc_ok:
  assumes "ar_inv ar" "arena_can_fit ar sz"
  shows "arena_alloc ar sz = (ar\<lparr>ar_count := ar_count ar + sz\<rparr>, ar_pool ar + ar_count ar)"
    "ar_inv (ar\<lparr>ar_count := ar_count ar + sz\<rparr>)" "unat (ar_count ar + sz) = unat (ar_count ar) + unat sz"
proof -
  have s: "unat (ar_count ar) + unat sz \<le> unat (ar_capacity ar)"
    using assms by (simp add: ar_inv_def arena_can_fit_def Let_def word_le_nat_alt unat_sub_u64) linarith
  then show c: "unat (ar_count ar + sz) = unat (ar_count ar) + unat sz"
    using unat_u64_less [of "ar_capacity ar"] by (intro unat_add_u64) (simp del: unat_u64_less)
  then show "ar_inv (ar\<lparr>ar_count := ar_count ar + sz\<rparr>)" using s assms(1) by (simp add: ar_inv_def word_le_nat_alt)
  show "arena_alloc ar sz = (ar\<lparr>ar_count := ar_count ar + sz\<rparr>, ar_pool ar + ar_count ar)"
    using assms(2) by (simp add: arena_alloc_def arena_left_def arena_can_fit_def leD)
qed

lemma arena_alloc_full: "\<not> arena_can_fit ar sz \<Longrightarrow> arena_alloc ar sz = (ar, ERR_TO_PTR (- ENOMEM))"
  by (simp add: arena_alloc_def arena_left_def arena_can_fit_def not_le)

text \<open>The blocks of a sequence of requests: each request that fits gets the next bytes of the pool.\<close>

fun arena_run :: "Arena \<Rightarrow> usize list \<Rightarrow> Arena \<times> (u64 \<times> usize) list" where
  "arena_run ar [] = (ar, [])"
| "arena_run ar (sz # szs) =
     (if arena_can_fit ar sz
      then let (ar1, p) = arena_alloc ar sz; (ar2, bs) = arena_run ar1 szs in (ar2, (p, sz) # bs)
      else arena_run ar szs)"

lemma arena_run_disjoint:
  assumes "ar_inv ar" "arena_run ar szs = (ar', bs)"
  shows "ar_inv ar' \<and> ar_pool ar' = ar_pool ar \<and> ar_count ar \<le> ar_count ar' \<and>
    sorted_wrt (\<lambda>(p, n) (q, k). unat (p - ar_pool ar) + unat n \<le> unat (q - ar_pool ar)) bs \<and>
    (\<forall>(p, n) \<in> set bs. unat (ar_count ar) \<le> unat (p - ar_pool ar) \<and> unat (p - ar_pool ar) + unat n \<le> unat (ar_count ar'))"
  using assms
proof (induction ar szs arbitrary: ar' bs rule: arena_run.induct)
  case (2 ar sz szs)
  show ?case
  proof (cases "arena_can_fit ar sz")
    case True
    note a = arena_alloc_ok [OF "2.prems"(1) True]
    obtain bs' where r: "arena_run (ar\<lparr>ar_count := ar_count ar + sz\<rparr>) szs = (ar', bs')" "bs = (ar_pool ar + ar_count ar, sz) # bs'"
      using "2.prems"(2) True a(1) by (auto simp: Let_def split: prod.splits)
    note ih = "2.IH"(1) [OF True a(1) [symmetric] refl a(2) r(1)]
    show ?thesis using ih a(3) unfolding r(2) by (fastforce simp: word_le_nat_alt)
  next
    case False
    then show ?thesis using "2.IH"(2) [OF False "2.prems"(1)] "2.prems"(2) by simp
  qed
qed simp

end
