(* ===== verification/Console.thy ===== *)
theory Console
  imports ScopedLock Arena RingBuffer CString
begin

text \<open>
  The console (\<^verbatim>\<open>kernel/io/console.c\<close>, \<^verbatim>\<open>kernel/io/io.h\<close>): output is buffered in two arenas, one for the
  events and one for their messages, and written to every registered backend; input goes through a ring buffer.

  The state has the structure, the bytes of memory, the events stored in the event buffer (by their address), the
  list of backends in memory and the outside world \<open>'w\<close> of the devices. A device is known by its address; the
  operations of the devices are an argument. The messages lie in memory, and so do the static buffers, whose
  addresses are arguments of \<open>console_init\<close>.
\<close>

section \<open>State\<close>

type_synonym IOColor = "u8 \<times> bool"

record IOEvent =
  ev_fg :: IOColor
  ev_bg :: IOColor
  ev_msg :: u64
  ev_len :: usize

definition IO_DEFAULT_COLOR_FG :: IOColor where "IO_DEFAULT_COLOR_FG = (7, True)"
definition IO_DEFAULT_COLOR_BG :: IOColor where "IO_DEFAULT_COLOR_BG = (0, False)"

definition io_event_default :: "u64 \<Rightarrow> usize \<Rightarrow> IOEvent" where
  "io_event_default msg len = \<lparr>ev_fg = IO_DEFAULT_COLOR_FG, ev_bg = IO_DEFAULT_COLOR_BG, ev_msg = msg, ev_len = len\<rparr>"

abbreviation sizeof_IOEvent :: usize where "sizeof_IOEvent \<equiv> 24"
abbreviation IO_EVENT_BUFFER_SIZE :: usize where "IO_EVENT_BUFFER_SIZE \<equiv> 120"
abbreviation IO_EVENT_MSG_BUFFER_SIZE :: usize where "IO_EVENT_MSG_BUFFER_SIZE \<equiv> 500"
abbreviation CONSOLE_RECV_RING_BUFFER_SIZE :: usize where "CONSOLE_RECV_RING_BUFFER_SIZE \<equiv> 1024"

record ConsoleBackend =
  cb_device :: u64
  cb_next :: u64

record Console =
  co_write_lock :: SpinLock
  co_read_lock :: SpinLock
  co_backends :: u64
  co_recv_rb :: RingBuffer
  co_io_events :: Arena
  co_io_messages :: Arena
  co_enable_buffering :: bool

record 'w cons_state = cpu_ctx +
  cs_console :: Console
  cs_bytes :: bytes
  cs_events :: "u64 \<Rightarrow> IOEvent"
  cs_nodes :: "u64 \<Rightarrow> ConsoleBackend"
  cs_world :: 'w

type_synonym ('w, 'a) css = "('w, 'a) cons_state_scheme"

record 'w ConsoleOps =
  cop_write :: "u64 \<Rightarrow> IOEvent \<Rightarrow> bytes \<Rightarrow> 'w \<Rightarrow> 'w"
  cop_flush :: "u64 \<Rightarrow> 'w \<Rightarrow> 'w"

definition upd_console :: "(Console \<Rightarrow> Console) \<Rightarrow> ('w, 'a) css \<Rightarrow> ('w, 'a) css" where
  "upd_console f s = s\<lparr>cs_console := f (cs_console s)\<rparr>"

definition cwl_get :: "('w, 'a) css \<Rightarrow> SpinLock" where "cwl_get s = co_write_lock (cs_console s)"
definition cwl_put :: "SpinLock \<Rightarrow> ('w, 'a) css \<Rightarrow> ('w, 'a) css" where "cwl_put l s = upd_console (co_write_lock_update (\<lambda>_. l)) s"
definition crl_get :: "('w, 'a) css \<Rightarrow> SpinLock" where "crl_get s = co_read_lock (cs_console s)"
definition crl_put :: "SpinLock \<Rightarrow> ('w, 'a) css \<Rightarrow> ('w, 'a) css" where "crl_put l s = upd_console (co_read_lock_update (\<lambda>_. l)) s"

interpretation cwl: lock_slot "\<lambda>_. True" cwl_get cwl_put
  by unfold_locales (simp_all add: cwl_get_def cwl_put_def upd_console_def cx_put_def)

interpretation crl: lock_slot "\<lambda>_. True" crl_get crl_put
  by unfold_locales (simp_all add: crl_get_def crl_put_def upd_console_def cx_put_def)

section \<open>Operations\<close>

text \<open>The arguments are the addresses of the static buffers and the contents of the receive buffer.\<close>

definition console_init :: "u64 \<Rightarrow> u64 \<Rightarrow> u8 list \<Rightarrow> bool \<Rightarrow> ('w, 'a) css \<Rightarrow> ('w, 'a) css \<times> errno_t" where
  "console_init io_event_buffer_storage io_event_msg_buffer console_recv_buffer buffering s =
     (upd_console (\<lambda>c. c\<lparr>co_write_lock := spinlock_init, co_read_lock := spinlock_init,
        co_io_events := arena_init (co_io_events c) io_event_buffer_storage IO_EVENT_BUFFER_SIZE,
        co_io_messages := arena_init (co_io_messages c) io_event_msg_buffer IO_EVENT_MSG_BUFFER_SIZE,
        co_recv_rb := ringbuffer_init 1 console_recv_buffer CONSOLE_RECV_RING_BUFFER_SIZE,
        co_enable_buffering := buffering\<rparr>) s, EOK)"

definition console_register_backend :: "u64 \<Rightarrow> ('w, 'a) css \<Rightarrow> (('w, 'a) css \<times> unit) option" where
  "console_register_backend backend s =
     with_lock cwl_get cwl_put (\<lambda>s.
       let s = s\<lparr>cs_nodes := (cs_nodes s)(backend := (cs_nodes s backend)\<lparr>cb_next := co_backends (cs_console s)\<rparr>)\<rparr>
       in Some (upd_console (co_backends_update (\<lambda>_. backend)) s, ())) s"

text \<open>The node is what \<^verbatim>\<open>kalloc\<close> returned; a failed allocation is not noticed and faults.\<close>

definition console_register :: "u64 \<Rightarrow> u64 \<Rightarrow> ('w, 'a) css \<Rightarrow> (('w, 'a) css \<times> unit) option" where
  "console_register backend device s = do {
     ASSERT (\<not> IS_ERR backend);
     console_register_backend backend (s\<lparr>cs_nodes := (cs_nodes s)(backend := (cs_nodes s backend)\<lparr>cb_device := device\<rparr>)\<rparr>)
   }"

partial_function (option) find_backend :: "(u64 \<Rightarrow> ConsoleBackend) \<Rightarrow> u64 \<Rightarrow> u64 \<Rightarrow> u64 \<Rightarrow> (u64 \<times> u64) option" where
  "find_backend ns device cur prev =
     (if cur = 0 \<or> cb_device (ns cur) = device then Some (cur, prev) else find_backend ns device (cb_next (ns cur)) cur)"

definition console_unregister :: "u64 \<Rightarrow> ('w, 'a) css \<Rightarrow> (('w, 'a) css \<times> bool) option" where
  "console_unregister device s =
     with_lock cwl_get cwl_put (\<lambda>s. do {
       (cur, prev) \<leftarrow> find_backend (cs_nodes s) device (co_backends (cs_console s)) 0;
       if cur = 0 then Some (s, False)
       else do {
         let nxt = cb_next (cs_nodes s cur);
         let s = (if prev = 0 then upd_console (co_backends_update (\<lambda>_. nxt)) s
           else s\<lparr>cs_nodes := (cs_nodes s)(prev := (cs_nodes s prev)\<lparr>cb_next := nxt\<rparr>)\<rparr>);
         Some (s\<lparr>cs_nodes := (cs_nodes s)(cur := (cs_nodes s cur)\<lparr>cb_next := 0\<rparr>)\<rparr>, True)
       }
     }) s"

text \<open>\<^verbatim>\<open>while (nullptr != backend)\<close>.\<close>

partial_function (option) for_backends :: "(u64 \<Rightarrow> 'w \<Rightarrow> 'w) \<Rightarrow> (u64 \<Rightarrow> ConsoleBackend) \<Rightarrow> u64 \<Rightarrow> 'w \<Rightarrow> 'w option" where
  "for_backends f ns backend w =
     (if backend = 0 then Some w else for_backends f ns (cb_next (ns backend)) (f (cb_device (ns backend)) w))"

definition write_to_all_backends :: "'w ConsoleOps \<Rightarrow> IOEvent \<Rightarrow> ('w, 'a) css \<Rightarrow> ('w, 'a) css option" where
  "write_to_all_backends ops ev s = do {
     w \<leftarrow> for_backends (\<lambda>d. cop_write ops d ev (cs_bytes s)) (cs_nodes s) (co_backends (cs_console s)) (cs_world s);
     Some (s\<lparr>cs_world := w\<rparr>)
   }"

definition finalize_write :: "'w ConsoleOps \<Rightarrow> ('w, 'a) css \<Rightarrow> ('w, 'a) css option" where
  "finalize_write ops s =
     (let events = arena_base (co_io_events (cs_console s));
          count = arena_count (co_io_events (cs_console s)) div sizeof_IOEvent
      in foldM (\<lambda>i s. write_to_all_backends ops (cs_events s (events + i * sizeof_IOEvent)) s) (u64_range 0 count) s)"

definition can_fit :: "IOEvent \<Rightarrow> ('w, 'a) css \<Rightarrow> bool" where
  "can_fit ev s \<longleftrightarrow> arena_can_fit (co_io_messages (cs_console s)) (ev_len ev) \<and> arena_can_fit (co_io_events (cs_console s)) sizeof_IOEvent"

definition reset_buffers :: "('w, 'a) css \<Rightarrow> ('w, 'a) css" where
  "reset_buffers s = upd_console (\<lambda>c. c\<lparr>co_io_messages := arena_reset (co_io_messages c), co_io_events := arena_reset (co_io_events c)\<rparr>) s"

text \<open>The event of the caller is updated too; the result is the event.\<close>

definition write_event :: "IOEvent \<Rightarrow> ('w, 'a) css \<Rightarrow> (('w, 'a) css \<times> IOEvent) option" where
  "write_event ev s = do {
     let (messages, msg_alloc) = arena_alloc (co_io_messages (cs_console s)) (ev_len ev);
     let s = upd_console (co_io_messages_update (\<lambda>_. messages)) s;
     ASSERT (\<not> IS_ERR msg_alloc);
     let s = s\<lparr>cs_bytes := fst (memcpy msg_alloc (ev_msg ev) (ev_len ev) (cs_bytes s))\<rparr>;
     let ev = ev\<lparr>ev_msg := msg_alloc\<rparr>;
     let (events, event_alloc) = arena_alloc (co_io_events (cs_console s)) sizeof_IOEvent;
     let s = upd_console (co_io_events_update (\<lambda>_. events)) s;
     ASSERT (\<not> IS_ERR event_alloc);
     Some (s\<lparr>cs_events := (cs_events s)(event_alloc := ev)\<rparr>, ev)
   }"

definition console_flush_locked :: "'w ConsoleOps \<Rightarrow> ('w, 'a) css \<Rightarrow> (('w, 'a) css \<times> errno_t) option" where
  "console_flush_locked ops s = do {
     s \<leftarrow> finalize_write ops s;
     w \<leftarrow> for_backends (cop_flush ops) (cs_nodes s) (co_backends (cs_console s)) (cs_world s);
     Some (reset_buffers (s\<lparr>cs_world := w\<rparr>), EOK)
   }"

definition console_flush :: "'w ConsoleOps \<Rightarrow> ('w, 'a) css \<Rightarrow> (('w, 'a) css \<times> errno_t) option" where
  "console_flush ops s = with_lock cwl_get cwl_put (\<lambda>s. do { (s, _) \<leftarrow> console_flush_locked ops s; Some (s, EOK) }) s"

definition console_write_locked :: "'w ConsoleOps \<Rightarrow> IOEvent \<Rightarrow> ('w, 'a) css \<Rightarrow> (('w, 'a) css \<times> errno_t) option" where
  "console_write_locked ops e s =
     (if \<not> co_enable_buffering (cs_console s) then do {
        (s, _) \<leftarrow> write_event e s;
        (s, _) \<leftarrow> console_flush_locked ops s;
        Some (s, EOK)
      }
      else do {
        (s, _) \<leftarrow> (if \<not> can_fit e s then console_flush_locked ops s else Some (s, EOK));
        (s, _) \<leftarrow> write_event e s;
        Some (s, EOK)
      })"

text \<open>\<^verbatim>\<open>_console_write\<close> always returns \<^verbatim>\<open>EOK\<close>, so the loop over the events never leaves early.\<close>

fun write_multiple :: "'w ConsoleOps \<Rightarrow> IOEvent list \<Rightarrow> ('w, 'a) css \<Rightarrow> (('w, 'a) css \<times> errno_t) option" where
  "write_multiple ops [] s = Some (s, EOK)"
| "write_multiple ops (e # es) s = do {
     (s, ret) \<leftarrow> console_write_locked ops e s;
     if ret \<noteq> EOK then Some (s, ret) else write_multiple ops es s
   }"

definition console_write_multiple :: "'w ConsoleOps \<Rightarrow> IOEvent list \<Rightarrow> ('w, 'a) css \<Rightarrow> (('w, 'a) css \<times> errno_t) option" where
  "console_write_multiple ops events s = with_lock cwl_get cwl_put (write_multiple ops events) s"

definition console_write :: "'w ConsoleOps \<Rightarrow> IOEvent \<Rightarrow> ('w, 'a) css \<Rightarrow> (('w, 'a) css \<times> errno_t) option" where
  "console_write ops e s = with_lock cwl_get cwl_put (console_write_locked ops e) s"

definition console_set_buffering :: "bool \<Rightarrow> ('w, 'a) css \<Rightarrow> (('w, 'a) css \<times> unit) option" where
  "console_set_buffering buffering s =
     with_lock cwl_get cwl_put (\<lambda>s. Some (upd_console (co_enable_buffering_update (\<lambda>_. buffering)) s, ())) s"

text \<open>The character lies on the stack, at the address \<open>p\<close>.\<close>

definition console_write_char :: "'w ConsoleOps \<Rightarrow> u64 \<Rightarrow> u8 \<Rightarrow> ('w, 'a) css \<Rightarrow> (('w, 'a) css \<times> errno_t) option" where
  "console_write_char ops p c s = console_write ops (io_event_default p 1) (s\<lparr>cs_bytes := (cs_bytes s)(p := c)\<rparr>)"

definition console_receive_char :: "u8 \<Rightarrow> ('w, 'a) css \<Rightarrow> (('w, 'a) css \<times> errno_t) option" where
  "console_receive_char c s = with_lock crl_get crl_put (\<lambda>s. do {
     (rb, ret) \<leftarrow> ringbuffer_push (co_recv_rb (cs_console s)) [c];
     Some (upd_console (co_recv_rb_update (\<lambda>_. rb)) s, ret)
   }) s"

text \<open>The argument is the byte \<^verbatim>\<open>*out\<close> before the call; the result is it after the call.\<close>

definition console_read :: "u8 \<Rightarrow> ('w, 'a) css \<Rightarrow> (('w, 'a) css \<times> u8 \<times> bool) option" where
  "console_read out s = with_lock crl_get crl_put (\<lambda>s.
     if ringbuffer_empty (co_recv_rb (cs_console s)) then Some (s, out, False)
     else do {
       (rb, data, _) \<leftarrow> ringbuffer_pop (co_recv_rb (cs_console s)) [out];
       Some (upd_console (co_recv_rb_update (\<lambda>_. rb)) s, hd data, True)
     }) s"

end
