(* ===== verification/ConsoleProps.thy ===== *)
theory ConsoleProps
  imports Console
begin

text \<open>
  The console delivers its output: with devices that record what they are told to write, what has been written
  and what is still buffered is together always the sequence of the messages, for every registered backend, in
  the order of the calls.
\<close>

section \<open>The represented output\<close>

type_synonym message = "IOColor \<times> IOColor \<times> u8 list"

definition content :: "bytes \<Rightarrow> u64 \<Rightarrow> nat \<Rightarrow> u8 list" where
  "content m p n = map (\<lambda>i. m (p + of_nat i)) [0..<n]"

definition ev_view :: "bytes \<Rightarrow> IOEvent \<Rightarrow> message" where
  "ev_view m ev = (ev_fg ev, ev_bg ev, content m (ev_msg ev) (unat (ev_len ev)))"

definition recorder :: "(u64 \<times> message) list ConsoleOps" where
  "recorder = \<lparr>cop_write = (\<lambda>d ev m w. w @ [(d, ev_view m ev)]), cop_flush = (\<lambda>d w. w)\<rparr>"

definition out_all :: "u64 list \<Rightarrow> message list \<Rightarrow> (u64 \<times> message) list" where
  "out_all ds ms = concat (map (\<lambda>m. map (\<lambda>d. (d, m)) ds) ms)"

lemma out_all_simps [simp]: "out_all ds [] = []" "out_all ds (m # ms) = map (\<lambda>d. (d, m)) ds @ out_all ds ms"
  "out_all ds (ms @ ms') = out_all ds ms @ out_all ds ms'"
  by (simp_all add: out_all_def)

primrec be_chain :: "(u64 \<Rightarrow> ConsoleBackend) \<Rightarrow> u64 \<Rightarrow> u64 list \<Rightarrow> bool" where
  "be_chain ns p [] \<longleftrightarrow> p = 0"
| "be_chain ns p (d # ds) \<longleftrightarrow> p \<noteq> 0 \<and> cb_device (ns p) = d \<and> be_chain ns (cb_next (ns p)) ds"

lemma for_backends_chain: "be_chain ns p ds \<Longrightarrow> for_backends f ns p w = Some (fold f ds w)"
proof (induction ds arbitrary: p w)
  case Nil
  then show ?case by (subst for_backends.simps) simp
next
  case (Cons d ds)
  then show ?case by (subst for_backends.simps) auto
qed

lemma fold_record: "fold (\<lambda>d w. w @ [(d, m)]) ds w = w @ map (\<lambda>d. (d, m)) ds"
  by (induction ds arbitrary: w) simp_all

definition arenas_ok :: "Console \<Rightarrow> nat \<Rightarrow> bool" where
  "arenas_ok c n \<longleftrightarrow> ar_inv (co_io_events c) \<and> ar_inv (co_io_messages c) \<and>
     ar_capacity (co_io_events c) = IO_EVENT_BUFFER_SIZE \<and> ar_capacity (co_io_messages c) = IO_EVENT_MSG_BUFFER_SIZE \<and>
     unat (ar_count (co_io_events c)) = 24 * n \<and>
     unat (ar_pool (co_io_events c)) + 8192 \<le> 2 ^ 64 \<and> unat (ar_pool (co_io_messages c)) + 8192 \<le> 2 ^ 64"

definition stored :: "('w, 'a) css \<Rightarrow> IOEvent list \<Rightarrow> bool" where
  "stored s evs \<longleftrightarrow>
     (\<forall>i < length evs. cs_events s (ar_pool (co_io_events (cs_console s)) + of_nat (24 * i)) = evs ! i) \<and>
     (\<forall>ev \<in> set evs. unat (ev_msg ev - ar_pool (co_io_messages (cs_console s))) + unat (ev_len ev) \<le> unat (ar_count (co_io_messages (cs_console s))))"

definition cons_rep :: "u64 list \<Rightarrow> message list \<Rightarrow> (u64 \<times> message) list \<Rightarrow> ((u64 \<times> message) list, 'a) css \<Rightarrow> bool" where
  "cons_rep ds pend log s \<longleftrightarrow> be_chain (cs_nodes s) (co_backends (cs_console s)) ds \<and> arenas_ok (cs_console s) (length pend) \<and>
     (\<exists>evs. stored s evs \<and> map (ev_view (cs_bytes s)) evs = pend) \<and> cs_world s = log"

section \<open>Flushing\<close>

lemma finalize_write_ok:
  assumes "cons_rep ds pend log s"
  shows "finalize_write recorder s = Some (s\<lparr>cs_world := log @ out_all ds pend\<rparr>)"
proof -
  let ?E = "ar_pool (co_io_events (cs_console s))"
  obtain evs where e: "stored s evs" "map (ev_view (cs_bytes s)) evs = pend" using assms by (auto simp: cons_rep_def)
  have ch: "be_chain (cs_nodes s) (co_backends (cs_console s)) ds" "cs_world s = log" "unat (ar_count (co_io_events (cs_console s))) = 24 * length pend"
    using assms by (simp_all add: cons_rep_def arenas_ok_def)
  have n: "length evs = length pend" using e(2) by auto
  have w: "write_to_all_backends recorder ev (s\<lparr>cs_world := l\<rparr>) = Some (s\<lparr>cs_world := l @ map (\<lambda>d. (d, ev_view (cs_bytes s) ev)) ds\<rparr>)" for ev l
    by (simp add: write_to_all_backends_def recorder_def for_backends_chain [OF ch(1)] fold_record)
  have loop: "foldM (\<lambda>i s. write_to_all_backends recorder (cs_events s (?E + i * sizeof_IOEvent)) s) (map of_nat [k..<length evs]) (s\<lparr>cs_world := l\<rparr>) =
      Some (s\<lparr>cs_world := l @ out_all ds (map (ev_view (cs_bytes s)) (drop k evs))\<rparr>)" if "k \<le> length evs" for k l
    using that
  proof (induction "length evs - k" arbitrary: k l)
    case (Suc j)
    then have k: "k < length evs" by simp
    have "cs_events s (?E + of_nat k * 24) = evs ! k" using e(1) k by (simp add: stored_def mult.commute)
    moreover have "drop k evs = evs ! k # drop (Suc k) evs" using k by (rule Cons_nth_drop_Suc [symmetric])
    ultimately show ?case using Suc.hyps(1) [of "Suc k"] Suc.hyps(2) k w by (simp add: upt_conv_Cons)
  qed simp
  have "unat (ar_count (co_io_events (cs_console s)) div 24) = length evs" using ch(3) n by (simp add: unat_div)
  moreover have "s\<lparr>cs_world := log\<rparr> = s" using ch(2) by simp
  ultimately show ?thesis
    using loop [of 0 log] e(2) by (simp add: finalize_write_def arena_base_def arena_count_def u64_range_def)
qed

lemma flush_locked_ok:
  assumes "cons_rep ds pend log s"
  shows "console_flush_locked recorder s = Some (reset_buffers (s\<lparr>cs_world := log @ out_all ds pend\<rparr>), EOK)"
    "cons_rep ds [] (log @ out_all ds pend) (reset_buffers (s\<lparr>cs_world := log @ out_all ds pend\<rparr>))"
proof -
  have ch: "be_chain (cs_nodes s) (co_backends (cs_console s)) ds" using assms by (simp add: cons_rep_def)
  have "fold (\<lambda>d w. w) ds w = w" for w :: "(u64 \<times> message) list" by (induction ds) simp_all
  then show "console_flush_locked recorder s = Some (reset_buffers (s\<lparr>cs_world := log @ out_all ds pend\<rparr>), EOK)"
    using finalize_write_ok [OF assms] by (simp add: console_flush_locked_def recorder_def for_backends_chain [OF ch])
  show "cons_rep ds [] (log @ out_all ds pend) (reset_buffers (s\<lparr>cs_world := log @ out_all ds pend\<rparr>))"
    using assms by (auto simp: cons_rep_def reset_buffers_def upd_console_def arenas_ok_def arena_reset_def ar_inv_def stored_def)
qed

section \<open>Buffering a message\<close>

lemma unat_add_small: "unat w + i < 2 ^ 64 \<Longrightarrow> unat (w + of_nat i) = unat w + i" for w :: u64
proof -
  assume "unat w + i < 2 ^ 64"
  moreover from this have "unat (of_nat i :: u64) = i" by (simp add: unat_of_nat take_bit_nat_eq_self)
  ultimately show ?thesis using unat_add_u64 [of w "of_nat i"] by simp
qed

lemma copy_up_disjoint:
  assumes "n < 2 ^ 64" "\<And>i. i < n \<Longrightarrow> n \<le> unat (s + of_nat i - d)"
  shows "copy_up n d s m a = (if unat (a - d) < n then m (s + (a - d)) else m a)"
  using assms
proof (induction n arbitrary: d s m)
  case (Suc n)
  let ?m = "m(d := m s)"
  have ih: "copy_up n (d + 1) (s + 1) ?m a = (if unat (a - (d + 1)) < n then ?m (s + 1 + (a - (d + 1))) else ?m a)"
  proof (rule Suc.IH)
    show "n \<le> unat (s + 1 + of_nat i - (d + 1))" if "i < n" for i
    proof -
      have "s + 1 + of_nat i - (d + 1) = s + of_nat i - d" by (simp add: algebra_simps)
      moreover have "Suc n \<le> unat (s + of_nat i - d)" by (rule Suc.prems(2)) (use that in simp)
      ultimately show ?thesis by (metis Suc_leD)
    qed
  qed (use Suc.prems in simp)
  show ?case
  proof (cases "a = d")
    case True
    then show ?thesis using ih Suc.prems(1) by simp
  next
    case False
    have "s + (a - d) \<noteq> d" if "unat (a - d) < Suc n"
    proof
      assume e: "s + (a - d) = d"
      have "s + of_nat (unat (a - d)) - d = 0" using e by simp
      then show False using Suc.prems(2) [OF that] by simp
    qed
    then show ?thesis using ih unat_offset_pred [OF False] False by (auto simp: algebra_simps)
  qed
qed simp

definition outside_buffer :: "IOEvent \<Rightarrow> ('w, 'a) css \<Rightarrow> bool" where
  "outside_buffer e s \<longleftrightarrow> (\<forall>i < unat (ev_len e). 500 \<le> unat (ev_msg e + of_nat i - ar_pool (co_io_messages (cs_console s))))"

lemma write_event_ok:
  assumes "cons_rep ds pend log s" "can_fit e s" "outside_buffer e s"
  shows "\<exists>s' e' msgs evs b st. write_event e s = Some (s', e') \<and> cons_rep ds (pend @ [ev_view (cs_bytes s) e]) log s' \<and>
    s' = s\<lparr>cs_console := (cs_console s)\<lparr>co_io_messages := msgs, co_io_events := evs\<rparr>, cs_bytes := b, cs_events := st\<rparr>"
proof -
  let ?c = "cs_console s" let ?A = "co_io_events ?c" let ?B = "co_io_messages ?c" let ?E = "ar_pool ?A" let ?M = "ar_pool ?B"
  let ?n = "length pend" let ?l = "unat (ev_len e)" let ?k = "unat (ar_count ?B)"
  have ao: "arenas_ok ?c ?n" "be_chain (cs_nodes s) (co_backends ?c) ds" "cs_world s = log" using assms(1) by (simp_all add: cons_rep_def)
  obtain xs where x: "stored s xs" "map (ev_view (cs_bytes s)) xs = pend" using assms(1) by (auto simp: cons_rep_def)
  have inv: "ar_inv ?A" "ar_inv ?B" "unat (ar_count ?A) = 24 * ?n" using ao(1) by (simp_all add: arenas_ok_def)
  have fit: "arena_can_fit ?B (ev_len e)" "arena_can_fit ?A 24" using assms(2) by (simp_all add: can_fit_def)
  note ab = arena_alloc_ok [OF inv(2) fit(1)] and aa = arena_alloc_ok [OF inv(1) fit(2)]
  have kl: "?k + ?l \<le> 500" "24 * ?n + 24 \<le> 120"
    using ab(2,3) aa(2,3) ao(1) inv(3) by (simp_all add: ar_inv_def arenas_ok_def word_le_nat_alt)
  have pk: "unat (?M + ar_count ?B) = unat ?M + ?k" "unat (?E + ar_count ?A) = unat ?E + 24 * ?n"
    using ao(1) kl inv(3) unat_add_u64 [of ?M "ar_count ?B"] unat_add_u64 [of ?E "ar_count ?A"] by (simp_all add: arenas_ok_def)
  have ne: "\<not> IS_ERR (?M + ar_count ?B)" "\<not> IS_ERR (?E + ar_count ?A)" using pk kl ao(1) by (simp_all add: IS_ERR_unat arenas_ok_def)
  define m where "m = fst (memcpy (?M + ar_count ?B) (ev_msg e) (ev_len e) (cs_bytes s))"
  have m: "m a = (if unat (a - (?M + ar_count ?B)) < ?l then cs_bytes s (ev_msg e + (a - (?M + ar_count ?B))) else cs_bytes s a)" for a
  proof -
    have "?l \<le> unat (ev_msg e + of_nat i - (?M + ar_count ?B))" if "i < ?l" for i
    proof -
      have o: "500 \<le> unat (ev_msg e + of_nat i - ?M)" using assms(3) that by (simp add: outside_buffer_def)
      then have "unat (ev_msg e + of_nat i - ?M - ar_count ?B) = unat (ev_msg e + of_nat i - ?M) - ?k"
        using kl by (intro unat_sub_u64) (simp add: word_le_nat_alt)
      then show ?thesis using o kl by (simp add: diff_diff_eq)
    qed
    then show ?thesis using copy_up_disjoint [of ?l "ev_msg e" "?M + ar_count ?B" "cs_bytes s" a] kl by (simp add: m_def memcpy_def)
  qed
  have old: "ev_view m ev = ev_view (cs_bytes s) ev" if "ev \<in> set xs" for ev
  proof -
    have b: "unat (ev_msg ev - ?M) + unat (ev_len ev) \<le> ?k" using x(1) that by (simp add: stored_def)
    have "m (ev_msg ev + of_nat i) = cs_bytes s (ev_msg ev + of_nat i)" if "i < unat (ev_len ev)" for i
    proof -
      have u: "unat (ev_msg ev - ?M + of_nat i) = unat (ev_msg ev - ?M) + i"
        using that b kl by (intro unat_add_small) simp_all
      have "unat (ev_msg ev + of_nat i - (?M + ar_count ?B)) = unat (ev_msg ev - ?M + of_nat i - ar_count ?B)" by (simp add: algebra_simps)
      also have "\<dots> = unat (ev_msg ev - ?M + of_nat i) + 2 ^ 64 - ?k" using u that b by (simp add: unat_sub_if')
      finally have "\<not> unat (ev_msg ev + of_nat i - (?M + ar_count ?B)) < ?l" using u that b kl by simp
      then show ?thesis by (simp add: m)
    qed
    then show ?thesis by (simp add: ev_view_def content_def)
  qed
  define e' where "e' = e\<lparr>ev_msg := ?M + ar_count ?B\<rparr>"
  have new: "ev_view m e' = ev_view (cs_bytes s) e"
    using kl by (simp add: ev_view_def e'_def content_def m unat_of_nat take_bit_nat_eq_self)
  define s' where "s' = s\<lparr>cs_console := ?c\<lparr>co_io_messages := ?B\<lparr>ar_count := ar_count ?B + ev_len e\<rparr>, co_io_events := ?A\<lparr>ar_count := ar_count ?A + 24\<rparr>\<rparr>,
    cs_bytes := m, cs_events := (cs_events s)(?E + ar_count ?A := e')\<rparr>"
  have w: "write_event e s = Some (s', e')"
    using ab(1) aa(1) ne by (simp add: write_event_def upd_console_def Let_def ASSERT_def s'_def e'_def m_def)
  have "?E + of_nat (24 * i) \<noteq> ?E + ar_count ?A" if "i < ?n" for i
  proof -
    have "unat (of_nat (24 * i) :: u64) = 24 * i" using that kl unat_add_small [of 0 "24 * i"] by (simp del: of_nat_mult)
    then have "unat (of_nat (24 * i) :: u64) \<noteq> unat (ar_count ?A)" using that inv(3) by simp
    then show ?thesis by fastforce
  qed
  moreover have "ar_count ?A = of_nat (24 * ?n)" using inv(3) kl unat_add_small [of 0 "24 * ?n"] by (simp add: u64_eq_iff_unat del: of_nat_mult)
  moreover have "length xs = ?n" using x(2) by auto
  ultimately have "stored s' (xs @ [e'])"
    using x(1) ab(3) kl by (auto simp: stored_def s'_def e'_def nth_append less_Suc_eq)
  moreover have "map (ev_view m) (xs @ [e']) = pend @ [ev_view (cs_bytes s) e]" using x(2) old new by auto
  ultimately have "cons_rep ds (pend @ [ev_view (cs_bytes s) e]) log s'"
    using ao ab(2) aa(2,3) inv(3) unfolding cons_rep_def by (auto simp: s'_def arenas_ok_def)
  then show ?thesis using w s'_def by blast
qed

section \<open>The console's output\<close>

definition cx_eq :: "'a cpu_ctx_scheme \<Rightarrow> 'b cpu_ctx_scheme \<Rightarrow> bool" where
  "cx_eq a b \<longleftrightarrow> cx_cpu a = cx_cpu b \<and> cx_daif a = cx_daif b \<and> cx_irq_disable_depth a = cx_irq_disable_depth b \<and>
     cx_irq_was_enabled a = cx_irq_was_enabled b"

lemma cons_rep_cx [simp]: "cons_rep ds pend log (cx_put d n w s) = cons_rep ds pend log s" "cons_rep ds pend log (cwl_put l s) = cons_rep ds pend log s"
  "cons_rep ds pend log (cx_sec s) = cons_rep ds pend log s" "cons_rep ds pend log (irq_push_intr s) = cons_rep ds pend log s"
  by (simp_all add: cons_rep_def cx_put_def cx_sec_as_put irq_push_as_put cwl_put_def upd_console_def arenas_ok_def stored_def)

lemma cons_fields_cx [simp]:
  "cs_bytes (cx_put d n w s) = cs_bytes s" "cs_bytes (cwl_put l s) = cs_bytes s" "cs_bytes (irq_push_intr s) = cs_bytes s"
  "co_io_messages (cs_console (cx_put d n w s)) = co_io_messages (cs_console s)"
  "co_io_messages (cs_console (cwl_put l s)) = co_io_messages (cs_console s)"
  "co_io_messages (cs_console (irq_push_intr s)) = co_io_messages (cs_console s)"
  by (simp_all add: cx_put_def irq_push_as_put cwl_put_def upd_console_def)

text \<open>A section of the write lock whose body keeps the interrupt state.\<close>

lemma write_section:
  assumes "cx_ok s" "\<not> sp_locked (cwl_get s)" "body (irq_push_intr (cwl_put (held_by s) s)) = Some (s1, r)"
    and "cx_eq s1 (irq_push_intr (cwl_put (held_by s) s))" "cwl_get s1 = held_by s"
  shows "\<exists>y. with_lock cwl_get cwl_put body s = Some (cx_sec (cwl_put spinlock_init y), r) \<and> s1 = irq_push_intr y \<and> cx_ok y"
proof -
  let ?y = "cx_put (cx_daif s) (cx_irq_disable_depth s) (cx_irq_was_enabled s) s1"
  have y: "irq_push_intr ?y = s1"
    using assms(4) by (simp add: irq_push_as_put cx_eq_def cwl.put_fields r_intrd_enabled_def cx_put_def)
  have "cx_ok ?y" "cx_cpu ?y = cx_cpu s" "cwl_get ?y = held_by s"
    using assms(1,4,5) by (auto simp: cx_ok_def cx_eq_def cwl.put_fields cwl.get_cx)
  then show ?thesis using cwl.section_eq [OF assms(1,2), of body ?y r] assms(3) y by metis
qed

lemma write_locked_ok:
  assumes "cons_rep ds pend log s" "ev_len e \<le> 500" "outside_buffer e s" "co_enable_buffering (cs_console s) \<or> can_fit e s"
  shows "\<exists>s1 pend' log'. console_write_locked recorder e s = Some (s1, EOK) \<and> cons_rep ds pend' log' s1 \<and>
    log' @ out_all ds pend' = log @ out_all ds (pend @ [ev_view (cs_bytes s) e]) \<and> cx_eq s1 s \<and> cwl_get s1 = cwl_get s"
proof -
  let ?f = "reset_buffers (s\<lparr>cs_world := log @ out_all ds pend\<rparr>)"
  note fl = flush_locked_ok [OF assms(1)]
  have fit: "can_fit e ?f" "outside_buffer e ?f" "cs_bytes ?f = cs_bytes s" "cx_eq ?f s" "cwl_get ?f = cwl_get s"
    using assms(1-3) by (simp_all add: can_fit_def arena_can_fit_def reset_buffers_def upd_console_def arena_reset_def cons_rep_def arenas_ok_def outside_buffer_def cx_eq_def cwl_get_def)
  show ?thesis
  proof (cases "can_fit e s")
    case True
    obtain s1 e' msgs evs b st where w: "write_event e s = Some (s1, e')" "cons_rep ds (pend @ [ev_view (cs_bytes s) e]) log s1"
      "s1 = s\<lparr>cs_console := (cs_console s)\<lparr>co_io_messages := msgs, co_io_events := evs\<rparr>, cs_bytes := b, cs_events := st\<rparr>"
      using write_event_ok [OF assms(1) True assms(3)] by blast
    have k: "cx_eq s1 s" "cwl_get s1 = cwl_get s" using w(3) by (simp_all add: cx_eq_def cwl_get_def)
    note f1 = flush_locked_ok [OF w(2)]
    show ?thesis
    proof (cases "co_enable_buffering (cs_console s)")
      case True
      then show ?thesis using w(1,2) k \<open>can_fit e s\<close>
        by (intro exI [of _ s1] exI [of _ "pend @ [ev_view (cs_bytes s) e]"] exI [of _ log]) (simp add: console_write_locked_def)
    next
      case False
      have "cx_eq (reset_buffers (s1\<lparr>cs_world := l\<rparr>)) s \<and> cwl_get (reset_buffers (s1\<lparr>cs_world := l\<rparr>)) = cwl_get s" for l
        using w(3) by (simp add: cx_eq_def cwl_get_def reset_buffers_def upd_console_def)
      then show ?thesis using False w(1) f1
        by (intro exI [of _ "reset_buffers (s1\<lparr>cs_world := log @ out_all ds (pend @ [ev_view (cs_bytes s) e])\<rparr>)"] exI [of _ "[]"]
            exI [of _ "log @ out_all ds (pend @ [ev_view (cs_bytes s) e])"]) (simp add: console_write_locked_def)
    qed
  next
    case False
    obtain s1 e' msgs evs b st where w: "write_event e ?f = Some (s1, e')" "cons_rep ds ([] @ [ev_view (cs_bytes ?f) e]) (log @ out_all ds pend) s1"
      "s1 = ?f\<lparr>cs_console := (cs_console ?f)\<lparr>co_io_messages := msgs, co_io_events := evs\<rparr>, cs_bytes := b, cs_events := st\<rparr>"
      using write_event_ok [OF fl(2) fit(1,2)] by blast
    have k: "cx_eq s1 s" "cwl_get s1 = cwl_get s" using w(3) fit(4,5) by (simp_all add: cx_eq_def cwl_get_def)
    have b: "co_enable_buffering (cs_console s)" using False assms(4) by blast
    show ?thesis using w(1,2) k b False fl(1) fit(3)
      by (intro exI [of _ s1] exI [of _ "[ev_view (cs_bytes s) e]"] exI [of _ "log @ out_all ds pend"]) (simp add: console_write_locked_def)
  qed
qed

text \<open>
  Claim C24. The console delivers every message once, to every backend, in order: on a console with recording
  devices, with room for the message or with buffering on, \<^verbatim>\<open>console_write\<close> of a message of at most 500 bytes
  succeeds, and what was written before together with what is buffered grows by exactly this message for every
  backend; a \<^verbatim>\<open>console_flush\<close> then leaves nothing buffered, with everything written.
\<close>

theorem console_write_delivers:
  assumes rep: "cons_rep ds pend log s" and cx: "cx_ok s" "cwl_get s = spinlock_init"
    and ev: "ev_len e \<le> 500" "outside_buffer e s" "co_enable_buffering (cs_console s) \<or> can_fit e s"
  shows "\<exists>s' pend' log'. console_write recorder e s = Some (s', EOK) \<and> cons_rep ds pend' log' s' \<and>
    log' @ out_all ds pend' = log @ out_all ds (pend @ [ev_view (cs_bytes s) e]) \<and>
    (\<exists>s''. console_flush recorder s' = Some (s'', EOK) \<and> cons_rep ds [] (log @ out_all ds (pend @ [ev_view (cs_bytes s) e])) s'')"
proof -
  have nl: "\<not> sp_locked (cwl_get s)" using cx(2) by (simp add: spinlock_init_def)
  let ?i = "irq_push_intr (cwl_put (held_by s) s)"
  have i: "cons_rep ds pend log ?i" "outside_buffer e ?i" "co_enable_buffering (cs_console ?i) \<or> can_fit e ?i" "cwl_get ?i = held_by s"
    using rep ev(2,3) by (simp_all add: outside_buffer_def cwl.get_push cwl.get_put)
      (simp add: can_fit_def irq_push_as_put cx_put_def cwl_put_def upd_console_def)
  obtain s1 pend' log' where w: "console_write_locked recorder e ?i = Some (s1, EOK)" "cons_rep ds pend' log' s1"
    "log' @ out_all ds pend' = log @ out_all ds (pend @ [ev_view (cs_bytes ?i) e])" "cx_eq s1 ?i" "cwl_get s1 = cwl_get ?i"
    using write_locked_ok [OF i(1) ev(1) i(2,3)] by blast
  obtain y where y: "console_write recorder e s = Some (cx_sec (cwl_put spinlock_init y), EOK)" "s1 = irq_push_intr y" "cx_ok y"
    using write_section [where body = "console_write_locked recorder e", OF cx(1) nl w(1,4)] w(5) i(4) unfolding console_write_def by auto
  let ?s = "cx_sec (cwl_put spinlock_init y)"
  have s': "cons_rep ds pend' log' ?s" "cx_ok ?s" "cwl_get ?s = spinlock_init"
    using w(2) y(2,3) by (auto simp: cwl.get_sec cwl.get_put cx_ok_def cwl.put_fields)
  let ?j = "irq_push_intr (cwl_put (held_by ?s) ?s)" let ?f = "reset_buffers (?j\<lparr>cs_world := log' @ out_all ds pend'\<rparr>)"
  have j: "cons_rep ds pend' log' ?j" using s'(1) by simp
  note f = flush_locked_ok [OF j]
  have k: "cx_eq ?f ?j" "cwl_get ?f = held_by ?s"
    by (simp_all add: cx_eq_def reset_buffers_def upd_console_def cwl_get_def)
      (simp add: irq_push_as_put cx_put_def cwl_put_def upd_console_def)
  obtain z where z: "console_flush recorder ?s = Some (cx_sec (cwl_put spinlock_init z), EOK)" "?f = irq_push_intr z"
    using write_section [OF s'(2) _ _ k, of "\<lambda>s. do { (s, _) \<leftarrow> console_flush_locked recorder s; Some (s, EOK) }" EOK] s'(3) f(1)
    unfolding console_flush_def by (auto simp: spinlock_init_def)
  have "cons_rep ds [] (log' @ out_all ds pend') (cx_sec (cwl_put spinlock_init z))" using f(2) z(2) by simp
  then show ?thesis using y(1) s'(1) w(3) z(1) by auto
qed

text \<open>
  A message longer than the message buffer stops the kernel: the allocation for it fails however empty the buffer
  is, and the assertion in \<^verbatim>\<open>write_event\<close> does not hold.
\<close>

lemma write_event_too_long:
  assumes "arenas_ok (cs_console s) n" "500 < ev_len e"
  shows "write_event e s = None"
proof -
  let ?B = "co_io_messages (cs_console s)"
  have "\<not> arena_can_fit ?B (ev_len e)"
    using assms by (auto simp: arenas_ok_def ar_inv_def arena_can_fit_def Let_def word_less_nat_alt word_le_nat_alt unat_sub_u64)
  then show ?thesis by (simp add: write_event_def arena_alloc_full ASSERT_def)
qed

text \<open>A console with one backend, the device 0x77.\<close>

definition console_example :: "(u64 \<times> message) list cons_state" where
  "console_example = cpu_ctx.extend ctx_example
     \<lparr>cs_console = \<lparr>co_write_lock = spinlock_init, co_read_lock = spinlock_init, co_backends = 0x5000,
        co_recv_rb = ringbuffer_init 1 (replicate 1024 0) 1024,
        co_io_events = \<lparr>ar_pool = 0x6000, ar_count = 0, ar_capacity = 120\<rparr>,
        co_io_messages = \<lparr>ar_pool = 0x7000, ar_count = 0, ar_capacity = 500\<rparr>, co_enable_buffering = True\<rparr>,
      cs_bytes = (\<lambda>a. ucast a), cs_events = (\<lambda>_. io_event_default 0 0),
      cs_nodes = (\<lambda>_. \<lparr>cb_device = 0x77, cb_next = 0\<rparr>), cs_world = []\<rparr>"

theorem console_write_delivers_witness:
  "\<exists>s' s''. console_write recorder (io_event_default 0x41 2) console_example = Some (s', EOK) \<and>
    console_flush recorder s' = Some (s'', EOK) \<and> cs_world s'' = [(0x77, IO_DEFAULT_COLOR_FG, IO_DEFAULT_COLOR_BG, [0x41, 0x42])]"
proof -
  let ?e = "io_event_default 0x41 2"
  have f: "cs_bytes console_example = (\<lambda>a. ucast a)" "cwl_get console_example = spinlock_init" "co_enable_buffering (cs_console console_example)"
    by (simp_all add: console_example_def cpu_ctx.defs cwl_get_def)
  have "cons_rep [0x77] [] [] console_example"
    by (simp add: console_example_def cpu_ctx.defs cons_rep_def arenas_ok_def ar_inv_def stored_def)
  moreover have "cx_ok console_example" using ctx_example_ok by (simp add: console_example_def cpu_ctx.defs cx_ok_def ctx_example_def)
  moreover have "outside_buffer ?e console_example"
  proof -
    have "i = 0 \<or> i = 1" if "i < unat (2 :: u64)" for i using that by auto
    then show ?thesis by (fastforce simp: outside_buffer_def io_event_default_def console_example_def cpu_ctx.defs)
  qed
  moreover have "ev_view (cs_bytes console_example) ?e = (IO_DEFAULT_COLOR_FG, IO_DEFAULT_COLOR_BG, [0x41, 0x42])"
    by (simp add: ev_view_def f(1) io_event_default_def content_def upt_conv_Cons)
  ultimately obtain s' s'' where "console_write recorder ?e console_example = Some (s', EOK)" "console_flush recorder s' = Some (s'', EOK)"
    "cons_rep [0x77] [] (out_all [0x77] [(IO_DEFAULT_COLOR_FG, IO_DEFAULT_COLOR_BG, [0x41, 0x42])]) s''"
    using console_write_delivers [of "[0x77]" "[]" "[]" console_example ?e] f by (auto simp: io_event_default_def)
  then show ?thesis by (auto simp: cons_rep_def)
qed

end
