(* ===== verification/Registers.thy ===== *)
theory Registers
  imports KPrelude
begin

text \<open>
  Device registers: the accessors of \<^verbatim>\<open>lib/register.h\<close>. The registers are those of a machine \<open>'w\<close> whose
  reads and writes are an argument; a read may change the machine, as reading the active interrupt does. An
  access that starts behind the end of the register block stops the kernel.
\<close>

record Register =
  reg_size :: usize
  reg_address :: u64

record 'w mmio =
  io_read64 :: "u64 \<Rightarrow> 'w \<Rightarrow> 'w \<times> u64"
  io_write64 :: "u64 \<Rightarrow> u64 \<Rightarrow> 'w \<Rightarrow> 'w"
  io_read32 :: "u64 \<Rightarrow> 'w \<Rightarrow> 'w \<times> u32"
  io_write32 :: "u64 \<Rightarrow> u32 \<Rightarrow> 'w \<Rightarrow> 'w"
  io_read8 :: "u64 \<Rightarrow> 'w \<Rightarrow> 'w \<times> u8"
  io_write8 :: "u64 \<Rightarrow> u8 \<Rightarrow> 'w \<Rightarrow> 'w"

definition reg_read64 :: "'w mmio \<Rightarrow> Register \<Rightarrow> usize \<Rightarrow> 'w \<Rightarrow> ('w \<times> u64) option" where
  "reg_read64 io reg byte_offset w = do {
     ASSERT (reg_size reg > byte_offset);
     Some (io_read64 io (reg_address reg + byte_offset) w)
   }"

definition reg_write64 :: "'w mmio \<Rightarrow> Register \<Rightarrow> usize \<Rightarrow> u64 \<Rightarrow> 'w \<Rightarrow> 'w option" where
  "reg_write64 io reg byte_offset data w = do {
     ASSERT (reg_size reg > byte_offset);
     Some (io_write64 io (reg_address reg + byte_offset) data w)
   }"

definition reg_read32 :: "'w mmio \<Rightarrow> Register \<Rightarrow> usize \<Rightarrow> 'w \<Rightarrow> ('w \<times> u32) option" where
  "reg_read32 io reg byte_offset w = do {
     ASSERT (reg_size reg > byte_offset);
     Some (io_read32 io (reg_address reg + byte_offset) w)
   }"

definition reg_write32 :: "'w mmio \<Rightarrow> Register \<Rightarrow> usize \<Rightarrow> u32 \<Rightarrow> 'w \<Rightarrow> 'w option" where
  "reg_write32 io reg byte_offset data w = do {
     ASSERT (reg_size reg > byte_offset);
     Some (io_write32 io (reg_address reg + byte_offset) data w)
   }"

definition reg_read8 :: "'w mmio \<Rightarrow> Register \<Rightarrow> usize \<Rightarrow> 'w \<Rightarrow> ('w \<times> u8) option" where
  "reg_read8 io reg byte_offset w = do {
     ASSERT (reg_size reg > byte_offset);
     Some (io_read8 io (reg_address reg + byte_offset) w)
   }"

definition reg_write8 :: "'w mmio \<Rightarrow> Register \<Rightarrow> usize \<Rightarrow> u8 \<Rightarrow> 'w \<Rightarrow> 'w option" where
  "reg_write8 io reg byte_offset data w = do {
     ASSERT (reg_size reg > byte_offset);
     Some (io_write8 io (reg_address reg + byte_offset) data w)
   }"

section \<open>Recording the writes\<close>

text \<open>A machine that records the writes and answers every read with the value \<open>f\<close> of its register.\<close>

definition rec_io :: "(u64 \<Rightarrow> u32) \<Rightarrow> (u64 \<times> u32) list mmio" where
  "rec_io f = \<lparr>io_read64 = (\<lambda>a w. (w, ucast (f a))), io_write64 = (\<lambda>a v w. w @ [(a, ucast v)]), io_read32 = (\<lambda>a w. (w, f a)), io_write32 = (\<lambda>a v w. w @ [(a, v)]),
     io_read8 = (\<lambda>a w. (w, ucast (f a))), io_write8 = (\<lambda>a v w. w @ [(a, ucast v)])\<rparr>"

lemma rec_write: "b < reg_size reg \<Longrightarrow> reg_write32 (rec_io f) reg b v w = Some (w @ [(reg_address reg + b, v)])"
  by (simp add: reg_write32_def rec_io_def ASSERT_def)

lemma rec_read: "b < reg_size reg \<Longrightarrow> reg_read32 (rec_io f) reg b w = Some (w, f (reg_address reg + b))"
  by (simp add: reg_read32_def rec_io_def ASSERT_def)

lemma rec_fold:
  "(\<And>i. i \<in> set xs \<Longrightarrow> g i < reg_size reg) \<Longrightarrow>
    foldM (\<lambda>i. reg_write32 (rec_io f) reg (g i) v) xs w = Some (w @ map (\<lambda>i. (reg_address reg + g i, v)) xs)"
  by (induction xs arbitrary: w) (simp_all add: rec_write)

end
