(* ===== verification/Fdt.thy ===== *)
theory Fdt
  imports Registers
begin

text \<open>
  The flattened device tree as the drivers ask it (\<^verbatim>\<open>kernel/boot/fdt.c\<close>). The tree itself belongs to the vendored
  library libfdt: its functions are the fields of an argument. A property is the list of its bytes, \<open>None\<close> when the node
  has no such property; a read behind the end of a property, and a write behind the end of the array of
  interrupt cells, are \<open>None\<close> results.
\<close>

section \<open>The library\<close>

record libfdt =
  lf_check_header :: int
  lf_totalsize :: usize
  lf_check_full :: int
  lf_path_offset :: "string \<Rightarrow> int"
  lf_subnodes :: "int \<Rightarrow> int list"
  lf_get_name :: "int \<Rightarrow> string"
  lf_getprop :: "int \<Rightarrow> string \<Rightarrow> u8 list option"
  lf_next_node :: "int \<Rightarrow> int"
  lf_parent_offset :: "int \<Rightarrow> int"
  lf_node_check_compatible :: "int \<Rightarrow> string \<Rightarrow> int"
  lf_node_offset_by_phandle :: "u32 \<Rightarrow> int"

abbreviation FDT_ERR_NOTFOUND :: int where "FDT_ERR_NOTFOUND \<equiv> 1"

text \<open>A cell is four bytes, the most significant one first.\<close>

definition fdt32_to_cpu :: "u8 list \<Rightarrow> u32" where
  "fdt32_to_cpu b = fold (\<lambda>x acc. push_bit 8 acc OR ucast x) (take 4 b) 0"

definition cell_at :: "u8 list \<Rightarrow> nat \<Rightarrow> u32 option" where
  "cell_at v i = (if 4 * i + 4 \<le> length v then Some (fdt32_to_cpu (drop (4 * i) v)) else None)"

section \<open>The tree\<close>

record FDT =
  fdt_fdt :: u64
  fdt_cpus :: usize

text \<open>
  \<open>dtb\<close> says whether the boot loader gave a tree. The copy has the contents of the original, so the library is asked
  about the same tree.
\<close>

definition fdt_init :: "libfdt \<Rightarrow> bool \<Rightarrow> (usize \<Rightarrow> 'h \<Rightarrow> ('h \<times> u64) option) \<Rightarrow> 'h \<Rightarrow> ('h \<times> FDT) option" where
  "fdt_init lf dtb kalloc h = do {
     ASSERT dtb;
     ASSERT (lf_check_header lf = 0);
     ASSERT (lf_check_full lf = 0);
     let alloc_size = round_up (lf_totalsize lf) PAGE_SIZE;
     (h, p) \<leftarrow> kalloc (alloc_size * 3) h;
     ASSERT (\<not> IS_ERR p);
     let offset = lf_path_offset lf ''/cpus'';
     ASSERT (\<not> offset < 0);
     let count = fold (\<lambda>node n. if take 4 (lf_get_name lf node) = ''cpu@'' then n + 1 else n) (lf_subnodes lf offset) 0;
     Some (h, \<lparr>fdt_fdt = p, fdt_cpus = count\<rparr>)
   }"

definition fdt_cpu_count :: "FDT \<Rightarrow> usize" where
  "fdt_cpu_count fdt = fdt_cpus fdt"

definition fdt_query_prop_value :: "libfdt \<Rightarrow> int \<Rightarrow> string \<Rightarrow> u8 list option" where
  "fdt_query_prop_value lf node_offset prop = lf_getprop lf node_offset prop"

partial_function (option) query_compat_loop :: "libfdt \<Rightarrow> string \<Rightarrow> int \<Rightarrow> int option" where
  "query_compat_loop lf cmp node =
     (if lf_next_node lf node \<ge> 0 then
        (if lf_node_check_compatible lf (lf_next_node lf node) cmp = 0 then Some (lf_next_node lf node)
         else query_compat_loop lf cmp (lf_next_node lf node))
      else Some (- EINVAL))"

definition fdt_query_compat :: "libfdt \<Rightarrow> string \<Rightarrow> int option" where
  "fdt_query_compat lf cmp = query_compat_loop lf cmp (- EINVAL)"

definition fdt_traverse_next_node :: "libfdt \<Rightarrow> int \<Rightarrow> int" where
  "fdt_traverse_next_node lf offset = lf_next_node lf offset"

definition fdt_get_compat :: "libfdt \<Rightarrow> int \<Rightarrow> u8 list option" where
  "fdt_get_compat lf offset = fdt_query_prop_value lf offset ''compatible''"

section \<open>Interrupts\<close>

definition MAX_INTERRUPT_CELLS_COUNT :: nat where "MAX_INTERRUPT_CELLS_COUNT = 8"

record FDTInterrupt =
  fi_cells_count :: int
  fi_cells :: "u32 list"

text \<open>The node of the interrupt controller that a property \<^verbatim>\<open>interrupt-parent\<close> names.\<close>

definition parent_of_phandle :: "libfdt \<Rightarrow> u8 list \<Rightarrow> int option" where
  "parent_of_phandle lf v = do {
     ASSERT (length v = 4);
     h \<leftarrow> cell_at v 0;
     Some (lf_node_offset_by_phandle lf h)
   }"

partial_function (option) parent_walk :: "libfdt \<Rightarrow> int \<Rightarrow> int option" where
  "parent_walk lf parent =
     (if lf_parent_offset lf parent \<ge> 0 then
        (if fdt_query_prop_value lf (lf_parent_offset lf parent) ''interrupt-parent'' \<noteq> None
         then parent_of_phandle lf (the (fdt_query_prop_value lf (lf_parent_offset lf parent) ''interrupt-parent''))
         else parent_walk lf (lf_parent_offset lf parent))
      else Some (- FDT_ERR_NOTFOUND))"

definition fdt_get_interrupt_cells_count :: "libfdt \<Rightarrow> int \<Rightarrow> int option" where
  "fdt_get_interrupt_cells_count lf node = do {
     interrupt_controller \<leftarrow>
       (case fdt_query_prop_value lf node ''interrupt-parent'' of
          Some v \<Rightarrow> parent_of_phandle lf v
        | None \<Rightarrow> parent_walk lf node);
     if interrupt_controller < 0 then Some (- FDT_ERR_NOTFOUND)
     else do {
       ASSERT (fdt_query_prop_value lf interrupt_controller ''interrupt-controller'' \<noteq> None);
       cells \<leftarrow> fdt_query_prop_value lf interrupt_controller ''#interrupt-cells'';
       c \<leftarrow> cell_at cells 0;
       Some (sint c)
     }
   }"

text \<open>
  The last argument is the array of the caller; the result is the array afterwards and the result of the call. Cells
  that the controller does not use keep their value, and so does the whole array when the call fails.
\<close>

definition interrupt_entry :: "u8 list \<Rightarrow> nat \<Rightarrow> nat \<Rightarrow> FDTInterrupt \<Rightarrow> FDTInterrupt option" where
  "interrupt_entry v n i this_fdt = do {
     ASSERT (n \<le> MAX_INTERRUPT_CELLS_COUNT);
     cells \<leftarrow> those (map (\<lambda>j. cell_at v (i * n + j)) [0..<n]);
     Some \<lparr>fi_cells_count = int n, fi_cells = cells @ drop n (fi_cells this_fdt)\<rparr>
   }"

definition fdt_get_interrupt_cells :: "libfdt \<Rightarrow> int \<Rightarrow> FDTInterrupt list \<Rightarrow> (FDTInterrupt list \<times> bool) option" where
  "fdt_get_interrupt_cells lf node fdt_interrupt = do {
     interrupts \<leftarrow> fdt_query_prop_value lf node ''interrupts'';
     intc_cells_count \<leftarrow> fdt_get_interrupt_cells_count lf node;
     if intc_cells_count < 0 then Some (fdt_interrupt, False)
     else do {
       es \<leftarrow> those (map (\<lambda>i. interrupt_entry interrupts (nat intc_cells_count) i (fdt_interrupt ! i)) [0..<length fdt_interrupt]);
       Some (es, True)
     }
   }"

section \<open>Registers\<close>

definition cells_or_default :: "u8 list option \<Rightarrow> u32 option" where
  "cells_or_default prop = (case prop of None \<Rightarrow> Some 2 | Some v \<Rightarrow> cell_at v 0)"

text \<open>A number of several cells; the bits above the lowest 64 are lost.\<close>

definition read_cells :: "u8 list \<Rightarrow> nat \<Rightarrow> nat \<Rightarrow> u64 option" where
  "read_cells v offset n = foldM (\<lambda>i acc. do { c \<leftarrow> cell_at v (offset + i); Some (push_bit 32 acc OR ucast c) }) [0..<n] 0"

definition read_reg :: "u8 list \<Rightarrow> nat \<Rightarrow> nat \<Rightarrow> nat \<Rightarrow> Register option" where
  "read_reg v ac sc i_reg = do {
     let offset = i_reg * (ac + sc);
     address \<leftarrow> read_cells v offset ac;
     size \<leftarrow> read_cells v (offset + ac) sc;
     Some \<lparr>reg_size = size, reg_address = address\<rparr>
   }"

definition fdt_get_reg :: "libfdt \<Rightarrow> int \<Rightarrow> u32 \<Rightarrow> Register list option option" where
  "fdt_get_reg lf node reg_count = do {
     let parent = lf_parent_offset lf node;
     ac \<leftarrow> cells_or_default (lf_getprop lf parent ''#address-cells'');
     sc \<leftarrow> cells_or_default (lf_getprop lf parent ''#size-cells'');
     (case fdt_query_prop_value lf node ''reg'' of
        None \<Rightarrow> Some None
      | Some reg \<Rightarrow>
          if length reg = 0 then Some None
          else do {
            let reg_cells_count = ac + sc;
            ASSERT (reg_cells_count \<noteq> 0);
            let actual = of_nat (length reg) div reg_cells_count div 4;
            if reg_count \<noteq> actual then Some None
            else do {
              rs \<leftarrow> those (map (read_reg reg (unat ac) (unat sc)) [0..<unat reg_count]);
              Some (Some rs)
            }
          })
   }"

definition fdt_get_reg_for_compat :: "libfdt \<Rightarrow> string \<Rightarrow> u32 \<Rightarrow> Register list option option" where
  "fdt_get_reg_for_compat lf cmp reg_count = do {
     node \<leftarrow> fdt_query_compat lf cmp;
     if node < 0 then Some None else fdt_get_reg lf node reg_count
   }"

section \<open>Decoding registers\<close>

text \<open>How a device tree holds numbers: cells of four bytes, the most significant cell and byte first.\<close>

definition enc32 :: "u32 \<Rightarrow> u8 list" where
  "enc32 w = [ucast (drop_bit 24 w), ucast (drop_bit 16 w), ucast (drop_bit 8 w), ucast w]"

definition enc_cells :: "nat \<Rightarrow> u64 \<Rightarrow> u32 list" where
  "enc_cells n v = map (\<lambda>k. ucast (drop_bit (32 * (n - 1 - k)) v)) [0..<n]"

definition enc_reg :: "nat \<Rightarrow> nat \<Rightarrow> Register \<Rightarrow> u32 list" where
  "enc_reg ac sc r = enc_cells ac (reg_address r) @ enc_cells sc (reg_size r)"

lemma length_enc32 [simp]: "length (enc32 w) = 4"
  by (simp add: enc32_def)

lemma length_enc_cells [simp]: "length (enc_cells n v) = n" "length (enc_reg ac sc r) = ac + sc"
  by (simp_all add: enc_cells_def enc_reg_def)

lemma enc32_shifts:
  "push_bit 8 (push_bit 8 (push_bit 8 (push_bit 8 0 OR ucast (ucast (drop_bit 24 w) :: u8)) OR ucast (ucast (drop_bit 16 w) :: u8)) OR
     ucast (ucast (drop_bit 8 w) :: u8)) OR ucast (ucast w :: u8) = w" for w :: u32
proof (rule bit_word_eqI)
  fix n assume n: "n < LENGTH(32)"
  have b: "bit (ucast (ucast x :: u8) :: u32) k \<longleftrightarrow> k < 8 \<and> bit x k" for x :: u32 and k
    by (auto simp: bit_ucast_iff dest: bit_imp_le_length)
  consider "n < 8" | "8 \<le> n" "n < 16" | "16 \<le> n" "n < 24" | "24 \<le> n" "n < 32" using n by fastforce
  then show "bit (push_bit 8 (push_bit 8 (push_bit 8 (push_bit 8 0 OR ucast (ucast (drop_bit 24 w) :: u8)) OR ucast (ucast (drop_bit 16 w) :: u8)) OR
     ucast (ucast (drop_bit 8 w) :: u8)) OR (ucast (ucast w :: u8) :: u32)) n = bit w n"
    using n by cases (auto simp add: bit_or_iff bit_push_bit_iff possible_bit_word bit_drop_bit_eq b)
qed

lemma decode_cell: "fdt32_to_cpu (enc32 w @ r) = w"
proof -
  have "take 4 (enc32 w @ r) = [ucast (drop_bit 24 w), ucast (drop_bit 16 w), ucast (drop_bit 8 w), ucast w]"
    by (simp add: enc32_def)
  then have "fdt32_to_cpu (enc32 w @ r) = push_bit 8 (push_bit 8 (push_bit 8 (push_bit 8 0 OR ucast (ucast (drop_bit 24 w) :: u8)) OR ucast (ucast (drop_bit 16 w) :: u8)) OR
     ucast (ucast (drop_bit 8 w) :: u8)) OR ucast (ucast w :: u8)"
    by (simp only: fdt32_to_cpu_def fold.simps comp_apply id_apply)
  then show ?thesis by (simp only: enc32_shifts)
qed

lemma length_concat_enc [simp]: "length (concat (map enc32 ws)) = 4 * length ws"
  by (induction ws) simp_all

lemma drop_concat_enc: "drop (4 * i) (concat (map enc32 ws)) = concat (map enc32 (drop i ws))"
proof (induction i arbitrary: ws)
  case (Suc i)
  show ?case using Suc by (cases ws) (simp_all add: enc32_def numeral_eq_Suc)
qed simp

lemma cell_at_enc: "cell_at (concat (map enc32 ws)) i = (if i < length ws then Some (ws ! i) else None)"
proof (cases "i < length ws")
  case True
  then have "drop i ws = ws ! i # drop (Suc i) ws" by (simp add: Cons_nth_drop_Suc)
  then show ?thesis using True by (simp add: cell_at_def drop_concat_enc decode_cell)
qed (simp add: cell_at_def)

lemma step_cells:
  fixes v :: u64
  assumes "Suc m = k"
  shows "push_bit 32 (drop_bit (32 * k) v) OR ucast (ucast (drop_bit (32 * m) v) :: u32) = drop_bit (32 * m) v"
proof (rule bit_word_eqI)
  fix n assume n: "n < LENGTH(64)"
  have b: "bit (ucast (ucast x :: u32) :: u64) j \<longleftrightarrow> j < 32 \<and> bit x j" for x :: u64 and j
    by (auto simp: bit_ucast_iff dest: bit_imp_le_length)
  have "32 * k + (n - 32) = 32 * m + n" if "32 \<le> n" using that assms by auto
  then show "bit (push_bit 32 (drop_bit (32 * k) v) OR ucast (ucast (drop_bit (32 * m) v) :: u32)) n = bit (drop_bit (32 * m) v) n"
    using n by (cases "n < 32") (auto simp add: bit_or_iff bit_push_bit_iff possible_bit_word bit_drop_bit_eq b)
qed

lemma read_cells_enc:
  assumes "\<And>i. i < n \<Longrightarrow> cell_at v (off + i) = Some (enc_cells n x ! i)" "drop_bit (32 * n) x = 0"
  shows "read_cells v off n = Some x"
proof -
  have "k \<le> n \<Longrightarrow> foldM (\<lambda>i acc. do { c \<leftarrow> cell_at v (off + i); Some (push_bit 32 acc OR ucast c) }) [0..<k] 0 =
      Some (drop_bit (32 * (n - k)) x)" for k
  proof (induction k)
    case 0
    then show ?case using assms(2) by simp
  next
    case (Suc k)
    then have "cell_at v (off + k) = Some (ucast (drop_bit (32 * (n - 1 - k)) x))"
      using assms(1) by (simp add: enc_cells_def)
    then show ?case using Suc step_cells [of "n - Suc k" "n - k" x] by (simp add: foldM_append Suc_diff_Suc)
  qed
  from this [of n] show ?thesis by (simp add: read_cells_def)
qed

lemma nth_concat_same:
  "i < length xs \<Longrightarrow> (\<And>x. length (f x) = n) \<Longrightarrow> j < n \<Longrightarrow> concat (map f xs) ! (i * n + j) = f (xs ! i) ! j"
proof (induction xs arbitrary: i)
  case (Cons x xs)
  show ?case
  proof (cases i)
    case 0
    then show ?thesis using Cons.prems by (simp add: nth_append)
  next
    case (Suc k)
    then have "concat (map f xs) ! (k * n + j) = f (xs ! k) ! j" using Cons by simp
    then show ?thesis using Suc Cons.prems by (simp add: nth_append)
  qed
qed simp

lemma length_concat_same: "(\<And>x. length (f x) = n) \<Longrightarrow> length (concat (map f xs)) = length xs * n"
  by (induction xs) simp_all

lemma read_reg_enc:
  assumes "i < length rs" "drop_bit (32 * ac) (reg_address (rs ! i)) = 0" "drop_bit (32 * sc) (reg_size (rs ! i)) = 0"
  shows "read_reg (concat (map enc32 (concat (map (enc_reg ac sc) rs)))) ac sc i = Some (rs ! i)"
proof -
  let ?ws = "concat (map (enc_reg ac sc) rs)"
  have len: "length ?ws = length rs * (ac + sc)" by (rule length_concat_same) simp
  have c: "cell_at (concat (map enc32 ?ws)) (i * (ac + sc) + j) = Some (enc_reg ac sc (rs ! i) ! j)" if "j < ac + sc" for j
  proof -
    have "i * (ac + sc) + j < Suc i * (ac + sc)" using that by simp
    also have "\<dots> \<le> length rs * (ac + sc)" using assms(1) by (intro mult_right_mono) simp_all
    finally have "i * (ac + sc) + j < length ?ws" using len by simp
    then show ?thesis using nth_concat_same [of i rs "enc_reg ac sc" "ac + sc" j] assms(1) that by (simp add: cell_at_enc)
  qed
  have a: "read_cells (concat (map enc32 ?ws)) (i * (ac + sc)) ac = Some (reg_address (rs ! i))"
    using c by (intro read_cells_enc assms(2)) (simp add: enc_reg_def nth_append)
  have "cell_at (concat (map enc32 ?ws)) (i * (ac + sc) + ac + j) = Some (enc_cells sc (reg_size (rs ! i)) ! j)" if "j < sc" for j
    using c [of "ac + j"] that by (simp add: enc_reg_def nth_append add.assoc)
  then have z: "read_cells (concat (map enc32 ?ws)) (i * (ac + sc) + ac) sc = Some (reg_size (rs ! i))"
    by (intro read_cells_enc assms(3))
  show ?thesis using a z by (simp add: read_reg_def)
qed

lemma those_map: "(\<And>i. i \<in> set xs \<Longrightarrow> f i = Some (g i)) \<Longrightarrow> those (map f xs) = Some (map g xs)"
  by (induction xs) simp_all

text \<open>
  Claim C29. \<^verbatim>\<open>fdt_get_reg\<close> decodes what a device tree holds: when the parent says how many cells an address and a size
  take, and the property \<^verbatim>\<open>reg\<close> holds the addresses and sizes of some registers in that many cells each, it
  returns exactly those registers to a caller who asks for their number, and an error to one who asks for
  another number.
\<close>

theorem fdt_get_reg_decodes:
  assumes "lf_getprop lf (lf_parent_offset lf node) ''#address-cells'' = Some (enc32 ac)"
    and "lf_getprop lf (lf_parent_offset lf node) ''#size-cells'' = Some (enc32 sc)"
    and "lf_getprop lf node ''reg'' = Some (concat (map enc32 (concat (map (enc_reg (unat ac) (unat sc)) rs))))"
    and "\<forall>r\<in>set rs. drop_bit (32 * unat ac) (reg_address r) = 0 \<and> drop_bit (32 * unat sc) (reg_size r) = 0"
    and "rs \<noteq> []" "0 < unat ac + unat sc" "length rs * (unat ac + unat sc) * 4 < 2 ^ 31"
  shows "fdt_get_reg lf node n = Some (if n = of_nat (length rs) then Some rs else None)"
proof -
  let ?v = "concat (map enc32 (concat (map (enc_reg (unat ac) (unat sc)) rs)))"
  define k where "k = unat ac + unat sc"
  have len: "length ?v = length rs * k * 4" by (simp add: length_concat_same k_def)
  have "1 * k \<le> length rs * k" using assms(5) by (intro mult_right_mono) (simp_all add: Suc_le_eq)
  moreover have m: "length rs * k * 4 < 2 ^ 31" using assms(7) by (simp only: k_def)
  moreover have "(2 :: nat) ^ 31 < 2 ^ 32" by simp
  ultimately have kb: "k < 2 ^ 32" by linarith
  then have uk: "unat (ac + sc) = k" by (simp add: k_def unat_word_ariths)
  then have nz: "ac + sc \<noteq> 0" using assms(6) unsigned_0 by (metis k_def less_irrefl)
  have small: "length rs * k * 4 < 2 ^ 32" using assms(7) by (simp add: k_def)
  have un: "m < 2 ^ 32 \<Longrightarrow> unat (of_nat m :: u32) = m" for m by (simp add: unat_of_nat take_bit_nat_eq_self)
  have ul: "unat (of_nat (length rs * k * 4) :: u32) = length rs * k * 4" using small by (rule un)
  have "length rs * 1 \<le> length rs * k" using assms(6) by (intro mult_left_mono) (simp_all add: k_def Suc_le_eq)
  then have lb: "length rs < 2 ^ 32" using small by linarith
  have "unat (of_nat (length rs * k * 4) div (ac + sc) div 4 :: u32) = length rs * k * 4 div k div 4"
    by (simp only: unat_div ul uk) simp
  also have "\<dots> = length rs"
  proof -
    have "length rs * k * 4 = length rs * 4 * k" by simp
    moreover have "k \<noteq> 0" using assms(6) by (simp add: k_def)
    ultimately show ?thesis by (metis nonzero_mult_div_cancel_right zero_neq_numeral)
  qed
  finally have act: "(of_nat (length rs * k * 4) div (ac + sc) div 4 :: u32) = of_nat (length rs)"
    using lb by (metis of_nat_unat ucast_id)
  have ne: "length ?v \<noteq> 0" using assms(5,6) len by (simp add: k_def)
  have c: "cells_or_default (Some (enc32 w)) = Some w" for w
    using decode_cell [of w "[]"] by (simp add: cells_or_default_def cell_at_def)
  have "those (map (read_reg ?v (unat ac) (unat sc)) [0..<length rs]) = Some (map ((!) rs) [0..<length rs])"
    using assms(4) by (intro those_map read_reg_enc) auto
  then have t: "those (map (read_reg ?v (unat ac) (unat sc)) [0..<length rs]) = Some rs" by (simp add: map_nth)
  have "unat (of_nat (length rs) :: u32) = length rs" using lb by (rule un)
  then show ?thesis
    using assms(1-3) c t ne nz act
    by (simp add: fdt_get_reg_def fdt_query_prop_value_def Let_def len ASSERT_def del: length_concat_enc length_0_conv concat_eq_Nil_conv)
qed

theorem fdt_get_reg_decodes_witness:
  "\<exists>lf. fdt_get_reg lf 7 2 = Some (Some [\<lparr>reg_size = 0x10000, reg_address = 0x8000000\<rparr>, \<lparr>reg_size = 0x20000, reg_address = 0x100008010000\<rparr>])"
proof -
  let ?rs = "[\<lparr>reg_size = 0x10000, reg_address = 0x8000000\<rparr>, \<lparr>reg_size = 0x20000, reg_address = 0x100008010000\<rparr>] :: Register list"
  let ?get = "\<lambda>(node :: int) prop. if node = 3 then (if prop = ''#address-cells'' then Some (enc32 2) else if prop = ''#size-cells'' then Some (enc32 1) else None)
    else if node = 7 \<and> prop = ''reg'' then Some (concat (map enc32 (concat (map (enc_reg (unat (2 :: u32)) (unat (1 :: u32))) ?rs)))) else None"
  define lf where "lf = \<lparr>lf_check_header = 0, lf_totalsize = 0, lf_check_full = 0, lf_path_offset = (\<lambda>_. 0), lf_subnodes = (\<lambda>_. []),
    lf_get_name = (\<lambda>_. []), lf_getprop = ?get, lf_next_node = id, lf_parent_offset = (\<lambda>_. 3),
    lf_node_check_compatible = (\<lambda>_ _. 0), lf_node_offset_by_phandle = (\<lambda>_. 0)\<rparr>"
  have lf: "lf_getprop lf = ?get" "lf_parent_offset lf = (\<lambda>_. 3)" by (simp_all add: lf_def)
  have "fdt_get_reg lf 7 2 = Some (if (2 :: u32) = of_nat (length ?rs) then Some ?rs else None)"
    by (rule fdt_get_reg_decodes [of lf 7 2 1]) (simp_all add: lf)
  then show ?thesis by (intro exI [of _ lf]) simp
qed

end
