(* ===== verification/Drivers.thy ===== *)
theory Drivers
  imports Fdt CString
begin

text \<open>
  Drivers over device registers: the interrupt controller (\<^verbatim>\<open>drivers/irqchip/arm-gicv2.c\<close>) and the serial line
  (\<^verbatim>\<open>drivers/uart/pl011.c\<close>). The data of a driver is a value here; in the code it is in a block of the heap whose
  address is the device's \<^verbatim>\<open>driver_data\<close>. What the probe functions need of the kernel is an argument.
\<close>

section \<open>What drivers ask of the kernel\<close>

text \<open>The interrupt handlers of the kernel.\<close>

datatype irq_handler_t = Timer_tick | Recieve_irq_handler | Virtio_blk_irq_handler

record 'w drv_ops =
  dp_kalloc :: "usize \<Rightarrow> 'w \<Rightarrow> ('w \<times> u64) option"
  dp_kfree :: "u64 \<Rightarrow> 'w \<Rightarrow> 'w option"
  dp_vm_mmio_map :: "usize \<Rightarrow> usize \<Rightarrow> 'w \<Rightarrow> ('w \<times> u64) option"
  dp_vm_mmio_unmap :: "u64 \<Rightarrow> usize \<Rightarrow> 'w \<Rightarrow> 'w option"
  dp_request_irq :: "u32 \<Rightarrow> irq_handler_t \<Rightarrow> u64 \<Rightarrow> 'w \<Rightarrow> 'w option"
  dp_reject_irq :: "u32 \<Rightarrow> 'w \<Rightarrow> 'w option"

text \<open>\<^verbatim>\<open>for (u32 i = a; i < b; i += step)\<close> with a body that writes a register.\<close>

definition u32_steps :: "nat \<Rightarrow> nat \<Rightarrow> nat \<Rightarrow> nat list" where
  "u32_steps a b step = map (\<lambda>k. a + k * step) [0..<(b - a + step - 1) div step]"

section \<open>The interrupt controller\<close>

abbreviation GIC_SPI_INT_BASE :: nat where "GIC_SPI_INT_BASE \<equiv> 32"
definition GICC_CTLR_ENABLE_MASK :: u32 where "GICC_CTLR_ENABLE_MASK = 3"
definition GICD_CTLR :: usize where "GICD_CTLR = 0x0"
definition GICD_TYPER :: usize where "GICD_TYPER = 0x4"
definition GICD_IGROUPRn :: usize where "GICD_IGROUPRn = 0x80"
definition GICD_ISENABLERn :: usize where "GICD_ISENABLERn = 0x100"
definition GICD_ICENABLERn :: usize where "GICD_ICENABLERn = 0x180"
definition GICD_IPRIORITYRn :: usize where "GICD_IPRIORITYRn = 0x400"
definition GICD_ITARGETSRn :: usize where "GICD_ITARGETSRn = 0x800"
definition GICD_ICFGRn :: usize where "GICD_ICFGRn = 0xc00"
definition GICC_CTLR :: usize where "GICC_CTLR = 0x0"
definition GICC_PMR :: usize where "GICC_PMR = 0x4"
definition GICC_IAR :: usize where "GICC_IAR = 0xC"
definition GICC_EOIR :: usize where "GICC_EOIR = 0x10"

lemmas gic_offsets = GICD_CTLR_def GICD_TYPER_def GICD_IGROUPRn_def GICD_ISENABLERn_def GICD_ICENABLERn_def GICD_IPRIORITYRn_def
  GICD_ITARGETSRn_def GICD_ICFGRn_def GICC_CTLR_def GICC_PMR_def GICC_IAR_def GICC_EOIR_def

record GicV2Data =
  gic_dist :: Register
  gic_cpu :: Register
  gic_interrupts_count :: usize

definition arm_gic_irq_enable :: "'w mmio \<Rightarrow> GicV2Data \<Rightarrow> u32 \<Rightarrow> 'w \<Rightarrow> 'w option" where
  "arm_gic_irq_enable io data irq w =
     (let int_grp = ucast (irq div 32); int_off = unat (irq mod 32)
      in reg_write32 io (gic_dist data) (GICD_ISENABLERn + int_grp * 4) (push_bit int_off 1) w)"

definition arm_gic_irq_disable :: "'w mmio \<Rightarrow> GicV2Data \<Rightarrow> u32 \<Rightarrow> 'w \<Rightarrow> 'w option" where
  "arm_gic_irq_disable io data irq w =
     (let int_grp = ucast (irq div 32); int_off = unat (irq mod 32)
      in reg_write32 io (gic_dist data) (GICD_ICENABLERn + int_grp * 4) (push_bit int_off 1) w)"

definition arm_gic_irq_get_active :: "'w mmio \<Rightarrow> GicV2Data \<Rightarrow> 'w \<Rightarrow> ('w \<times> u32) option" where
  "arm_gic_irq_get_active io data w = reg_read32 io (gic_cpu data) GICC_IAR w"

definition arm_gic_irq_eoi :: "'w mmio \<Rightarrow> GicV2Data \<Rightarrow> u32 \<Rightarrow> 'w \<Rightarrow> 'w option" where
  "arm_gic_irq_eoi io data irq w = reg_write32 io (gic_cpu data) GICC_EOIR irq w"

definition gic_interrupts_count_of :: "'w mmio \<Rightarrow> Register \<Rightarrow> 'w \<Rightarrow> ('w \<times> u32) option" where
  "gic_interrupts_count_of io dist w = do {
     (w, v) \<leftarrow> reg_read32 io dist GICD_TYPER w;
     let typer = v AND 0x1f;
     Some (w, (typer + 1) * 32)
   }"

definition interrupts_count :: "'w mmio \<Rightarrow> GicV2Data \<Rightarrow> 'w \<Rightarrow> ('w \<times> u32) option" where
  "interrupts_count io data w = gic_interrupts_count_of io (gic_dist data) w"

definition gic_cpu_init :: "'w mmio \<Rightarrow> GicV2Data \<Rightarrow> 'w \<Rightarrow> 'w option" where
  "gic_cpu_init io data w = do {
     let dist = gic_dist data;
     let cpu = gic_cpu data;
     w \<leftarrow> reg_write32 io dist GICD_ICENABLERn 0xffff0000 w;
     w \<leftarrow> reg_write32 io dist GICD_ISENABLERn 0x0000ffff w;
     w \<leftarrow> foldM (\<lambda>i. reg_write32 io dist (GICD_IPRIORITYRn + of_nat i) 0xa0a0a0a0) (u32_steps 0 32 4) w;
     w \<leftarrow> reg_write32 io cpu GICC_PMR 0xff w;
     (w, val) \<leftarrow> reg_read32 io cpu GICC_CTLR w;
     reg_write32 io cpu GICC_CTLR (val OR GICC_CTLR_ENABLE_MASK) w
   }"

text \<open>The mask of the processors is a byte: the bits of processors from the ninth on are lost.\<close>

definition gic_cpu_mask :: "nat \<Rightarrow> u8" where
  "gic_cpu_mask cpu_count = fold (\<lambda>i m. m OR push_bit i 1) [0..<cpu_count] 0"

definition armgicv2_probe_dist :: "'w mmio \<Rightarrow> nat \<Rightarrow> Register \<Rightarrow> 'w \<Rightarrow> 'w option" where
  "armgicv2_probe_dist io cpu_count dist w = do {
     (w, irqs) \<leftarrow> gic_interrupts_count_of io dist w;
     w \<leftarrow> reg_write32 io dist GICD_CTLR 0 w;
     let m = (ucast (gic_cpu_mask cpu_count) :: u32);
     let reg_val = m OR push_bit 8 m OR push_bit 16 m OR push_bit 24 m;
     w \<leftarrow> foldM (\<lambda>i. reg_write32 io dist (GICD_ITARGETSRn + of_nat i) reg_val) (u32_steps GIC_SPI_INT_BASE (unat irqs) 4) w;
     w \<leftarrow> foldM (\<lambda>i. reg_write32 io dist (GICD_ICFGRn + of_nat (i div 4)) 0) (u32_steps GIC_SPI_INT_BASE (unat irqs) 16) w;
     w \<leftarrow> foldM (\<lambda>i. reg_write32 io dist (GICD_IPRIORITYRn + of_nat i) 0) (u32_steps GIC_SPI_INT_BASE (unat irqs) 4) w;
     w \<leftarrow> foldM (\<lambda>i. reg_write32 io dist (GICD_IGROUPRn + of_nat (i div 8)) 0) (u32_steps GIC_SPI_INT_BASE (unat irqs) 32) w;
     w \<leftarrow> foldM (\<lambda>i. reg_write32 io dist (GICD_ICENABLERn + of_nat (i div 8)) 0xffffffff) (u32_steps GIC_SPI_INT_BASE (unat irqs) 32) w;
     reg_write32 io dist GICD_CTLR 1 w
   }"

abbreviation sizeof_GicV2Data :: usize where "sizeof_GicV2Data \<equiv> 40"

text \<open>
  The probe checks the \<^verbatim>\<open>driver_data\<close> that the device already has instead of the block it has just allocated. The result
  is the error and, on success, the block with the data of the driver.
\<close>

definition armgicv2_probe ::
  "'w mmio \<Rightarrow> 'w drv_ops \<Rightarrow> libfdt \<Rightarrow> FDT \<Rightarrow> int \<Rightarrow> u64 \<Rightarrow> 'w \<Rightarrow> ('w \<times> errno_t \<times> (u64 \<times> GicV2Data) option) option" where
  "armgicv2_probe io dp lf fdt fdt_node_offset driver_data w = do {
     (w, gic_data) \<leftarrow> dp_kalloc dp sizeof_GicV2Data w;
     if IS_ERR driver_data then Some (w, - ENOMEM, None)
     else do {
       regs \<leftarrow> fdt_get_reg lf fdt_node_offset 2;
       (case regs of
          None \<Rightarrow> do { w \<leftarrow> dp_kfree dp gic_data w; Some (w, - ENODEV, None) }
        | Some reg \<Rightarrow> do {
            ASSERT (\<not> IS_ERR gic_data);
            (w, dist_va) \<leftarrow> dp_vm_mmio_map dp (reg_address (reg ! 0)) (reg_size (reg ! 0)) w;
            if IS_ERR dist_va then do { w \<leftarrow> dp_kfree dp gic_data w; Some (w, - ENOMEM, None) }
            else do {
              (w, cpu_va) \<leftarrow> dp_vm_mmio_map dp (reg_address (reg ! 1)) (reg_size (reg ! 1)) w;
              if IS_ERR cpu_va then do {
                w \<leftarrow> dp_vm_mmio_unmap dp dist_va (reg_size (reg ! 0)) w;
                w \<leftarrow> dp_kfree dp gic_data w;
                Some (w, - ENOMEM, None)
              }
              else do {
                let dist = (reg ! 0)\<lparr>reg_address := dist_va\<rparr>;
                w \<leftarrow> armgicv2_probe_dist io (unat (fdt_cpu_count fdt)) dist w;
                (w, n) \<leftarrow> gic_interrupts_count_of io dist w;
                Some (w, EOK, Some (gic_data, \<lparr>gic_dist = dist, gic_cpu = (reg ! 1)\<lparr>reg_address := cpu_va\<rparr>, gic_interrupts_count = ucast n\<rparr>))
              }
            }
          })
     }
   }"

definition armgicv2_remove :: "'w drv_ops \<Rightarrow> u64 \<Rightarrow> GicV2Data \<Rightarrow> 'w \<Rightarrow> ('w \<times> errno_t) option" where
  "armgicv2_remove dp driver_data gic_data w = do {
     w \<leftarrow> dp_vm_mmio_unmap dp (reg_address (gic_dist gic_data)) (reg_size (gic_dist gic_data)) w;
     w \<leftarrow> dp_vm_mmio_unmap dp (reg_address (gic_cpu gic_data)) (reg_size (gic_cpu gic_data)) w;
     w \<leftarrow> dp_kfree dp driver_data w;
     Some (w, EOK)
   }"

text \<open>The operations of an interrupt controller, and those of this one; \<open>dd\<close> gives the data of a device.\<close>

record 'w IrqChipOps =
  co_cpu_init :: "u64 \<Rightarrow> 'w \<Rightarrow> 'w option"
  co_enable :: "u64 \<Rightarrow> u32 \<Rightarrow> 'w \<Rightarrow> 'w option"
  co_disable :: "u64 \<Rightarrow> u32 \<Rightarrow> 'w \<Rightarrow> 'w option"
  co_get_active :: "u64 \<Rightarrow> 'w \<Rightarrow> ('w \<times> u32) option"
  co_signal_eoi :: "u64 \<Rightarrow> u32 \<Rightarrow> 'w \<Rightarrow> 'w option"
  co_interrupts_count :: "u64 \<Rightarrow> 'w \<Rightarrow> ('w \<times> u32) option"

definition gic_ops :: "'w mmio \<Rightarrow> (u64 \<Rightarrow> GicV2Data) \<Rightarrow> 'w IrqChipOps" where
  "gic_ops io dd =
     \<lparr>co_cpu_init = (\<lambda>device. gic_cpu_init io (dd device)), co_enable = (\<lambda>device. arm_gic_irq_enable io (dd device)),
      co_disable = (\<lambda>device. arm_gic_irq_disable io (dd device)), co_get_active = (\<lambda>device. arm_gic_irq_get_active io (dd device)),
      co_signal_eoi = (\<lambda>device. arm_gic_irq_eoi io (dd device)), co_interrupts_count = (\<lambda>device. interrupts_count io (dd device))\<rparr>"

section \<open>The serial line\<close>

definition UARTDR :: usize where "UARTDR = 0x000"
definition UARTFR :: usize where "UARTFR = 0x018"
definition UARTFR_BUSY :: u32 where "UARTFR_BUSY = 8"
definition UARTFR_RXFE :: u32 where "UARTFR_RXFE = 16"
definition UARTICR :: usize where "UARTICR = 0x044"

partial_function (option) wait_clear :: "'w mmio \<Rightarrow> Register \<Rightarrow> u32 \<Rightarrow> 'w \<Rightarrow> 'w option" where
  "wait_clear io reg bits w = do {
     (w, v) \<leftarrow> reg_read32 io reg UARTFR w;
     if v AND bits \<noteq> 0 then wait_clear io reg bits w else Some w
   }"

definition wait_tx_complete :: "'w mmio \<Rightarrow> Register \<Rightarrow> 'w \<Rightarrow> 'w option" where
  "wait_tx_complete io reg w = wait_clear io reg UARTFR_BUSY w"

definition wait_rx_ready :: "'w mmio \<Rightarrow> Register \<Rightarrow> 'w \<Rightarrow> 'w option" where
  "wait_rx_ready io reg w = wait_clear io reg UARTFR_RXFE w"

definition uart_putchar :: "'w mmio \<Rightarrow> Register \<Rightarrow> u8 \<Rightarrow> 'w \<Rightarrow> 'w option" where
  "uart_putchar io reg c w = do {
     w \<leftarrow> wait_tx_complete io reg w;
     reg_write32 io reg UARTDR (ucast c) w
   }"

definition pl011_write :: "'w mmio \<Rightarrow> Register \<Rightarrow> bytes \<Rightarrow> u64 \<Rightarrow> usize \<Rightarrow> 'w \<Rightarrow> 'w option" where
  "pl011_write io reg m msg len w = foldM (\<lambda>i. uart_putchar io reg (m (msg + i))) (u64_range 0 len) w"

definition pl011_read :: "'w mmio \<Rightarrow> Register \<Rightarrow> 'w \<Rightarrow> ('w \<times> u8) option" where
  "pl011_read io reg w = do {
     w \<leftarrow> wait_rx_ready io reg w;
     reg_read8 io reg UARTDR w
   }"

definition pl011_flush :: "'w mmio \<Rightarrow> Register \<Rightarrow> 'w \<Rightarrow> 'w option" where
  "pl011_flush io reg w = wait_tx_complete io reg w"

text \<open>The result is \<^verbatim>\<open>ibrd\<close> and \<^verbatim>\<open>fbrd\<close>; the multiplication is one of 32 bits.\<close>

definition calculate_divisor :: "u64 \<Rightarrow> u32 \<Rightarrow> u32 \<times> u32" where
  "calculate_divisor base_clock baud_rate =
     (let d = 4 * ucast base_clock div baud_rate in (drop_bit 6 d AND 0xffff, d AND 0x3f))"

text \<open>The interrupt handler reads one character, hands it to the console and clears nothing.\<close>

definition recieve_irq_handler :: "'w mmio \<Rightarrow> (u8 \<Rightarrow> 'w \<Rightarrow> 'w option) \<Rightarrow> Register \<Rightarrow> 'w \<Rightarrow> 'w option" where
  "recieve_irq_handler io console_receive_char reg w = do {
     (w, c) \<leftarrow> reg_read8 io reg UARTDR w;
     w \<leftarrow> console_receive_char c w;
     reg_write8 io reg UARTICR 0 w
   }"

definition BAUD_RATE :: u32 where "BAUD_RATE = 115200"
definition BASE_CLOCK :: u64 where "BASE_CLOCK = 24000000"
definition UARTIBRD :: usize where "UARTIBRD = 0x024"
definition UARTFBRD :: usize where "UARTFBRD = 0x028"
definition UARTLCR_H :: usize where "UARTLCR_H = 0x02C"
definition UARTLCR_H_FEN :: u32 where "UARTLCR_H_FEN = 16"
definition UARTCR :: usize where "UARTCR = 0x030"
definition UARTCR_UARTEN :: u32 where "UARTCR_UARTEN = 1"
definition UARTCR_TEX :: u32 where "UARTCR_TEX = 256"
definition UARTCR_REX :: u32 where "UARTCR_REX = 512"
definition UARTIMSC :: usize where "UARTIMSC = 0x038"
definition UARTDMACR :: usize where "UARTDMACR = 0x048"

record Pl011DriverData =
  pl_base_addr :: Register
  pl_irq :: u32

abbreviation sizeof_Pl011DriverData :: usize where "sizeof_Pl011DriverData \<equiv> 24"

text \<open>The part of the probe that programs the device.\<close>

definition pl011_configure :: "'w mmio \<Rightarrow> Register \<Rightarrow> 'w \<Rightarrow> 'w option" where
  "pl011_configure io base w = do {
     (w, cr) \<leftarrow> reg_read32 io base UARTCR w;
     w \<leftarrow> reg_write32 io base UARTCR (cr AND NOT UARTCR_UARTEN) w;
     w \<leftarrow> wait_tx_complete io base w;
     (w, v) \<leftarrow> reg_read32 io base UARTLCR_H w;
     w \<leftarrow> reg_write32 io base UARTLCR_H (v OR UARTLCR_H_FEN) w;
     let (ibrd, fbrd) = calculate_divisor BASE_CLOCK BAUD_RATE;
     w \<leftarrow> reg_write32 io base UARTIBRD ibrd w;
     w \<leftarrow> reg_write32 io base UARTFBRD fbrd w;
     w \<leftarrow> reg_write32 io base UARTICR 0x7ff w;
     w \<leftarrow> reg_write32 io base UARTIMSC 16 w;
     w \<leftarrow> reg_write32 io base UARTDMACR 0 w;
     (w, cr) \<leftarrow> reg_read32 io base UARTCR w;
     reg_write32 io base UARTCR (cr OR UARTCR_UARTEN OR UARTCR_TEX OR UARTCR_REX) w
   }"

text \<open>
  \<open>junk\<close> is what the variable for the interrupt cells holds before; whether they were found is not checked.
\<close>

definition pl011_probe ::
  "'w mmio \<Rightarrow> 'w drv_ops \<Rightarrow> libfdt \<Rightarrow> FDTInterrupt \<Rightarrow> u64 \<Rightarrow> int \<Rightarrow> 'w \<Rightarrow> ('w \<times> errno_t \<times> (u64 \<times> Pl011DriverData) option) option" where
  "pl011_probe io dp lf junk device fdt_node_offset w = do {
     regs \<leftarrow> fdt_get_reg lf fdt_node_offset 1;
     (case regs of
        None \<Rightarrow> Some (w, - ENODEV, None)
      | Some rs \<Rightarrow> do {
          let reg = rs ! 0;
          (w, driver_data) \<leftarrow> dp_kalloc dp sizeof_Pl011DriverData w;
          if IS_ERR driver_data then Some (w, - ENOMEM, None)
          else do {
            (w, va) \<leftarrow> dp_vm_mmio_map dp (reg_address reg) (reg_size reg) w;
            if IS_ERR va then do { w \<leftarrow> dp_kfree dp driver_data w; Some (w, - ENOMEM, None) }
            else do {
              let base = \<lparr>reg_size = reg_size reg, reg_address = va\<rparr>;
              w \<leftarrow> pl011_configure io base w;
              (fdt_interrupt, _) \<leftarrow> fdt_get_interrupt_cells lf fdt_node_offset [junk];
              let irq = fi_cells (fdt_interrupt ! 0) ! 1 + 32;
              w \<leftarrow> dp_request_irq dp irq Recieve_irq_handler device w;
              Some (w, EOK, Some (driver_data, \<lparr>pl_base_addr = base, pl_irq = irq\<rparr>))
            }
          }
        })
   }"

definition pl011_remove :: "'w mmio \<Rightarrow> 'w drv_ops \<Rightarrow> u64 \<Rightarrow> Pl011DriverData \<Rightarrow> 'w \<Rightarrow> ('w \<times> errno_t) option" where
  "pl011_remove io dp driver_data data w = do {
     w \<leftarrow> wait_tx_complete io (pl_base_addr data) w;
     w \<leftarrow> dp_reject_irq dp (pl_irq data) w;
     w \<leftarrow> dp_vm_mmio_unmap dp (reg_address (pl_base_addr data)) PAGE_SIZE w;
     w \<leftarrow> dp_kfree dp driver_data w;
     Some (w, EOK)
   }"

section \<open>What the drivers write\<close>

text \<open>The serial line sends the bytes of a message in order.\<close>

lemma pl011_write_sends:
  assumes "UARTFR < reg_size reg" "f (reg_address reg + UARTFR) AND UARTFR_BUSY = 0"
  shows "pl011_write (rec_io f) reg m msg len w =
    Some (w @ map (\<lambda>i. (reg_address reg + UARTDR, ucast (m (msg + of_nat i)))) [0..<unat len])"
proof -
  have lt: "UARTDR < reg_size reg" using assms(1) by (simp add: UARTDR_def UARTFR_def word_less_nat_alt)
  have "wait_tx_complete (rec_io f) reg w = Some w" for w
    unfolding wait_tx_complete_def by (subst wait_clear.simps) (use assms in \<open>simp add: rec_read\<close>)
  then have "uart_putchar (rec_io f) reg c w = Some (w @ [(reg_address reg + UARTDR, ucast c)])" for c w
    using lt by (simp add: uart_putchar_def rec_write)
  then have "foldM (\<lambda>i. uart_putchar (rec_io f) reg (m (msg + i))) xs w =
      Some (w @ map (\<lambda>i. (reg_address reg + UARTDR, ucast (m (msg + i)))) xs)" for xs w
    by (induction xs arbitrary: w) simp_all
  then show ?thesis by (simp add: pl011_write_def u64_range_def comp_def)
qed

text \<open>The interrupts of the shared peripherals go to the first eight processors only.\<close>

lemma gic_cpu_mask_bits: "bit (gic_cpu_mask n) k \<longleftrightarrow> k < n \<and> k < 8"
proof -
  have "bit (2 ^ n :: u8) k \<longleftrightarrow> k = n \<and> k < 8" for n by (auto simp: bit_exp_iff possible_bit_word)
  then show ?thesis by (induction n) (auto simp: gic_cpu_mask_def bit_or_iff less_Suc_eq)
qed

end
