(* ===== verification/Devices.thy ===== *)
theory Devices
  imports ScopedLock CString
begin

text \<open>
  The driver manager (\<^verbatim>\<open>drivers/common/manager.c\<close>, \<^verbatim>\<open>manager.h\<close>) and the block layer over block devices
  (\<^verbatim>\<open>fs/block.c\<close>).

  The drivers of the \<^verbatim>\<open>.driver\<close> section are a list, a device names its driver by the position in it. The
  devices are a store from their addresses, linked through \<^verbatim>\<open>next\<close>. The probe function of a driver and the
  operations of a block device work on the whole state, the rest of which is \<open>'w\<close>. The device tree is the list of
  its nodes in the order \<^verbatim>\<open>fdt_traverse_next_node\<close> visits them, each with its offset and its compatible string.
\<close>

section \<open>Devices and drivers\<close>

datatype DeviceClass = DEVICE_UNKNOWN | DEVICE_FRAMEBUFFER | DEVICE_CONSOLE | DEVICE_IRQCHIP | DEVICE_TIMER | DEVICE_BLOCK
  | DEVICE_ENTROPY | DEVICE_NETWORK | DEVICE_VIRTIO_MMIO_DEVICE

datatype DeviceState = DEVICE_DISCOVERED | DEVICE_READY | DEVICE_FAILED

record Device =
  dv_name :: "u8 list"
  dv_driver :: nat
  dv_class :: DeviceClass
  dv_state :: DeviceState
  dv_fdt_node_offset :: int
  dv_next :: u64

record DriverManager =
  dm_device_list :: u64
  dm_lock :: SpinLock

record 'w dev_state = cpu_ctx +
  ds_manager :: DriverManager
  ds_devices :: "u64 \<Rightarrow> Device"
  ds_world :: 'w

type_synonym ('w, 'a) dss = "('w, 'a) dev_state_scheme"

record 's Driver =
  dr_name :: "u8 list"
  dr_compatible :: "u8 list list"
  dr_probe :: "u64 \<Rightarrow> 's \<Rightarrow> ('s \<times> errno_t) option"
  dr_device_class :: DeviceClass

definition upd_device :: "u64 \<Rightarrow> (Device \<Rightarrow> Device) \<Rightarrow> ('w, 'a) dss \<Rightarrow> ('w, 'a) dss" where
  "upd_device p f s = s\<lparr>ds_devices := (ds_devices s)(p := f (ds_devices s p))\<rparr>"

definition dml_get :: "('w, 'a) dss \<Rightarrow> SpinLock" where "dml_get s = dm_lock (ds_manager s)"
definition dml_put :: "SpinLock \<Rightarrow> ('w, 'a) dss \<Rightarrow> ('w, 'a) dss" where
  "dml_put l s = s\<lparr>ds_manager := (ds_manager s)\<lparr>dm_lock := l\<rparr>\<rparr>"

interpretation dml: lock_slot "\<lambda>_. True" dml_get dml_put
  by unfold_locales (simp_all add: dml_get_def dml_put_def cx_put_def)

section \<open>The driver manager\<close>

text \<open>The first driver that lists the string; its position, or \<open>None\<close> for the error pointer.\<close>

primrec find_compat_from :: "nat \<Rightarrow> 's Driver list \<Rightarrow> u8 list \<Rightarrow> nat option" where
  "find_compat_from i [] req_compat = None"
| "find_compat_from i (driver # drivers) req_compat =
     (if req_compat \<in> set (dr_compatible driver) then Some i else find_compat_from (Suc i) drivers req_compat)"

definition find_compat_driver :: "'s Driver list \<Rightarrow> u8 list \<Rightarrow> nat option" where
  "find_compat_driver drivers req_compat = find_compat_from 0 drivers req_compat"

definition insert_device :: "u64 \<Rightarrow> ('w, 'a) dss \<Rightarrow> ('w, 'a) dss" where
  "insert_device device s =
     (let s = upd_device device (dv_next_update (\<lambda>_. dm_device_list (ds_manager s))) s
      in s\<lparr>ds_manager := (ds_manager s)\<lparr>dm_device_list := device\<rparr>\<rparr>)"

text \<open>One node of the device tree; the result of \<^verbatim>\<open>kalloc\<close> is not checked,
  and writing through an error pointer faults.\<close>

definition discover_node ::
  "(('w, 'a) dss \<Rightarrow> (('w, 'a) dss \<times> u64) option) \<Rightarrow> ('w, 'a) dss Driver list \<Rightarrow> int \<times> u8 list option \<Rightarrow> ('w, 'a) dss \<Rightarrow> ('w, 'a) dss option" where
  "discover_node kalloc drivers node s =
     (case node of (offset, None) \<Rightarrow> Some s
      | (offset, Some str) \<Rightarrow>
          (case find_compat_driver drivers str of
             None \<Rightarrow> Some s
           | Some driver \<Rightarrow> do {
               (s, device) \<leftarrow> kalloc s;
               ASSERT (\<not> IS_ERR device);
               let s = upd_device device (\<lambda>d. d\<lparr>dv_state := DEVICE_DISCOVERED, dv_class := dr_device_class (drivers ! driver),
                 dv_name := dr_name (drivers ! driver), dv_fdt_node_offset := offset, dv_driver := driver\<rparr>) s;
               Some (insert_device device s)
             }))"

definition dmanager_init ::
  "(('w, 'a) dss \<Rightarrow> (('w, 'a) dss \<times> u64) option) \<Rightarrow> ('w, 'a) dss Driver list \<Rightarrow> (int \<times> u8 list option) list \<Rightarrow> ('w, 'a) dss \<Rightarrow> (('w, 'a) dss \<times> unit) option" where
  "dmanager_init kalloc drivers nodes s =
     with_lock dml_get dml_put (\<lambda>s. do { s \<leftarrow> foldM (discover_node kalloc drivers) nodes s; Some (s, ()) }) (dml_put spinlock_init s)"

definition dmanager_ready_device :: "('w, 'a) dss Driver list \<Rightarrow> u64 \<Rightarrow> ('w, 'a) dss \<Rightarrow> (('w, 'a) dss \<times> errno_t) option" where
  "dmanager_ready_device drivers device s =
     (let d = ds_devices s device; driver = drivers ! dv_driver d in
      if dv_state d = DEVICE_READY then Some (s, EOK)
      else if dr_device_class driver = DEVICE_UNKNOWN then Some (s, - ENODEV)
      else do {
        (s, ret) \<leftarrow> dr_probe driver device s;
        Some (if ret = EOK then upd_device device (dv_state_update (\<lambda>_. DEVICE_READY)) s else s, ret)
      })"

partial_function (option) class_loop :: "DeviceClass \<Rightarrow> usize \<Rightarrow> u64 \<Rightarrow> usize \<Rightarrow> (u64 \<Rightarrow> Device) \<Rightarrow> u64 option" where
  "class_loop cls skip cur count dvs =
     (if cur = 0 then Some (ERR_TO_PTR (- ENOENT))
      else if dv_class (dvs cur) = cls then
        (if count + 1 = skip + 1 then Some cur else class_loop cls skip (dv_next (dvs cur)) (count + 1) dvs)
      else class_loop cls skip (dv_next (dvs cur)) count dvs)"

definition dmanager_get_by_class_skip :: "DeviceClass \<Rightarrow> usize \<Rightarrow> ('w, 'a) dss \<Rightarrow> (('w, 'a) dss \<times> u64) option" where
  "dmanager_get_by_class_skip cls skip s =
     with_lock dml_get dml_put (\<lambda>s. do {
       p \<leftarrow> class_loop cls skip (dm_device_list (ds_manager s)) 0 (ds_devices s);
       Some (s, p)
     }) s"

definition dmanager_get_by_class_first :: "DeviceClass \<Rightarrow> ('w, 'a) dss \<Rightarrow> (('w, 'a) dss \<times> u64) option" where
  "dmanager_get_by_class_first cls s = dmanager_get_by_class_skip cls 0 s"

definition dmanager_get_by_class_and_ready :: "('w, 'a) dss Driver list \<Rightarrow> DeviceClass \<Rightarrow> ('w, 'a) dss \<Rightarrow> (('w, 'a) dss \<times> u64) option" where
  "dmanager_get_by_class_and_ready drivers cls s = do {
     (s, device) \<leftarrow> dmanager_get_by_class_first cls s;
     if IS_ERR device then Some (s, device)
     else do {
       (s, ret) \<leftarrow> dmanager_ready_device drivers device s;
       Some (s, if ret \<noteq> EOK then ERR_TO_PTR ret else device)
     }
   }"

text \<open>
  \<^verbatim>\<open>virtio_init\<close> (\<^verbatim>\<open>drivers/common/virtio.c\<close>): readies the devices of the virtio bus one after the other; the result of each is
  only reported.
\<close>

partial_function (option) virtio_init_loop :: "('w, 'a) dss Driver list \<Rightarrow> usize \<Rightarrow> ('w, 'a) dss \<Rightarrow> ('w, 'a) dss option" where
  "virtio_init_loop drivers count s = do {
     (s, device) \<leftarrow> dmanager_get_by_class_skip DEVICE_VIRTIO_MMIO_DEVICE count s;
     if IS_ERR device then Some s
     else do {
       (s, _) \<leftarrow> dmanager_ready_device drivers device s;
       virtio_init_loop drivers (count + 1) s
     }
   }"

definition virtio_init :: "('w, 'a) dss Driver list \<Rightarrow> ('w, 'a) dss \<Rightarrow> ('w, 'a) dss option" where
  "virtio_init drivers s = virtio_init_loop drivers 0 s"

section \<open>The block layer\<close>

text \<open>The operations of a block device; sectors are read to and written from addresses.\<close>

record 's BlockOps =
  bo_read_sync :: "u64 \<Rightarrow> usize \<Rightarrow> u64 \<Rightarrow> 's \<Rightarrow> ('s \<times> errno_t) option"
  bo_read :: "u64 \<Rightarrow> usize \<Rightarrow> u64 \<Rightarrow> 's \<Rightarrow> ('s \<times> errno_t) option"
  bo_write_sync :: "u64 \<Rightarrow> usize \<Rightarrow> u64 \<Rightarrow> 's \<Rightarrow> ('s \<times> errno_t) option"
  bo_write :: "u64 \<Rightarrow> usize \<Rightarrow> u64 \<Rightarrow> 's \<Rightarrow> ('s \<times> errno_t) option"
  bo_sector_size :: "u64 \<Rightarrow> 's \<Rightarrow> usize"
  bo_capacity :: "u64 \<Rightarrow> 's \<Rightarrow> usize"

definition verify_sector_range :: "usize \<Rightarrow> usize \<Rightarrow> usize \<Rightarrow> usize \<Rightarrow> errno_t" where
  "verify_sector_range sector count capacity sector_size =
     (if capacity = 0 \<or> sector_size = 0 then - ENODEV
      else if sector \<ge> capacity div sector_size then - EINVAL
      else if sector + count \<ge> capacity div sector_size then - EINVAL
      else EOK)"

text \<open>The results of the single sectors are dropped.\<close>

definition internal_block_read ::
  "('w, 'a) dss BlockOps \<Rightarrow> u64 \<Rightarrow> usize \<Rightarrow> usize \<Rightarrow> u64 \<Rightarrow> bool \<Rightarrow> ('w, 'a) dss \<Rightarrow> (('w, 'a) dss \<times> errno_t) option" where
  "internal_block_read ops device sector count buf block s = do {
     ASSERT (dv_class (ds_devices s device) = DEVICE_BLOCK);
     if count = 0 then Some (s, EOK)
     else do {
       let capacity = bo_capacity ops device s;
       let sector_size = bo_sector_size ops device s;
       let ret = verify_sector_range sector count capacity sector_size;
       if ret \<noteq> EOK then Some (s, ret)
       else do {
         s \<leftarrow> foldM (\<lambda>sect s. do {
           let offseted_buf = buf + (sect - sector) * sector_size;
           (s, _) \<leftarrow> (if block then bo_read_sync ops device sect offseted_buf s else bo_read ops device sect offseted_buf s);
           Some s
         }) (u64_range sector (sector + count)) s;
         Some (s, EOK)
       }
     }
   }"

definition block_read_sync :: "('w, 'a) dss BlockOps \<Rightarrow> u64 \<Rightarrow> usize \<Rightarrow> usize \<Rightarrow> u64 \<Rightarrow> ('w, 'a) dss \<Rightarrow> (('w, 'a) dss \<times> errno_t) option" where
  "block_read_sync ops device sector count buf s = internal_block_read ops device sector count buf True s"

definition block_read :: "('w, 'a) dss BlockOps \<Rightarrow> u64 \<Rightarrow> usize \<Rightarrow> usize \<Rightarrow> u64 \<Rightarrow> ('w, 'a) dss \<Rightarrow> (('w, 'a) dss \<times> errno_t) option" where
  "block_read ops device sector count buf s = internal_block_read ops device sector count buf False s"

definition internal_block_write ::
  "('w, 'a) dss BlockOps \<Rightarrow> u64 \<Rightarrow> usize \<Rightarrow> usize \<Rightarrow> u64 \<Rightarrow> bool \<Rightarrow> ('w, 'a) dss \<Rightarrow> (('w, 'a) dss \<times> errno_t) option" where
  "internal_block_write ops device sector count buf block s = do {
     ASSERT (dv_class (ds_devices s device) = DEVICE_BLOCK);
     if count = 0 then Some (s, EOK)
     else do {
       let capacity = bo_capacity ops device s;
       let sector_size = bo_sector_size ops device s;
       let ret = verify_sector_range sector count capacity sector_size;
       if ret \<noteq> EOK then Some (s, ret)
       else do {
         s \<leftarrow> foldM (\<lambda>sect s. do {
           let offseted_buf = buf + sect * sector_size;
           (s, _) \<leftarrow> (if block then bo_write_sync ops device sect offseted_buf s else bo_write ops device sect offseted_buf s);
           Some s
         }) (u64_range sector (sector + count)) s;
         Some (s, EOK)
       }
     }
   }"

definition block_write_sync :: "('w, 'a) dss BlockOps \<Rightarrow> u64 \<Rightarrow> usize \<Rightarrow> usize \<Rightarrow> u64 \<Rightarrow> ('w, 'a) dss \<Rightarrow> (('w, 'a) dss \<times> errno_t) option" where
  "block_write_sync ops device sector count buf s = internal_block_write ops device sector count buf True s"

definition block_write :: "('w, 'a) dss BlockOps \<Rightarrow> u64 \<Rightarrow> usize \<Rightarrow> usize \<Rightarrow> u64 \<Rightarrow> ('w, 'a) dss \<Rightarrow> (('w, 'a) dss \<times> errno_t) option" where
  "block_write ops device sector count buf s = internal_block_write ops device sector count buf False s"

definition block_capacity :: "('w, 'a) dss BlockOps \<Rightarrow> u64 \<Rightarrow> ('w, 'a) dss \<Rightarrow> usize option" where
  "block_capacity ops device s = do {
     ASSERT (dv_class (ds_devices s device) = DEVICE_BLOCK);
     Some (bo_capacity ops device s)
   }"

definition block_sector_size :: "('w, 'a) dss BlockOps \<Rightarrow> u64 \<Rightarrow> ('w, 'a) dss \<Rightarrow> usize option" where
  "block_sector_size ops device s = do {
     ASSERT (dv_class (ds_devices s device) = DEVICE_BLOCK);
     Some (bo_sector_size ops device s)
   }"

section \<open>Finding devices\<close>

primrec dev_chain :: "(u64 \<Rightarrow> Device) \<Rightarrow> u64 \<Rightarrow> u64 list \<Rightarrow> bool" where
  "dev_chain dvs p [] \<longleftrightarrow> p = 0"
| "dev_chain dvs p (d # ds) \<longleftrightarrow> p = d \<and> d \<noteq> 0 \<and> dev_chain dvs (dv_next (dvs d)) ds"

text \<open>The search counts the devices of the class: it returns the one behind the first \<open>skip\<close> of them.\<close>

lemma class_loop_ok:
  assumes "dev_chain dvs p ds" "length ds < 2 ^ 64" "unat count \<le> unat skip"
  shows "class_loop cls skip p count dvs =
    (let cs = filter (\<lambda>d. dv_class (dvs d) = cls) ds; k = unat skip - unat count
     in Some (if k < length cs then cs ! k else ERR_TO_PTR (- ENOENT)))"
  using assms
proof (induction ds arbitrary: p count)
  case Nil
  then show ?case by (subst class_loop.simps) simp
next
  case (Cons d ds)
  have d: "p = d" "d \<noteq> 0" "dev_chain dvs (dv_next (dvs d)) ds" "length ds < 2 ^ 64" using Cons.prems by simp_all
  show ?case
  proof (cases "dv_class (dvs d) = cls \<and> count \<noteq> skip")
    case True
    then have lt: "unat count < unat skip" using Cons.prems(3) by (metis le_neq_implies_less u64_eq_iff_unat)
    have c: "unat (count + 1) = unat count + 1"
      using lt unat_u64_less [of skip] unat_add_u64 [of count 1] by (simp del: unat_u64_less)
    have "unat skip - unat count = Suc (unat skip - unat (count + 1))" using lt c by simp
    then show ?thesis using Cons.IH [OF d(3,4), of "count + 1"] True lt c d
      by (subst class_loop.simps) (simp add: Let_def)
  next
    case False
    then show ?thesis using Cons.IH [OF d(3,4) Cons.prems(3)] d by (subst class_loop.simps) (auto simp: Let_def)
  qed
qed

lemma dml_put_put: "dml_get s = spinlock_init \<Longrightarrow> dml_put spinlock_init (dml_put l s) = s"
  by (cases "ds_manager s") (auto simp: dml_put_def dml_get_def intro!: dev_state.equality)

lemma dml_put_fields [simp]: "ds_devices (dml_put l s) = ds_devices s" "dm_device_list (ds_manager (dml_put l s)) = dm_device_list (ds_manager s)"
  by (simp_all add: dml_put_def)

lemma ds_push [simp]: "ds_devices (irq_push_intr s) = ds_devices s" "ds_manager (irq_push_intr s) = ds_manager s"
  by (simp_all add: irq_push_as_put cx_put_def)

lemma get_by_class_skip_ok:
  assumes "cx_ok s" "dml_get s = spinlock_init" "dev_chain (ds_devices s) (dm_device_list (ds_manager s)) ds" "length ds < 2 ^ 64"
  shows "dmanager_get_by_class_skip cls skip s =
    (let cs = filter (\<lambda>d. dv_class (ds_devices s d) = cls) ds
     in Some (cx_sec s, if unat skip < length cs then cs ! unat skip else ERR_TO_PTR (- ENOENT)))"
proof -
  let ?r = "let cs = filter (\<lambda>d. dv_class (ds_devices s d) = cls) ds in if unat skip < length cs then cs ! unat skip else ERR_TO_PTR (- ENOENT)"
  have "with_lock dml_get dml_put (\<lambda>s. do {
       p \<leftarrow> class_loop cls skip (dm_device_list (ds_manager s)) 0 (ds_devices s);
       Some (s, p)
     }) s = Some (cx_sec (dml_put spinlock_init (dml_put (held_by s) s)), ?r)"
  proof (rule dml.section_eq)
    show "(do { p \<leftarrow> class_loop cls skip (dm_device_list (ds_manager (irq_push_intr (dml_put (held_by s) s)))) 0 (ds_devices (irq_push_intr (dml_put (held_by s) s)));
         Some (irq_push_intr (dml_put (held_by s) s), p) }) = Some (irq_push_intr (dml_put (held_by s) s), ?r)"
      using class_loop_ok [OF assms(3,4), of 0 skip cls] by (simp add: Let_def)
  qed (use assms(1,2) in \<open>auto simp: spinlock_init_def dml_put_def dml_get_def cx_ok_def\<close>)
  then show ?thesis using dml_put_put [OF assms(2)] by (simp add: dmanager_get_by_class_skip_def Let_def)
qed

text \<open>The range check of the block layer, in numbers.\<close>

lemma verify_sector_range_iff:
  assumes "unat sector + unat count < 2 ^ 64"
  shows "verify_sector_range sector count capacity sector_size = EOK \<longleftrightarrow>
    capacity \<noteq> 0 \<and> sector_size \<noteq> 0 \<and> unat sector + unat count < unat capacity div unat sector_size"
proof -
  have "unat (sector + count) = unat sector + unat count" using assms by (rule unat_add_u64)
  then show ?thesis by (auto simp: verify_sector_range_def word_le_nat_alt unat_div)
qed

text \<open>A request that ends with the last sector of the device is refused.\<close>

lemma verify_sector_range_last:
  assumes "unat sector + unat count = unat capacity div unat sector_size" "capacity \<noteq> 0" "sector_size \<noteq> 0"
  shows "verify_sector_range sector count capacity sector_size = - EINVAL"
proof -
  have "unat sector + unat count < 2 ^ 64" using assms(1) unat_u64_less [of "capacity div sector_size"] by (simp add: unat_div del: unat_u64_less)
  then have "unat (sector + count) = unat sector + unat count" by (rule unat_add_u64)
  then show ?thesis using assms by (auto simp: verify_sector_range_def word_le_nat_alt unat_div)
qed

text \<open>
  Reading and writing a range of sectors use different parts of the buffer: on a device that records the
  addresses, a write of \<open>count\<close> sectors from \<open>sector\<close> on takes the first one from \<open>sector\<close> sectors behind the
  start of the buffer.
\<close>

definition addr_ops :: "((usize \<times> u64) list, 'a) dss BlockOps" where
  "addr_ops =
     (let rec = (\<lambda>d sect p s. Some (s\<lparr>ds_world := ds_world s @ [(sect, p)]\<rparr>, EOK))
      in \<lparr>bo_read_sync = rec, bo_read = rec, bo_write_sync = rec, bo_write = rec,
          bo_sector_size = (\<lambda>_ _. 512), bo_capacity = (\<lambda>_ _. 0x100000)\<rparr>)"

lemma addr_fold:
  "foldM (\<lambda>sect s. Some (s\<lparr>ds_world := ds_world s @ [(sect, f sect)]\<rparr>)) xs s =
    Some (s\<lparr>ds_world := ds_world s @ map (\<lambda>x. (x, f x)) xs\<rparr>)"
  by (induction xs arbitrary: s) simp_all

lemma block_buffers:
  assumes "dv_class (ds_devices s device) = DEVICE_BLOCK" "count \<noteq> 0" "verify_sector_range sector count 0x100000 512 = EOK"
  shows "block_read addr_ops device sector count buf s =
      Some (s\<lparr>ds_world := ds_world s @ map (\<lambda>x. (x, buf + (x - sector) * 512)) (u64_range sector (sector + count))\<rparr>, EOK)"
    "block_write addr_ops device sector count buf s =
      Some (s\<lparr>ds_world := ds_world s @ map (\<lambda>x. (x, buf + x * 512)) (u64_range sector (sector + count))\<rparr>, EOK)"
  using assms
  by (simp_all add: block_read_def block_write_def internal_block_read_def internal_block_write_def addr_ops_def Let_def ASSERT_def addr_fold)

end
