(* ===== verification/Irq.thy ===== *)
theory Irq
  imports Scheduler Drivers Devices
begin

text \<open>
  Interrupts and the timer: the dispatcher and the handler table of \<^verbatim>\<open>kernel/irq/irq_controller.c\<close>, the timer of
  \<^verbatim>\<open>kernel/core/timer.c\<close> and its device \<^verbatim>\<open>drivers/timer/arm-timer.c\<close>, on top of the scheduler. (Nesting of disabled
  interrupts is in \<open>SpinLock\<close>.)

  The machine behind the registers of the devices is \<open>is_mach\<close>, the operations of the interrupt controller work
  on it. The registers of the timer belong to the processor. What the other drivers' handlers do, what the
  driver manager returns and what the device tree says of the timer are arguments.
\<close>

section \<open>State\<close>

definition MAX_IRQ :: nat where "MAX_IRQ = 1024"

record irq_desc =
  id_handler :: "irq_handler_t option"
  id_data :: u64

record IrqController =
  ic_lock :: SpinLock
  ic_irq_table :: "irq_desc list"
  ic_device :: u64
  ic_interrupts_count :: usize

record arm_timer =
  cntfrq_el0 :: u64
  cntp_ctl_el0 :: u64
  cntp_tval_el0 :: u64
  cntp_cval_el0 :: u64

record ('h, 'w, 'm) irq_state = "('h, 'w) kstate" +
  is_controller :: IrqController
  is_timer_device :: u64
  is_arm_timer :: arm_timer
  is_mach :: 'm

type_synonym ('h, 'w, 'm, 'a) iss = "('h, 'w, 'm, 'a) irq_state_scheme"

record ('m, 's) irq_env =
  ie_chip :: "'m IrqChipOps"
  ie_handler :: "irq_handler_t \<Rightarrow> u64 \<Rightarrow> 's \<Rightarrow> 's option"
  ie_get_by_class_first :: "DeviceClass \<Rightarrow> 's \<Rightarrow> ('s \<times> u64) option"
  ie_ready_device :: "u64 \<Rightarrow> 's \<Rightarrow> ('s \<times> errno_t) option"
  ie_get_by_class_and_ready :: "DeviceClass \<Rightarrow> 's \<Rightarrow> ('s \<times> u64) option"
  ie_libfdt :: libfdt
  ie_node_offset :: "u64 \<Rightarrow> int"

definition upd_mach :: "('m \<Rightarrow> 'm option) \<Rightarrow> ('h, 'w, 'm, 'a) iss \<Rightarrow> ('h, 'w, 'm, 'a) iss option" where
  "upd_mach f s = map_option (\<lambda>m. s\<lparr>is_mach := m\<rparr>) (f (is_mach s))"

definition icl_get :: "('h, 'w, 'm, 'a) iss \<Rightarrow> SpinLock" where "icl_get s = ic_lock (is_controller s)"
definition icl_put :: "SpinLock \<Rightarrow> ('h, 'w, 'm, 'a) iss \<Rightarrow> ('h, 'w, 'm, 'a) iss" where
  "icl_put l s = s\<lparr>is_controller := (is_controller s)\<lparr>ic_lock := l\<rparr>\<rparr>"

interpretation icl: lock_slot "\<lambda>_. True" icl_get icl_put
  by unfold_locales (simp_all add: icl_get_def icl_put_def cx_put_def)

section \<open>The handler table\<close>

definition irq_controller_init :: "('m, ('h, 'w, 'm, 'a) iss) irq_env \<Rightarrow> ('h, 'w, 'm, 'a) iss \<Rightarrow> ('h, 'w, 'm, 'a) iss option" where
  "irq_controller_init env s = do {
     let s = icl_put spinlock_init s;
     (s, irq_device) \<leftarrow> ie_get_by_class_first env DEVICE_IRQCHIP s;
     ASSERT (\<not> IS_ERR irq_device);
     (s, ret) \<leftarrow> ie_ready_device env irq_device s;
     ASSERT (ret = EOK);
     let s = s\<lparr>is_controller := (is_controller s)\<lparr>ic_device := irq_device\<rparr>\<rparr>;
     (m, n) \<leftarrow> co_interrupts_count (ie_chip env) irq_device (is_mach s);
     Some (s\<lparr>is_mach := m, is_controller := (is_controller s)\<lparr>ic_interrupts_count := ucast n\<rparr>\<rparr>)
   }"

text \<open>Neither function checks the number; an entry behind the end of the table is \<open>None\<close>.\<close>

definition irq_set_handler :: "u32 \<Rightarrow> irq_handler_t \<Rightarrow> u64 \<Rightarrow> ('h, 'w, 'm, 'a) iss \<Rightarrow> ('h, 'w, 'm, 'a) iss option" where
  "irq_set_handler irq handler data s = do {
     ASSERT (unat irq < MAX_IRQ);
     Some (s\<lparr>is_controller := (is_controller s)\<lparr>ic_irq_table := (ic_irq_table (is_controller s))[unat irq := \<lparr>id_handler = Some handler, id_data = data\<rparr>]\<rparr>\<rparr>)
   }"

definition irq_enable_irq :: "('m, 's) irq_env \<Rightarrow> u32 \<Rightarrow> ('h, 'w, 'm, 'a) iss \<Rightarrow> ('h, 'w, 'm, 'a) iss option" where
  "irq_enable_irq env irq s = upd_mach (co_enable (ie_chip env) (ic_device (is_controller s)) irq) s"

definition irq_enable_cpu :: "('m, 's) irq_env \<Rightarrow> ('h, 'w, 'm, 'a) iss \<Rightarrow> ('h, 'w, 'm, 'a) iss option" where
  "irq_enable_cpu env s = upd_mach (co_cpu_init (ie_chip env) (ic_device (is_controller s))) s"

definition request_irq :: "('m, 's) irq_env \<Rightarrow> u32 \<Rightarrow> irq_handler_t \<Rightarrow> u64 \<Rightarrow> ('h, 'w, 'm, 'a) iss \<Rightarrow> (('h, 'w, 'm, 'a) iss \<times> errno_t) option" where
  "request_irq env irq handler data s = do {
     (s, _) \<leftarrow> with_lock icl_get icl_put (\<lambda>s. do { s \<leftarrow> irq_set_handler irq handler data s; Some (s, ()) }) s;
     s \<leftarrow> irq_enable_irq env irq s;
     Some (s, EOK)
   }"

definition reject_irq :: "u32 \<Rightarrow> ('h, 'w, 'm, 'a) iss \<Rightarrow> (('h, 'w, 'm, 'a) iss \<times> errno_t) option" where
  "reject_irq irq s =
     with_lock icl_get icl_put (\<lambda>s. do {
       ASSERT (unat irq < MAX_IRQ);
       Some (s\<lparr>is_controller := (is_controller s)\<lparr>ic_irq_table :=
         (ic_irq_table (is_controller s))[unat irq := (ic_irq_table (is_controller s) ! unat irq)\<lparr>id_handler := None\<rparr>]\<rparr>\<rparr>, EOK)
     }) s"

section \<open>The timer device\<close>

definition upd_timer :: "(arm_timer \<Rightarrow> arm_timer) \<Rightarrow> ('h, 'w, 'm, 'a) iss \<Rightarrow> ('h, 'w, 'm, 'a) iss" where
  "upd_timer f s = s\<lparr>is_arm_timer := f (is_arm_timer s)\<rparr>"

definition r_counter_timer_freq :: "('h, 'w, 'm, 'a) iss \<Rightarrow> u32" where
  "r_counter_timer_freq s = ucast (EXTRACT_BITS (cntfrq_el0 (is_arm_timer s)) 31 0)"

definition w_counter_enable :: "bool \<Rightarrow> ('h, 'w, 'm, 'a) iss \<Rightarrow> ('h, 'w, 'm, 'a) iss" where
  "w_counter_enable value s =
     (let old = cntp_ctl_el0 (is_arm_timer s); new = (if value then old OR 1 else old AND NOT 1)
      in upd_timer (\<lambda>t. t\<lparr>cntp_ctl_el0 := new\<rparr>) s)"

definition r_counter_is_enabled :: "('h, 'w, 'm, 'a) iss \<Rightarrow> bool" where
  "r_counter_is_enabled s \<longleftrightarrow> cntp_ctl_el0 (is_arm_timer s) AND 1 \<noteq> 0"

definition enable_timer :: "('h, 'w, 'm, 'a) iss \<Rightarrow> ('h, 'w, 'm, 'a) iss" where
  "enable_timer s = w_counter_enable True s"

definition disable_timer :: "('h, 'w, 'm, 'a) iss \<Rightarrow> ('h, 'w, 'm, 'a) iss" where
  "disable_timer s = w_counter_enable False s"

definition timer_frequency_op :: "('h, 'w, 'm, 'a) iss \<Rightarrow> usize" where
  "timer_frequency_op s = ucast (r_counter_timer_freq s)"

definition timer_counter_op :: "('h, 'w, 'm, 'a) iss \<Rightarrow> usize" where
  "timer_counter_op s = ks_timer_counter s"

definition fire_from_now :: "usize \<Rightarrow> ('h, 'w, 'm, 'a) iss \<Rightarrow> ('h, 'w, 'm, 'a) iss" where
  "fire_from_now ticks s = upd_timer (\<lambda>t. t\<lparr>cntp_tval_el0 := ticks\<rparr>) s"

definition fire_at :: "usize \<Rightarrow> ('h, 'w, 'm, 'a) iss \<Rightarrow> ('h, 'w, 'm, 'a) iss" where
  "fire_at ticks s = upd_timer (\<lambda>t. t\<lparr>cntp_cval_el0 := ticks\<rparr>) s"

text \<open>The interrupt is the second of the four of the timer; its number in the tree counts from 16.\<close>

definition interrupt_id :: "libfdt \<Rightarrow> int \<Rightarrow> u32 option" where
  "interrupt_id lf fdt_node_offset = do {
     (cells, found) \<leftarrow> fdt_get_interrupt_cells lf fdt_node_offset (replicate 4 \<lparr>fi_cells_count = 0, fi_cells = replicate MAX_INTERRUPT_CELLS_COUNT 0\<rparr>);
     Some (if \<not> found then 0 else fi_cells (cells ! 1) ! 1 + 16)
   }"

definition armv8_timer_remove :: "('h, 'w, 'm, 'a) iss \<Rightarrow> ('h, 'w, 'm, 'a) iss \<times> errno_t" where
  "armv8_timer_remove s = (disable_timer s, EOK)"

section \<open>The timer\<close>

abbreviation CONFIG_TIMER_RESCHED_MS :: usize where "CONFIG_TIMER_RESCHED_MS \<equiv> 1000"

abbreviation upd_this_cpu :: "(Cpu \<Rightarrow> Cpu) \<Rightarrow> ('h, 'w, 'a) kss \<Rightarrow> ('h, 'w, 'a) kss" where
  "upd_this_cpu f s \<equiv> set_cpu (cx_cpu s) (f (this_cpu s)) s"

definition timer_interrupt_id :: "('m, 's) irq_env \<Rightarrow> ('h, 'w, 'm, 'a) iss \<Rightarrow> u32 option" where
  "timer_interrupt_id env s = interrupt_id (ie_libfdt env) (ie_node_offset env (is_timer_device s))"

definition timer_global_init :: "('m, ('h, 'w, 'm, 'a) iss) irq_env \<Rightarrow> ('h, 'w, 'm, 'a) iss \<Rightarrow> ('h, 'w, 'm, 'a) iss option" where
  "timer_global_init env s = do {
     (s, device) \<leftarrow> ie_get_by_class_and_ready env DEVICE_TIMER s;
     let s = s\<lparr>is_timer_device := device\<rparr>;
     ASSERT (\<not> IS_ERR device);
     let s = s\<lparr>ks_timer_frequency := timer_frequency_op s\<rparr>;
     irq \<leftarrow> timer_interrupt_id env s;
     irq_set_handler irq Timer_tick 0 s
   }"

definition timer_cpu_init :: "('m, 's) irq_env \<Rightarrow> ('h, 'w, 'm, 'a) iss \<Rightarrow> ('h, 'w, 'm, 'a) iss option" where
  "timer_cpu_init env s =
     irq_enable_cpu env (upd_this_cpu (\<lambda>c. c\<lparr>cpu_timer := \<lparr>ct_ticks = 0,
       ct_resched_after = ticks_from_miliseconds (ks_timer_frequency s) CONFIG_TIMER_RESCHED_MS\<rparr>\<rparr>) s)"

definition timer_cpu_enable :: "('m, 's) irq_env \<Rightarrow> ('h, 'w, 'm, 'a) iss \<Rightarrow> ('h, 'w, 'm, 'a) iss option" where
  "timer_cpu_enable env s = do {
     irq \<leftarrow> timer_interrupt_id env s;
     s \<leftarrow> irq_enable_irq env irq s;
     Some (enable_timer (fire_from_now (ct_resched_after (cpu_timer (this_cpu s))) s))
   }"

definition timer_init :: "('m, ('h, 'w, 'm, 'a) iss) irq_env \<Rightarrow> ('h, 'w, 'm, 'a) iss \<Rightarrow> ('h, 'w, 'm, 'a) iss option" where
  "timer_init env s = do {
     s \<leftarrow> timer_global_init env s;
     s \<leftarrow> timer_cpu_init env s;
     timer_cpu_enable env s
   }"

definition timer_cpu_resched :: "('h, 'w, 'm, 'a) iss \<Rightarrow> ('h, 'w, 'm, 'a) iss" where
  "timer_cpu_resched s = fire_from_now (ct_resched_after (cpu_timer (this_cpu s))) s"

definition timer_tick :: "('h, 'w, 'm, 'a) iss \<Rightarrow> ('h, 'w, 'm, 'a) iss option" where
  "timer_tick s = do {
     let s = upd_this_cpu (\<lambda>c. c\<lparr>cpu_needs_resched := True,
       cpu_timer := (cpu_timer c)\<lparr>ct_ticks := ct_ticks (cpu_timer c) + 1\<rparr>\<rparr>) s;
     s \<leftarrow> scheduler_wake_sleepers s;
     Some (timer_cpu_resched s)
   }"

section \<open>Dispatching\<close>

definition call_handler ::
  "('m, ('h, 'w, 'm, 'a) iss) irq_env \<Rightarrow> irq_handler_t \<Rightarrow> u64 \<Rightarrow> ('h, 'w, 'm, 'a) iss \<Rightarrow> ('h, 'w, 'm, 'a) iss option" where
  "call_handler env handler data s = (if handler = Timer_tick then timer_tick s else ie_handler env handler data s)"

definition irq_dispatcher :: "('m, ('h, 'w, 'm, 'a) iss) irq_env \<Rightarrow> ('h, 'w, 'm, 'a) iss \<Rightarrow> ('h, 'w, 'm, 'a) iss option" where
  "irq_dispatcher env s = do {
     (m, active) \<leftarrow> co_get_active (ie_chip env) (ic_device (is_controller s)) (is_mach s);
     let s = s\<lparr>is_mach := m\<rparr>;
     if unat active > MAX_IRQ \<or> ucast active > ic_interrupts_count (is_controller s) then Some s
     else do {
       ASSERT (unat active < MAX_IRQ);
       let d = ic_irq_table (is_controller s) ! unat active;
       s \<leftarrow> (case id_handler d of None \<Rightarrow> Some s | Some handler \<Rightarrow> call_handler env handler (id_data d) s);
       upd_mach (co_signal_eoi (ie_chip env) (ic_device (is_controller s)) active) s
     }
   }"

definition irq_handle :: "('m, ('h, 'w, 'm, 'a) iss) irq_env \<Rightarrow> ('h, 'w, 'm, 'a) iss \<Rightarrow> (('h, 'w, 'm, 'a) iss \<times> bool) option" where
  "irq_handle env s = do {
     s \<leftarrow> irq_dispatcher env s;
     if cpu_needs_resched (this_cpu s) \<and> cpu_current (this_cpu s) \<noteq> None
     then Some (upd_this_cpu (\<lambda>c. c\<lparr>cpu_needs_resched := False\<rparr>) s, True)
     else Some (s, False)
   }"

end
