(* ===== verification/IrqProps.thy ===== *)
theory IrqProps
  imports Irq SchedProps
begin

text \<open>
  Properties of interrupts: what the handler table does with a request, what the dispatcher does with a number
  behind its end, and the whole path of a timer interrupt, from the controller through the dispatcher and
  the tick to the woken sleepers and the request for a switch.
\<close>

section \<open>Requests\<close>

lemma icl_put_table [simp]: "ic_irq_table (is_controller (icl_put l s)) = ic_irq_table (is_controller s)"
  "ic_device (is_controller (icl_put l s)) = ic_device (is_controller s)" "is_mach (icl_put l s) = is_mach s"
  by (simp_all add: icl_put_def)

lemma more_irq:
  assumes "kstate.more s' = kstate.more s"
  shows "is_controller s' = is_controller s" "is_timer_device s' = is_timer_device s" "is_arm_timer s' = is_arm_timer s" "is_mach s' = is_mach s"
  using assms by (cases s; cases s'; simp)+

lemma irq_set_handler_eq:
  "unat irq < MAX_IRQ \<Longrightarrow> irq_set_handler irq h d s = Some (s\<lparr>is_controller := (is_controller s)\<lparr>ic_irq_table :=
    (ic_irq_table (is_controller s))[unat irq := \<lparr>id_handler = Some h, id_data = d\<rparr>]\<rparr>\<rparr>)"
  by (simp add: irq_set_handler_def ASSERT_def)

text \<open>The dispatcher runs the handler that the table has for the active interrupt, then signals its end.\<close>

lemma irq_dispatcher_calls:
  assumes "co_get_active (ie_chip env) (ic_device (is_controller s)) (is_mach s) = Some (m, irq)"
    "unat irq < MAX_IRQ" "ucast irq \<le> ic_interrupts_count (is_controller s)"
    "ic_irq_table (is_controller s) ! unat irq = \<lparr>id_handler = Some h, id_data = d\<rparr>"
  shows "irq_dispatcher env s = do {
    s \<leftarrow> call_handler env h d (s\<lparr>is_mach := m\<rparr>);
    upd_mach (co_signal_eoi (ie_chip env) (ic_device (is_controller s)) irq) s
  }"
  using assms by (simp add: irq_dispatcher_def ASSERT_def Let_def not_less [symmetric])

text \<open>The test of the dispatcher lets the first number behind the table pass.\<close>

lemma irq_dispatcher_behind_table:
  assumes "co_get_active (ie_chip env) (ic_device (is_controller s)) (is_mach s) = Some (m, 1024)"
    "1024 \<le> ic_interrupts_count (is_controller s)"
  shows "irq_dispatcher env s = None"
  using assms by (simp add: irq_dispatcher_def ASSERT_def MAX_IRQ_def Let_def)

section \<open>The timer interrupt\<close>

lemma set_cpu_mach: "set_cpu c v (s\<lparr>is_mach := m\<rparr>) = (set_cpu c v s)\<lparr>is_mach := m\<rparr>"
  by (simp add: set_cpu_def)

lemma sched_inv_mach: "sched_inv rqs wqs s \<Longrightarrow> sched_inv rqs wqs (s\<lparr>is_mach := m\<rparr>)"
  by (frule sched_inv_free(1), erule sched_inv_cong [rotated 7]) (auto simp: cx_ok_def)

lemma sched_inv_timer: "sched_inv rqs wqs s \<Longrightarrow> sched_inv rqs wqs (s\<lparr>is_arm_timer := m\<rparr>)"
  by (frule sched_inv_free(1), erule sched_inv_cong [rotated 7]) (auto simp: cx_ok_def)

text \<open>A tick: the processor notes that it has to switch, the due sleepers are woken and the timer is set again.\<close>

lemma timer_tick_ok:
  fixes s :: "('h, 'w, 'm, 'a) iss"
  assumes "sched_inv rqs wqs s" "cx_cpu s = c"
  shows "\<exists>s'. timer_tick s = Some s' \<and>
    sched_inv (rqs(c := rqs c @ filter (\<lambda>p. sleep_key s p \<le> timer_current_tick s) (wqs (SleepingTasks c))))
      (wqs(SleepingTasks c := filter (\<lambda>p. timer_current_tick s < sleep_key s p) (wqs (SleepingTasks c)))) s' \<and>
    cx_same s s' \<and> is_controller s' = is_controller s \<and> is_mach s' = is_mach s \<and>
    cntp_tval_el0 (is_arm_timer s') = ct_resched_after (cpu_timer (this_cpu s)) \<and>
    ct_ticks (cpu_timer (this_cpu s')) = ct_ticks (cpu_timer (this_cpu s)) + 1 \<and>
    cpu_needs_resched (this_cpu s') \<and> cpu_current (this_cpu s') = cpu_current (this_cpu s)"
proof -
  let ?v = "(this_cpu s)\<lparr>cpu_needs_resched := True, cpu_timer := (cpu_timer (this_cpu s))\<lparr>ct_ticks := ct_ticks (cpu_timer (this_cpu s)) + 1\<rparr>\<rparr>"
  let ?s = "set_cpu c ?v s"
  have inv: "sched_inv rqs wqs ?s" by (rule inv_set_cpu [OF assms(1)]) (simp_all add: this_cpu_def assms(2))
  have f: "sleep_key ?s = sleep_key s" "timer_current_tick ?s = timer_current_tick s" "cx_cpu ?s = c"
    using assms(2) by (auto simp: sleep_key_def timer_current_tick_def set_cpu_def)
  obtain s1 where s1: "scheduler_wake_sleepers ?s = Some s1" "cx_same ?s s1"
    "sched_inv (rqs(c := rqs c @ filter (\<lambda>p. sleep_key s p \<le> timer_current_tick s) (wqs (SleepingTasks c))))
      (wqs(SleepingTasks c := filter (\<lambda>p. timer_current_tick s < sleep_key s p) (wqs (SleepingTasks c)))) s1"
    "sched_kept ?s s1"
    using scheduler_wake_sleepers_ok [OF inv f(3)] unfolding f by blast
  have more: "kstate.more s1 = kstate.more ?s" and k: "cpu_kept (ks_cpus ?s c) (ks_cpus s1 c)"
    using s1(4) by (simp_all add: sched_kept_def)
  have cc: "cx_cpu s1 = c" using s1(2) f(3) by (simp add: cx_same_def)
  have cpu: "this_cpu s1 = ks_cpus s1 c" "ks_cpus ?s c = ?v" by (simp_all add: this_cpu_def cc set_cpu_def)
  have fields: "cpu_timer (this_cpu s1) = cpu_timer ?v" "cpu_needs_resched (this_cpu s1)" "cpu_current (this_cpu s1) = cpu_current (this_cpu s)"
    using cpu_keptD [OF k, of cpu_timer] cpu_keptD [OF k, of cpu_needs_resched] cpu_keptD [OF k, of cpu_current] by (simp_all add: cpu)
  have same: "cx_same s s1" using s1(2) by (simp add: cx_same_def set_cpu_def)
  let ?s2 = "timer_cpu_resched s1"
  have "timer_tick s = Some ?s2" using s1(1) assms(2) by (simp add: timer_tick_def)
  moreover have "is_controller ?s2 = is_controller s" "is_mach ?s2 = is_mach s" "this_cpu ?s2 = this_cpu s1" "cx_same s ?s2"
    using more_irq [OF more] same by (simp_all add: timer_cpu_resched_def fire_from_now_def upd_timer_def this_cpu_def cx_same_def set_cpu_def)
  moreover have "cntp_tval_el0 (is_arm_timer ?s2) = ct_resched_after (cpu_timer (this_cpu s))"
    using fields(1) by (simp add: timer_cpu_resched_def fire_from_now_def upd_timer_def)
  ultimately show ?thesis using fields sched_inv_timer [OF s1(3)]
    by (intro exI [of _ ?s2]) (simp add: timer_cpu_resched_def fire_from_now_def upd_timer_def del: fun_upd_apply)
qed

text \<open>
  Claim C21. A timer interrupt takes the processor from its task: when the controller reports the interrupt that the
  table has the timer for, \<^verbatim>\<open>irq_handle\<close> returns and asks for a switch. On the way the tick counter grows by
  one, exactly the sleepers of this processor that are due join its run queue, in order of wake time, the timer is
  set to fire again after the time slice, and the end of the interrupt is signalled to the controller; the
  scheduler's invariant holds, the interrupt state of the processor and its current task are as before.
\<close>

theorem timer_interrupt_preempts:
  fixes s :: "('h, 'w, 'm, 'a) iss"
  assumes "sched_inv rqs wqs s" "cx_cpu s = c" "cpu_current (this_cpu s) = Some p"
    and "co_get_active (ie_chip env) (ic_device (is_controller s)) (is_mach s) = Some (m1, irq)"
    and "unat irq < MAX_IRQ" "ucast irq \<le> ic_interrupts_count (is_controller s)"
    and "ic_irq_table (is_controller s) ! unat irq = \<lparr>id_handler = Some Timer_tick, id_data = d\<rparr>"
    and "co_signal_eoi (ie_chip env) (ic_device (is_controller s)) irq m1 = Some m2"
  shows "\<exists>s'. irq_handle env s = Some (s', True) \<and>
    sched_inv (rqs(c := rqs c @ filter (\<lambda>p. sleep_key s p \<le> timer_current_tick s) (wqs (SleepingTasks c))))
      (wqs(SleepingTasks c := filter (\<lambda>p. timer_current_tick s < sleep_key s p) (wqs (SleepingTasks c)))) s' \<and>
    cx_same s s' \<and> is_mach s' = m2 \<and> cntp_tval_el0 (is_arm_timer s') = ct_resched_after (cpu_timer (this_cpu s)) \<and>
    ct_ticks (cpu_timer (this_cpu s')) = ct_ticks (cpu_timer (this_cpu s)) + 1 \<and>
    \<not> cpu_needs_resched (this_cpu s') \<and> cpu_current (this_cpu s') = Some p"
proof -
  let ?s = "s\<lparr>is_mach := m1\<rparr>"
  have f: "sleep_key ?s = sleep_key s" "timer_current_tick ?s = timer_current_tick s" "this_cpu ?s = this_cpu s" "cx_cpu ?s = c"
    "is_controller ?s = is_controller s"
    using assms(2) by (auto simp: sleep_key_def timer_current_tick_def this_cpu_def)
  obtain s1 where s1: "timer_tick ?s = Some s1"
    "sched_inv (rqs(c := rqs c @ filter (\<lambda>p. sleep_key s p \<le> timer_current_tick s) (wqs (SleepingTasks c))))
      (wqs(SleepingTasks c := filter (\<lambda>p. timer_current_tick s < sleep_key s p) (wqs (SleepingTasks c)))) s1"
    "cx_same ?s s1" "is_controller s1 = is_controller s" "is_mach s1 = m1"
    "cntp_tval_el0 (is_arm_timer s1) = ct_resched_after (cpu_timer (this_cpu s))"
    "ct_ticks (cpu_timer (this_cpu s1)) = ct_ticks (cpu_timer (this_cpu s)) + 1"
    "cpu_needs_resched (this_cpu s1)" "cpu_current (this_cpu s1) = cpu_current (this_cpu s)"
    using timer_tick_ok [OF sched_inv_mach [OF assms(1)] f(4)] unfolding f by auto
  let ?s2 = "s1\<lparr>is_mach := m2\<rparr>"
  have "irq_dispatcher env s = Some ?s2"
    using irq_dispatcher_calls [OF assms(4-7)] s1(1,4,5) assms(8) by (simp add: call_handler_def upd_mach_def)
  moreover have t: "this_cpu ?s2 = this_cpu s1" by (simp add: this_cpu_def)
  ultimately have h: "irq_handle env s = Some (upd_this_cpu (\<lambda>v. v\<lparr>cpu_needs_resched := False\<rparr>) ?s2, True)"
    using s1(8,9) assms(3) by (simp add: irq_handle_def)
  let ?s3 = "upd_this_cpu (\<lambda>v. v\<lparr>cpu_needs_resched := False\<rparr>) ?s2"
  have "sched_inv (rqs(c := rqs c @ filter (\<lambda>p. sleep_key s p \<le> timer_current_tick s) (wqs (SleepingTasks c))))
      (wqs(SleepingTasks c := filter (\<lambda>p. timer_current_tick s < sleep_key s p) (wqs (SleepingTasks c)))) ?s3"
    by (rule inv_set_cpu [OF sched_inv_mach [OF s1(2)]]) (simp_all add: this_cpu_def)
  moreover have "this_cpu ?s3 = (this_cpu s1)\<lparr>cpu_needs_resched := False\<rparr>" by (simp add: this_cpu_def set_cpu_def)
  moreover have "cx_same s ?s3" using s1(3) by (simp add: cx_same_def set_cpu_def)
  moreover have "is_mach ?s3 = m2" "is_arm_timer ?s3 = is_arm_timer s1" by (simp_all add: set_cpu_def)
  ultimately show ?thesis using h s1(6,7,9) assms(3) by (intro exI [of _ ?s3]) (simp del: fun_upd_apply)
qed

text \<open>The state of \<open>SchedProps\<close> with a controller that reports interrupt 30, which belongs to the timer.\<close>

definition gic_ex :: GicV2Data where
  "gic_ex = \<lparr>gic_dist = \<lparr>reg_size = 0x1000, reg_address = 0x8000000\<rparr>, gic_cpu = \<lparr>reg_size = 0x1000, reg_address = 0x8010000\<rparr>,
     gic_interrupts_count = 288\<rparr>"

definition env_ex :: "((u64 \<times> u32) list, 's) irq_env" where
  "env_ex = \<lparr>ie_chip = gic_ops (rec_io (\<lambda>_. 30)) (\<lambda>_. gic_ex), ie_handler = (\<lambda>_ _ _. None), ie_get_by_class_first = (\<lambda>_ _. None),
     ie_ready_device = (\<lambda>_ _. None), ie_get_by_class_and_ready = (\<lambda>_ _. None),
     ie_libfdt = \<lparr>lf_check_header = 0, lf_totalsize = 0, lf_check_full = 0, lf_path_offset = (\<lambda>_. 0), lf_subnodes = (\<lambda>_. []),
       lf_get_name = (\<lambda>_. []), lf_getprop = (\<lambda>_ _. None), lf_next_node = id, lf_parent_offset = (\<lambda>_. -1),
       lf_node_check_compatible = (\<lambda>_ _. 0), lf_node_offset_by_phandle = (\<lambda>_. 0)\<rparr>,
     ie_node_offset = (\<lambda>_. 0)\<rparr>"

definition irq_example :: "(unit, nat, (u64 \<times> u32) list) irq_state" where
  "irq_example = kstate.extend ks_example
     \<lparr>is_controller = \<lparr>ic_lock = spinlock_init,
        ic_irq_table = (replicate MAX_IRQ \<lparr>id_handler = None, id_data = 0\<rparr>)[30 := \<lparr>id_handler = Some Timer_tick, id_data = 0\<rparr>],
        ic_device = 0x7000, ic_interrupts_count = 288\<rparr>, is_timer_device = 0x7100,
      is_arm_timer = \<lparr>cntfrq_el0 = 1000, cntp_ctl_el0 = 1, cntp_tval_el0 = 0, cntp_cval_el0 = 0\<rparr>, is_mach = []\<rparr>"

lemma irq_example_inv: "sched_inv rqs_ex wqs_ex irq_example"
  by (rule sched_inv_cong [of _ ks_example, OF _ _ _ _ _ _ _ ks_example_inv])
    (use ks_example_cx in \<open>auto simp: irq_example_def kstate.defs ks_example_def fs_state.defs cx_ok_def\<close>)

theorem timer_interrupt_preempts_witness:
  "\<exists>s'. irq_handle env_ex irq_example = Some (s', True) \<and> is_mach s' = [(0x8010010, 30)] \<and>
     sched_inv (rqs_ex(0 := [0x2000, 0x5000])) (wqs_ex(SleepingTasks 0 := [])) s'"
proof -
  have z: "cx_cpu fs_example = 0" using ks_example_fields(6) by (simp add: ks_example_def fs_state.defs)
  have c: "cx_cpu irq_example = 0" "cpu_current (this_cpu irq_example) = Some 0x1000"
    "sleep_key irq_example 0x5000 = 5" "timer_current_tick irq_example = 10"
    by (simp_all add: irq_example_def kstate.defs ks_example_def fs_state.defs this_cpu_def cpu_ex_def sleep_key_def tasks_ex_def timer_current_tick_def z)
  have a: "co_get_active (ie_chip env_ex) (ic_device (is_controller irq_example)) (is_mach irq_example) = Some ([], 30)"
    by (simp add: irq_example_def kstate.defs env_ex_def gic_ops_def arm_gic_irq_get_active_def gic_ex_def rec_read GICC_IAR_def)
  have e: "co_signal_eoi (ie_chip env_ex) (ic_device (is_controller irq_example)) 30 [] = Some [(0x8010010, 30)]"
    by (simp add: env_ex_def gic_ops_def arm_gic_irq_eoi_def gic_ex_def rec_write GICC_EOIR_def)
  have t: "ic_irq_table (is_controller irq_example) ! unat (30 :: u32) = \<lparr>id_handler = Some Timer_tick, id_data = 0\<rparr>"
    "ucast (30 :: u32) \<le> ic_interrupts_count (is_controller irq_example)" "unat (30 :: u32) < MAX_IRQ"
    by (simp_all add: irq_example_def kstate.defs MAX_IRQ_def)
  have q: "wqs_ex (SleepingTasks 0) = [0x5000]" "rqs_ex 0 = [0x2000]" by (simp_all add: wqs_ex_def rqs_ex_def)
  show ?thesis
    using timer_interrupt_preempts [OF irq_example_inv c(1,2) a t(3,2,1) e] unfolding q by (auto simp: c simp del: fun_upd_apply)
qed

end
