(* ===== verification/Virtio.thy ===== *)
theory Virtio
  imports Drivers Devices
begin

text \<open>
  The virtio block driver: the queue (\<^verbatim>\<open>drivers/virtio/virtio_queue.c\<close>), the block device (\<^verbatim>\<open>virtio_blk.c\<close>) and the
  bus that finds it (\<^verbatim>\<open>virtio_mmio.c\<close>, \<^verbatim>\<open>virtio_mmio.h\<close>).

  Queues and requests lie in memory that the driver and the device share; the state has them by their physical
  address, next to the ordinary memory that the callers' buffers are in. The device acts when one of its
  registers is written, and while the driver waits: what it does then is an argument, \<open>dmb\<close>, after the
  barrier of the waiting loop.
\<close>

section \<open>State\<close>

definition SECTOR_SIZE :: usize where "SECTOR_SIZE = 512"
definition VIRTIO_BLOCK_TYPE_IN :: u32 where "VIRTIO_BLOCK_TYPE_IN = 0"
definition VIRTIO_BLOCK_TYPE_OUT :: u32 where "VIRTIO_BLOCK_TYPE_OUT = 1"
definition VIRTQ_DESC_F_NEXT :: u16 where "VIRTQ_DESC_F_NEXT = 1"
definition VIRTQ_DESC_F_WRITE :: u16 where "VIRTQ_DESC_F_WRITE = 2"
definition VIRTIO_QUEUE_ENTRY_COUNT :: nat where "VIRTIO_QUEUE_ENTRY_COUNT = 16"
definition VIRTIO_MAGIC :: u32 where "VIRTIO_MAGIC = 0x74726976"
definition VIRTIO_VERSION :: u32 where "VIRTIO_VERSION = 1"
definition VIRTIO_STATUS_ACK :: u32 where "VIRTIO_STATUS_ACK = 1"
definition VIRTIO_STATUS_DRIVER :: u32 where "VIRTIO_STATUS_DRIVER = 2"
definition VIRTIO_STATUS_DRIVER_OK :: u32 where "VIRTIO_STATUS_DRIVER_OK = 4"
definition VIRTIO_OFFSET_MAGIC :: usize where "VIRTIO_OFFSET_MAGIC = 0x0"
definition VIRTIO_OFFSET_VERSION :: usize where "VIRTIO_OFFSET_VERSION = 0x4"
definition VIRTIO_OFFSET_DEVICEID :: usize where "VIRTIO_OFFSET_DEVICEID = 0x8"
definition VIRTIO_OFFSET_PAGE_SIZE :: usize where "VIRTIO_OFFSET_PAGE_SIZE = 0x28"
definition VIRTIO_OFFSET_QUEUE_SEL :: usize where "VIRTIO_OFFSET_QUEUE_SEL = 0x30"
definition VIRTIO_OFFSET_QUEUE_NUM :: usize where "VIRTIO_OFFSET_QUEUE_NUM = 0x38"
definition VIRTIO_OFFSET_QUEUE_PFN :: usize where "VIRTIO_OFFSET_QUEUE_PFN = 0x40"
definition VIRTIO_OFFSET_QUEUE_NOTIFY :: usize where "VIRTIO_OFFSET_QUEUE_NOTIFY = 0x50"
definition VIRTIO_OFFSET_INTERRUPT_STATUS :: usize where "VIRTIO_OFFSET_INTERRUPT_STATUS = 0x60"
definition VIRTIO_OFFSET_INTERRUPT_ACK :: usize where "VIRTIO_OFFSET_INTERRUPT_ACK = 0x64"
definition VIRTIO_OFFSET_DEVICE_STATUS :: usize where "VIRTIO_OFFSET_DEVICE_STATUS = 0x70"
definition VIRTIO_OFFSET_DEVICE_CONFIG :: usize where "VIRTIO_OFFSET_DEVICE_CONFIG = 0x100"

record VirtIOQueueDesc =
  qd_addr :: u64
  qd_len :: u32
  qd_flags :: u16
  qd_next :: u16

text \<open>The pointer \<^verbatim>\<open>used_index\<close> always points to the index of the used ring, here \<open>vq_used_index\<close>.\<close>

record VirtQ =
  vq_descs :: "VirtIOQueueDesc list"
  vq_avail_index :: u16
  vq_avail_ring :: "u16 list"
  vq_used_index :: u16
  vq_queue_index :: u32
  vq_last_used_index :: u16

record VirtIOBlkRequest =
  br_type :: u32
  br_sector :: u64
  br_data :: "u8 list"
  br_status :: u8

record VirtIOBlkDriverData =
  bd_irq :: u32
  bd_base_addr :: Register
  bd_virtq_phy :: u64
  bd_request_addr_phy :: usize
  bd_capacity :: usize

record 'w virtio_state =
  vs_queues :: "u64 \<Rightarrow> VirtQ"
  vs_requests :: "u64 \<Rightarrow> VirtIOBlkRequest"
  vs_bytes :: bytes
  vs_claimed :: "bool list"
  vs_devices_index :: u32
  vs_world :: 'w

type_synonym 'w vst = "'w virtio_state"

definition upd_queue :: "u64 \<Rightarrow> (VirtQ \<Rightarrow> VirtQ) \<Rightarrow> 'w vst \<Rightarrow> 'w vst" where
  "upd_queue p f s = s\<lparr>vs_queues := (vs_queues s)(p := f (vs_queues s p))\<rparr>"

definition upd_request :: "u64 \<Rightarrow> (VirtIOBlkRequest \<Rightarrow> VirtIOBlkRequest) \<Rightarrow> 'w vst \<Rightarrow> 'w vst" where
  "upd_request p f s = s\<lparr>vs_requests := (vs_requests s)(p := f (vs_requests s p))\<rparr>"

text \<open>What the driver needs of the kernel: \<open>drv_ops\<close>, physical pages, and the completion its interrupt signals.\<close>

record 'w blk_env = "'w vst drv_ops" +
  be_pmm_alloc :: "'w vst \<Rightarrow> ('w vst \<times> usize) option"
  be_pmm_free :: "usize \<Rightarrow> 'w vst \<Rightarrow> 'w vst option"
  be_completion_init :: "u64 \<Rightarrow> 'w vst \<Rightarrow> 'w vst option"
  be_completion_reset :: "u64 \<Rightarrow> 'w vst \<Rightarrow> 'w vst option"
  be_completion_wait :: "u64 \<Rightarrow> 'w vst \<Rightarrow> 'w vst option"
  be_completion_signal :: "u64 \<Rightarrow> 'w vst \<Rightarrow> 'w vst option"
  be_dmb :: "'w vst \<Rightarrow> 'w vst"

section \<open>The queue\<close>

definition virtq_is_busy :: "VirtQ \<Rightarrow> bool" where
  "virtq_is_busy vq \<longleftrightarrow> vq_last_used_index vq \<noteq> vq_used_index vq"

definition virtio_queue_create :: "'w vst mmio \<Rightarrow> 'w blk_env \<Rightarrow> Register \<Rightarrow> u32 \<Rightarrow> 'w vst \<Rightarrow> ('w vst \<times> u64) option" where
  "virtio_queue_create io env base index s = do {
     (s, virtq_paddr) \<leftarrow> be_pmm_alloc env s;
     if IS_ERR virtq_paddr then Some (s, ERR_TO_PTR (- ENOMEM))
     else do {
       (s, virtq_paddr2) \<leftarrow> be_pmm_alloc env s;
       if IS_ERR virtq_paddr2 then do {
         s \<leftarrow> be_pmm_free env virtq_paddr s;
         Some (s, ERR_TO_PTR (- ENOMEM))
       }
       else if virtq_paddr - virtq_paddr2 \<noteq> PAGE_SIZE then do {
         s \<leftarrow> be_pmm_free env virtq_paddr s;
         s \<leftarrow> be_pmm_free env virtq_paddr2 s;
         Some (s, ERR_TO_PTR (- ENOMEM))
       }
       else do {
         let s = upd_queue virtq_paddr2 (\<lambda>q. q\<lparr>vq_queue_index := index\<rparr>) s;
         s \<leftarrow> reg_write32 io base VIRTIO_OFFSET_QUEUE_SEL index s;
         s \<leftarrow> reg_write32 io base VIRTIO_OFFSET_QUEUE_NUM (of_nat VIRTIO_QUEUE_ENTRY_COUNT) s;
         s \<leftarrow> reg_write32 io base VIRTIO_OFFSET_QUEUE_PFN (ucast (drop_bit 12 virtq_paddr2)) s;
         Some (s, virtq_paddr2)
       }
     }
   }"

definition virtio_queue_destroy :: "'w blk_env \<Rightarrow> u64 \<Rightarrow> 'w vst \<Rightarrow> 'w vst option" where
  "virtio_queue_destroy env v s = do {
     s \<leftarrow> be_pmm_free env v s;
     be_pmm_free env (v + PAGE_SIZE) s
   }"

section \<open>Requests\<close>

definition virtio_blk_flush_notify_host :: "'w vst mmio \<Rightarrow> VirtIOBlkDriverData \<Rightarrow> u16 \<Rightarrow> 'w vst \<Rightarrow> 'w vst option" where
  "virtio_blk_flush_notify_host io data desc_index s = do {
     let q = bd_virtq_phy data;
     let s = upd_queue q (\<lambda>vq. vq\<lparr>vq_avail_ring := (vq_avail_ring vq)[unat (vq_avail_index vq) mod VIRTIO_QUEUE_ENTRY_COUNT := desc_index]\<rparr>) s;
     let s = upd_queue q (\<lambda>vq. vq\<lparr>vq_avail_index := vq_avail_index vq + 1\<rparr>) s;
     s \<leftarrow> reg_write32 io (bd_base_addr data) VIRTIO_OFFSET_QUEUE_NOTIFY (vq_queue_index (vs_queues s q)) s;
     Some (upd_queue q (\<lambda>vq. vq\<lparr>vq_last_used_index := vq_last_used_index vq + 1\<rparr>) s)
   }"

partial_function (option) wait_not_busy :: "('w vst \<Rightarrow> 'w vst) \<Rightarrow> u64 \<Rightarrow> 'w vst \<Rightarrow> 'w vst option" where
  "wait_not_busy dmb q s = (if virtq_is_busy (vs_queues s q) then wait_not_busy dmb q (dmb s) else Some s)"

definition virtio_blk_submit_and_wait :: "'w vst mmio \<Rightarrow> 'w blk_env \<Rightarrow> u64 \<Rightarrow> VirtIOBlkDriverData \<Rightarrow> 'w vst \<Rightarrow> 'w vst option" where
  "virtio_blk_submit_and_wait io env device data s = do {
     s \<leftarrow> be_completion_reset env device s;
     s \<leftarrow> virtio_blk_flush_notify_host io data 0 s;
     wait_not_busy (be_dmb env) (bd_virtq_phy data) s
   }"

definition virtio_blk_submit_and_block :: "'w vst mmio \<Rightarrow> 'w blk_env \<Rightarrow> u64 \<Rightarrow> VirtIOBlkDriverData \<Rightarrow> 'w vst \<Rightarrow> 'w vst option" where
  "virtio_blk_submit_and_block io env device data s = do {
     s \<leftarrow> be_completion_reset env device s;
     s \<leftarrow> virtio_blk_flush_notify_host io data 0 s;
     be_completion_wait env device s
   }"

text \<open>The third descriptor keeps its \<^verbatim>\<open>next\<close>.\<close>

definition virtio_blk_add_requests :: "VirtIOBlkDriverData \<Rightarrow> usize \<Rightarrow> bool \<Rightarrow> 'w vst \<Rightarrow> 'w vst" where
  "virtio_blk_add_requests data sector writing s =
     (let p = bd_request_addr_phy data;
          s = upd_request p (\<lambda>r. r\<lparr>br_sector := sector, br_type := (if writing then VIRTIO_BLOCK_TYPE_OUT else VIRTIO_BLOCK_TYPE_IN)\<rparr>) s
      in upd_queue (bd_virtq_phy data) (\<lambda>vq. vq\<lparr>vq_descs := (vq_descs vq)
        [0 := \<lparr>qd_addr = p, qd_len = 16, qd_flags = VIRTQ_DESC_F_NEXT, qd_next = 1\<rparr>,
         1 := \<lparr>qd_addr = p + 16, qd_len = ucast SECTOR_SIZE, qd_flags = VIRTQ_DESC_F_NEXT OR (if writing then 1 else VIRTQ_DESC_F_WRITE), qd_next = 2\<rparr>,
         2 := (vq_descs vq ! 2)\<lparr>qd_addr := p + 528, qd_len := 1, qd_flags := VIRTQ_DESC_F_WRITE\<rparr>]\<rparr>) s)"

definition virtio_blk_add_write_requests :: "VirtIOBlkDriverData \<Rightarrow> usize \<Rightarrow> 'w vst \<Rightarrow> 'w vst" where
  "virtio_blk_add_write_requests data sector s = virtio_blk_add_requests data sector True s"

definition virtio_blk_add_read_requests :: "VirtIOBlkDriverData \<Rightarrow> usize \<Rightarrow> 'w vst \<Rightarrow> 'w vst" where
  "virtio_blk_add_read_requests data sector s = virtio_blk_add_requests data sector False s"

text \<open>\<^verbatim>\<open>memcpy\<close> between the buffer of a caller and the data of the request.\<close>

definition sector_at :: "bytes \<Rightarrow> u64 \<Rightarrow> u8 list" where
  "sector_at m p = map (\<lambda>i. m (p + of_nat i)) [0..<unat SECTOR_SIZE]"

definition put_sector :: "u64 \<Rightarrow> u8 list \<Rightarrow> bytes \<Rightarrow> bytes" where
  "put_sector p d m = (\<lambda>a. if unat (a - p) < unat SECTOR_SIZE then d ! unat (a - p) else m a)"

definition request_status :: "VirtIOBlkDriverData \<Rightarrow> 'w vst \<Rightarrow> u8" where
  "request_status data s = br_status (vs_requests s (bd_request_addr_phy data))"

definition blk_write :: "'w vst mmio \<Rightarrow> 'w blk_env \<Rightarrow> u64 \<Rightarrow> VirtIOBlkDriverData \<Rightarrow> usize \<Rightarrow> u64 \<Rightarrow> 'w vst \<Rightarrow> ('w vst \<times> errno_t) option" where
  "blk_write io env device data sector buf s = do {
     let s = upd_request (bd_request_addr_phy data) (\<lambda>r. r\<lparr>br_data := sector_at (vs_bytes s) buf\<rparr>) s;
     let s = virtio_blk_add_write_requests data sector s;
     s \<leftarrow> virtio_blk_submit_and_block io env device data s;
     Some (s, if request_status data s \<noteq> 0 then - ENODEV else EOK)
   }"

definition blk_write_sync :: "'w vst mmio \<Rightarrow> 'w blk_env \<Rightarrow> u64 \<Rightarrow> VirtIOBlkDriverData \<Rightarrow> usize \<Rightarrow> u64 \<Rightarrow> 'w vst \<Rightarrow> ('w vst \<times> errno_t) option" where
  "blk_write_sync io env device data sector buf s = do {
     let s = upd_request (bd_request_addr_phy data) (\<lambda>r. r\<lparr>br_data := sector_at (vs_bytes s) buf\<rparr>) s;
     let s = virtio_blk_add_write_requests data sector s;
     s \<leftarrow> virtio_blk_submit_and_wait io env device data s;
     Some (s, if request_status data s \<noteq> 0 then - ENODEV else EOK)
   }"

definition blk_read :: "'w vst mmio \<Rightarrow> 'w blk_env \<Rightarrow> u64 \<Rightarrow> VirtIOBlkDriverData \<Rightarrow> usize \<Rightarrow> u64 \<Rightarrow> 'w vst \<Rightarrow> ('w vst \<times> errno_t) option" where
  "blk_read io env device data sector buf s = do {
     let s = virtio_blk_add_read_requests data sector s;
     s \<leftarrow> virtio_blk_submit_and_block io env device data s;
     if request_status data s \<noteq> 0 then Some (s, - ENODEV)
     else Some (s\<lparr>vs_bytes := put_sector buf (br_data (vs_requests s (bd_request_addr_phy data))) (vs_bytes s)\<rparr>, EOK)
   }"

definition blk_read_sync :: "'w vst mmio \<Rightarrow> 'w blk_env \<Rightarrow> u64 \<Rightarrow> VirtIOBlkDriverData \<Rightarrow> usize \<Rightarrow> u64 \<Rightarrow> 'w vst \<Rightarrow> ('w vst \<times> errno_t) option" where
  "blk_read_sync io env device data sector buf s = do {
     let s = virtio_blk_add_read_requests data sector s;
     s \<leftarrow> virtio_blk_submit_and_wait io env device data s;
     if request_status data s \<noteq> 0 then Some (s, - ENODEV)
     else Some (s\<lparr>vs_bytes := put_sector buf (br_data (vs_requests s (bd_request_addr_phy data))) (vs_bytes s)\<rparr>, EOK)
   }"

definition blk_sector_size :: usize where
  "blk_sector_size = SECTOR_SIZE"

definition blk_capacity :: "VirtIOBlkDriverData \<Rightarrow> usize" where
  "blk_capacity data = bd_capacity data"

definition virtio_blk_irq_handler :: "'w vst mmio \<Rightarrow> 'w blk_env \<Rightarrow> u64 \<Rightarrow> VirtIOBlkDriverData \<Rightarrow> 'w vst \<Rightarrow> 'w vst option" where
  "virtio_blk_irq_handler io env device data s = do {
     (s, isr) \<leftarrow> reg_read32 io (bd_base_addr data) VIRTIO_OFFSET_INTERRUPT_STATUS s;
     if isr AND 1 \<noteq> 0 then do {
       s \<leftarrow> reg_write32 io (bd_base_addr data) VIRTIO_OFFSET_INTERRUPT_ACK 1 s;
       be_completion_signal env device s
     }
     else Some s
   }"

section \<open>Probing\<close>

abbreviation sizeof_VirtIOBlkDriverData :: usize where "sizeof_VirtIOBlkDriverData \<equiv> 104"

text \<open>
  The completion is that of the block, which the device names once it is ready. The errors after the allocation give
  neither the block nor the pages back.
\<close>

definition virtio_blk_probe ::
  "'w vst mmio \<Rightarrow> 'w blk_env \<Rightarrow> libfdt \<Rightarrow> FDTInterrupt \<Rightarrow> u64 \<Rightarrow> int \<Rightarrow> Register \<Rightarrow> u32 \<Rightarrow> 'w vst \<Rightarrow>
   ('w vst \<times> errno_t \<times> (u64 \<times> VirtIOBlkDriverData) option) option" where
  "virtio_blk_probe io env lf junk device fdt_node_offset base index s = do {
     (s, magic) \<leftarrow> reg_read32 io base VIRTIO_OFFSET_MAGIC s;
     if VIRTIO_MAGIC \<noteq> magic then Some (s, - EINVAL, None)
     else do {
       (s, version) \<leftarrow> reg_read32 io base VIRTIO_OFFSET_VERSION s;
       if VIRTIO_VERSION \<noteq> version then Some (s, - EINVAL, None)
       else do {
         (s, d) \<leftarrow> dp_kalloc env sizeof_VirtIOBlkDriverData s;
         if IS_ERR d then Some (s, - ENOMEM, None)
         else do {
           s \<leftarrow> be_completion_init env device s;
           s \<leftarrow> reg_write32 io base VIRTIO_OFFSET_DEVICE_STATUS 0 s;
           (s, device_status) \<leftarrow> reg_read32 io base VIRTIO_OFFSET_DEVICE_STATUS s;
           s \<leftarrow> reg_write32 io base VIRTIO_OFFSET_DEVICE_STATUS (device_status OR VIRTIO_STATUS_ACK OR VIRTIO_STATUS_DRIVER) s;
           s \<leftarrow> reg_write32 io base VIRTIO_OFFSET_PAGE_SIZE (ucast PAGE_SIZE) s;
           (s, virtq) \<leftarrow> virtio_queue_create io env base index s;
           if IS_ERR virtq then Some (s, PTR_TO_ERR virtq, None)
           else do {
             s \<leftarrow> reg_write32 io base VIRTIO_OFFSET_DEVICE_STATUS VIRTIO_STATUS_DRIVER_OK s;
             (s, sectors) \<leftarrow> reg_read32 io base VIRTIO_OFFSET_DEVICE_CONFIG s;
             (s, request) \<leftarrow> be_pmm_alloc env s;
             if IS_ERR request then Some (s, - ENOMEM, None)
             else do {
               (fdt_interrupt, _) \<leftarrow> fdt_get_interrupt_cells lf fdt_node_offset [junk];
               let cells = fi_cells (fdt_interrupt ! 0);
               let irq = cells ! 1 + (if cells ! 0 = 0 then 32 else 16);
               s \<leftarrow> dp_request_irq env irq Virtio_blk_irq_handler device s;
               Some (s, EOK, Some (d, \<lparr>bd_irq = irq, bd_base_addr = base, bd_virtq_phy = virtq, bd_request_addr_phy = request,
                 bd_capacity = ucast sectors * SECTOR_SIZE\<rparr>))
             }
           }
         }
       }
     }
   }"

definition virtio_blk_remove :: "'w blk_env \<Rightarrow> u64 \<Rightarrow> VirtIOBlkDriverData \<Rightarrow> 'w vst \<Rightarrow> 'w vst option" where
  "virtio_blk_remove env driver_data data s = do {
     s \<leftarrow> virtio_queue_destroy env (bd_virtq_phy data) s;
     s \<leftarrow> be_pmm_free env (bd_request_addr_phy data) s;
     s \<leftarrow> dp_vm_mmio_unmap env (reg_address (bd_base_addr data)) (reg_size (bd_base_addr data)) s;
     dp_kfree env driver_data s
   }"

text \<open>A device id of the bus; two names have the value 5.\<close>

type_synonym VirtDeviceID = u32

definition VIRTIO_MMIO_DEVICE_ID_UNKNOWN :: VirtDeviceID where "VIRTIO_MMIO_DEVICE_ID_UNKNOWN = 0"
definition VIRTIO_MMIO_DEVICE_ID_NETWORK :: VirtDeviceID where "VIRTIO_MMIO_DEVICE_ID_NETWORK = 1"
definition VIRTIO_MMIO_DEVICE_ID_BLOCK :: VirtDeviceID where "VIRTIO_MMIO_DEVICE_ID_BLOCK = 2"
definition VIRTIO_MMIO_DEVICE_ID_CONSOLE :: VirtDeviceID where "VIRTIO_MMIO_DEVICE_ID_CONSOLE = 3"
definition VIRTIO_MMIO_DEVICE_ID_ENTROPY :: VirtDeviceID where "VIRTIO_MMIO_DEVICE_ID_ENTROPY = 4"
definition VIRTIO_MMIO_DEVICE_ID_SCSI_HOST :: VirtDeviceID where "VIRTIO_MMIO_DEVICE_ID_SCSI_HOST = 5"

definition get_device_id :: "u32 \<Rightarrow> VirtDeviceID" where
  "get_device_id i = (if i > VIRTIO_MMIO_DEVICE_ID_SCSI_HOST \<or> i = 0 then VIRTIO_MMIO_DEVICE_ID_UNKNOWN else i)"

definition device_id_to_device_class :: "VirtDeviceID \<Rightarrow> DeviceClass" where
  "device_id_to_device_class i =
     (if i = VIRTIO_MMIO_DEVICE_ID_NETWORK then DEVICE_NETWORK
      else if i = VIRTIO_MMIO_DEVICE_ID_BLOCK then DEVICE_BLOCK
      else if i = VIRTIO_MMIO_DEVICE_ID_CONSOLE then DEVICE_CONSOLE
      else if i = VIRTIO_MMIO_DEVICE_ID_ENTROPY then DEVICE_ENTROPY
      else DEVICE_UNKNOWN)"

text \<open>The result is also the class of the device afterwards, from \<open>cls\<close> before.\<close>

definition virtio_mmio_probe ::
  "'w vst mmio \<Rightarrow> 'w blk_env \<Rightarrow> libfdt \<Rightarrow> FDTInterrupt \<Rightarrow> u64 \<Rightarrow> int \<Rightarrow> DeviceClass \<Rightarrow> 'w vst \<Rightarrow>
   ('w vst \<times> errno_t \<times> DeviceClass \<times> (u64 \<times> VirtIOBlkDriverData) option) option" where
  "virtio_mmio_probe io env lf junk device fdt_node_offset cls s = do {
     regs \<leftarrow> fdt_get_reg lf fdt_node_offset 1;
     (case regs of
        None \<Rightarrow> Some (s, - ENODEV, cls, None)
      | Some rs \<Rightarrow> do {
          let reg_pa = rs ! 0;
          (s, va) \<leftarrow> dp_vm_mmio_map env (reg_address reg_pa) (reg_size reg_pa) s;
          if IS_ERR va then Some (s, - ENOMEM, cls, None)
          else do {
            let reg_va = \<lparr>reg_size = reg_size reg_pa, reg_address = va\<rparr>;
            let unmap = dp_vm_mmio_unmap env va (reg_size reg_va);
            (s, i) \<leftarrow> reg_read32 io reg_va VIRTIO_OFFSET_DEVICEID s;
            let device_id = get_device_id i;
            if device_id = VIRTIO_MMIO_DEVICE_ID_UNKNOWN then do { s \<leftarrow> unmap s; Some (s, - ENODEV, cls, None) }
            else if vs_claimed s ! unat device_id then do { s \<leftarrow> unmap s; Some (s, - ENODEV, cls, None) }
            else do {
              let s = s\<lparr>vs_claimed := (vs_claimed s)[unat device_id := True]\<rparr>;
              let cls = device_id_to_device_class device_id;
              if cls = DEVICE_BLOCK then do {
                let index = vs_devices_index s;
                (s, ret, data) \<leftarrow> virtio_blk_probe io env lf junk device fdt_node_offset reg_va index (s\<lparr>vs_devices_index := index + 1\<rparr>);
                if ret \<noteq> EOK then do { s \<leftarrow> unmap s; Some (s, ret, cls, None) } else Some (s, EOK, cls, data)
              }
              else do { s \<leftarrow> unmap s; Some (s, - ENODEV, cls, None) }
            }
          }
        })
   }"

definition virtio_mmio_remove :: "'w blk_env \<Rightarrow> DeviceClass \<Rightarrow> u64 \<Rightarrow> VirtIOBlkDriverData \<Rightarrow> 'w vst \<Rightarrow> ('w vst \<times> errno_t) option" where
  "virtio_mmio_remove env cls driver_data data s = do {
     s \<leftarrow> (if cls = DEVICE_BLOCK then virtio_blk_remove env driver_data data s else Some s);
     Some (s, EOK)
   }"

end
