(* ===== verification/VirtioProps.thy ===== *)
theory VirtioProps
  imports Virtio
begin

text \<open>
  What the block driver promises: over a device that follows the virtio specification, sectors that were written are
  read back.
\<close>

section \<open>A block device\<close>

text \<open>
  What the specification says a device does with the newest request of a queue: it follows the descriptors from the
  one that the available ring names: a header it may read, the data, and a byte it may write the status to. The disk
  is the outside world of the state. A request in the wrong form is not answered; one that asks for something
  the descriptors do not allow ends with an error.
\<close>

definition chain_ok :: "VirtIOQueueDesc \<Rightarrow> VirtIOQueueDesc \<Rightarrow> VirtIOQueueDesc \<Rightarrow> bool" where
  "chain_ok d0 d1 d2 \<longleftrightarrow>
     qd_flags d0 = 1 \<and> qd_len d0 = 16 \<and>
     bit (qd_flags d1) 0 \<and> qd_addr d1 = qd_addr d0 + 16 \<and> qd_len d1 = 512 \<and>
     qd_flags d2 = 2 \<and> qd_addr d2 = qd_addr d0 + 528 \<and> qd_len d2 = 1"

definition newest_head :: "VirtQ \<Rightarrow> nat" where
  "newest_head vq = unat (vq_avail_ring vq ! (unat (vq_avail_index vq - 1) mod 16))"

definition blk_serve :: "u64 \<Rightarrow> (u64 \<Rightarrow> u8 list) vst \<Rightarrow> (u64 \<Rightarrow> u8 list) vst" where
  "blk_serve q s =
     (let vq = vs_queues s q;
          d0 = vq_descs vq ! newest_head vq;
          d1 = vq_descs vq ! unat (qd_next d0);
          d2 = vq_descs vq ! unat (qd_next d1);
          p = qd_addr d0;
          r = vs_requests s p;
          may_write = bit (qd_flags d1) 1
      in if chain_ok d0 d1 d2 then
           upd_queue q (\<lambda>vq. vq\<lparr>vq_used_index := vq_used_index vq + 1\<rparr>)
             (if br_type r = 0 \<and> may_write then upd_request p (\<lambda>r. r\<lparr>br_data := vs_world s (br_sector r), br_status := 0\<rparr>) s
              else if br_type r = 1 \<and> \<not> may_write then
                upd_request p (\<lambda>r. r\<lparr>br_status := 0\<rparr>) (s\<lparr>vs_world := (vs_world s)(br_sector r := br_data r)\<rparr>)
              else upd_request p (\<lambda>r. r\<lparr>br_status := 1\<rparr>) s)
         else s)"

text \<open>A device that serves a request when it is notified (\<open>now\<close>) or while the driver waits.\<close>

definition blk_device :: "bool \<Rightarrow> VirtIOBlkDriverData \<Rightarrow> (u64 \<Rightarrow> u8 list) vst mmio \<Rightarrow> (u64 \<Rightarrow> u8 list) blk_env \<Rightarrow> u64 \<Rightarrow> bool" where
  "blk_device now data io env device \<longleftrightarrow>
     (\<forall>s v. io_write32 io (reg_address (bd_base_addr data) + VIRTIO_OFFSET_QUEUE_NOTIFY) v s = (if now then blk_serve (bd_virtq_phy data) s else s)) \<and>
     (\<forall>s. be_dmb env s = (if now then s else blk_serve (bd_virtq_phy data) s)) \<and>
     (\<forall>s. be_completion_reset env device s = Some s)"

text \<open>A queue without open requests.\<close>

definition queue_idle :: "VirtQ \<Rightarrow> bool" where
  "queue_idle vq \<longleftrightarrow> length (vq_descs vq) = 16 \<and> length (vq_avail_ring vq) = 16 \<and> vq_used_index vq = vq_last_used_index vq"

section \<open>One request\<close>

lemma upd_queue_simps [simp]:
  "vs_requests (upd_queue q f s) = vs_requests s" "vs_bytes (upd_queue q f s) = vs_bytes s" "vs_world (upd_queue q f s) = vs_world s"
  "vs_queues (upd_queue q f s) = (vs_queues s)(q := f (vs_queues s q))"
  by (simp_all add: upd_queue_def)

lemma upd_request_simps [simp]:
  "vs_queues (upd_request q f s) = vs_queues s" "vs_bytes (upd_request q f s) = vs_bytes s" "vs_world (upd_request q f s) = vs_world s"
  "vs_requests (upd_request q f s) = (vs_requests s)(q := f (vs_requests s q))"
  by (simp_all add: upd_request_def)

text \<open>The chain that the driver builds is the one the device expects.\<close>

definition chain_at :: "u64 \<Rightarrow> bool \<Rightarrow> VirtQ \<Rightarrow> bool" where
  "chain_at p writing vq \<longleftrightarrow> newest_head vq = 0 \<and>
     vq_descs vq ! 0 = \<lparr>qd_addr = p, qd_len = 16, qd_flags = 1, qd_next = 1\<rparr> \<and>
     vq_descs vq ! 1 = \<lparr>qd_addr = p + 16, qd_len = 512, qd_flags = (if writing then 1 else 3), qd_next = 2\<rparr> \<and>
     (\<exists>n. vq_descs vq ! 2 = \<lparr>qd_addr = p + 528, qd_len = 1, qd_flags = 2, qd_next = n\<rparr>)"

lemma blk_serve_chain:
  assumes "chain_at p writing (vs_queues s q)" "br_type (vs_requests s p) = (if writing then 1 else 0)"
  shows "blk_serve q s = upd_queue q (\<lambda>vq. vq\<lparr>vq_used_index := vq_used_index vq + 1\<rparr>)
    (if writing then upd_request p (\<lambda>r. r\<lparr>br_status := 0\<rparr>) (s\<lparr>vs_world := (vs_world s)(br_sector (vs_requests s p) := br_data (vs_requests s p))\<rparr>)
     else upd_request p (\<lambda>r. r\<lparr>br_data := vs_world s (br_sector r), br_status := 0\<rparr>) s)"
proof -
  have b: "bit (1 :: u16) 0" "bit (3 :: u16) 0" "bit (3 :: u16) 1" "\<not> bit (1 :: u16) 1"
    by (simp_all add: bit_iff_odd drop_bit_eq_div)
  show ?thesis
  proof (cases writing)
    case True
    then show ?thesis using assms b by (auto simp: blk_serve_def chain_ok_def chain_at_def Let_def)
  next
    case False
    then show ?thesis using assms b by (auto simp: blk_serve_def chain_ok_def chain_at_def Let_def)
  qed
qed

text \<open>After the notification, with the request served, the driver waits no longer.\<close>

lemma submit_and_wait_ok:
  assumes dev: "blk_device now data io env device" and reg: "VIRTIO_OFFSET_QUEUE_NOTIFY < reg_size (bd_base_addr data)"
    and idle: "queue_idle (vs_queues s (bd_virtq_phy data))" and p: "p = bd_request_addr_phy data"
    and req: "br_type (vs_requests s p) = (if writing then 1 else 0)"
    and descs: "vq_descs (vs_queues s (bd_virtq_phy data)) ! 0 = \<lparr>qd_addr = p, qd_len = 16, qd_flags = 1, qd_next = 1\<rparr>"
      "vq_descs (vs_queues s (bd_virtq_phy data)) ! 1 = \<lparr>qd_addr = p + 16, qd_len = 512, qd_flags = (if writing then 1 else 3), qd_next = 2\<rparr>"
      "\<exists>n. vq_descs (vs_queues s (bd_virtq_phy data)) ! 2 = \<lparr>qd_addr = p + 528, qd_len = 1, qd_flags = 2, qd_next = n\<rparr>"
  shows "\<exists>s'. virtio_blk_submit_and_wait io env device data s = Some s' \<and> queue_idle (vs_queues s' (bd_virtq_phy data)) \<and>
    vs_bytes s' = vs_bytes s \<and>
    vs_world s' = (if writing then (vs_world s)(br_sector (vs_requests s p) := br_data (vs_requests s p)) else vs_world s) \<and>
    br_status (vs_requests s' p) = 0 \<and> (writing \<or> br_data (vs_requests s' p) = vs_world s (br_sector (vs_requests s p)))"
proof -
  let ?q = "bd_virtq_phy data"
  define s1 where "s1 = upd_queue ?q (\<lambda>vq. vq\<lparr>vq_avail_index := vq_avail_index vq + 1\<rparr>)
    (upd_queue ?q (\<lambda>vq. vq\<lparr>vq_avail_ring := (vq_avail_ring vq)[unat (vq_avail_index vq) mod VIRTIO_QUEUE_ENTRY_COUNT := 0]\<rparr>) s)"
  define bump :: "(u64 \<Rightarrow> u8 list) vst \<Rightarrow> (u64 \<Rightarrow> u8 list) vst" where "bump = upd_queue ?q (\<lambda>vq. vq\<lparr>vq_last_used_index := vq_last_used_index vq + 1\<rparr>)"
  have c1: "chain_at p writing (vs_queues s1 ?q)"
    using descs idle by (simp add: chain_at_def s1_def newest_head_def VIRTIO_QUEUE_ENTRY_COUNT_def queue_idle_def)
  then have c2: "chain_at p writing (vs_queues (bump s1) ?q)" by (simp add: chain_at_def bump_def newest_head_def)
  have r: "vs_requests s1 = vs_requests s" "vs_world s1 = vs_world s" "vs_bytes s1 = vs_bytes s" by (simp_all add: s1_def)
  have busy: "virtq_is_busy (vs_queues (bump s1) ?q)" using idle by (simp add: virtq_is_busy_def bump_def s1_def queue_idle_def)
  let ?t = "if now then bump (blk_serve ?q s1) else blk_serve ?q (bump s1)"
  have t: "\<not> virtq_is_busy (vs_queues ?t ?q)" "queue_idle (vs_queues ?t ?q)" "vs_bytes ?t = vs_bytes s"
    "vs_world ?t = (if writing then (vs_world s)(br_sector (vs_requests s p) := br_data (vs_requests s p)) else vs_world s)"
    "br_status (vs_requests ?t p) = 0" "writing \<or> br_data (vs_requests ?t p) = vs_world s (br_sector (vs_requests s p))"
    using blk_serve_chain [OF c1] blk_serve_chain [OF c2] req idle r
    by (simp_all add: bump_def s1_def virtq_is_busy_def queue_idle_def)
  have n: "virtio_blk_flush_notify_host io data 0 s = Some (bump (if now then blk_serve ?q s1 else s1))"
    using dev reg by (simp add: virtio_blk_flush_notify_host_def reg_write32_def ASSERT_def blk_device_def Let_def s1_def bump_def)
  have w: "wait_not_busy (be_dmb env) ?q (bump (if now then blk_serve ?q s1 else s1)) = Some ?t"
  proof (cases now)
    case True
    then show ?thesis using t(1) by (simp add: wait_not_busy.simps)
  next
    case False
    then have d: "be_dmb env (bump s1) = blk_serve ?q (bump s1)" using dev by (simp add: blk_device_def)
    have "wait_not_busy (be_dmb env) ?q (blk_serve ?q (bump s1)) = Some (blk_serve ?q (bump s1))"
      using t(1) False by (subst wait_not_busy.simps) simp
    then show ?thesis using False busy d by (subst wait_not_busy.simps) simp
  qed
  have "virtio_blk_submit_and_wait io env device data s = Some ?t"
    using n w dev by (simp add: virtio_blk_submit_and_wait_def blk_device_def)
  then show ?thesis using t(2-) by blast
qed

section \<open>Reading and writing\<close>

lemma add_requests_simps:
  fixes s :: "'w vst"
  assumes "length (vq_descs (vs_queues s (bd_virtq_phy data))) = 16" "p = bd_request_addr_phy data" "q = bd_virtq_phy data"
    "s' = virtio_blk_add_requests data sector writing s"
  shows "vq_descs (vs_queues s' q) ! 0 = \<lparr>qd_addr = p, qd_len = 16, qd_flags = 1, qd_next = 1\<rparr>"
    "vq_descs (vs_queues s' q) ! 1 = \<lparr>qd_addr = p + 16, qd_len = 512, qd_flags = (if writing then 1 else 3), qd_next = 2\<rparr>"
    "\<exists>n. vq_descs (vs_queues s' q) ! 2 = \<lparr>qd_addr = p + 528, qd_len = 1, qd_flags = 2, qd_next = n\<rparr>"
    "br_type (vs_requests s' p) = (if writing then 1 else 0)" "br_sector (vs_requests s' p) = sector"
    "br_data (vs_requests s' p) = br_data (vs_requests s p)"
    "vs_bytes s' = vs_bytes s" "vs_world s' = vs_world s" "queue_idle (vs_queues s' q) = queue_idle (vs_queues s q)"
proof -
  have "\<exists>n. d\<lparr>qd_addr := a, qd_len := l, qd_flags := f\<rparr> = \<lparr>qd_addr = a, qd_len = l, qd_flags = f, qd_next = n\<rparr>" for d a l f
    by (cases d) simp
  then show "\<exists>n. vq_descs (vs_queues s' q) ! 2 = \<lparr>qd_addr = p + 528, qd_len = 1, qd_flags = 2, qd_next = n\<rparr>"
    using assms by (simp add: virtio_blk_add_requests_def Let_def VIRTQ_DESC_F_WRITE_def)
qed (use assms in \<open>simp_all add: virtio_blk_add_requests_def Let_def queue_idle_def VIRTQ_DESC_F_NEXT_def VIRTQ_DESC_F_WRITE_def
    SECTOR_SIZE_def VIRTIO_BLOCK_TYPE_IN_def VIRTIO_BLOCK_TYPE_OUT_def\<close>)

lemma blk_write_sync_ok:
  assumes dev: "blk_device now data io env device" and reg: "VIRTIO_OFFSET_QUEUE_NOTIFY < reg_size (bd_base_addr data)"
    and idle: "queue_idle (vs_queues s (bd_virtq_phy data))"
  shows "\<exists>s'. blk_write_sync io env device data sector buf s = Some (s', EOK) \<and> queue_idle (vs_queues s' (bd_virtq_phy data)) \<and>
    vs_bytes s' = vs_bytes s \<and> vs_world s' = (vs_world s)(sector := sector_at (vs_bytes s) buf)"
proof -
  let ?s0 = "upd_request (bd_request_addr_phy data) (\<lambda>r. r\<lparr>br_data := sector_at (vs_bytes s) buf\<rparr>) s"
  let ?s1 = "virtio_blk_add_requests data sector True ?s0"
  have len: "length (vq_descs (vs_queues ?s0 (bd_virtq_phy data))) = 16" using idle by (simp add: queue_idle_def)
  note a = add_requests_simps [OF len refl refl refl, of sector True]
  have "queue_idle (vs_queues ?s1 (bd_virtq_phy data))" using idle a(9) by simp
  from submit_and_wait_ok [OF dev reg this refl, of True] a(1-4)
  obtain s' where "virtio_blk_submit_and_wait io env device data ?s1 = Some s'" "queue_idle (vs_queues s' (bd_virtq_phy data))"
    "vs_bytes s' = vs_bytes s" "vs_world s' = (vs_world s)(sector := sector_at (vs_bytes s) buf)"
    "br_status (vs_requests s' (bd_request_addr_phy data)) = 0"
    using a(5-8) by auto
  then show ?thesis by (simp add: blk_write_sync_def virtio_blk_add_write_requests_def request_status_def)
qed

lemma blk_read_sync_ok:
  assumes dev: "blk_device now data io env device" and reg: "VIRTIO_OFFSET_QUEUE_NOTIFY < reg_size (bd_base_addr data)"
    and idle: "queue_idle (vs_queues s (bd_virtq_phy data))"
  shows "\<exists>s'. blk_read_sync io env device data sector buf s = Some (s', EOK) \<and> queue_idle (vs_queues s' (bd_virtq_phy data)) \<and>
    vs_bytes s' = put_sector buf (vs_world s sector) (vs_bytes s) \<and> vs_world s' = vs_world s"
proof -
  let ?s1 = "virtio_blk_add_requests data sector False s"
  have len: "length (vq_descs (vs_queues s (bd_virtq_phy data))) = 16" using idle by (simp add: queue_idle_def)
  note a = add_requests_simps [OF len refl refl refl, of sector False]
  have "queue_idle (vs_queues ?s1 (bd_virtq_phy data))" using idle a(9) by simp
  from submit_and_wait_ok [OF dev reg this refl, of False] a(1-4)
  obtain s' where "virtio_blk_submit_and_wait io env device data ?s1 = Some s'" "queue_idle (vs_queues s' (bd_virtq_phy data))"
    "vs_bytes s' = vs_bytes s" "vs_world s' = vs_world s" "br_data (vs_requests s' (bd_request_addr_phy data)) = vs_world s sector"
    "br_status (vs_requests s' (bd_request_addr_phy data)) = 0"
    using a(5-8) by auto
  then show ?thesis by (simp add: blk_read_sync_def virtio_blk_add_read_requests_def request_status_def)
qed

lemma sector_at_put: "length d = 512 \<Longrightarrow> sector_at (put_sector p d m) p = d"
  by (rule nth_equalityI) (simp_all add: sector_at_def put_sector_def SECTOR_SIZE_def unat_of_nat take_bit_nat_eq_self)

text \<open>
  Claim C22. What the block driver writes it reads back: over a device that follows the virtio specification, whether it
  answers at the notification or only while the driver waits, a write of a buffer to sector \<open>x\<close> followed by a
  read of sector \<open>y\<close> succeeds both times; afterwards sector \<open>x\<close> of the disk holds the buffer, every
  other sector is as before, the second buffer holds sector \<open>y\<close> and no other byte of memory has
  changed; the queue has no open request.
\<close>

theorem virtio_blk_roundtrip:
  assumes "blk_device now data io env device" "VIRTIO_OFFSET_QUEUE_NOTIFY < reg_size (bd_base_addr data)"
    and "queue_idle (vs_queues s (bd_virtq_phy data))" "\<forall>z. length (vs_world s z) = 512"
  shows "\<exists>s1 s2. blk_write_sync io env device data x buf s = Some (s1, EOK) \<and> blk_read_sync io env device data y buf' s1 = Some (s2, EOK) \<and>
    vs_world s2 = (vs_world s)(x := sector_at (vs_bytes s) buf) \<and>
    sector_at (vs_bytes s2) buf' = (if y = x then sector_at (vs_bytes s) buf else vs_world s y) \<and>
    (\<forall>a. 512 \<le> unat (a - buf') \<longrightarrow> vs_bytes s2 a = vs_bytes s a) \<and> queue_idle (vs_queues s2 (bd_virtq_phy data))"
proof -
  obtain s1 where s1: "blk_write_sync io env device data x buf s = Some (s1, EOK)" "queue_idle (vs_queues s1 (bd_virtq_phy data))"
    "vs_bytes s1 = vs_bytes s" "vs_world s1 = (vs_world s)(x := sector_at (vs_bytes s) buf)"
    using blk_write_sync_ok [OF assms(1-3)] by blast
  obtain s2 where s2: "blk_read_sync io env device data y buf' s1 = Some (s2, EOK)" "queue_idle (vs_queues s2 (bd_virtq_phy data))"
    "vs_bytes s2 = put_sector buf' (vs_world s1 y) (vs_bytes s1)" "vs_world s2 = vs_world s1"
    using blk_read_sync_ok [OF assms(1,2) s1(2)] by blast
  have "length (sector_at (vs_bytes s) buf) = 512" by (simp add: sector_at_def SECTOR_SIZE_def)
  then have "sector_at (vs_bytes s2) buf' = vs_world s1 y" using assms(4) s2(3) s1(4) by (simp add: sector_at_put)
  moreover have "vs_bytes s2 a = vs_bytes s a" if "512 \<le> unat (a - buf')" for a
    using that s2(3) s1(3) by (simp add: put_sector_def SECTOR_SIZE_def)
  ultimately show ?thesis using s1 s2 by (intro exI [of _ s1] exI [of _ s2]) simp
qed

definition blk_data_ex :: VirtIOBlkDriverData where
  "blk_data_ex = \<lparr>bd_irq = 48, bd_base_addr = \<lparr>reg_size = 0x200, reg_address = 0xa000000\<rparr>, bd_virtq_phy = 0x40000000,
     bd_request_addr_phy = 0x40003000, bd_capacity = 0x10000\<rparr>"

definition blk_io_ex :: "(u64 \<Rightarrow> u8 list) vst mmio" where
  "blk_io_ex = \<lparr>io_read64 = (\<lambda>a s. (s, 0)), io_write64 = (\<lambda>_ _ s. s), io_read32 = (\<lambda>a s. (s, 0)), io_write32 = (\<lambda>_ _ s. s),
     io_read8 = (\<lambda>a s. (s, 0)), io_write8 = (\<lambda>_ _ s. s)\<rparr>"

definition blk_env_ex :: "(u64 \<Rightarrow> u8 list) blk_env" where
  "blk_env_ex = \<lparr>dp_kalloc = (\<lambda>_ _. None), dp_kfree = (\<lambda>_ _. None), dp_vm_mmio_map = (\<lambda>_ _ _. None), dp_vm_mmio_unmap = (\<lambda>_ _ _. None),
     dp_request_irq = (\<lambda>_ _ _ _. None), dp_reject_irq = (\<lambda>_ _. None), be_pmm_alloc = (\<lambda>_. None), be_pmm_free = (\<lambda>_ _. None),
     be_completion_init = (\<lambda>_. Some), be_completion_reset = (\<lambda>_. Some), be_completion_wait = (\<lambda>_. Some), be_completion_signal = (\<lambda>_. Some),
     be_dmb = blk_serve 0x40000000\<rparr>"

definition blk_state_ex :: "(u64 \<Rightarrow> u8 list) vst" where
  "blk_state_ex =
     \<lparr>vs_queues = (\<lambda>_. \<lparr>vq_descs = replicate 16 \<lparr>qd_addr = 0, qd_len = 0, qd_flags = 0, qd_next = 0\<rparr>, vq_avail_index = 0xffff,
        vq_avail_ring = replicate 16 0, vq_used_index = 0xffff, vq_queue_index = 0, vq_last_used_index = 0xffff\<rparr>),
      vs_requests = (\<lambda>_. \<lparr>br_type = 0, br_sector = 0, br_data = [], br_status = 0xff\<rparr>), vs_bytes = (\<lambda>_. 7),
      vs_claimed = replicate 6 False, vs_devices_index = 0, vs_world = (\<lambda>_. replicate 512 0)\<rparr>"

theorem virtio_blk_roundtrip_witness:
  "\<exists>s1 s2. blk_write_sync blk_io_ex blk_env_ex 0x9000 blk_data_ex 3 0x1000 blk_state_ex = Some (s1, EOK) \<and>
     blk_read_sync blk_io_ex blk_env_ex 0x9000 blk_data_ex 3 0x2000 s1 = Some (s2, EOK) \<and>
     sector_at (vs_bytes s2) 0x2000 = sector_at (vs_bytes blk_state_ex) 0x1000"
proof -
  have "blk_device False blk_data_ex blk_io_ex blk_env_ex 0x9000" "VIRTIO_OFFSET_QUEUE_NOTIFY < reg_size (bd_base_addr blk_data_ex)"
    "queue_idle (vs_queues blk_state_ex (bd_virtq_phy blk_data_ex))" "\<forall>z. length (vs_world blk_state_ex z) = 512"
    by (simp_all add: blk_device_def blk_data_ex_def blk_io_ex_def blk_env_ex_def blk_state_ex_def queue_idle_def VIRTIO_OFFSET_QUEUE_NOTIFY_def)
  from virtio_blk_roundtrip [OF this, of 3 "0x1000" 3 "0x2000"] show ?thesis by auto
qed

section \<open>A device that is passed over\<close>

text \<open>
  \<^verbatim>\<open>virtio_init\<close> counts the devices of the bus while the probe of a device takes it out of the class it counts: with
  two devices on the bus, the second one is never probed once the first became a block device.
\<close>

lemma virtio_init_passes_over:
  assumes cx: "cx_ok s" "dml_get s = spinlock_init"
    and ds: "dev_chain (ds_devices s) (dm_device_list (ds_manager s)) [a, b]" "a \<noteq> b" "\<not> IS_ERR a"
    and cls: "dv_class (ds_devices s a) = DEVICE_VIRTIO_MMIO_DEVICE" "dv_class (ds_devices s b) = DEVICE_VIRTIO_MMIO_DEVICE"
    and drv: "dv_state (ds_devices s a) \<noteq> DEVICE_READY" "dr_device_class (drivers ! dv_driver (ds_devices s a)) = DEVICE_VIRTIO_MMIO_DEVICE"
    and probe: "\<And>s. dr_probe (drivers ! dv_driver (ds_devices s a)) a s = Some (upd_device a (\<lambda>d. d\<lparr>dv_class := DEVICE_BLOCK\<rparr>) s, EOK)"
  shows "\<exists>s'. virtio_init drivers s = Some s' \<and> ds_devices s' b = ds_devices s b \<and> dv_class (ds_devices s' a) = DEVICE_BLOCK"
proof -
  let ?s1 = "upd_device a (\<lambda>d. d\<lparr>dv_class := DEVICE_BLOCK, dv_state := DEVICE_READY\<rparr>) (cx_sec s)"
  have f: "ds_devices (cx_sec s) = ds_devices s" "ds_manager (cx_sec s) = ds_manager s" by (simp_all add: cx_sec_def)
  have 1: "dmanager_get_by_class_skip DEVICE_VIRTIO_MMIO_DEVICE 0 s = Some (cx_sec s, a)"
    using get_by_class_skip_ok [OF cx ds(1)] cls by (simp add: Let_def)
  have 2: "dmanager_ready_device drivers a (cx_sec s) = Some (?s1, EOK)"
    using drv probe [of "cx_sec s"] f by (simp add: dmanager_ready_device_def Let_def upd_device_def)
  have d1: "ds_devices ?s1 = (ds_devices s)(a := (ds_devices s a)\<lparr>dv_class := DEVICE_BLOCK, dv_state := DEVICE_READY\<rparr>)"
    "ds_manager ?s1 = ds_manager s" "cx_ok ?s1" "dml_get ?s1 = spinlock_init"
    using cx f by (auto simp: upd_device_def dml_get_def cx_ok_def cx_sec_def)
  have "dev_chain (ds_devices ?s1) (dm_device_list (ds_manager ?s1)) [a, b]" using ds d1 by simp
  from get_by_class_skip_ok [OF d1(3,4) this, of DEVICE_VIRTIO_MMIO_DEVICE 1]
  have "dmanager_get_by_class_skip DEVICE_VIRTIO_MMIO_DEVICE 1 ?s1 = Some (cx_sec ?s1, ERR_TO_PTR (- ENOENT))"
    using d1(1) cls ds(2) by (simp add: Let_def)
  moreover have "IS_ERR (ERR_TO_PTR (- ENOENT))" by (simp add: IS_ERR_def IS_ERR_VALUE_def ERR_TO_PTR_def)
  ultimately have "virtio_init_loop drivers 1 ?s1 = Some (cx_sec ?s1)" by (subst virtio_init_loop.simps) simp
  then have "virtio_init drivers s = Some (cx_sec ?s1)"
    using 1 2 ds(3) unfolding virtio_init_def by (subst virtio_init_loop.simps) simp
  then show ?thesis using d1(1) ds(2) by (intro exI [of _ "cx_sec ?s1"]) (simp add: cx_sec_def)
qed

end
