(* ===== verification/ExitWait.thy ===== *)
theory ExitWait
  imports Syscalls TaskProps
begin

text \<open>
  The end of a process (\<^verbatim>\<open>sys_exit\<close>, \<^verbatim>\<open>sys_wait4\<close>), from the dispatcher of system calls down to the scheduler: an
  exiting process wakes its parent and gives up the processor; a parent that waits blocks while no child has
  exited, and otherwise gets the exit code of the first child that has and destroys it.
\<close>

section \<open>Waking the waiters of a parent\<close>

text \<open>The waiters of a queue once they have left their processors.\<close>

definition parked :: "u64 list \<Rightarrow> ('h, 'w, 'a) kss \<Rightarrow> bool" where
  "parked xs s \<longleftrightarrow> all_blocked xs s \<and> (\<forall>p\<in>set xs. \<forall>d. cpu_current (ks_cpus s d) \<noteq> Some p)"

lemma wake_all_env:
  assumes "sched_kept s s'" "ks_tasks s' = map_tasks woken A (ks_tasks s)"
  shows "same_env s s'"
proof -
  have "map_option (\<lambda>t. (t_process t, t_context t, t_cpu t)) (ks_tasks s' x) =
      map_option (\<lambda>t. (t_process t, t_context t, t_cpu t)) (ks_tasks s x)" for x
    by (simp add: assms(2) map_tasks_def woken_def option.map_comp comp_def)
  moreover have "cpu_idle (ks_cpus s' d) = cpu_idle (ks_cpus s d)" "cpu_cleanup_task (ks_cpus s' d) = cpu_cleanup_task (ks_cpus s d)" for d
    using assms(1) cpu_keptD [of "ks_cpus s d" "ks_cpus s' d" cpu_idle] cpu_keptD [of "ks_cpus s d" "ks_cpus s' d" cpu_cleanup_task]
    by (simp_all add: sched_kept_def)
  ultimately show ?thesis using assms(1) by (simp add: same_env_def sched_kept_def)
qed

lemma wake_all_cur:
  assumes cur: "cur_ok rqs s" and p: "parked xs s" and "ks_tasks s' = map_tasks woken (set xs) (ks_tasks s)"
    "\<forall>d. cpu_current (ks_cpus s' d) = cpu_current (ks_cpus s d)"
  shows "cur_ok (to_runqueues s xs rqs) s'"
  unfolding cur_ok_def
proof (intro allI impI)
  fix c p assume "cpu_current (ks_cpus s' c) = Some p"
  then have c: "cpu_current (ks_cpus s c) = Some p" using assms(4) by simp
  then have "p \<notin> set xs" using p by (auto simp: parked_def)
  then show "(\<forall>d. p \<notin> set (to_runqueues s xs rqs d)) \<and> (\<exists>t. ks_tasks s' p = Some t \<and> t_cpu t = Some c)"
    using c cur assms(3) by (simp add: cur_ok_def to_runqueues_def map_tasks_def)
qed

section \<open>Leaving for good\<close>

text \<open>
  A process that changes its state: nothing of the scheduler depends on it but which tasks are exiting.
\<close>

lemma set_proc_fields [simp]:
  "ks_tasks (set_proc a v s) = ks_tasks s" "ks_cpus (set_proc a v s) = ks_cpus s" "cx_cpu (set_proc a v s) = cx_cpu s"
  "this_cpu (set_proc a v s) = this_cpu s" "cx_irq_disable_depth (set_proc a v s) = cx_irq_disable_depth s"
  "ks_procs (set_proc a v s) = (ks_procs s)(a \<mapsto> v)" "fs_heap (set_proc a v s) = fs_heap s"
  "ks_kernel_user_table (set_proc a v s) = ks_kernel_user_table s" "cx_ok (set_proc a v s) = cx_ok s"
  by (simp_all add: set_proc_def this_cpu_def cx_ok_def)

lemma set_proc_inv: "sched_inv rqs wqs s \<Longrightarrow> sched_inv rqs wqs (set_proc a v s)" "cur_ok rqs s \<Longrightarrow> cur_ok rqs (set_proc a v s)"
proof -
  show "sched_inv rqs wqs (set_proc a v s)" if i: "sched_inv rqs wqs s"
    by (rule sched_inv_cong [OF _ _ _ _ _ _ _ i]) (use sched_inv_free(1) [OF i] in \<open>simp_all add: set_proc_def\<close>)
  show "cur_ok rqs s \<Longrightarrow> cur_ok rqs (set_proc a v s)" by (rule cur_ok_cong) simp_all
qed

lemma set_proc_tables:
  assumes "ks_procs s a = Some v" "pr_address_space v' = pr_address_space v"
  shows "address_space_table mo x (set_proc a v' s) = address_space_table mo x s"
    "proc_known (set_proc a v' s) y = proc_known s y" "resumable mo (set_proc a v' s) y = resumable mo s y"
proof -
  show t: "address_space_table mo x (set_proc a v' s) = address_space_table mo x s" for x
    using assms by (auto simp: address_space_table_def split: option.splits bind_splits)
  show "proc_known (set_proc a v' s) y = proc_known s y"
    using assms by (auto simp: proc_known_def is_task_process_exiting_def bind_eq_None_conv split: option.splits bind_split)
  show "resumable mo (set_proc a v' s) y = resumable mo s y" by (simp add: resumable_def t)
qed

text \<open>\<^verbatim>\<open>task_exit\<close> marks the task dead and switches to the cleanup task.\<close>

lemma task_exit_ok:
  assumes inv: "sched_inv rqs wqs s" and cur: "cur_ok rqs s" and c: "c = cx_cpu s" and dep: "cx_irq_disable_depth s = 0"
    and p: "cpu_current (this_cpu s) = Some p" "ks_tasks s p = Some t" "t_waiting_on t = None" "p \<notin> special (this_cpu s)"
    and known: "\<forall>x\<in>set (rqs c). proc_known s x" and n: "cpu_cleanup_task (this_cpu s) = Some n" "resumable mo s n"
    and tab: "address_space_table mo (Some p) s \<noteq> None"
  shows "\<exists>s'. task_exit mo p s = Some s' \<and> sched_inv rqs wqs s' \<and> cur_ok rqs s' \<and> cx_cpu s' = c \<and>
    (\<forall>d. cpu_current (ks_cpus s' d) = (if d = c then Some n else cpu_current (ks_cpus s d))) \<and>
    (\<exists>t'. ks_tasks s' p = Some t' \<and> t_state t' = TASK_DEAD) \<and> ks_procs s' = ks_procs s \<and> fs_heap s' = fs_heap s"
proof -
  let ?s1 = "mark_cleanup c s"
  let ?t = "t\<lparr>t_state := TASK_DEAD\<rparr>"
  define s2 where "s2 = cx_sec (set_task p ?t ?s1)"
  have np: "n \<noteq> p" using p(4) n(1) by (auto simp: special_def)
  have th: "this_cpu s = ks_cpus s c" using c by (simp add: this_cpu_def)
  have pc: "cpu_current (ks_cpus s c) = Some p" using p(1) th by simp
  have tc: "t_cpu t = Some c" "\<forall>d. p \<notin> set (rqs d)" using cur pc p(2) unfolding cur_ok_def by (metis option.inject)+
  have inv1: "sched_inv rqs wqs ?s1" using inv by simp
  have inv2: "sched_inv rqs wqs s2" using inv_set_task [OF inv1, of p t ?t] p(2,3) tc by (simp add: s2_def)
  have "cur_ok rqs ?s1" using cur by (simp add: cur_ok_def)
  then have cur2: "cur_ok rqs s2" using cur_set_task [of rqs ?s1 p t ?t] p(2) by (simp add: s2_def)
  have env: "same_env s s2" using same_env_set_task [of ?s1 p t ?t s] p(2) by (simp add: s2_def)
  have st: "task_manager_set_state p TASK_DEAD ?s1 = Some (s2, ())"
    unfolding s2_def by (rule tm_section) (use sched_inv_free [OF inv1] p(2) in simp_all)
  have f2: "c = cx_cpu s2" "cx_irq_disable_depth s2 = 0" "this_cpu s2 = (ks_cpus s c)\<lparr>cpu_needs_cleanup := True\<rparr>"
    "ks_tasks s2 p = Some ?t" "\<And>d. cpu_current (ks_cpus s2 d) = cpu_current (ks_cpus s d)"
    using c dep by (simp_all add: s2_def this_cpu_def mark_cleanup_def set_cpu_def set_task_def)
  have c2: "cpu_current (this_cpu s2) = Some p" and m: "may_leave s2" and rq: "rqs c = rqs c @ requeued s2"
    using pc f2(1,3,4) p(3) tc by (simp_all add: may_leave_def requeued_def)
  have pk: "pick s2 (rqs c) = Some n" "left s2 (rqs c) = rqs c" using n th by (simp_all add: pick_def left_def f2(3))
  have k: "\<forall>x\<in>set (rqs c). proc_known s2 x" and r: "resumable mo s2 n \<and> address_space_table mo (Some p) s2 \<noteq> None"
    using kept_same_env [OF env, of mo] known n(2) tab by (simp_all add: kept_def)
  obtain s' where s': "scheduler_switch mo s2 = Some s'" "sched_inv rqs wqs s'" "cur_ok rqs s'" "cx_cpu s' = c"
    "\<forall>d. cpu_current (ks_cpus s' d) = (if d = c then Some n else cpu_current (ks_cpus s2 d))"
    "\<forall>x t. ks_tasks s2 x = Some t \<and> (t_waiting_on t \<noteq> None \<or> t_state t = TASK_DEAD \<and> x \<noteq> n) \<longrightarrow>
      (\<exists>t'. ks_tasks s' x = Some t' \<and> t_state t' = t_state t \<and> t_cpu t' = t_cpu t)"
    "ks_procs s' = ks_procs s2" "fs_heap s' = fs_heap s2"
    using scheduler_switch_ok [OF inv2 cur2 m f2(1,2) c2 rq k pk(1) r] unfolding pk(2) fun_upd_triv by blast
  have "\<exists>t'. ks_tasks s' p = Some t' \<and> t_state t' = TASK_DEAD" using s'(6) [rule_format, of p ?t] f2(4) np by auto
  moreover have "cpu_current (this_cpu s') \<noteq> Some p" using s'(4,5) np by (simp add: this_cpu_def)
  moreover have "task_exit mo p s = Some s'"
    using st s'(1) c calculation(2) by (simp add: task_exit_def sched_yield_def mark_cleanup_def this_cpu_def)
  ultimately show ?thesis using s' f2(5) same_env_procs [OF env] by (intro exI [of _ s']) simp
qed

section \<open>Exit\<close>

definition exited :: "int \<Rightarrow> Process \<Rightarrow> Process" where
  "exited code v = v\<lparr>pr_exit_code := code, pr_exiting := True, pr_state := PROCESS_ZOMBIE\<rparr>"

lemma dispatch_exit:
  "sc_arg fr 8 = 60 \<Longrightarrow> syscall_dispatch mo syscall_build_table fr s =
     Option.bind (sys_exit mo fr s) (\<lambda>(s, r). Some (s, map_option (\<lambda>r. (set_x0 (word_of_int (sr_ret r)) fr, sr_should_resched r)) r))"
  by (simp add: syscall_dispatch_def syscall_table_retrieve_def syscall_build_table_def MAX_SYSCALL_COUNT_def run_syscall_def)

text \<open>
  Claim C10. The exit system call ends the calling task and wakes the parent. With its number in the frame the dispatcher does
  not return to the caller: the process is a zombie with the given status as its exit code, no other process changes; every task of
  the parent that waits for a child is taken off the wait queue and put at the end of the run queue of its processor,
  ready to look again; the calling task is dead and the cleanup task runs in its place; and the scheduler's
  invariant holds. This needs that the waiters have all left their processors and that the cleanup
  task can be resumed.
\<close>

theorem sys_exit_wakes_parent:
  assumes inv: "sched_inv rqs wqs s" and cur: "cur_ok rqs s" and c: "c = cx_cpu s" and dep: "cx_irq_disable_depth s = 0"
    and p: "cpu_current (this_cpu s) = Some p" "ks_tasks s p = Some t" "t_waiting_on t = None" "p \<notin> special (this_cpu s)"
    and proc: "t_process t = Some proc" "ks_procs s proc = Some v"
    and par: "pr_parent v = Some par" "ks_procs s par = Some pv" "pr_child_waiters pv = WaitersOf par"
    and ws: "ws = wqs (WaitersOf par)" "parked ws s"
    and known: "\<forall>x\<in>set (to_runqueues s ws rqs c). proc_known s x"
    and n: "cpu_cleanup_task (this_cpu s) = Some n" "resumable mo s n" and tab: "address_space_table mo (Some p) s \<noteq> None"
    and call: "sc_arg fr 8 = 60"
  shows "\<exists>s'. syscall_dispatch mo syscall_build_table fr s = Some (s', None) \<and>
    sched_inv (to_runqueues s ws rqs) (wqs(WaitersOf par := [])) s' \<and> cur_ok (to_runqueues s ws rqs) s' \<and>
    ks_procs s' = (ks_procs s)(proc \<mapsto> exited (sint (sc_arg fr 0)) v) \<and>
    (\<exists>t'. ks_tasks s' p = Some t' \<and> t_state t' = TASK_DEAD) \<and>
    (\<forall>d. cpu_current (ks_cpus s' d) = (if d = c then Some n else cpu_current (ks_cpus s d)))"
proof -
  let ?v = "exited (sint (sc_arg fr 0)) v"
  let ?s0 = "set_proc proc ?v s"
  have as: "pr_address_space ?v = pr_address_space v" by (simp add: exited_def)
  note tabs = set_proc_tables [OF proc(2) as]
  have cw: "\<exists>pv'. ks_procs ?s0 par = Some pv' \<and> pr_child_waiters pv' = WaitersOf par"
    using par(2,3) proc(2) by (auto simp: exited_def)
  have rq: "to_runqueues ?s0 ws rqs = to_runqueues s ws rqs" by (simp add: to_runqueues_def cpu_of_def)
  have pk: "parked ws ?s0" using ws(2) by (simp add: parked_def all_blocked_def)
  obtain s1 where s1: "scheduler_wake_all (WaitersOf par) ?s0 = Some (s1, ())" "cx_same ?s0 s1"
    "sched_inv (to_runqueues s ws rqs) (wqs(WaitersOf par := [])) s1" "ks_tasks s1 = map_tasks woken (set ws) (ks_tasks ?s0)"
    "\<forall>d. cpu_current (ks_cpus s1 d) = cpu_current (ks_cpus ?s0 d)" "sched_kept ?s0 s1"
    using scheduler_wake_all_ok [OF set_proc_inv(1) [OF inv], of "WaitersOf par" proc ?v] pk ws(1) rq by (auto simp: parked_def)
  have cur1: "cur_ok (to_runqueues s ws rqs) s1"
    using wake_all_cur [OF set_proc_inv(2) [OF cur] pk s1(4,5)] rq by simp
  have env: "same_env ?s0 s1" by (rule wake_all_env [OF s1(6,4)])
  have x1: "c = cx_cpu s1" "cx_irq_disable_depth s1 = 0" using s1(2) c dep by (simp_all add: cx_same_def)
  have "this_cpu s1 = ks_cpus s1 c" "this_cpu s = ks_cpus s c" using x1 c by (simp_all add: this_cpu_def)
  then have t1: "cpu_current (this_cpu s1) = Some p" "p \<notin> special (this_cpu s1)" "cpu_cleanup_task (this_cpu s1) = Some n"
    using s1(5) p(1,4) n(1) same_special [OF env, of c] env by (simp_all add: same_env_def)
  have "p \<notin> set ws" using ws(2) p(1) by (auto simp: parked_def this_cpu_def)
  then have p1: "ks_tasks s1 p = Some t" using p(2) s1(4) by (simp add: map_tasks_def)
  have k: "\<forall>x\<in>set (to_runqueues s ws rqs c). proc_known s1 x" and r: "resumable mo s1 n"
    and ta: "address_space_table mo (Some p) s1 \<noteq> None"
    using kept_same_env [OF env, of mo] known n(2) tab by (simp_all add: kept_def tabs)
  obtain s' where s': "task_exit mo p s1 = Some s'" "sched_inv (to_runqueues s ws rqs) (wqs(WaitersOf par := [])) s'"
    "cur_ok (to_runqueues s ws rqs) s'" "\<forall>d. cpu_current (ks_cpus s' d) = (if d = c then Some n else cpu_current (ks_cpus s1 d))"
    "\<exists>t'. ks_tasks s' p = Some t' \<and> t_state t' = TASK_DEAD" "ks_procs s' = ks_procs s1"
    using task_exit_ok [OF s1(3) cur1 x1 t1(1) p1 p(3) t1(2) k t1(3) r ta] by blast
  have "sys_exit mo fr s = Some (s', None)"
    using p(1,2) proc par(1) cw s1(1) s'(1)
    by (auto simp: sys_exit_def process_get_current_def process_exit_def task_get_current_def exited_def Let_def)
  then show ?thesis using s' s1(5) same_env_procs [OF env] by (simp add: dispatch_exit [OF call])
qed

section \<open>A concrete family\<close>

text \<open>
  Process 0x8000 with its child 0x9000 in the state \<open>st\<close>. The running task 0x1000 belongs to \<open>proc\<close>, task 0x5000 waits on the
  queue \<open>w\<close>; otherwise the state is \<^term>\<open>ks_example\<close>.
\<close>

definition parent_ex :: Process where
  "parent_ex = process_ex\<lparr>pr_pid := 1, pr_address_space := Some 0xa000, pr_children := single 0x9000, pr_child_waiters := WaitersOf 0x8000\<rparr>"

definition child_ex :: "ProcessState \<Rightarrow> Process" where
  "child_ex st = process_ex\<lparr>pr_pid := 2, pr_address_space := (if st = PROCESS_ZOMBIE then None else Some 0xb000), pr_state := st,
     pr_parent := Some 0x8000, pr_child_waiters := WaitersOf 0x9000, pr_files := Some 0x6000, pr_exit_code := 7\<rparr>"

definition family_tasks :: "u64 \<Rightarrow> wq_ref \<Rightarrow> u64 \<Rightarrow> Task option" where
  "family_tasks proc w = tasks_ex(0x1000 \<mapsto> (task_ex TASK_RUNNING)\<lparr>t_process := Some proc\<rparr>,
     0x5000 \<mapsto> (task_ex TASK_BLOCKED)\<lparr>t_waiting_on := Some w\<rparr>)"

definition family :: "u64 \<Rightarrow> wq_ref \<Rightarrow> ProcessState \<Rightarrow> (unit, nat) kstate" where
  "family proc w st = ks_example\<lparr>ks_tasks := family_tasks proc w,
     ks_wqs := (\<lambda>q. \<lparr>wq_lock = spinlock_init, wq_waiters = (if q = w then single 0x5000 else intrusivelist_init)\<rparr>),
     ks_procs := [0x8000 \<mapsto> parent_ex, 0x9000 \<mapsto> child_ex st], ks_fdtables := [0x6000 \<mapsto> fd_example],
     ks_proc_manager := \<lparr>pm_lock = spinlock_init, pm_process_list = single 0x9000, pm_pid_count = 3\<rparr>\<rparr>"

definition family_mm :: "unit mm_ops" where
  "family_mm = mm_example\<lparr>mo_table := (\<lambda>_ as. Some (as + 0x1000)), mo_copy_to_user_u64 := (\<lambda>h as p _. Some (h, if p = 0 then - EFAULT else EOK))\<rparr>"

definition call_frame :: "u64 \<Rightarrow> u64 \<Rightarrow> ExceptionFrame" where
  "call_frame n a = \<lparr>ef_sp = 0, ef_reserved1 = 0, ef_x = [a, 0, 0, 0, 0, 0, 0, 0, n, 0, 0, 0, 0, 0, 0, 0, 0, 0], ef_x19_x30 = replicate 12 0, ef_ELR_EL1 = 0, ef_SPSR_EL1 = 0,
     ef_ESR_EL1 = 0x54000000, ef_FAR_EL1 = 0, ef_SP_EL0 = 0, ef_reserved2 = 0\<rparr>"

lemma call_frame_args [simp]: "sc_arg (call_frame n a) 8 = n" "sc_arg (call_frame n a) 0 = a"
  by (simp_all add: sc_arg_def call_frame_def)

lemma family_fields [simp]:
  "ks_tasks (family proc w st) = family_tasks proc w" "ks_cpus (family proc w st) = cpu_ex" "cx_cpu (family proc w st) = 0"
  "cx_irq_disable_depth (family proc w st) = 0" "this_cpu (family proc w st) = cpu_ex 0"
  "ks_procs (family proc w st) = [0x8000 \<mapsto> parent_ex, 0x9000 \<mapsto> child_ex st]" "ks_fdtables (family proc w st) = [0x6000 \<mapsto> fd_example]"
  "ks_proc_manager (family proc w st) = \<lparr>pm_lock = spinlock_init, pm_process_list = single 0x9000, pm_pid_count = 3\<rparr>"
  "ks_kernel_user_table (family proc w st) = 0x8000"
  by (simp_all add: family_def this_cpu_def)

lemma family_nodes [simp]: "ks_parent_node (family proc w st) = nodes_ex" "ks_manager_node (family proc w st) = nodes_ex"
  "fs_files (family proc w st) = [0x1000 \<mapsto> file_example]" "fs_heap (family proc w st) = ()"
  by (simp_all add: family_def ks_example_def fs_state.defs fs_example_def cpu_ctx.defs)

lemma family_tasks_simps [simp]: "family_tasks proc w 0x1000 = Some ((task_ex TASK_RUNNING)\<lparr>t_process := Some proc\<rparr>)"
  "family_tasks proc w 0x2000 = Some (task_ex TASK_READY)" "family_tasks proc w 0x4000 = Some (task_ex TASK_READY)"
  "family_tasks proc w 0x5000 = Some ((task_ex TASK_BLOCKED)\<lparr>t_waiting_on := Some w\<rparr>)"
  by (simp_all add: family_tasks_def)

lemma family_inv:
  "sched_inv rqs_ex ((\<lambda>_. [])(w := [0x5000])) (family proc w st)" "cur_ok rqs_ex (family proc w st)" if w: "\<forall>c. w = SleepingTasks c \<longrightarrow> c = 0"
proof -
  let ?s = "family proc w st" let ?w = "(\<lambda>_. [])(w := [0x5000 :: u64])"
  have n: "ks_runnable_node ?s = nodes_ex" "ks_wait_node ?s = nodes_ex"
    "ks_wqs ?s = (\<lambda>q. \<lparr>wq_lock = spinlock_init, wq_waiters = (if q = w then single 0x5000 else intrusivelist_init)\<rparr>)"
    "ks_task_manager ?s = ks_task_manager ks_example" "cx_ok ?s = cx_ok ks_example"
    by (simp_all add: family_def cx_ok_def)
  have "ils_rep nodes_ex (\<lambda>c. rq_runnables (cpu_runnable_tasks (cpu_ex c))) rqs_ex" using ks_example_inv by (simp add: sched_inv_def queues_rep_def)
  moreover have "ils_rep nodes_ex (\<lambda>q. if q = w then single 0x5000 else intrusivelist_init) ?w"
    by (auto simp: ils_rep_def single_rep il_rep_init)
  moreover have "dom (family_tasks proc w) = {0x1000, 0x2000, 0x3000, 0x4000, 0x5000}" by (auto simp: family_tasks_def tasks_ex_def split: if_splits)
  then have "finite (dom (family_tasks proc w))" "card (dom (family_tasks proc w)) < 2 ^ 64" by simp_all
  moreover have "task_at rqs_ex ?w p (family_tasks proc w p)" for p
    using w by (auto simp: task_at_def rqs_ex_def family_tasks_def tasks_ex_def split: if_splits)
  moreover have "cpus_ok rqs_ex ?s" by (auto simp: cpus_ok_def cpu_ex_def special_def rqs_ex_def family_tasks_def split: if_splits)
  moreover have "locks_free ?s"
    using n by (simp add: locks_free_def ks_example_cx rq_free_def wq_free_def rq_get_def wq_get_def tm_get_def cpu_ex_def)
  moreover have "sorted (map (sleep_key ?s) (?w (SleepingTasks c)))" for c by simp
  ultimately show "sched_inv rqs_ex ?w ?s" by (simp add: sched_inv_def queues_rep_def tasks_ok_def n)
  show "cur_ok rqs_ex ?s" by (auto simp: cur_ok_def cpu_ex_def rqs_ex_def split: if_splits)
qed

lemma family_switch:
  "proc \<in> {0x8000, 0x9000} \<Longrightarrow> x \<in> {0x1000, 0x2000, 0x4000, 0x5000} \<Longrightarrow> proc_known (family proc w st) x"
  "x \<in> {0x2000, 0x4000} \<Longrightarrow> resumable family_mm (family proc w st) x"
  "proc = 0x8000 \<or> proc = 0x9000 \<and> st = PROCESS_RUNNING \<Longrightarrow> address_space_table family_mm (Some 0x1000) (family proc w st) \<noteq> None"
  by (auto simp: proc_known_def is_task_process_exiting_def resumable_def address_space_table_def family_mm_def mm_example_def
      parent_ex_def child_ex_def process_ex_def)

theorem sys_exit_wakes_parent_witness:
  "\<exists>s'. syscall_dispatch family_mm syscall_build_table (call_frame 60 3) (family 0x9000 (WaitersOf 0x8000) PROCESS_RUNNING) = Some (s', None) \<and>
     ks_procs s' 0x9000 = Some (exited 3 (child_ex PROCESS_RUNNING)) \<and> cpu_current (ks_cpus s' 0) = Some 0x4000"
proof -
  let ?w = "WaitersOf 0x8000" let ?s = "family 0x9000 ?w PROCESS_RUNNING"
  have i: "sched_inv rqs_ex ((\<lambda>_. [])(?w := [0x5000])) ?s" "cur_ok rqs_ex ?s" by (rule family_inv; simp)+
  have sp: "0x1000 \<notin> special (cpu_ex 0)" by (simp add: special_def cpu_ex_def)
  have pk: "parked [0x5000] ?s" by (simp add: parked_def all_blocked_def cpu_ex_def)
  have kn: "\<forall>x\<in>set (to_runqueues ?s [0x5000] rqs_ex 0). proc_known ?s x"
    using family_switch(1) [of "0x9000"] by (simp add: to_runqueues_def rqs_ex_def)
  show ?thesis
    using sys_exit_wakes_parent [OF i, of 0 "0x1000" "(task_ex TASK_RUNNING)\<lparr>t_process := Some 0x9000\<rparr>" "0x9000" "child_ex PROCESS_RUNNING" "0x8000"
        parent_ex "[0x5000]" "0x4000" family_mm "call_frame 60 3"] sp pk kn family_switch(2) [of "0x4000"] family_switch(3) [of "0x9000"]
    by (simp add: cpu_ex_def child_ex_def parent_ex_def process_ex_def) auto
qed

end
