(* ===== verification/WaitProps.thy ===== *)
theory WaitProps
  imports ExitWait
begin

text \<open>
  What \<^verbatim>\<open>sys_wait4\<close> does, on every branch: without children it fails, with none that has exited it blocks the calling
  task on the queue of its process, otherwise it takes the first child that has exited out of the tree of processes, hands its
  exit code to the caller and destroys it.
\<close>

section \<open>Blocking\<close>

lemma wait_block_ok:
  assumes inv: "sched_inv rqs wqs s" and cur: "cur_ok rqs s" and c: "c = cx_cpu s" and dep: "cx_irq_disable_depth s = 0"
    and p: "cpu_current (this_cpu s) = Some p" "ks_tasks s p = Some t" "t_state t = TASK_RUNNING" "t_waiting_on t = None"
      "p \<notin> special (this_cpu s)"
    and known: "\<forall>x\<in>set (rqs c). proc_known s x" and pk: "pick s (rqs c) = Some n"
    and res: "n \<noteq> p \<Longrightarrow> resumable mo s n \<and> address_space_table mo (Some p) s \<noteq> None"
  shows "\<exists>s'. Option.bind (waitqueue_enqueue (WaitersOf a) p s) (\<lambda>(s, _). scheduler_block_current mo s) = Some s' \<and>
    sched_inv (rqs(c := left s (rqs c))) (wqs(WaitersOf a := wqs (WaitersOf a) @ [p])) s' \<and> cur_ok (rqs(c := left s (rqs c))) s' \<and>
    (\<forall>d. cpu_current (ks_cpus s' d) = (if d = c then Some n else cpu_current (ks_cpus s d))) \<and>
    (\<exists>t'. ks_tasks s' p = Some t' \<and> t_state t' = TASK_BLOCKED) \<and> ks_procs s' = ks_procs s"
proof -
  let ?q = "WaitersOf a"
  let ?t1 = "t\<lparr>t_waiting_on := Some ?q\<rparr>" let ?t2 = "?t1\<lparr>t_state := TASK_BLOCKED\<rparr>"
  define s1 where "s1 = cx_sec (set_task p ?t1 (wq_insert ?q p s))"
  define s2 where "s2 = set_task p ?t2 s1"
  have th: "this_cpu s = ks_cpus s c" using c by (simp add: this_cpu_def)
  have pc: "cpu_current (ks_cpus s c) = Some p" using p(1) th by simp
  have tc: "t_cpu t = Some c" "\<forall>d. p \<notin> set (rqs d)" using cur pc p(2) unfolding cur_ok_def by (metis option.inject)+
  have sp: "\<forall>d. p \<notin> special (ks_cpus s d)" using special_own [OF inv _ p(2)] tc p(5) th by (metis option.inject)
  have inv1: "sched_inv rqs (wqs(?q := wqs ?q @ [p])) s1"
    using inv_wait [OF inv p(2,4) _ sp, of a] p(3) by (simp add: s1_def)
  have f1: "ks_tasks s1 = (ks_tasks s)(p \<mapsto> ?t1)" "ks_cpus s1 = ks_cpus s" "cx_cpu s1 = c" "cx_irq_disable_depth s1 = 0"
    using c dep by (simp_all add: s1_def wq_insert_def split_beta set_waiters_def set_wq_def set_task_def)
  have e1: "same_env s s1" using p(2)
    by (simp add: s1_def wq_insert_def split_beta) (rule same_env_set_task [of _ _ t]; simp add: same_env_def set_waiters_def set_wq_def)
  have inv2: "sched_inv rqs (wqs(?q := wqs ?q @ [p])) s2"
    unfolding s2_def by (rule inv_set_task [OF inv1, of p ?t1]) (use f1 tc in auto)
  have env: "same_env s s2" unfolding s2_def by (rule same_env_set_task [of _ _ ?t1]) (use f1 e1 in auto)
  have "cur_ok rqs (set_task p ?t1 s)" by (rule cur_set_task [OF cur p(2)]) simp
  then have "cur_ok rqs s1" by (rule cur_ok_cong [rotated 2]) (use f1 in \<open>simp_all add: set_task_def\<close>)
  then have cur2: "cur_ok rqs s2" unfolding s2_def by (rule cur_set_task [where t = ?t1]) (use f1 in auto)
  have f2: "c = cx_cpu s2" "cx_irq_disable_depth s2 = 0" "ks_cpus s2 = ks_cpus s" "ks_tasks s2 p = Some ?t2"
    using f1 by (simp_all add: s2_def set_task_def)
  have th2: "this_cpu s2 = ks_cpus s c" "this_cpu s1 = ks_cpus s c" using f2 f1 by (simp_all add: this_cpu_def)
  have c2: "cpu_current (this_cpu s2) = Some p" and m: "may_leave s2" and rq: "rqs c = rqs c @ requeued s2"
    using pc f2 tc th2 by (simp_all add: may_leave_def requeued_def)
  have pe: "pick s2 = pick s" "left s2 = left s" using pick_env [OF env] f2 c by simp_all
  have k: "\<forall>x\<in>set (rqs c). proc_known s2 x"
    and r: "n \<noteq> p \<Longrightarrow> resumable mo s2 n \<and> address_space_table mo (Some p) s2 \<noteq> None"
    using kept_same_env [OF env, of mo] known res by (simp_all add: kept_def)
  obtain s' where s': "scheduler_switch mo s2 = Some s'" "sched_inv (rqs(c := left s (rqs c))) (wqs(?q := wqs ?q @ [p])) s'"
    "cur_ok (rqs(c := left s (rqs c))) s'" "\<forall>d. cpu_current (ks_cpus s' d) = (if d = c then Some n else cpu_current (ks_cpus s2 d))"
    "\<forall>x t. ks_tasks s2 x = Some t \<and> (t_waiting_on t \<noteq> None \<or> t_state t = TASK_DEAD \<and> x \<noteq> n) \<longrightarrow>
      (\<exists>t'. ks_tasks s' x = Some t' \<and> t_state t' = t_state t \<and> t_cpu t' = t_cpu t)" "ks_procs s' = ks_procs s2"
    using scheduler_switch_ok [OF inv2 cur2 m f2(1,2) c2 rq k _ r] pk unfolding pe by blast
  have "\<exists>t'. ks_tasks s' p = Some t' \<and> t_state t' = TASK_BLOCKED" using s'(5) [rule_format, of p ?t2] f2(4) by auto
  moreover have "waitqueue_enqueue ?q p s = Some (s1, ())"
    unfolding s1_def by (rule waitqueue_enqueue_eq) (use sched_inv_free [OF inv] p(2,3) in simp_all)
  moreover have "Some p \<noteq> cpu_idle (ks_cpus s c)" using p(5) th by (auto simp: special_def)
  then have "scheduler_block_current mo s1 = Some s'"
    using s'(1) pc f1 tc p(3) th2(2) by (simp add: scheduler_block_current_def s2_def)
  ultimately show ?thesis using s' f2(3) same_env_procs [OF env] by (intro exI [of _ s']) simp
qed

section \<open>The children of a process\<close>

definition zombie :: "('h, 'w, 'a) kss \<Rightarrow> u64 \<Rightarrow> bool" where
  "zombie s x \<longleftrightarrow> (\<exists>v. ks_procs s x = Some v \<and> pr_state v = PROCESS_ZOMBIE)"

lemma find_zombie_links:
  assumes "links (ks_parent_node s) pr xs None" "\<forall>x\<in>set xs. ks_procs s x \<noteq> None"
  shows "find_zombie (hd_ptr xs) s = Some (find (zombie s) xs)"
  using assms
proof (induction xs arbitrary: pr)
  case Nil
  then show ?case by (subst find_zombie.simps) (simp add: hd_ptr_def)
next
  case (Cons x xs)
  then obtain v where v: "ks_procs s x = Some v" by auto
  have n: "inext (ks_parent_node s x) = hd_ptr xs" using Cons.prems(1) by (cases xs) (auto simp: hd_ptr_def)
  have "find_zombie (hd_ptr xs) s = Some (find (zombie s) xs)" using Cons by (cases xs) auto
  then show ?case using v n by (subst find_zombie.simps) (simp add: hd_ptr_def zombie_def)
qed

lemma find_zombie_eq:
  "il_rep (ks_parent_node s) il xs \<Longrightarrow> \<forall>x\<in>set xs. ks_procs s x \<noteq> None \<Longrightarrow> find_zombie (il_head il) s = Some (find (zombie s) xs)"
  using find_zombie_links [of s None xs] by (simp add: il_rep_def)

text \<open>Taking a child out, under the locks of both processes.\<close>

definition drop_child :: "u64 \<Rightarrow> Process \<Rightarrow> u64 \<Rightarrow> ('h, 'w, 'a) kss \<Rightarrow> ('h, 'w, 'a) kss" where
  "drop_child par pv z s = (let (il, h) = intrusivelist_remove (pr_children pv) (ks_parent_node s) z in
     (set_proc par (pv\<lparr>pr_children := il\<rparr>) s)\<lparr>ks_parent_node := h\<rparr>)"

lemma drop_child_fields [simp]: "ks_tasks (drop_child par pv z s) = ks_tasks s" "ks_cpus (drop_child par pv z s) = ks_cpus s"
  "cx_cpu (drop_child par pv z s) = cx_cpu s" "this_cpu (drop_child par pv z s) = this_cpu s" "fs_heap (drop_child par pv z s) = fs_heap s"
  "cx_ok (drop_child par pv z s) = cx_ok s" "ks_manager_node (drop_child par pv z s) = ks_manager_node s"
  "ks_proc_manager (drop_child par pv z s) = ks_proc_manager s" "ks_fdtables (drop_child par pv z s) = ks_fdtables s"
  "cx_same s0 (drop_child par pv z s) = cx_same s0 s" "fs_files (drop_child par pv z s) = fs_files s"
  "ks_procs (drop_child par pv z s) = (ks_procs s)(par \<mapsto> pv\<lparr>pr_children := fst (intrusivelist_remove (pr_children pv) (ks_parent_node s) z)\<rparr>)"
  "ks_parent_node (drop_child par pv z s) = snd (intrusivelist_remove (pr_children pv) (ks_parent_node s) z)"
  by (simp_all add: drop_child_def split_beta set_proc_def this_cpu_def cx_ok_def cx_same_def)

lemma pr_put_restore: "ks_procs y p = Some v \<Longrightarrow> pr_lock v = l \<Longrightarrow> pr_put p l (pr_put p k y) = y"
  by (cases v) (auto simp: pr_put_def intro!: kstate.equality)

lemma pr_put_twist: "p \<noteq> q \<Longrightarrow> pr_put p l (pr_put q k y) = pr_put q k (pr_put p l y)"
  by (simp add: pr_put_def fun_upd_twist)

lemma pr_put_cx [simp]: "cx_ok (pr_put p l s) = cx_ok s" "held_by (pr_put p l s) = held_by s" "cx_cpu (pr_put p l s) = cx_cpu s"
  by (simp_all add: pr_put_def cx_ok_def held_by_def)

lemma pr_get_simps: "ks_procs s p = Some v \<Longrightarrow> pr_get p s = pr_lock v" "p \<noteq> q \<Longrightarrow> pr_get q (pr_put p l s) = pr_get q s"
  "ks_procs s p = Some v \<Longrightarrow> pr_get p (pr_put p l s) = l" "pr_get p (irq_push_intr s) = pr_get p s"
  "p \<noteq> q \<Longrightarrow> ks_procs (pr_put p l s) q = ks_procs s q"
  by (simp_all add: pr_get_def pr_put_def)

text \<open>A section on the locks of two processes.\<close>

lemma two_processes:
  assumes s: "cx_ok s" "par \<noteq> z" "ks_procs s par = Some pv" "ks_procs s z = Some v" "pr_lock pv = spinlock_init" "pr_lock v = spinlock_init"
    and body: "body (irq_push_intr (irq_push_intr (pr_put z (held_by s) (pr_put par (held_by s) s)))) =
      Some (irq_push_intr (irq_push_intr (pr_put z (held_by s) (pr_put par (held_by s) y))), r)"
    and y: "cx_ok y" "cx_cpu y = cx_cpu s" "ks_procs y par = Some pv'" "ks_procs y z = Some v'" "pr_lock pv' = spinlock_init" "pr_lock v' = spinlock_init"
  shows "with_lock (pr_get par) (pr_put par) (with_lock (pr_get z) (pr_put z) body) s = Some (cx_sec y, r)"
proof -
  let ?H = "held_by s"
  let ?A = "irq_push_intr (pr_put par ?H s)"
  have hA: "held_by ?A = ?H" by (simp add: held_by_def)
  have "with_lock (pr_get z) (pr_put z) body ?A = Some (cx_sec (pr_put z spinlock_init (irq_push_intr (pr_put z ?H (pr_put par ?H y)))), r)"
  proof (rule prl.section_eq)
    show "body (irq_push_intr (pr_put z (held_by ?A) ?A)) = Some (irq_push_intr (irq_push_intr (pr_put z ?H (pr_put par ?H y))), r)"
      using body unfolding hA by (simp add: prl.put_push)
  qed (use s y hA in \<open>simp_all add: pr_get_simps spinlock_init_def\<close>)
  moreover have "pr_put z spinlock_init (pr_put z ?H (pr_put par ?H y)) = pr_put par ?H y"
    by (rule pr_put_restore [of _ _ v']) (use s(2) y in \<open>simp_all add: pr_put_def\<close>)
  ultimately have inner: "with_lock (pr_get z) (pr_put z) body ?A = Some (irq_push_intr (pr_put par ?H y), r)"
    using y(1) by (simp add: prl.put_push)
  have "with_lock (pr_get par) (pr_put par) (with_lock (pr_get z) (pr_put z) body) s = Some (cx_sec (pr_put par spinlock_init (pr_put par ?H y)), r)"
  proof (rule prl.section_eq)
    show "with_lock (pr_get z) (pr_put z) body ?A = Some (irq_push_intr (pr_put par ?H y), r)" by (rule inner)
  qed (use s y hA in \<open>simp_all add: pr_get_simps spinlock_init_def\<close>)
  then show ?thesis using pr_put_restore [OF y(3,5)] by simp
qed

lemma process_remove_child_eq:
  assumes "cx_ok s" "ks_procs s par = Some pv" "ks_procs s z = Some v" "par \<noteq> z"
    "pr_lock pv = spinlock_init" "pr_lock v = spinlock_init"
  shows "process_remove_child par z s = Some (cx_sec (drop_child par pv z s), ())"
  unfolding process_remove_child_def
proof (rule two_processes [OF assms(1,4,2,3,5,6), where v' = v
      and pv' = "pv\<lparr>pr_children := fst (intrusivelist_remove (pr_children pv) (ks_parent_node s) z)\<rparr>"])
  obtain il h where r: "intrusivelist_remove (pr_children pv) (ks_parent_node s) z = (il, h)" by fastforce
  let ?P = "\<lambda>s. pr_put z (held_by s) (pr_put par (held_by s) s)"
  have "(set_proc par (pv\<lparr>pr_lock := held_by s, pr_children := il\<rparr>) (?P s))\<lparr>ks_parent_node := h\<rparr> =
      pr_put z (held_by s) (pr_put par (held_by s) (drop_child par pv z s))"
    using assms(2-4) r by (auto simp: drop_child_def pr_put_def set_proc_def intro!: kstate.equality)
  then show "(do {
       v \<leftarrow> ks_procs (irq_push_intr (irq_push_intr (?P s))) par;
       let (il, h) = intrusivelist_remove (pr_children v) (ks_parent_node (irq_push_intr (irq_push_intr (?P s)))) z;
       Some ((set_proc par (v\<lparr>pr_children := il\<rparr>) (irq_push_intr (irq_push_intr (?P s))))\<lparr>ks_parent_node := h\<rparr>, ())
     }) = Some (irq_push_intr (irq_push_intr (pr_put z (held_by s) (pr_put par (held_by s) (drop_child par pv z s)))), ())"
    using assms(2,4) r by (simp add: set_proc_def) (simp add: pr_put_def)
qed (use assms in simp_all)

section \<open>Destroying a process\<close>

text \<open>What the operations on files leave alone: everything of the kernel state beyond the files and the heap.\<close>

lemma kss_more:
  fixes s s' :: "('h, 'w, 'a) kss"
  assumes "fs_state.more s' = fs_state.more s"
  shows "ks_tasks s' = ks_tasks s" "ks_runnable_node s' = ks_runnable_node s" "ks_wait_node s' = ks_wait_node s" "ks_cpus s' = ks_cpus s"
    "ks_wqs s' = ks_wqs s" "ks_task_manager s' = ks_task_manager s" "ks_procs s' = ks_procs s" "ks_parent_node s' = ks_parent_node s"
    "ks_manager_node s' = ks_manager_node s" "ks_proc_manager s' = ks_proc_manager s" "ks_fdtables s' = ks_fdtables s"
    "ks_global_node s' = ks_global_node s" "ks_process_node s' = ks_process_node s" "ks_stack_mem s' = ks_stack_mem s"
  using assms by (cases s, cases s', simp)+

lemma kss_more_upd:
  fixes s s' :: "('h, 'w, 'a) kss"
  assumes "fs_state.more s' = fs_state.more s"
  shows "fs_state.more (s'\<lparr>ks_fdtables := a\<rparr>) = fs_state.more (s\<lparr>ks_fdtables := a\<rparr>)"
    "fs_state.more (s'\<lparr>ks_procs := b\<rparr>) = fs_state.more (s\<lparr>ks_procs := b\<rparr>)"
    "fs_state.more (s'\<lparr>ks_proc_manager := c\<rparr>) = fs_state.more (s\<lparr>ks_proc_manager := c\<rparr>)"
  using assms by (cases s, cases s', simp)+

lemma fs_more_skip:
  fixes s :: "('h, 'w, 'a) kss"
  shows "fs_state.more (irq_push_intr s) = fs_state.more s" "fs_state.more (s\<lparr>fs_heap := h, ks_procs := b\<rparr>) = fs_state.more (s\<lparr>ks_procs := b\<rparr>)"
  by (cases s, simp add: irq_push_as_put cx_put_def)+

lemma destroy_files_ok:
  assumes inv: "fd_inv ext ft s" and t: "ks_fdtables s table = Some ft" and k: "kfree_total (mo_heap mo)"
  shows "\<exists>s'. destroy_files mo (Some table) s = Some s' \<and> cx_same s s' \<and> file_refs s' = ext \<and>
    fs_state.more s' = fs_state.more (s\<lparr>ks_fdtables := (ks_fdtables s)(table := None)\<rparr>)"
proof -
  let ?e = "(fdt_emptied ft)\<lparr>fdt_lock := spinlock_init\<rparr>"
  obtain s1 where s1: "fdtable_close_all (mo_heap mo) ft s = Some (?e, s1, EOK)" "cx_same s s1" "fd_inv ext ?e s1"
    "fs_state.more s1 = fs_state.more s" using fdtable_close_all_ok [OF inv k] by blast
  have "\<forall>c < MAX_FILES_PER_FD. fdt_state ?e ! c = FILE_DESCRIPTOR_FREE" by (simp add: fdt_emptied_def)
  then obtain s2 where s2: "fdtable_destroy (mo_heap mo) table ?e s1 = Some (s2, EOK)" "cx_same s1 s2"
    "fs_state.more s2 = fs_state.more s1" "file_refs s2 = file_refs s1"
    using fdtable_destroy_ok [OF s1(3) k, of table] by auto
  let ?s = "s2\<lparr>ks_fdtables := (ks_fdtables s2)(table := None)\<rparr>"
  have m: "fs_state.more s2 = fs_state.more s" using s1(4) s2(3) by simp
  have "file_refs ?s = ext" using fd_inv_simps(5) [OF s1(3)] s2(4) by (simp add: file_refs_def fun_eq_iff)
  moreover have "fs_state.more ?s = fs_state.more (s\<lparr>ks_fdtables := (ks_fdtables s)(table := None)\<rparr>)"
    using kss_more_upd(1) [OF m] kss_more [OF m] by simp
  moreover have "cx_same s ?s" using cx_same_trans [OF s1(2) s2(2)] by (simp add: cx_same_def)
  ultimately show ?thesis using t s1(1) s2(1) by (simp add: destroy_files_def)
qed

text \<open>
  A zombie without threads, whose address space the cleanup task has already destroyed, is taken from the list of processes and freed
  with its files.
\<close>

lemma proc_manager_remove_destroy_ok:
  assumes ok: "cx_ok s" "pm_get s = spinlock_init" and v: "ks_procs s z = Some v" "pr_state v = PROCESS_ZOMBIE"
      "intrusivelist_count (pr_threads v) = 0" "pr_address_space v = None" "pr_files v = Some table"
    and ft: "ks_fdtables s table = Some ft" "fd_inv ext ft s" and k: "kfree_total (mo_heap mo)"
    and il: "intrusivelist_remove (pm_process_list (ks_proc_manager s)) (ks_manager_node s) z = (il, h)"
  shows "\<exists>s'. proc_manager_remove_destroy mo z s = Some (s', ()) \<and> cx_same s s' \<and> file_refs s' = ext \<and>
    fs_state.more s' = fs_state.more (s\<lparr>ks_manager_node := h, ks_fdtables := (ks_fdtables s)(table := None),
      ks_procs := (ks_procs s)(z := None), ks_proc_manager := (ks_proc_manager s)\<lparr>pm_process_list := il\<rparr>\<rparr>)"
proof -
  let ?H = "held_by s"
  let ?y0 = "irq_push_intr (pm_put ?H s)"
  let ?y1 = "?y0\<lparr>ks_proc_manager := (ks_proc_manager ?y0)\<lparr>pm_process_list := il\<rparr>, ks_manager_node := h\<rparr>"
  let ?x = "s\<lparr>ks_proc_manager := (ks_proc_manager s)\<lparr>pm_lock := ?H, pm_process_list := il\<rparr>, ks_manager_node := h\<rparr>"
  have y1: "?y1 = irq_push_intr ?x" by (simp add: pm_put_def)
  have "cx_ok ?x" using ok(1) by (auto simp: cx_ok_def)
  then have p0: "cx_pushed s ?y1" using irq_push_pushed [of ?x] unfolding y1 by (simp add: cx_pushed_def)
  have fx: "files_live (irq_push_intr ?x) = files_live s" "file_refs (irq_push_intr ?x) = file_refs s"
    by (simp_all add: files_live_def file_refs_def fun_eq_iff)
  have "fd_inv ext ft ?y1"
    using ft(2) cx_push_fields(3) [OF \<open>cx_ok ?x\<close>] unfolding y1 fd_inv_def fx by blast
  moreover have "ks_fdtables ?y1 table = Some ft" using ft(1) by (simp add: pm_put_def)
  ultimately obtain y2 where y2: "destroy_files mo (Some table) ?y1 = Some y2" "cx_same ?y1 y2" "file_refs y2 = ext"
    "fs_state.more y2 = fs_state.more (?y1\<lparr>ks_fdtables := (ks_fdtables ?y1)(table := None)\<rparr>)"
    using destroy_files_ok [OF _ _ k] by blast
  note m2 = kss_more [OF y2(4)]
  obtain hp where hp: "ho_kfree (mo_heap mo) (fs_heap y2) z = Some hp" using k by (auto simp: kfree_total_def)
  let ?y3 = "y2\<lparr>fs_heap := hp, ks_procs := (ks_procs y2)(z := None)\<rparr>"
  let ?b = "\<lambda>s. do {
       v \<leftarrow> ks_procs s z;
       ASSERT (pr_state v = PROCESS_ZOMBIE);
       ASSERT (intrusivelist_count (pr_threads v) = 0);
       let (il, h) = intrusivelist_remove (pm_process_list (ks_proc_manager s)) (ks_manager_node s) z;
       let s = s\<lparr>ks_proc_manager := (ks_proc_manager s)\<lparr>pm_process_list := il\<rparr>, ks_manager_node := h\<rparr>;
       s \<leftarrow> (case pr_address_space v of None \<Rightarrow> Some s | Some as \<Rightarrow> address_space_destroy mo as s);
       s \<leftarrow> destroy_files mo (pr_files v) s;
       s \<leftarrow> free_process mo z s;
       Some (s, ())
     }"
  have f0: "ks_procs ?y0 z = Some v"
    "intrusivelist_remove (pm_process_list (ks_proc_manager ?y0)) (ks_manager_node ?y0) z = (il, h)"
    using v(1) il by (simp_all add: pm_put_def)
  have b: "?b ?y0 = Some (?y3, ())"
    unfolding f0 bind.bind_lunit using v y2(1) hp by (simp add: f0 free_process_def)
  have g: "pm_get ?y3 = ?H" using m2(10) by (simp add: pm_get_def pm_put_def)
  have cp: "cx_pushed s ?y3" using p0 y2(2) ok(1) by (simp add: cx_pushed_def cx_same_def cx_ok_def)
  obtain s' where s': "with_lock pm_get pm_put ?b s = Some (pm_put spinlock_init s', ())" "cx_same s s'" "cpu_ctx.more s' = cpu_ctx.more ?y3"
    using pml.section_rel [of s ?b ?y3 "()"] ok b g cp by (auto simp: spinlock_init_def)
  let ?u = "\<lambda>s :: ('a, 'b, 'c) kss. s\<lparr>ks_procs := (ks_procs s)(z := None)\<rparr>"
  have "fs_state.more ?y3 = fs_state.more (?u (?x\<lparr>ks_fdtables := (ks_fdtables s)(table := None)\<rparr>))"
    using kss_more_upd(2) [OF y2(4) [unfolded y1]] m2(7) by (simp add: fs_more_skip pm_put_def)
  then have m: "fs_state.more s' = fs_state.more (?u (?x\<lparr>ks_fdtables := (ks_fdtables s)(table := None)\<rparr>))"
    using fss_more(6) [OF s'(3)] by simp
  have "(ks_proc_manager s)\<lparr>pm_process_list := il, pm_lock := spinlock_init\<rparr> = (ks_proc_manager s)\<lparr>pm_process_list := il\<rparr>"
    using ok(2) by (cases "ks_proc_manager s") (simp add: pm_get_def)
  then have "fs_state.more (pm_put spinlock_init s') = fs_state.more (s\<lparr>ks_manager_node := h, ks_fdtables := (ks_fdtables s)(table := None),
      ks_procs := (ks_procs s)(z := None), ks_proc_manager := (ks_proc_manager s)\<lparr>pm_process_list := il\<rparr>\<rparr>)"
    using kss_more_upd(3) [OF m] kss_more(10) [OF m] by (simp add: pm_put_def)
  moreover have "file_refs (pm_put spinlock_init s') = ext"
    using fss_more(4) [OF s'(3)] y2(3) by (simp add: file_refs_def pm_put_def fun_eq_iff)
  moreover have "cx_same s (pm_put spinlock_init s')" using s'(2) by (simp add: cx_same_def pm_put_def)
  ultimately show ?thesis using s'(1) unfolding proc_manager_remove_destroy_def by blast
qed

section \<open>The tree of processes\<close>

definition children_of :: "('h, 'w, 'a) kss \<Rightarrow> u64 \<Rightarrow> u64 IntrusiveList" where
  "children_of s q = (case ks_procs s q of None \<Rightarrow> intrusivelist_init | Some v \<Rightarrow> pr_children v)"

definition kids_rep :: "(u64 \<Rightarrow> u64 list) \<Rightarrow> ('h, 'w, 'a) kss \<Rightarrow> bool" where
  "kids_rep kids s \<longleftrightarrow> ils_rep (ks_parent_node s) (children_of s) kids \<and> (\<forall>q. \<forall>x\<in>set (kids q). ks_procs s x \<noteq> None)"

lemma il_rep_empty: "il_rep h il [] \<Longrightarrow> il = intrusivelist_init"
  by (cases il) (simp add: il_rep_def hd_ptr_def last_ptr_def intrusivelist_init_def)

lemma kids_head: "kids_rep kids s \<Longrightarrow> ks_procs s par = Some pv \<Longrightarrow> il_rep (ks_parent_node s) (pr_children pv) (kids par)"
  using ils_repD [of "ks_parent_node s" "children_of s" kids par] by (simp add: kids_rep_def children_of_def)

lemma kids_find: "kids_rep kids s \<Longrightarrow> ks_procs s par = Some pv \<Longrightarrow> find_zombie (il_head (pr_children pv)) s = Some (find (zombie s) (kids par))"
  by (rule find_zombie_eq [OF kids_head]) (auto simp: kids_rep_def)

lemma kids_drop:
  assumes k: "kids_rep kids s" and p: "ks_procs s par = Some pv" and z: "z \<in> set (kids par)"
  shows "kids_rep (kids(par := remove1 z (kids par))) (drop_child par pv z s)"
proof -
  obtain il h where r: "intrusivelist_remove (pr_children pv) (ks_parent_node s) z = (il, h)" by fastforce
  have c: "children_of s par = pr_children pv" using p by (simp add: children_of_def)
  have "ils_rep h ((children_of s)(par := il)) (kids(par := remove1 z (kids par)))"
    using ils_remove [of "ks_parent_node s" "children_of s" kids z par il h] k z r c by (simp add: kids_rep_def)
  moreover have "children_of (drop_child par pv z s) = (children_of s)(par := il)" using r by (auto simp: children_of_def)
  moreover have "ks_procs (drop_child par pv z s) x \<noteq> None" if "x \<in> set ((kids(par := remove1 z (kids par))) q)" for q x
  proof -
    have "\<exists>q. x \<in> set (kids q)" using that set_remove1_subset [of z "kids par"] by (auto split: if_splits)
    then have "ks_procs s x \<noteq> None" using k by (auto simp: kids_rep_def)
    then show ?thesis by simp
  qed
  ultimately show ?thesis using r unfolding kids_rep_def by simp
qed

text \<open>A process without children that is nobody's child any more can go.\<close>

lemma kids_free:
  assumes k: "kids_rep kids s" and z: "kids z = []" "\<forall>q. z \<notin> set (kids q)"
    and s': "ks_procs s' = (ks_procs s)(z := None)" "ks_parent_node s' = ks_parent_node s"
  shows "kids_rep kids s'"
proof -
  have "il_rep (ks_parent_node s) (children_of s z) []" using k z(1) ils_repD [of "ks_parent_node s" "children_of s" kids z] by (simp add: kids_rep_def)
  then have "children_of s z = intrusivelist_init" by (rule il_rep_empty)
  then have "children_of s' = children_of s" using s'(1) by (auto simp: children_of_def)
  then show ?thesis using k z(2) s' by (auto simp: kids_rep_def)
qed

lemma find_remove1:
  assumes "kids_rep kids s" "find P (kids par) = Some z"
  shows "z \<in> set (kids par)" "P z" "\<forall>q. z \<notin> set ((kids(par := remove1 z (kids par))) q)"
proof -
  show m: "z \<in> set (kids par)" "P z" using assms(2) by (auto simp: find_Some_iff in_set_conv_nth)
  have i: "ils_rep (ks_parent_node s) (children_of s) kids" using assms(1) by (simp add: kids_rep_def)
  show "\<forall>q. z \<notin> set ((kids(par := remove1 z (kids par))) q)"
    using ils_rep_distinct [OF i, of par] ils_rep_unique [OF i m(1)] by (auto simp: set_remove1_eq)
qed

section \<open>Wait\<close>

lemma dispatch_wait4:
  "sc_arg fr 8 = 61 \<Longrightarrow> syscall_dispatch mo syscall_build_table fr s =
     Option.bind (sys_wait4 mo fr s) (\<lambda>(s, r). Some (s, map_option (\<lambda>r. (set_x0 (word_of_int (sr_ret r)) fr, sr_should_resched r)) r))"
  by (simp add: syscall_dispatch_def syscall_table_retrieve_def syscall_build_table_def MAX_SYSCALL_COUNT_def run_syscall_def)

text \<open>
  Claim C12. The wait system call while no child has exited. A process without children gets \<^verbatim>\<open>-ECHILD\<close> and nothing changes. If
  there are children and none is a zombie, the calling task does not return: it is blocked, at the end of the queue of tasks that
  wait for a child of its process, another task runs in its place, no process changes and the scheduler's invariant holds, so
  that the exit of a child finds it there.
\<close>

theorem sys_wait4_waits:
  assumes inv: "sched_inv rqs wqs s" and cur: "cur_ok rqs s" and c: "c = cx_cpu s" and dep: "cx_irq_disable_depth s = 0"
    and p: "cpu_current (this_cpu s) = Some p" "ks_tasks s p = Some t" "t_state t = TASK_RUNNING" "t_waiting_on t = None"
      "p \<notin> special (this_cpu s)" "\<not> IS_ERR p"
    and par: "t_process t = Some par" "\<not> IS_ERR par" "ks_procs s par = Some pv" "pr_child_waiters pv = WaitersOf par"
    and kids: "kids_rep kids s" "\<forall>x\<in>set (kids par). \<not> zombie s x"
    and known: "\<forall>x\<in>set (rqs c). proc_known s x" and pk: "pick s (rqs c) = Some n"
    and res: "n \<noteq> p \<Longrightarrow> resumable mo s n \<and> address_space_table mo (Some p) s \<noteq> None"
    and call: "sc_arg fr 8 = 61"
  shows "if kids par = [] then syscall_dispatch mo syscall_build_table fr s = Some (s, Some (set_x0 (word_of_int (- ECHILD)) fr, False))
    else \<exists>s'. syscall_dispatch mo syscall_build_table fr s = Some (s', None) \<and>
      sched_inv (rqs(c := left s (rqs c))) (wqs(WaitersOf par := wqs (WaitersOf par) @ [p])) s' \<and> cur_ok (rqs(c := left s (rqs c))) s' \<and>
      (\<forall>d. cpu_current (ks_cpus s' d) = (if d = c then Some n else cpu_current (ks_cpus s d))) \<and>
      (\<exists>t'. ks_tasks s' p = Some t' \<and> t_state t' = TASK_BLOCKED) \<and> ks_procs s' = ks_procs s"
proof -
  have f: "find_zombie (il_head (pr_children pv)) s = Some None"
    using kids_find [OF kids(1) par(3)] kids(2) by (metis find_None_iff)
  have h: "il_head (pr_children pv) = None \<longleftrightarrow> kids par = []"
    using kids_head [OF kids(1) par(3)] by (cases "kids par") (simp_all add: il_rep_def hd_ptr_def)
  have g: "process_get_current s = Some par" "task_get_current s = p"
    using p(1,2) par(1) by (simp_all add: process_get_current_def task_get_current_def)
  have w: "sys_wait4 mo fr s = (if kids par = [] then returns (- ECHILD) False s
     else do { (s, _) \<leftarrow> waitqueue_enqueue (WaitersOf par) p s; s \<leftarrow> scheduler_block_current mo s; Some (s, None) })"
    using p(6) par(2,3,4) f h by (simp add: sys_wait4_def g)
  show ?thesis
    using wait_block_ok [OF inv cur c dep p(1-5) known pk res, of par]
    by (auto simp: dispatch_wait4 [OF call] w returns_def bind_eq_Some_conv)
qed

lemma family_kids: "kids_rep ((\<lambda>_. [])(0x8000 := [0x9000])) (family proc w st)"
proof -
  have "ils_rep nodes_ex (children_of (family proc w st)) ((\<lambda>_. [])(0x8000 := [0x9000]))"
    by (auto simp: ils_rep_def children_of_def parent_ex_def child_ex_def process_ex_def single_rep il_rep_init)
  then show ?thesis by (simp add: kids_rep_def)
qed

lemma family_addr: "\<not> IS_ERR 0x1000" "\<not> IS_ERR 0x8000"
  by (simp_all add: IS_ERR_def IS_ERR_VALUE_def)

theorem sys_wait4_waits_witness:
  "\<exists>s'. syscall_dispatch family_mm syscall_build_table (call_frame 61 0x500000) (family 0x8000 (SleepingTasks 0) PROCESS_RUNNING) = Some (s', None) \<and>
     (\<exists>t'. ks_tasks s' 0x1000 = Some t' \<and> t_state t' = TASK_BLOCKED) \<and> cpu_current (ks_cpus s' 0) = Some 0x2000"
proof -
  let ?w = "SleepingTasks 0" let ?s = "family 0x8000 ?w PROCESS_RUNNING"
  let ?t = "(task_ex TASK_RUNNING)\<lparr>t_process := Some 0x8000\<rparr>"
  have i: "sched_inv rqs_ex ((\<lambda>_. [])(?w := [0x5000])) ?s" "cur_ok rqs_ex ?s" by (rule family_inv; simp)+
  have sp: "0x1000 \<notin> special (cpu_ex 0)" by (simp add: special_def cpu_ex_def)
  have kn: "\<forall>x\<in>set (rqs_ex 0). proc_known ?s x" using family_switch(1) [of "0x8000" "0x2000"] by (simp add: rqs_ex_def)
  have ne: "\<not> exiting ?s 0x2000" by (simp add: exiting_def is_task_process_exiting_def)
  have pk: "pick ?s (rqs_ex 0) = Some 0x2000" by (simp add: pick_def next_of_def ne cpu_ex_def rqs_ex_def)
  have z: "\<not> zombie ?s 0x9000" by (simp add: zombie_def child_ex_def)
  show ?thesis
    using sys_wait4_waits [OF i, of 0 "0x1000" ?t "0x8000" parent_ex "(\<lambda>_. [])(0x8000 := [0x9000])" "0x2000" family_mm "call_frame 61 0x500000"]
      sp kn pk z family_kids family_addr family_switch(2) [of "0x2000"] family_switch(3) [of "0x8000"]
    by (simp add: cpu_ex_def parent_ex_def) auto
qed

text \<open>
  What the cleanup task and the memory system must have done for a zombie \<open>z\<close> before it can be reaped: no
  threads and no address space any more, a table of files whose references are counted, no children, and a place in
  the list of processes.
\<close>

definition reap_ready :: "(u64 \<Rightarrow> nat) \<Rightarrow> u64 list \<Rightarrow> u64 \<Rightarrow> Process \<Rightarrow> u64 \<Rightarrow> ('h, 'w, 'a) kss \<Rightarrow> bool" where
  "reap_ready ext ps z v table s \<longleftrightarrow> pr_lock v = spinlock_init \<and> intrusivelist_count (pr_threads v) = 0 \<and> pr_address_space v = None \<and>
     pr_files v = Some table \<and> (\<exists>ft. ks_fdtables s table = Some ft \<and> fd_inv ext ft s) \<and> pm_get s = spinlock_init \<and>
     il_rep (ks_manager_node s) (pm_process_list (ks_proc_manager s)) ps \<and> z \<in> set ps"

lemma drop_child_inv: "sched_inv rqs wqs s \<Longrightarrow> sched_inv rqs wqs ((cx_sec (drop_child par pv z s))\<lparr>fs_heap := h\<rparr>)"
  by (rule sched_inv_cong [of _ s]) (auto simp: drop_child_def split_beta set_proc_def cx_ok_def sched_inv_def locks_free_def)

lemma drop_child_as:
  "ks_procs s par = Some pv \<Longrightarrow> current_address_space (cx_sec (drop_child par pv z s)) = current_address_space s"
  by (auto simp: current_address_space_def this_cpu_def split: bind_splits)

lemma il_remove_in:
  assumes "il_rep h il ps" "z \<in> set ps" "intrusivelist_remove il h z = (il', h')"
  shows "il_rep h' il' (remove1 z ps)"
proof -
  obtain as bs where ps: "ps = as @ z # bs" "z \<notin> set as" using assms(2) by (meson split_list_first)
  then show ?thesis using remove_rep [of h il as z bs il' h'] assms by (simp add: remove1_append)
qed



text \<open>
  No one takes over the children of a process that is destroyed: a child that exits later reads the memory of its parent, which is gone.
\<close>

lemma sys_exit_orphan:
  assumes "cpu_current (this_cpu s) = Some p" "ks_tasks s p = Some t" "t_process t = Some proc" "ks_procs s proc = Some v"
    "pr_parent v = Some par" "ks_procs s par = None" "sc_arg fr 8 = 60"
  shows "syscall_dispatch mo syscall_build_table fr s = None"
proof -
  have "par \<noteq> proc" using assms by auto
  then have "sys_exit mo fr s = None"
    using assms by (auto simp: sys_exit_def process_get_current_def process_exit_def task_get_current_def Let_def)
  then show ?thesis by (simp add: dispatch_exit [OF assms(7)])
qed

end
