(* ===== verification/ForkProps.thy ===== *)
theory ForkProps
  imports WaitProps
begin

text \<open>
  The fork system call: from the new task, which returns from the call like its parent but with 0, over the
  copies of the descriptor table and the address space, to the new process in the tree of processes.
\<close>

section \<open>A new task\<close>

text \<open>What adding a task to the kernel state leaves alone.\<close>

definition task_added :: "u64 \<Rightarrow> Task \<Rightarrow> ('h, 'w, 'a) kss \<Rightarrow> ('h, 'w, 'a) kss \<Rightarrow> bool" where
  "task_added task t s s' \<longleftrightarrow> cx_same s s' \<and> ks_tasks s' = (ks_tasks s)(task \<mapsto> t) \<and>
     (\<forall>x. x \<noteq> task \<longrightarrow> ks_runnable_node s' x = ks_runnable_node s x \<and> ks_wait_node s' x = ks_wait_node s x) \<and>
     tm_get s' = tm_get s \<and> ks_cpus s' = ks_cpus s \<and> ks_wqs s' = ks_wqs s \<and> ks_procs s' = ks_procs s \<and>
     ks_process_node s' = ks_process_node s \<and> ks_parent_node s' = ks_parent_node s \<and> ks_manager_node s' = ks_manager_node s \<and>
     ks_proc_manager s' = ks_proc_manager s \<and> ks_fdtables s' = ks_fdtables s \<and> fs_files s' = fs_files s"

lemma ils_rep_cong:
  assumes "ils_rep h ils xss" "\<And>k x. x \<in> set (xss k) \<Longrightarrow> h' x = h x"
  shows "ils_rep h' ils xss"
  using assms(1) il_rep_cong [of _ h h'] assms(2) unfolding ils_rep_def by metis

lemma inv_new_task:
  assumes inv: "sched_inv rqs wqs s" and new: "ks_tasks s task = None" "card (dom (ks_tasks s)) + 1 < 2 ^ 64" "t_waiting_on t = None"
    and a: "task_added task t s s'"
  shows "sched_inv rqs wqs s'"
proof -
  note a = a [unfolded task_added_def]
  have at: "task_at rqs wqs task None" using sched_inv_at [OF inv, of task] new(1) by simp
  have nq: "task \<notin> set (rqs c)" "task \<notin> set (wqs q)" for c q using at by (simp_all add: task_at_def)
  have nr: "x \<in> set (rqs c) \<Longrightarrow> ks_runnable_node s' x = ks_runnable_node s x" "x \<in> set (wqs q) \<Longrightarrow> ks_wait_node s' x = ks_wait_node s x" for x c q
    using a nq by metis+
  have "queues_rep rqs wqs s'"
    using ils_rep_cong [OF sched_inv_reps(1) [OF inv] nr(1)] ils_rep_cong [OF sched_inv_reps(2) [OF inv] nr(2)] a
    by (simp add: queues_rep_def)
  moreover have "locks_free s'"
    using inv a cx_same_ok [of s s'] by (simp add: sched_inv_def locks_free_def rq_free_def wq_free_def rq_get_def wq_get_def)
  moreover have "tasks_ok rqs wqs (ks_tasks s')"
  proof -
    have "task_at rqs wqs task (Some t)" using at new(3) by (simp add: task_at_def)
    moreover have "dom (ks_tasks s') = insert task (dom (ks_tasks s))" using a by auto
    moreover have "finite (dom (ks_tasks s))" using inv by (simp add: sched_inv_def tasks_ok_def)
    then have "card (insert task (dom (ks_tasks s))) < 2 ^ 64" using new(1,2) by (subst card_insert_disjoint) auto
    ultimately show ?thesis using sched_inv_at [OF inv] inv a by (simp add: tasks_ok_def sched_inv_def)
  qed
  moreover have "cpus_ok rqs s'"
  proof -
    have "x \<in> special (ks_cpus s c) \<Longrightarrow> x \<noteq> task" for x c using inv new(1) by (force simp: sched_inv_def cpus_ok_def)
    then show ?thesis using inv a unfolding sched_inv_def cpus_ok_def by (metis fun_upd_other)
  qed
  moreover have "sorted (map (sleep_key s') (wqs (SleepingTasks c)))" for c
  proof -
    have "sleep_key s' x = sleep_key s x" if "x \<in> set (wqs (SleepingTasks c))" for x
      using that nq a by (cases "x = task") (simp_all add: sleep_key_def)
    then have "map (sleep_key s') (wqs (SleepingTasks c)) = map (sleep_key s) (wqs (SleepingTasks c))" by simp
    then show ?thesis using inv by (simp only: sched_inv_def)
  qed
  ultimately show ?thesis by (simp add: sched_inv_def)
qed

lemma task_added_sec [simp]: "task_added task t s (cx_sec s') = task_added task t s s'"
  by (simp add: task_added_def tml.get_sec)

lemma tm_lock_sec: "with_lock tm_get tm_put body (cx_sec s) = with_lock tm_get tm_put body s"
  by (simp add: with_lock_def tml.get_sec spinlock_acquire_def)

definition user_task :: "u64 option \<Rightarrow> usize \<Rightarrow> string \<Rightarrow> u64 \<Rightarrow> usize \<Rightarrow> Task \<Rightarrow> Task" where
  "user_task p tid name stack us t = (init_task p (TaskFn 0) 0 tid name stack t)\<lparr>t_user_stack := us,
     t_context := \<lparr>ec_regs = replicate 11 0, ec_lr = UserEntryTrampoline, ec_sp = stack + TASK_STACK_SIZE - 16\<rparr>\<rparr>"

text \<open>The state in which a new user task is complete, before it is in the list of the manager.\<close>

definition user_prepared :: "u64 \<Rightarrow> Task \<Rightarrow> 'h \<Rightarrow> (u64 \<Rightarrow> u64) \<Rightarrow> ('h, 'w, 'a) kss \<Rightarrow> ('h, 'w, 'a) kss" where
  "user_prepared task t h m s = (set_task task t (init_nodes task (with_next_id s)))\<lparr>fs_heap := h, ks_stack_mem := m\<rparr>"

lemma user_prepared_in [simp]: "(set_task task t (init_nodes task (with_next_id (in_tm s))))\<lparr>fs_heap := h, ks_stack_mem := m\<rparr> = in_tm (user_prepared task t h m s)"
  by (simp add: user_prepared_def with_next_id_def)

lemma user_prepared_fields [simp]: "ks_tasks (user_prepared task t h m s) = (ks_tasks s)(task \<mapsto> t)" "fs_heap (user_prepared task t h m s) = h"
  "ks_stack_mem (user_prepared task t h m s) = m" "cx_ok (user_prepared task t h m s) = cx_ok s" "cx_cpu (user_prepared task t h m s) = cx_cpu s"
  "tm_get (user_prepared task t h m s) = tm_get s" "ks_global_node (user_prepared task t h m s) = intrusivelist_node_init task (ks_global_node s)"
  "tm_tasks (ks_task_manager (user_prepared task t h m s)) = tm_tasks (ks_task_manager s)"
  by (simp_all add: user_prepared_def with_next_id_def set_task_def init_nodes_def tm_get_def cx_ok_def)

lemma task_init_user_in:
  assumes "ks_tasks s task = Some t" "ho_kalloc (mo_heap mo) (fs_heap s) TASK_STACK_SIZE = Some (h, stack)" "\<not> IS_ERR stack"
  shows "task_init_user mo p task ue us tid name (in_tm (with_next_id s)) =
    Some (in_tm (user_prepared task (user_task p tid name stack us t) h (store_words (stack + TASK_STACK_SIZE - 16) [ue, us] (ks_stack_mem s)) s), EOK)"
proof -
  define F where "F = stack + TASK_STACK_SIZE - 16"
  define T where "T = init_task p (TaskFn 0) 0 tid name stack t"
  have i: "task_init mo p task (TaskFn 0) 0 tid name (in_tm (with_next_id s)) =
      Some (in_tm (set_task task T (init_nodes task (with_next_id s\<lparr>fs_heap := h\<rparr>))), EOK)"
    using task_init_eq [of "in_tm (with_next_id s)" task t mo h stack p "TaskFn 0" 0 tid name] assms by (simp add: T_def)
  have sp: "ec_sp (t_context T) - 16 = F" by (simp add: T_def F_def init_task_def)
  have ut: "T\<lparr>t_user_stack := us, t_context := (t_context T)\<lparr>ec_lr := UserEntryTrampoline, ec_sp := F\<rparr>\<rparr> = user_task p tid name stack us t"
    by (simp add: user_task_def T_def F_def init_task_def)
  have "set_task task u ((set_task task T (init_nodes task (with_next_id s\<lparr>fs_heap := h\<rparr>)))\<lparr>ks_stack_mem := M\<rparr>) = user_prepared task u h M s" for u M
    by (simp add: user_prepared_def set_task_def init_nodes_def with_next_id_def)
  then show ?thesis unfolding F_def [symmetric] by (simp add: task_init_user_def i sp ut Let_def set_task_def [of _ T] del: store_words.simps)
qed

lemma create_user_ok:
  assumes inv: "sched_inv rqs wqs s" "\<forall>c. length (rqs c) < 2 ^ 63 - 1" "\<exists>c < CONFIG_MAX_CPU_COUNT. cpu_online (ks_cpus s c)"
    and tm: "tm_inv ts s" "length ts + 1 < 2 ^ 64" and fb: "fresh_blocks mo ts s task h1 stack h2"
  obtains s' b where "task_manager_create_user mo p ue us name s = Some (s', task)" "cpu_online (ks_cpus s b)"
    "\<forall>c < CONFIG_MAX_CPU_COUNT. cpu_online (ks_cpus s c) \<longrightarrow> length (rqs b) \<le> length (rqs c)"
    "task_added task (user_task p (tm_task_id_count (ks_task_manager s)) name stack us ((mo_fresh_task mo h1 task)\<lparr>t_cpu := Some b\<rparr>)) s s'"
    "tm_inv (ts @ [task]) s'" "fs_heap s' = h2" "ks_stack_mem s' = store_words (stack + TASK_STACK_SIZE - 16) [ue, us] (ks_stack_mem s)"
proof -
  obtain s0 b where b: "scheduler_pick_cpu s = Some (s0, b)" "s0 = s \<or> s0 = cx_sec s" "cpu_online (ks_cpus s b)"
    "\<forall>c < CONFIG_MAX_CPU_COUNT. cpu_online (ks_cpus s c) \<longrightarrow> length (rqs b) \<le> length (rqs c)"
    using scheduler_pick_cpu_ok [OF inv(1,2)] inv(3) by auto
  let ?f = "(mo_fresh_task mo h1 task)\<lparr>t_cpu := Some b\<rparr>"
  let ?tid = "tm_task_id_count (ks_task_manager s)"
  let ?t = "user_task p ?tid name stack us ?f"
  let ?M = "store_words (stack + TASK_STACK_SIZE - 16) [ue, us] (ks_stack_mem s)"
  have a: "ho_kalloc (mo_heap mo) (fs_heap s) sizeof_Task = Some (h1, task)" "\<not> IS_ERR task" "task \<notin> set ts"
    "ho_kalloc (mo_heap mo) h1 TASK_STACK_SIZE = Some (h2, stack)" "\<not> IS_ERR stack"
    using fb by (auto simp: fresh_blocks_def)
  let ?s1 = "set_task task ?f (s\<lparr>fs_heap := h1\<rparr>)"
  let ?y = "tm_insert task (user_prepared task ?t h2 ?M ?s1)"
  have f: "cx_ok ?s1" "tm_get ?s1 = spinlock_init" "ks_task_manager ?s1 = ks_task_manager s" "fs_heap ?s1 = h1" "ks_stack_mem ?s1 = ks_stack_mem s"
    using tm(1) by (simp_all add: tm_inv_def set_task_def tm_get_def)
  have sec: "with_lock tm_get tm_put (\<lambda>s. do {
       let (s, tid) = tm_next_id s;
       (s, err) \<leftarrow> task_init_user mo p task ue us tid name s;
       if err \<noteq> EOK then Some (s, ERR_TO_PTR err)
       else Some (tm_insert task s, task)
     }) ?s1 = Some (cx_sec ?y, task)"
    by (rule tm_section_in) (use f a task_init_user_in [of ?s1 task ?f mo h2 stack p ue us ?tid name] in \<open>simp_all add: tm_next_id_in del: store_words.simps\<close>)
  have "task_manager_create_user mo p ue us name s = Some (cx_sec ?y, task)"
    using b(1,2) a sec by (auto simp: task_manager_create_user_def Let_def tm_lock_sec)
  moreover have "task_added task ?t s ?y"
    by (auto simp: task_added_def user_prepared_def tm_insert_def split_beta set_task_def init_nodes_def with_next_id_def tm_get_def cx_same_def
        intrusivelist_node_init_def set_next_def set_prev_def)
  then have "task_added task ?t s (cx_sec ?y)" by (simp del: store_words.simps)
  moreover have "tm_inv (ts @ [task]) (cx_sec ?y)"
  proof -
    let ?h = "intrusivelist_node_init task (ks_global_node s)"
    have "il_rep ?h (tm_tasks (ks_task_manager s)) ts"
      by (rule il_rep_cong [of _ "ks_global_node s"]) (use a(3) tm(1) in \<open>auto simp: tm_inv_def intrusivelist_node_init_def set_next_def set_prev_def\<close>)
    then have "il_rep (ks_global_node ?y) (tm_tasks (ks_task_manager ?y)) (ts @ [task])"
      using insert_tail_rep [OF _ a(3) tm(2), of ?h "tm_tasks (ks_task_manager s)"] f(3)
      by (simp add: tm_insert_def split_beta set_task_def del: store_words.simps)
    then show ?thesis using tm(1) f(1,2) by (simp add: tm_inv_def tml.get_sec del: store_words.simps)
  qed
  moreover have "fs_heap (cx_sec ?y) = h2" "ks_stack_mem (cx_sec ?y) = ?M" by (simp_all add: tm_insert_def split_beta del: store_words.simps)
  ultimately show thesis using that b(3,4) by blast
qed

text \<open>The task of a forked process: it goes on where its parent made the call, with 0 as the result.\<close>

definition forked_task :: "u64 option \<Rightarrow> usize \<Rightarrow> string \<Rightarrow> u64 \<Rightarrow> usize \<Rightarrow> Task \<Rightarrow> Task" where
  "forked_task p tid name stack us t = (user_task p tid name stack us t)\<lparr>
     t_context := \<lparr>ec_regs = replicate 11 0, ec_lr = ChildReturnTrampoline, ec_sp = stack + TASK_STACK_SIZE - 304\<rparr>\<rparr>"

lemma store_words_other: "\<forall>i < length ws. x \<noteq> a + of_nat (8 * i) \<Longrightarrow> store_words a ws m x = m x"
proof (induction ws arbitrary: a m)
  case (Cons w ws)
  have "x \<noteq> a + 8 + of_nat (8 * i)" if "i < length ws" for i
    using Cons.prems [rule_format, of "Suc i"] that by (simp add: algebra_simps)
  moreover have "x \<noteq> a" using Cons.prems [rule_format, of 0] by simp
  ultimately show ?case using Cons.IH by simp
qed simp

lemma store_words_at: "8 * length ws < 2 ^ 64 \<Longrightarrow> i < length ws \<Longrightarrow> store_words a ws m (a + of_nat (8 * i)) = ws ! i"
proof (induction ws arbitrary: a m i)
  case (Cons w ws)
  show ?case
  proof (cases i)
    case 0
    have "a \<noteq> a + 8 + of_nat (8 * j)" if "j < length ws" for j
    proof
      assume "a = a + 8 + of_nat (8 * j)"
      then have "of_nat (8 * Suc j) = (0 :: u64)" by (simp add: algebra_simps)
      then have "unat (of_nat (8 * Suc j) :: u64) = 0" by (simp only: unat_0)
      then have "(8 * Suc j) mod 2 ^ 64 = 0" unfolding unat_of_nat by simp
      moreover have "8 * Suc j < 2 ^ 64" using that Cons.prems(1) by simp
      ultimately show False by (metis mod_less mult_is_0 nat.distinct(1) zero_neq_numeral)
    qed
    then show ?thesis using 0 store_words_other [of ws a "a + 8" "m(a := w)"] by simp
  next
    case (Suc j)
    have e: "a + of_nat (8 * Suc j) = a + 8 + of_nat (8 * j)" by (simp add: algebra_simps)
    have "store_words (a + 8) ws (m(a := w)) (a + 8 + of_nat (8 * j)) = ws ! j" by (rule Cons.IH) (use Cons.prems Suc in simp_all)
    then show ?thesis by (simp only: Suc e store_words.simps nth_Cons_Suc)
  qed
qed simp

lemma create_user_from_ok:
  assumes inv: "sched_inv rqs wqs s" "\<forall>c. length (rqs c) < 2 ^ 63 - 1" "\<exists>c < CONFIG_MAX_CPU_COUNT. cpu_online (ks_cpus s c)"
    and tm: "tm_inv ts s" "length ts + 1 < 2 ^ 64" and fb: "fresh_blocks mo ts s task h1 stack h2" and src: "ks_tasks s src = Some t"
  obtains s' b where "task_manager_create_user_from mo p src (Some fr) s = Some (s', task)" "cpu_online (ks_cpus s b)"
    "\<forall>c < CONFIG_MAX_CPU_COUNT. cpu_online (ks_cpus s c) \<longrightarrow> length (rqs b) \<le> length (rqs c)"
    "task_added task (forked_task p (tm_task_id_count (ks_task_manager s)) (t_name t) stack (t_user_stack t) ((mo_fresh_task mo h1 task)\<lparr>t_cpu := Some b\<rparr>)) s s'"
    "tm_inv (ts @ [task]) s'" "fs_heap s' = h2"
    "\<And>i. i < length (frame_words fr) \<Longrightarrow> length (frame_words fr) = 38 \<Longrightarrow>
       ks_stack_mem s' (stack + TASK_STACK_SIZE - 304 + of_nat (8 * i)) = frame_words (fr\<lparr>ef_x := (ef_x fr)[0 := 0]\<rparr>) ! i"
proof -
  obtain s1 b where c: "task_manager_create_user mo p (mo_fn_addr mo (t_entry t)) (t_user_stack t) (t_name t) s = Some (s1, task)" and b: "cpu_online (ks_cpus s b)"
    "\<forall>c < CONFIG_MAX_CPU_COUNT. cpu_online (ks_cpus s c) \<longrightarrow> length (rqs b) \<le> length (rqs c)"
    and s1: "task_added task (user_task p (tm_task_id_count (ks_task_manager s)) (t_name t) stack (t_user_stack t) ((mo_fresh_task mo h1 task)\<lparr>t_cpu := Some b\<rparr>)) s s1"
    "tm_inv (ts @ [task]) s1" "fs_heap s1 = h2"
    by (rule create_user_ok [OF inv tm fb]) (rule that; assumption)
  define u where "u = user_task p (tm_task_id_count (ks_task_manager s)) (t_name t) stack (t_user_stack t) ((mo_fresh_task mo h1 task)\<lparr>t_cpu := Some b\<rparr>)"
  define F where "F = stack + TASK_STACK_SIZE - 304"
  let ?W = "frame_words (fr\<lparr>ef_x := (ef_x fr)[0 := 0]\<rparr>)"
  let ?u = "u\<lparr>t_context := (t_context u)\<lparr>ec_lr := ChildReturnTrampoline, ec_sp := F\<rparr>\<rparr>"
  let ?s = "set_task task ?u (s1\<lparr>ks_stack_mem := store_words F ?W (ks_stack_mem s1)\<rparr>)"
  have u: "ks_tasks s1 task = Some u" "t_stack u = stack" using s1(1) by (simp_all add: task_added_def u_def user_task_def init_task_def)
  have "task_manager_create_user_from mo p src (Some fr) s = Some (?s, task)"
    using src c u fb by (simp add: task_manager_create_user_from_def fresh_blocks_def Let_def F_def)
  moreover have "?u = forked_task p (tm_task_id_count (ks_task_manager s)) (t_name t) stack (t_user_stack t) ((mo_fresh_task mo h1 task)\<lparr>t_cpu := Some b\<rparr>)"
    by (simp add: forked_task_def u_def user_task_def F_def)
  moreover have "task_added task ?u s ?s" using s1(1) by (auto simp: task_added_def set_task_def cx_same_def tm_get_def)
  moreover have "tm_inv (ts @ [task]) ?s" using s1(2) by (auto simp: tm_inv_def set_task_def tm_get_def)
  moreover have "ks_stack_mem ?s (F + of_nat (8 * i)) = ?W ! i" if "i < length (frame_words fr)" "length (frame_words fr) = 38" for i
    using store_words_at [of ?W i F "ks_stack_mem s1"] that by (simp add: frame_words_def set_task_def)
  moreover have "fs_heap ?s = h2" using s1(3) by (simp add: set_task_def)
  ultimately show thesis using that b F_def by metis
qed

section \<open>A new child\<close>

definition join_child :: "u64 \<Rightarrow> Process \<Rightarrow> u64 \<Rightarrow> ('h, 'w, 'a) kss \<Rightarrow> ('h, 'w, 'a) kss" where
  "join_child par pv z s = (let (il, h) = intrusivelist_insert_tail (pr_children pv) (ks_parent_node s) z in
     (set_proc par (pv\<lparr>pr_children := il\<rparr>) s)\<lparr>ks_parent_node := h\<rparr>)"

lemma process_add_child_eq:
  assumes "cx_ok s" "ks_procs s par = Some pv" "ks_procs s z = Some v" "par \<noteq> z"
    "pr_lock pv = spinlock_init" "pr_lock v = spinlock_init"
  shows "process_add_child par z s = Some (cx_sec (join_child par pv z s), ())"
  unfolding process_add_child_def
proof (rule two_processes [OF assms(1,4,2,3,5,6), where v' = v
      and pv' = "pv\<lparr>pr_children := fst (intrusivelist_insert_tail (pr_children pv) (ks_parent_node s) z)\<rparr>"])
  obtain il h where r: "intrusivelist_insert_tail (pr_children pv) (ks_parent_node s) z = (il, h)" by fastforce
  let ?P = "\<lambda>s. pr_put z (held_by s) (pr_put par (held_by s) s)"
  have "(set_proc par (pv\<lparr>pr_lock := held_by s, pr_children := il\<rparr>) (?P s))\<lparr>ks_parent_node := h\<rparr> =
      pr_put z (held_by s) (pr_put par (held_by s) (join_child par pv z s))"
    using assms(2-4) r by (auto simp: join_child_def pr_put_def set_proc_def intro!: kstate.equality)
  then show "(do {
       v \<leftarrow> ks_procs (irq_push_intr (irq_push_intr (?P s))) par;
       let (il, h) = intrusivelist_insert_tail (pr_children v) (ks_parent_node (irq_push_intr (irq_push_intr (?P s)))) z;
       Some ((set_proc par (v\<lparr>pr_children := il\<rparr>) (irq_push_intr (irq_push_intr (?P s))))\<lparr>ks_parent_node := h\<rparr>, ())
     }) = Some (irq_push_intr (irq_push_intr (pr_put z (held_by s) (pr_put par (held_by s) (join_child par pv z s)))), ())"
    using assms(2,4) r by (simp add: set_proc_def) (simp add: pr_put_def)
qed (use assms in \<open>auto simp: join_child_def split_beta set_proc_def cx_ok_def\<close>)

lemma process_set_parent_eq:
  assumes "cx_ok s" "ks_procs s par = Some pv" "ks_procs s z = Some v" "par \<noteq> z"
    "pr_lock pv = spinlock_init" "pr_lock v = spinlock_init"
  shows "process_set_parent par z s = Some (cx_sec (set_proc z (v\<lparr>pr_parent := Some par\<rparr>) s), ())"
  unfolding process_set_parent_def
proof (rule two_processes [OF assms(1,4,2,3,5,6), where v' = "v\<lparr>pr_parent := Some par\<rparr>" and pv' = pv])
  let ?P = "\<lambda>s. pr_put z (held_by s) (pr_put par (held_by s) s)"
  have "set_proc z (v\<lparr>pr_lock := held_by s, pr_parent := Some par\<rparr>) (?P s) =
      pr_put z (held_by s) (pr_put par (held_by s) (set_proc z (v\<lparr>pr_parent := Some par\<rparr>) s))"
    using assms(2-4) by (auto simp: pr_put_def set_proc_def intro!: kstate.equality)
  then show "(do {
       v \<leftarrow> ks_procs (irq_push_intr (irq_push_intr (?P s))) z;
       Some (set_proc z (v\<lparr>pr_parent := Some par\<rparr>) (irq_push_intr (irq_push_intr (?P s))), ())
     }) = Some (irq_push_intr (irq_push_intr (pr_put z (held_by s) (pr_put par (held_by s) (set_proc z (v\<lparr>pr_parent := Some par\<rparr>) s)))), ())"
    using assms(3,4) by (simp add: set_proc_def) (simp add: pr_put_def)
qed (use assms in simp_all)

definition join_thread :: "u64 \<Rightarrow> Process \<Rightarrow> u64 \<Rightarrow> ('h, 'w, 'a) kss \<Rightarrow> ('h, 'w, 'a) kss" where
  "join_thread proc v task s = (let (il, h) = intrusivelist_insert_tail (pr_threads v) (ks_process_node s) task in
     (set_proc proc (v\<lparr>pr_threads := il\<rparr>) s)\<lparr>ks_process_node := h\<rparr>)"

lemma process_add_thread_eq:
  assumes "cx_ok s" "ks_procs s proc = Some v" "pr_lock v = spinlock_init"
  shows "process_add_thread proc task s = Some (cx_sec (join_thread proc v task s), ())"
proof -
  obtain il h where r: "intrusivelist_insert_tail (pr_threads v) (ks_process_node s) task = (il, h)" by fastforce
  let ?y = "join_thread proc v task s"
  have e: "(set_proc proc (v\<lparr>pr_lock := held_by s, pr_threads := il\<rparr>) (pr_put proc (held_by s) s))\<lparr>ks_process_node := h\<rparr> = pr_put proc (held_by s) ?y"
    using assms(2) r by (auto simp: join_thread_def pr_put_def set_proc_def intro!: kstate.equality)
  have y: "ks_procs ?y proc = Some (v\<lparr>pr_threads := il\<rparr>)" "cx_ok ?y" "cx_cpu ?y = cx_cpu s" "held_by ?y = held_by s"
    using assms(1) r by (auto simp: join_thread_def set_proc_def cx_ok_def held_by_def)
  have "with_lock (pr_get proc) (pr_put proc) (\<lambda>s. do {
       v \<leftarrow> ks_procs s proc;
       let (il, h) = intrusivelist_insert_tail (pr_threads v) (ks_process_node s) task;
       Some ((set_proc proc (v\<lparr>pr_threads := il\<rparr>) s)\<lparr>ks_process_node := h\<rparr>, ())
     }) s = Some (cx_sec (pr_put proc spinlock_init (pr_put proc (held_by s) ?y)), ())"
  proof (rule prl.section_eq)
    show "(do {
       v \<leftarrow> ks_procs (irq_push_intr (pr_put proc (held_by s) s)) proc;
       let (il, h) = intrusivelist_insert_tail (pr_threads v) (ks_process_node (irq_push_intr (pr_put proc (held_by s) s))) task;
       Some ((set_proc proc (v\<lparr>pr_threads := il\<rparr>) (irq_push_intr (pr_put proc (held_by s) s)))\<lparr>ks_process_node := h\<rparr>, ())
     }) = Some (irq_push_intr (pr_put proc (held_by s) ?y), ())"
      using assms(2) r by (simp add: e [symmetric] set_proc_def) (simp add: pr_put_def)
  qed (use assms y in \<open>simp_all add: pr_get_simps spinlock_init_def\<close>)
  then show ?thesis using pr_put_restore [OF y(1)] assms(3) by (simp add: process_add_thread_def)
qed

lemma address_space_create_from_ok:
  assumes "cx_ok s" "mo_as_lock mo (fs_heap s) src = Some l" "\<not> sp_locked l" "mo_address_space_create_from mo (fs_heap s) src = Some (h, dst, False)"
  shows "\<exists>s'. address_space_create_from mo src s = Some (s', dst) \<and> cx_same s s' \<and> cpu_ctx.more s' = cpu_ctx.more (s\<lparr>fs_heap := h\<rparr>)"
proof -
  obtain s1 where s1: "spinlock_acquire l s = Some (held_by s, s1)" "cx_pushed s s1" "cpu_ctx.more s1 = cpu_ctx.more s"
    using spinlock_acquire_ok [OF assms(1,3)] by (auto simp: held_by_def)
  have m: "cx_pushed s (s1\<lparr>fs_heap := h\<rparr>)" "fs_heap s1 = fs_heap s" using s1(2) fss_more(2) [OF s1(3)] by (simp_all add: cx_pushed_def)
  obtain s2 where s2: "spinlock_release (held_by s) (s1\<lparr>fs_heap := h\<rparr>) = Some (spinlock_init, s2)" "cx_same s s2"
    "cpu_ctx.more s2 = cpu_ctx.more (s1\<lparr>fs_heap := h\<rparr>)" using spinlock_release_ok [OF assms(1) m(1)] by (auto simp: held_by_def)
  have "cpu_ctx.more (s1\<lparr>fs_heap := h\<rparr>) = cpu_ctx.more (s\<lparr>fs_heap := h\<rparr>)" using s1(3) by (cases s, cases s1) simp
  then show ?thesis using s1(1) s2 assms(2,4) m(2) by (simp add: address_space_create_from_def)
qed

end
