(* ===== verification/ForkCall.thy ===== *)
theory ForkCall
  imports ForkProps
begin

text \<open>
  The fork system call as a whole: the section on the lock of the process manager in which the process is
  copied and its task made, then the place of the new process below its parent.
\<close>

section \<open>The section of the process manager\<close>

definition fork_task :: "'h mm_ops \<Rightarrow> u64 \<Rightarrow> u64 \<Rightarrow> u64 \<Rightarrow> ExceptionFrame option \<Rightarrow> ('h, 'w, 'a) kss \<Rightarrow> (('h, 'w, 'a) kss \<times> u64) option" where
  "fork_task mo dst as src_task src_frame s = do {
     (s, dst_task) \<leftarrow> task_manager_create_user_from mo (Some dst) src_task src_frame s;
     if IS_ERR dst_task then abandon_process mo dst as s
     else do {
       let s = pm_insert dst s;
       (s, _) \<leftarrow> process_add_thread dst dst_task s;
       (s, _) \<leftarrow> scheduler_enqueue dst_task s;
       Some (s, dst)
     }
   }"

definition fork_body :: "'h mm_ops \<Rightarrow> u64 \<Rightarrow> u64 \<Rightarrow> ExceptionFrame option \<Rightarrow> ('h, 'w, 'a) kss \<Rightarrow> (('h, 'w, 'a) kss \<times> u64) option" where
  "fork_body mo src_proc src_task src_frame s = do {
     src \<leftarrow> ks_procs s src_proc;
     (s, dst) \<leftarrow> alloc_process mo s;
     if IS_ERR dst then Some (s, dst)
     else do {
       files \<leftarrow> pr_files src;
       ft \<leftarrow> ks_fdtables s files;
       (ft, s, table, nt) \<leftarrow> fdtable_create_from (mo_heap mo) ft s;
       let s = set_fdtable files ft s;
       case nt of
         None \<Rightarrow> do { s \<leftarrow> free_process mo dst s; Some (s, ERR_TO_PTR (- ENOMEM)) }
       | Some nt \<Rightarrow> do {
           src_as \<leftarrow> pr_address_space src;
           (s, as) \<leftarrow> address_space_create_from mo src_as s;
           if IS_ERR as then do {
             s \<leftarrow> free_process mo dst s;
             (s, _) \<leftarrow> fdtable_destroy (mo_heap mo) table nt s;
             Some (s, ERR_TO_PTR (- ENOMEM))
           }
           else do {
             let (s, pid) = pm_next_pid (set_fdtable table nt s);
             s \<leftarrow> process_init dst pid (pr_name src) as table s;
             fork_task mo dst as src_task src_frame s
           }
         }
     }
   }"

lemma create_exec_from_body:
  "proc_manager_create_exec_from mo src_proc src_task src_frame s = with_lock pm_get pm_put (fork_body mo src_proc src_task src_frame) s"
  by (simp only: proc_manager_create_exec_from_def fork_body_def [abs_def] fork_task_def [abs_def])

text \<open>The memory a fork takes for the process, its table of files and its address space.\<close>

definition fork_memory :: "'h mm_ops \<Rightarrow> u64 \<Rightarrow> 'h \<Rightarrow> u64 \<Rightarrow> 'h \<Rightarrow> u64 \<Rightarrow> 'h \<Rightarrow> u64 \<Rightarrow> 'h \<Rightarrow> bool" where
  "fork_memory mo src h child h1 table h2 as h3 \<longleftrightarrow>
     ho_kalloc (mo_heap mo) h sizeof_Process = Some (h1, child) \<and> \<not> IS_ERR child \<and>
     ho_kalloc (mo_heap mo) h1 664 = Some (h2, table) \<and> \<not> IS_ERR table \<and>
     (\<exists>l. mo_as_lock mo h2 src = Some l \<and> \<not> sp_locked l) \<and>
     mo_address_space_create_from mo h2 src = Some (h3, as, False) \<and> \<not> IS_ERR as"

definition new_process :: "u64 \<Rightarrow> usize \<Rightarrow> string \<Rightarrow> u64 \<Rightarrow> u64 \<Rightarrow> Process \<Rightarrow> Process" where
  "new_process proc pid name as table v = v\<lparr>pr_pid := pid, pr_name := name, pr_lock := spinlock_init, pr_state := PROCESS_RUNNING,
     pr_address_space := Some as, pr_threads := intrusivelist_init, pr_children := intrusivelist_init,
     pr_child_waiters := WaitersOf proc, pr_files := Some table, pr_exiting := False, pr_exit_code := 0\<rparr>"

definition fork_copied :: "u64 \<Rightarrow> Process \<Rightarrow> u64 \<Rightarrow> FDTable \<Rightarrow> u64 \<Rightarrow> FDTable \<Rightarrow> ('h, 'w, 'a) kss \<Rightarrow> ('h, 'w, 'a) kss \<Rightarrow> bool" where
  "fork_copied child cv files ft table nt s x \<longleftrightarrow> cx_same s x \<and> ks_tasks x = ks_tasks s \<and> ks_runnable_node x = ks_runnable_node s \<and>
     ks_wait_node x = ks_wait_node s \<and> ks_cpus x = ks_cpus s \<and> ks_wqs x = ks_wqs s \<and> ks_task_manager x = ks_task_manager s \<and>
     ks_global_node x = ks_global_node s \<and> ks_manager_node x = ks_manager_node s \<and>
     ks_procs x = (ks_procs s)(child \<mapsto> cv) \<and> ks_parent_node x = intrusivelist_node_init child (ks_parent_node s) \<and>
     ks_proc_manager x = (ks_proc_manager s)\<lparr>pm_pid_count := pm_pid_count (ks_proc_manager s) + 1\<rparr> \<and>
     ks_fdtables x = (ks_fdtables s)(files \<mapsto> ft\<lparr>fdt_lock := spinlock_init\<rparr>, table \<mapsto> nt) \<and>
     fdt_files nt = fdt_files ft \<and> fdt_state nt = fdt_state ft \<and> fdt_close_on_exec nt = fdt_close_on_exec ft \<and> fd_wf nt \<and>
     (\<forall>f. file_refs x f = file_refs s f + card (fd_slots ft f))"

lemma fork_copy_ok:
  fixes i :: "('h, 'w, 'a) kss"
  assumes fd: "fd_inv ext ft i" "refs_bounded i" and src: "ks_procs i par = Some pv" "pr_files pv = Some files" "ks_fdtables i files = Some ft"
      "pr_address_space pv = Some src"
    and m: "fork_memory mo src (fs_heap i) child h1 table h2 as h3" and wq: "ks_wqs i (WaitersOf child) = waitqueue_init"
  shows "\<exists>x nt. fork_body mo par p fr i = fork_task mo child as p fr x \<and> fs_heap x = h3 \<and>
    fork_copied child (new_process child (pm_pid_count (ks_proc_manager i)) (pr_name pv) as table (mo_fresh_process mo h1 child)) files ft table nt i x"
proof -
  note m = m [unfolded fork_memory_def]
  let ?f = "mo_fresh_process mo h1 child"
  let ?n = "pm_pid_count (ks_proc_manager i)"
  let ?v = "new_process child ?n (pr_name pv) as table ?f"
  define i1 where "i1 = set_proc child ?f (i\<lparr>fs_heap := h1\<rparr>)"
  have r1: "file_refs i1 = file_refs i" "files_live i1 = files_live i"
    by (simp_all add: i1_def set_proc_def file_refs_def fun_eq_iff files_live_def)
  have "cx_ok i1" using fd(1) by (simp add: i1_def fd_inv_def)
  then have fd1: "fd_inv ext ft i1" "refs_bounded i1" using fd r1 unfolding fd_inv_def refs_bounded_def by metis+
  have k: "ho_kalloc (mo_heap mo) (fs_heap i1) 664 = Some (h2, table)" using m by (simp add: i1_def set_proc_def)
  obtain s2 nt where s2: "fdtable_create_from (mo_heap mo) ft i1 = Some (ft\<lparr>fdt_lock := spinlock_init\<rparr>, s2, table, Some nt)" "cx_same i1 s2"
    "fd_wf nt" "fdt_files nt = fdt_files ft" "fdt_state nt = fdt_state ft" "fdt_close_on_exec nt = fdt_close_on_exec ft"
    "fd_inv (\<lambda>p. ext p + card (fd_slots ft p)) nt s2" "fs_heap s2 = h2" "fs_state.more s2 = fs_state.more i1"
    using fdtable_create_from_ok [OF fd1 k] m by blast
  note e2 = kss_more [OF s2(9)]
  let ?s2 = "set_fdtable files (ft\<lparr>fdt_lock := spinlock_init\<rparr>) s2"
  have "cx_ok s2" using s2(7) by (simp add: fd_inv_def)
  then have ok2: "cx_ok ?s2" by (auto simp: set_fdtable_def cx_ok_def)
  have h2: "fs_heap ?s2 = h2" using s2(8) by (simp add: set_fdtable_def)
  obtain l where l: "mo_as_lock mo (fs_heap ?s2) src = Some l" "\<not> sp_locked l" "mo_address_space_create_from mo (fs_heap ?s2) src = Some (h3, as, False)"
    using m unfolding h2 by blast
  obtain s3 where s3: "address_space_create_from mo src ?s2 = Some (s3, as)" "cx_same ?s2 s3"
    "cpu_ctx.more s3 = cpu_ctx.more (?s2\<lparr>fs_heap := h3\<rparr>)" using address_space_create_from_ok [OF ok2 l] by blast
  note e3 = kss_more [OF fss_more(6) [OF s3(3)]] fss_more(1,2) [OF s3(3)]
  define x where "x = (set_proc child ?v (set_fdtable table nt s3\<lparr>ks_proc_manager := (ks_proc_manager s3)\<lparr>pm_pid_count := ?n + 1\<rparr>\<rparr>))
      \<lparr>ks_parent_node := intrusivelist_node_init child (ks_parent_node s3)\<rparr>"
  have e: "ks_wqs s3 = ks_wqs i" "ks_procs s3 = (ks_procs i)(child \<mapsto> ?f)" "ks_proc_manager s3 = ks_proc_manager i"
    using e2 e3 by (simp_all add: i1_def set_fdtable_def set_proc_def)
  have "set_wq (WaitersOf child) waitqueue_init x = x" using e(1) wq by (simp add: set_wq_def x_def set_proc_def set_fdtable_def fun_upd_idem)
  obtain q where q: "pm_next_pid (set_fdtable table nt s3) = (q, ?n)" using e(3) by (simp add: pm_next_pid_def Let_def set_fdtable_def)
  then have pi: "process_init child ?n (pr_name pv) as table q = Some x"
    using e \<open>set_wq (WaitersOf child) waitqueue_init x = x\<close> by (auto simp: process_init_def pm_next_pid_def Let_def set_fdtable_def x_def new_process_def set_proc_def)
  have "alloc_process mo i = Some (i1, child)" using m by (simp add: alloc_process_def i1_def)
  moreover have "ks_fdtables i1 files = Some ft" using src(3) by (simp add: i1_def set_proc_def)
  ultimately have "fork_body mo par p fr i = fork_task mo child as p fr x"
    using src m s2(1) s3(1) q pi by (simp add: fork_body_def)
  moreover have "fs_heap x = h3" using e3 by (simp add: x_def set_proc_def set_fdtable_def)
  moreover have "file_refs x f = file_refs i f + card (fd_slots ft f)" for f
  proof -
    have "file_refs x f = file_refs s2 f" using e3 by (simp add: x_def set_proc_def set_fdtable_def file_refs_def)
    moreover have "fd_slots nt = fd_slots ft" using s2(4,5) by (simp add: fd_slots_def fun_eq_iff)
    ultimately show ?thesis using s2(7) fd(1) by (simp add: fd_inv_def)
  qed
  moreover have "cx_same i x" using s2(2) s3(2) by (simp add: cx_same_def x_def i1_def set_proc_def set_fdtable_def)
  ultimately have "fork_copied child ?v files ft table nt i x"
    using s2(3-6) e2 e3 by (simp add: fork_copied_def x_def set_proc_def set_fdtable_def i1_def)
  then show ?thesis using \<open>fork_body mo par p fr i = _\<close> \<open>fs_heap x = h3\<close> by blast
qed

section \<open>The new task becomes ready\<close>

lemma make_ready_more [simp]:
  "ks_global_node (make_ready p t c s) = ks_global_node s" "ks_task_manager (make_ready p t c s) = ks_task_manager s"
  "ks_process_node (make_ready p t c s) = ks_process_node s" "ks_parent_node (make_ready p t c s) = ks_parent_node s"
  "ks_manager_node (make_ready p t c s) = ks_manager_node s" "ks_proc_manager (make_ready p t c s) = ks_proc_manager s"
  "ks_fdtables (make_ready p t c s) = ks_fdtables s" "fs_files (make_ready p t c s) = fs_files s"
  "ks_stack_mem (make_ready p t c s) = ks_stack_mem s" "cx_same s0 (make_ready p t c s) = cx_same s0 s"
  by (simp_all add: make_ready_def rq_insert_def split_beta set_runnables_def set_cpu_def set_task_def cx_same_def)

definition enlist :: "u64 \<Rightarrow> Process \<Rightarrow> u64 \<Rightarrow> ('h, 'w, 'a) kss \<Rightarrow> ('h, 'w, 'a) kss" where
  "enlist child cv task s = join_thread child cv task (pm_insert child s)"

lemma enlist_fields [simp]: "ks_tasks (enlist child cv task s) = ks_tasks s" "ks_cpus (enlist child cv task s) = ks_cpus s"
  "ks_runnable_node (enlist child cv task s) = ks_runnable_node s" "ks_wait_node (enlist child cv task s) = ks_wait_node s"
  "ks_wqs (enlist child cv task s) = ks_wqs s" "ks_task_manager (enlist child cv task s) = ks_task_manager s"
  "ks_global_node (enlist child cv task s) = ks_global_node s" "ks_parent_node (enlist child cv task s) = ks_parent_node s"
  "ks_fdtables (enlist child cv task s) = ks_fdtables s" "fs_files (enlist child cv task s) = fs_files s"
  "ks_stack_mem (enlist child cv task s) = ks_stack_mem s" "cx_same s0 (enlist child cv task s) = cx_same s0 s"
  "cx_ok (enlist child cv task s) = cx_ok s" "pm_lock (ks_proc_manager (enlist child cv task s)) = pm_lock (ks_proc_manager s)"
  by (simp_all add: enlist_def join_thread_def pm_insert_def split_beta set_proc_def cx_same_def cx_ok_def)

lemma enlist_reps:
  assumes "il_rep (ks_manager_node s) (pm_process_list (ks_proc_manager s)) ps" "child \<notin> set ps" "length ps + 1 < 2 ^ 64"
    "pr_threads cv = intrusivelist_init"
  obtains il where "ks_procs (enlist child cv task s) = (ks_procs s)(child \<mapsto> cv\<lparr>pr_threads := il\<rparr>)"
    "il_rep (ks_process_node (enlist child cv task s)) il [task]"
    "il_rep (ks_manager_node (enlist child cv task s)) (pm_process_list (ks_proc_manager (enlist child cv task s))) (ps @ [child])"
    "pm_pid_count (ks_proc_manager (enlist child cv task s)) = pm_pid_count (ks_proc_manager s)"
proof -
  obtain il h where r: "intrusivelist_insert_tail (pr_threads cv) (ks_process_node s) task = (il, h)" by fastforce
  obtain il' h' where r': "intrusivelist_insert_tail (pm_process_list (ks_proc_manager s)) (ks_manager_node s) child = (il', h')" by fastforce
  have "il_rep h il [task]" using insert_tail_rep [OF il_rep_init, of task "ks_process_node s" il h] r assms(4) by simp
  moreover have "il_rep h' il' (ps @ [child])" using insert_tail_rep [OF assms(1-3) r'] by simp
  ultimately show thesis using that r r' by (simp add: enlist_def join_thread_def pm_insert_def set_proc_def)
qed

text \<open>What \<open>fork_task\<close> leaves: the state \<open>y\<close> with the new task ready to run on processor \<open>b\<close>.\<close>

definition fork_ready :: "u64 \<Rightarrow> Process \<Rightarrow> u64 \<Rightarrow> Task \<Rightarrow> u64 list \<Rightarrow> ('h, 'w, 'a) kss \<Rightarrow> ('h, 'w, 'a) kss \<Rightarrow> bool" where
  "fork_ready child cv task t ps x y \<longleftrightarrow> cx_same x y \<and> pm_get y = pm_get x \<and> ks_tasks y = (ks_tasks x)(task \<mapsto> t) \<and>
     (\<exists>il. ks_procs y = (ks_procs x)(child \<mapsto> cv\<lparr>pr_threads := il\<rparr>) \<and> il_rep (ks_process_node y) il [task]) \<and>
     il_rep (ks_manager_node y) (pm_process_list (ks_proc_manager y)) (ps @ [child]) \<and>
     pm_pid_count (ks_proc_manager y) = pm_pid_count (ks_proc_manager x) \<and>
     ks_parent_node y = ks_parent_node x \<and> ks_fdtables y = ks_fdtables x \<and> file_refs y = file_refs x \<and>
     (\<forall>c. cpu_current (ks_cpus y c) = cpu_current (ks_cpus x c))"

lemma fork_task_ok:
  assumes inv: "sched_inv rqs wqs x" "\<forall>c. length (rqs c) < 2 ^ 63 - 1" "\<exists>c < CONFIG_MAX_CPU_COUNT. cpu_online (ks_cpus x c)"
    and tm: "tm_inv ts x" "length ts + 1 < 2 ^ 64" and fb: "fresh_blocks mo ts x task h1 stack h2" and src: "ks_tasks x p = Some t"
    and new: "ks_tasks x task = None" "card (dom (ks_tasks x)) + 1 < 2 ^ 64"
    and ps: "il_rep (ks_manager_node x) (pm_process_list (ks_proc_manager x)) ps" "child \<notin> set ps" "length ps + 1 < 2 ^ 64"
    and cv: "ks_procs x child = Some cv" "pr_threads cv = intrusivelist_init" "pr_lock cv = spinlock_init"
    and fr: "length (frame_words fr) = 38"
  obtains y b where "fork_task mo child as p (Some fr) x = Some (y, child)" "cpu_online (ks_cpus x b)"
    "\<forall>c < CONFIG_MAX_CPU_COUNT. cpu_online (ks_cpus x c) \<longrightarrow> length (rqs b) \<le> length (rqs c)"
    "fork_ready child cv task (forked_task (Some child) (tm_task_id_count (ks_task_manager x)) (t_name t) stack (t_user_stack t)
       ((mo_fresh_task mo h1 task)\<lparr>t_cpu := Some b\<rparr>)) ps x y"
    "sched_inv (rqs(b := rqs b @ [task])) wqs y" "tm_inv (ts @ [task]) y"
    "\<And>i. i < 38 \<Longrightarrow> ks_stack_mem y (stack + TASK_STACK_SIZE - 304 + of_nat (8 * i)) = frame_words (fr\<lparr>ef_x := (ef_x fr)[0 := 0]\<rparr>) ! i"
proof -
  obtain s' b where s': "task_manager_create_user_from mo (Some child) p (Some fr) x = Some (s', task)" and b: "cpu_online (ks_cpus x b)"
    "\<forall>c < CONFIG_MAX_CPU_COUNT. cpu_online (ks_cpus x c) \<longrightarrow> length (rqs b) \<le> length (rqs c)"
    and a: "task_added task (forked_task (Some child) (tm_task_id_count (ks_task_manager x)) (t_name t) stack (t_user_stack t)
       ((mo_fresh_task mo h1 task)\<lparr>t_cpu := Some b\<rparr>)) x s'" and t': "tm_inv (ts @ [task]) s'"
    and mem: "\<And>i. i < length (frame_words fr) \<Longrightarrow> length (frame_words fr) = 38 \<Longrightarrow>
       ks_stack_mem s' (stack + TASK_STACK_SIZE - 304 + of_nat (8 * i)) = frame_words (fr\<lparr>ef_x := (ef_x fr)[0 := 0]\<rparr>) ! i"
    by (rule create_user_from_ok [OF inv tm fb src]) (rule that; assumption)
  define T where "T = forked_task (Some child) (tm_task_id_count (ks_task_manager x)) (t_name t) stack (t_user_stack t)
       ((mo_fresh_task mo h1 task)\<lparr>t_cpu := Some b\<rparr>)"
  have T: "t_waiting_on T = None" "t_state T = TASK_READY" "t_cpu T = Some b" "T\<lparr>t_waiting_on := None, t_state := TASK_READY\<rparr> = T"
    by (simp_all add: T_def forked_task_def user_task_def init_task_def)
  note a = a [folded T_def] and ad = a [folded T_def, unfolded task_added_def]
  let ?z = "enlist child cv task s'"
  let ?y = "make_ready task T b ?z"
  have inv1: "sched_inv rqs wqs s'" by (rule inv_new_task [OF inv(1) new T(1) a])
  have ok: "cx_ok s'" using sched_inv_free(1) [OF inv1] .
  have inv2: "sched_inv rqs wqs ?z" by (rule sched_inv_cong [OF _ _ _ _ _ _ _ inv1]) (use ok in simp_all)
  have e1: "process_add_thread child task (pm_insert child s') = Some (cx_sec ?z, ())"
    unfolding enlist_def
    by (rule process_add_thread_eq) (use ok cv ad in \<open>auto simp: pm_insert_def split_beta cx_ok_def\<close>)
  have e2: "scheduler_enqueue task (cx_sec ?z) = Some (cx_sec ?y, ())"
    using scheduler_enqueue_eq [of "cx_sec ?z" b task T] sched_inv_free(2) [OF inv2, of b] ok ad T by (simp add: rq_free_def rql.get_sec)
  have "fork_task mo child as p (Some fr) x = Some (cx_sec ?y, child)"
    using s' fb e1 e2 by (simp add: fork_task_def fresh_blocks_def Let_def)
  moreover have "sched_inv (rqs(b := rqs b @ [task])) wqs (cx_sec ?y)"
  proof -
    have "\<forall>d. task \<notin> set (rqs d)" using sched_inv_at [OF inv(1), of task] new(1) by (simp add: task_at_def)
    moreover have "\<forall>d. task \<notin> special (ks_cpus x d)" using inv(1) new(1) by (force simp: sched_inv_def cpus_ok_def)
    ultimately show ?thesis using inv_make_ready [OF inv2, of task T b] T ad by simp
  qed
  moreover obtain il where "ks_procs ?z = (ks_procs s')(child \<mapsto> cv\<lparr>pr_threads := il\<rparr>)" "il_rep (ks_process_node ?z) il [task]"
    "il_rep (ks_manager_node ?z) (pm_process_list (ks_proc_manager ?z)) (ps @ [child])"
    "pm_pid_count (ks_proc_manager ?z) = pm_pid_count (ks_proc_manager s')"
    using enlist_reps [of s' ps child cv task] ps cv(2) ad by metis
  then have "fork_ready child cv task T ps x (cx_sec ?y)"
    using ad T(4) by (auto simp: fork_ready_def pml.get_sec pm_get_def file_refs_def fun_eq_iff)
  moreover have "tm_inv (ts @ [task]) (cx_sec ?y)" using t' by (auto simp: tm_inv_def tm_get_def)
  moreover have "ks_stack_mem (cx_sec ?y) = ks_stack_mem s'" by simp
  ultimately show thesis using that b mem fr unfolding T_def by metis
qed

section \<open>The new process in the list of the manager\<close>

lemma irq_push_fields [simp]: "ks_process_node (irq_push_intr s) = ks_process_node (s :: ('h, 'w, 'a) kss)" "ks_global_node (irq_push_intr s) = ks_global_node s"
  "ks_stack_mem (irq_push_intr s) = ks_stack_mem s" "file_refs (irq_push_intr s) = file_refs s" "files_live (irq_push_intr s) = files_live s"
  by (simp_all add: irq_push_as_put cx_put_def file_refs_def fun_eq_iff files_live_def)

lemma wq_unused:
  assumes "sched_inv rqs wqs s" "wqs q = []"
  shows "ks_wqs s q = waitqueue_init"
proof -
  have "il_rep (ks_wait_node s) (waiters q s) []" using assms(2) ils_repD [OF sched_inv_reps(2) [OF assms(1)], of q] by simp
  then have "waiters q s = intrusivelist_init" by (rule il_rep_empty)
  moreover have "wq_get q s = spinlock_init" using sched_inv_free(3) [OF assms(1)] by (simp add: wq_free_def)
  ultimately show ?thesis by (simp add: wq_get_def waitqueue_init_def)
qed

lemma create_exec_from_ok:
  fixes s :: "('h, 'w, 'a) kss"
  assumes inv: "sched_inv rqs wqs s" "\<forall>c. length (rqs c) < 2 ^ 63 - 1" "\<exists>c < CONFIG_MAX_CPU_COUNT. cpu_online (ks_cpus s c)"
    and tm: "tm_inv ts s" "length ts + 1 < 2 ^ 64" and src: "ks_tasks s p = Some t"
    and par: "ks_procs s par = Some pv" "pr_files pv = Some files" "ks_fdtables s files = Some ft" "pr_address_space pv = Some src"
    and fd: "fd_inv ext ft s" "refs_bounded s"
    and m: "fork_memory mo src (fs_heap s) child h1 table h2 as h3" and wq: "wqs (WaitersOf child) = []"
    and fb: "fresh_blocks mo ts (s\<lparr>fs_heap := h3\<rparr>) task h4 stack h5" and new: "ks_tasks s task = None" "card (dom (ks_tasks s)) + 1 < 2 ^ 64"
    and pm: "pm_get s = spinlock_init" "il_rep (ks_manager_node s) (pm_process_list (ks_proc_manager s)) ps" "child \<notin> set ps" "length ps + 1 < 2 ^ 64"
    and fr: "length (frame_words fr) = 38"
  obtains s1 cv nt b il where "proc_manager_create_exec_from mo par p (Some fr) s = Some (s1, child)" "cx_same s s1"
    "cv = new_process child (pm_pid_count (ks_proc_manager s)) (pr_name pv) as table (mo_fresh_process mo h1 child)"
    "cpu_online (ks_cpus s b)" "\<forall>c < CONFIG_MAX_CPU_COUNT. cpu_online (ks_cpus s c) \<longrightarrow> length (rqs b) \<le> length (rqs c)"
    "ks_tasks s1 = (ks_tasks s)(task \<mapsto> forked_task (Some child) (tm_task_id_count (ks_task_manager s)) (t_name t) stack (t_user_stack t)
       ((mo_fresh_task mo h4 task)\<lparr>t_cpu := Some b\<rparr>))"
    "ks_procs s1 = (ks_procs s)(child \<mapsto> cv\<lparr>pr_threads := il\<rparr>)" "il_rep (ks_process_node s1) il [task]"
    "il_rep (ks_manager_node s1) (pm_process_list (ks_proc_manager s1)) (ps @ [child])" "pm_get s1 = spinlock_init"
    "pm_pid_count (ks_proc_manager s1) = pm_pid_count (ks_proc_manager s) + 1"
    "ks_parent_node s1 = intrusivelist_node_init child (ks_parent_node s)"
    "ks_fdtables s1 = (ks_fdtables s)(files \<mapsto> ft\<lparr>fdt_lock := spinlock_init\<rparr>, table \<mapsto> nt)"
    "fdt_files nt = fdt_files ft \<and> fdt_state nt = fdt_state ft \<and> fdt_close_on_exec nt = fdt_close_on_exec ft \<and> fd_wf nt"
    "\<forall>f. file_refs s1 f = file_refs s f + card (fd_slots ft f)" "\<forall>c. cpu_current (ks_cpus s1 c) = cpu_current (ks_cpus s c)"
    "sched_inv (rqs(b := rqs b @ [task])) wqs s1" "tm_inv (ts @ [task]) s1"
    "\<And>i. i < 38 \<Longrightarrow> ks_stack_mem s1 (stack + TASK_STACK_SIZE - 304 + of_nat (8 * i)) = frame_words (fr\<lparr>ef_x := (ef_x fr)[0 := 0]\<rparr>) ! i"
proof -
  define i where "i = irq_push_intr (pm_put (held_by s) s)"
  let ?cv = "new_process child (pm_pid_count (ks_proc_manager s)) (pr_name pv) as table (mo_fresh_process mo h1 child)"
  have ok: "cx_ok s" using sched_inv_free(1) [OF inv(1)] .
  have i: "ks_tasks i = ks_tasks s" "ks_procs i = ks_procs s" "ks_cpus i = ks_cpus s" "ks_wqs i = ks_wqs s" "ks_task_manager i = ks_task_manager s"
    "ks_runnable_node i = ks_runnable_node s" "ks_wait_node i = ks_wait_node s" "ks_fdtables i = ks_fdtables s" "ks_parent_node i = ks_parent_node s"
    "ks_manager_node i = ks_manager_node s" "ks_global_node i = ks_global_node s" "fs_heap i = fs_heap s" "tm_get i = tm_get s" "pm_get i = held_by s"
    "ks_proc_manager i = (ks_proc_manager s)\<lparr>pm_lock := held_by s\<rparr>" "cx_ok i" "file_refs i = file_refs s" "files_live i = files_live s"
    using ok by (simp_all add: i_def pm_put_def pm_get_def tm_get_def file_refs_def fun_eq_iff files_live_def cx_ok_def irq_push_as_put cx_put_def)
  have fdi: "fd_inv ext ft i" "refs_bounded i" using fd i(16-18) unfolding fd_inv_def refs_bounded_def by metis+
  have "ks_wqs i (WaitersOf child) = waitqueue_init" using wq_unused [OF inv(1) wq] i(4) by simp
  then obtain x nt where x: "fork_body mo par p (Some fr) i = fork_task mo child as p (Some fr) x" "fs_heap x = h3"
    "fork_copied child ?cv files ft table nt i x"
    using fork_copy_ok [OF fdi _ par(2) _ par(4), of par mo child h1 table h2 as h3 p "Some fr"] par(1,3) m i by (auto simp: pm_get_def)
  note xd = x(3) [unfolded fork_copied_def]
  have invx: "sched_inv rqs wqs x" by (rule sched_inv_cong [OF _ _ _ _ _ _ _ inv(1)]) (use xd i cx_same_ok [of i x] in simp_all)
  have tmx: "tm_inv ts x" using tm(1) xd i cx_same_ok [of i x] by (simp add: tm_inv_def tm_get_def)
  have fbx: "fresh_blocks mo ts x task h4 stack h5" using fb x(2) by (simp add: fresh_blocks_def)
  have px: "il_rep (ks_manager_node x) (pm_process_list (ks_proc_manager x)) ps" "ks_procs x child = Some ?cv"
    "pr_threads ?cv = intrusivelist_init" "pr_lock ?cv = spinlock_init" "ks_tasks x = ks_tasks s" "ks_cpus x = ks_cpus s"
    using pm(2) xd i by (simp_all add: new_process_def)
  obtain y b where y: "fork_task mo child as p (Some fr) x = Some (y, child)" and b: "cpu_online (ks_cpus x b)"
    "\<forall>c < CONFIG_MAX_CPU_COUNT. cpu_online (ks_cpus x c) \<longrightarrow> length (rqs b) \<le> length (rqs c)"
    and f: "fork_ready child ?cv task (forked_task (Some child) (tm_task_id_count (ks_task_manager x)) (t_name t) stack (t_user_stack t)
       ((mo_fresh_task mo h4 task)\<lparr>t_cpu := Some b\<rparr>)) ps x y"
    and iy: "sched_inv (rqs(b := rqs b @ [task])) wqs y" "tm_inv (ts @ [task]) y"
    and mem: "\<And>i. i < 38 \<Longrightarrow> ks_stack_mem y (stack + TASK_STACK_SIZE - 304 + of_nat (8 * i)) = frame_words (fr\<lparr>ef_x := (ef_x fr)[0 := 0]\<rparr>) ! i"
    by (rule fork_task_ok [OF invx inv(2) _ tmx tm(2) fbx _ _ _ px(1) pm(3,4) px(2-4) fr, of p t as])
      (use px(5,6) inv(3) src new in \<open>assumption | simp\<close>)+
  note fd' = f [unfolded fork_ready_def]
  have "cx_same i y" using xd fd' cx_same_trans by blast
  moreover have "cx_pushed s i" using irq_push_pushed [OF ok] by (simp add: i_def pml.put_push [symmetric] cx_pushed_def pml.put_fields)
  ultimately have "cx_pushed s y" using ok by (auto simp: cx_pushed_def cx_same_def cx_ok_def)
  moreover have "pm_get y = held_by s" using fd' xd i(14,15) by (simp add: pm_get_def)
  ultimately obtain s' where s': "with_lock pm_get pm_put (fork_body mo par p (Some fr)) s = Some (pm_put spinlock_init s', child)" "cx_same s s'"
    "cpu_ctx.more s' = cpu_ctx.more y"
    using pml.section_rel [of s "fork_body mo par p (Some fr)" y child] ok pm(1) x(1) y unfolding i_def by (auto simp: spinlock_init_def)
  let ?s1 = "pm_put spinlock_init s'"
  note e = kss_more [OF fss_more(6) [OF s'(3)]] fss_more(1,4) [OF s'(3)]
  have k: "ks_tasks ?s1 = ks_tasks y" "ks_procs ?s1 = ks_procs y" "ks_process_node ?s1 = ks_process_node y" "ks_manager_node ?s1 = ks_manager_node y"
    "ks_parent_node ?s1 = ks_parent_node y" "ks_fdtables ?s1 = ks_fdtables y" "file_refs ?s1 = file_refs y" "ks_stack_mem ?s1 = ks_stack_mem y"
    "ks_cpus ?s1 = ks_cpus y" "ks_proc_manager ?s1 = (ks_proc_manager y)\<lparr>pm_lock := spinlock_init\<rparr>" "cx_same s ?s1" "pm_get ?s1 = spinlock_init"
    using e s'(2) by (simp_all add: pm_put_def pm_get_def cx_same_def file_refs_def fun_eq_iff)
  have ok1: "cx_ok ?s1" using cx_same_ok [OF k(11) ok] .
  have "sched_inv (rqs(b := rqs b @ [task])) wqs ?s1" by (rule sched_inv_cong [OF _ _ _ _ _ _ _ iy(1)]) (use e ok1 in \<open>simp_all add: pm_put_def\<close>)
  moreover have "tm_inv (ts @ [task]) ?s1" using iy(2) e ok1 by (simp add: tm_inv_def tm_get_def pm_put_def)
  moreover obtain il where "ks_procs y = (ks_procs x)(child \<mapsto> ?cv\<lparr>pr_threads := il\<rparr>)" "il_rep (ks_process_node y) il [task]" using fd' by blast
  moreover have "proc_manager_create_exec_from mo par p (Some fr) s = Some (?s1, child)" using s'(1) by (simp only: create_exec_from_body)
  ultimately show thesis
    using that [of ?s1 ?cv b il nt] b mem fd' xd i k px(6) by simp
qed

section \<open>The new process below its parent\<close>

lemma join_child_fields [simp]: "ks_tasks (join_child par pv z s) = ks_tasks s" "ks_cpus (join_child par pv z s) = ks_cpus s"
  "ks_runnable_node (join_child par pv z s) = ks_runnable_node s" "ks_wait_node (join_child par pv z s) = ks_wait_node s"
  "ks_wqs (join_child par pv z s) = ks_wqs s" "ks_task_manager (join_child par pv z s) = ks_task_manager s"
  "ks_global_node (join_child par pv z s) = ks_global_node s" "ks_process_node (join_child par pv z s) = ks_process_node s"
  "ks_manager_node (join_child par pv z s) = ks_manager_node s" "ks_proc_manager (join_child par pv z s) = ks_proc_manager s"
  "ks_fdtables (join_child par pv z s) = ks_fdtables s" "fs_files (join_child par pv z s) = fs_files s"
  "ks_stack_mem (join_child par pv z s) = ks_stack_mem s" "cx_same s0 (join_child par pv z s) = cx_same s0 s" "cx_ok (join_child par pv z s) = cx_ok s"
  "ks_procs (join_child par pv z s) = (ks_procs s)(par \<mapsto> pv\<lparr>pr_children := fst (intrusivelist_insert_tail (pr_children pv) (ks_parent_node s) z)\<rparr>)"
  "ks_parent_node (join_child par pv z s) = snd (intrusivelist_insert_tail (pr_children pv) (ks_parent_node s) z)"
  by (simp_all add: join_child_def split_beta set_proc_def cx_ok_def cx_same_def)

lemma kids_join:
  assumes k: "kids_rep kids s" and p: "ks_procs s par = Some pv" and z: "ks_procs s z \<noteq> None" "\<forall>q. z \<notin> set (kids q)"
    and len: "length (kids par) + 1 < 2 ^ 64"
  shows "kids_rep (kids(par := kids par @ [z])) (join_child par pv z s)"
proof -
  obtain il h where r: "intrusivelist_insert_tail (pr_children pv) (ks_parent_node s) z = (il, h)" by fastforce
  have c: "children_of s par = pr_children pv" using p by (simp add: children_of_def)
  have "ils_rep h ((children_of s)(par := il)) (kids(par := kids par @ [z]))"
    using ils_insert_tail [of "ks_parent_node s" "children_of s" kids z par il h] k z r c len by (simp add: kids_rep_def)
  moreover have "children_of (join_child par pv z s) = (children_of s)(par := il)" using r by (auto simp: children_of_def)
  ultimately show ?thesis using k z(1) r by (auto simp: kids_rep_def)
qed

text \<open>A new process without children does not change the tree, nor does a change of anything but the children.\<close>

lemma kids_new:
  assumes k: "kids_rep kids s" and z: "ks_procs s z = None"
    and s': "ks_procs s' = (ks_procs s)(z \<mapsto> v)" "pr_children v = intrusivelist_init" "ks_parent_node s' = intrusivelist_node_init z (ks_parent_node s)"
  shows "kids_rep kids s'" "\<forall>q. z \<notin> set (kids q)"
proof -
  show n: "\<forall>q. z \<notin> set (kids q)" using k z unfolding kids_rep_def by metis
  have "children_of s' = children_of s" using s'(1,2) z by (auto simp: children_of_def)
  moreover have "ils_rep (ks_parent_node s') (children_of s) kids"
    by (rule ils_rep_cong [of "ks_parent_node s"]) (use k n s'(3) in \<open>auto simp: kids_rep_def intrusivelist_node_init_def set_next_def set_prev_def\<close>)
  ultimately show "kids_rep kids s'" using k s'(1) by (simp add: kids_rep_def)
qed

lemma kids_same:
  assumes "kids_rep kids s" "ks_procs s z = Some v" "pr_children v' = pr_children v"
    "ks_procs s' = (ks_procs s)(z \<mapsto> v')" "ks_parent_node s' = ks_parent_node s"
  shows "kids_rep kids s'"
proof -
  have "children_of s' = children_of s" using assms(2-4) by (auto simp: children_of_def)
  then show ?thesis using assms by (simp add: kids_rep_def)
qed

lemma dispatch_fork:
  "sc_arg fr 8 = 57 \<Longrightarrow> syscall_dispatch mo syscall_build_table fr s =
     Option.bind (sys_fork mo fr s) (\<lambda>(s, r). Some (s, map_option (\<lambda>r. (set_x0 (word_of_int (sr_ret r)) fr, sr_should_resched r)) r))"
  by (simp add: syscall_dispatch_def syscall_table_retrieve_def syscall_build_table_def MAX_SYSCALL_COUNT_def run_syscall_def)


text \<open>Process 0x9000 of the family forks: its child is 0xc000, with task 0xe000.\<close>

definition fork_mm :: "unit mm_ops" where
  "fork_mm = family_mm\<lparr>mo_heap := heap_example\<lparr>ho_kalloc := (\<lambda>_ n. Some ((), if n = sizeof_Process then 0xc000 else if n = 664 then 0xd000
       else if n = sizeof_Task then 0xe000 else 0x10000))\<rparr>, mo_address_space_create_from := (\<lambda>h _. Some (h, 0xf000, False))\<rparr>"


end
