(* ===== verification/Exception.thy ===== *)
theory Exception
  imports Syscalls
begin

text \<open>
  Synchronous exceptions (\<^verbatim>\<open>kernel/arch/aarch64/exception.c\<close>): decoding the syndrome register, the handler that
  tells system calls from faults, and the handler of the exceptions nothing is expected of. What they print
  has no effect on the kernel state and is left out. A handler that spins for ever is \<open>None\<close>.
\<close>

section \<open>Exception classes\<close>

record EcDecoded =
  ed_description :: string
  ed_skip_instr :: bool
  ed_halt :: bool

definition EC_DESCRIPTIONS :: "(u64 \<times> string) list" where
  "EC_DESCRIPTIONS =
    [(0x01, ''Wrapped WF* instruction execution''),
     (0x03, ''Trapped MCR or MRC access with coproc=0b1111''),
     (0x04, ''Trapped MCRR or MRRC access with coproc=0b1111''),
     (0x05, ''Trapped MCR or MRC access with coproc=0b1110''),
     (0x06, ''Trapped LDC or STC access''),
     (0x07, ''Trapped access to SVE, Advanced SIMD or floating point''),
     (0x0a, ''Trapped execution of an LD64B, ST64B, ST64BV, or ST64BV0 instruction''),
     (0x0c, ''Trapped MRRC access with (coproc==0b1110)''),
     (0x0d, ''Branch Target Exception''),
     (0x0e, ''Illegal Execution state''),
     (0x11, ''SVC instruction execution in AArch32 state''),
     (0x15, ''SVC instruction execution in AArch64 state''),
     (0x16, ''HVC instruction execution in AArch64 state''),
     (0x17, ''SMC instruction execution in AArch64 state''),
     (0x18, ''Trapped MSR, MRS or System instruction execution in AArch64 state''),
     (0x19, ''Access to SVE functionality trapped as a result of CPACR_EL1.ZEN, CPTR_EL2.ZEN, CPTR_EL2.TZ, or CPTR_EL3.EZ''),
     (0x1c, ''Exception from a Pointer Authentication instruction authentication failure''),
     (0x20, ''Instruction Abort from a lower Exception level''),
     (0x21, ''Instruction Abort taken without a change in Exception level''),
     (0x22, ''PC alignment fault exception''),
     (0x24, ''Data Abort from a lower Exception level''),
     (0x25, ''Data Abort taken without a change in Exception level''),
     (0x26, ''SP alignment fault exception''),
     (0x28, ''Trapped floating-point exception taken from AArch32 state''),
     (0x2c, ''Trapped floating-point exception taken from AArch64 state''),
     (0x2f, ''SError interrupt''),
     (0x30, ''Breakpoint exception from a lower Exception level''),
     (0x31, ''Breakpoint exception taken without a change in Exception level''),
     (0x32, ''Software Step exception from a lower Exception level''),
     (0x33, ''Software Step exception taken without a change in Exception level''),
     (0x34, ''Watchpoint exception from a lower Exception level''),
     (0x35, ''Watchpoint exception taken without a change in Exception level''),
     (0x38, ''BKPT instruction execution in AArch32 state''),
     (0x3c, ''BRK instruction execution in AArch64 state'')]"

definition esr_ec_decode :: "u64 \<Rightarrow> u64 \<Rightarrow> EcDecoded" where
  "esr_ec_decode ec iss =
     \<lparr>ed_description = (case map_of EC_DESCRIPTIONS ec of None \<Rightarrow> ''Unknown reason'' | Some d \<Rightarrow> d),
      ed_skip_instr = (ec = 0x3c), ed_halt = True\<rparr>"

definition decode_esr :: "u64 \<Rightarrow> EcDecoded" where
  "decode_esr esr = (let ec = EXTRACT_BITS esr 31 26; iss = EXTRACT_BITS esr 24 0 in esr_ec_decode ec iss)"

definition print_exception_class_info :: "ExceptionFrame \<Rightarrow> ExceptionFrame \<times> EcDecoded" where
  "print_exception_class_info frame =
     (let ec = decode_esr (ef_ESR_EL1 frame)
      in (if ed_skip_instr ec then frame\<lparr>ef_ELR_EL1 := ef_ELR_EL1 frame + 4\<rparr> else frame, ec))"

section \<open>The handlers\<close>

text \<open>The result is as for \<^verbatim>\<open>syscall_dispatch\<close>.\<close>

definition exception_handler ::
  "'h mm_ops \<Rightarrow> syscall_function_type option list \<Rightarrow> ExceptionFrame \<Rightarrow> ('h, 'w, 'a) kss \<Rightarrow>
   (('h, 'w, 'a) kss \<times> (ExceptionFrame \<times> bool) option) option" where
  "exception_handler mo tab frame s =
     (let s = irq_local_disable s in
      if is_syscall frame then syscall_dispatch mo tab frame s
      else (let (frame, ec) = print_exception_class_info frame
            in if ed_halt ec then None else Some (s, Some (frame, False))))"

definition unhandled_exception_handler :: "ExceptionFrame \<Rightarrow> ('h, 'w, 'a) kss \<Rightarrow> ('h, 'w, 'a) kss option" where
  "unhandled_exception_handler frame s = None"

section \<open>What comes back\<close>

text \<open>No exception but a system call ever comes back: a fault of a user program stops the processor it runs on.\<close>

lemma exception_handler_fault: "\<not> is_syscall frame \<Longrightarrow> exception_handler mo tab frame s = None"
  by (simp add: exception_handler_def print_exception_class_info_def decode_esr_def esr_ec_decode_def Let_def)

lemma exception_handler_syscall: "is_syscall frame \<Longrightarrow> exception_handler mo tab frame s = syscall_dispatch mo tab frame (irq_local_disable s)"
  by (simp add: exception_handler_def)

text \<open>A system call the table does not have leaves the kernel as it was, with interrupts masked, and the error in the first register.\<close>

lemma exception_handler_unknown:
  assumes "is_syscall frame" "syscall_table_retrieve tab (sc_arg frame 8) = None"
  shows "exception_handler mo tab frame s = Some (irq_local_disable s, Some (set_x0 (word_of_int (- ENOSYS)) frame, False))"
  using assms by (simp add: exception_handler_syscall syscall_dispatch_def)

text \<open>The classes of the table are six bits wide and have one description each; only a breakpoint instruction is skipped.\<close>

lemma ec_descriptions: "distinct (map fst EC_DESCRIPTIONS)" "\<forall>(ec, d)\<in>set EC_DESCRIPTIONS. ec < 64 \<and> d \<noteq> []"
  by (simp_all add: EC_DESCRIPTIONS_def)

end
