(* ===== verification/Log.thy ===== *)
theory Log
  imports Console Printf
begin

text \<open>
  Output on the console: \<^verbatim>\<open>printf\<close> and \<^verbatim>\<open>vprintf\<close> (\<^verbatim>\<open>kernel/debug/printf.c\<close>), the log (\<^verbatim>\<open>kernel/debug/log.c\<close>), and two of the
  devices the console writes to, semihosting (\<^verbatim>\<open>kernel/debug/semihosting.c\<close>) and the framebuffer
  (\<^verbatim>\<open>drivers/framebuffer/framebuffer.c\<close>), with the vendored terminal and the host as arguments.

  The buffers of these functions lie on the stack; their addresses are arguments. The variable arguments are a
  list, as in \<open>Printf\<close>. The dynamic log level is a number that the functions get.
\<close>

section \<open>Printing\<close>

definition PRINT_BUFFER_SIZE :: usize where "PRINT_BUFFER_SIZE = 2048"

text \<open>\<^verbatim>\<open>__vsnprintf\<close> into the memory at \<open>p\<close>.\<close>

definition format_at :: "u64 \<Rightarrow> usize \<Rightarrow> u8 list \<Rightarrow> va_arg list \<Rightarrow> ('w, 'a) css \<Rightarrow> (('w, 'a) css \<times> usize) option" where
  "format_at p buf_size fmt ap s = do {
     (b, wrote) \<leftarrow> vsnprintf (\<lambda>off. cs_bytes s (p + off)) buf_size fmt ap;
     Some (s\<lparr>cs_bytes := (\<lambda>a. b (a - p))\<rparr>, wrote)
   }"

definition vprintf :: "'w ConsoleOps \<Rightarrow> u64 \<Rightarrow> u8 list \<Rightarrow> va_arg list \<Rightarrow> ('w, 'a) css \<Rightarrow> ('w, 'a) css option" where
  "vprintf ops printf_buffer fmt ap s = do {
     (s, wrote) \<leftarrow> format_at printf_buffer PRINT_BUFFER_SIZE fmt ap s;
     (s, _) \<leftarrow> console_write ops (io_event_default printf_buffer wrote) s;
     Some s
   }"

definition printf :: "'w ConsoleOps \<Rightarrow> u64 \<Rightarrow> u8 list \<Rightarrow> va_arg list \<Rightarrow> ('w, 'a) css \<Rightarrow> ('w, 'a) css option" where
  "printf ops printf_buffer fmt ap s = vprintf ops printf_buffer fmt ap s"

section \<open>The log\<close>

definition individual_buffer_sizes :: usize where "individual_buffer_sizes = 1024"
definition level_buffer_size :: usize where "level_buffer_size = 20"

definition log_set_level :: "usize \<Rightarrow> u64 \<Rightarrow> u64" where
  "log_set_level level dynamic_log_level = level"

definition log_get_level :: "u64 \<Rightarrow> usize" where
  "log_get_level dynamic_log_level = dynamic_log_level"

text \<open>The formats \<^verbatim>\<open>[ %s ]\<close> and \<^verbatim>\<open> %s:%s:%d: \<close>.\<close>

definition level_fmt :: "u8 list" where "level_fmt = [91, 32, 37, 115, 32, 93]"
definition place_fmt :: "u8 list" where "place_fmt = [32, 37, 115, 58, 37, 115, 58, 37, 100, 58, 32]"

text \<open>The addresses of the three buffers are \<open>b0\<close>, \<open>b1\<close> and \<open>b2\<close>.\<close>

definition log_message ::
  "'w ConsoleOps \<Rightarrow> u64 \<Rightarrow> u64 \<Rightarrow> u64 \<Rightarrow> u64 \<Rightarrow> u8 list \<Rightarrow> u64 \<Rightarrow> IOColor \<Rightarrow> u8 list \<Rightarrow> u8 list \<Rightarrow> usize \<Rightarrow> u8 list \<Rightarrow> va_arg list \<Rightarrow>
   ('w, 'a) css \<Rightarrow> ('w, 'a) css option" where
  "log_message ops dynamic_log_level b0 b1 b2 level_str level color file_name func line fmt args s =
     (if level < dynamic_log_level then Some s
      else do {
        (s, wrote0) \<leftarrow> format_at b0 level_buffer_size level_fmt [VStr (Some level_str)] s;
        (s, wrote1) \<leftarrow> format_at b1 individual_buffer_sizes place_fmt [VStr (Some file_name), VStr (Some func), VInt (ucast line)] s;
        (s, wrote2) \<leftarrow> format_at b2 individual_buffer_sizes fmt args s;
        (s, _) \<leftarrow> console_write_multiple ops
          [\<lparr>ev_fg = IO_DEFAULT_COLOR_BG, ev_bg = color, ev_msg = b0, ev_len = wrote0\<rparr>,
           \<lparr>ev_fg = color, ev_bg = IO_DEFAULT_COLOR_BG, ev_msg = b1, ev_len = wrote1\<rparr>,
           \<lparr>ev_fg = color, ev_bg = IO_DEFAULT_COLOR_BG, ev_msg = b2, ev_len = wrote2\<rparr>] s;
        (s, _) \<leftarrow> console_flush ops s;
        Some s
      })"

definition user_log ::
  "'w ConsoleOps \<Rightarrow> u64 \<Rightarrow> u64 \<Rightarrow> u8 list \<Rightarrow> IOColor \<Rightarrow> u8 list \<Rightarrow> va_arg list \<Rightarrow> ('w, 'a) css \<Rightarrow> ('w, 'a) css option" where
  "user_log ops b0 b1 level_str color fmt args s = do {
     (s, wrote0) \<leftarrow> format_at b0 level_buffer_size level_fmt [VStr (Some level_str)] s;
     (s, wrote1) \<leftarrow> format_at b1 individual_buffer_sizes fmt args s;
     (s, _) \<leftarrow> console_write_multiple ops
       [\<lparr>ev_fg = IO_DEFAULT_COLOR_BG, ev_bg = color, ev_msg = b0, ev_len = wrote0\<rparr>,
        \<lparr>ev_fg = IO_DEFAULT_COLOR_FG, ev_bg = IO_DEFAULT_COLOR_BG, ev_msg = b1, ev_len = wrote1\<rparr>] s;
     (s, _) \<leftarrow> console_flush ops s;
     Some s
   }"

section \<open>Semihosting\<close>

text \<open>A call to the host has an operation and the bytes its parameter points to.\<close>

definition SH_SYS_EXIT :: usize where "SH_SYS_EXIT = 0x18"
definition SH_SYS_WRITEC :: usize where "SH_SYS_WRITEC = 0x03"
definition SH_SYS_WRITE0 :: usize where "SH_SYS_WRITE0 = 0x04"

definition sh_call :: "(usize \<Rightarrow> u8 list \<Rightarrow> 'w \<Rightarrow> 'w) \<Rightarrow> usize \<Rightarrow> u8 list \<Rightarrow> 'w \<Rightarrow> 'w" where
  "sh_call host oper params w = host oper params w"

definition sh_exit :: "(usize \<Rightarrow> u8 list \<Rightarrow> 'w \<Rightarrow> 'w) \<Rightarrow> u64 \<Rightarrow> 'w \<Rightarrow> 'w" where
  "sh_exit host code w = sh_call host SH_SYS_EXIT (map (\<lambda>i. ucast (drop_bit (8 * i) code)) [0..<8]) w"

definition sh_write0 :: "(usize \<Rightarrow> u8 list \<Rightarrow> 'w \<Rightarrow> 'w) \<Rightarrow> u8 list \<Rightarrow> 'w \<Rightarrow> 'w" where
  "sh_write0 host str w = sh_call host SH_SYS_WRITE0 str w"

definition sh_writec :: "(usize \<Rightarrow> u8 list \<Rightarrow> 'w \<Rightarrow> 'w) \<Rightarrow> u8 \<Rightarrow> 'w \<Rightarrow> 'w" where
  "sh_writec host ch w = sh_call host SH_SYS_WRITEC [ch] w"

definition sh_write_event :: "(usize \<Rightarrow> u8 list \<Rightarrow> 'w \<Rightarrow> 'w) \<Rightarrow> IOEvent \<Rightarrow> bytes \<Rightarrow> 'w \<Rightarrow> 'w" where
  "sh_write_event host event m w = fold (\<lambda>i. sh_writec host (m (ev_msg event + i))) (u64_range 0 (ev_len event)) w"

definition sh_flush :: "'w \<Rightarrow> 'w" where
  "sh_flush w = w"

definition sh_console_ops :: "(usize \<Rightarrow> u8 list \<Rightarrow> 'w \<Rightarrow> 'w) \<Rightarrow> 'w ConsoleOps" where
  "sh_console_ops host = \<lparr>cop_write = (\<lambda>_. sh_write_event host), cop_flush = (\<lambda>_. sh_flush)\<rparr>"

definition semihosting_init :: "u64 \<Rightarrow> ('w, 'a) css \<Rightarrow> (('w, 'a) css \<times> unit) option" where
  "semihosting_init sh_console_backend s = console_register_backend sh_console_backend s"

section \<open>The framebuffer\<close>

text \<open>The functions of the terminal library on its context; a missing context is \<open>None\<close>.\<close>

record ('t, 'w) flanterm =
  ft_fb_init :: "'w \<Rightarrow> 'w \<times> 't option"
  ft_set_text_bg :: "'t \<Rightarrow> u8 \<Rightarrow> bool \<Rightarrow> 'w \<Rightarrow> 'w"
  ft_set_text_fg :: "'t \<Rightarrow> u8 \<Rightarrow> bool \<Rightarrow> 'w \<Rightarrow> 'w"
  ft_write :: "'t \<Rightarrow> u8 list \<Rightarrow> 'w \<Rightarrow> 'w"
  ft_reset_text_bg :: "'t \<Rightarrow> 'w \<Rightarrow> 'w"
  ft_reset_text_fg :: "'t \<Rightarrow> 'w \<Rightarrow> 'w"
  ft_set_autoflush :: "'t \<Rightarrow> bool \<Rightarrow> 'w \<Rightarrow> 'w"
  ft_flush :: "'t \<Rightarrow> 'w \<Rightarrow> 'w"
  ft_deinit :: "'t \<Rightarrow> 'w \<Rightarrow> 'w"

text \<open>\<open>fb\<close> says whether the boot loader gave a framebuffer.\<close>

definition flanterm_init :: "('t, 'w) flanterm \<Rightarrow> bool \<Rightarrow> 'w \<Rightarrow> 'w \<times> 't option" where
  "flanterm_init ft fb w =
     (if \<not> fb then (w, None)
      else case ft_fb_init ft w of
        (w, None) \<Rightarrow> (w, None)
      | (w, Some ft_ctx) \<Rightarrow> (ft_set_autoflush ft ft_ctx False (ft_reset_text_fg ft ft_ctx (ft_reset_text_bg ft ft_ctx w)), Some ft_ctx))"

definition framebuffer_init :: "('t, 'w) flanterm \<Rightarrow> bool \<Rightarrow> u64 \<Rightarrow> ('w, 'a) css \<Rightarrow> (('w, 'a) css \<times> 't option \<times> errno_t) option" where
  "framebuffer_init ft fb framebuffer_backend s =
     (case flanterm_init ft fb (cs_world s) of
        (w, None) \<Rightarrow> Some (s\<lparr>cs_world := w\<rparr>, None, - EINVAL)
      | (w, Some ctx) \<Rightarrow> do {
          (s, _) \<leftarrow> console_register_backend framebuffer_backend (s\<lparr>cs_world := w\<rparr>);
          Some (s, Some ctx, EOK)
        })"

text \<open>\<open>ctx\<close> is the context the device has, \<open>None\<close> before the framebuffer was set up.\<close>

definition framebuffer_deinit :: "('t, 'w) flanterm \<Rightarrow> u64 \<Rightarrow> 't option \<Rightarrow> ('w, 'a) css \<Rightarrow> (('w, 'a) css \<times> errno_t) option" where
  "framebuffer_deinit ft framebuffer_device ctx s = do {
     c \<leftarrow> ctx;
     (s, _) \<leftarrow> console_unregister framebuffer_device s;
     Some (s\<lparr>cs_world := ft_deinit ft c (cs_world s)\<rparr>, EOK)
   }"

definition framebuffer_write_event :: "('t, 'w) flanterm \<Rightarrow> 't \<Rightarrow> IOEvent \<Rightarrow> bytes \<Rightarrow> 'w \<Rightarrow> 'w" where
  "framebuffer_write_event ft ctx event m w =
     (let w = ft_set_text_bg ft ctx (fst (ev_bg event)) (snd (ev_bg event)) w;
          w = ft_set_text_fg ft ctx (fst (ev_fg event)) (snd (ev_fg event)) w;
          w = ft_write ft ctx (map (\<lambda>i. m (ev_msg event + i)) (u64_range 0 (ev_len event))) w;
          w = ft_reset_text_bg ft ctx w
      in ft_reset_text_fg ft ctx w)"

definition framebuffer_flush :: "('t, 'w) flanterm \<Rightarrow> 't \<Rightarrow> 'w \<Rightarrow> 'w" where
  "framebuffer_flush ft ctx w = ft_flush ft ctx w"

section \<open>What is written\<close>

text \<open>A message below the dynamic level changes nothing.\<close>

lemma log_below_level: "level < dyn \<Longrightarrow> log_message ops dyn b0 b1 b2 l level c f fn n fmt args s = Some s"
  by (simp add: log_message_def)

text \<open>A host that collects the characters gets the message of an event, byte by byte.\<close>

lemma sh_write_event_sends:
  "sh_write_event (\<lambda>oper ps w. if oper = SH_SYS_WRITEC then w @ ps else w) event m w =
    w @ map (\<lambda>i. m (ev_msg event + i)) (u64_range 0 (ev_len event))"
proof -
  have "fold (\<lambda>i w. w @ [f i]) xs w = w @ map f xs" for f :: "u64 \<Rightarrow> u8" and xs w
    by (induction xs arbitrary: w) simp_all
  then show ?thesis by (simp add: sh_write_event_def sh_writec_def [abs_def] sh_call_def)
qed

text \<open>Formatting touches the memory at and behind the buffer only as far as the text goes: here, for a text without conversions.\<close>

lemma vsnprintf_plain:
  "\<forall>c\<in>set fmt. c \<noteq> 37 \<and> c \<noteq> 10 \<Longrightarrow> unat (snd b) + length fmt \<le> unat buf_size \<Longrightarrow>
    vsnprintf_loop buf_size fmt False ap b = Some (fold put_char fmt b)"
proof (induction fmt arbitrary: b)
  case (Cons c fmt)
  have "unat (snd b) < unat buf_size" using Cons.prems(2) by simp
  then have le: "\<not> snd b > buf_size" "unat (snd b + 1) = unat (snd b) + 1"
    using unat_u64_less [of buf_size] unat_add_u64 [of "snd b" 1] by (auto simp: word_less_nat_alt simp del: unat_u64_less)
  have "unat (snd (put_char c b)) + length fmt \<le> unat buf_size" using Cons.prems(2) le(2) by (simp add: put_char_def)
  then show ?case using Cons.IH [of "put_char c b"] Cons.prems(1) le(1) by simp
qed simp

end
