(* ===== verification/CpuInit.thy ===== *)
theory CpuInit
  imports Tasks IrqProps
begin

text \<open>
  Bringing up the processors (\<^verbatim>\<open>kernel/core/cpu.c\<close>): the start of a processor up to the point where it schedules its first
  task, and the boot processor waking the others. The processor is the one the state is the view of; what the others do
  while the boot processor waits, and setting the page table of the kernel, are arguments.
\<close>

section \<open>Starting a processor\<close>

text \<open>The sleeping queue of a processor is embedded in its structure.\<close>

definition common_cpu_init_tasks :: "'h mm_ops \<Rightarrow> ('h, 'w, 'a) kss \<Rightarrow> ('h, 'w, 'a) kss option" where
  "common_cpu_init_tasks mo s = do {
     let s = upd_this_cpu (\<lambda>c. c\<lparr>cpu_cpuid := of_nat (cpu_get_cpuid s)\<rparr>) s;
     let s = upd_this_cpu (\<lambda>c. c\<lparr>cpu_runnable_tasks := runqueue_init, cpu_sleeping_tasks := SleepingTasks (cx_cpu s)\<rparr>) s;
     let s = set_wq (SleepingTasks (cx_cpu s)) waitqueue_init s;
     (s, idle) \<leftarrow> task_manager_create_idle_task mo s;
     let s = upd_this_cpu (\<lambda>c. c\<lparr>cpu_idle := Some idle\<rparr>) s;
     ASSERT (\<not> IS_ERR idle);
     let s = upd_this_cpu (\<lambda>c. c\<lparr>cpu_current := None, cpu_online := True, cpu_needs_resched := False\<rparr>) s;
     (s, cleanup) \<leftarrow> task_manager_create_cleanup_task mo s;
     let s = upd_this_cpu (\<lambda>c. c\<lparr>cpu_cleanup_task := Some cleanup\<rparr>) s;
     ASSERT (\<not> IS_ERR cleanup);
     Some (upd_this_cpu (\<lambda>c. c\<lparr>cpu_needs_cleanup := False\<rparr>) s)
   }"

text \<open>The count of started processors is shared; the last argument and the second result are it before and after.\<close>

definition init_secondary_cpu ::
  "'h mm_ops \<Rightarrow> ('m, ('h, 'w, 'm, 'a) iss) irq_env \<Rightarrow> (('h, 'w, 'm, 'a) iss \<Rightarrow> ('h, 'w, 'm, 'a) iss option) \<Rightarrow> ('h, 'w, 'm, 'a) iss \<Rightarrow> u64 \<Rightarrow>
   (('h, 'w, 'm, 'a) iss \<times> u64) option" where
  "init_secondary_cpu mo env vm_set_kernel_page_table s cpus_enabled_count = do {
     s \<leftarrow> vm_set_kernel_page_table s;
     let s = upd_this_cpu (\<lambda>c. c\<lparr>cpu_cpuid := of_nat (cpu_get_cpuid s)\<rparr>) s;
     s \<leftarrow> timer_cpu_init env s;
     s \<leftarrow> timer_cpu_enable env s;
     s \<leftarrow> common_cpu_init_tasks mo s;
     let s = w_intrd_enable s;
     let cpus_enabled_count = cpus_enabled_count + 1;
     s \<leftarrow> sched_yield mo s;
     Some (s, cpus_enabled_count)
   }"

text \<open>The processors that the boot processor starts, by their identification.\<close>

definition woken_cpus :: "u64 \<Rightarrow> u64 list \<Rightarrow> u64 list" where
  "woken_cpus bsp_mpidr cpus = filter (\<lambda>mpidr. bsp_mpidr \<noteq> mpidr) cpus"

text \<open>Waiting until the count is that of the boot loader; \<open>others\<close> is a round of the other processors.\<close>

partial_function (option) wait_for_cpus :: "('s \<times> u64 \<Rightarrow> 's \<times> u64) \<Rightarrow> u64 \<Rightarrow> 's \<times> u64 \<Rightarrow> ('s \<times> u64) option" where
  "wait_for_cpus others cpu_count x = (if cpu_count \<noteq> snd x then wait_for_cpus others cpu_count (others x) else Some x)"

definition wake_secondary_cpus_and_wait ::
  "'h mm_ops \<Rightarrow> (u64 \<Rightarrow> ('h, 'w, 'm, 'a) iss \<Rightarrow> ('h, 'w, 'm, 'a) iss) \<Rightarrow> (('h, 'w, 'm, 'a) iss \<times> u64 \<Rightarrow> ('h, 'w, 'm, 'a) iss \<times> u64) \<Rightarrow>
   u64 \<Rightarrow> u64 list \<Rightarrow> ('h, 'w, 'm, 'a) iss \<Rightarrow> u64 \<Rightarrow> (('h, 'w, 'm, 'a) iss \<times> u64) option" where
  "wake_secondary_cpus_and_wait mo wake_secondary_cpu others bsp_mpidr cpus s cpus_enabled_count = do {
     let s = upd_this_cpu (\<lambda>c. c\<lparr>cpu_online := True\<rparr>) s;
     let s = fold wake_secondary_cpu (woken_cpus bsp_mpidr cpus) s;
     s \<leftarrow> common_cpu_init_tasks mo s;
     wait_for_cpus others (of_nat (length cpus)) (s, cpus_enabled_count)
   }"

section \<open>The processor after its start\<close>

text \<open>
  A processor that has started is online, with no current task, with the idle and the cleanup task the task manager made for it and an
  empty run queue that nobody holds.
\<close>

lemma create_own_task_kept:
  assumes "create_own_task mo f tid name s = Some (s', task)"
  shows "ks_cpus s' = ks_cpus s \<and> cx_cpu s' = cx_cpu s"
proof -
  have "task_init mo p x f a i n s = Some (s', e) \<Longrightarrow> ks_cpus s' = ks_cpus s \<and> cx_cpu s' = cx_cpu s"
    for p x f a i n e and s s' :: "('a, 'b, 'c) kss"
    by (auto simp: task_init_def set_task_def bind_eq_Some_conv Let_def split: if_splits)
  then show ?thesis using assms
    by (fastforce simp: create_own_task_def set_task_def bind_eq_Some_conv Let_def split: if_splits)
qed

lemma upd_cpu_fields [simp]:
  "cx_cpu (set_cpu c v s) = cx_cpu s" "ks_wqs (set_cpu c v s) = ks_wqs s" "ks_cpus (set_cpu c v s) = (ks_cpus s)(c := v)"
  "ks_tasks (set_cpu c v s) = ks_tasks s" "cx_cpu (set_wq q w s) = cx_cpu s" "ks_cpus (set_wq q w s) = ks_cpus s"
  by (simp_all add: set_cpu_def set_wq_def)

lemma common_cpu_init_tasks_ok:
  assumes "common_cpu_init_tasks mo s = Some s'"
  shows "cx_cpu s' = cx_cpu s" "cpu_online (this_cpu s')" "cpu_current (this_cpu s') = None" "\<not> cpu_needs_resched (this_cpu s')"
    "cpu_runnable_tasks (this_cpu s') = runqueue_init" "cpu_sleeping_tasks (this_cpu s') = SleepingTasks (cx_cpu s)"
    "\<exists>idle cleanup. cpu_idle (this_cpu s') = Some idle \<and> cpu_cleanup_task (this_cpu s') = Some cleanup \<and> \<not> IS_ERR idle \<and> \<not> IS_ERR cleanup"
    "\<And>d. d \<noteq> cx_cpu s \<Longrightarrow> ks_cpus s' d = ks_cpus s d"
  using assms
  by (auto simp: common_cpu_init_tasks_def task_manager_create_idle_task_def task_manager_create_cleanup_task_def this_cpu_def
      Let_def bind_eq_Some_conv ASSERT_def split: if_splits dest!: create_own_task_kept)

end
