(* ===== verification/Spec2Isabelle.thy ===== *)
theory Spec2Isabelle
  imports IntrusiveList RingBuffer Region FreeList FDTable SchedProps SyncProps TaskProps Syscalls PagingProps
    UaccessProps ElfProps Printf LinkedList ConsoleProps IrqProps VirtioProps ForkCall Exception Log CpuInit
begin

text \<open>
  This development models KaworuOS, a small operating system kernel for 64-bit ARM, and proves what its parts
  promise. Paths of source files are relative to \<^verbatim>\<open>src/\<close>.

  THE PROGRAM AND ITS PARTS

  The kernel is layered. At the bottom is a library: error pointers, lists, a ring buffer, strings and four
  allocators (\<^verbatim>\<open>lib/\<close>). Spinlocks mask interrupts and count how deep they are nested (\<^verbatim>\<open>kernel/sync/spinlock.c\<close>,
  \<^verbatim>\<open>kernel/irq/irq_controller.c\<close>). On these rest two stacks. The first is memory: the memory map of the boot loader
  feeds the allocator of physical pages; page tables are built from such pages; the virtual memory manager maps pages at
  addresses that a region allocator hands out; the kernel heap is a free list that grows through the virtual
  memory manager; address spaces of processes, the copies from and to user memory and the loader of programs
  use all of it (\<^verbatim>\<open>kernel/mm\<close>, \<^verbatim>\<open>kernel/exec\<close>). The second is execution: run queues and wait queues are intrusive
  lists of tasks under locks; the scheduler moves tasks between them and switches; mutexes, semaphores and
  completions block on wait queues; the task manager creates tasks and frees dead ones; the process manager
  creates processes, forks and destroys them; descriptor tables share reference counted files; system calls are
  the entry from user mode (\<^verbatim>\<open>kernel/sched\<close>, \<^verbatim>\<open>kernel/sync\<close>, \<^verbatim>\<open>kernel/core\<close>, \<^verbatim>\<open>kernel/syscall\<close>, \<^verbatim>\<open>fs\<close>). Beside them are
  the devices: the device tree describes them, the driver manager matches drivers to them, the interrupt controller
  delivers their interrupts to the dispatcher, the timer drives the scheduler, the console writes to its backends,
  and the block layer reaches disks through the virtio driver (\<^verbatim>\<open>drivers\<close>, \<^verbatim>\<open>kernel/boot\<close>, \<^verbatim>\<open>kernel/irq\<close>, \<^verbatim>\<open>kernel/io\<close>).

  HOW THE CODE IS MODELLED

  A C function is a HOL function on the state it works on. A function that may stop the machine returns an
  option: \<open>None\<close> is a panic, a failed \<^verbatim>\<open>ASSERT\<close>, an access through a null, freed or out-of-range pointer (the handler of such a
  fault never returns, theory \<open>Exception\<close>), or a loop that does not end. So a theorem whose conclusion
  is of the form \<open>f x = Some y\<close> says that the code returns, without any of these. Error codes are ordinary results: \<open>errno_t\<close> is an \<open>int\<close>, 0
  or a negated constant of \<^verbatim>\<open>lib/error.h\<close>, and error pointers are the top addresses of the address space.
  Integers are words of their width, with wrap-around.

  The states are records that extend each other, so that a component uses the operations of those below it
  on its own state. \<open>cpu_ctx\<close> (theory \<open>SpinLock\<close>) is the interrupt state of the processor whose view the state is. It is
  extended by \<open>fs_state\<close> (files), \<open>kstate\<close> (tasks, processes, processors, queues), then \<open>sync_state\<close> (blocking locks) or
  \<open>irq_state\<close> (interrupt controller, timer); by \<open>mem_state\<close>, \<open>vm_state\<close>, \<open>heap_state\<close>, \<open>as_state\<close> (memory);
  by \<open>cons_state\<close> (console); by \<open>dev_state\<close> (driver manager). Objects on the heap are in partial maps from their addresses,
  embedded list nodes in one store per member; memory that the code treats as words or bytes is a map from
  addresses.

  What a component asks of the memory system in the process layer is the argument \<open>mo\<close> (\<open>mm_ops\<close>) there, the heap the
  argument \<open>kh\<close> (\<open>heap_ops\<close>); the functions with the same names are modelled on their own in the memory theories, with
  the suffix \<^verbatim>\<open>_mm\<close> where names would clash. Code outside the repository, the libraries libfdt and Flanterm, the boot loader's
  answers and the hardware behind registers, is an argument too (\<open>libfdt\<close>, \<open>mmio\<close>, \<open>irq_env\<close>, \<open>blk_env\<close>, \<open>drv_ops\<close>).

  Loops over a count or a list are structural recursion. A loop whose end depends on memory (following pointers, waiting
  for a flag) is a \<open>partial_function\<close> with the result \<open>None\<close> when it never ends; no fuel is used anywhere. A loop in which the
  calling task blocks is modelled by one round, whose result says whether the caller returned or another task runs
  now; the next round happens when the task is resumed (\<open>Sync\<close>, \<open>Tasks\<close>, \<open>Syscalls\<close>). Memory barriers, cache maintenance and flushes of
  the translation cache have no effect in the model, and log messages are left out where they only print.

  THE THEORIES

  Foundations. \<open>KPrelude\<close>: types, errors and macros (\<^verbatim>\<open>lib/types.h\<close>, \<^verbatim>\<open>lib/error.[ch]\<close>, \<^verbatim>\<open>lib/common_defs.h\<close>,
  \<^verbatim>\<open>kernel/memlayout.h\<close>). \<open>BitField\<close>: the bit fields of \<^verbatim>\<open>kernel/mm/paging.h\<close>. Interfaces as locales: \<open>Fifo\<close> (queues;
  interpreted by the intrusive list and the ring buffer), \<open>Allocator\<close> (allocators; interpreted by the region allocator and the
  free list), \<open>ScopedLock\<close> (places that hold a lock; interpreted by the locks of the kernel, memory, console and device states), \<open>SyncLock\<close> (locks
  with waiters; interpreted by mutex and semaphore).

  Library. \<open>IntrusiveList\<close> (\<^verbatim>\<open>lib/ds/intrusivelist.c\<close>), \<open>ListFamily\<close> (several lists over one node member),
  \<open>LinkedList\<close> (\<^verbatim>\<open>lib/ds/linkedlist.c\<close>), \<open>RingBuffer\<close> (\<^verbatim>\<open>lib/ds/ringbuffer.c\<close>), \<open>Bitmap\<close>, \<open>Region\<close>, \<open>FreeList\<close>, \<open>Arena\<close>
  (\<^verbatim>\<open>lib/allocator\<close>), \<open>CString\<close> (\<^verbatim>\<open>lib/string.c\<close>, \<^verbatim>\<open>lib/ctype.h\<close>, \<^verbatim>\<open>lib/stdlib.c\<close>), \<open>Printf\<close> (\<^verbatim>\<open>kernel/debug/printf.c\<close>).
  The lemmas are refinements: lists in memory behave as sequences, the bitmap as a set of pages with first-fit search,
  the free list as an ordered list of disjoint blocks that loses no byte, the ring buffer as a bounded queue, and runs of
  allocations never hand out overlapping blocks.

  Locks and files. \<open>SpinLock\<close> (\<^verbatim>\<open>kernel/sync/spinlock.c\<close>, nesting of \<^verbatim>\<open>kernel/irq/irq_controller.c\<close>; one processor's view,
  and a step relation of any number of processors for mutual exclusion), \<open>File\<close> (\<^verbatim>\<open>fs/file.c\<close>, \<^verbatim>\<open>kernel/sync/refcount.c\<close>),
  \<open>FDTable\<close> (\<^verbatim>\<open>kernel/core/fd_table.c\<close>): counts equal the references that exist.

  Execution. \<open>KState\<close> (the structures of \<^verbatim>\<open>kernel/core\<close>), \<open>Queues\<close> (\<^verbatim>\<open>kernel/sync/run_queue.c\<close>, \<^verbatim>\<open>wait_queue.c\<close>),
  \<open>Scheduler\<close> (\<^verbatim>\<open>kernel/sched\<close>). The scheduler's invariant and its proofs are in \<open>SchedInv\<close>, \<open>SchedWake\<close>, \<open>SchedSwitch\<close>,
  \<open>SchedMain\<close>, its properties in \<open>SchedProps\<close>, and \<open>SchedFrame\<close> shows that it leaves the rest of the state alone. \<open>Sync\<close> with
  \<open>SyncProps\<close> (\<^verbatim>\<open>mutex.c\<close>, \<^verbatim>\<open>semaphore.c\<close>, \<^verbatim>\<open>completion.c\<close>), \<open>Processes\<close> (\<^verbatim>\<open>process.c\<close>), \<open>Tasks\<close> with \<open>TaskProps\<close> (\<^verbatim>\<open>task.c\<close>,
  \<^verbatim>\<open>task_manager.c\<close>), \<open>ProcManager\<close> (\<^verbatim>\<open>process_manager.c\<close>), \<open>Syscalls\<close> (\<^verbatim>\<open>kernel/syscall\<close>) with
  \<open>ExitWait\<close>, \<open>WaitProps\<close>, \<open>ForkProps\<close> and \<open>ForkCall\<close>, \<open>Exception\<close>
  (\<^verbatim>\<open>kernel/arch/aarch64/exception.c\<close>), \<open>CpuInit\<close> (\<^verbatim>\<open>kernel/core/cpu.c\<close>).
  The properties: a switch keeps the invariant and reaches the next task, the round robin runs every task, a tick wakes
  exactly the due sleepers, a mutex has one owner, a semaphore conserves its units, no wakeup is lost, a created task is
  found by its id, the cleanup frees exactly the dead tasks, a fork gives the parent a running copy of itself as its last child,
  an exiting process wakes its parent, and a parent that waits blocks or reaps its first dead child.

  Memory. \<open>Pmm\<close> (\<^verbatim>\<open>kernel/boot/memmap.c\<close>, \<^verbatim>\<open>kernel/mm/pmm.c\<close>), \<open>Paging\<close> (\<^verbatim>\<open>paging.c\<close>) with \<open>PagingTree\<close> and \<open>PagingProps\<close>, \<open>Vmm\<close>
  (\<^verbatim>\<open>vmm.c\<close>), \<open>KHeap\<close> (\<^verbatim>\<open>kheap.c\<close>), \<open>AddressSpace\<close> (\<^verbatim>\<open>address_space.c\<close>), \<open>Uaccess\<close> with \<open>UaccessProps\<close> (\<^verbatim>\<open>uaccess.c\<close>), \<open>Elf\<close>
  with \<open>ElfProps\<close> (\<^verbatim>\<open>kernel/exec/elf.c\<close>). The properties: mapping a range translates exactly that range and unmapping restores
  the translation, copies to user memory are read back, accepted program headers stay inside the file and
  the user range, and a page of a segment holds the bytes of the file.

  Devices. \<open>Registers\<close> (\<^verbatim>\<open>lib/register.h\<close>), \<open>Fdt\<close> (\<^verbatim>\<open>kernel/boot/fdt.c\<close>), \<open>Devices\<close> (\<^verbatim>\<open>drivers/common\<close>, \<^verbatim>\<open>fs/block.c\<close>), \<open>Drivers\<close>
  (\<^verbatim>\<open>drivers/irqchip/arm-gicv2.c\<close>, \<^verbatim>\<open>drivers/uart/pl011.c\<close>), \<open>Irq\<close> with \<open>IrqProps\<close> (\<^verbatim>\<open>kernel/irq\<close>, \<^verbatim>\<open>kernel/core/timer.c\<close>,
  \<^verbatim>\<open>drivers/timer/arm-timer.c\<close>), \<open>Virtio\<close> with \<open>VirtioProps\<close> (\<^verbatim>\<open>drivers/virtio\<close>), \<open>Console\<close> with \<open>ConsoleProps\<close>
  (\<^verbatim>\<open>kernel/io/console.c\<close>), \<open>Log\<close> (\<^verbatim>\<open>kernel/debug/log.c\<close>, \<^verbatim>\<open>semihosting.c\<close>, \<^verbatim>\<open>drivers/framebuffer\<close>). The properties: a timer interrupt goes through
  controller, dispatcher and tick to the woken sleepers and the request for a switch; a sector written over a device that
  follows the virtio specification is read back; a register property is decoded as it is encoded; the
  console delivers every message to every backend in order.

  WHAT IS NOT MODELLED

  \<^verbatim>\<open>kernel_main\<close>, which calls the init functions of the components in order: each is modelled over the state of its own
  component, and there is no single state of all of them. The requests to the boot loader, static data that it fills. The assembly
  files and the inline assembly but for the interrupt mask, the timer registers and the table registers; what
  they do to tasks is in \<open>context_switch\<close> and in the frames of tasks. \<^verbatim>\<open>print_double\<close> of the formatter, whose pointer leaves its
  variable at the first digit, so that it has no defined result. Declarations of the ELF format that the kernel does not use.
  User programs, build files and vendored libraries.

  Interleaving of processors is modelled for the spinlock and, in whole operations, for the blocking locks; everywhere else
  the state is the view of one processor, and what is done under a lock is one step. The compare-and-exchange
  loops of reference counts are one step as well. The lock of the kernel heap has no effect on the interrupt
  state in the process layer, where the heap is an argument.
\<close>

end
